(* ===== verification/Talk_Prelude.thy ===== *)
theory Talk_Prelude
  imports Complex_Main "HOL-Library.Word" "HOL-Library.AList" "HOL-Library.List_Lexorder"
    "HOL-Library.Multiset"
begin

text \<open>
  Shared vocabulary of the development: the machine integer types of the Rust sources, byte
  strings, little-endian integers, slices with Rust's bounds rules, saturating arithmetic and
  hash maps. Every component theory builds on these definitions and on the simp and intro rules
  proved here.
\<close>

unbundle bit_operations_syntax

section \<open>Types\<close>

text \<open>
  Fixed-width integers are words. Signed integers (\<open>i16\<close>, \<open>i32\<close>, \<open>i64\<close>) are words too, read with
  \<open>sint\<close> or compared with \<open><s\<close> where the code compares them as signed. A Rust \<open>String\<close> is
  its sequence of UTF-8 bytes. \<open>usize\<close> values are lengths and indices of buffers that fit in
  memory, and are natural numbers.
\<close>

type_synonym u8 = "8 word"
type_synonym u16 = "16 word"
type_synonym u32 = "32 word"
type_synonym u64 = "64 word"
type_synonym i16 = "16 word"
type_synonym i32 = "32 word"
type_synonym bytes = "8 word list"
type_synonym rstring = "8 word list"

text \<open>
  The outcome of a call that may fail: a value, an error return (\<open>Result::Err\<close>), or a panic
  (index out of range, failed \<open>unwrap\<close>, slicing inside a character). Panics are values so that
  their absence is a theorem and not an assumption.
\<close>

datatype ('e, 'a) outcome = Ok 'a | Err 'e | Panic

fun bind_outcome :: "('e, 'a) outcome \<Rightarrow> ('a \<Rightarrow> ('e, 'b) outcome) \<Rightarrow> ('e, 'b) outcome" where
  "bind_outcome (Ok x) f = f x"
| "bind_outcome (Err e) f = Err e"
| "bind_outcome Panic f = Panic"

fun map_err :: "('e \<Rightarrow> 'f) \<Rightarrow> ('e, 'a) outcome \<Rightarrow> ('f, 'a) outcome" where
  "map_err f (Ok x) = Ok x"
| "map_err f (Err e) = Err (f e)"
| "map_err f Panic = Panic"

lemma bind_outcome_Ok_iff:
  "bind_outcome m f = Ok y \<longleftrightarrow> (\<exists>x. m = Ok x \<and> f x = Ok y)"
  by (cases m) auto

lemma bind_outcome_no_panic:
  "m \<noteq> Panic \<Longrightarrow> (\<And>x. m = Ok x \<Longrightarrow> f x \<noteq> Panic) \<Longrightarrow> bind_outcome m f \<noteq> Panic"
  by (cases m) auto

lemma bind_outcome_Panic_iff:
  "bind_outcome m f = Panic \<longleftrightarrow> m = Panic \<or> (\<exists>x. m = Ok x \<and> f x = Panic)"
  by (cases m) auto

text \<open>With this rule the simplifier works through a chain of binds from the left.\<close>

lemma bind_outcome_weak_cong: "m = m' \<Longrightarrow> bind_outcome m f = bind_outcome m' f"
  by simp

text \<open>Readings of the monotonic clock, in nanoseconds.\<close>

type_synonym instant = nat

definition millis :: "nat \<Rightarrow> instant" where "millis n = n * 1000000"

text \<open>Collections used across the components.\<close>

named_theorems codec_simps \<open>unfolding rules of encoders and decoders\<close>
named_theorems le_simps \<open>length and round-trip rules of little-endian integers\<close>

section \<open>Byte literals and little-endian integers\<close>

text \<open>The bytes of an ASCII literal such as \<open>b"STCP"\<close>.\<close>

definition ascii :: "string \<Rightarrow> bytes" where
  "ascii s = map (\<lambda>c. word_of_nat (of_char c)) s"

lemma length_ascii [simp]: "length (ascii s) = length s"
  by (simp add: ascii_def)

lemma ascii_eq_Nil [simp]: "ascii s = [] \<longleftrightarrow> s = []"
  by (simp add: ascii_def)

text \<open>\<open>to_le_bytes\<close> of an \<open>n\<close>-byte integer, and \<open>from_le_bytes\<close>.\<close>

fun to_le :: "nat \<Rightarrow> 'a::len word \<Rightarrow> bytes" where
  "to_le 0 w = []"
| "to_le (Suc n) w = ucast w # to_le n (drop_bit 8 w)"

fun from_le :: "bytes \<Rightarrow> 'a::len word" where
  "from_le [] = 0"
| "from_le (b # bs) = ucast b OR push_bit 8 (from_le bs)"

lemma length_to_le [simp, le_simps]: "length (to_le n w) = n"
  by (induction n arbitrary: w) auto

lemma from_le_to_le_take_bit: "(from_le (to_le n w) :: 'a::len word) = take_bit (8 * n) w"
proof (induction n arbitrary: w)
  case 0
  then show ?case by simp
next
  case (Suc n)
  show ?case
    by (rule bit_word_eqI) (auto simp: Suc bit_simps)
qed

lemma from_le_to_le [simp, le_simps]:
  "LENGTH('a::len) \<le> 8 * n \<Longrightarrow> from_le (to_le n w) = (w :: 'a word)"
  by (simp add: from_le_to_le_take_bit take_bit_word_eq_self)

lemma to_le_take_bit: "8 * n \<le> m \<Longrightarrow> to_le n (take_bit m w) = to_le n (w :: 'a::len word)"
proof (induction n arbitrary: m w)
  case 0
  then show ?case by simp
next
  case (Suc n)
  have "ucast (take_bit m w) = (ucast w :: u8)"
    using Suc.prems by (intro bit_word_eqI) (auto simp: bit_simps)
  moreover have "drop_bit 8 (take_bit m w) = take_bit (m - 8) (drop_bit 8 w)"
    by (simp add: drop_bit_take_bit)
  ultimately show ?case using Suc by simp
qed

lemma from_le_Cons_low:
  "8 \<le> LENGTH('a::len) \<Longrightarrow> ucast (from_le (b # bs) :: 'a word) = b"
  by (intro bit_word_eqI) (auto simp: bit_simps)

lemma from_le_Cons_high:
  "8 \<le> LENGTH('a::len) \<Longrightarrow>
   drop_bit 8 (from_le (b # bs) :: 'a word) = take_bit (LENGTH('a) - 8) (from_le bs)"
  by (intro bit_word_eqI) (auto simp: bit_simps dest: bit_imp_le_length)

lemma to_le_from_le:
  "8 * length bs \<le> LENGTH('a::len) \<Longrightarrow> to_le (length bs) (from_le bs :: 'a word) = bs"
proof (induction bs)
  case Nil
  then show ?case by simp
next
  case (Cons b bs)
  then have len: "8 \<le> LENGTH('a)" "8 * length bs \<le> LENGTH('a) - 8" by simp_all
  have "to_le (length (b # bs)) (from_le (b # bs) :: 'a word) =
      b # to_le (length bs) (take_bit (LENGTH('a) - 8) (from_le bs :: 'a word))"
    unfolding length_Cons to_le.simps from_le_Cons_low [OF len(1)] from_le_Cons_high [OF len(1)] ..
  also have "\<dots> = b # to_le (length bs) (from_le bs :: 'a word)"
    using len(2) by (simp add: to_le_take_bit)
  also have "\<dots> = b # bs"
    using Cons by simp
  finally show ?case .
qed

lemma to_le_from_le_length:
  "length bs = n \<Longrightarrow> 8 * n \<le> LENGTH('a::len) \<Longrightarrow> to_le n (from_le bs :: 'a word) = bs"
  using to_le_from_le by blast

lemma to_le_inject:
  "LENGTH('a::len) \<le> 8 * n \<Longrightarrow> to_le n v = to_le n w \<longleftrightarrow> v = (w :: 'a word)"
  by (metis from_le_to_le)

text \<open>Masking with \<open>0xFF\<close> keeps the low byte.\<close>

lemma and_0xFF: "w AND 0xFF = take_bit 8 (w :: 'a::len word)"
  by (simp add: take_bit_eq_mask mask_eq_exp_minus_1)

lemma ucast_take_bit_8: "(ucast (take_bit 8 (w :: 'a::len word)) :: u8) = ucast w"
  by (rule bit_word_eqI) (auto simp: bit_simps)

text \<open>Lengths that fit their prefix survive it.\<close>

lemma unat_of_nat_len [simp]: "n < 2 ^ LENGTH('a::len) \<Longrightarrow> unat (word_of_nat n :: 'a word) = n"
  by (simp add: unat_of_nat)

lemma unat_bound: "unat w < 2 ^ LENGTH('a)" for w :: "'a::len word"
  by (rule unsigned_less)

text \<open>The two nibbles of a byte.\<close>

lemma and_0xF: "b AND 0xF = take_bit 4 b" for b :: u8
  by (simp add: take_bit_eq_mask mask_eq_exp_minus_1)

lemma unat_hi_nibble: "unat (drop_bit 4 b) < 16" for b :: u8
proof -
  have "unat (drop_bit 4 b) = unat b div 16" by (simp add: drop_bit_eq_div unat_div)
  then show ?thesis using unat_bound [of b] by simp
qed

lemma unat_lo_nibble: "unat (b AND 0xF) < 16" for b :: u8
  unfolding and_0xF by (simp add: take_bit_eq_mod unat_mod)

lemma nibbles_join: "push_bit 4 (drop_bit 4 b) OR (b AND 0xF) = b" for b :: u8
  unfolding and_0xF by (rule bit_word_eqI) (auto simp: bit_simps)

section \<open>Slices\<close>

text \<open>\<open>d[i]\<close>, \<open>&d[a..b]\<close> and \<open>&d[a..]\<close>: an index or a bound outside the slice panics.\<close>

definition index_at :: "'b list \<Rightarrow> nat \<Rightarrow> ('e, 'b) outcome" where
  "index_at d i = (if i < length d then Ok (d ! i) else Panic)"

definition slice_range :: "'b list \<Rightarrow> nat \<Rightarrow> nat \<Rightarrow> ('e, 'b list) outcome" where
  "slice_range d a b = (if a \<le> b \<and> b \<le> length d then Ok (take (b - a) (drop a d)) else Panic)"

definition slice_from :: "'b list \<Rightarrow> nat \<Rightarrow> ('e, 'b list) outcome" where
  "slice_from d a = (if a \<le> length d then Ok (drop a d) else Panic)"

lemma index_at_Ok [simp]: "i < length d \<Longrightarrow> index_at d i = Ok (d ! i)"
  by (simp add: index_at_def)

lemma slice_range_Ok [simp]:
  "a \<le> b \<Longrightarrow> b \<le> length d \<Longrightarrow> slice_range d a b = Ok (take (b - a) (drop a d))"
  by (simp add: slice_range_def)

lemma slice_from_Ok [simp]: "a \<le> length d \<Longrightarrow> slice_from d a = Ok (drop a d)"
  by (simp add: slice_from_def)

lemma take_min_length [simp]: "take (min (length xs) n) xs = take n xs"
  by (simp add: min_def)

lemma drop_split: "drop i d = take k (drop i d) @ drop (i + k) d"
  by (metis add.commute append_take_drop_id drop_drop)

text \<open>\<open>b.get(off..off + n)\<close>: the sub-slice, or none.\<close>

definition get_range :: "'b list \<Rightarrow> nat \<Rightarrow> nat \<Rightarrow> 'b list option" where
  "get_range d off n = (if off + n \<le> length d then Some (take n (drop off d)) else None)"

lemma get_range_append:
  "length xs = off \<Longrightarrow> length ys = n \<Longrightarrow> get_range (xs @ ys @ zs) off n = Some ys"
  by (simp add: get_range_def)

section \<open>Saturating arithmetic\<close>

definition sat_sub :: "'a::len word \<Rightarrow> 'a word \<Rightarrow> 'a word" where
  "sat_sub a b = (if a < b then 0 else a - b)"

definition sat_add :: "'a::len word \<Rightarrow> 'a word \<Rightarrow> 'a word" where
  "sat_add a b = (if unat a + unat b < 2 ^ LENGTH('a) then a + b else - 1)"

lemma unat_sat_sub: "unat (sat_sub a b) = unat a - unat b"
  by (auto simp: sat_sub_def word_less_nat_alt unat_sub_if')

lemma unat_sat_add: "unat (sat_add a b) = min (unat a + unat b) (2 ^ LENGTH('a) - 1)"
  for a b :: "'a::len word"
proof (cases "unat a + unat b < 2 ^ LENGTH('a)")
  case True
  then show ?thesis by (simp add: sat_add_def unat_word_ariths)
next
  case False
  then show ?thesis by (simp add: sat_add_def unsigned_minus_1_eq_mask mask_eq_exp_minus_1)
qed

section \<open>Hash maps\<close>

text \<open>
  A \<open>HashMap\<close> is an association list with distinct keys. The order of the list is the order in
  which the map is iterated; the code may not rely on it, and the components that iterate a map
  prove that a permutation of the list gives the same result.
\<close>

type_synonym ('k, 'v) hmap = "('k \<times> 'v) list"

abbreviation hm_get :: "('k, 'v) hmap \<Rightarrow> 'k \<Rightarrow> 'v option" where
  "hm_get m k \<equiv> map_of m k"

abbreviation hm_contains :: "('k, 'v) hmap \<Rightarrow> 'k \<Rightarrow> bool" where
  "hm_contains m k \<equiv> map_of m k \<noteq> None"

abbreviation hm_insert :: "'k \<Rightarrow> 'v \<Rightarrow> ('k, 'v) hmap \<Rightarrow> ('k, 'v) hmap" where
  "hm_insert k v m \<equiv> AList.update k v m"

abbreviation hm_remove :: "'k \<Rightarrow> ('k, 'v) hmap \<Rightarrow> ('k, 'v) hmap" where
  "hm_remove k m \<equiv> AList.delete k m"

text \<open>\<open>entry(k).or_insert(d)\<close> followed by an update of the slot.\<close>

definition entry_update :: "'k \<Rightarrow> 'v \<Rightarrow> ('v \<Rightarrow> 'v) \<Rightarrow> ('k, 'v) hmap \<Rightarrow> ('k, 'v) hmap" where
  "entry_update k d f m = hm_insert k (f (case hm_get m k of Some v \<Rightarrow> v | None \<Rightarrow> d)) m"

abbreviation hm_wf :: "('k, 'v) hmap \<Rightarrow> bool" where
  "hm_wf m \<equiv> distinct (map fst m)"

text \<open>Lookups stay lookups: the simplifier must not turn them into membership in the list.\<close>

declare map_of_eq_Some_iff [simp del] Some_eq_map_of_iff [simp del]

lemma map_of_hm_insert [simp]: "map_of (hm_insert k v m) = (map_of m)(k \<mapsto> v)"
  by (rule update_conv')

lemma map_of_hm_remove [simp]: "map_of (hm_remove k m) = (map_of m)(k := None)"
  by (rule delete_conv')

lemma hm_wf_insert [simp]: "hm_wf m \<Longrightarrow> hm_wf (hm_insert k v m)"
  by (rule distinct_update)

lemma hm_wf_remove [simp]: "hm_wf m \<Longrightarrow> hm_wf (hm_remove k m)"
  by (rule distinct_delete)

lemma hm_wf_filter [simp]: "hm_wf m \<Longrightarrow> hm_wf (filter P m)"
  by (induction m) auto

lemma map_of_filter_fst: "map_of (filter (\<lambda>e. P (fst e)) m) k = (if P k then map_of m k else None)"
  by (induction m) auto

lemma length_hm_insert:
  "length (hm_insert k v m) = (if hm_contains m k then length m else Suc (length m))"
  by (induction m) auto

lemma length_hm_remove_le: "length (hm_remove k m) \<le> length m"
  by (simp add: AList.delete_eq)

text \<open>Membership in a well-formed map is lookup.\<close>

lemma hm_wf_in_set: "hm_wf m \<Longrightarrow> (k, v) \<in> set m \<longleftrightarrow> hm_get m k = Some v"
  by (metis map_of_SomeD map_of_is_SomeI)

end
