(* ===== verification/Utf8_Std.thy ===== *)
theory Utf8_Std
  imports Talk_Prelude
begin

text \<open>
  The part of Rust's standard string library the sources use, over UTF-8 byte sequences:
  validation (\<open>String::from_utf8\<close>, \<open>str::from_utf8\<close>), lossy decoding
  (\<open>String::from_utf8_lossy\<close>), character boundaries, \<open>trim\<close>, \<open>split_whitespace\<close> and the ASCII
  case and class functions. It is the language's library and maps to no file of the repository.
\<close>

section \<open>Well-formed characters\<close>

text \<open>The byte ranges of Unicode's table of well-formed UTF-8 sequences, as \<open>core::str\<close> checks them.\<close>

definition utf8_cont :: "u8 \<Rightarrow> bool" where
  "utf8_cont b \<longleftrightarrow> 0x80 \<le> b \<and> b \<le> 0xBF"

definition utf8_second3 :: "u8 \<Rightarrow> u8 \<Rightarrow> bool" where
  "utf8_second3 a b \<longleftrightarrow>
     a = 0xE0 \<and> 0xA0 \<le> b \<and> b \<le> 0xBF \<or>
     0xE1 \<le> a \<and> a \<le> 0xEC \<and> utf8_cont b \<or>
     a = 0xED \<and> 0x80 \<le> b \<and> b \<le> 0x9F \<or>
     0xEE \<le> a \<and> a \<le> 0xEF \<and> utf8_cont b"

definition utf8_second4 :: "u8 \<Rightarrow> u8 \<Rightarrow> bool" where
  "utf8_second4 a b \<longleftrightarrow>
     a = 0xF0 \<and> 0x90 \<le> b \<and> b \<le> 0xBF \<or>
     0xF1 \<le> a \<and> a \<le> 0xF3 \<and> utf8_cont b \<or>
     a = 0xF4 \<and> 0x80 \<le> b \<and> b \<le> 0x8F"

fun utf8_char :: "bytes \<Rightarrow> bool" where
  "utf8_char [a] \<longleftrightarrow> a < 0x80"
| "utf8_char [a, b] \<longleftrightarrow> 0xC2 \<le> a \<and> a \<le> 0xDF \<and> utf8_cont b"
| "utf8_char [a, b, c] \<longleftrightarrow> utf8_second3 a b \<and> utf8_cont c"
| "utf8_char [a, b, c, d] \<longleftrightarrow> utf8_second4 a b \<and> utf8_cont c \<and> utf8_cont d"
| "utf8_char _ \<longleftrightarrow> False"

text \<open>The length of the ill-formed prefix that one replacement character stands for.\<close>

fun utf8_bad_len :: "bytes \<Rightarrow> nat" where
  "utf8_bad_len (a # b # c # _) =
     (if utf8_second4 a b \<and> utf8_cont c then 3
      else if utf8_second3 a b \<or> utf8_second4 a b then 2 else 1)"
| "utf8_bad_len [a, b] = (if utf8_second3 a b \<or> utf8_second4 a b then 2 else 1)"
| "utf8_bad_len _ = 1"

text \<open>One decoding step: whether the input starts with a character, and how far to advance.\<close>

definition utf8_step :: "bytes \<Rightarrow> bool \<times> nat" where
  "utf8_step s =
     (if utf8_char (take 1 s) then (True, 1)
      else if utf8_char (take 2 s) then (True, 2)
      else if utf8_char (take 3 s) then (True, 3)
      else if utf8_char (take 4 s) then (True, 4)
      else (False, utf8_bad_len s))"

lemma utf8_bad_len_pos: "0 < utf8_bad_len s"
  by (cases s rule: utf8_bad_len.cases) auto

lemma utf8_step_pos: "0 < snd (utf8_step s)"
  by (simp add: utf8_step_def utf8_bad_len_pos)

function utf8_chunks :: "bytes \<Rightarrow> (bool \<times> bytes) list" where
  "utf8_chunks s =
     (if s = [] then []
      else (fst (utf8_step s), take (snd (utf8_step s)) s)
             # utf8_chunks (drop (snd (utf8_step s)) s))"
  by pat_completeness auto
termination
  by (relation "measure length") (auto simp: utf8_step_pos)

declare utf8_chunks.simps [simp del]

lemma utf8_chunks_Nil [simp]: "utf8_chunks [] = []"
  by (simp add: utf8_chunks.simps)

lemma utf8_chunks_nonempty:
  "s \<noteq> [] \<Longrightarrow> utf8_chunks s = (fst (utf8_step s), take (snd (utf8_step s)) s)
     # utf8_chunks (drop (snd (utf8_step s)) s)"
  by (simp add: utf8_chunks.simps)

section \<open>Validation, lossy decoding and characters\<close>

definition utf8_valid :: "bytes \<Rightarrow> bool" where
  "utf8_valid s \<longleftrightarrow> list_all fst (utf8_chunks s)"

text \<open>\<open>String::from_utf8\<close>: the string, or an error.\<close>

definition from_utf8 :: "bytes \<Rightarrow> rstring option" where
  "from_utf8 s = (if utf8_valid s then Some s else None)"

text \<open>\<open>String::from_utf8_lossy\<close>: U+FFFD in place of every ill-formed prefix.\<close>

definition from_utf8_lossy :: "bytes \<Rightarrow> rstring" where
  "from_utf8_lossy s =
     concat (map (\<lambda>(ok, c). if ok then c else [0xEF, 0xBF, 0xBD]) (utf8_chunks s))"

definition str_chars :: "rstring \<Rightarrow> bytes list" where
  "str_chars s = map snd (utf8_chunks s)"

text \<open>\<open>str::is_char_boundary\<close>\<close>

definition is_char_boundary :: "rstring \<Rightarrow> nat \<Rightarrow> bool" where
  "is_char_boundary s i \<longleftrightarrow>
     i = 0 \<or> i = length s \<or> (i < length s \<and> (s ! i < 0x80 \<or> 0xC0 \<le> s ! i))"

lemma concat_utf8_chunks: "concat (map snd (utf8_chunks s)) = s"
proof (induction s rule: utf8_chunks.induct)
  case (1 s)
  then show ?case by (cases "s = []") (simp_all add: utf8_chunks_nonempty)
qed

lemma concat_str_chars [simp]: "concat (str_chars s) = s"
  by (simp add: str_chars_def concat_utf8_chunks)

lemma utf8_valid_Nil [simp]: "utf8_valid []"
  by (simp add: utf8_valid_def)

lemma from_utf8_lossy_valid [simp]: "utf8_valid s \<Longrightarrow> from_utf8_lossy s = s"
proof -
  assume "utf8_valid s"
  then have "map (\<lambda>(ok, c). if ok then c else [0xEF, 0xBF, 0xBD]) (utf8_chunks s) =
      map snd (utf8_chunks s)"
    unfolding utf8_valid_def list_all_iff by (intro map_cong) auto
  then show ?thesis unfolding from_utf8_lossy_def by (simp only: concat_utf8_chunks)
qed

lemma from_utf8_valid [simp]: "utf8_valid s \<Longrightarrow> from_utf8 s = Some s"
  by (simp add: from_utf8_def)

text \<open>A character determines its own length: no character is a proper prefix of another.\<close>

lemma utf8_char_lead:
  "utf8_char c \<Longrightarrow> \<exists>a t. c = a # t \<and> (a < 0x80 \<or> 0xC2 \<le> a) \<and> (\<forall>b \<in> set t. utf8_cont b)"
  by (cases c rule: utf8_char.cases)
    (auto simp: utf8_second3_def utf8_second4_def utf8_cont_def word_le_nat_alt word_less_nat_alt)

lemma utf8_char_length: "utf8_char c \<Longrightarrow> length c \<in> {1, 2, 3, 4}"
  by (cases c rule: utf8_char.cases) auto

lemma utf8_char_prefix_free:
  assumes "utf8_char c" and "utf8_char d" and "hd c = hd d"
  shows "length c = length d"
  using assms
  by (cases c rule: utf8_char.cases; cases d rule: utf8_char.cases)
    (auto simp: utf8_second3_def utf8_second4_def word_le_nat_alt word_less_nat_alt)

lemma utf8_step_char: "utf8_char c \<Longrightarrow> utf8_step (c @ s) = (True, length c)"
proof -
  assume c: "utf8_char c"
  then obtain a t where at: "c = a # t" using utf8_char_lead by blast
  have other: "\<not> utf8_char (take n (c @ s))" if "0 < n" "n < length c" for n
  proof
    assume *: "utf8_char (take n (c @ s))"
    have "hd (take n (c @ s)) = hd c" using that at by simp
    from utf8_char_prefix_free [OF * c this] that show False by simp
  qed
  from utf8_char_length [OF c] show ?thesis
    using c other [of 1] other [of 2] other [of 3] by (auto simp: utf8_step_def)
qed

lemma utf8_chunks_char: "utf8_char c \<Longrightarrow> utf8_chunks (c @ s) = (True, c) # utf8_chunks s"
  using utf8_char_length [of c] by (subst utf8_chunks.simps) (auto simp: utf8_step_char)

lemma utf8_valid_char [simp]: "utf8_char c \<Longrightarrow> utf8_valid (c @ s) \<longleftrightarrow> utf8_valid s"
  by (simp add: utf8_valid_def utf8_chunks_char)

lemma utf8_step_True: "fst (utf8_step s) \<Longrightarrow> utf8_char (take (snd (utf8_step s)) s)"
  by (auto simp: utf8_step_def split: if_splits)

text \<open>Induction over the characters of a valid string.\<close>

lemma utf8_valid_cases:
  assumes "utf8_valid s" and "s \<noteq> []"
  obtains c r where "s = c @ r" and "utf8_char c" and "utf8_valid r"
proof
  show "s = take (snd (utf8_step s)) s @ drop (snd (utf8_step s)) s" by simp
  show "utf8_char (take (snd (utf8_step s)) s)"
    using assms by (intro utf8_step_True) (simp add: utf8_valid_def utf8_chunks_nonempty)
  show "utf8_valid (drop (snd (utf8_step s)) s)"
    using assms by (simp add: utf8_valid_def utf8_chunks_nonempty)
qed

lemma utf8_valid_induct [consumes 1, case_names Nil Char]:
  assumes "utf8_valid s"
    and "P []"
    and "\<And>c r. utf8_char c \<Longrightarrow> utf8_valid r \<Longrightarrow> P r \<Longrightarrow> P (c @ r)"
  shows "P s"
  using assms(1)
proof (induction s rule: length_induct)
  case (1 s)
  show ?case
  proof (cases "s = []")
    case True
    then show ?thesis using assms(2) by simp
  next
    case False
    with "1.prems" obtain c r where s: "s = c @ r" "utf8_char c" "utf8_valid r"
      by (rule utf8_valid_cases)
    then have "length r < length s" using utf8_char_length by fastforce
    with 1 s show ?thesis using assms(3) by blast
  qed
qed

lemma utf8_valid_append [simp]: "utf8_valid s \<Longrightarrow> utf8_valid (s @ t) \<longleftrightarrow> utf8_valid t"
  by (induction s rule: utf8_valid_induct) simp_all

lemma str_chars_char [simp]: "utf8_char c \<Longrightarrow> str_chars (c @ s) = c # str_chars s"
  by (simp add: str_chars_def utf8_chunks_char)

lemma str_chars_Nil [simp]: "str_chars [] = []"
  by (simp add: str_chars_def)

lemma str_chars_valid: "utf8_valid s \<Longrightarrow> list_all utf8_char (str_chars s)"
  by (induction s rule: utf8_valid_induct) simp_all

lemma utf8_valid_concat: "list_all utf8_char cs \<Longrightarrow> utf8_valid (concat cs)"
  by (induction cs) simp_all

lemma str_chars_concat: "list_all utf8_char cs \<Longrightarrow> str_chars (concat cs) = cs"
  by (induction cs) simp_all

text \<open>ASCII strings: one byte per character.\<close>

lemma utf8_valid_ascii: "list_all (\<lambda>b. b < 0x80) s \<Longrightarrow> utf8_valid s"
proof (induction s)
  case Nil
  then show ?case by simp
next
  case (Cons b s)
  then have "utf8_valid ([b] @ s)" by (subst utf8_valid_char) simp_all
  then show ?case by simp
qed

text \<open>Cutting a valid string at a character boundary leaves a valid string.\<close>

lemma is_char_boundary_inside_char:
  assumes c: "utf8_char c" and i: "0 < i" "i < length c"
  shows "\<not> is_char_boundary (c @ r) i"
proof -
  from utf8_char_lead [OF c] obtain a t where at: "c = a # t" "\<forall>b \<in> set t. utf8_cont b" by blast
  with i have "utf8_cont ((c @ r) ! i)" by (cases i) (auto simp: nth_append)
  then show ?thesis
    using i by (auto simp: is_char_boundary_def utf8_cont_def word_le_nat_alt word_less_nat_alt)
qed

lemma is_char_boundary_after_char:
  "length c \<le> i \<Longrightarrow> is_char_boundary (c @ r) i \<Longrightarrow> is_char_boundary r (i - length c)"
  by (auto simp: is_char_boundary_def nth_append)

lemma utf8_valid_take_boundary:
  "utf8_valid s \<Longrightarrow> is_char_boundary s i \<Longrightarrow> utf8_valid (take i s)"
proof (induction s arbitrary: i rule: utf8_valid_induct)
  case Nil
  then show ?case by simp
next
  case (Char c r)
  show ?case
  proof (cases "i = 0")
    case True
    then show ?thesis by simp
  next
    case False
    with Char.hyps Char.prems have "length c \<le> i"
      by (metis is_char_boundary_inside_char gr0I not_less)
    then have "take i (c @ r) = c @ take (i - length c) r" by simp
    moreover have "utf8_valid (take (i - length c) r)"
      using \<open>length c \<le> i\<close> Char by (blast intro: is_char_boundary_after_char)
    ultimately show ?thesis using Char.hyps by simp
  qed
qed

lemma utf8_valid_take_iff:
  assumes "utf8_valid s" and "i \<le> length s"
  shows "utf8_valid (take i s) \<longleftrightarrow> is_char_boundary s i"
proof
  assume v: "utf8_valid (take i s)"
  with assms(1) have d: "utf8_valid (drop i s)"
    using utf8_valid_append [OF v, of "drop i s"] by simp
  show "is_char_boundary s i"
  proof (cases "drop i s = []")
    case True
    with assms(2) show ?thesis by (simp add: is_char_boundary_def)
  next
    case False
    from utf8_valid_cases [OF d this] obtain c r where c: "drop i s = c @ r" "utf8_char c" by blast
    from utf8_char_lead [OF c(2)] obtain a t where "c = a # t" "a < 0x80 \<or> 0xC0 \<le> a"
      by (auto simp: word_le_nat_alt word_less_nat_alt)
    moreover from False have "drop i s ! 0 = s ! i" "i < length s" by simp_all
    ultimately show ?thesis using False c(1) by (simp add: is_char_boundary_def)
  qed
qed (rule utf8_valid_take_boundary [OF assms(1)])

section \<open>Whitespace and ASCII classes\<close>

text \<open>\<open>char::is_whitespace\<close>: the code points with the property \<open>White_Space\<close>, as UTF-8.\<close>

definition char_is_whitespace :: "bytes \<Rightarrow> bool" where
  "char_is_whitespace c \<longleftrightarrow>
     (case c of
        [a] \<Rightarrow> 0x09 \<le> a \<and> a \<le> 0x0D \<or> a = 0x20
      | [a, b] \<Rightarrow> a = 0xC2 \<and> (b = 0x85 \<or> b = 0xA0)
      | [a, b, d] \<Rightarrow>
          a = 0xE1 \<and> b = 0x9A \<and> d = 0x80 \<or>
          a = 0xE2 \<and> b = 0x80 \<and> (0x80 \<le> d \<and> d \<le> 0x8A \<or> d = 0xA8 \<or> d = 0xA9 \<or> d = 0xAF) \<or>
          a = 0xE2 \<and> b = 0x81 \<and> d = 0x9F \<or>
          a = 0xE3 \<and> b = 0x80 \<and> d = 0x80
      | _ \<Rightarrow> False)"

definition trim_chars :: "(bytes \<Rightarrow> bool) \<Rightarrow> rstring \<Rightarrow> rstring" where
  "trim_chars p s = concat (rev (dropWhile p (rev (dropWhile p (str_chars s)))))"

text \<open>\<open>str::trim\<close>\<close>

definition str_trim :: "rstring \<Rightarrow> rstring" where
  "str_trim s = trim_chars char_is_whitespace s"

text \<open>\<open>str::split_whitespace\<close>: the maximal runs of non-white characters.\<close>

fun split_ws_chars :: "bytes list \<Rightarrow> bytes list \<Rightarrow> rstring list" where
  "split_ws_chars acc [] = (if acc = [] then [] else [concat (rev acc)])"
| "split_ws_chars acc (c # cs) =
     (if char_is_whitespace c
      then (if acc = [] then split_ws_chars [] cs else concat (rev acc) # split_ws_chars [] cs)
      else split_ws_chars (c # acc) cs)"

definition split_whitespace :: "rstring \<Rightarrow> rstring list" where
  "split_whitespace s = split_ws_chars [] (str_chars s)"

definition to_ascii_lowercase :: "rstring \<Rightarrow> rstring" where
  "to_ascii_lowercase s = map (\<lambda>b. if 0x41 \<le> b \<and> b \<le> 0x5A then b + 0x20 else b) s"

definition is_ascii_digit :: "u8 \<Rightarrow> bool" where
  "is_ascii_digit b \<longleftrightarrow> 0x30 \<le> b \<and> b \<le> 0x39"

definition is_ascii_alphabetic :: "u8 \<Rightarrow> bool" where
  "is_ascii_alphabetic b \<longleftrightarrow> 0x41 \<le> b \<and> b \<le> 0x5A \<or> 0x61 \<le> b \<and> b \<le> 0x7A"

definition is_ascii_alphanumeric :: "u8 \<Rightarrow> bool" where
  "is_ascii_alphanumeric b \<longleftrightarrow> is_ascii_digit b \<or> is_ascii_alphabetic b"

definition is_ascii_hexdigit :: "u8 \<Rightarrow> bool" where
  "is_ascii_hexdigit b \<longleftrightarrow>
     is_ascii_digit b \<or> 0x41 \<le> b \<and> b \<le> 0x46 \<or> 0x61 \<le> b \<and> b \<le> 0x66"

lemma trim_chars_Nil [simp]: "trim_chars p [] = []"
  by (simp add: trim_chars_def)

lemma trim_chars_id:
  assumes "s \<noteq> [] \<Longrightarrow> \<not> p (hd (str_chars s))" and "s \<noteq> [] \<Longrightarrow> \<not> p (last (str_chars s))"
  shows "trim_chars p s = s"
proof (cases "str_chars s")
  case Nil
  then show ?thesis using concat_str_chars [of s] by (simp add: trim_chars_def)
next
  case (Cons c cs)
  then have s: "s \<noteq> []" by auto
  have front: "dropWhile p (str_chars s) = str_chars s"
    using assms(1) [OF s] Cons by simp
  have "\<not> p (hd (rev (str_chars s)))"
    using assms(2) [OF s] by (simp only: hd_rev not_False_eq_True)
  then have backw: "dropWhile p (rev (str_chars s)) = rev (str_chars s)"
    by (cases "rev (str_chars s)") auto
  show ?thesis by (simp add: trim_chars_def front backw)
qed

lemmas str_trim_id = trim_chars_id [where p = char_is_whitespace, folded str_trim_def]

text \<open>Text without white space is one token.\<close>

lemma split_ws_single:
  "list_all (\<lambda>c. \<not> char_is_whitespace c) cs \<Longrightarrow> acc \<noteq> [] \<or> cs \<noteq> [] \<Longrightarrow>
   split_ws_chars acc cs = [concat (rev acc @ cs)]"
  by (induction acc cs rule: split_ws_chars.induct) auto

lemma split_whitespace_single:
  assumes "list_all (\<lambda>c. \<not> char_is_whitespace c) (str_chars s)" "s \<noteq> []"
  shows "split_whitespace s = [s]"
proof -
  have "str_chars s \<noteq> []" using assms(2) concat_str_chars [of s] by fastforce
  then show ?thesis using split_ws_single [OF assms(1), of "[]"] by (simp add: split_whitespace_def)
qed

section \<open>Decimal formatting\<close>

text \<open>\<open>format!("{n}")\<close> of an unsigned integer.\<close>

fun dec_digits :: "nat \<Rightarrow> bytes" where
  "dec_digits n =
     (if n < 10 then [48 + word_of_nat n] else dec_digits (n div 10) @ [48 + word_of_nat (n mod 10)])"

declare dec_digits.simps [simp del]

definition read_dec :: "bytes \<Rightarrow> nat" where
  "read_dec bs = foldl (\<lambda>a d. 10 * a + (unat d - 48)) 0 bs"

lemma unat_digit: "d < 10 \<Longrightarrow> unat (48 + word_of_nat d :: u8) = 48 + d"
  by (simp add: unat_word_ariths unat_of_nat)

lemma read_dec_digits [simp]: "read_dec (dec_digits n) = n"
proof (induction n rule: dec_digits.induct)
  case (1 n)
  then show ?case
    by (subst dec_digits.simps) (auto simp: read_dec_def unat_digit)
qed

lemma dec_digits_inject [simp]: "dec_digits m = dec_digits n \<longleftrightarrow> m = n"
  by (metis read_dec_digits)

lemma dec_digits_range: "d \<in> set (dec_digits n) \<Longrightarrow> 48 \<le> unat d \<and> unat d \<le> 57"
proof (induction n rule: dec_digits.induct)
  case (1 n)
  have "unat (48 + word_of_nat (n mod 10) :: u8) = 48 + n mod 10" by (simp add: unat_digit)
  moreover have "n < 10 \<Longrightarrow> unat (48 + word_of_nat n :: u8) = 48 + n" by (simp add: unat_digit)
  ultimately show ?case using 1 by (subst (asm) (2) dec_digits.simps) (auto split: if_splits)
qed

lemma dec_digits_nonempty [simp]: "dec_digits n \<noteq> []"
  by (subst dec_digits.simps) simp

text \<open>A separator that cannot occur in the last part makes a join of two parts injective.\<close>

lemma split_last_inject:
  assumes "x \<notin> set d" and "x \<notin> set d'"
  shows "s @ x # d = s' @ x # d' \<longleftrightarrow> s = s' \<and> d = d'"
proof
  assume eq: "s @ x # d = s' @ x # d'"
  have "takeWhile (\<lambda>y. y \<noteq> x) (rev (s @ x # d)) = rev d" if "x \<notin> set d" for s d
    using that by (simp add: takeWhile_tail)
      (metis append.assoc append_Cons append_Nil rev.simps(2) set_rev takeWhile_eq_all_conv takeWhile_tail)
  with assms eq have "rev d = rev d'" by metis
  with eq show "s = s' \<and> d = d'" by simp
qed auto

lemma split_first_inject:
  assumes "x \<notin> set s" and "x \<notin> set s'"
  shows "s @ x # d = s' @ x # d' \<longleftrightarrow> s = s' \<and> d = d'"
proof
  assume eq: "s @ x # d = s' @ x # d'"
  have "takeWhile (\<lambda>y. y \<noteq> x) (s @ x # d) = s" if "x \<notin> set s" for s d
    using that by (induction s) auto
  with assms eq have "s = s'" by metis
  with eq show "s = s' \<and> d = d'" by simp
qed auto

section \<open>Hexadecimal text\<close>

text \<open>The two digits of a byte, taken from the table \<open>b"0123456789abcdef"\<close> that the sources index.\<close>

definition HEX :: bytes where "HEX = ascii ''0123456789abcdef''"

definition hex_byte :: "u8 \<Rightarrow> bytes" where
  "hex_byte b = [HEX ! unat (drop_bit 4 b), HEX ! unat (b AND 0x0F)]"

lemma HEX_code:
  "HEX = [0x30, 0x31, 0x32, 0x33, 0x34, 0x35, 0x36, 0x37, 0x38, 0x39, 0x61, 0x62, 0x63, 0x64, 0x65, 0x66]"
  by (simp add: HEX_def ascii_def)

lemma HEX_inject: "i < 16 \<Longrightarrow> j < 16 \<Longrightarrow> HEX ! i = HEX ! j \<longleftrightarrow> i = j"
  by (rule nth_eq_iff_index_eq) (simp_all add: HEX_code)

lemma HEX_hexdigit: "i < 16 \<Longrightarrow> is_ascii_hexdigit (HEX ! i)"
proof -
  have "list_all is_ascii_hexdigit HEX" by (simp add: HEX_code is_ascii_hexdigit_def is_ascii_digit_def)
  then show "i < 16 \<Longrightarrow> is_ascii_hexdigit (HEX ! i)" by (simp add: list_all_length HEX_code)
qed

lemma hex_byte_inject [simp]: "hex_byte a = hex_byte b \<longleftrightarrow> a = b"
proof
  assume "hex_byte a = hex_byte b"
  then have "unat (drop_bit 4 a) = unat (drop_bit 4 b)" "unat (a AND 15) = unat (b AND 15)"
    by (simp_all add: hex_byte_def HEX_inject unat_hi_nibble unat_lo_nibble)
  then have "drop_bit 4 a = drop_bit 4 b" "a AND 15 = b AND 15"
    by (simp_all only: word_unat_eq_iff)
  then show "a = b" by (metis nibbles_join)
qed simp

lemma length_hex_byte [simp]: "length (hex_byte b) = 2"
  by (simp add: hex_byte_def)

lemma hex_bytes_inject: "concat (map hex_byte xs) = concat (map hex_byte ys) \<longleftrightarrow> xs = ys"
proof
  show "concat (map hex_byte xs) = concat (map hex_byte ys) \<Longrightarrow> xs = ys"
  proof (induction xs arbitrary: ys)
    case Nil
    then show ?case by (cases ys) (auto simp: hex_byte_def)
  next
    case (Cons x xs)
    then obtain y ys' where "ys = y # ys'" by (cases ys) (auto simp: hex_byte_def)
    with Cons show ?case by (simp add: append_eq_append_conv)
  qed
qed simp

lemma length_hex_bytes: "length (concat (map hex_byte xs)) = 2 * length xs"
  by (induction xs) simp_all

lemma hex_bytes_digits: "list_all is_ascii_hexdigit (concat (map hex_byte xs))"
  by (induction xs) (simp_all add: hex_byte_def HEX_hexdigit unat_hi_nibble unat_lo_nibble)

text \<open>Trimming ASCII text with no white space changes nothing.\<close>

lemma str_trim_ascii:
  assumes "list_all (\<lambda>b. b < 0x80 \<and> \<not> char_is_whitespace [b]) s"
  shows "str_trim s = s"
proof (rule str_trim_id)
  have chars: "str_chars s = map (\<lambda>b. [b]) s"
    using str_chars_concat [of "map (\<lambda>b. [b]) s"] assms by (simp add: list_all_iff)
  show "\<not> char_is_whitespace (hd (str_chars s))" "\<not> char_is_whitespace (last (str_chars s))" if "s \<noteq> []"
    using assms that by (simp_all add: chars hd_map last_map list_all_iff)
qed

lemma hexdigit_plain: "is_ascii_hexdigit b \<Longrightarrow> b < 0x80 \<and> \<not> char_is_whitespace [b]"
  by (auto simp: is_ascii_hexdigit_def is_ascii_digit_def char_is_whitespace_def word_le_nat_alt word_less_nat_alt)

lemma str_trim_hex [simp]: "str_trim (concat (map hex_byte xs)) = concat (map hex_byte xs)"
  using hex_bytes_digits [of xs] by (intro str_trim_ascii) (auto simp: list_all_iff dest: hexdigit_plain)

end
