(* ===== verification/Protocol.thy ===== *)
theory Protocol
  imports Utf8_Std
begin

text \<open>
  The control-plane protocol of \<open>core/src/protocol.rs\<close>: the opcode registry and the
  type-length-value framing shared by every control frame.
\<close>

section \<open>Opcodes\<close>

definition OP_PTT_START :: u8 where "OP_PTT_START = 0x01"
definition OP_PTT_STOP :: u8 where "OP_PTT_STOP = 0x02"
definition OP_READY_ACK :: u8 where "OP_READY_ACK = 0x03"
definition OP_PING :: u8 where "OP_PING = 0x04"
definition OP_CHANNEL_SYNC :: u8 where "OP_CHANNEL_SYNC = 0x05"
definition OP_HEARTBEAT :: u8 where "OP_HEARTBEAT = 0x10"
definition OP_RECV_ACK :: u8 where "OP_RECV_ACK = 0x11"
definition OP_EOT_ACK :: u8 where "OP_EOT_ACK = 0x12"
definition OP_CAPABILITIES :: u8 where "OP_CAPABILITIES = 0x13"
definition OP_PARTNER_OFFLINE :: u8 where "OP_PARTNER_OFFLINE = 0x14"
definition OP_PTT_START_V2 :: u8 where "OP_PTT_START_V2 = 0x15"
definition OP_PTT_STOP_V2 :: u8 where "OP_PTT_STOP_V2 = 0x16"
definition OP_WAKE :: u8 where "OP_WAKE = 0x17"
definition OP_AUTHENTICATED :: u8 where "OP_AUTHENTICATED = 0x18"
definition OP_REPLAY_FRAME :: u8 where "OP_REPLAY_FRAME = 0x19"
definition OP_EMERGENCY :: u8 where "OP_EMERGENCY = 0x1A"
definition OP_HYBRID_INIT :: u8 where "OP_HYBRID_INIT = 0x1B"
definition OP_HYBRID_RESP :: u8 where "OP_HYBRID_RESP = 0x1C"
definition OP_MANDOWN :: u8 where "OP_MANDOWN = 0x1D"
definition OP_EMERGENCY_CLEAR :: u8 where "OP_EMERGENCY_CLEAR = 0x1E"
definition OP_HYBRID_CONFIRM :: u8 where "OP_HYBRID_CONFIRM = 0x1F"
definition OP_HYBRID_CONFIRM_ACK :: u8 where "OP_HYBRID_CONFIRM_ACK = 0x20"

lemmas opcode_defs =
  OP_PTT_START_def OP_PTT_STOP_def OP_READY_ACK_def OP_PING_def OP_CHANNEL_SYNC_def
  OP_HEARTBEAT_def OP_RECV_ACK_def OP_EOT_ACK_def OP_CAPABILITIES_def OP_PARTNER_OFFLINE_def
  OP_PTT_START_V2_def OP_PTT_STOP_V2_def OP_WAKE_def OP_AUTHENTICATED_def OP_REPLAY_FRAME_def
  OP_EMERGENCY_def OP_HYBRID_INIT_def OP_HYBRID_RESP_def OP_MANDOWN_def OP_EMERGENCY_CLEAR_def
  OP_HYBRID_CONFIRM_def OP_HYBRID_CONFIRM_ACK_def

definition ALL_OPCODES :: "(string \<times> u8) list" where
  "ALL_OPCODES =
    [(''PTT_START'', OP_PTT_START), (''PTT_STOP'', OP_PTT_STOP), (''READY_ACK'', OP_READY_ACK),
     (''PING'', OP_PING), (''CHANNEL_SYNC'', OP_CHANNEL_SYNC), (''HEARTBEAT'', OP_HEARTBEAT),
     (''RECV_ACK'', OP_RECV_ACK), (''EOT_ACK'', OP_EOT_ACK), (''CAPABILITIES'', OP_CAPABILITIES),
     (''PARTNER_OFFLINE'', OP_PARTNER_OFFLINE), (''PTT_START_V2'', OP_PTT_START_V2),
     (''PTT_STOP_V2'', OP_PTT_STOP_V2), (''WAKE'', OP_WAKE), (''AUTHENTICATED'', OP_AUTHENTICATED),
     (''REPLAY_FRAME'', OP_REPLAY_FRAME), (''EMERGENCY'', OP_EMERGENCY),
     (''HYBRID_INIT'', OP_HYBRID_INIT), (''HYBRID_RESP'', OP_HYBRID_RESP),
     (''MANDOWN'', OP_MANDOWN), (''EMERGENCY_CLEAR'', OP_EMERGENCY_CLEAR),
     (''HYBRID_CONFIRM'', OP_HYBRID_CONFIRM), (''HYBRID_CONFIRM_ACK'', OP_HYBRID_CONFIRM_ACK)]"

definition is_tlv_opcode :: "u8 \<Rightarrow> bool" where
  "is_tlv_opcode op \<longleftrightarrow> 0x10 \<le> op"

section \<open>TLV framing\<close>

definition encode_tlv :: "u8 \<Rightarrow> bytes \<Rightarrow> bytes" where
  "encode_tlv op payload =
     (let len = (word_of_nat (length payload) :: u16)
      in [op, ucast (len AND 0xFF), ucast (drop_bit 8 len AND 0xFF)] @ payload)"

record Tlv =
  tlv_opcode :: u8
  tlv_payload :: bytes

definition parse_tlv :: "bytes \<Rightarrow> Tlv option" where
  "parse_tlv bytes =
     (if length bytes < 3 then None
      else if \<not> is_tlv_opcode (bytes ! 0) then None
      else let payload_len = unat (bytes ! 1) OR push_bit 8 (unat (bytes ! 2))
           in if length bytes < 3 + payload_len then None
              else Some \<lparr>tlv_opcode = bytes ! 0, tlv_payload = take payload_len (drop 3 bytes)\<rparr>)"

text \<open>The two length bytes are the length modulo \<open>2 ^ 16\<close>, and reading them back gives it.\<close>

lemma tlv_len_bytes:
  "ucast ((len :: u16) AND 0xFF) = (ucast len :: u8)"
  "ucast (drop_bit 8 (len :: u16) AND 0xFF) = (ucast (drop_bit 8 len) :: u8)"
  by (simp_all add: and_0xFF ucast_take_bit_8)

lemma tlv_len_read:
  "unat (ucast (len :: u16) :: u8) OR push_bit 8 (unat (ucast (drop_bit 8 len) :: u8)) = unat len"
  by (rule bit_eqI)
    (auto simp: bit_simps dest: bit_imp_le_length)

lemma length_encode_tlv [simp]: "length (encode_tlv op p) = 3 + length p"
  by (simp add: encode_tlv_def Let_def)

lemma encode_tlv_nth [simp]: "encode_tlv op p ! 0 = op"
  by (simp add: encode_tlv_def Let_def)

lemma parse_tlv_encode_tlv_append:
  assumes "is_tlv_opcode op"
  shows "parse_tlv (encode_tlv op p @ rest) =
     Some \<lparr>tlv_opcode = op, tlv_payload = take (length p mod 65536) (p @ rest)\<rparr>"
  using assms mod_less_eq_dividend [of "length p" 65536]
  by (simp add: parse_tlv_def encode_tlv_def tlv_len_bytes tlv_len_read unat_of_nat Let_def)

lemma parse_tlv_encode_tlv [simp]:
  "is_tlv_opcode op \<Longrightarrow> length p < 65536 \<Longrightarrow>
   parse_tlv (encode_tlv op p) = Some \<lparr>tlv_opcode = op, tlv_payload = p\<rparr>"
  using parse_tlv_encode_tlv_append [of op p "[]"] by simp

section \<open>The contract of a message carried in a TLV frame\<close>

text \<open>
  Every control message is framed the same way: an encoder that ends in \<open>encode_tlv\<close>, and a decoder
  that is given the payload \<open>parse_tlv\<close> extracted. A provider proves that its own payload codec
  round-trips on the messages it may send (\<open>wf\<close>); the client lemmas lift that to whole frames in
  a byte stream.
\<close>

locale tlv_message =
  fixes frame :: "'a \<Rightarrow> bytes"
    and opcode_of :: "'a \<Rightarrow> u8"
    and decode :: "bytes \<Rightarrow> 'a option"
    and wf :: "'a \<Rightarrow> bool"
  assumes opcode_tlv: "wf a \<Longrightarrow> is_tlv_opcode (opcode_of a)"
    and frame_payload:
      "wf a \<Longrightarrow> \<exists>p. frame a = encode_tlv (opcode_of a) p \<and> length p < 65536 \<and> decode p = Some a"
begin

lemma frame_roundtrip:
  assumes "wf a"
  shows "\<exists>t. parse_tlv (frame a @ rest) = Some t \<and> tlv_opcode t = opcode_of a \<and>
    decode (tlv_payload t) = Some a"
proof -
  from frame_payload [OF assms] obtain p where
    p: "frame a = encode_tlv (opcode_of a) p" "length p < 65536" "decode p = Some a" by blast
  then show ?thesis
    using opcode_tlv [OF assms] by (simp add: parse_tlv_encode_tlv_append)
qed

lemma frame_prefix_free:
  assumes "wf a" "wf b" and eq: "frame a @ r = frame b @ s"
  shows "a = b \<and> r = s"
proof -
  from frame_roundtrip [OF \<open>wf a\<close>, of r] frame_roundtrip [OF \<open>wf b\<close>, of s] eq
  have "a = b" by auto
  with eq show ?thesis by simp
qed

lemma frame_inject: "wf a \<Longrightarrow> wf b \<Longrightarrow> frame a = frame b \<longleftrightarrow> a = b"
  using frame_prefix_free [of a b "[]" "[]"] by auto

end

section \<open>Properties\<close>

lemma tlv_len_inverse:
  fixes lo hi :: u8
  defines "n \<equiv> unat lo OR push_bit 8 (unat hi)"
  shows "n < 65536" and "(ucast (word_of_nat n :: u16) :: u8) = lo"
    and "(ucast (drop_bit 8 (word_of_nat n :: u16)) :: u8) = hi"
proof -
  have "take_bit 16 n = n"
    unfolding n_def by (rule bit_eqI) (auto simp: bit_simps dest: bit_imp_le_length)
  then show "n < 65536" using take_bit_nat_less_exp [of 16 n] by simp
  have bit: "bit (word_of_nat n :: u16) i \<longleftrightarrow> i < 16 \<and> bit n i" for i
    by (simp add: bit_of_nat_iff)
  show "(ucast (word_of_nat n :: u16) :: u8) = lo"
    by (rule bit_word_eqI) (auto simp: bit bit_ucast_iff n_def bit_simps dest: bit_imp_le_length)
  show "(ucast (drop_bit 8 (word_of_nat n :: u16)) :: u8) = hi"
    by (rule bit_word_eqI) (auto simp: bit bit_ucast_iff bit_drop_bit_eq n_def bit_simps dest: bit_imp_le_length)
qed

text \<open>
  TLV framing is exact and canonical: a buffer parses to a frame if and only if
  it starts with the encoding of that frame, for a v2 opcode and a payload whose length fits the
  16-bit prefix. So the parser accepts nothing else, and reads back exactly what was framed
  whatever follows it in the buffer.
\<close>

theorem tlv_parse_exact:
  "parse_tlv bs = Some t \<longleftrightarrow>
     is_tlv_opcode (tlv_opcode t) \<and> length (tlv_payload t) < 65536 \<and>
     (\<exists>rest. bs = encode_tlv (tlv_opcode t) (tlv_payload t) @ rest)"
proof
  assume p: "parse_tlv bs = Some t"
  then have len: "3 \<le> length bs" by (auto simp: parse_tlv_def split: if_splits)
  then obtain op lo hi r where bs: "bs = op # lo # hi # r"
    by (metis Suc_le_length_iff numeral_3_eq_3)
  define n where "n = unat lo OR push_bit 8 (unat hi)"
  from p have t: "is_tlv_opcode op" "n \<le> length r" "t = \<lparr>tlv_opcode = op, tlv_payload = take n r\<rparr>"
    by (auto simp: parse_tlv_def bs n_def Let_def split: if_splits)
  moreover have "bs = encode_tlv op (take n r) @ drop n r"
    using t(2) tlv_len_inverse [of lo hi]
    by (simp add: bs encode_tlv_def tlv_len_bytes Let_def n_def [symmetric] min_def)
  ultimately show "is_tlv_opcode (tlv_opcode t) \<and> length (tlv_payload t) < 65536 \<and>
     (\<exists>rest. bs = encode_tlv (tlv_opcode t) (tlv_payload t) @ rest)"
    using tlv_len_inverse(1) [of lo hi] by (auto simp: n_def)
next
  assume "is_tlv_opcode (tlv_opcode t) \<and> length (tlv_payload t) < 65536 \<and>
     (\<exists>rest. bs = encode_tlv (tlv_opcode t) (tlv_payload t) @ rest)"
  then show "parse_tlv bs = Some t" by (auto simp: parse_tlv_encode_tlv_append)
qed

end
