(* ===== verification/Ptt_Frames.thy ===== *)
theory Ptt_Frames
  imports Protocol
begin

text \<open>
  The push-to-talk and liveness control frames of \<open>core/src/ptt_frames.rs\<close>: one encoder and one
  total parser per opcode, each shown to satisfy the contract of a TLV message.
\<close>

section \<open>Decoded frames\<close>

record PttStart =
  start_epoch :: u64
  start_seq :: u32
  start_emergency :: bool

record PttStop =
  stop_epoch :: u64
  stop_end_seq :: u32

record Heartbeat =
  hb_epoch :: u64
  hb_seq :: u32
  hb_ts_ms :: u64
  hb_state :: u8
  hb_rtt_ms :: u16
  hb_caps :: u8

record RecvAck =
  ra_epoch :: u64
  ra_last_seq :: u32
  ra_ts_ms :: u64

record EotAck =
  ea_epoch :: u64
  ea_up_to_seq :: u32

record Wake =
  wake_epoch :: u64
  wake_sender_ts_ms :: u64

section \<open>Codecs\<close>

definition u64_at :: "bytes \<Rightarrow> nat \<Rightarrow> u64 option" where
  "u64_at b off = map_option from_le (get_range b off 8)"

definition u32_at :: "bytes \<Rightarrow> nat \<Rightarrow> u32 option" where
  "u32_at b off = map_option from_le (get_range b off 4)"

definition encode_ptt_start_v2 :: "u64 \<Rightarrow> u32 \<Rightarrow> bool \<Rightarrow> bytes" where
  "encode_ptt_start_v2 epoch seq emergency =
     encode_tlv OP_PTT_START_V2
       (to_le 8 epoch @ to_le 4 seq @ [if emergency then 1 else 0])"

definition parse_ptt_start_v2 :: "bytes \<Rightarrow> PttStart option" where
  "parse_ptt_start_v2 payload =
     (if length payload < 12 then None
      else case u64_at payload 0 of None \<Rightarrow> None | Some epoch \<Rightarrow>
        (case u32_at payload 8 of None \<Rightarrow> None | Some seq \<Rightarrow>
          Some \<lparr>start_epoch = epoch, start_seq = seq,
                start_emergency = (13 \<le> length payload \<and> payload ! 12 AND 0x01 \<noteq> 0)\<rparr>))"

definition encode_ptt_stop_v2 :: "u64 \<Rightarrow> u32 \<Rightarrow> bytes" where
  "encode_ptt_stop_v2 epoch end_seq =
     encode_tlv OP_PTT_STOP_V2 (to_le 8 epoch @ to_le 4 end_seq)"

definition parse_ptt_stop_v2 :: "bytes \<Rightarrow> PttStop option" where
  "parse_ptt_stop_v2 payload =
     (if length payload < 8 then None
      else case u64_at payload 0 of None \<Rightarrow> None | Some epoch \<Rightarrow>
        (case (if 12 \<le> length payload then u32_at payload 8 else Some 0) of
           None \<Rightarrow> None
         | Some seq \<Rightarrow> Some \<lparr>stop_epoch = epoch, stop_end_seq = seq\<rparr>))"

definition encode_heartbeat :: "u64 \<Rightarrow> u32 \<Rightarrow> u64 \<Rightarrow> u8 \<Rightarrow> u16 \<Rightarrow> u8 \<Rightarrow> bytes" where
  "encode_heartbeat epoch seq ts_ms state rtt_ms caps =
     encode_tlv OP_HEARTBEAT
       (to_le 8 epoch @ to_le 4 seq @ to_le 8 ts_ms @ [state] @ to_le 2 rtt_ms @ [caps])"

definition parse_heartbeat :: "bytes \<Rightarrow> Heartbeat option" where
  "parse_heartbeat payload =
     (if length payload < 23 then None
      else case u64_at payload 0 of None \<Rightarrow> None | Some epoch \<Rightarrow>
        (case u32_at payload 8 of None \<Rightarrow> None | Some seq \<Rightarrow>
          (case u64_at payload 12 of None \<Rightarrow> None | Some ts \<Rightarrow>
            Some \<lparr>hb_epoch = epoch, hb_seq = seq, hb_ts_ms = ts, hb_state = payload ! 20,
                  hb_rtt_ms = from_le [payload ! 21, payload ! 22],
                  hb_caps = (if 24 \<le> length payload then payload ! 23 else 0)\<rparr>)))"

definition encode_recv_ack :: "u64 \<Rightarrow> u32 \<Rightarrow> u64 \<Rightarrow> bytes" where
  "encode_recv_ack epoch last_seq ts_ms =
     encode_tlv OP_RECV_ACK (to_le 8 epoch @ to_le 4 last_seq @ to_le 8 ts_ms)"

definition parse_recv_ack :: "bytes \<Rightarrow> RecvAck option" where
  "parse_recv_ack payload =
     (if length payload < 20 then None
      else case u64_at payload 0 of None \<Rightarrow> None | Some epoch \<Rightarrow>
        (case u32_at payload 8 of None \<Rightarrow> None | Some seq \<Rightarrow>
          (case u64_at payload 12 of None \<Rightarrow> None | Some ts \<Rightarrow>
            Some \<lparr>ra_epoch = epoch, ra_last_seq = seq, ra_ts_ms = ts\<rparr>)))"

definition encode_eot_ack :: "u64 \<Rightarrow> u32 \<Rightarrow> bytes" where
  "encode_eot_ack epoch up_to_seq =
     encode_tlv OP_EOT_ACK (to_le 8 epoch @ to_le 4 up_to_seq)"

definition parse_eot_ack :: "bytes \<Rightarrow> EotAck option" where
  "parse_eot_ack payload =
     (if length payload < 12 then None
      else case u64_at payload 0 of None \<Rightarrow> None | Some epoch \<Rightarrow>
        (case u32_at payload 8 of None \<Rightarrow> None | Some seq \<Rightarrow>
          Some \<lparr>ea_epoch = epoch, ea_up_to_seq = seq\<rparr>))"

definition encode_wake :: "u64 \<Rightarrow> u64 \<Rightarrow> bytes" where
  "encode_wake epoch sender_ts_ms =
     encode_tlv OP_WAKE (to_le 8 epoch @ to_le 8 sender_ts_ms)"

definition parse_wake :: "bytes \<Rightarrow> Wake option" where
  "parse_wake payload =
     (if length payload < 16 then None
      else case u64_at payload 0 of None \<Rightarrow> None | Some epoch \<Rightarrow>
        (case u64_at payload 8 of None \<Rightarrow> None | Some ts \<Rightarrow>
          Some \<lparr>wake_epoch = epoch, wake_sender_ts_ms = ts\<rparr>))"

lemmas ptt_parse_defs =
  parse_ptt_start_v2_def parse_ptt_stop_v2_def parse_heartbeat_def parse_recv_ack_def
  parse_eot_ack_def parse_wake_def

lemmas ptt_encode_defs =
  encode_ptt_start_v2_def encode_ptt_stop_v2_def encode_heartbeat_def encode_recv_ack_def
  encode_eot_ack_def encode_wake_def

section \<open>Every codec is a TLV message\<close>

lemma field_at [codec_simps]:
  "u64_at (to_le 8 a @ r) 0 = Some a"
  "u32_at (to_le 8 a @ to_le 4 b @ r) 8 = Some b"
  "u32_at (to_le 8 a @ to_le 4 b) 8 = Some b"
  "u64_at (to_le 8 a @ to_le 4 b @ to_le 8 c @ r) 12 = Some c"
  "u64_at (to_le 8 a @ to_le 4 b @ to_le 8 c) 12 = Some c"
  "u64_at (to_le 8 a @ to_le 8 c) 8 = Some c"
  for a c :: u64 and b :: u32
  by (simp_all add: u64_at_def u32_at_def get_range_def)

lemma nth_append_past: "length xs \<le> n \<Longrightarrow> (xs @ ys) ! n = ys ! (n - length xs)"
  by (simp add: nth_append)

interpretation ptt_start: tlv_message
  "\<lambda>r. encode_ptt_start_v2 (start_epoch r) (start_seq r) (start_emergency r)"
  "\<lambda>_. OP_PTT_START_V2" parse_ptt_start_v2 "\<lambda>_. True"
  by unfold_locales
    (auto simp: opcode_defs is_tlv_opcode_def encode_ptt_start_v2_def parse_ptt_start_v2_def
      codec_simps nth_append_past intro!: exI conjI)

interpretation ptt_stop: tlv_message
  "\<lambda>r. encode_ptt_stop_v2 (stop_epoch r) (stop_end_seq r)"
  "\<lambda>_. OP_PTT_STOP_V2" parse_ptt_stop_v2 "\<lambda>_. True"
  by unfold_locales
    (auto simp: opcode_defs is_tlv_opcode_def encode_ptt_stop_v2_def parse_ptt_stop_v2_def
      codec_simps intro!: exI conjI)

lemma from_le_two: "(from_le [to_le 2 (w :: u16) ! 0, to_le 2 w ! Suc 0] :: u16) = w"
proof -
  have "[to_le 2 w ! 0, to_le 2 w ! Suc 0] = to_le 2 w"
    by (rule nth_equalityI) (auto simp: less_Suc_eq numeral_2_eq_2)
  then show ?thesis by (simp del: from_le.simps)
qed

interpretation heartbeat: tlv_message
  "\<lambda>r. encode_heartbeat (hb_epoch r) (hb_seq r) (hb_ts_ms r) (hb_state r) (hb_rtt_ms r) (hb_caps r)"
  "\<lambda>_. OP_HEARTBEAT" parse_heartbeat "\<lambda>_. True"
  by unfold_locales
    (auto simp: opcode_defs is_tlv_opcode_def encode_heartbeat_def parse_heartbeat_def
      codec_simps nth_append from_le_two simp del: from_le.simps intro!: exI conjI)

interpretation recv_ack: tlv_message
  "\<lambda>r. encode_recv_ack (ra_epoch r) (ra_last_seq r) (ra_ts_ms r)"
  "\<lambda>_. OP_RECV_ACK" parse_recv_ack "\<lambda>_. True"
  by unfold_locales
    (auto simp: opcode_defs is_tlv_opcode_def encode_recv_ack_def parse_recv_ack_def
      codec_simps intro!: exI conjI)

interpretation eot_ack: tlv_message
  "\<lambda>r. encode_eot_ack (ea_epoch r) (ea_up_to_seq r)"
  "\<lambda>_. OP_EOT_ACK" parse_eot_ack "\<lambda>_. True"
  by unfold_locales
    (auto simp: opcode_defs is_tlv_opcode_def encode_eot_ack_def parse_eot_ack_def
      codec_simps intro!: exI conjI)

interpretation wake: tlv_message
  "\<lambda>r. encode_wake (wake_epoch r) (wake_sender_ts_ms r)"
  "\<lambda>_. OP_WAKE" parse_wake "\<lambda>_. True"
  by unfold_locales
    (auto simp: opcode_defs is_tlv_opcode_def encode_wake_def parse_wake_def
      codec_simps intro!: exI conjI)

section \<open>Properties\<close>

text \<open>
  Each of the six push-to-talk and liveness frames survives the wire: whatever
  bytes follow it, the TLV parser finds the frame with its own opcode, and that opcode's payload
  parser returns every field as it was encoded.
\<close>

theorem ptt_frames_roundtrip:
  "(\<exists>t. parse_tlv (encode_ptt_start_v2 e s em @ rest) = Some t \<and> tlv_opcode t = OP_PTT_START_V2 \<and>
      parse_ptt_start_v2 (tlv_payload t) = Some \<lparr>start_epoch = e, start_seq = s, start_emergency = em\<rparr>) \<and>
   (\<exists>t. parse_tlv (encode_ptt_stop_v2 e s @ rest) = Some t \<and> tlv_opcode t = OP_PTT_STOP_V2 \<and>
      parse_ptt_stop_v2 (tlv_payload t) = Some \<lparr>stop_epoch = e, stop_end_seq = s\<rparr>) \<and>
   (\<exists>t. parse_tlv (encode_heartbeat e s ts st rtt caps @ rest) = Some t \<and> tlv_opcode t = OP_HEARTBEAT \<and>
      parse_heartbeat (tlv_payload t) =
        Some \<lparr>hb_epoch = e, hb_seq = s, hb_ts_ms = ts, hb_state = st, hb_rtt_ms = rtt, hb_caps = caps\<rparr>) \<and>
   (\<exists>t. parse_tlv (encode_recv_ack e s ts @ rest) = Some t \<and> tlv_opcode t = OP_RECV_ACK \<and>
      parse_recv_ack (tlv_payload t) = Some \<lparr>ra_epoch = e, ra_last_seq = s, ra_ts_ms = ts\<rparr>) \<and>
   (\<exists>t. parse_tlv (encode_eot_ack e s @ rest) = Some t \<and> tlv_opcode t = OP_EOT_ACK \<and>
      parse_eot_ack (tlv_payload t) = Some \<lparr>ea_epoch = e, ea_up_to_seq = s\<rparr>) \<and>
   (\<exists>t. parse_tlv (encode_wake e ts @ rest) = Some t \<and> tlv_opcode t = OP_WAKE \<and>
      parse_wake (tlv_payload t) = Some \<lparr>wake_epoch = e, wake_sender_ts_ms = ts\<rparr>)"
  using ptt_start.frame_roundtrip [of "\<lparr>start_epoch = e, start_seq = s, start_emergency = em\<rparr>" rest]
    ptt_stop.frame_roundtrip [of "\<lparr>stop_epoch = e, stop_end_seq = s\<rparr>" rest]
    heartbeat.frame_roundtrip [of "\<lparr>hb_epoch = e, hb_seq = s, hb_ts_ms = ts, hb_state = st,
      hb_rtt_ms = rtt, hb_caps = caps\<rparr>" rest]
    recv_ack.frame_roundtrip [of "\<lparr>ra_epoch = e, ra_last_seq = s, ra_ts_ms = ts\<rparr>" rest]
    eot_ack.frame_roundtrip [of "\<lparr>ea_epoch = e, ea_up_to_seq = s\<rparr>" rest]
    wake.frame_roundtrip [of "\<lparr>wake_epoch = e, wake_sender_ts_ms = ts\<rparr>" rest]
  by simp

lemma field_at_None [simp]:
  "u64_at b off = None \<longleftrightarrow> length b < off + 8" "u32_at b off = None \<longleftrightarrow> length b < off + 4"
  by (auto simp: u64_at_def u32_at_def get_range_def)

lemma field_at_append:
  "off + 8 \<le> length b \<Longrightarrow> u64_at (b @ x) off = u64_at b off"
  "off + 4 \<le> length b \<Longrightarrow> u32_at (b @ x) off = u32_at b off"
  by (auto simp: u64_at_def u32_at_def get_range_def)

text \<open>
  Every payload parser is total and accepts by length alone: the exact minimum of each
  opcode decides acceptance, and the two payloads that have grown over time are read compatibly. A
  12-byte start is the same start without the emergency flag, a 23-byte heartbeat the same
  heartbeat with no capabilities, an epoch-only stop has final sequence 0, and bytes past a
  complete payload change nothing.
\<close>

theorem ptt_parsers_accept:
  "(parse_ptt_start_v2 p \<noteq> None \<longleftrightarrow> 12 \<le> length p) \<and> (parse_ptt_stop_v2 p \<noteq> None \<longleftrightarrow> 8 \<le> length p) \<and>
   (parse_heartbeat p \<noteq> None \<longleftrightarrow> 23 \<le> length p) \<and> (parse_recv_ack p \<noteq> None \<longleftrightarrow> 20 \<le> length p) \<and>
   (parse_eot_ack p \<noteq> None \<longleftrightarrow> 12 \<le> length p) \<and> (parse_wake p \<noteq> None \<longleftrightarrow> 16 \<le> length p) \<and>
   parse_ptt_start_v2 (take 12 p) = map_option (\<lambda>r. r\<lparr>start_emergency := False\<rparr>) (parse_ptt_start_v2 p) \<and>
   parse_ptt_stop_v2 (take 8 p) = map_option (\<lambda>r. r\<lparr>stop_end_seq := 0\<rparr>) (parse_ptt_stop_v2 p) \<and>
   parse_heartbeat (take 23 p) = map_option (\<lambda>r. r\<lparr>hb_caps := 0\<rparr>) (parse_heartbeat p) \<and>
   parse_ptt_start_v2 (take 13 p) = parse_ptt_start_v2 p \<and> parse_ptt_stop_v2 (take 12 p) = parse_ptt_stop_v2 p \<and>
   parse_heartbeat (take 24 p) = parse_heartbeat p \<and> parse_recv_ack (take 20 p) = parse_recv_ack p \<and>
   parse_eot_ack (take 12 p) = parse_eot_ack p \<and> parse_wake (take 16 p) = parse_wake p"
proof -
  have cut: "u64_at (take n p) off = (if off + 8 \<le> n then u64_at p off else None)"
    "u32_at (take n p) off = (if off + 4 \<le> n then u32_at p off else None)" for n off
    by (auto simp: u64_at_def u32_at_def get_range_def drop_take min_def)
  have total: "(\<exists>r. parse_ptt_start_v2 p = Some r) \<longleftrightarrow> 12 \<le> length p"
    "(\<exists>r. parse_ptt_stop_v2 p = Some r) \<longleftrightarrow> 8 \<le> length p"
    "(\<exists>r. parse_heartbeat p = Some r) \<longleftrightarrow> 23 \<le> length p"
    "(\<exists>r. parse_recv_ack p = Some r) \<longleftrightarrow> 20 \<le> length p"
    "(\<exists>r. parse_eot_ack p = Some r) \<longleftrightarrow> 12 \<le> length p"
    "(\<exists>r. parse_wake p = Some r) \<longleftrightarrow> 16 \<le> length p"
    by (auto simp: ptt_parse_defs not_less split: option.splits if_splits)
  show ?thesis
    by (intro conjI) (auto simp: total cut ptt_parse_defs nth_append split: option.splits)
qed

end
