(* ===== verification/Wire.thy ===== *)
theory Wire
  imports Utf8_Std
begin

text \<open>
  The audio data-plane frame of \<open>core/src/wire.rs\<close>: two packers (legacy and v2) and the one parser
  that accepts both layouts. Indexing and slicing keep Rust's panics, so that the bounds checks of
  the parser are what the theorems are about.
\<close>

section \<open>Model\<close>

definition MAX_SENDER_ID_LEN :: nat where "MAX_SENDER_ID_LEN = 32"
definition MAX_DEVICE_NAME_LEN :: nat where "MAX_DEVICE_NAME_LEN = 64"
definition MIN_FRAME_LEN :: nat where "MIN_FRAME_LEN = 12"
definition V2_MARKER :: u8 where "V2_MARKER = 0xff"
definition V2_VERSION :: u8 where "V2_VERSION = 2"
definition V2_PREFIX_LEN :: nat where "V2_PREFIX_LEN = 2 + 1 + 1 + 8 + 4"

lemmas wire_const_defs =
  MAX_SENDER_ID_LEN_def MAX_DEVICE_NAME_LEN_def MIN_FRAME_LEN_def V2_MARKER_def V2_VERSION_def
  V2_PREFIX_LEN_def

record WireAudioFrame =
  wire_channel :: u8
  wire_subchannel :: u8
  wire_sender_id :: rstring
  wire_device_name :: rstring
  wire_stream_epoch :: u64
  wire_sequence :: u32
  wire_timestamp :: u64
  wire_compressed :: bytes

datatype wire_error =
    WireTooShort nat
  | UnsupportedOrTruncatedV2
  | InvalidSenderIdLength nat
  | InvalidDeviceNameLength nat

definition pack_wire_frame ::
  "u8 \<Rightarrow> u8 \<Rightarrow> rstring \<Rightarrow> rstring \<Rightarrow> u64 \<Rightarrow> bytes \<Rightarrow> bytes" where
  "pack_wire_frame channel subchannel sender_id device_name timestamp compressed =
     (let id_len = min (length sender_id) MAX_SENDER_ID_LEN;
          name_len = min (length device_name) MAX_DEVICE_NAME_LEN
      in [channel] @ [subchannel] @ [word_of_nat id_len] @ take id_len sender_id @
         [word_of_nat name_len] @ take name_len device_name @ to_le 8 timestamp @ compressed)"

definition pack_wire_frame_v2 ::
  "u8 \<Rightarrow> u8 \<Rightarrow> rstring \<Rightarrow> rstring \<Rightarrow> u64 \<Rightarrow> u32 \<Rightarrow> u64 \<Rightarrow> bytes \<Rightarrow> bytes" where
  "pack_wire_frame_v2 channel subchannel sender_id device_name stream_epoch sequence timestamp
       compressed =
     (let id_len = min (length sender_id) MAX_SENDER_ID_LEN;
          name_len = min (length device_name) MAX_DEVICE_NAME_LEN
      in [channel, subchannel, V2_MARKER, V2_VERSION] @ to_le 8 stream_epoch @ to_le 4 sequence @
         [word_of_nat id_len] @ take id_len sender_id @
         [word_of_nat name_len] @ take name_len device_name @ to_le 8 timestamp @ compressed)"

text \<open>
  The parser in two parts: the fields after the prefix, from the sender-id length at
  \<open>id_len_offset\<close> on, and the function itself.
\<close>

definition unpack_wire_fields ::
  "bytes \<Rightarrow> u8 \<Rightarrow> u8 \<Rightarrow> bool \<Rightarrow> u64 \<Rightarrow> u32 \<Rightarrow> nat \<Rightarrow> (wire_error, WireAudioFrame) outcome" where
  "unpack_wire_fields data channel subchannel is_v2 stream_epoch sequence id_len_offset =
     bind_outcome (index_at data id_len_offset) (\<lambda>id_len_byte.
     let id_len = unat id_len_byte in
     if MAX_SENDER_ID_LEN < id_len \<or> length data < id_len_offset + 1 + id_len + 1
     then Err (InvalidSenderIdLength id_len) else
     let id_start = id_len_offset + 1 in
     bind_outcome (slice_range data id_start (id_start + id_len)) (\<lambda>id_bytes.
     let name_len_offset = id_start + id_len in
     bind_outcome (index_at data name_len_offset) (\<lambda>name_len_byte.
     let name_len = unat name_len_byte in
     if MAX_DEVICE_NAME_LEN < name_len \<or> length data < name_len_offset + 1 + name_len + 8
     then Err (InvalidDeviceNameLength name_len) else
     let name_start = name_len_offset + 1 in
     bind_outcome (slice_range data name_start (name_start + name_len)) (\<lambda>name_bytes.
     let ts_offset = name_start + name_len in
     bind_outcome (slice_range data ts_offset (ts_offset + 8)) (\<lambda>ts_bytes.
     let timestamp = from_le ts_bytes in
     bind_outcome (slice_from data (ts_offset + 8)) (\<lambda>compressed.
     Ok \<lparr>wire_channel = channel, wire_subchannel = subchannel,
         wire_sender_id = from_utf8_lossy id_bytes,
         wire_device_name = from_utf8_lossy name_bytes,
         wire_stream_epoch = stream_epoch,
         wire_sequence = (if is_v2 then sequence else ucast timestamp),
         wire_timestamp = timestamp, wire_compressed = compressed\<rparr>))))))"

definition unpack_wire_frame_detailed :: "bytes \<Rightarrow> (wire_error, WireAudioFrame) outcome" where
  "unpack_wire_frame_detailed data =
    (if length data < MIN_FRAME_LEN then Err (WireTooShort (length data)) else
     bind_outcome (index_at data 0) (\<lambda>channel.
     bind_outcome (index_at data 1) (\<lambda>subchannel.
     let is_v2 = (2 < length data \<and> data ! 2 = V2_MARKER) in
     bind_outcome
       (if is_v2 then
          if length data < V2_PREFIX_LEN + 1 then Err UnsupportedOrTruncatedV2 else
          bind_outcome (index_at data 3) (\<lambda>version.
          if version \<noteq> V2_VERSION then Err UnsupportedOrTruncatedV2 else
          bind_outcome (slice_range data 4 12) (\<lambda>e.
          bind_outcome (slice_range data 12 16) (\<lambda>s.
          Ok (from_le e, from_le s, 16))))
        else Ok (0, 0, 2))
       (\<lambda>(stream_epoch, sequence, id_len_offset).
          unpack_wire_fields data channel subchannel is_v2 stream_epoch sequence id_len_offset))))"

definition unpack_wire_frame ::
  "bytes \<Rightarrow> (wire_error, u8 \<times> u8 \<times> rstring \<times> rstring \<times> u64 \<times> bytes) outcome" where
  "unpack_wire_frame data =
     bind_outcome (unpack_wire_frame_detailed data) (\<lambda>frame.
       Ok (wire_channel frame, wire_subchannel frame, wire_sender_id frame,
           wire_device_name frame, wire_timestamp frame, wire_compressed frame))"

section \<open>The common tail of the two layouts\<close>

text \<open>
  From the sender-id length byte on, both layouts are the same. \<open>wire_tail\<close> is that suffix, and
  \<open>parse_wire_tail\<close> the part of the parser that reads it, as a function of the suffix alone.
\<close>

definition wire_tail :: "bytes \<Rightarrow> bytes \<Rightarrow> u64 \<Rightarrow> bytes \<Rightarrow> bytes" where
  "wire_tail idb nameb timestamp compressed =
     [word_of_nat (length idb)] @ idb @ [word_of_nat (length nameb)] @ nameb @
     to_le 8 timestamp @ compressed"

definition parse_wire_tail :: "bytes \<Rightarrow> (wire_error, bytes \<times> bytes \<times> u64 \<times> bytes) outcome" where
  "parse_wire_tail d =
    (let id_len = unat (d ! 0) in
     if MAX_SENDER_ID_LEN < id_len \<or> length d < 1 + id_len + 1
     then Err (InvalidSenderIdLength id_len) else
     let name_len = unat (d ! (1 + id_len)) in
     if MAX_DEVICE_NAME_LEN < name_len \<or> length d < 1 + id_len + 1 + name_len + 8
     then Err (InvalidDeviceNameLength name_len) else
     let name_start = 1 + id_len + 1; ts_offset = name_start + name_len in
     Ok (take id_len (drop 1 d), take name_len (drop name_start d),
         from_le (take 8 (drop ts_offset d)), drop (ts_offset + 8) d))"

definition tail_frame ::
  "u8 \<Rightarrow> u8 \<Rightarrow> bool \<Rightarrow> u64 \<Rightarrow> u32 \<Rightarrow> bytes \<times> bytes \<times> u64 \<times> bytes \<Rightarrow> WireAudioFrame" where
  "tail_frame ch sub is_v2 ep sq = (\<lambda>(idb, nameb, ts, audio).
     \<lparr>wire_channel = ch, wire_subchannel = sub, wire_sender_id = from_utf8_lossy idb,
      wire_device_name = from_utf8_lossy nameb, wire_stream_epoch = ep,
      wire_sequence = (if is_v2 then sq else ucast ts), wire_timestamp = ts,
      wire_compressed = audio\<rparr>)"

lemma unpack_wire_fields_tail:
  assumes "off < length d"
  shows "unpack_wire_fields d ch sub is_v2 ep sq off =
    bind_outcome (parse_wire_tail (drop off d)) (\<lambda>t. Ok (tail_frame ch sub is_v2 ep sq t))"
proof -
  have "drop off d ! n = d ! (off + n)" for n using assms by simp
  moreover have "length (drop off d) < n \<longleftrightarrow> length d < off + n" for n using assms by auto
  ultimately show ?thesis
    using assms
    by (auto simp: unpack_wire_fields_def parse_wire_tail_def tail_frame_def Let_def ac_simps)
qed

lemma unpack_legacy:
  assumes "12 \<le> length d" and "d ! 2 \<noteq> V2_MARKER"
  shows "unpack_wire_frame_detailed d =
    bind_outcome (parse_wire_tail (drop 2 d)) (\<lambda>t. Ok (tail_frame (d ! 0) (d ! 1) False 0 0 t))"
proof -
  from assms(1) have "0 < length d" "1 < length d" "2 < length d" by auto
  with assms show ?thesis
    by (simp add: unpack_wire_frame_detailed_def MIN_FRAME_LEN_def unpack_wire_fields_tail)
qed

lemma unpack_v2:
  assumes "17 \<le> length d" and "d ! 2 = V2_MARKER" and "d ! 3 = V2_VERSION"
  shows "unpack_wire_frame_detailed d =
    bind_outcome (parse_wire_tail (drop 16 d)) (\<lambda>t.
      Ok (tail_frame (d ! 0) (d ! 1) True (from_le (take 8 (drop 4 d)))
            (from_le (take 4 (drop 12 d))) t))"
proof -
  from assms(1) have "0 < length d" "1 < length d" "2 < length d" "16 < length d" by auto
  with assms show ?thesis
    by (simp add: unpack_wire_frame_detailed_def MIN_FRAME_LEN_def V2_PREFIX_LEN_def
        unpack_wire_fields_tail)
qed

lemma unpack_rejects:
  "length d < 12 \<Longrightarrow> unpack_wire_frame_detailed d = Err (WireTooShort (length d))"
  "12 \<le> length d \<Longrightarrow> d ! 2 = V2_MARKER \<Longrightarrow> length d < 17 \<or> d ! 3 \<noteq> V2_VERSION \<Longrightarrow>
     unpack_wire_frame_detailed d = Err UnsupportedOrTruncatedV2"
proof -
  assume a: "12 \<le> length d" "d ! 2 = V2_MARKER" "length d < 17 \<or> d ! 3 \<noteq> V2_VERSION"
  from a(1) have "0 < length d" "1 < length d" by auto
  with a show "unpack_wire_frame_detailed d = Err UnsupportedOrTruncatedV2"
    by (auto simp: unpack_wire_frame_detailed_def MIN_FRAME_LEN_def V2_PREFIX_LEN_def)
qed (simp add: unpack_wire_frame_detailed_def MIN_FRAME_LEN_def)

text \<open>The tail parser inverts \<open>wire_tail\<close>, and accepts nothing else.\<close>

lemma parse_wire_tail_complete:
  assumes "length idb \<le> 32" and "length nameb \<le> 64"
  shows "parse_wire_tail (wire_tail idb nameb ts audio) = Ok (idb, nameb, ts, audio)"
  using assms
  by (simp add: parse_wire_tail_def wire_tail_def MAX_SENDER_ID_LEN_def MAX_DEVICE_NAME_LEN_def
      nth_append drop_Cons' Let_def)

lemma parse_wire_tail_sound:
  assumes "parse_wire_tail d = Ok (idb, nameb, ts, audio)" and "d \<noteq> []"
  shows "d = wire_tail idb nameb ts audio \<and> length idb \<le> 32 \<and> length nameb \<le> 64"
proof -
  define n where "n = unat (d ! 0)"
  define m where "m = unat (d ! (1 + n))"
  from assms have b: "n \<le> 32" "1 + n + 1 \<le> length d" "m \<le> 64" "1 + n + 1 + m + 8 \<le> length d"
    and f: "idb = take n (drop 1 d)" "nameb = take m (drop (n + 2) d)"
      "ts = from_le (take 8 (drop (n + 2 + m) d))" "audio = drop (n + 2 + m + 8) d"
    by (auto simp: parse_wire_tail_def n_def m_def Let_def MAX_SENDER_ID_LEN_def
        MAX_DEVICE_NAME_LEN_def split: if_splits)
  have eight: "length (take 8 (drop (n + 2 + m) d)) = 8" using b by simp
  have "to_le 8 ts = take 8 (drop (n + 2 + m) d)"
    using to_le_from_le [of "take 8 (drop (n + 2 + m) d)", where 'a = 64] unfolding eight f(3)
    by simp
  moreover have "d = [d ! 0] @ take n (drop 1 d) @ [d ! (1 + n)] @ take m (drop (n + 2) d) @
      take 8 (drop (n + 2 + m) d) @ drop (n + 2 + m + 8) d"
  proof -
    have "drop 1 d = take n (drop 1 d) @ drop (1 + n) d" by (rule drop_split)
    moreover have "drop (1 + n) d = [d ! (1 + n)] @ drop (n + 2) d"
      using b by (simp add: Cons_nth_drop_Suc)
    moreover have "drop (n + 2) d = take m (drop (n + 2) d) @ drop (n + 2 + m) d"
      by (rule drop_split)
    moreover have "drop (n + 2 + m) d = take 8 (drop (n + 2 + m) d) @ drop (n + 2 + m + 8) d"
      by (rule drop_split)
    moreover have "d = [d ! 0] @ drop 1 d"
      using assms(2) by (cases d) auto
    ultimately show ?thesis by (metis append.assoc)
  qed
  moreover have "[d ! 0] = [word_of_nat n]" "[d ! (1 + n)] = [word_of_nat m]"
    by (simp_all add: n_def m_def)
  ultimately show ?thesis
    using b f by (simp add: wire_tail_def)
qed

lemma parse_wire_tail_no_panic: "parse_wire_tail d \<noteq> Panic"
  by (auto simp: parse_wire_tail_def Let_def)

section \<open>The packers produce the two layouts\<close>

lemma pack_wire_frame_tail:
  "pack_wire_frame ch sub sid name ts audio = [ch, sub] @ wire_tail (take 32 sid) (take 64 name) ts audio"
  by (simp add: pack_wire_frame_def wire_tail_def MAX_SENDER_ID_LEN_def MAX_DEVICE_NAME_LEN_def
      Let_def)

lemma pack_wire_frame_v2_tail:
  "pack_wire_frame_v2 ch sub sid name ep sq ts audio =
     [ch, sub, V2_MARKER, V2_VERSION] @ to_le 8 ep @ to_le 4 sq @
     wire_tail (take 32 sid) (take 64 name) ts audio"
  by (simp add: pack_wire_frame_v2_def wire_tail_def MAX_SENDER_ID_LEN_def MAX_DEVICE_NAME_LEN_def
      Let_def)

lemma wire_tail_nth0: "wire_tail idb nameb ts audio ! 0 = word_of_nat (length idb)"
  by (simp add: wire_tail_def)

lemma length_wire_tail: "length (wire_tail idb nameb ts audio) = 10 + length idb + length nameb + length audio"
  by (simp add: wire_tail_def)

lemma small_ne_marker: "n \<le> 32 \<Longrightarrow> (word_of_nat n :: u8) \<noteq> V2_MARKER"
  by (auto simp: V2_MARKER_def dest!: arg_cong [where f = unat])

lemma unpack_pack_legacy:
  assumes "length idb \<le> 32" and "length nameb \<le> 64"
  shows "unpack_wire_frame_detailed ([ch, sub] @ wire_tail idb nameb ts audio) =
    Ok (tail_frame ch sub False 0 0 (idb, nameb, ts, audio))"
proof (subst unpack_legacy)
  show "([ch, sub] @ wire_tail idb nameb ts audio) ! 2 \<noteq> V2_MARKER"
    using assms small_ne_marker by (simp add: wire_tail_nth0)
qed (use assms in \<open>simp_all add: length_wire_tail parse_wire_tail_complete\<close>)

lemma unpack_pack_v2:
  assumes "length idb \<le> 32" and "length nameb \<le> 64"
  shows "unpack_wire_frame_detailed
      ([ch, sub, V2_MARKER, V2_VERSION] @ to_le 8 ep @ to_le 4 sq @ wire_tail idb nameb ts audio) =
    Ok (tail_frame ch sub True ep sq (idb, nameb, ts, audio))"
  using assms by (subst unpack_v2) (simp_all add: length_wire_tail parse_wire_tail_complete)

lemma v2_split:
  "17 \<le> length d \<Longrightarrow> d = [d ! 0, d ! 1, d ! 2, d ! 3] @ take 8 (drop 4 d) @ take 4 (drop 12 d) @ drop 16 d"
proof -
  assume d: "17 \<le> length d"
  have "take 4 d = [d ! 0, d ! 1, d ! 2, d ! 3]"
    using d by (auto simp: list_eq_iff_nth_eq less_Suc_eq numeral_eq_Suc)
  moreover have "d = take 4 d @ take 8 (drop 4 d) @ take 4 (drop 12 d) @ drop 16 d"
    using drop_split [of 0 d 4] drop_split [of 4 d 8] drop_split [of 12 d 4] by simp
  ultimately show ?thesis by simp
qed

section \<open>Properties\<close>

text \<open>
  C1: The wire-frame parser is total on hostile input: whatever bytes arrive, neither entry point
  panics, so no length field can make it index or slice outside the buffer.
\<close>

theorem wire_unpack_no_panic:
  "unpack_wire_frame_detailed data \<noteq> Panic \<and> unpack_wire_frame data \<noteq> Panic"
proof -
  consider "length data < 12" | "12 \<le> length data" "data ! 2 \<noteq> V2_MARKER"
    | "12 \<le> length data" "data ! 2 = V2_MARKER" "length data < 17 \<or> data ! 3 \<noteq> V2_VERSION"
    | "17 \<le> length data" "data ! 2 = V2_MARKER" "data ! 3 = V2_VERSION"
    by linarith
  then have "unpack_wire_frame_detailed data \<noteq> Panic"
    by cases (auto simp: unpack_rejects unpack_legacy unpack_v2 bind_outcome_Panic_iff
        parse_wire_tail_no_panic)
  then show ?thesis
    by (auto simp: unpack_wire_frame_def bind_outcome_Panic_iff)
qed

text \<open>
  C2: Packing and unpacking round-trip for both layouts and every input: the v2 frame returns its
  epoch and sequence, the legacy frame epoch 0 and the low 32 bits of the timestamp; identifiers
  come back clipped to 32 and 64 bytes (and, where the clip splits a character, with U+FFFD in
  place of the rest), which for identifiers that fit is the identity.
\<close>

theorem wire_roundtrip:
  "unpack_wire_frame_detailed (pack_wire_frame_v2 ch sub sid name ep sq ts audio) =
     Ok \<lparr>wire_channel = ch, wire_subchannel = sub,
         wire_sender_id = from_utf8_lossy (take 32 sid),
         wire_device_name = from_utf8_lossy (take 64 name),
         wire_stream_epoch = ep, wire_sequence = sq, wire_timestamp = ts,
         wire_compressed = audio\<rparr> \<and>
   unpack_wire_frame_detailed (pack_wire_frame ch sub sid name ts audio) =
     Ok \<lparr>wire_channel = ch, wire_subchannel = sub,
         wire_sender_id = from_utf8_lossy (take 32 sid),
         wire_device_name = from_utf8_lossy (take 64 name),
         wire_stream_epoch = 0, wire_sequence = ucast ts, wire_timestamp = ts,
         wire_compressed = audio\<rparr>"
  by (simp only: pack_wire_frame_tail pack_wire_frame_v2_tail unpack_pack_v2 unpack_pack_legacy
      length_take min.cobounded2 tail_frame_def prod.case if_True if_False simp_thms)

text \<open>
  C3: The parser accepts exactly the byte strings the two packers can emit, and reads each in one
  way: a frame is accepted with result \<open>f\<close> iff it is a legacy or a v2 layout of raw identifiers of
  at most 32 and 64 bytes whose fields are those of \<open>f\<close>.
\<close>

theorem wire_unpack_exact:
  "unpack_wire_frame_detailed data = Ok f \<longleftrightarrow>
    (\<exists>sid name. length sid \<le> 32 \<and> length name \<le> 64 \<and>
       wire_sender_id f = from_utf8_lossy sid \<and> wire_device_name f = from_utf8_lossy name \<and>
       (data = pack_wire_frame_v2 (wire_channel f) (wire_subchannel f) sid name
                 (wire_stream_epoch f) (wire_sequence f) (wire_timestamp f) (wire_compressed f) \<or>
        data = pack_wire_frame (wire_channel f) (wire_subchannel f) sid name
                 (wire_timestamp f) (wire_compressed f) \<and>
        wire_stream_epoch f = 0 \<and> wire_sequence f = ucast (wire_timestamp f)))"
  (is "_ \<longleftrightarrow> ?layout")
proof
  assume ok: "unpack_wire_frame_detailed data = Ok f"
  have split: "data = [data ! 0, data ! 1] @ drop 2 data" if "12 \<le> length data"
    using that by (cases data; cases "tl data") auto
  consider (legacy) "12 \<le> length data" "data ! 2 \<noteq> V2_MARKER"
    | (v2) "17 \<le> length data" "data ! 2 = V2_MARKER" "data ! 3 = V2_VERSION"
    using ok unpack_rejects [of data] by fastforce
  then show ?layout
  proof cases
    case legacy
    with ok obtain sid name ts audio where
      t: "parse_wire_tail (drop 2 data) = Ok (sid, name, ts, audio)"
      and f: "f = tail_frame (data ! 0) (data ! 1) False 0 0 (sid, name, ts, audio)"
      by (auto simp: unpack_legacy bind_outcome_Ok_iff)
    from parse_wire_tail_sound [OF t] legacy have
      "drop 2 data = wire_tail sid name ts audio" "length sid \<le> 32" "length name \<le> 64" by auto
    with split [OF legacy(1)] f show ?thesis
      by (intro exI [of _ sid] exI [of _ name]) (simp add: tail_frame_def pack_wire_frame_tail)
  next
    case v2
    with ok obtain sid name ts audio where
      t: "parse_wire_tail (drop 16 data) = Ok (sid, name, ts, audio)"
      and f: "f = tail_frame (data ! 0) (data ! 1) True (from_le (take 8 (drop 4 data)))
        (from_le (take 4 (drop 12 data))) (sid, name, ts, audio)"
      by (auto simp: unpack_v2 bind_outcome_Ok_iff)
    from parse_wire_tail_sound [OF t] v2 have
      "drop 16 data = wire_tail sid name ts audio" "length sid \<le> 32" "length name \<le> 64" by auto
    moreover have "data = [data ! 0, data ! 1, data ! 2, data ! 3] @ take 8 (drop 4 data) @
        take 4 (drop 12 data) @ drop 16 data"
      using v2(1) by (rule v2_split)
    moreover have "to_le 8 (from_le (take 8 (drop 4 data)) :: u64) = take 8 (drop 4 data)"
      "to_le 4 (from_le (take 4 (drop 12 data)) :: u32) = take 4 (drop 12 data)"
      using v2(1) by (simp_all add: to_le_from_le_length)
    ultimately show ?thesis
      using f v2 by (intro exI [of _ sid] exI [of _ name])
        (simp add: tail_frame_def pack_wire_frame_v2_tail)
  qed
next
  assume ?layout
  then show "unpack_wire_frame_detailed data = Ok f"
    by (auto simp: pack_wire_frame_tail pack_wire_frame_v2_tail unpack_pack_v2 unpack_pack_legacy
        tail_frame_def simp del: append_Cons append_Nil)
qed

end
