(* ===== verification/Floor.thy ===== *)
theory Floor
  imports Talk_Prelude
begin

text \<open>
  The busy-channel and emergency-preemption policy of \<open>core/src/floor.rs\<close>, and why every radio on
  a channel that applies it agrees on one talker.
\<close>

section \<open>Model\<close>

definition UI_SPEAKING_MS :: u64 where "UI_SPEAKING_MS = 400"
definition DRAIN_HOLD_MS :: u64 where "DRAIN_HOLD_MS = 300"
definition STALE_HOLD_MS :: u64 where "STALE_HOLD_MS = 1500"
definition DEFAULT_MAX_TX_MS :: u64 where "DEFAULT_MAX_TX_MS = 60000"

definition should_block_local :: "bool \<Rightarrow> bool \<Rightarrow> bool" where
  "should_block_local floor_held local_emergency \<longleftrightarrow> floor_held \<and> \<not> local_emergency"

text \<open>Peer ids are compared as Rust compares \<open>str\<close>: lexicographically, byte by byte.\<close>

definition remote_wins :: "u64 \<Rightarrow> bool \<Rightarrow> u64 \<Rightarrow> bool \<Rightarrow> rstring \<Rightarrow> rstring \<Rightarrow> bool" where
  "remote_wins local_epoch local_emergency remote_epoch remote_emergency local_peer_id
       remote_peer_id =
     (if remote_emergency \<noteq> local_emergency then remote_emergency
      else if remote_epoch \<noteq> local_epoch then remote_epoch <s local_epoch
      else if local_peer_id \<noteq> [] \<and> remote_peer_id \<noteq> [] then remote_peer_id < local_peer_id
      else False)"

section \<open>Arbitration among any number of radios\<close>

text \<open>What each contender announces, and when contender \<open>a\<close> yields the floor to \<open>b\<close>.\<close>

record floor_request =
  req_epoch :: u64
  req_emergency :: bool
  req_peer_id :: rstring

definition yields_to :: "floor_request \<Rightarrow> floor_request \<Rightarrow> bool" where
  "yields_to a b = remote_wins (req_epoch a) (req_emergency a) (req_epoch b) (req_emergency b)
     (req_peer_id a) (req_peer_id b)"

text \<open>
  The contract a channel needs from its arbitration rule, and what follows from it for any finite
  set of contenders whose identities are known and distinct.
\<close>

locale floor_arbiter =
  fixes yields :: "'r \<Rightarrow> 'r \<Rightarrow> bool"
    and known :: "'r \<Rightarrow> bool"
    and ident :: "'r \<Rightarrow> 'i"
  assumes irrefl: "\<not> yields r r"
    and trans: "yields a b \<Longrightarrow> yields b c \<Longrightarrow> yields a c"
    and total: "known a \<Longrightarrow> known b \<Longrightarrow> ident a \<noteq> ident b \<Longrightarrow> yields a b \<or> yields b a"
begin

lemma asym: "yields a b \<Longrightarrow> \<not> yields b a"
  using irrefl trans by blast

lemma winner_exists:
  assumes "finite S" and "S \<noteq> {}" and "\<forall>r \<in> S. known r" and "inj_on ident S"
  shows "\<exists>w \<in> S. \<forall>r \<in> S - {w}. yields r w"
  using assms
proof (induction S rule: finite_ne_induct)
  case (singleton x)
  then show ?case by simp
next
  case (insert x S)
  then obtain w where w: "w \<in> S" "\<forall>r \<in> S - {w}. yields r w" by auto
  from insert.hyps insert.prems w have "ident x \<noteq> ident w" "known x" "known w"
    by (auto simp: inj_on_def)
  then consider "yields x w" | "yields w x" using total by blast
  then show ?case
  proof cases
    case 1
    then show ?thesis using w by blast
  next
    case 2
    then have "\<forall>r \<in> insert x S - {x}. yields r x" using w trans by blast
    then show ?thesis by blast
  qed
qed

lemma unique_winner:
  assumes "finite S" and "S \<noteq> {}" and "\<forall>r \<in> S. known r" and "inj_on ident S"
  shows "\<exists>!w. w \<in> S \<and> (\<forall>r \<in> S - {w}. yields r w \<and> \<not> yields w r)"
proof -
  from winner_exists [OF assms] obtain w where w: "w \<in> S" "\<forall>r \<in> S - {w}. yields r w" by blast
  show ?thesis
  proof (rule ex1I [of _ w])
    show "w \<in> S \<and> (\<forall>r \<in> S - {w}. yields r w \<and> \<not> yields w r)" using w asym by blast
    fix v
    assume v: "v \<in> S \<and> (\<forall>r \<in> S - {v}. yields r v \<and> \<not> yields v r)"
    show "v = w" using w v by blast
  qed
qed

end

lemma yields_to_emergency: "req_emergency b \<Longrightarrow> \<not> req_emergency a \<Longrightarrow> yields_to a b"
  by (simp add: yields_to_def remote_wins_def)

lemma word_sless_iff: "a <s b \<longleftrightarrow> sint a < sint b" for a b :: "'a::len word"
  by (rule word_sless_alt)

lemma yields_to_iff:
  "yields_to a b \<longleftrightarrow>
     req_emergency b \<and> \<not> req_emergency a \<or>
     req_emergency b = req_emergency a \<and> sint (req_epoch b) < sint (req_epoch a) \<or>
     req_emergency b = req_emergency a \<and> req_epoch b = req_epoch a \<and>
       req_peer_id a \<noteq> [] \<and> req_peer_id b \<noteq> [] \<and> req_peer_id b < req_peer_id a"
  by (auto simp: yields_to_def remote_wins_def word_sless_iff)

interpretation channel_floor: floor_arbiter yields_to "\<lambda>r. req_peer_id r \<noteq> []" req_peer_id
proof unfold_locales
  fix a b c :: floor_request
  show "\<not> yields_to a a" by (simp add: yields_to_iff)
  show "yields_to a b \<Longrightarrow> yields_to b c \<Longrightarrow> yields_to a c"
    by (auto simp: yields_to_iff dest: less_trans)
  show "req_peer_id a \<noteq> [] \<Longrightarrow> req_peer_id b \<noteq> [] \<Longrightarrow> req_peer_id a \<noteq> req_peer_id b \<Longrightarrow>
    yields_to a b \<or> yields_to b a"
    by (auto simp: yields_to_iff) (metis linorder_neqE signed_word_eqI)+
qed

section \<open>Properties\<close>

text \<open>
  C1: Two radios that key up together never both yield, and exactly one of them yields whenever
  their announcements differ in priority or epoch, or carry known, distinct peer ids. Epochs are
  compared as signed 64-bit values.
\<close>

theorem floor_two_party:
  "\<not> (remote_wins ea ma eb mb ia ib \<and> remote_wins eb mb ea ma ib ia) \<and>
   (ma \<noteq> mb \<or> ea \<noteq> eb \<or> ia \<noteq> [] \<and> ib \<noteq> [] \<and> ia \<noteq> ib \<longrightarrow>
      remote_wins ea ma eb mb ia ib = (\<not> remote_wins eb mb ea ma ib ia))"
proof -
  define a where "a = \<lparr>req_epoch = ea, req_emergency = ma, req_peer_id = ia\<rparr>"
  define b where "b = \<lparr>req_epoch = eb, req_emergency = mb, req_peer_id = ib\<rparr>"
  have fields: "remote_wins ea ma eb mb ia ib = yields_to a b"
    "remote_wins eb mb ea ma ib ia = yields_to b a"
    by (simp_all add: a_def b_def yields_to_def)
  have "yields_to a b \<or> yields_to b a" if "ma \<noteq> mb \<or> ea \<noteq> eb \<or> ia \<noteq> [] \<and> ib \<noteq> [] \<and> ia \<noteq> ib"
    using that by (auto simp: a_def b_def yields_to_iff) (metis linorder_neqE signed_word_eqI)+
  with channel_floor.asym fields show ?thesis by blast
qed

text \<open>Epoch \<open>-1\<close> (the largest unsigned value) beats epoch 1, from both ends.\<close>

theorem floor_two_party_witness:
  "remote_wins 1 False (- 1) False [] [] \<and> \<not> remote_wins (- 1) False 1 False [] []"
  using floor_two_party [of 1 False "- 1" False "[]" "[]"]
  by (auto simp: remote_wins_def word_sless_alt)

text \<open>
  C2: Among any finite, nonempty set of simultaneous requests with known and pairwise distinct
  peer ids there is exactly one request that all others yield to and that yields to none, and if
  any request is an emergency then the winner is one.
\<close>

theorem floor_unique_winner:
  assumes "finite S" and "S \<noteq> {}" and "\<forall>r \<in> S. req_peer_id r \<noteq> []" and "inj_on req_peer_id S"
  shows "\<exists>!w. w \<in> S \<and> (\<forall>r \<in> S - {w}. yields_to r w \<and> \<not> yields_to w r) \<and>
    (req_emergency w \<longleftrightarrow> (\<exists>r \<in> S. req_emergency r))"
proof -
  from channel_floor.unique_winner [OF assms] obtain w where
    w: "w \<in> S" "\<forall>r \<in> S - {w}. yields_to r w \<and> \<not> yields_to w r"
    and uniq: "\<And>v. v \<in> S \<and> (\<forall>r \<in> S - {v}. yields_to r v \<and> \<not> yields_to v r) \<Longrightarrow> v = w"
    by blast
  have "req_emergency w \<longleftrightarrow> (\<exists>r \<in> S. req_emergency r)"
    using w yields_to_emergency by blast
  with w uniq show ?thesis by blast
qed

theorem floor_unique_winner_witness:
  "\<exists>!w. w \<in> {\<lparr>req_epoch = 9, req_emergency = True, req_peer_id = [97]\<rparr>,
              \<lparr>req_epoch = 1, req_emergency = False, req_peer_id = [98]\<rparr>} \<and>
     (\<forall>r \<in> {\<lparr>req_epoch = 9, req_emergency = True, req_peer_id = [97]\<rparr>,
              \<lparr>req_epoch = 1, req_emergency = False, req_peer_id = [98]\<rparr>} - {w}.
        yields_to r w \<and> \<not> yields_to w r) \<and>
     (req_emergency w \<longleftrightarrow>
        (\<exists>r \<in> {\<lparr>req_epoch = 9, req_emergency = True, req_peer_id = [97]\<rparr>,
              \<lparr>req_epoch = 1, req_emergency = False, req_peer_id = [98]\<rparr>}. req_emergency r))"
  by (rule floor_unique_winner) auto

end
