(* ===== verification/Channels.thy ===== *)
theory Channels
  imports Talk_Prelude
begin

text \<open>
  The channel-scan and priority-preemption controller of \<open>core/src/channels.rs\<close>: its state, every
  operation, the invariant of the scan list, the precedence rule of \<open>recompute_monitor\<close> and the
  fairness of the sweep.
\<close>

section \<open>Model\<close>

datatype Priority = Normal | P2 | P1

text \<open>The derived order: \<open>Normal < P2 < P1\<close>.\<close>

fun priority_rank :: "Priority \<Rightarrow> nat" where
  "priority_rank Normal = 0"
| "priority_rank P2 = 1"
| "priority_rank P1 = 2"

instantiation Priority :: linorder
begin

definition less_eq_Priority :: "Priority \<Rightarrow> Priority \<Rightarrow> bool" where
  "less_eq_Priority a b \<longleftrightarrow> priority_rank a \<le> priority_rank b"

definition less_Priority :: "Priority \<Rightarrow> Priority \<Rightarrow> bool" where
  "less_Priority a b \<longleftrightarrow> priority_rank a < priority_rank b"

instance
proof
  fix a b :: Priority
  show "a \<le> b \<Longrightarrow> b \<le> a \<Longrightarrow> a = b"
    by (cases a; cases b) (auto simp: less_eq_Priority_def)
qed (auto simp: less_eq_Priority_def less_Priority_def)

end

definition is_priority :: "Priority \<Rightarrow> bool" where
  "is_priority p \<longleftrightarrow> p = P1 \<or> p = P2"

record ChannelEntry =
  ce_priority :: Priority
  ce_enabled :: bool
  ce_last_activity_ms :: "u64 option"
  ce_last_level :: "i16 option"

definition ChannelEntry_new :: "Priority \<Rightarrow> ChannelEntry" where
  "ChannelEntry_new p =
     \<lparr>ce_priority = p, ce_enabled = True, ce_last_activity_ms = None, ce_last_level = None\<rparr>"

record ScanConfig =
  dwell_ms :: u64
  hang_ms :: u64

definition ScanConfig_default :: ScanConfig where
  "ScanConfig_default = \<lparr>dwell_ms = 250, hang_ms = 2500\<rparr>"

record ScanController =
  sc_channels :: "(u8, ChannelEntry) hmap"
  sc_order :: "u8 list"
  sc_cfg :: ScanConfig
  sc_scanning :: bool
  sc_home :: "u8 option"
  sc_monitor :: u8
  sc_cursor :: nat
  sc_last_cursor_step_ms :: u64
  sc_now_ms :: u64

definition ScanController_new :: "ScanConfig \<Rightarrow> ScanController" where
  "ScanController_new cfg =
     \<lparr>sc_channels = [], sc_order = [], sc_cfg = cfg, sc_scanning = False, sc_home = None,
      sc_monitor = 0, sc_cursor = 0, sc_last_cursor_step_ms = 0, sc_now_ms = 0\<rparr>"

definition ScanController_with_defaults :: ScanController where
  "ScanController_with_defaults = ScanController_new ScanConfig_default"

definition add_channel :: "ScanController \<Rightarrow> u8 \<Rightarrow> Priority \<Rightarrow> ScanController" where
  "add_channel s channel priority =
     (case hm_get (sc_channels s) channel of
        Some e \<Rightarrow> s\<lparr>sc_channels :=
          hm_insert channel (e\<lparr>ce_priority := priority, ce_enabled := True\<rparr>) (sc_channels s)\<rparr>
      | None \<Rightarrow>
          (let s1 = s\<lparr>sc_channels := hm_insert channel (ChannelEntry_new priority) (sc_channels s),
                      sc_order := sc_order s @ [channel]\<rparr>
           in if sc_home s1 = None then s1\<lparr>sc_home := Some channel, sc_monitor := channel\<rparr> else s1))"

text \<open>\<open>order.first().copied()\<close>\<close>

definition first_opt :: "'x list \<Rightarrow> 'x option" where
  "first_opt xs = (case xs of [] \<Rightarrow> None | x # _ \<Rightarrow> Some x)"

definition remove_channel :: "ScanController \<Rightarrow> u8 \<Rightarrow> ScanController" where
  "remove_channel s channel =
     (if hm_get (sc_channels s) channel = None then s else
      let s1 = s\<lparr>sc_channels := hm_remove channel (sc_channels s),
                 sc_order := filter (\<lambda>c. c \<noteq> channel) (sc_order s)\<rparr>;
          s2 = (if sc_home s1 = Some channel then s1\<lparr>sc_home := first_opt (sc_order s1)\<rparr> else s1);
          s3 = (if length (sc_order s2) \<le> sc_cursor s2 then s2\<lparr>sc_cursor := 0\<rparr> else s2)
      in if sc_monitor s3 = channel
         then s3\<lparr>sc_monitor :=
           (case sc_home s3 of Some h \<Rightarrow> h
            | None \<Rightarrow> (case first_opt (sc_order s3) of Some c \<Rightarrow> c | None \<Rightarrow> 0))\<rparr>
         else s3)"

definition set_enabled :: "ScanController \<Rightarrow> u8 \<Rightarrow> bool \<Rightarrow> ScanController" where
  "set_enabled s channel enabled =
     (case hm_get (sc_channels s) channel of
        Some e \<Rightarrow> s\<lparr>sc_channels := hm_insert channel (e\<lparr>ce_enabled := enabled\<rparr>) (sc_channels s)\<rparr>
      | None \<Rightarrow> s)"

datatype channels_error = UnknownChannel u8

definition set_home :: "ScanController \<Rightarrow> u8 \<Rightarrow> channels_error + ScanController" where
  "set_home s channel =
     (if hm_contains (sc_channels s) channel then Inr (s\<lparr>sc_home := Some channel\<rparr>)
      else Inl (UnknownChannel channel))"

definition entry_active :: "ScanController \<Rightarrow> ChannelEntry \<Rightarrow> bool" where
  "entry_active s e =
     (case ce_last_activity_ms e of
        Some ts \<Rightarrow> sat_sub (sc_now_ms s) ts < hang_ms (sc_cfg s)
      | None \<Rightarrow> False)"

definition channel_enabled :: "ScanController \<Rightarrow> u8 \<Rightarrow> bool" where
  "channel_enabled s ch = (case hm_get (sc_channels s) ch of Some e \<Rightarrow> ce_enabled e | None \<Rightarrow> False)"

text \<open>The body of \<open>step_cursor\<close>'s loop, run at most \<open>n\<close> times.\<close>

fun step_cursor_loop :: "nat \<Rightarrow> ScanController \<Rightarrow> ScanController" where
  "step_cursor_loop 0 s = s"
| "step_cursor_loop (Suc k) s =
     (let s1 = s\<lparr>sc_cursor := (sc_cursor s + 1) mod length (sc_order s)\<rparr>
      in if channel_enabled s1 (sc_order s1 ! sc_cursor s1) then s1 else step_cursor_loop k s1)"

definition step_cursor :: "ScanController \<Rightarrow> ScanController" where
  "step_cursor s =
     (let n = length (sc_order s) in if n = 0 then s else step_cursor_loop n s)"

text \<open>Candidates of rule 2: channel, priority, last activity; and the comparison of two of them.\<close>

type_synonym candidate = "u8 \<times> Priority \<times> u64"

definition cand_better :: "candidate \<Rightarrow> candidate \<Rightarrow> bool" where
  "cand_better cand cur =
     (case cand of (c1, p1, t1) \<Rightarrow> case cur of (c2, p2, t2) \<Rightarrow>
        p2 < p1 \<or> p1 = p2 \<and> (t2 < t1 \<or> t1 = t2 \<and> c1 < c2))"

definition best_active_step ::
  "ScanController \<Rightarrow> candidate option \<Rightarrow> u8 \<times> ChannelEntry \<Rightarrow> candidate option" where
  "best_active_step s best ce =
     (case ce of (ch, e) \<Rightarrow>
        if \<not> ce_enabled e \<or> \<not> entry_active s e then best else
        let ts = (case ce_last_activity_ms e of Some t \<Rightarrow> t | None \<Rightarrow> 0);
            cand = (ch, ce_priority e, ts)
        in case best of
             None \<Rightarrow> Some cand
           | Some cur \<Rightarrow> if cand_better cand cur then Some cand else Some cur)"

definition best_active :: "ScanController \<Rightarrow> candidate option" where
  "best_active s = foldl (best_active_step s) None (sc_channels s)"

definition rest_on_home :: "ScanController \<Rightarrow> ScanController" where
  "rest_on_home s =
     (case sc_home s of
        Some h \<Rightarrow> s\<lparr>sc_monitor := h\<rparr>
      | None \<Rightarrow> (case first_opt (sc_order s) of Some c \<Rightarrow> s\<lparr>sc_monitor := c\<rparr> | None \<Rightarrow> s))"

definition recompute_monitor :: "ScanController \<Rightarrow> ScanController" where
  "recompute_monitor s =
     (case best_active s of
        Some (ch, _, _) \<Rightarrow> s\<lparr>sc_monitor := ch\<rparr>
      | None \<Rightarrow>
          if sc_scanning s then
            (if sc_cursor s < length (sc_order s) \<and> channel_enabled s (sc_order s ! sc_cursor s)
             then s\<lparr>sc_monitor := sc_order s ! sc_cursor s\<rparr>
             else let s1 = step_cursor s
                  in if sc_cursor s1 < length (sc_order s1)
                     then s1\<lparr>sc_monitor := sc_order s1 ! sc_cursor s1\<rparr>
                     else rest_on_home s1)
          else rest_on_home s)"

definition start_scan :: "ScanController \<Rightarrow> u64 \<Rightarrow> ScanController" where
  "start_scan s now =
     recompute_monitor (s\<lparr>sc_now_ms := now, sc_scanning := True, sc_cursor := 0,
                          sc_last_cursor_step_ms := now\<rparr>)"

definition stop_scan :: "ScanController \<Rightarrow> u64 \<Rightarrow> ScanController" where
  "stop_scan s now = recompute_monitor (s\<lparr>sc_now_ms := now, sc_scanning := False\<rparr>)"

definition record_activity :: "ScanController \<Rightarrow> u8 \<Rightarrow> u64 \<Rightarrow> i16 option \<Rightarrow> ScanController" where
  "record_activity s channel now level =
     (let s1 = s\<lparr>sc_now_ms := now\<rparr>
      in case hm_get (sc_channels s1) channel of
           Some e \<Rightarrow>
             if ce_enabled e then
               let e1 = e\<lparr>ce_last_activity_ms := Some now\<rparr>;
                   e2 = (if level \<noteq> None then e1\<lparr>ce_last_level := level\<rparr> else e1)
               in recompute_monitor (s1\<lparr>sc_channels := hm_insert channel e2 (sc_channels s1)\<rparr>)
             else s1
         | None \<Rightarrow> s1)"

definition on_activity :: "ScanController \<Rightarrow> u8 \<Rightarrow> u64 \<Rightarrow> ScanController" where
  "on_activity s channel now = record_activity s channel now None"

definition on_activity_level :: "ScanController \<Rightarrow> u8 \<Rightarrow> u64 \<Rightarrow> i16 \<Rightarrow> ScanController" where
  "on_activity_level s channel now level = record_activity s channel now (Some level)"

definition scan_tick :: "ScanController \<Rightarrow> u64 \<Rightarrow> ScanController" where
  "scan_tick s now =
     (let s1 = (if sc_now_ms s < now then s\<lparr>sc_now_ms := now\<rparr> else s);
          s2 = (if sc_scanning s1 \<and>
                   dwell_ms (sc_cfg s1) \<le> sat_sub (sc_now_ms s1) (sc_last_cursor_step_ms s1)
                then (step_cursor s1)\<lparr>sc_last_cursor_step_ms := sc_now_ms s1\<rparr> else s1)
      in recompute_monitor s2)"

definition channel_level :: "ScanController \<Rightarrow> u8 \<Rightarrow> i16 option" where
  "channel_level s channel = Option.bind (hm_get (sc_channels s) channel) ce_last_level"

definition is_active :: "ScanController \<Rightarrow> u8 \<Rightarrow> bool" where
  "is_active s channel =
     (case hm_get (sc_channels s) channel of Some e \<Rightarrow> entry_active s e | None \<Rightarrow> False)"

definition is_priority_channel :: "ScanController \<Rightarrow> u8 \<Rightarrow> bool" where
  "is_priority_channel s channel =
     (case hm_get (sc_channels s) channel of Some e \<Rightarrow> is_priority (ce_priority e) | None \<Rightarrow> False)"

section \<open>The precedence rule\<close>

text \<open>The enabled channels inside their hang window, in iteration order.\<close>

definition candidates :: "ScanController \<Rightarrow> candidate list" where
  "candidates s =
     map (\<lambda>(ch, e). (ch, ce_priority e, case ce_last_activity_ms e of Some t \<Rightarrow> t | None \<Rightarrow> 0))
       (filter (\<lambda>(ch, e). ce_enabled e \<and> entry_active s e) (sc_channels s))"

definition pick :: "candidate option \<Rightarrow> candidate \<Rightarrow> candidate option" where
  "pick best cand =
     (case best of None \<Rightarrow> Some cand | Some cur \<Rightarrow> if cand_better cand cur then Some cand else Some cur)"

lemma best_active_step_pick:
  "best_active_step s b (ch, e) =
     (if ce_enabled e \<and> entry_active s e
      then pick b (ch, ce_priority e, case ce_last_activity_ms e of Some t \<Rightarrow> t | None \<Rightarrow> 0) else b)"
  by (simp add: best_active_step_def pick_def Let_def)

lemma best_active_candidates: "best_active s = foldl pick None (candidates s)"
proof -
  have "foldl (best_active_step s) b cs =
      foldl pick b (map (\<lambda>(ch, e). (ch, ce_priority e, case ce_last_activity_ms e of Some t \<Rightarrow> t | None \<Rightarrow> 0))
        (filter (\<lambda>(ch, e). ce_enabled e \<and> entry_active s e) cs))" for b cs
  proof (induction cs arbitrary: b)
    case (Cons x cs)
    then show ?case by (cases x) (simp add: best_active_step_pick)
  qed simp
  then show ?thesis by (simp add: best_active_def candidates_def)
qed

lemma cand_better_irrefl [simp]: "\<not> cand_better c c"
  by (auto simp: cand_better_def)

lemma cand_better_not_trans:
  "\<not> cand_better a b \<Longrightarrow> \<not> cand_better b c \<Longrightarrow> \<not> cand_better a c"
  by (cases a; cases b; cases c) (auto simp: cand_better_def)

lemma cand_better_antisym: "\<not> cand_better a b \<Longrightarrow> \<not> cand_better b a \<Longrightarrow> a = b"
  by (cases a; cases b) (auto simp: cand_better_def)

lemma cand_better_asym: "cand_better a b \<Longrightarrow> \<not> cand_better b a"
  by (cases a; cases b) (auto simp: cand_better_def)

lemma foldl_pick_Some:
  "\<exists>m. foldl pick (Some b) cs = Some m \<and> m \<in> set (b # cs) \<and> (\<forall>c \<in> set (b # cs). \<not> cand_better c m)"
proof (induction cs arbitrary: b)
  case Nil
  then show ?case by simp
next
  case (Cons x cs)
  define d where "d = (if cand_better x b then x else b)"
  obtain m where m: "foldl pick (Some d) cs = Some m" "m \<in> set (d # cs)"
    "\<forall>c \<in> set (d # cs). \<not> cand_better c m"
    using Cons.IH [of d] by blast
  have "\<not> cand_better b d" "\<not> cand_better x d"
    by (auto simp: d_def dest: cand_better_asym)
  moreover have "\<not> cand_better d m" using m(3) by simp
  ultimately have "\<not> cand_better b m" "\<not> cand_better x m"
    using cand_better_not_trans by blast+
  moreover have "pick (Some b) x = Some d" by (simp add: pick_def d_def)
  moreover have "d = x \<or> d = b" by (simp add: d_def)
  ultimately show ?case using m by auto
qed

lemma best_active_None_iff: "best_active s = None \<longleftrightarrow> candidates s = []"
  using foldl_pick_Some [of "hd (candidates s)" "tl (candidates s)"]
  by (cases "candidates s") (auto simp: best_active_candidates pick_def)

lemma best_active_Some_iff:
  "best_active s = Some m \<longleftrightarrow>
     m \<in> set (candidates s) \<and> (\<forall>c \<in> set (candidates s). \<not> cand_better c m)"
proof (cases "candidates s")
  case Nil
  then show ?thesis by (simp add: best_active_candidates)
next
  case (Cons b cs)
  then have "best_active s = foldl pick (Some b) cs"
    by (simp add: best_active_candidates pick_def)
  moreover obtain n where n: "foldl pick (Some b) cs = Some n" "n \<in> set (candidates s)"
    "\<forall>c \<in> set (candidates s). \<not> cand_better c n"
    using foldl_pick_Some [of b cs] Cons by auto
  ultimately show ?thesis using cand_better_antisym [of m n] by auto
qed

lemma best_active_order_irrelevant:
  assumes "set (candidates s) = set (candidates t)"
  shows "best_active s = best_active t"
proof (cases "best_active t")
  case None
  with assms have "candidates s = []" by (simp add: best_active_None_iff)
  with None show ?thesis by (simp add: best_active_None_iff [THEN iffD2])
next
  case (Some m)
  then have "best_active s = Some m" unfolding best_active_Some_iff assms by blast
  with Some show ?thesis by simp
qed

lemma candidates_iff:
  assumes "hm_wf (sc_channels s)"
  shows "(ch, p, t) \<in> set (candidates s) \<longleftrightarrow>
    (\<exists>e. hm_get (sc_channels s) ch = Some e \<and> ce_enabled e \<and> entry_active s e \<and>
       ce_priority e = p \<and> ce_last_activity_ms e = Some t)"
proof -
  have "entry_active s e \<Longrightarrow> \<exists>t. ce_last_activity_ms e = Some t" for e
    by (auto simp: entry_active_def split: option.splits)
  then show ?thesis
    using hm_wf_in_set [OF assms, of ch]
    by (fastforce simp: candidates_def image_iff)
qed

section \<open>The scan-list invariant\<close>

definition scan_wf :: "ScanController \<Rightarrow> bool" where
  "scan_wf s \<longleftrightarrow>
     hm_wf (sc_channels s) \<and> distinct (sc_order s) \<and> (\<forall>c. c \<in> set (sc_order s) \<longleftrightarrow> hm_contains (sc_channels s) c) \<and>
     (if sc_order s = [] then sc_home s = None \<and> sc_cursor s = 0 \<and> sc_monitor s = 0
      else sc_cursor s < length (sc_order s) \<and> sc_monitor s \<in> set (sc_order s) \<and>
           (\<exists>h \<in> set (sc_order s). sc_home s = Some h))"

lemma step_cursor_loop_frame:
  "step_cursor_loop k s = s\<lparr>sc_cursor := sc_cursor (step_cursor_loop k s)\<rparr>"
proof (induction k arbitrary: s)
  case 0
  then show ?case by simp
next
  case (Suc k)
  define s1 where "s1 = s\<lparr>sc_cursor := (sc_cursor s + 1) mod length (sc_order s)\<rparr>"
  show ?case
    using Suc [of s1] by (simp add: Let_def s1_def)
qed

lemma step_cursor_frame: "step_cursor s = s\<lparr>sc_cursor := sc_cursor (step_cursor s)\<rparr>"
  using step_cursor_loop_frame by (simp add: step_cursor_def Let_def)

lemma step_cursor_frames [simp]:
  "sc_channels (step_cursor s) = sc_channels s" "sc_order (step_cursor s) = sc_order s"
  "sc_cfg (step_cursor s) = sc_cfg s" "sc_scanning (step_cursor s) = sc_scanning s"
  "sc_home (step_cursor s) = sc_home s" "sc_monitor (step_cursor s) = sc_monitor s"
  "sc_now_ms (step_cursor s) = sc_now_ms s"
  by (subst step_cursor_frame, simp)+

lemma step_cursor_loop_bound:
  "sc_cursor s < length (sc_order s) \<Longrightarrow> sc_cursor (step_cursor_loop k s) < length (sc_order s)"
proof (induction k arbitrary: s)
  case 0
  then show ?case by simp
next
  case (Suc k)
  define s1 where "s1 = s\<lparr>sc_cursor := (sc_cursor s + 1) mod length (sc_order s)\<rparr>"
  have "0 < length (sc_order s)" using Suc.prems by linarith
  then have "sc_cursor s1 < length (sc_order s1)" by (simp add: s1_def del: length_greater_0_conv)
  from Suc.IH [OF this] this show ?case by (auto simp: Let_def s1_def)
qed

lemma step_cursor_bound:
  "sc_cursor s < length (sc_order s) \<Longrightarrow> sc_cursor (step_cursor s) < length (sc_order s)"
  by (auto simp: step_cursor_def Let_def intro: step_cursor_loop_bound)

lemma step_cursor_wf: "scan_wf s \<Longrightarrow> scan_wf (step_cursor s)"
proof (cases "sc_order s = []")
  case True
  then show "scan_wf s \<Longrightarrow> ?thesis" by (simp add: step_cursor_def)
next
  case False
  then show "scan_wf s \<Longrightarrow> ?thesis" by (auto simp: scan_wf_def step_cursor_bound)
qed

lemma rest_on_home_frames [simp]:
  "sc_channels (rest_on_home s) = sc_channels s" "sc_order (rest_on_home s) = sc_order s"
  "sc_cfg (rest_on_home s) = sc_cfg s" "sc_scanning (rest_on_home s) = sc_scanning s"
  "sc_home (rest_on_home s) = sc_home s" "sc_cursor (rest_on_home s) = sc_cursor s"
  "sc_now_ms (rest_on_home s) = sc_now_ms s"
  by (auto simp: rest_on_home_def split: option.splits)

lemma recompute_frames [simp]:
  "sc_channels (recompute_monitor s) = sc_channels s"
  "sc_order (recompute_monitor s) = sc_order s"
  "sc_cfg (recompute_monitor s) = sc_cfg s"
  "sc_scanning (recompute_monitor s) = sc_scanning s"
  "sc_home (recompute_monitor s) = sc_home s"
  "sc_now_ms (recompute_monitor s) = sc_now_ms s"
  by (auto simp: recompute_monitor_def Let_def split: option.splits)

lemma rest_on_home_wf: "scan_wf s \<Longrightarrow> scan_wf (rest_on_home s)"
  by (auto simp: scan_wf_def rest_on_home_def first_opt_def split: option.splits list.splits)

lemma scan_wf_set_monitor:
  "scan_wf s \<Longrightarrow> c \<in> set (sc_order s) \<Longrightarrow> scan_wf (s\<lparr>sc_monitor := c\<rparr>)"
  by (auto simp: scan_wf_def)

lemma candidate_in_order:
  assumes "scan_wf s" and "(ch, p, t) \<in> set (candidates s)"
  shows "ch \<in> set (sc_order s)"
proof -
  from assms(1) have "hm_wf (sc_channels s)" by (simp add: scan_wf_def)
  with assms(2) show ?thesis
    using assms(1) by (auto simp: candidates_iff scan_wf_def simp del: set_map)
qed

lemma recompute_wf: "scan_wf s \<Longrightarrow> scan_wf (recompute_monitor s)"
proof -
  assume wf: "scan_wf s"
  show ?thesis
  proof (cases "best_active s")
    case (Some m)
    obtain ch p t where m: "m = (ch, p, t)" by (cases m)
    with Some have "(ch, p, t) \<in> set (candidates s)" by (simp add: best_active_Some_iff)
    with wf have "ch \<in> set (sc_order s)" by (rule candidate_in_order)
    with wf Some m show ?thesis by (simp add: recompute_monitor_def scan_wf_set_monitor)
  next
    case None
    with wf step_cursor_wf [OF wf] show ?thesis
      by (auto simp: recompute_monitor_def Let_def rest_on_home_wf intro!: scan_wf_set_monitor)
  qed
qed

lemma scan_wf_clock:
  "scan_wf (s\<lparr>sc_now_ms := t\<rparr>) = scan_wf s"
  "scan_wf (s\<lparr>sc_scanning := b\<rparr>) = scan_wf s"
  "scan_wf (s\<lparr>sc_last_cursor_step_ms := t\<rparr>) = scan_wf s"
  by (simp_all add: scan_wf_def)

lemma scan_wf_update_entry:
  assumes "scan_wf s" and "hm_get (sc_channels s) ch = Some e"
  shows "scan_wf (s\<lparr>sc_channels := hm_insert ch e' (sc_channels s)\<rparr>)"
  using assms by (auto simp: scan_wf_def)

lemma add_channel_wf: "scan_wf s \<Longrightarrow> scan_wf (add_channel s ch p)"
proof (cases "hm_get (sc_channels s) ch")
  case (Some e)
  then show "scan_wf s \<Longrightarrow> ?thesis" by (simp add: add_channel_def scan_wf_update_entry)
next
  case None
  assume wf: "scan_wf s"
  with None have "ch \<notin> set (sc_order s)" by (auto simp: scan_wf_def)
  with None wf show ?thesis
    by (cases "sc_order s = []")
      (auto simp: scan_wf_def add_channel_def Let_def less_Suc_eq)
qed

lemma remove_channel_wf: "scan_wf s \<Longrightarrow> scan_wf (remove_channel s ch)"
proof (cases "hm_get (sc_channels s) ch")
  case None
  then show "scan_wf s \<Longrightarrow> ?thesis" by (simp add: remove_channel_def)
next
  case (Some e)
  assume wf: "scan_wf s"
  with Some have ch: "ch \<in> set (sc_order s)" by (auto simp: scan_wf_def)
  define os where "os = filter (\<lambda>c. c \<noteq> ch) (sc_order s)"
  have os: "\<And>c. c \<in> set os \<longleftrightarrow> hm_contains (hm_remove ch (sc_channels s)) c" "distinct os"
    "set os = set (sc_order s) - {ch}"
    using wf by (auto simp: scan_wf_def os_def)
  from ch have "sc_order s \<noteq> []" by auto
  with wf obtain h where h: "h \<in> set (sc_order s)" "sc_home s = Some h"
    "sc_monitor s \<in> set (sc_order s)" "sc_cursor s < length (sc_order s)" "hm_wf (sc_channels s)"
    unfolding scan_wf_def by auto
  show ?thesis
  proof (cases os)
    case Nil
    then have "sc_order s = [ch] \<or> set (sc_order s) = {ch}" using os ch by auto
    then have "h = ch" "sc_monitor s = ch" using h by auto
    with Some Nil os h show ?thesis
      by (simp add: remove_channel_def scan_wf_def os_def [symmetric] first_opt_def Let_def)
  next
    case (Cons c cs)
    then have "c \<in> set os" by simp
    moreover have "\<And>c. c \<in> set (sc_order s) \<longleftrightarrow> hm_contains (sc_channels s) c"
      using wf by (simp add: scan_wf_def)
    ultimately show ?thesis using Some Cons os(2,3) h
      by (auto simp: remove_channel_def scan_wf_def os_def [symmetric] first_opt_def Let_def)
  qed
qed

lemma set_enabled_wf: "scan_wf s \<Longrightarrow> scan_wf (set_enabled s ch b)"
  by (auto simp: set_enabled_def scan_wf_update_entry split: option.splits)

lemma set_home_wf: "scan_wf s \<Longrightarrow> set_home s ch = Inr s' \<Longrightarrow> scan_wf s'"
  by (auto simp: set_home_def scan_wf_def split: if_splits)

lemma start_scan_wf: "scan_wf s \<Longrightarrow> scan_wf (start_scan s t)"
  unfolding start_scan_def by (rule recompute_wf) (auto simp: scan_wf_def)

lemma stop_scan_wf: "scan_wf s \<Longrightarrow> scan_wf (stop_scan s t)"
  unfolding stop_scan_def by (rule recompute_wf) (simp add: scan_wf_clock)

lemma record_activity_wf: "scan_wf s \<Longrightarrow> scan_wf (record_activity s ch t l)"
  using scan_wf_update_entry [of "s\<lparr>sc_now_ms := t\<rparr>" ch]
  by (auto simp: record_activity_def Let_def scan_wf_clock intro!: recompute_wf
      split: option.splits)

lemma scan_tick_wf: "scan_wf s \<Longrightarrow> scan_wf (scan_tick s t)"
  by (auto simp: scan_tick_def Let_def scan_wf_clock intro!: recompute_wf step_cursor_wf)

text \<open>
  The controller as a state machine: one rule per public operation that changes it, in any order
  and with any arguments, the clock values included.
\<close>

inductive scan_step :: "ScanController \<Rightarrow> ScanController \<Rightarrow> bool" where
  step_add: "scan_step s (add_channel s ch p)"
| step_remove: "scan_step s (remove_channel s ch)"
| step_enable: "scan_step s (set_enabled s ch b)"
| step_home: "set_home s ch = Inr s' \<Longrightarrow> scan_step s s'"
| step_start: "scan_step s (start_scan s t)"
| step_stop: "scan_step s (stop_scan s t)"
| step_activity: "scan_step s (on_activity s ch t)"
| step_activity_level: "scan_step s (on_activity_level s ch t l)"
| step_tick: "scan_step s (scan_tick s t)"

inductive scan_reachable :: "ScanConfig \<Rightarrow> ScanController \<Rightarrow> bool" for cfg where
  reach_new: "scan_reachable cfg (ScanController_new cfg)"
| reach_step: "scan_reachable cfg s \<Longrightarrow> scan_step s s' \<Longrightarrow> scan_reachable cfg s'"

lemma scan_step_wf: "scan_step s s' \<Longrightarrow> scan_wf s \<Longrightarrow> scan_wf s'"
  by (induction rule: scan_step.induct)
    (auto simp: on_activity_def on_activity_level_def intro: add_channel_wf remove_channel_wf
      set_enabled_wf set_home_wf start_scan_wf stop_scan_wf record_activity_wf scan_tick_wf)

lemma scan_reachable_wf: "scan_reachable cfg s \<Longrightarrow> scan_wf s"
proof (induction rule: scan_reachable.induct)
  case reach_new
  show ?case by (simp add: scan_wf_def ScanController_new_def)
next
  case (reach_step s s')
  then show ?case using scan_step_wf by blast
qed

section \<open>The sweep\<close>

text \<open>Positions of the scan order, walked cyclically from the cursor.\<close>

definition order_at :: "ScanController \<Rightarrow> nat \<Rightarrow> u8" where
  "order_at s i = sc_order s ! (i mod length (sc_order s))"

lemma channel_enabled_frame [simp]:
  "channel_enabled (s\<lparr>sc_cursor := c\<rparr>) ch = channel_enabled s ch"
  "channel_enabled (step_cursor s) ch = channel_enabled s ch"
  by (simp_all add: channel_enabled_def)

lemma step_cursor_loop_first:
  assumes "0 < d" and "d \<le> k" and "channel_enabled s (order_at s (sc_cursor s + d))"
    and "\<forall>i. 0 < i \<and> i < d \<longrightarrow> \<not> channel_enabled s (order_at s (sc_cursor s + i))"
  shows "sc_cursor (step_cursor_loop k s) = (sc_cursor s + d) mod length (sc_order s)"
  using assms
proof (induction k arbitrary: s d)
  case 0
  then show ?case by simp
next
  case (Suc k)
  define s1 where "s1 = s\<lparr>sc_cursor := (sc_cursor s + 1) mod length (sc_order s)\<rparr>"
  have at: "sc_order s1 ! sc_cursor s1 = order_at s (sc_cursor s + 1)"
    by (simp add: s1_def order_at_def)
  have en: "channel_enabled s1 c = channel_enabled s c" for c by (simp add: s1_def)
  have shift: "order_at s1 (sc_cursor s1 + i) = order_at s (sc_cursor s + Suc i)" for i
    by (simp add: s1_def order_at_def mod_add_left_eq)
  have loop: "step_cursor_loop (Suc k) s =
      (if channel_enabled s (order_at s (sc_cursor s + 1)) then s1 else step_cursor_loop k s1)"
    using at en by (simp add: s1_def Let_def)
  show ?case
  proof (cases "d = 1")
    case True
    then show ?thesis using Suc.prems by (simp only: loop if_True) (simp add: s1_def)
  next
    case False
    with Suc.prems have no: "\<not> channel_enabled s (order_at s (sc_cursor s + 1))" by auto
    have "sc_cursor (step_cursor_loop k s1) = (sc_cursor s1 + (d - 1)) mod length (sc_order s1)"
    proof (rule Suc.IH)
      show "0 < d - 1" "d - 1 \<le> k" using False Suc.prems by auto
      show "channel_enabled s1 (order_at s1 (sc_cursor s1 + (d - 1)))"
        unfolding en shift using False Suc.prems by simp
      show "\<forall>i. 0 < i \<and> i < d - 1 \<longrightarrow> \<not> channel_enabled s1 (order_at s1 (sc_cursor s1 + i))"
      proof (intro allI impI)
        fix i assume "0 < i \<and> i < d - 1"
        then have "Suc i < d" by linarith
        then show "\<not> channel_enabled s1 (order_at s1 (sc_cursor s1 + i))"
          unfolding en shift using Suc.prems(4) [rule_format, of "Suc i"] by simp
      qed
    qed
    also have "\<dots> = (sc_cursor s + d) mod length (sc_order s)"
      using False Suc.prems(1) mod_add_left_eq [of "Suc (sc_cursor s)" "length (sc_order s)" "d - 1"]
      by (simp add: s1_def)
    finally show ?thesis using no by (simp only: loop if_False)
  qed
qed

lemma step_cursor_first:
  assumes "0 < d" and "d \<le> length (sc_order s)" and "channel_enabled s (order_at s (sc_cursor s + d))"
    and "\<forall>i. 0 < i \<and> i < d \<longrightarrow> \<not> channel_enabled s (order_at s (sc_cursor s + i))"
  shows "sc_cursor (step_cursor s) = (sc_cursor s + d) mod length (sc_order s)"
  using step_cursor_loop_first [OF assms] assms(1,2) by (auto simp: step_cursor_def Let_def)

text \<open>A channel of the list is some number of places after the cursor, between 1 and \<open>n\<close>.\<close>

lemma order_distance:
  assumes "sc_cursor s < length (sc_order s)" and "ch \<in> set (sc_order s)"
  obtains d where "0 < d" and "d \<le> length (sc_order s)" and "order_at s (sc_cursor s + d) = ch"
proof -
  let ?n = "length (sc_order s)"
  from assms(2) obtain i where i: "i < ?n" "sc_order s ! i = ch" by (auto simp: in_set_conv_nth)
  define d where "d = (if sc_cursor s < i then i - sc_cursor s else ?n + i - sc_cursor s)"
  have "(sc_cursor s + d) mod ?n = i" using i assms(1) by (auto simp: d_def)
  with i assms(1) that [of d] show ?thesis by (auto simp: d_def order_at_def split: if_splits)
qed

lemma step_cursor_enabled:
  assumes "sc_cursor s < length (sc_order s)" and "ch \<in> set (sc_order s)" and "channel_enabled s ch"
  shows "channel_enabled s (sc_order s ! sc_cursor (step_cursor s))"
proof -
  from order_distance [OF assms(1,2)] obtain d where
    d: "0 < d" "d \<le> length (sc_order s)" "order_at s (sc_cursor s + d) = ch" by blast
  define P where "P = (\<lambda>i. 0 < i \<and> channel_enabled s (order_at s (sc_cursor s + i)))"
  have "P d" using d assms(3) by (simp add: P_def)
  then have least: "P (LEAST i. P i)" "(LEAST i. P i) \<le> d" "\<forall>i. i < (LEAST i. P i) \<longrightarrow> \<not> P i"
    by (auto intro: LeastI Least_le dest: not_less_Least)
  then have "sc_cursor (step_cursor s) = (sc_cursor s + (LEAST i. P i)) mod length (sc_order s)"
    using d by (intro step_cursor_first) (auto simp: P_def)
  with least(1) show ?thesis by (simp add: P_def order_at_def)
qed


section \<open>The precedence contract\<close>

text \<open>The channels rule 2 looks at: enabled and heard within the hang window.\<close>

definition live_channel :: "ScanController \<Rightarrow> u8 \<Rightarrow> bool" where
  "live_channel s ch \<longleftrightarrow> channel_enabled s ch \<and> is_active s ch"

text \<open>The rank of a live channel: its priority, then the time it was last heard.\<close>

definition channel_rank :: "ScanController \<Rightarrow> u8 \<Rightarrow> nat \<times> nat" where
  "channel_rank s ch =
     (case hm_get (sc_channels s) ch of
        Some e \<Rightarrow> (priority_rank (ce_priority e),
                   case ce_last_activity_ms e of Some t \<Rightarrow> unat t | None \<Rightarrow> 0)
      | None \<Rightarrow> (0, 0))"

definition outranks :: "ScanController \<Rightarrow> u8 \<Rightarrow> u8 \<Rightarrow> bool" where
  "outranks s a b \<longleftrightarrow>
     fst (channel_rank s b) < fst (channel_rank s a) \<or>
     fst (channel_rank s b) = fst (channel_rank s a) \<and>
       (snd (channel_rank s b) < snd (channel_rank s a) \<or>
        snd (channel_rank s b) = snd (channel_rank s a) \<and> a < b)"

text \<open>
  What the module's documentation promises of the monitored channel: the live channel no other
  live channel outranks; failing that, while scanning, the first enabled channel at or after the
  cursor; failing that, the channel under the cursor while scanning, else home. The last scanning
  case is the code's own: the comment there announces home.
\<close>

definition monitor_spec :: "ScanController \<Rightarrow> u8 \<Rightarrow> bool" where
  "monitor_spec s m \<longleftrightarrow>
     (if \<exists>ch. live_channel s ch
      then live_channel s m \<and> (\<forall>ch. live_channel s ch \<longrightarrow> \<not> outranks s ch m)
      else if sc_scanning s \<and> (\<exists>ch. channel_enabled s ch)
      then (\<exists>d < length (sc_order s). m = order_at s (sc_cursor s + d) \<and> channel_enabled s m \<and>
              (\<forall>i < d. \<not> channel_enabled s (order_at s (sc_cursor s + i))))
      else if sc_scanning s \<and> sc_order s \<noteq> [] then m = sc_order s ! sc_cursor s
      else m = (case sc_home s of Some h \<Rightarrow> h | None \<Rightarrow> sc_monitor s))"

lemma live_candidate:
  assumes "hm_wf (sc_channels s)"
  shows "live_channel s ch \<longleftrightarrow> (\<exists>p t. (ch, p, t) \<in> set (candidates s))"
proof -
  have "entry_active s e \<Longrightarrow> \<exists>t. ce_last_activity_ms e = Some t" for e
    by (auto simp: entry_active_def split: option.splits)
  then show ?thesis
    by (auto simp: candidates_iff [OF assms] live_channel_def channel_enabled_def is_active_def
        split: option.splits)
qed

lemma candidate_rank:
  assumes "hm_wf (sc_channels s)" and "(ch, p, t) \<in> set (candidates s)"
  shows "channel_rank s ch = (priority_rank p, unat t)"
  using assms(2) by (auto simp: candidates_iff [OF assms(1)] channel_rank_def)

lemma priority_rank_inject: "priority_rank p = priority_rank q \<longleftrightarrow> p = q"
  by (cases p; cases q) auto

lemma outranks_candidates:
  assumes "hm_wf (sc_channels s)" and "(a, p, t) \<in> set (candidates s)"
    and "(b, q, u) \<in> set (candidates s)"
  shows "outranks s a b \<longleftrightarrow> cand_better (a, p, t) (b, q, u)"
  using candidate_rank [OF assms(1,2)] candidate_rank [OF assms(1,3)]
  by (auto simp: outranks_def cand_better_def priority_rank_inject less_Priority_def
      word_less_nat_alt word_unat_eq_iff)

text \<open>Rule 2 of the precedence.\<close>

lemma best_active_spec:
  assumes wf: "hm_wf (sc_channels s)"
  shows "(\<exists>p t. best_active s = Some (m, p, t)) \<longleftrightarrow>
    live_channel s m \<and> (\<forall>ch. live_channel s ch \<longrightarrow> \<not> outranks s ch m)"
proof
  assume "\<exists>p t. best_active s = Some (m, p, t)"
  then show "live_channel s m \<and> (\<forall>ch. live_channel s ch \<longrightarrow> \<not> outranks s ch m)"
    using outranks_candidates [OF wf] by (fastforce simp: best_active_Some_iff live_candidate [OF wf])
next
  assume r: "live_channel s m \<and> (\<forall>ch. live_channel s ch \<longrightarrow> \<not> outranks s ch m)"
  then obtain p t where m: "(m, p, t) \<in> set (candidates s)" by (auto simp: live_candidate [OF wf])
  have "\<not> cand_better c (m, p, t)" if "c \<in> set (candidates s)" for c
  proof -
    obtain a q u where c: "c = (a, q, u)" by (cases c)
    then have "live_channel s a" using that live_candidate [OF wf] by blast
    with r m that c show ?thesis using outranks_candidates [OF wf, of a q u m p t] by auto
  qed
  with m have "best_active s = Some (m, p, t)" by (simp add: best_active_Some_iff)
  then show "\<exists>p t. best_active s = Some (m, p, t)" by blast
qed

lemma best_active_None_live:
  "hm_wf (sc_channels s) \<Longrightarrow> best_active s = None \<longleftrightarrow> (\<nexists>ch. live_channel s ch)"
  by (cases "candidates s") (auto simp: best_active_None_iff live_candidate)

text \<open>The first enabled channel at or after the cursor is unique.\<close>

lemma first_enabled_unique:
  assumes "P d" "\<forall>i < d. \<not> P i" "P d'" "\<forall>i < d'. \<not> P (i :: nat)"
  shows "d = d'"
  using assms by (metis nat_neq_iff)

lemma order_at_cursor:
  "sc_cursor s < length (sc_order s) \<Longrightarrow> order_at s (sc_cursor s) = sc_order s ! sc_cursor s"
  by (simp add: order_at_def)

lemma step_cursor_parks:
  assumes "sc_cursor s < length (sc_order s)" and "ch \<in> set (sc_order s)" and "channel_enabled s ch"
    and "\<not> channel_enabled s (sc_order s ! sc_cursor s)"
  obtains d where "d < length (sc_order s)" and "channel_enabled s (order_at s (sc_cursor s + d))"
    and "\<forall>i < d. \<not> channel_enabled s (order_at s (sc_cursor s + i))"
    and "sc_order s ! sc_cursor (step_cursor s) = order_at s (sc_cursor s + d)"
proof -
  from order_distance [OF assms(1,2)] obtain e where
    e: "0 < e" "e \<le> length (sc_order s)" "order_at s (sc_cursor s + e) = ch" by blast
  define P where "P = (\<lambda>i. channel_enabled s (order_at s (sc_cursor s + i)))"
  define d where "d = (LEAST i. P i)"
  have "P e" using e assms(3) by (simp add: P_def)
  then have d: "P d" "d \<le> e" "\<forall>i < d. \<not> P i"
    by (auto simp: d_def intro: LeastI Least_le dest: not_less_Least)
  have n0: "\<not> P 0" using assms(1,4) by (simp add: P_def order_at_cursor)
  have "\<not> P (length (sc_order s))"
    using assms(1,4) by (simp add: P_def order_at_def)
  with d(1,2) e(2) have "d < length (sc_order s)" using nat_less_le by fastforce
  moreover have "0 < d" using d(1) n0 by (cases d) auto
  ultimately have "sc_cursor (step_cursor s) = (sc_cursor s + d) mod length (sc_order s)"
    using d by (intro step_cursor_first) (auto simp: P_def)
  with d \<open>d < length (sc_order s)\<close> that [of d] show ?thesis by (simp add: P_def order_at_def)
qed

lemma step_cursor_loop_none:
  assumes "\<And>ch. \<not> channel_enabled s ch"
  shows "sc_cursor (step_cursor_loop k s) =
    (if k = 0 then sc_cursor s else (sc_cursor s + k) mod length (sc_order s))"
  using assms
proof (induction k arbitrary: s)
  case 0
  then show ?case by simp
next
  case (Suc k)
  define s1 where "s1 = s\<lparr>sc_cursor := (sc_cursor s + 1) mod length (sc_order s)\<rparr>"
  have "\<not> channel_enabled s1 ch" for ch using Suc.prems by (simp add: s1_def)
  from Suc.IH [of s1, OF this] this show ?case
    by (simp add: Let_def s1_def mod_simps)
qed

lemma step_cursor_none:
  assumes "\<And>ch. \<not> channel_enabled s ch" and "sc_cursor s < length (sc_order s)"
  shows "sc_cursor (step_cursor s) = sc_cursor s"
  using assms by (simp add: step_cursor_def Let_def step_cursor_loop_none)


lemma recompute_monitor_spec:
  assumes wf: "scan_wf s"
  shows "monitor_spec s (sc_monitor (recompute_monitor s))"
proof (cases "best_active s")
  case (Some c)
  obtain m p t where c: "c = (m, p, t)" by (cases c)
  with Some wf show ?thesis
    using best_active_spec [of s m] by (auto simp: scan_wf_def monitor_spec_def recompute_monitor_def)
next
  case None
  with wf have nolive: "\<nexists>ch. live_channel s ch" by (simp add: scan_wf_def best_active_None_live)
  have mem: "ch \<in> set (sc_order s)" if "channel_enabled s ch" for ch
    using wf that by (auto simp: scan_wf_def channel_enabled_def split: option.splits)
  show ?thesis
  proof (cases "sc_scanning s \<and> sc_order s \<noteq> []")
    case False
    then show ?thesis using None nolive wf mem
      by (auto simp: monitor_spec_def recompute_monitor_def rest_on_home_def first_opt_def Let_def
          scan_wf_def step_cursor_def split: option.splits list.splits)
  next
    case True
    then have cur: "sc_cursor s < length (sc_order s)" using wf by (simp add: scan_wf_def)
    show ?thesis
    proof (cases "channel_enabled s (sc_order s ! sc_cursor s)")
      case enabled: True
      with cur show ?thesis using None True nolive
        by (auto simp: monitor_spec_def recompute_monitor_def order_at_cursor intro!: exI [of _ 0])
    next
      case disabled: False
      have mon: "sc_monitor (recompute_monitor s) = sc_order s ! sc_cursor (step_cursor s)"
        using None True cur disabled by (simp add: recompute_monitor_def Let_def step_cursor_bound)
      show ?thesis
      proof (cases "\<exists>ch. channel_enabled s ch")
        case some: True
        then obtain ch where "channel_enabled s ch" by blast
        from step_cursor_parks [OF cur mem [OF this] this disabled] obtain d where
          "d < length (sc_order s)" "channel_enabled s (order_at s (sc_cursor s + d))"
          "\<forall>i < d. \<not> channel_enabled s (order_at s (sc_cursor s + i))"
          "sc_order s ! sc_cursor (step_cursor s) = order_at s (sc_cursor s + d)" by blast
        with some True nolive mon show ?thesis by (auto simp: monitor_spec_def)
      next
        case none: False
        with True nolive mon cur show ?thesis by (simp add: monitor_spec_def step_cursor_none)
      qed
    qed
  qed
qed

lemma outranks_total: "\<not> outranks s a b \<Longrightarrow> \<not> outranks s b a \<Longrightarrow> a = b"
  by (auto simp: outranks_def)

lemma monitor_spec_unique: "monitor_spec s m \<Longrightarrow> monitor_spec s m' \<Longrightarrow> m = m'"
proof -
  assume m: "monitor_spec s m" and m': "monitor_spec s m'"
  consider (live) "\<exists>ch. live_channel s ch"
    | (sweep) "\<nexists>ch. live_channel s ch" "sc_scanning s \<and> (\<exists>ch. channel_enabled s ch)"
    | (rest) "\<nexists>ch. live_channel s ch" "\<not> (sc_scanning s \<and> (\<exists>ch. channel_enabled s ch))" by blast
  then show "m = m'"
  proof cases
    case live
    with m m' show ?thesis using outranks_total [of s m m'] by (auto simp: monitor_spec_def)
  next
    case sweep
    with m m' obtain d d' where
      "channel_enabled s (order_at s (sc_cursor s + d))" "m = order_at s (sc_cursor s + d)"
      "\<forall>i < d. \<not> channel_enabled s (order_at s (sc_cursor s + i))"
      "channel_enabled s (order_at s (sc_cursor s + d'))" "m' = order_at s (sc_cursor s + d')"
      "\<forall>i < d'. \<not> channel_enabled s (order_at s (sc_cursor s + i))"
      unfolding monitor_spec_def by auto
    then show ?thesis
      using first_enabled_unique [of "\<lambda>i. channel_enabled s (order_at s (sc_cursor s + i))" d d'] by simp
  next
    case rest
    with m m' show ?thesis by (auto simp: monitor_spec_def split: if_splits)
  qed
qed

lemma sweep_distance:
  assumes "0 < d" and "d \<le> length (sc_order s)" and "order_at s (sc_cursor s + d) = ch"
    and "channel_enabled s ch"
  shows "\<exists>k. 0 < k \<and> k \<le> d \<and> sc_order s ! sc_cursor ((step_cursor ^^ k) s) = ch"
  using assms
proof (induction d arbitrary: s rule: less_induct)
  case (less d)
  define P where "P = (\<lambda>i. 0 < i \<and> channel_enabled s (order_at s (sc_cursor s + i)))"
  define e where "e = (LEAST i. P i)"
  have "P d" using less.prems by (simp add: P_def)
  then have e: "P e" "e \<le> d" "\<forall>i. i < e \<longrightarrow> \<not> P i"
    by (auto simp: e_def intro: LeastI Least_le dest: not_less_Least)
  then have step: "sc_cursor (step_cursor s) = (sc_cursor s + e) mod length (sc_order s)"
    using less.prems by (intro step_cursor_first) (auto simp: P_def)
  show ?case
  proof (cases "e = d")
    case True
    then show ?thesis using step less.prems by (intro exI [of _ 1]) (simp add: order_at_def)
  next
    case False
    then have "d - e < d" "0 < d - e" using e by (auto simp: P_def)
    moreover have "order_at (step_cursor s) (sc_cursor (step_cursor s) + (d - e)) = ch"
      using step less.prems(3) e(2) mod_add_left_eq [of "sc_cursor s + e" "length (sc_order s)" "d - e"]
      by (simp add: order_at_def)
    ultimately obtain k where "0 < k" "k \<le> d - e"
      "sc_order s ! sc_cursor ((step_cursor ^^ k) (step_cursor s)) = ch"
      using less.IH [of "d - e" "step_cursor s"] less.prems by auto
    then show ?thesis using \<open>d - e < d\<close> by (intro exI [of _ "Suc k"]) (simp add: funpow_swap1)
  qed
qed

section \<open>Properties\<close>

text \<open>
  In every state the controller can reach, by any sequence of its operations with
  any arguments, the scan list and the channel table hold the same channels without duplicates,
  the cursor is inside the list, and home and the monitored channel are channels of the list (or
  the list is empty, with monitor 0 and no home).
\<close>

theorem scan_list_invariant: "scan_reachable cfg s \<Longrightarrow> scan_wf s"
  by (rule scan_reachable_wf)

theorem scan_list_invariant_witness:
  "scan_wf (remove_channel (add_channel (ScanController_new ScanConfig_default) 3 P1) 3)"
  by (rule scan_list_invariant [of ScanConfig_default])
    (intro reach_step [OF reach_step [OF reach_new step_add] step_remove])



text \<open>
  The sweep is fair: from any reachable state, at most one lap of cursor steps
  brings the cursor to any chosen enabled channel, whatever the others' enabled flags.
\<close>

theorem sweep_reaches_every_channel:
  assumes "scan_reachable cfg s" and "channel_enabled s ch"
  shows "\<exists>k. 0 < k \<and> k \<le> length (sc_order s) \<and>
    sc_order s ! sc_cursor ((step_cursor ^^ k) s) = ch"
proof -
  have wf: "scan_wf s" using assms(1) by (rule scan_reachable_wf)
  with assms(2) have ch: "ch \<in> set (sc_order s)"
    by (auto simp: scan_wf_def channel_enabled_def split: option.splits)
  with wf have "sc_cursor s < length (sc_order s)" by (auto simp: scan_wf_def split: if_splits)
  from order_distance [OF this ch] obtain d where
    d: "0 < d" "d \<le> length (sc_order s)" "order_at s (sc_cursor s + d) = ch" by blast
  obtain k where "0 < k" "k \<le> d" "sc_order s ! sc_cursor ((step_cursor ^^ k) s) = ch"
    using sweep_distance [OF d assms(2)] by blast
  with d(2) show ?thesis by (intro exI [of _ k]) simp
qed

theorem sweep_reaches_every_channel_witness:
  "\<exists>k. 0 < k \<and> k \<le> length (sc_order (add_channel (ScanController_new ScanConfig_default) 3 P1)) \<and>
    sc_order (add_channel (ScanController_new ScanConfig_default) 3 P1) !
      sc_cursor ((step_cursor ^^ k) (add_channel (ScanController_new ScanConfig_default) 3 P1)) = 3"
  by (rule sweep_reaches_every_channel [of ScanConfig_default])
    (auto simp: add_channel_def ScanController_new_def ChannelEntry_new_def channel_enabled_def
      intro: reach_step [OF reach_new step_add, of ScanConfig_default 3 P1,
        unfolded add_channel_def ScanController_new_def ChannelEntry_new_def, simplified])

text \<open>
  Priority preemption: activity on an enabled P1 channel takes the monitor in the
  same call, from any channel of lower priority, unless another P1 channel has been heard at the
  same instant or later.
\<close>

theorem p1_activity_preempts:
  assumes "scan_reachable cfg s" and "0 < hang_ms (sc_cfg s)"
    and "hm_get (sc_channels s) ch = Some e" and "ce_enabled e" and "ce_priority e = P1"
    and "\<forall>c e'. c \<noteq> ch \<and> hm_get (sc_channels s) c = Some e' \<and> ce_enabled e' \<and> ce_priority e' = P1 \<longrightarrow>
      (case ce_last_activity_ms e' of Some t \<Rightarrow> t < now | None \<Rightarrow> True)"
  shows "sc_monitor (on_activity s ch now) = ch"
proof -
  define s1 where "s1 = s\<lparr>sc_now_ms := now,
    sc_channels := hm_insert ch (e\<lparr>ce_last_activity_ms := Some now\<rparr>) (sc_channels s)\<rparr>"
  have act: "on_activity s ch now = recompute_monitor s1"
    using assms(3,4) by (simp add: on_activity_def record_activity_def s1_def)
  have wf: "scan_wf s1" unfolding s1_def
    using scan_wf_update_entry [of "s\<lparr>sc_now_ms := now\<rparr>" ch e] scan_reachable_wf [OF assms(1)] assms(3)
    by (simp add: scan_wf_clock)
  have live: "live_channel s1 ch"
    using assms(2,4) by (simp add: live_channel_def channel_enabled_def is_active_def s1_def
        entry_active_def sat_sub_def)
  have "\<not> outranks s1 c ch" if "live_channel s1 c" for c
  proof (cases "c = ch")
    case False
    with that obtain e' t where e': "hm_get (sc_channels s) c = Some e'" "ce_enabled e'"
      "ce_last_activity_ms e' = Some t"
      by (auto simp: live_channel_def channel_enabled_def is_active_def entry_active_def s1_def
          split: option.splits)
    have "ce_priority e' \<noteq> P1 \<Longrightarrow> priority_rank (ce_priority e') < 2" by (cases "ce_priority e'") auto
    moreover have "ce_priority e' = P1 \<Longrightarrow> t < now"
      using assms(6) [rule_format, of c e'] False e' by simp
    ultimately show ?thesis using False e' assms(5)
      by (cases "ce_priority e' = P1")
        (auto simp: outranks_def channel_rank_def s1_def word_less_nat_alt)
  qed (simp add: outranks_def)
  with live have "monitor_spec s1 ch" by (auto simp: monitor_spec_def)
  then show ?thesis
    using monitor_spec_unique [OF _ recompute_monitor_spec [OF wf]] act by simp
qed

theorem p1_activity_preempts_witness:
  "sc_monitor (on_activity (add_channel (add_channel (ScanController_new ScanConfig_default) 1 Normal) 3 P1) 3 10) = 3"
proof (rule p1_activity_preempts)
  show "scan_reachable ScanConfig_default
      (add_channel (add_channel (ScanController_new ScanConfig_default) 1 Normal) 3 P1)"
    by (rule reach_step [OF reach_step [OF reach_new step_add] step_add])
qed (auto simp: add_channel_def ScanController_new_def ScanConfig_default_def ChannelEntry_new_def
    split: if_splits)

end
