(* ===== verification/Aead.thy ===== *)
theory Aead
  imports Talk_Prelude
begin

text \<open>
  AES-256-GCM, SHA-256, HKDF, HMAC and the other cryptographic primitives are third-party crates, so
  the components take them as function parameters. This theory names the documented behaviour of
  the authenticated cipher that theorems rely on, and gives one concrete function for which the
  hypotheses hold.
\<close>

text \<open>Key, nonce, associated data and message; \<open>None\<close> is the crate's opaque error.\<close>

type_synonym aead_fun = "bytes \<Rightarrow> bytes \<Rightarrow> bytes \<Rightarrow> bytes \<Rightarrow> bytes option"

text \<open>Decryption inverts encryption, and the ciphertext is the message length plus a 16-byte tag.\<close>

definition aead_correct :: "aead_fun \<Rightarrow> aead_fun \<Rightarrow> bool" where
  "aead_correct enc dec \<longleftrightarrow>
     (\<forall>k n a m c. enc k n a m = Some c \<longrightarrow> dec k n a c = Some m \<and> length c = length m + 16)"

text \<open>Messages below the mode's 64 GiB limit encrypt (4 GiB is more than any frame here).\<close>

definition aead_total :: "aead_fun \<Rightarrow> bool" where
  "aead_total enc \<longleftrightarrow> (\<forall>k n a m. length m < 2 ^ 32 \<longrightarrow> enc k n a m \<noteq> None)"

text \<open>
  Authenticated decryption accepts a ciphertext only when its tag is the one encryption computes:
  for a key, nonce and associated data, what decrypts to \<open>m\<close> is the encryption of \<open>m\<close>.
\<close>

definition aead_canonical :: "aead_fun \<Rightarrow> aead_fun \<Rightarrow> bool" where
  "aead_canonical enc dec \<longleftrightarrow> (\<forall>k n a m c. dec k n a c = Some m \<longrightarrow> enc k n a m = Some c)"

lemma aead_correctD:
  assumes "aead_correct enc dec" and "enc k n a m = Some c"
  shows "dec k n a c = Some m" and "length c = length m + 16"
  using assms by (auto simp: aead_correct_def)

lemma aead_canonicalD: "aead_canonical enc dec \<Longrightarrow> dec k n a c = Some m \<Longrightarrow> enc k n a m = Some c"
  by (simp add: aead_canonical_def)

lemma aead_totalD: "aead_total enc \<Longrightarrow> length m < 2 ^ 32 \<Longrightarrow> \<exists>c. enc k n a m = Some c"
  by (auto simp: aead_total_def)

text \<open>
  A cipher for which the three hypotheses hold: the message in clear, followed by a tag made of
  the first bytes of the key, nonce and associated data, padded to 16.
\<close>

definition plain_tag :: "bytes \<Rightarrow> bytes \<Rightarrow> bytes \<Rightarrow> bytes" where
  "plain_tag k n a = take 16 (take 2 k @ take 12 n @ take 2 (rev a) @ replicate 16 0)"

definition plain_enc :: aead_fun where
  "plain_enc k n a m = Some (m @ plain_tag k n a)"

definition plain_dec :: aead_fun where
  "plain_dec k n a c =
     (if 16 \<le> length c \<and> drop (length c - 16) c = plain_tag k n a
      then Some (take (length c - 16) c) else None)"

lemma length_plain_tag [simp]: "length (plain_tag k n a) = 16"
  by (simp add: plain_tag_def)

lemma plain_aead_correct: "aead_correct plain_enc plain_dec"
  by (auto simp: aead_correct_def plain_enc_def plain_dec_def)

lemma plain_aead_canonical: "aead_canonical plain_enc plain_dec"
  by (auto simp: aead_canonical_def plain_enc_def plain_dec_def split: if_splits)
    (metis append_take_drop_id)

lemma plain_aead_total: "aead_total plain_enc"
  by (simp add: aead_total_def plain_enc_def)

lemmas plain_aead = plain_aead_correct plain_aead_canonical plain_aead_total

end
