(* ===== verification/Dedup_Window.thy ===== *)
theory Dedup_Window
  imports Talk_Prelude
begin

text \<open>
  The bounded duplicate filter that two parts of the program keep: a \<open>HashSet\<close> for membership and a
  \<open>VecDeque\<close> for eviction order, the oldest key leaving when the queue exceeds its capacity. The
  locale states what a filter promises its client and proves once what follows for any sequence of
  offers; the replay window of \<open>crypto.rs\<close> and the frame filter of \<open>audio_cache.rs\<close> interpret it.
\<close>

section \<open>The insertion step\<close>

type_synonym 'k window = "'k set \<times> 'k list"

definition window_insert :: "nat \<Rightarrow> 'k \<Rightarrow> 'k window \<Rightarrow> bool \<times> 'k window" where
  "window_insert cap k w =
     (case w of (st, order) \<Rightarrow>
        if k \<in> st then (False, (st, order))
        else let st1 = insert k st; order1 = order @ [k]
             in if cap < length order1
                then (case order1 of [] \<Rightarrow> (True, (st1, order1)) | old # rest \<Rightarrow> (True, (st1 - {old}, rest)))
                else (True, (st1, order1)))"

definition window_ok :: "nat \<Rightarrow> 'k window \<Rightarrow> bool" where
  "window_ok cap w \<longleftrightarrow> fst w = set (snd w) \<and> distinct (snd w) \<and> length (snd w) \<le> cap"

text \<open>The last \<open>n\<close> elements of a list.\<close>

definition last_n :: "nat \<Rightarrow> 'a list \<Rightarrow> 'a list" where
  "last_n n xs = drop (length xs - n) xs"

lemma last_n_all [simp]: "length xs \<le> n \<Longrightarrow> last_n n xs = xs"
  by (simp add: last_n_def)

lemma length_last_n [simp]: "length (last_n n xs) = min n (length xs)"
  by (simp add: last_n_def)

lemma set_last_n_subset: "set (last_n n xs) \<subseteq> set xs"
  unfolding last_n_def by (rule set_drop_subset)

lemma last_n_append_last_n: "last_n n (last_n n xs @ ys) = last_n n (xs @ ys)"
  by (simp add: last_n_def) (cases "length xs \<le> n"; simp add: add.commute)

lemma last_n_snoc:
  "length xs = n \<Longrightarrow> 0 < n \<Longrightarrow> last_n n (xs @ [x]) = tl xs @ [x]"
  by (cases xs) (simp_all add: last_n_def)

lemma window_insert_fst: "window_ok cap w \<Longrightarrow> fst (window_insert cap k w) \<longleftrightarrow> k \<notin> set (snd w)"
  by (auto simp: window_insert_def window_ok_def Let_def split: prod.splits list.splits)

lemma window_insert_ok:
  assumes "0 < cap" "window_ok cap w"
  shows "window_ok cap (snd (window_insert cap k w))"
proof (cases "snd w")
  case Nil
  with assms show ?thesis
    by (auto simp: window_insert_def window_ok_def Let_def split: prod.splits)
next
  case (Cons old rest)
  with assms show ?thesis
    by (auto simp: window_insert_def window_ok_def Let_def split: prod.splits)
qed

lemma window_insert_order:
  assumes "0 < cap" "window_ok cap w"
  shows "snd (snd (window_insert cap k w)) =
    (if k \<in> set (snd w) then snd w else last_n cap (snd w @ [k]))"
proof (cases "cap < Suc (length (snd w))")
  case True
  with assms have "cap = length (snd w)" by (simp add: window_ok_def)
  then show ?thesis using assms
    by (cases w; cases "snd w") (auto simp: window_insert_def window_ok_def Let_def last_n_def)
next
  case False
  then show ?thesis using assms
    by (cases w) (auto simp: window_insert_def window_ok_def Let_def)
qed

section \<open>The contract\<close>

text \<open>Offering a sequence of keys: the keys accepted, and the state afterwards.\<close>

fun offers :: "('k \<Rightarrow> 's \<Rightarrow> bool \<times> 's) \<Rightarrow> 's \<Rightarrow> 'k list \<Rightarrow> 'k list \<times> 's" where
  "offers acc s [] = ([], s)"
| "offers acc s (k # ks) =
     (case acc k s of (b, s1) \<Rightarrow>
       (case offers acc s1 ks of (as, s2) \<Rightarrow> (if b then k # as else as, s2)))"

locale dedup_window =
  fixes acc :: "'k \<Rightarrow> 's \<Rightarrow> bool \<times> 's"
    and recent :: "'s \<Rightarrow> 'k list"
    and cap :: nat
    and inv :: "'s \<Rightarrow> bool"
  assumes acc_iff: "inv s \<Longrightarrow> fst (acc k s) \<longleftrightarrow> k \<notin> set (recent s)"
    and acc_inv: "inv s \<Longrightarrow> inv (snd (acc k s))"
    and acc_recent: "inv s \<Longrightarrow> recent (snd (acc k s)) =
      (if k \<in> set (recent s) then recent s else last_n cap (recent s @ [k]))"
    and recent_bound: "inv s \<Longrightarrow> length (recent s) \<le> cap \<and> distinct (recent s)"
begin

lemma offers_inv: "inv s \<Longrightarrow> inv (snd (offers acc s ks))"
proof (induction ks arbitrary: s)
  case (Cons k ks)
  with acc_inv [OF Cons.prems, of k] Cons.IH [of "snd (acc k s)"] show ?case
    by (simp add: prod.case_eq_if)
qed simp

text \<open>The window holds the last \<open>cap\<close> accepted keys.\<close>

lemma offers_recent:
  "inv s \<Longrightarrow> recent (snd (offers acc s ks)) = last_n cap (recent s @ fst (offers acc s ks))"
proof (induction ks arbitrary: s)
  case Nil
  with recent_bound show ?case by simp
next
  case (Cons k ks)
  obtain b s1 where 1: "acc k s = (b, s1)" by (cases "acc k s")
  obtain as s2 where 2: "offers acc s1 ks = (as, s2)" by (cases "offers acc s1 ks")
  from acc_inv [OF Cons.prems, of k] 1 have "inv s1" by simp
  with Cons.IH [of s1] 2 have "recent s2 = last_n cap (recent s1 @ as)" by simp
  then show ?case
    using 1 2 acc_iff [OF Cons.prems, of k] acc_recent [OF Cons.prems, of k]
    by (auto simp: last_n_append_last_n)
qed

lemma offers_decide:
  "inv s \<Longrightarrow> fst (acc k (snd (offers acc s ks))) \<longleftrightarrow>
     k \<notin> set (last_n cap (recent s @ fst (offers acc s ks)))"
  using acc_iff [OF offers_inv] offers_recent by simp

text \<open>While the window has not overflowed, the accepted keys are the first occurrences.\<close>

lemma offers_first_occurrences:
  assumes "inv s" and "card (set (recent s) \<union> set ks) \<le> cap"
  shows "fst (offers acc s ks) = rev (remdups (rev (filter (\<lambda>k. k \<notin> set (recent s)) ks)))
    \<and> set (recent (snd (offers acc s ks))) = set (recent s) \<union> set ks"
  using assms(2)
proof (induction ks rule: rev_induct)
  case Nil
  then show ?case by simp
next
  case (snoc k ks)
  have split: "offers acc s (ks @ [k]) =
      (let (as, s1) = offers acc s ks; (b, s2) = acc k s1 in (if b then as @ [k] else as, s2))" for ks k
    by (induction ks arbitrary: s) (auto split: prod.splits simp: Let_def)
  have "card (set (recent s) \<union> set ks) \<le> card (set (recent s) \<union> set (ks @ [k]))"
    by (rule card_mono) auto
  with snoc.prems have le: "card (set (recent s) \<union> set ks) \<le> cap" by linarith
  define as s1 where as: "as = fst (offers acc s ks)" and s1: "s1 = snd (offers acc s ks)"
  note IH = snoc.IH [OF le, folded as s1]
  have i1: "inv s1" unfolding s1 using assms(1) by (rule offers_inv)
  have new: "k \<notin> set (recent s1) \<Longrightarrow> recent (snd (acc k s1)) = recent s1 @ [k]"
  proof -
    assume k: "k \<notin> set (recent s1)"
    have "length (recent s1 @ [k]) = card (set (recent s1 @ [k]))"
      using k recent_bound [OF i1] by (intro distinct_card [symmetric]) auto
    also have "set (recent s1 @ [k]) = set (recent s) \<union> set (ks @ [k])" using IH by auto
    finally have "length (recent s1 @ [k]) \<le> cap" using snoc.prems by simp
    then show ?thesis using acc_recent [OF i1, of k] k by simp
  qed
  show ?case
    using IH acc_iff [OF i1, of k] acc_recent [OF i1, of k] new
    by (auto simp: split as [symmetric] s1 [symmetric] prod.case_eq_if Let_def)
qed

end

end
