(* ===== verification/Crypto_Session.thy ===== *)
theory Crypto_Session
  imports Aead Dedup_Window
begin

text \<open>
  The audio encryption session of \<open>core/src/crypto.rs\<close>: nonce construction, encryption, decryption
  with replay rejection, and the ephemeral key exchange. AES-GCM, HKDF and X25519 are parameters;
  random bytes are arguments.
\<close>

section \<open>Model\<close>

definition NONCE_SIZE :: nat where "NONCE_SIZE = 12"
definition HKDF_INFO :: bytes where "HKDF_INFO = ascii ''sassytalkie-aead-v2''"
definition REPLAY_WINDOW :: nat where "REPLAY_WINDOW = 8192"

datatype crypto_error =
  EncryptionFailed | DataTooShort | DecryptionFailed | ReplayDetected | NonceExhausted
  | KeyExchangeCompleted

text \<open>HKDF-SHA256 without salt: input keying material and info to 32 bytes.\<close>

definition derive_aes_key :: "(bytes \<Rightarrow> bytes \<Rightarrow> bytes) \<Rightarrow> bytes \<Rightarrow> bytes" where
  "derive_aes_key hkdf ikm = hkdf ikm HKDF_INFO"

record CryptoSession =
  cs_cipher :: bytes
  cs_nonce_counter :: u32
  cs_nonce_prefix :: bytes
  cs_seen_nonces :: "bytes window"

definition new_replay_window :: "bytes window" where
  "new_replay_window = ({}, [])"

definition from_psk :: "bytes \<Rightarrow> bytes \<Rightarrow> CryptoSession" where
  "from_psk key prefix =
     \<lparr>cs_cipher = key, cs_nonce_counter = 0, cs_nonce_prefix = prefix,
      cs_seen_nonces = new_replay_window\<rparr>"

definition from_shared_secret ::
  "(bytes \<Rightarrow> bytes \<Rightarrow> bytes) \<Rightarrow> bytes \<Rightarrow> bytes \<Rightarrow> CryptoSession" where
  "from_shared_secret hkdf shared prefix =
     \<lparr>cs_cipher = derive_aes_key hkdf shared, cs_nonce_counter = 0, cs_nonce_prefix = prefix,
      cs_seen_nonces = new_replay_window\<rparr>"

text \<open>On exhaustion the assignment does not happen: the counter stays at its last value.\<close>

definition next_nonce :: "CryptoSession \<Rightarrow> CryptoSession \<times> (crypto_error + bytes)" where
  "next_nonce s =
     (if cs_nonce_counter s = -1 then (s, Inl NonceExhausted)
      else let s1 = s\<lparr>cs_nonce_counter := cs_nonce_counter s + 1\<rparr>
           in (s1, Inr (cs_nonce_prefix s1 @ to_le 4 (cs_nonce_counter s1))))"

definition encrypt :: "aead_fun \<Rightarrow> CryptoSession \<Rightarrow> bytes \<Rightarrow> CryptoSession \<times> (crypto_error + bytes)" where
  "encrypt enc s plaintext =
     (case next_nonce s of
        (s1, Inl e) \<Rightarrow> (s1, Inl e)
      | (s1, Inr nonce) \<Rightarrow>
          (case enc (cs_cipher s1) nonce [] plaintext of
             None \<Rightarrow> (s1, Inl EncryptionFailed)
           | Some ciphertext \<Rightarrow> (s1, Inr (nonce @ ciphertext))))"

definition decrypt :: "aead_fun \<Rightarrow> CryptoSession \<Rightarrow> bytes \<Rightarrow> CryptoSession \<times> (crypto_error + bytes)" where
  "decrypt dec s data =
     (if length data < NONCE_SIZE + 16 then (s, Inl DataTooShort)
      else let nonce = take NONCE_SIZE data
           in case dec (cs_cipher s) nonce [] (drop NONCE_SIZE data) of
                None \<Rightarrow> (s, Inl DecryptionFailed)
              | Some plaintext \<Rightarrow>
                  (case window_insert REPLAY_WINDOW nonce (cs_seen_nonces s) of
                     (fresh, w) \<Rightarrow>
                       (s\<lparr>cs_seen_nonces := w\<rparr>,
                        if fresh then Inr plaintext else Inl ReplayDetected)))"

text \<open>The key exchange: an ephemeral secret, consumed by completion.\<close>

record KeyExchange =
  ke_secret :: "bytes option"
  ke_local_public :: bytes

definition KeyExchange_new :: "(bytes \<Rightarrow> bytes) \<Rightarrow> bytes \<Rightarrow> KeyExchange" where
  "KeyExchange_new public_of secret = \<lparr>ke_secret = Some secret, ke_local_public = public_of secret\<rparr>"

definition public_key_bytes :: "KeyExchange \<Rightarrow> bytes" where
  "public_key_bytes kx = ke_local_public kx"

definition complete ::
  "(bytes \<Rightarrow> bytes \<Rightarrow> bytes) \<Rightarrow> (bytes \<Rightarrow> bytes \<Rightarrow> bytes) \<Rightarrow> KeyExchange \<Rightarrow> bytes \<Rightarrow> bytes \<Rightarrow>
   crypto_error + CryptoSession" where
  "complete dh hkdf kx remote_public prefix =
     (case ke_secret kx of
        None \<Rightarrow> Inl KeyExchangeCompleted
      | Some secret \<Rightarrow> Inr (from_shared_secret hkdf (dh secret remote_public) prefix))"

section \<open>Running a session\<close>

text \<open>The results of a sequence of calls on one session, and the session afterwards.\<close>

fun run_calls :: "('s \<Rightarrow> 'i \<Rightarrow> 's \<times> 'r) \<Rightarrow> 's \<Rightarrow> 'i list \<Rightarrow> 'r list \<times> 's" where
  "run_calls f s [] = ([], s)"
| "run_calls f s (x # xs) =
     (case f s x of (s1, r) \<Rightarrow> (case run_calls f s1 xs of (rs, s2) \<Rightarrow> (r # rs, s2)))"

text \<open>The successes among results.\<close>

definition oks :: "('e + 'a) list \<Rightarrow> 'a list" where
  "oks rs = List.map_filter (\<lambda>r. case r of Inl _ \<Rightarrow> None | Inr x \<Rightarrow> Some x) rs"

lemma oks_simps [simp]:
  "oks [] = []" "oks (Inl e # rs) = oks rs" "oks (Inr x # rs) = x # oks rs"
  "oks (rs @ rs') = oks rs @ oks rs'"
  by (simp_all add: oks_def List.map_filter_def)

lemma length_run_calls [simp]: "length (fst (run_calls f s xs)) = length xs"
  by (induction xs arbitrary: s) (auto split: prod.splits simp: prod.case_eq_if)

section \<open>Nonces\<close>

definition session_ok :: "CryptoSession \<Rightarrow> bool" where
  "session_ok s \<longleftrightarrow> length (cs_nonce_prefix s) = 8 \<and> window_ok REPLAY_WINDOW (cs_seen_nonces s)"

lemma new_session_ok [simp]:
  "length prefix = 8 \<Longrightarrow> session_ok (from_psk key prefix)"
  "length prefix = 8 \<Longrightarrow> session_ok (from_shared_secret hkdf shared prefix)"
  by (simp_all add: session_ok_def from_psk_def from_shared_secret_def new_replay_window_def window_ok_def)

text \<open>The nonce of the \<open>i\<close>th frame.\<close>

definition nonce_of :: "CryptoSession \<Rightarrow> u32 \<Rightarrow> bytes" where
  "nonce_of s i = cs_nonce_prefix s @ to_le 4 i"

lemma length_nonce_of: "session_ok s \<Longrightarrow> length (nonce_of s i) = 12"
  by (simp add: nonce_of_def session_ok_def)

lemma nonce_of_inject:
  "session_ok s \<Longrightarrow> session_ok t \<Longrightarrow>
   nonce_of s i = nonce_of t j \<longleftrightarrow> cs_nonce_prefix s = cs_nonce_prefix t \<and> i = j"
  by (auto simp: nonce_of_def session_ok_def to_le_inject)

lemma u32_succ: "c \<noteq> -1 \<Longrightarrow> unat (c + 1 :: u32) = Suc (unat c)"
  by (metis Suc_eq_plus1 add.commute unatSuc add.inverse_inverse add_eq_0_iff minus_equation_iff)

lemma encrypt_frame:
  assumes "encrypt enc s m = (s', r)"
  shows "cs_cipher s' = cs_cipher s" "cs_nonce_prefix s' = cs_nonce_prefix s"
    "cs_seen_nonces s' = cs_seen_nonces s" "session_ok s' = session_ok s"
    "nonce_of s' = nonce_of s"
  using assms
  by (auto simp: encrypt_def next_nonce_def Let_def session_ok_def nonce_of_def fun_eq_iff
      split: if_splits option.splits)

lemma encrypt_counter:
  "encrypt enc s m = (s', r) \<Longrightarrow>
   unat (cs_nonce_counter s') = min (Suc (unat (cs_nonce_counter s))) (2 ^ 32 - 1)"
  using unat_bound [of "cs_nonce_counter s"]
  by (auto simp: encrypt_def next_nonce_def Let_def u32_succ unsigned_minus_1_eq_mask mask_eq_exp_minus_1
      word_unat_eq_iff split: if_splits option.splits)

lemma encrypt_Inr_iff:
  "encrypt enc s m = (s', Inr ct) \<longleftrightarrow>
     cs_nonce_counter s \<noteq> -1 \<and> s' = s\<lparr>cs_nonce_counter := cs_nonce_counter s + 1\<rparr> \<and>
     (\<exists>c. enc (cs_cipher s) (nonce_of s (cs_nonce_counter s + 1)) [] m = Some c \<and>
        ct = nonce_of s (cs_nonce_counter s + 1) @ c)"
  by (auto simp: encrypt_def next_nonce_def Let_def nonce_of_def split: option.splits)

text \<open>Every frame of a run carries the nonce of a counter above the starting one.\<close>

lemma run_encrypt_nonces:
  assumes "session_ok s" and "ct \<in> set (oks (fst (run_calls (encrypt enc) s ms)))"
  shows "\<exists>i. cs_nonce_counter s < i \<and> take 12 ct = nonce_of s i"
  using assms
proof (induction ms arbitrary: s)
  case (Cons m ms)
  obtain s1 r where 1: "encrypt enc s m = (s1, r)" by (cases "encrypt enc s m")
  note fr = encrypt_frame [OF 1]
  have le: "cs_nonce_counter s \<le> cs_nonce_counter s1"
    using encrypt_counter [OF 1] unat_bound [of "cs_nonce_counter s"]
    by (simp add: word_le_nat_alt)
  show ?case
  proof (cases "ct \<in> set (oks (fst (run_calls (encrypt enc) s1 ms)))")
    case True
    then show ?thesis using Cons.IH [of s1] Cons.prems fr le by (metis le_less_trans)
  next
    case False
    with Cons.prems 1 have "r = Inr ct" by (cases r) (auto simp: prod.case_eq_if)
    with 1 have "cs_nonce_counter s \<noteq> -1" "take 12 ct = nonce_of s (cs_nonce_counter s + 1)"
      using length_nonce_of [OF Cons.prems(1)] by (auto simp: encrypt_Inr_iff)
    then show ?thesis
      by (intro exI [of _ "cs_nonce_counter s + 1"]) (simp add: word_less_nat_alt u32_succ)
  qed
qed simp

lemma run_encrypt_distinct:
  assumes "session_ok s"
  shows "distinct (map (take 12) (oks (fst (run_calls (encrypt enc) s ms))))"
  using assms
proof (induction ms arbitrary: s)
  case (Cons m ms)
  obtain s1 r where 1: "encrypt enc s m = (s1, r)" by (cases "encrypt enc s m")
  note fr = encrypt_frame [OF 1]
  have IH: "distinct (map (take 12) (oks (fst (run_calls (encrypt enc) s1 ms))))"
    using Cons fr by simp
  show ?case
  proof (cases r)
    case (Inl e)
    with 1 IH show ?thesis by (simp add: prod.case_eq_if)
  next
    case (Inr ct)
    with 1 have c: "cs_nonce_counter s1 = cs_nonce_counter s + 1"
      "take 12 ct = nonce_of s (cs_nonce_counter s + 1)"
      using length_nonce_of [OF Cons.prems] by (auto simp: encrypt_Inr_iff)
    have "take 12 ct \<noteq> take 12 ct'" if "ct' \<in> set (oks (fst (run_calls (encrypt enc) s1 ms)))" for ct'
    proof -
      have "session_ok s1" using fr Cons.prems by simp
      from run_encrypt_nonces [OF this that] obtain i where
        "cs_nonce_counter s1 < i" "take 12 ct' = nonce_of s1 i" by blast
      with c fr Cons.prems show ?thesis by (auto simp: nonce_of_inject)
    qed
    with 1 Inr IH show ?thesis by (auto simp: prod.case_eq_if)
  qed
qed simp

section \<open>Replay rejection\<close>

text \<open>The replay step of \<open>decrypt\<close> on its own, a duplicate filter over nonces.\<close>

definition note_nonce :: "bytes \<Rightarrow> CryptoSession \<Rightarrow> bool \<times> CryptoSession" where
  "note_nonce nonce s =
     (case window_insert REPLAY_WINDOW nonce (cs_seen_nonces s) of
        (fresh, w) \<Rightarrow> (fresh, s\<lparr>cs_seen_nonces := w\<rparr>))"

definition seen_order :: "CryptoSession \<Rightarrow> bytes list" where
  "seen_order s = snd (cs_seen_nonces s)"

interpretation replay: dedup_window note_nonce seen_order REPLAY_WINDOW session_ok
proof
  fix s and k :: bytes
  assume "session_ok s"
  then have w: "window_ok REPLAY_WINDOW (cs_seen_nonces s)" by (simp add: session_ok_def)
  have pos: "0 < REPLAY_WINDOW" by (simp add: REPLAY_WINDOW_def)
  show "fst (note_nonce k s) \<longleftrightarrow> k \<notin> set (seen_order s)"
    using window_insert_fst [OF w, of k]
    by (simp add: note_nonce_def seen_order_def prod.case_eq_if)
  show "session_ok (snd (note_nonce k s))"
    using window_insert_ok [OF pos w, of k] \<open>session_ok s\<close>
    by (simp add: note_nonce_def session_ok_def prod.case_eq_if)
  show "seen_order (snd (note_nonce k s)) =
      (if k \<in> set (seen_order s) then seen_order s else last_n REPLAY_WINDOW (seen_order s @ [k]))"
    using window_insert_order [OF pos w, of k]
    by (simp add: note_nonce_def seen_order_def prod.case_eq_if)
  show "length (seen_order s) \<le> REPLAY_WINDOW \<and> distinct (seen_order s)"
    using w by (simp add: window_ok_def seen_order_def)
qed

text \<open>A frame whose tag validates under the session key, and what it decrypts to.\<close>

definition authentic :: "aead_fun \<Rightarrow> bytes \<Rightarrow> bytes \<Rightarrow> bytes option" where
  "authentic dec key data =
     (if length data < 28 then None else dec key (take 12 data) [] (drop 12 data))"

lemma decrypt_cases:
  "decrypt dec s data =
     (case authentic dec (cs_cipher s) data of
        Some p \<Rightarrow> (snd (note_nonce (take 12 data) s),
                   if fst (note_nonce (take 12 data) s) then Inr p else Inl ReplayDetected)
      | None \<Rightarrow> (s, Inl (if length data < 28 then DataTooShort else DecryptionFailed)))"
  by (auto simp: decrypt_def authentic_def note_nonce_def NONCE_SIZE_def Let_def
      split: option.splits prod.splits)

lemma note_nonce_frame [simp]:
  "cs_cipher (snd (note_nonce n s)) = cs_cipher s"
  "cs_nonce_counter (snd (note_nonce n s)) = cs_nonce_counter s"
  "cs_nonce_prefix (snd (note_nonce n s)) = cs_nonce_prefix s"
  by (simp_all add: note_nonce_def prod.case_eq_if)

lemma decrypt_frame: "cs_cipher (fst (decrypt dec s data)) = cs_cipher s"
  by (auto simp: decrypt_cases split: option.splits)

text \<open>The window after a run is the window of the authentic frames' nonces, offered in order.\<close>

lemma run_decrypt_window:
  "snd (run_calls (decrypt dec) s ds) =
     snd (offers note_nonce s (map (take 12) (filter (\<lambda>d. authentic dec (cs_cipher s) d \<noteq> None) ds)))"
proof (induction ds arbitrary: s)
  case (Cons d ds)
  then show ?case
    by (cases "authentic dec (cs_cipher s) d") (auto simp: decrypt_cases prod.case_eq_if)
qed simp

lemma run_decrypt_nonces:
  "\<exists>as. map (take 12) as = fst (offers note_nonce s
      (map (take 12) (filter (\<lambda>d. authentic dec (cs_cipher s) d \<noteq> None) ds))) \<and>
    map Some (oks (fst (run_calls (decrypt dec) s ds))) = map (authentic dec (cs_cipher s)) as \<and>
    set as \<subseteq> set ds"
proof (induction ds arbitrary: s)
  case (Cons d ds)
  show ?case
  proof (cases "authentic dec (cs_cipher s) d")
    case None
    with Cons.IH [of s] show ?thesis
      by (auto simp: decrypt_cases prod.case_eq_if)
  next
    case (Some p)
    obtain b s1 where 1: "note_nonce (take 12 d) s = (b, s1)" by (cases "note_nonce (take 12 d) s")
    then have "cs_cipher s1 = cs_cipher s" by (metis note_nonce_frame(1) snd_conv)
    with Cons.IH [of s1] obtain as where
      "map (take 12) as = fst (offers note_nonce s1
         (map (take 12) (filter (\<lambda>d. authentic dec (cs_cipher s) d \<noteq> None) ds)))"
      "map Some (oks (fst (run_calls (decrypt dec) s1 ds))) = map (authentic dec (cs_cipher s)) as"
      "set as \<subseteq> set ds" by auto
    moreover have "decrypt dec s d = (s1, if b then Inr p else Inl ReplayDetected)"
      using 1 Some by (simp add: decrypt_cases)
    ultimately show ?thesis using 1 Some
      by (intro exI [of _ "if b then d # as else as"]) (auto simp: prod.case_eq_if)
  qed
qed simp

lemma remdups_map_inj_on: "inj_on f (set xs) \<Longrightarrow> remdups (map f xs) = map f (remdups xs)"
  by (induction xs) (auto simp: inj_on_def)

text \<open>Frames with distinct nonces, delivered in any order and any number of times.\<close>

lemma run_decrypt_indexed:
  assumes ok: "session_ok s" and new: "seen_order s = []"
    and auth: "\<And>i. i \<in> set is \<Longrightarrow> authentic dec (cs_cipher s) (f i) = Some (g i)"
    and inj: "inj_on (\<lambda>i. take 12 (f i)) (set is)"
    and small: "card (set is) \<le> REPLAY_WINDOW"
  shows "oks (fst (run_calls (decrypt dec) s (map f is))) = map g (rev (remdups (rev is)))"
proof -
  define n where "n = (\<lambda>i. take 12 (f i))"
  have all: "filter (\<lambda>d. authentic dec (cs_cipher s) d \<noteq> None) (map f is) = map f is"
    using auth by (auto simp: filter_id_conv)
  have "card (set (map n is)) \<le> REPLAY_WINDOW"
    using card_image_le [of "set is" n] small by simp
  then have "fst (offers note_nonce s (map n is)) = rev (remdups (rev (map n is)))"
    using replay.offers_first_occurrences [OF ok, of "map n is"] new by simp
  also have "\<dots> = map n (rev (remdups (rev is)))"
    using inj by (simp add: rev_map remdups_map_inj_on n_def)
  finally have firsts: "fst (offers note_nonce s (map n is)) = map n (rev (remdups (rev is)))" .
  obtain as where as: "map (take 12) as = map n (rev (remdups (rev is)))" "set as \<subseteq> f ` set is"
    "map Some (oks (fst (run_calls (decrypt dec) s (map f is)))) = map (authentic dec (cs_cipher s)) as"
    using run_decrypt_nonces [of s dec "map f is", unfolded all] firsts
    by (auto simp: n_def comp_def)
  have "as = map f (rev (remdups (rev is)))"
  proof (rule nth_equalityI)
    show len: "length as = length (map f (rev (remdups (rev is))))"
      using as(1) by (metis length_map)
    fix j assume j: "j < length as"
    define i where "i = rev (remdups (rev is)) ! j"
    have i: "i \<in> set is" "take 12 (as ! j) = n i"
      using j len nth_mem [of j "rev (remdups (rev is))"] arg_cong [OF as(1), of "\<lambda>xs. xs ! j"]
      by (auto simp: i_def)
    have "as ! j \<in> f ` set is" using as(2) nth_mem [OF j] by blast
    then obtain i' where i': "i' \<in> set is" "as ! j = f i'" by blast
    then have "i' = i" using inj_onD [OF inj, of i' i] i by (simp add: n_def)
    with i' have "as ! j = f i" by simp
    then show "as ! j = map f (rev (remdups (rev is))) ! j" using j len by (simp add: i_def)
  qed
  then have "map Some (oks (fst (run_calls (decrypt dec) s (map f is)))) =
      map Some (map g (rev (remdups (rev is))))"
    using as(3) auth by auto
  then show ?thesis by (simp only: inj_map_eq_map [of Some] inj_Some)
qed

text \<open>What a run of successful encryptions produces.\<close>

lemma run_encrypt_all:
  assumes "aead_total enc" and "\<forall>m \<in> set ms. length m < 2 ^ 32"
    and "unat (cs_nonce_counter s) + length ms < 2 ^ 32"
  shows "length (oks (fst (run_calls (encrypt enc) s ms))) = length ms \<and>
    (\<forall>i < length ms. \<exists>c j. enc (cs_cipher s) (nonce_of s j) [] (ms ! i) = Some c \<and>
      oks (fst (run_calls (encrypt enc) s ms)) ! i = nonce_of s j @ c)"
  using assms(2,3)
proof (induction ms arbitrary: s)
  case (Cons m ms)
  have c: "cs_nonce_counter s \<noteq> -1"
    using Cons.prems(2) by (auto simp: unsigned_minus_1_eq_mask mask_eq_exp_minus_1)
  define s1 where "s1 = s\<lparr>cs_nonce_counter := cs_nonce_counter s + 1\<rparr>"
  obtain ct where ct: "enc (cs_cipher s) (nonce_of s (cs_nonce_counter s + 1)) [] m = Some ct"
    using aead_totalD [OF assms(1), of m "cs_cipher s" "nonce_of s (cs_nonce_counter s + 1)" "[]"]
      Cons.prems(1) by auto
  then have e: "encrypt enc s m = (s1, Inr (nonce_of s (cs_nonce_counter s + 1) @ ct))"
    using c by (simp add: encrypt_Inr_iff s1_def)
  have "unat (cs_nonce_counter s1) + length ms < 2 ^ 32"
    using Cons.prems(2) c by (simp add: s1_def u32_succ)
  with Cons.IH [of s1] Cons.prems(1) have IH:
    "length (oks (fst (run_calls (encrypt enc) s1 ms))) = length ms"
    "\<forall>i < length ms. \<exists>c j. enc (cs_cipher s) (nonce_of s j) [] (ms ! i) = Some c \<and>
      oks (fst (run_calls (encrypt enc) s1 ms)) ! i = nonce_of s j @ c"
    by (auto simp: s1_def nonce_of_def)
  show ?case
  proof (intro conjI allI impI)
    show "length (oks (fst (run_calls (encrypt enc) s (m # ms)))) = length (m # ms)"
      using e IH(1) by (simp add: prod.case_eq_if)
    fix i assume "i < length (m # ms)"
    then show "\<exists>c j. enc (cs_cipher s) (nonce_of s j) [] ((m # ms) ! i) = Some c \<and>
      oks (fst (run_calls (encrypt enc) s (m # ms))) ! i = nonce_of s j @ c"
      using e ct IH(2) by (cases i) (auto simp: prod.case_eq_if)
  qed
qed simp

section \<open>Properties\<close>

text \<open>
  C1 (safety). A session never reuses a nonce: in any run of \<open>encrypt\<close> calls, whatever the
  plaintexts and whichever calls fail, the nonces of the frames produced are pairwise distinct;
  and two sessions of a group that share the key but drew different prefixes never use the same
  nonce. Reuse of a nonce is the failure AES-GCM does not survive.
\<close>

theorem nonces_never_repeat:
  assumes "session_ok s" and "session_ok t" and "cs_nonce_prefix s \<noteq> cs_nonce_prefix t"
  shows "distinct (map (take NONCE_SIZE)
    (oks (fst (run_calls (encrypt enc) s ms)) @ oks (fst (run_calls (encrypt enc') t ms'))))"
proof -
  have "take 12 c \<noteq> take 12 d" if "c \<in> set (oks (fst (run_calls (encrypt enc) s ms)))"
    "d \<in> set (oks (fst (run_calls (encrypt enc') t ms')))" for c d
    using run_encrypt_nonces [OF assms(1) that(1)] run_encrypt_nonces [OF assms(2) that(2)] assms
    by (auto simp: nonce_of_inject)
  then show ?thesis
    using run_encrypt_distinct [OF assms(1)] run_encrypt_distinct [OF assms(2)]
    by (auto simp: NONCE_SIZE_def)
qed

theorem nonces_never_repeat_witness:
  "distinct (map (take NONCE_SIZE)
    (oks (fst (run_calls (encrypt plain_enc) (from_psk (replicate 32 7) (replicate 8 1)) [[1], [2, 3]])) @
     oks (fst (run_calls (encrypt plain_enc) (from_psk (replicate 32 7) (replicate 8 2)) [[1]]))))"
proof (rule nonces_never_repeat)
  show "cs_nonce_prefix (from_psk (replicate 32 7) (replicate 8 1)) \<noteq>
      cs_nonce_prefix (from_psk (replicate 32 7) (replicate 8 2))" by (simp add: from_psk_def)
qed simp_all

text \<open>
  Counter exhaustion is permanent and safe: once the 32-bit counter has reached its
  maximum every further call of \<open>encrypt\<close> fails with the exhaustion error and leaves the session
  as it is; before that a call fails only when the cipher does.
\<close>

theorem encrypt_exhaustion:
  "(cs_nonce_counter s = -1 \<longrightarrow>
     run_calls (encrypt enc) s ms = (replicate (length ms) (Inl NonceExhausted), s)) \<and>
   (cs_nonce_counter s \<noteq> -1 \<longrightarrow> snd (encrypt enc s m) \<noteq> Inl NonceExhausted \<and>
     unat (cs_nonce_counter (fst (encrypt enc s m))) = unat (cs_nonce_counter s) + 1)"
proof (intro conjI impI)
  assume "cs_nonce_counter s = -1"
  then have "encrypt enc s m = (s, Inl NonceExhausted)" for m
    by (simp add: encrypt_def next_nonce_def)
  then show "run_calls (encrypt enc) s ms = (replicate (length ms) (Inl NonceExhausted), s)"
    by (induction ms) auto
next
  assume "cs_nonce_counter s \<noteq> -1"
  then show "snd (encrypt enc s m) \<noteq> Inl NonceExhausted"
    "unat (cs_nonce_counter (fst (encrypt enc s m))) = unat (cs_nonce_counter s) + 1"
    by (auto simp: encrypt_def next_nonce_def Let_def u32_succ split: option.splits)
qed

theorem encrypt_exhaustion_witness:
  "run_calls (encrypt plain_enc) ((from_psk (replicate 32 7) (replicate 8 1))\<lparr>cs_nonce_counter := -1\<rparr>) [[1], [2]]
     = ([Inl NonceExhausted, Inl NonceExhausted], (from_psk (replicate 32 7) (replicate 8 1))\<lparr>cs_nonce_counter := -1\<rparr>)"
  using encrypt_exhaustion [of "(from_psk (replicate 32 7) (replicate 8 1))\<lparr>cs_nonce_counter := -1\<rparr>"
      plain_enc "[[1], [2]]"] by (simp add: numeral_2_eq_2)



text \<open>
  What \<open>decrypt\<close> does on every branch: a short or forged frame changes nothing, so
  it cannot poison the window; an authentic frame is returned if and only if its nonce is not among
  the last 8192 accepted ones, and otherwise reported as a replay. The set and the queue of the
  window stay in agreement and within the bound.
\<close>

theorem decrypt_window_exact:
  assumes "session_ok s"
  shows "session_ok (fst (decrypt dec s data)) \<and>
    (case authentic dec (cs_cipher s) data of
       None \<Rightarrow> fst (decrypt dec s data) = s \<and>
         snd (decrypt dec s data) = Inl (if length data < 28 then DataTooShort else DecryptionFailed)
     | Some p \<Rightarrow>
         (if take 12 data \<in> set (snd (cs_seen_nonces s))
          then decrypt dec s data = (s, Inl ReplayDetected)
          else snd (decrypt dec s data) = Inr p \<and>
            snd (cs_seen_nonces (fst (decrypt dec s data))) =
              last_n 8192 (snd (cs_seen_nonces s) @ [take 12 data])))"
proof -
  have "note_nonce n s = (False, s)" if "n \<in> set (snd (cs_seen_nonces s))" for n
    using that assms
    by (cases "cs_seen_nonces s") (simp add: note_nonce_def window_insert_def session_ok_def window_ok_def)
  then show ?thesis
    using assms replay.acc_inv [OF assms] replay.acc_iff [OF assms, of "take 12 data"]
      replay.acc_recent [OF assms, of "take 12 data"]
    by (auto simp: decrypt_cases seen_order_def REPLAY_WINDOW_def split: option.splits)
qed

theorem decrypt_window_exact_witness:
  "snd (decrypt plain_dec (from_psk (replicate 32 7) (replicate 8 2)) [1, 2, 3]) = Inl DataTooShort"
  using decrypt_window_exact [of "from_psk (replicate 32 7) (replicate 8 2)" plain_dec "[1, 2, 3]"]
  by (simp add: authentic_def)

text \<open>
  The ephemeral exchange agrees: when Diffie-Hellman commutes on the two secrets,
  both sides complete with sessions of the same key, so each decrypts what the other encrypts. A
  consumed exchange refuses to complete again.
\<close>

theorem key_exchange_agrees:
  assumes dh: "\<forall>a b. dh a (pub b) = dh b (pub a)"
  shows "\<exists>s t. complete dh hkdf (KeyExchange_new pub a) (public_key_bytes (KeyExchange_new pub b)) p = Inr s \<and>
      complete dh hkdf (KeyExchange_new pub b) (public_key_bytes (KeyExchange_new pub a)) q = Inr t \<and>
      cs_cipher s = cs_cipher t \<and>
      complete dh hkdf (kx\<lparr>ke_secret := None\<rparr>) r p' = Inl KeyExchangeCompleted"
  using dh by (simp add: complete_def KeyExchange_new_def public_key_bytes_def from_shared_secret_def)

theorem key_exchange_agrees_witness:
  "\<exists>s t. complete (\<lambda>a b. map2 (+) a b) (\<lambda>i _. i) (KeyExchange_new id [1]) (public_key_bytes (KeyExchange_new id [2])) (replicate 8 1) = Inr s \<and>
      complete (\<lambda>a b. map2 (+) a b) (\<lambda>i _. i) (KeyExchange_new id [2]) (public_key_bytes (KeyExchange_new id [1])) (replicate 8 2) = Inr t \<and>
      cs_cipher s = cs_cipher t \<and>
      complete (\<lambda>a b. map2 (+) a b) (\<lambda>i _. i) ((KeyExchange_new id [1])\<lparr>ke_secret := None\<rparr>) [] [] = Inl KeyExchangeCompleted"
proof (rule key_exchange_agrees)
  have "map2 (+) a b = map2 (+) b a" for a b :: bytes
    by (rule nth_equalityI) (auto simp: add.commute)
  then show "\<forall>a b. map2 (+) a (id b) = map2 (+) b (id a :: bytes)" by simp
qed

end
