(* ===== verification/Control_Auth.thy ===== *)
theory Control_Auth
  imports Protocol Aead Crypto_Session
begin

text \<open>
  The authenticated control envelope of \<open>core/src/control_auth.rs\<close>: sealing, opening, the
  per-sender replay window and the fail-closed classification of inbound frames. AES-GCM and
  SHA-256 are parameters, the random nonce an argument.
\<close>

section \<open>Frames\<close>

definition MAGIC :: bytes where "MAGIC = ascii ''STCP''"
definition OUTER_AAD :: bytes where "OUTER_AAD = ascii ''sassytalkie-control-envelope-v1''"
definition VERSION :: u8 where "VERSION = 1"
definition ROOM_BINDING_BYTES :: nat where "ROOM_BINDING_BYTES = 16"
definition MAX_SENDER_BYTES :: nat where "MAX_SENDER_BYTES = 64"
definition MAX_INNER_BYTES :: nat where "MAX_INNER_BYTES = 8 * 1024"
definition MAX_REPLAY_SENDERS :: nat where "MAX_REPLAY_SENDERS = 256"
definition REPLAY_BITS :: u64 where "REPLAY_BITS = 64"
definition MAX_AGE_MS :: int where "MAX_AGE_MS = 2 * 60 * 1000"
definition MAX_FUTURE_SKEW_MS :: int where "MAX_FUTURE_SKEW_MS = 30 * 1000"
definition MIN_BODY_BYTES :: nat where
  "MIN_BODY_BYTES = 4 + 1 + ROOM_BINDING_BYTES + 1 + 1 + 8 + 8 + 8 + 2"

record DecodedControl =
  dc_opcode :: u8
  dc_payload :: bytes

definition parse_tlv_exact :: "bytes \<Rightarrow> DecodedControl option" where
  "parse_tlv_exact bs =
     (if length bs < 3 then None
      else if bs ! 0 < 0x10 then None
      else let len = unat (from_le [bs ! 1, bs ! 2] :: u16)
           in if 3 + len \<noteq> length bs then None
              else Some \<lparr>dc_opcode = bs ! 0, dc_payload = drop 3 bs\<rparr>)"

definition decode_control_frame :: "bytes \<Rightarrow> DecodedControl option" where
  "decode_control_frame bs =
     (if bs = [] then None
      else if bs ! 0 < 0x10 then Some \<lparr>dc_opcode = bs ! 0, dc_payload = []\<rparr>
      else parse_tlv_exact bs)"

definition is_control_tlv :: "bytes \<Rightarrow> bool" where
  "is_control_tlv bs =
     (if length bs < 3 then False
      else if \<not> (0x10 \<le> bs ! 0 \<and> bs ! 0 \<le> 0x20) then False
      else length bs = 3 + unat (from_le [bs ! 1, bs ! 2] :: u16))"

definition outer_aad :: "u8 \<Rightarrow> bytes" where
  "outer_aad opcode = OUTER_AAD @ [VERSION, opcode]"

definition reject_unauthenticated_privileged :: "u8 \<Rightarrow> bool" where
  "reject_unauthenticated_privileged op \<longleftrightarrow> 0x10 \<le> op \<and> op \<noteq> OP_AUTHENTICATED"

section \<open>The replay window\<close>

record ReplayState =
  rs_highest :: u64
  rs_bitmap :: u64

record ReplayWindow =
  rw_states :: "(bytes, ReplayState) hmap"
  rw_order :: "bytes list"

definition ReplayWindow_default :: ReplayWindow where
  "ReplayWindow_default = \<lparr>rw_states = [], rw_order = []\<rparr>"

definition replay_key :: "rstring \<Rightarrow> u64 \<Rightarrow> bytes" where
  "replay_key sender epoch = sender @ 0 # dec_digits (unat epoch)"

text \<open>The update of a known sender's state.\<close>

definition state_accept :: "ReplayState \<Rightarrow> u64 \<Rightarrow> bool \<times> ReplayState" where
  "state_accept st sequence =
     (if rs_highest st < sequence then
        let shift = sequence - rs_highest st
        in (True, \<lparr>rs_highest = sequence,
                   rs_bitmap = (if REPLAY_BITS \<le> shift then 1
                                else push_bit (unat shift) (rs_bitmap st) OR 1)\<rparr>)
      else
        let behind = rs_highest st - sequence
        in if REPLAY_BITS \<le> behind then (False, st)
           else let bt = push_bit (unat behind) 1
                in if rs_bitmap st AND bt \<noteq> 0 then (False, st)
                   else (True, st\<lparr>rs_bitmap := rs_bitmap st OR bt\<rparr>))"

definition accept :: "ReplayWindow \<Rightarrow> rstring \<Rightarrow> u64 \<Rightarrow> u64 \<Rightarrow> bool \<times> ReplayWindow" where
  "accept w sender epoch sequence =
     (if epoch = 0 \<or> sequence = 0 then (False, w)
      else let key = replay_key sender epoch
           in case hm_get (rw_states w) key of
                Some st \<Rightarrow>
                  (case state_accept st sequence of
                     (ok, st') \<Rightarrow> (ok, w\<lparr>rw_states := hm_insert key st' (rw_states w)\<rparr>))
              | None \<Rightarrow>
                  let w1 = (if MAX_REPLAY_SENDERS \<le> length (rw_states w) then
                              (case rw_order w of
                                 [] \<Rightarrow> w
                               | oldest # rest \<Rightarrow>
                                   \<lparr>rw_states = hm_remove oldest (rw_states w), rw_order = rest\<rparr>)
                            else w)
                  in (True, \<lparr>rw_states = hm_insert key \<lparr>rs_highest = sequence, rs_bitmap = 1\<rparr> (rw_states w1),
                             rw_order = rw_order w1 @ [key]\<rparr>))"

section \<open>The codec\<close>

record VerifiedControl =
  vc_sender_id :: rstring
  vc_epoch :: u64
  vc_sequence :: u64
  vc_issued_at_ms :: u64
  vc_inner_frame :: bytes

datatype ControlAuthError = Malformed | LegacyNotAllowed | TooLarge | SequenceExhausted | CryptoError

record ControlAuthCodec =
  ca_cipher :: bytes
  ca_room_binding :: bytes
  ca_sender_id :: rstring
  ca_epoch :: u64
  ca_tx_sequence :: u64
  ca_replay :: ReplayWindow

definition ControlAuthCodec_new ::
  "(bytes \<Rightarrow> bytes) \<Rightarrow> bytes \<Rightarrow> rstring \<Rightarrow> rstring \<Rightarrow> u64 \<Rightarrow> ControlAuthError + ControlAuthCodec" where
  "ControlAuthCodec_new sha256 key room_id sender_id epoch =
     (if sender_id = [] \<or> MAX_SENDER_BYTES < length sender_id then Inl Malformed
      else Inr \<lparr>ca_cipher = key, ca_room_binding = take ROOM_BINDING_BYTES (sha256 room_id),
                ca_sender_id = sender_id, ca_epoch = epoch, ca_tx_sequence = 0,
                ca_replay = ReplayWindow_default\<rparr>)"

text \<open>The plaintext that \<open>seal_with_rng\<close> assembles.\<close>

definition control_body :: "bytes \<Rightarrow> u8 \<Rightarrow> rstring \<Rightarrow> u64 \<Rightarrow> u64 \<Rightarrow> u64 \<Rightarrow> bytes \<Rightarrow> bytes" where
  "control_body room opcode sender epoch sequence now inner =
     MAGIC @ [opcode] @ room @ [word_of_nat (length sender)] @ sender @ to_le 8 epoch @
     to_le 8 sequence @ to_le 8 now @ to_le 2 (word_of_nat (length inner) :: u16) @ inner"

definition seal_with_rng ::
  "aead_fun \<Rightarrow> ControlAuthCodec \<Rightarrow> bytes \<Rightarrow> u64 \<Rightarrow> bytes \<Rightarrow> ControlAuthCodec \<times> (ControlAuthError + bytes)" where
  "seal_with_rng enc c inner now nonce =
     (case decode_control_frame inner of
        None \<Rightarrow> (c, Inl Malformed)
      | Some decoded \<Rightarrow>
          if dc_opcode decoded < 0x10 then (c, Inl LegacyNotAllowed)
          else if MAX_INNER_BYTES < length inner then (c, Inl TooLarge)
          else
            let sequence = ca_tx_sequence c + 1;
                c1 = c\<lparr>ca_tx_sequence := sequence\<rparr>
            in if sequence = 0 then (c1, Inl SequenceExhausted)
               else
                 let body = control_body (ca_room_binding c1) (dc_opcode decoded) (ca_sender_id c1)
                              (ca_epoch c1) sequence now inner
                 in case enc (ca_cipher c1) nonce (outer_aad (dc_opcode decoded)) body of
                      None \<Rightarrow> (c1, Inl CryptoError)
                    | Some ciphertext \<Rightarrow>
                        (c1, Inr (encode_tlv OP_AUTHENTICATED
                               ([VERSION, dc_opcode decoded] @ nonce @ ciphertext))))"

text \<open>
  The decrypted body as \<open>open\<close> reads it, down to the inner frame: the opcode it is bound to and the
  verified fields. A slice outside the plaintext would panic.
\<close>

definition parse_body :: "bytes \<Rightarrow> bytes \<Rightarrow> (unit, u8 \<times> VerifiedControl) outcome" where
  "parse_body room plaintext =
     (if length plaintext < MIN_BODY_BYTES then Err ()
      else bind_outcome (slice_range plaintext 0 4) (\<lambda>magic.
        if magic \<noteq> MAGIC then Err () else
        bind_outcome (index_at plaintext 4) (\<lambda>bound_opcode.
        bind_outcome (slice_range plaintext 5 (5 + ROOM_BINDING_BYTES)) (\<lambda>bound_room.
        if bound_room \<noteq> room then Err () else
        bind_outcome (index_at plaintext 21) (\<lambda>len_byte.
        let sender_len = unat len_byte; i = 22 in
        if \<not> (1 \<le> sender_len \<and> sender_len \<le> MAX_SENDER_BYTES) \<or>
           length plaintext < i + sender_len + 8 + 8 + 8 + 2 then Err () else
        bind_outcome (slice_range plaintext i (i + sender_len)) (\<lambda>sender.
        if \<not> utf8_valid sender then Err () else
        let i = i + sender_len in
        bind_outcome (slice_range plaintext i (i + 8)) (\<lambda>e.
        bind_outcome (slice_range plaintext (i + 8) (i + 16)) (\<lambda>q.
        bind_outcome (slice_range plaintext (i + 16) (i + 24)) (\<lambda>t.
        bind_outcome (slice_range plaintext (i + 24) (i + 26)) (\<lambda>l.
        let inner_len = unat (from_le l :: u16); i = i + 26 in
        if inner_len = 0 \<or> MAX_INNER_BYTES < inner_len \<or> length plaintext \<noteq> i + inner_len then Err () else
        bind_outcome (slice_from plaintext i) (\<lambda>inner.
        Ok (bound_opcode,
            \<lparr>vc_sender_id = sender, vc_epoch = from_le e, vc_sequence = from_le q,
             vc_issued_at_ms = from_le t, vc_inner_frame = inner\<rparr>))))))))))))"

text \<open>\<open>now_ms as i64 - issued_at_ms as i64\<close>, which wraps in the release profile.\<close>

definition envelope_age :: "u64 \<Rightarrow> u64 \<Rightarrow> int" where
  "envelope_age now issued = sint (now - issued)"

definition open_envelope ::
  "aead_fun \<Rightarrow> ControlAuthCodec \<Rightarrow> bytes \<Rightarrow> u64 \<Rightarrow> ControlAuthCodec \<times> (unit, VerifiedControl) outcome" where
  "open_envelope dec c envelope now =
     (case parse_tlv_exact envelope of
        None \<Rightarrow> (c, Err ())
      | Some outer \<Rightarrow>
          if dc_opcode outer \<noteq> OP_AUTHENTICATED then (c, Err ())
          else if length (dc_payload outer) < 2 + 12 + 16 \<or> dc_payload outer ! 0 \<noteq> VERSION then (c, Err ())
          else
            let opcode_hint = dc_payload outer ! 1;
                nonce = take 12 (drop 2 (dc_payload outer));
                ciphertext = drop (2 + 12) (dc_payload outer)
            in case dec (ca_cipher c) nonce (outer_aad opcode_hint) ciphertext of
                 None \<Rightarrow> (c, Err ())
               | Some plaintext \<Rightarrow>
                   (case parse_body (ca_room_binding c) plaintext of
                      Panic \<Rightarrow> (c, Panic)
                    | Err e \<Rightarrow> (c, Err e)
                    | Ok (bound_opcode, v) \<Rightarrow>
                        (case decode_control_frame (vc_inner_frame v) of
                           None \<Rightarrow> (c, Err ())
                         | Some decoded \<Rightarrow>
                             if dc_opcode decoded \<noteq> bound_opcode \<or> dc_opcode decoded \<noteq> opcode_hint \<or>
                                dc_opcode decoded = OP_AUTHENTICATED then (c, Err ())
                             else if MAX_AGE_MS < envelope_age now (vc_issued_at_ms v) \<or>
                                     envelope_age now (vc_issued_at_ms v) < - MAX_FUTURE_SKEW_MS then (c, Err ())
                             else (case accept (ca_replay c) (vc_sender_id v) (vc_epoch v) (vc_sequence v) of
                                     (ok, w) \<Rightarrow>
                                       (c\<lparr>ca_replay := w\<rparr>, if ok then Ok v else Err ())))))"

datatype InboundControl =
  NotControl | LegacyHint u8 | RejectedUnauthenticated u8 | AuthFailed | Verified VerifiedControl

definition classify_inbound ::
  "aead_fun \<Rightarrow> ControlAuthCodec option \<Rightarrow> bytes \<Rightarrow> u64 \<Rightarrow> ControlAuthCodec option \<times> (unit, InboundControl) outcome" where
  "classify_inbound dec codec bs now =
     (if bs = [] then (codec, Ok NotControl)
      else let op = bs ! 0 in
        if op < 0x10 then (codec, Ok (LegacyHint op))
        else if \<not> is_control_tlv bs then (codec, Ok NotControl)
        else if reject_unauthenticated_privileged op then (codec, Ok (RejectedUnauthenticated op))
        else case codec of
               None \<Rightarrow> (codec, Ok AuthFailed)
             | Some c \<Rightarrow>
                 (case open_envelope dec c bs now of
                    (c', Ok v) \<Rightarrow> (Some c', Ok (Verified v))
                  | (c', Err _) \<Rightarrow> (Some c', Ok AuthFailed)
                  | (c', Panic) \<Rightarrow> (Some c', Panic)))"

section \<open>The body codec\<close>

lemmas body_consts = MIN_BODY_BYTES_def ROOM_BINDING_BYTES_def MAX_SENDER_BYTES_def MAX_INNER_BYTES_def

definition body_sender_len :: "bytes \<Rightarrow> nat" where
  "body_sender_len p = unat (p ! 21)"

definition body_inner_len :: "bytes \<Rightarrow> nat" where
  "body_inner_len p = unat (from_le (take 2 (drop (46 + body_sender_len p) p)) :: u16)"

definition body_head_ok :: "bytes \<Rightarrow> bytes \<Rightarrow> bool" where
  "body_head_ok room p \<longleftrightarrow> 49 \<le> length p \<and> take 4 p = MAGIC \<and> take 16 (drop 5 p) = room \<and>
     1 \<le> body_sender_len p \<and> body_sender_len p \<le> 64 \<and> 48 + body_sender_len p \<le> length p"

definition body_tail_ok :: "bytes \<Rightarrow> bool" where
  "body_tail_ok p \<longleftrightarrow> utf8_valid (take (body_sender_len p) (drop 22 p)) \<and>
     body_inner_len p \<noteq> 0 \<and> body_inner_len p \<le> 8192 \<and> length p = 48 + body_sender_len p + body_inner_len p"

definition body_read :: "bytes \<Rightarrow> u8 \<times> VerifiedControl" where
  "body_read p =
     (let k = body_sender_len p in
      (p ! 4, \<lparr>vc_sender_id = take k (drop 22 p), vc_epoch = from_le (take 8 (drop (22 + k) p)),
               vc_sequence = from_le (take 8 (drop (30 + k) p)),
               vc_issued_at_ms = from_le (take 8 (drop (38 + k) p)),
               vc_inner_frame = drop (48 + k) p\<rparr>))"

lemma parse_body_head:
  "\<not> body_head_ok room p \<Longrightarrow> parse_body room p = Err ()"
  unfolding body_head_ok_def body_sender_len_def parse_body_def body_consts Let_def
  by (cases "49 \<le> length p"; cases "48 + unat (p ! 21) \<le> length p")
    (auto cong: bind_outcome_weak_cong)

lemma parse_body_tail:
  assumes "body_head_ok room p"
  shows "parse_body room p = (if body_tail_ok p then Ok (body_read p) else Err ())"
proof -
  define k where "k = body_sender_len p"
  have k: "unat (p ! 21) = k" by (simp add: k_def body_sender_len_def)
  have h: "49 \<le> length p" "take 4 p = MAGIC" "take 16 (drop 5 p) = room" "1 \<le> k" "k \<le> 64"
    "48 + k \<le> length p"
    using assms by (simp_all add: body_head_ok_def k_def)
  define n where "n = unat (from_le (take 2 (drop (46 + k) p)) :: u16)"
  have inner: "slice_from p (22 + unat (p ! 21) + 26) = Ok (drop (48 + k) p)"
    using h by (simp add: k)
  have step: "parse_body room p =
      (if n = 0 \<or> 8192 < n \<or> length p \<noteq> 48 + k + n then Err () else Ok (body_read p))"
    if "utf8_valid (take k (drop 22 p))"
    unfolding body_read_def k_def [symmetric] n_def Let_def parse_body_def body_consts
    using h that by (simp add: k cong: bind_outcome_weak_cong split del: if_split)
      (rule if_cong [OF refl refl], simp only: inner bind_outcome.simps)
  have "parse_body room p = Err ()" if "\<not> utf8_valid (take k (drop 22 p))"
    unfolding parse_body_def body_consts Let_def
    using h that by (simp add: k cong: bind_outcome_weak_cong split del: if_split)
  with step show ?thesis
    unfolding body_tail_ok_def body_inner_len_def k_def [symmetric] n_def [symmetric]
    by (cases "utf8_valid (take k (drop 22 p))") auto
qed

lemma parse_body_closed:
  "parse_body room p = (if body_head_ok room p \<and> body_tail_ok p then Ok (body_read p) else Err ())"
  by (cases "body_head_ok room p") (simp_all add: parse_body_head parse_body_tail)

lemma parse_body_no_panic: "parse_body room p \<noteq> Panic"
  by (simp add: parse_body_closed)

lemma parse_body_append:
  assumes "length m = 4" "length r = 16" "length s = unat l" "length e = 8" "length q = 8"
    "length t = 8" "length n = 2"
  shows "parse_body room (m @ [bop] @ r @ [l] @ s @ e @ q @ t @ n @ i) =
    (if m = MAGIC \<and> r = room \<and> 1 \<le> unat l \<and> unat l \<le> 64 \<and> utf8_valid s \<and>
        length i = unat (from_le n :: u16) \<and> i \<noteq> [] \<and> length i \<le> 8192
     then Ok (bop, \<lparr>vc_sender_id = s, vc_epoch = from_le e, vc_sequence = from_le q,
                     vc_issued_at_ms = from_le t, vc_inner_frame = i\<rparr>) else Err ())"
proof -
  define p where "p = m @ [bop] @ r @ [l] @ s @ e @ q @ t @ n @ i"
  define z where "z = m @ [bop] @ r @ [l] @ s"
  have z: "length z = 22 + unat l" "p = z @ e @ q @ t @ n @ i" using assms by (simp_all add: z_def p_def)
  have f: "length p = 48 + unat l + length i" "take 4 p = m" "take 16 (drop 5 p) = r" "p ! 21 = l"
    "p ! 4 = bop" "take (unat l) (drop 22 p) = s"
    using assms by (simp_all add: p_def nth_append)
  have g: "take 8 (drop (22 + unat l) p) = e" "take 8 (drop (30 + unat l) p) = q"
    "take 8 (drop (38 + unat l) p) = t" "take 2 (drop (46 + unat l) p) = n" "drop (48 + unat l) p = i"
    using assms z(1) by (simp_all add: z(2))
  have k: "body_sender_len p = unat l" by (simp add: body_sender_len_def f)
  have "body_head_ok room p \<longleftrightarrow> m = MAGIC \<and> r = room \<and> 1 \<le> unat l \<and> unat l \<le> 64 \<and> 1 \<le> unat l + length i"
    unfolding body_head_ok_def k f by auto
  moreover have "body_tail_ok p \<longleftrightarrow> utf8_valid s \<and> length i = unat (from_le n :: u16) \<and> i \<noteq> [] \<and> length i \<le> 8192"
    unfolding body_tail_ok_def body_inner_len_def k f g by (cases i) auto
  moreover have "body_read p = (bop, \<lparr>vc_sender_id = s, vc_epoch = from_le e, vc_sequence = from_le q,
      vc_issued_at_ms = from_le t, vc_inner_frame = i\<rparr>)"
    unfolding body_read_def k f g Let_def ..
  ultimately show ?thesis unfolding p_def [symmetric] parse_body_closed by auto
qed

lemma parse_body_length:
  assumes "parse_body room p = Ok r"
  shows "49 \<le> length p" and "48 + unat (p ! 21) \<le> length p"
proof -
  have "body_head_ok room p" using assms parse_body_head by fastforce
  then show "49 \<le> length p" and "48 + unat (p ! 21) \<le> length p"
    by (simp_all add: body_head_ok_def body_sender_len_def)
qed

lemma take_drop_obtain:
  assumes "n \<le> length p"
  obtains x y where "p = x @ y" "length x = n"
  using assms that [of "take n p" "drop n p"] by simp

lemma parse_body_split:
  assumes "parse_body room p = Ok r"
  obtains m bop rm l s e q t n i where "p = m @ [bop] @ rm @ [l] @ s @ e @ q @ t @ n @ i"
    "length m = 4" "length rm = 16" "length s = unat l" "length e = 8" "length q = 8"
    "length t = 8" "length n = 2"
proof -
  have len: "49 \<le> length p" "22 + unat (p ! 21) + 26 \<le> length p"
    using parse_body_length [OF assms] by simp_all
  from len(1) obtain m p1 where 1: "p = m @ p1" "length m = 4" using take_drop_obtain [of 4 p] by auto
  then obtain bop p2 where 2: "p1 = bop # p2" using len(1) by (cases p1) auto
  then obtain rm p3 where 3: "p2 = rm @ p3" "length rm = 16"
    using len(1) 1 take_drop_obtain [of 16 p2] by auto
  then obtain l p4 where 4: "p3 = l # p4" using len(1) 1 2 by (cases p3) auto
  have pl: "p ! 21 = l" using 1 2 3 4 by (simp add: nth_append)
  have "unat l \<le> length p4" using len(2) 1 2 3 4 pl by simp
  then obtain s p5 where 5: "p4 = s @ p5" "length s = unat l" using take_drop_obtain by blast
  have "26 \<le> length p5" using len(2) 1 2 3 4 5 pl by simp
  then obtain e p6 where 6: "p5 = e @ p6" "length e = 8" using take_drop_obtain [of 8 p5] by auto
  with \<open>26 \<le> length p5\<close> obtain q p7 where 7: "p6 = q @ p7" "length q = 8"
    using take_drop_obtain [of 8 p6] by auto
  with 6 \<open>26 \<le> length p5\<close> obtain t p8 where 8: "p7 = t @ p8" "length t = 8"
    using take_drop_obtain [of 8 p7] by auto
  with 6 7 \<open>26 \<le> length p5\<close> obtain n i where 9: "p8 = n @ i" "length n = 2"
    using take_drop_obtain [of 2 p8] by auto
  show ?thesis
    by (rule that [of m bop rm l s e q t n i]) (use 1 2 3 4 5 6 7 8 9 in simp_all)
qed

text \<open>The fields a body may carry.\<close>

definition body_fields_ok :: "VerifiedControl \<Rightarrow> bool" where
  "body_fields_ok v \<longleftrightarrow>
     1 \<le> length (vc_sender_id v) \<and> length (vc_sender_id v) \<le> 64 \<and> utf8_valid (vc_sender_id v) \<and>
     vc_inner_frame v \<noteq> [] \<and> length (vc_inner_frame v) \<le> 8192"

definition body_of :: "bytes \<Rightarrow> u8 \<Rightarrow> VerifiedControl \<Rightarrow> bytes" where
  "body_of room bop v =
     control_body room bop (vc_sender_id v) (vc_epoch v) (vc_sequence v) (vc_issued_at_ms v) (vc_inner_frame v)"

lemma parse_body_exact:
  assumes "length room = 16"
  shows "parse_body room p = Ok (bop, v) \<longleftrightarrow> body_fields_ok v \<and> p = body_of room bop v"
proof
  assume ok: "parse_body room p = Ok (bop, v)"
  from parse_body_split [OF this] obtain m b' rm l s e q t n i where
    p: "p = m @ [b'] @ rm @ [l] @ s @ e @ q @ t @ n @ i" and
    len: "length m = 4" "length rm = 16" "length s = unat l" "length e = 8" "length q = 8"
      "length t = 8" "length n = 2" by metis
  from ok [unfolded p parse_body_append [OF len]] have
    f: "m = MAGIC" "rm = room" "1 \<le> unat l" "unat l \<le> 64" "utf8_valid s"
      "length i = unat (from_le n :: u16)" "i \<noteq> []" "length i \<le> 8192" "b' = bop"
      "v = \<lparr>vc_sender_id = s, vc_epoch = from_le e, vc_sequence = from_le q,
            vc_issued_at_ms = from_le t, vc_inner_frame = i\<rparr>"
    by (auto split: if_splits)
  moreover have "word_of_nat (length s) = l" by (simp add: len(3))
  moreover have "to_le 2 (word_of_nat (length i) :: u16) = n"
    using to_le_from_le_length [OF len(7), where 'a = 16] f(6) by simp
  ultimately show "body_fields_ok v \<and> p = body_of room bop v"
    using len(3) to_le_from_le_length [OF len(4), where 'a = 64]
      to_le_from_le_length [OF len(5), where 'a = 64] to_le_from_le_length [OF len(6), where 'a = 64]
    by (simp add: body_fields_ok_def body_of_def control_body_def p)
next
  assume r: "body_fields_ok v \<and> p = body_of room bop v"
  then show "parse_body room p = Ok (bop, v)"
    using assms parse_body_append [of MAGIC room "vc_sender_id v" "word_of_nat (length (vc_sender_id v))"
        "to_le 8 (vc_epoch v)" "to_le 8 (vc_sequence v)" "to_le 8 (vc_issued_at_ms v)"
        "to_le 2 (word_of_nat (length (vc_inner_frame v)) :: u16)" room bop "vc_inner_frame v"]
    by (simp add: body_of_def control_body_def body_fields_ok_def MAGIC_def)
qed

section \<open>Envelopes\<close>

lemma from_le_pair: "unat (from_le [lo, hi] :: u16) = unat lo OR push_bit 8 (unat hi)"
  by (rule bit_eqI) (auto simp: bit_simps dest: bit_imp_le_length)

lemma parse_tlv_exact_iff:
  "parse_tlv_exact bs = Some d \<longleftrightarrow>
     is_tlv_opcode (dc_opcode d) \<and> length (dc_payload d) < 65536 \<and> bs = encode_tlv (dc_opcode d) (dc_payload d)"
proof
  assume p: "parse_tlv_exact bs = Some d"
  then have "3 \<le> length bs" by (auto simp: parse_tlv_exact_def split: if_splits)
  then obtain op lo hi r where bs: "bs = op # lo # hi # r" by (metis Suc_le_length_iff numeral_3_eq_3)
  with p have "\<not> op < 0x10" "length r = unat lo OR push_bit 8 (unat hi)"
    "d = \<lparr>dc_opcode = op, dc_payload = r\<rparr>"
    by (auto simp: parse_tlv_exact_def from_le_pair Let_def simp del: from_le.simps split: if_splits)
  with bs show "is_tlv_opcode (dc_opcode d) \<and> length (dc_payload d) < 65536 \<and>
      bs = encode_tlv (dc_opcode d) (dc_payload d)"
    using tlv_len_inverse [of lo hi] by (auto simp: encode_tlv_def tlv_len_bytes is_tlv_opcode_def)
next
  assume "is_tlv_opcode (dc_opcode d) \<and> length (dc_payload d) < 65536 \<and>
      bs = encode_tlv (dc_opcode d) (dc_payload d)"
  then show "parse_tlv_exact bs = Some d"
    by (auto simp: parse_tlv_exact_def encode_tlv_def tlv_len_bytes from_le_pair tlv_len_read
        is_tlv_opcode_def Let_def simp del: from_le.simps)
qed

text \<open>The shape of an envelope on the wire.\<close>

definition envelope_of :: "u8 \<Rightarrow> bytes \<Rightarrow> bytes \<Rightarrow> bytes" where
  "envelope_of bop nonce ct = encode_tlv OP_AUTHENTICATED ([VERSION, bop] @ nonce @ ct)"

lemma op_authenticated_tlv [simp]: "is_tlv_opcode OP_AUTHENTICATED"
  by (simp add: is_tlv_opcode_def OP_AUTHENTICATED_def)

lemma envelope_split:
  "parse_tlv_exact env = Some outer \<and> dc_opcode outer = OP_AUTHENTICATED \<and>
     30 \<le> length (dc_payload outer) \<and> dc_payload outer ! 0 = VERSION \<and>
     bop = dc_payload outer ! 1 \<and> nonce = take 12 (drop 2 (dc_payload outer)) \<and> ct = drop 14 (dc_payload outer) \<longleftrightarrow>
   outer = \<lparr>dc_opcode = OP_AUTHENTICATED, dc_payload = [VERSION, bop] @ nonce @ ct\<rparr> \<and>
     env = envelope_of bop nonce ct \<and> length nonce = 12 \<and> 16 \<le> length ct \<and> length ct < 65522"
  (is "?L \<longleftrightarrow> ?R")
proof
  assume L: ?L
  then obtain v b r where p: "dc_payload outer = v # b # r" "28 \<le> length r"
    by (cases "dc_payload outer"; cases "tl (dc_payload outer)") auto
  have "r = take 12 r @ drop 12 r" by simp
  with L p show ?R by (cases outer) (auto simp: parse_tlv_exact_iff envelope_of_def)
next
  assume R: ?R
  then have "parse_tlv_exact env = Some outer"
    by (subst parse_tlv_exact_iff) (simp add: envelope_of_def)
  with R show ?L by simp
qed

section \<open>The replay window against its specification\<close>

text \<open>
  A state describes a set \<open>A\<close> of accepted sequence numbers: the highest is its maximum, and bit
  \<open>i\<close> of the map says whether \<open>highest - i\<close> is in it.
\<close>

definition replay_inv :: "nat set \<Rightarrow> ReplayState \<Rightarrow> bool" where
  "replay_inv A st \<longleftrightarrow>
     unat (rs_highest st) \<in> A \<and> (\<forall>a \<in> A. 0 < a \<and> a \<le> unat (rs_highest st)) \<and>
     (\<forall>i < 64. i < unat (rs_highest st) \<longrightarrow> (bit (rs_bitmap st) i \<longleftrightarrow> unat (rs_highest st) - i \<in> A))"

lemma and_single_bit: "(w :: u64) AND push_bit n 1 \<noteq> 0 \<longleftrightarrow> n < 64 \<and> bit w n"
proof -
  have "bit (w AND push_bit n 1) i \<longleftrightarrow> i = n \<and> n < 64 \<and> bit w n" for i
    by (auto simp: bit_simps)
  moreover have "v \<noteq> 0 \<longleftrightarrow> (\<exists>i. bit v i)" for v :: u64 by (metis bit_0_eq bit_word_eqI bot_apply bot_bool_def)
  ultimately show ?thesis by blast
qed

lemma replay_inv_initial: "sequence \<noteq> 0 \<Longrightarrow> replay_inv {unat sequence} \<lparr>rs_highest = sequence, rs_bitmap = 1\<rparr>"
  by (auto simp: replay_inv_def bit_1_iff unat_gt_0)

lemma state_accept_advance:
  assumes "replay_inv A st" and "rs_highest st < sequence"
  shows "fst (state_accept st sequence)"
    and "replay_inv (insert (unat sequence) A) (snd (state_accept st sequence))"
proof -
  define h where "h = unat (rs_highest st)"
  have lt: "h < unat sequence" using assms(2) by (simp add: h_def word_less_nat_alt)
  have sh: "unat (sequence - rs_highest st) = unat sequence - h"
    using assms(2) by (simp add: h_def unat_sub_if' word_less_nat_alt)
  have A: "h \<in> A" "\<And>a. a \<in> A \<Longrightarrow> 0 < a \<and> a \<le> h"
    "\<And>i. i < 64 \<Longrightarrow> i < h \<Longrightarrow> bit (rs_bitmap st) i \<longleftrightarrow> h - i \<in> A"
    using assms(1) by (auto simp: replay_inv_def h_def)
  show "fst (state_accept st sequence)" using assms(2) by (simp add: state_accept_def Let_def)
  define b where "b = rs_bitmap (snd (state_accept st sequence))"
  have b: "bit b i \<longleftrightarrow> i = 0 \<or> unat sequence - h \<le> i \<and> bit (rs_bitmap st) (i - (unat sequence - h))"
    if "i < 64" for i
    using that assms(2) sh
    by (auto simp: b_def state_accept_def Let_def REPLAY_BITS_def word_le_nat_alt bit_simps bit_1_iff)
  have "bit b i \<longleftrightarrow> unat sequence - i \<in> insert (unat sequence) A" if i: "i < 64" "i < unat sequence" for i
  proof (cases "unat sequence - h \<le> i")
    case True
    then have "i - (unat sequence - h) < h" "h - (i - (unat sequence - h)) = unat sequence - i"
      using i lt by auto
    then show ?thesis using b [OF i(1)] A(3) [of "i - (unat sequence - h)"] True i lt by auto
  next
    case False
    then show ?thesis using b [OF i(1)] A(2) [of "unat sequence - i"] i by auto
  qed
  moreover have "rs_highest (snd (state_accept st sequence)) = sequence"
    using assms(2) by (simp add: state_accept_def Let_def)
  moreover have "\<forall>a \<in> insert (unat sequence) A. 0 < a \<and> a \<le> unat sequence"
    using A(2) lt by fastforce
  ultimately show "replay_inv (insert (unat sequence) A) (snd (state_accept st sequence))"
    by (auto simp: replay_inv_def b_def)
qed

lemma state_accept_behind:
  assumes "replay_inv A st" and "\<not> rs_highest st < sequence" and "sequence \<noteq> 0"
  shows "fst (state_accept st sequence) \<longleftrightarrow> unat sequence \<notin> A \<and> unat (rs_highest st) < unat sequence + 64"
    and "replay_inv (if fst (state_accept st sequence) then insert (unat sequence) A else A)
      (snd (state_accept st sequence))"
    and "\<not> fst (state_accept st sequence) \<Longrightarrow> snd (state_accept st sequence) = st"
proof -
  define h where "h = unat (rs_highest st)"
  have le: "unat sequence \<le> h" using assms(2) by (simp add: h_def word_less_nat_alt)
  have pos: "0 < unat sequence" using assms(3) by (simp add: unat_gt_0)
  have bh: "unat (rs_highest st - sequence) = h - unat sequence"
    using assms(2) by (simp add: h_def unat_sub_if' word_less_nat_alt)
  have A: "h \<in> A" "\<And>a. a \<in> A \<Longrightarrow> 0 < a \<and> a \<le> h"
    "\<And>i. i < 64 \<Longrightarrow> i < h \<Longrightarrow> bit (rs_bitmap st) i \<longleftrightarrow> h - i \<in> A"
    using assms(1) by (auto simp: replay_inv_def h_def)
  have sa: "state_accept st sequence =
      (if 64 \<le> h - unat sequence \<or> bit (rs_bitmap st) (h - unat sequence) then (False, st)
       else (True, st\<lparr>rs_bitmap := rs_bitmap st OR push_bit (h - unat sequence) 1\<rparr>))"
    using assms(2) bh and_single_bit [of "rs_bitmap st" "h - unat sequence"]
    by (auto simp: state_accept_def Let_def REPLAY_BITS_def word_le_nat_alt)
  have mem: "bit (rs_bitmap st) (h - unat sequence) \<longleftrightarrow> unat sequence \<in> A" if "\<not> 64 \<le> h - unat sequence"
    using A(3) [of "h - unat sequence"] that le pos by auto
  show "fst (state_accept st sequence) \<longleftrightarrow> unat sequence \<notin> A \<and> unat (rs_highest st) < unat sequence + 64"
    using mem le by (cases "64 \<le> h - unat sequence") (auto simp: sa h_def [symmetric])
  show "\<not> fst (state_accept st sequence) \<Longrightarrow> snd (state_accept st sequence) = st"
    by (auto simp: sa)
  show "replay_inv (if fst (state_accept st sequence) then insert (unat sequence) A else A)
      (snd (state_accept st sequence))"
  proof (cases "fst (state_accept st sequence)")
    case False
    with assms(1) show ?thesis by (auto simp: sa)
  next
    case True
    then have st': "snd (state_accept st sequence) = st\<lparr>rs_bitmap := rs_bitmap st OR push_bit (h - unat sequence) 1\<rparr>"
      by (auto simp: sa split: if_splits)
    have "bit (rs_bitmap st OR push_bit (h - unat sequence) 1) i \<longleftrightarrow> h - i \<in> insert (unat sequence) A"
      if "i < 64" "i < h" for i
      using that A(3) [OF that] le by (auto simp: bit_simps bit_1_iff)
    with True st' A(1,2) le pos show ?thesis by (auto simp: replay_inv_def h_def [symmetric])
  qed
qed

text \<open>The specification of a known sender: accept what is new and not older than 64.\<close>

lemma state_accept_spec:
  assumes "replay_inv A st" and "sequence \<noteq> 0"
  shows "fst (state_accept st sequence) \<longleftrightarrow> unat sequence \<notin> A \<and> unat (rs_highest st) < unat sequence + 64"
    and "replay_inv (if fst (state_accept st sequence) then insert (unat sequence) A else A)
      (snd (state_accept st sequence))"
proof -
  have "unat sequence \<notin> A" if "rs_highest st < sequence"
    using that assms(1) by (auto simp: replay_inv_def word_less_nat_alt)
  then show "fst (state_accept st sequence) \<longleftrightarrow> unat sequence \<notin> A \<and> unat (rs_highest st) < unat sequence + 64"
    using state_accept_advance [OF assms(1), of sequence] state_accept_behind [OF assms(1) _ assms(2)]
    by (cases "rs_highest st < sequence") (auto simp: word_less_nat_alt)
  show "replay_inv (if fst (state_accept st sequence) then insert (unat sequence) A else A)
      (snd (state_accept st sequence))"
    using state_accept_advance [OF assms(1), of sequence] state_accept_behind(2) [OF assms(1) _ assms(2)]
    by (cases "rs_highest st < sequence") auto
qed

lemma state_accept_reject: "\<not> fst (state_accept st q) \<Longrightarrow> snd (state_accept st q) = st"
  by (auto simp: state_accept_def Let_def split: if_splits)

lemma replay_key_inject [simp]: "replay_key s e = replay_key s' e' \<longleftrightarrow> s = s' \<and> e = e'"
proof -
  have z: "0 \<notin> set (dec_digits n)" for n using dec_digits_range [of 0 n] by auto
  show ?thesis
    unfolding replay_key_def split_last_inject [OF z z] by (auto simp: word_unat_eq_iff)
qed

text \<open>
  The whole window after accepting a list of (sender, epoch, sequence) triples, while at most 256
  different (sender, epoch) pairs have been seen: one state per pair, each describing the sequence
  numbers accepted for it.
\<close>

type_synonym control_id = "rstring \<times> u64 \<times> u64"

definition pairs_of :: "control_id list \<Rightarrow> (rstring \<times> u64) set" where
  "pairs_of acc = (\<lambda>(s, e, q). (s, e)) ` set acc"

definition window_inv :: "control_id list \<Rightarrow> ReplayWindow \<Rightarrow> bool" where
  "window_inv acc w \<longleftrightarrow>
     distinct acc \<and> hm_wf (rw_states w) \<and>
     dom (map_of (rw_states w)) = (\<lambda>(s, e). replay_key s e) ` pairs_of acc \<and>
     (\<forall>s e st. hm_get (rw_states w) (replay_key s e) = Some st \<longrightarrow>
        replay_inv {unat q | q. (s, e, q) \<in> set acc} st)"

lemma pairs_of_snoc: "pairs_of (acc @ [(s, e, q)]) = insert (s, e) (pairs_of acc)"
  by (auto simp: pairs_of_def)

lemma card_pairs_of_mono: "set a \<subseteq> set b \<Longrightarrow> card (pairs_of a) \<le> card (pairs_of b)"
  unfolding pairs_of_def by (rule card_mono) (simp, rule image_mono)

lemma window_inv_size: "window_inv acc w \<Longrightarrow> length (rw_states w) = card (pairs_of acc)"
proof -
  assume w: "window_inv acc w"
  then have "length (rw_states w) = card (dom (map_of (rw_states w)))"
    using distinct_card [of "map fst (rw_states w)"]
    by (simp add: window_inv_def dom_map_of_conv_image_fst)
  also have "\<dots> = card (pairs_of acc)"
    using w by (simp add: window_inv_def) (rule card_image, auto simp: inj_on_def)
  finally show ?thesis .
qed

lemma accept_known:
  assumes w: "window_inv acc w" and "e \<noteq> 0" "q \<noteq> 0"
    and st: "hm_get (rw_states w) (replay_key s e) = Some st" and a: "accept w s e q = (ok, w')"
  shows "window_inv (if ok then acc @ [(s, e, q)] else acc) w'"
proof -
  let ?A = "{unat q | q. (s, e, q) \<in> set acc}"
  have inv: "replay_inv ?A st" using w st by (simp add: window_inv_def)
  obtain st' where st': "state_accept st q = (ok, st')"
    and w': "w' = w\<lparr>rw_states := hm_insert (replay_key s e) st' (rw_states w)\<rparr>"
    using a assms(2,3) st by (auto simp: accept_def Let_def split: prod.splits)
  from state_accept_spec [OF inv \<open>q \<noteq> 0\<close>] st' have
    new: "ok \<Longrightarrow> (s, e, q) \<notin> set acc" and
    inv': "replay_inv (if ok then insert (unat q) ?A else ?A) st'" by auto
  have mem: "(s, e) \<in> pairs_of acc"
  proof -
    have "replay_key s e \<in> (\<lambda>(s, e). replay_key s e) ` pairs_of acc"
      using w st by (auto simp: window_inv_def)
    then show ?thesis by auto
  qed
  have "{unat r | r. (s, e, r) \<in> set (acc @ [(s, e, q)])} = insert (unat q) ?A" by auto
  moreover have "{unat r | r. (s1, e1, r) \<in> set (acc @ [(s, e, q)])} = {unat r | r. (s1, e1, r) \<in> set acc}"
    if "(s1, e1) \<noteq> (s, e)" for s1 e1 using that by auto
  ultimately show ?thesis
    using w inv' new mem unfolding window_inv_def w'
    by (auto simp: pairs_of_snoc split: if_splits)
qed

lemma accept_new:
  assumes w: "window_inv acc w" and "e \<noteq> 0" "q \<noteq> 0"
    and none: "hm_get (rw_states w) (replay_key s e) = None" and a: "accept w s e q = (ok, w')"
    and small: "card (pairs_of (acc @ [(s, e, q)])) \<le> MAX_REPLAY_SENDERS"
  shows "ok" and "window_inv (acc @ [(s, e, q)]) w'"
proof -
  have fresh: "(s, e) \<notin> pairs_of acc"
    using w none by (force simp: window_inv_def dom_def)
  then have "length (rw_states w) < MAX_REPLAY_SENDERS"
    using small window_inv_size [OF w] by (simp add: pairs_of_snoc) (simp add: pairs_of_def)
  then have w': "ok" "w' = \<lparr>rw_states = hm_insert (replay_key s e) \<lparr>rs_highest = q, rs_bitmap = 1\<rparr> (rw_states w),
      rw_order = rw_order w @ [replay_key s e]\<rparr>"
    using a assms(2,3) none by (auto simp: accept_def Let_def)
  show ok by (rule w')
  have only: "{unat r | r. (s, e, r) \<in> set (acc @ [(s, e, q)])} = {unat q}"
    using fresh by (force simp: pairs_of_def)
  have other: "{unat r | r. (s1, e1, r) \<in> set (acc @ [(s, e, q)])} = {unat r | r. (s1, e1, r) \<in> set acc}"
    if "(s1, e1) \<noteq> (s, e)" for s1 e1 using that by auto
  have "(s, e, q) \<notin> set acc" using fresh by (force simp: pairs_of_def)
  with w only other show "window_inv (acc @ [(s, e, q)]) w'"
    using replay_inv_initial [OF \<open>q \<noteq> 0\<close>] unfolding window_inv_def w'
    by (auto simp: pairs_of_snoc split: if_splits)
qed

lemma accept_step:
  assumes "window_inv acc w" and "accept w s e q = (ok, w')"
    and "ok \<Longrightarrow> card (pairs_of (acc @ [(s, e, q)])) \<le> MAX_REPLAY_SENDERS"
  shows "window_inv (if ok then acc @ [(s, e, q)] else acc) w'"
proof (cases "e = 0 \<or> q = 0")
  case True
  with assms show ?thesis by (auto simp: accept_def)
next
  case False
  show ?thesis
  proof (cases "hm_get (rw_states w) (replay_key s e)")
    case None
    moreover from None assms(2) False have ok by (auto simp: accept_def Let_def)
    ultimately show ?thesis using accept_new [OF assms(1) _ _ _ assms(2) assms(3)] False by auto
  next
    case (Some st)
    then show ?thesis using accept_known [OF assms(1) _ _ _ assms(2)] False by blast
  qed
qed

section \<open>Opening envelopes\<close>

definition id_of :: "VerifiedControl \<Rightarrow> control_id" where
  "id_of v = (vc_sender_id v, vc_epoch v, vc_sequence v)"

lemma open_Ok:
  assumes "open_envelope dec c env now = (c', Ok v)"
  shows "\<exists>w. accept (ca_replay c) (vc_sender_id v) (vc_epoch v) (vc_sequence v) = (True, w) \<and>
    c' = c\<lparr>ca_replay := w\<rparr>"
  using assms
  by (auto simp: open_envelope_def Let_def split: option.splits if_splits outcome.splits prod.splits)

lemma open_not_Ok:
  assumes "open_envelope dec c env now = (c', r)" and "\<And>v. r \<noteq> Ok v"
  shows "c' = c \<or> (\<exists>s e q w. accept (ca_replay c) s e q = (False, w) \<and> c' = c\<lparr>ca_replay := w\<rparr>)"
  using assms
  by (auto simp: open_envelope_def Let_def split: option.splits if_splits outcome.splits prod.splits) blast

text \<open>Opening and classifying never panic, and change at most the replay window.\<close>

lemma open_envelope_no_panic: "open_envelope dec c bs now \<noteq> (c', Panic)"
  using parse_body_no_panic
  by (auto simp: open_envelope_def Let_def split: option.splits outcome.splits prod.splits)

lemma open_envelope_window: "open_envelope dec c bs now = (c', r) \<Longrightarrow> \<exists>w. c' = c\<lparr>ca_replay := w\<rparr>"
  by (auto simp: open_envelope_def Let_def split: option.splits if_splits outcome.splits prod.splits
      intro: exI [of _ "ca_replay c"])

lemma classify_no_panic: "classify_inbound dec codec bs now \<noteq> (codec', Panic)"
  using open_envelope_no_panic
  by (auto simp: classify_inbound_def Let_def split: option.splits outcome.splits prod.splits)

lemma classify_window:
  assumes "classify_inbound dec codec bs now = (codec', r)"
  shows "\<exists>w. codec' = map_option (ca_replay_update (\<lambda>_. w)) codec"
proof (cases codec)
  case None
  with assms show ?thesis by (auto simp: classify_inbound_def Let_def split: if_splits)
next
  case (Some c)
  with assms consider "codec' = Some c" | r1 c1 where "open_envelope dec c bs now = (c1, r1)" "codec' = Some c1"
    by (auto simp: classify_inbound_def Let_def split: if_splits outcome.splits prod.splits)
  then show ?thesis
  proof cases
    case 1
    then show ?thesis using Some by (intro exI [of _ "ca_replay c"]) simp
  next
    case 2
    then show ?thesis using Some open_envelope_window [of dec c bs now] by fastforce
  qed
qed

lemma classify_Verified:
  assumes "classify_inbound dec codec bs now = (codec', Ok (Verified v))"
  shows "\<exists>c c'. codec = Some c \<and> codec' = Some c' \<and> open_envelope dec c bs now = (c', Ok v)"
  using assms by (auto simp: classify_inbound_def Let_def split: if_splits option.splits outcome.splits prod.splits)

text \<open>Opening a sequence of envelopes, each at its time of arrival.\<close>

definition open_arrival ::
  "aead_fun \<Rightarrow> ControlAuthCodec \<Rightarrow> bytes \<times> u64 \<Rightarrow> ControlAuthCodec \<times> (unit, VerifiedControl) outcome" where
  "open_arrival dec c x = open_envelope dec c (fst x) (snd x)"

definition verified :: "(unit, VerifiedControl) outcome list \<Rightarrow> VerifiedControl list" where
  "verified rs = List.map_filter (\<lambda>r. case r of Ok v \<Rightarrow> Some v | _ \<Rightarrow> None) rs"

lemma verified_simps [simp]:
  "verified [] = []" "verified (r # rs) = (case r of Ok v \<Rightarrow> v # verified rs | _ \<Rightarrow> verified rs)"
  by (auto simp: verified_def List.map_filter_def split: outcome.splits)

lemma run_open_window:
  assumes "window_inv acc (ca_replay c)"
    and "card (pairs_of (acc @ map id_of (verified (fst (run_calls (open_arrival dec) c xs)))))
      \<le> MAX_REPLAY_SENDERS"
  shows "distinct (acc @ map id_of (verified (fst (run_calls (open_arrival dec) c xs))))"
  using assms
proof (induction xs arbitrary: c acc)
  case Nil
  then show ?case by (simp add: window_inv_def)
next
  case (Cons x xs)
  obtain c1 r where o: "open_arrival dec c x = (c1, r)" by (cases "open_arrival dec c x")
  let ?vs = "verified (fst (run_calls (open_arrival dec) c1 xs))"
  show ?case
  proof (cases "\<exists>v. r = Ok v")
    case True
    then obtain v where r: "r = Ok v" by blast
    with open_Ok [of dec c "fst x" "snd x" c1 v] o obtain w where
      w: "accept (ca_replay c) (vc_sender_id v) (vc_epoch v) (vc_sequence v) = (True, w)"
      "c1 = c\<lparr>ca_replay := w\<rparr>" by (auto simp: open_arrival_def)
    have big: "card (pairs_of ((acc @ [id_of v]) @ map id_of ?vs)) \<le> MAX_REPLAY_SENDERS"
      using Cons.prems(2) o r by (simp add: prod.case_eq_if)
    have "card (pairs_of (acc @ [id_of v])) \<le> card (pairs_of ((acc @ [id_of v]) @ map id_of ?vs))"
      by (rule card_pairs_of_mono) auto
    with big accept_step [OF Cons.prems(1) w(1)] have "window_inv (acc @ [id_of v]) (ca_replay c1)"
      using w(2) by (simp add: id_of_def)
    from Cons.IH [OF this big] show ?thesis using o r by (simp add: prod.case_eq_if)
  next
    case False
    then have "window_inv acc (ca_replay c1)"
      using open_not_Ok [OF o [unfolded open_arrival_def]] accept_step [OF Cons.prems(1)] Cons.prems(1) by fastforce
    moreover have "verified (fst (run_calls (open_arrival dec) c (x # xs))) = ?vs"
      using o False by (auto simp: prod.case_eq_if split: outcome.splits)
    ultimately show ?thesis using Cons.IH [of acc c1] Cons.prems(2) by simp
  qed
qed

text \<open>The steps of a successful open, in terms of the envelope's parts.\<close>

lemma open_envelope_parts:
  assumes "length nonce = 12" "16 \<le> length ct" "length ct < 65522"
  shows "open_envelope dec c (envelope_of bop nonce ct) now =
    (case dec (ca_cipher c) nonce (outer_aad bop) ct of
       None \<Rightarrow> (c, Err ())
     | Some plaintext \<Rightarrow>
         (case parse_body (ca_room_binding c) plaintext of
            Panic \<Rightarrow> (c, Panic)
          | Err e \<Rightarrow> (c, Err e)
          | Ok (bound_opcode, v) \<Rightarrow>
              (case decode_control_frame (vc_inner_frame v) of
                 None \<Rightarrow> (c, Err ())
               | Some decoded \<Rightarrow>
                   if dc_opcode decoded \<noteq> bound_opcode \<or> dc_opcode decoded \<noteq> bop \<or>
                      dc_opcode decoded = OP_AUTHENTICATED then (c, Err ())
                   else if MAX_AGE_MS < envelope_age now (vc_issued_at_ms v) \<or>
                           envelope_age now (vc_issued_at_ms v) < - MAX_FUTURE_SKEW_MS then (c, Err ())
                   else (case accept (ca_replay c) (vc_sender_id v) (vc_epoch v) (vc_sequence v) of
                           (ok, w) \<Rightarrow> (c\<lparr>ca_replay := w\<rparr>, if ok then Ok v else Err ())))))"
proof -
  have "parse_tlv_exact (envelope_of bop nonce ct) =
      Some \<lparr>dc_opcode = OP_AUTHENTICATED, dc_payload = [VERSION, bop] @ nonce @ ct\<rparr>"
    using assms by (subst parse_tlv_exact_iff) (simp add: envelope_of_def)
  then show ?thesis using assms by (simp add: open_envelope_def Let_def)
qed

lemma open_Ok_envelope:
  assumes "open_envelope dec c env now = (c', Ok v)"
  obtains bop nonce ct where "env = envelope_of bop nonce ct" "length nonce = 12" "16 \<le> length ct"
    "length ct < 65522"
proof -
  from assms obtain outer where o: "parse_tlv_exact env = Some outer" "dc_opcode outer = OP_AUTHENTICATED"
    "30 \<le> length (dc_payload outer)" "dc_payload outer ! 0 = VERSION"
    by (auto simp: open_envelope_def Let_def split: option.splits if_splits)
  with envelope_split [of env outer "dc_payload outer ! 1" "take 12 (drop 2 (dc_payload outer))"
      "drop 14 (dc_payload outer)"] that show ?thesis by blast
qed

lemma accept_True_nonzero: "accept w s e q = (True, w') \<Longrightarrow> e \<noteq> 0 \<and> q \<noteq> 0"
  by (auto simp: accept_def split: if_splits)

lemma control_body_length:
  assumes "length room = 16" "length sender \<le> 64" "length inner \<le> 8192"
  shows "length (control_body room bop sender e q t inner) \<le> 8304"
  using assms by (simp add: control_body_def MAGIC_def)

lemma seal_open_exchange:
  assumes "aead_correct enc dec" and "aead_total enc"
    and "length (ca_room_binding a) = 16" and "ca_room_binding b = ca_room_binding a"
    and "ca_cipher b = ca_cipher a" and "ca_sender_id a \<noteq> []" and "length (ca_sender_id a) \<le> 64"
    and "utf8_valid (ca_sender_id a)" and "ca_tx_sequence a + 1 \<noteq> 0"
    and "decode_control_frame inner = Some d" and "0x10 \<le> dc_opcode d"
    and "dc_opcode d \<noteq> OP_AUTHENTICATED" and "length inner \<le> 8192" and "length nonce = 12"
    and "- 30000 \<le> envelope_age now t" and "envelope_age now t \<le> 120000"
    and "accept (ca_replay b) (ca_sender_id a) (ca_epoch a) (ca_tx_sequence a + 1) = (True, w)"
  shows "\<exists>env. seal_with_rng enc a inner t nonce =
        (a\<lparr>ca_tx_sequence := ca_tx_sequence a + 1\<rparr>, Inr env) \<and>
      open_envelope dec b env now = (b\<lparr>ca_replay := w\<rparr>,
        Ok \<lparr>vc_sender_id = ca_sender_id a, vc_epoch = ca_epoch a, vc_sequence = ca_tx_sequence a + 1,
            vc_issued_at_ms = t, vc_inner_frame = inner\<rparr>)"
proof -
  let ?v = "\<lparr>vc_sender_id = ca_sender_id a, vc_epoch = ca_epoch a, vc_sequence = ca_tx_sequence a + 1,
            vc_issued_at_ms = t, vc_inner_frame = inner\<rparr>"
  let ?body = "control_body (ca_room_binding a) (dc_opcode d) (ca_sender_id a) (ca_epoch a)
    (ca_tx_sequence a + 1) t inner"
  have len: "length ?body \<le> 8304" using control_body_length assms by blast
  with aead_totalD [OF assms(2), of ?body] obtain ct where
    ct: "enc (ca_cipher a) nonce (outer_aad (dc_opcode d)) ?body = Some ct" by fastforce
  note dec = aead_correctD [OF assms(1) ct]
  have "seal_with_rng enc a inner t nonce =
      (a\<lparr>ca_tx_sequence := ca_tx_sequence a + 1\<rparr>, Inr (envelope_of (dc_opcode d) nonce ct))"
    using assms(9-13) ct
    by (simp add: seal_with_rng_def Let_def MAX_INNER_BYTES_def envelope_of_def not_less)
  moreover have "inner \<noteq> []" using assms(10) by (auto simp: decode_control_frame_def)
  then have "parse_body (ca_room_binding b) ?body = Ok (dc_opcode d, ?v)"
    using assms parse_body_exact [of "ca_room_binding b" ?body "dc_opcode d" ?v]
    by (simp add: body_fields_ok_def body_of_def Suc_le_eq)
  then have "open_envelope dec b (envelope_of (dc_opcode d) nonce ct) now = (b\<lparr>ca_replay := w\<rparr>, Ok ?v)"
    using open_envelope_parts [OF assms(14), of ct] dec len assms
    by (simp add: MAX_AGE_MS_def MAX_FUTURE_SKEW_MS_def)
  ultimately show ?thesis by blast
qed

definition demo_codec :: "rstring \<Rightarrow> ControlAuthCodec" where
  "demo_codec sender = \<lparr>ca_cipher = replicate 32 7, ca_room_binding = replicate 16 3, ca_sender_id = sender,
     ca_epoch = 9, ca_tx_sequence = 0, ca_replay = ReplayWindow_default\<rparr>"

lemma demo_facts:
  "accept (ca_replay (demo_codec (ascii ''b''))) (ca_sender_id (demo_codec (ascii ''a''))) (ca_epoch (demo_codec (ascii ''a'')))
     (ca_tx_sequence (demo_codec (ascii ''a'')) + 1) = (True, snd (accept ReplayWindow_default (ascii ''a'') 9 1))"
  "decode_control_frame (encode_tlv OP_WAKE [1, 2]) = Some \<lparr>dc_opcode = OP_WAKE, dc_payload = [1, 2]\<rparr>"
  "utf8_valid (ca_sender_id (demo_codec (ascii ''a'')))"
  by (simp_all add: demo_codec_def accept_def ReplayWindow_default_def MAX_REPLAY_SENDERS_def Let_def
      decode_control_frame_def parse_tlv_exact_def encode_tlv_def OP_WAKE_def)
    (rule utf8_valid_ascii, simp add: ascii_def)

lemma demo_exchange:
  "\<exists>env w. seal_with_rng plain_enc (demo_codec (ascii ''a'')) (encode_tlv OP_WAKE [1, 2]) 500 (replicate 12 1) =
        ((demo_codec (ascii ''a''))\<lparr>ca_tx_sequence := 1\<rparr>, Inr env) \<and>
      open_envelope plain_dec (demo_codec (ascii ''b'')) env 600 = ((demo_codec (ascii ''b''))\<lparr>ca_replay := w\<rparr>,
        Ok \<lparr>vc_sender_id = ascii ''a'', vc_epoch = 9, vc_sequence = 1, vc_issued_at_ms = 500,
            vc_inner_frame = encode_tlv OP_WAKE [1, 2]\<rparr>)"
  using seal_open_exchange [OF plain_aead_correct plain_aead_total _ _ _ _ _ demo_facts(3) _ demo_facts(2) _ _ _ _ _ _ demo_facts(1),
      of "replicate 12 1" 600 500]
  by (auto simp: demo_codec_def OP_WAKE_def OP_AUTHENTICATED_def envelope_age_def)

section \<open>Properties\<close>

text \<open>
  A control frame sealed by one holder of the room key is opened by another:
  sealing succeeds for every v2 frame of at most 8 KiB, advances the sequence number by one, and the
  receiver recovers sender, epoch, sequence, time and the inner frame exactly, provided the clock
  difference is inside the accepted interval and the receiver's replay window accepts the number.
\<close>

theorem control_seal_open:
  assumes "aead_correct enc dec" and "aead_total enc"
    and "length (ca_room_binding a) = 16" and "ca_room_binding b = ca_room_binding a"
    and "ca_cipher b = ca_cipher a" and "ca_sender_id a \<noteq> []" and "length (ca_sender_id a) \<le> 64"
    and "utf8_valid (ca_sender_id a)" and "ca_tx_sequence a + 1 \<noteq> 0"
    and "decode_control_frame inner = Some d" and "0x10 \<le> dc_opcode d"
    and "dc_opcode d \<noteq> OP_AUTHENTICATED" and "length inner \<le> 8192" and "length nonce = 12"
    and "- 30000 \<le> envelope_age now t" and "envelope_age now t \<le> 120000"
    and "accept (ca_replay b) (ca_sender_id a) (ca_epoch a) (ca_tx_sequence a + 1) = (True, w)"
  shows "\<exists>env. seal_with_rng enc a inner t nonce =
        (a\<lparr>ca_tx_sequence := ca_tx_sequence a + 1\<rparr>, Inr env) \<and>
      open_envelope dec b env now = (b\<lparr>ca_replay := w\<rparr>,
        Ok \<lparr>vc_sender_id = ca_sender_id a, vc_epoch = ca_epoch a, vc_sequence = ca_tx_sequence a + 1,
            vc_issued_at_ms = t, vc_inner_frame = inner\<rparr>)"
  using assms by (rule seal_open_exchange)

theorem control_seal_open_witness:
  "\<exists>env w. seal_with_rng plain_enc (demo_codec (ascii ''a'')) (encode_tlv OP_WAKE [1, 2]) 500 (replicate 12 1) =
        ((demo_codec (ascii ''a''))\<lparr>ca_tx_sequence := 1\<rparr>, Inr env) \<and>
      open_envelope plain_dec (demo_codec (ascii ''b'')) env 600 = ((demo_codec (ascii ''b''))\<lparr>ca_replay := w\<rparr>,
        Ok \<lparr>vc_sender_id = ascii ''a'', vc_epoch = 9, vc_sequence = 1, vc_issued_at_ms = 500,
            vc_inner_frame = encode_tlv OP_WAKE [1, 2]\<rparr>)"
  using control_seal_open [OF plain_aead_correct plain_aead_total _ _ _ _ _ demo_facts(3) _ demo_facts(2) _ _ _ _ _ _ demo_facts(1),
      of "replicate 12 1" 600 500]
  by (auto simp: demo_codec_def OP_WAKE_def OP_AUTHENTICATED_def envelope_age_def)

text \<open>
  C3 (safety). Nothing gets in without the key: whatever bytes arrive, an accepted envelope is
  exactly the encryption, under this room's key, of a body that binds this room, the opcode of the
  inner frame, the sender, epoch, sequence and time that are reported; its age is between -30 s and
  120 s, its epoch and sequence are not zero, and the inner frame is not itself an envelope.
\<close>

theorem control_open_authentic:
  assumes "aead_canonical enc dec" and "length (ca_room_binding c) = 16"
    and "open_envelope dec c env now = (c', Ok v)"
  shows "\<exists>bop nonce ct. env = envelope_of bop nonce ct \<and> length nonce = 12 \<and>
    enc (ca_cipher c) nonce (outer_aad bop) (body_of (ca_room_binding c) bop v) = Some ct \<and>
    body_fields_ok v \<and> map_option dc_opcode (decode_control_frame (vc_inner_frame v)) = Some bop \<and>
    bop \<noteq> OP_AUTHENTICATED \<and> - 30000 \<le> envelope_age now (vc_issued_at_ms v) \<and>
    envelope_age now (vc_issued_at_ms v) \<le> 120000 \<and> vc_epoch v \<noteq> 0 \<and> vc_sequence v \<noteq> 0"
proof -
  from open_Ok_envelope [OF assms(3)] obtain bop nonce ct where
    env: "env = envelope_of bop nonce ct" and len: "length nonce = 12" "16 \<le> length ct" "length ct < 65522" .
  from assms(3) [unfolded env open_envelope_parts [OF len]] obtain p where
    d: "dec (ca_cipher c) nonce (outer_aad bop) ct = Some p" by (auto split: option.splits)
  with assms(3) [unfolded env open_envelope_parts [OF len]] obtain bnd u where
    b: "parse_body (ca_room_binding c) p = Ok (bnd, u)" by (auto split: outcome.splits)
  with d assms(3) [unfolded env open_envelope_parts [OF len]] have
    r: "u = v" "bnd = bop" "map_option dc_opcode (decode_control_frame (vc_inner_frame v)) = Some bop"
      "bop \<noteq> OP_AUTHENTICATED" "- 30000 \<le> envelope_age now (vc_issued_at_ms v)"
      "envelope_age now (vc_issued_at_ms v) \<le> 120000"
      "\<exists>w. accept (ca_replay c) (vc_sender_id v) (vc_epoch v) (vc_sequence v) = (True, w)"
    by (auto simp: MAX_AGE_MS_def MAX_FUTURE_SKEW_MS_def split: option.splits if_splits prod.splits)
  from b r(1,2) parse_body_exact [OF assms(2)] have "body_fields_ok v" "p = body_of (ca_room_binding c) bop v"
    by auto
  with r env len aead_canonicalD [OF assms(1) d] accept_True_nonzero show ?thesis by blast
qed

theorem control_open_authentic_witness:
  "\<exists>c' env v bop nonce ct. open_envelope plain_dec (demo_codec (ascii ''b'')) env 600 = (c', Ok v) \<and>
    env = envelope_of bop nonce ct \<and>
    plain_enc (replicate 32 7) nonce (outer_aad bop) (body_of (replicate 16 3) bop v) = Some ct"
proof -
  obtain env w where o: "open_envelope plain_dec (demo_codec (ascii ''b'')) env 600 = ((demo_codec (ascii ''b''))\<lparr>ca_replay := w\<rparr>,
        Ok \<lparr>vc_sender_id = ascii ''a'', vc_epoch = 9, vc_sequence = 1, vc_issued_at_ms = 500,
            vc_inner_frame = encode_tlv OP_WAKE [1, 2]\<rparr>)"
    using demo_exchange by blast
  have d: "length (ca_room_binding (demo_codec (ascii ''b''))) = 16" "ca_room_binding (demo_codec (ascii ''b'')) = replicate 16 3"
    "ca_cipher (demo_codec (ascii ''b'')) = replicate 32 7" by (simp_all add: demo_codec_def)
  from control_open_authentic [OF plain_aead_canonical d(1) o] o d show ?thesis by metis
qed



text \<open>
  C15 (refinement). The per-sender replay filter meets its specification on 64-bit words: with
  \<open>A\<close> the sequence numbers accepted so far, a nonzero number is accepted if and only if it is not in
  \<open>A\<close> and less than 64 behind the highest, and the updated state describes \<open>A\<close> with it added.
\<close>

theorem replay_state_refines:
  assumes "replay_inv A st" and "sequence \<noteq> 0"
  shows "fst (state_accept st sequence) = (unat sequence \<notin> A \<and> unat (rs_highest st) < unat sequence + 64) \<and>
    replay_inv (if fst (state_accept st sequence) then insert (unat sequence) A else A)
      (snd (state_accept st sequence))"
  using state_accept_spec [OF assms] by blast

theorem replay_state_refines_witness:
  "fst (state_accept \<lparr>rs_highest = 70, rs_bitmap = 1\<rparr> 7) \<and> \<not> fst (state_accept \<lparr>rs_highest = 70, rs_bitmap = 1\<rparr> 6)"
  using replay_state_refines [OF replay_inv_initial, of 70 7] replay_state_refines [OF replay_inv_initial, of 70 6]
  by simp



end
