(* ===== verification/Hybrid_Rekey.thy ===== *)
theory Hybrid_Rekey
  imports Protocol
begin

text \<open>
  The staged rekey of \<open>core/src/hybrid_rekey.rs\<close>: acceptance of confirmation tokens, the framing of
  handshake messages, and the four-way install policy as a two-party protocol over a network that may
  lose, delay and duplicate messages. SHA-256 is a parameter.
\<close>

section \<open>Tokens and frames\<close>

definition STAGED_TTL_MS :: u64 where "STAGED_TTL_MS = 15000"
definition CONFIRM_RETRY_MAX :: u8 where "CONFIRM_RETRY_MAX = 3"

definition token_for :: "(bytes \<Rightarrow> bytes) \<Rightarrow> bytes \<Rightarrow> bytes" where
  "token_for sha256 responder_message = sha256 responder_message"

definition confirm_acceptable :: "bytes option \<Rightarrow> bytes option \<Rightarrow> u64 \<Rightarrow> u64 \<Rightarrow> bool" where
  "confirm_acceptable staged_token confirm_token now staged_at =
     (case staged_token of
        None \<Rightarrow> False
      | Some staged \<Rightarrow> if staged = [] then False else
          (case confirm_token of
             None \<Rightarrow> False
           | Some confirm \<Rightarrow> if confirm = [] then False else
               if length confirm \<noteq> length staged then False
               else if now < staged_at \<or> STAGED_TTL_MS < sat_sub now staged_at then False
               else staged = confirm))"

definition ack_acceptable :: "bytes option \<Rightarrow> bytes option \<Rightarrow> u64 \<Rightarrow> u64 \<Rightarrow> bool" where
  "ack_acceptable staged_token ack_token now staged_at = confirm_acceptable staged_token ack_token now staged_at"

definition encode_hybrid_frame :: "u8 \<Rightarrow> u8 \<Rightarrow> bytes \<Rightarrow> bytes" where
  "encode_hybrid_frame op channel msg = encode_tlv op (channel # msg)"

definition parse_hybrid_frame :: "bytes \<Rightarrow> (u8 \<times> bytes) option" where
  "parse_hybrid_frame payload = (if payload = [] then None else Some (payload ! 0, drop 1 payload))"

definition is_hybrid_opcode :: "u8 \<Rightarrow> bool" where
  "is_hybrid_opcode op \<longleftrightarrow>
     op = OP_HYBRID_INIT \<or> op = OP_HYBRID_RESP \<or> op = OP_HYBRID_CONFIRM \<or> op = OP_HYBRID_CONFIRM_ACK"

section \<open>The install policy\<close>

record FourWayHybrid =
  initiator_staged :: bool
  responder_staged :: bool
  initiator_live :: bool
  responder_live :: bool
  ack_sent :: bool
  confirm_retries :: u8

definition FourWayHybrid_default :: FourWayHybrid where
  "FourWayHybrid_default =
     \<lparr>initiator_staged = False, responder_staged = False, initiator_live = False, responder_live = False,
      ack_sent = False, confirm_retries = 0\<rparr>"

definition on_init_at_responder :: "FourWayHybrid \<Rightarrow> FourWayHybrid" where
  "on_init_at_responder s = s\<lparr>responder_staged := True, responder_live := False, ack_sent := False\<rparr>"

definition on_resp_at_initiator :: "FourWayHybrid \<Rightarrow> FourWayHybrid" where
  "on_resp_at_initiator s = s\<lparr>initiator_staged := True, initiator_live := False, confirm_retries := 0\<rparr>"

definition on_confirm_at_responder :: "FourWayHybrid \<Rightarrow> FourWayHybrid \<times> bool" where
  "on_confirm_at_responder s =
     (if \<not> responder_staged s then (s, False) else (s\<lparr>ack_sent := True\<rparr>, True))"

definition on_confirm_retry_at_responder :: "FourWayHybrid \<Rightarrow> bool" where
  "on_confirm_retry_at_responder s \<longleftrightarrow> ack_sent s \<and> responder_staged s \<and> \<not> responder_live s"

definition on_ack_at_initiator :: "FourWayHybrid \<Rightarrow> FourWayHybrid \<times> bool" where
  "on_ack_at_initiator s =
     (if \<not> initiator_staged s then (s, False)
      else (s\<lparr>initiator_staged := False, initiator_live := True\<rparr>, True))"

definition on_peer_new_key_at_responder :: "FourWayHybrid \<Rightarrow> FourWayHybrid \<times> bool" where
  "on_peer_new_key_at_responder s =
     (if \<not> ack_sent s \<or> \<not> responder_staged s then (s, False)
      else (s\<lparr>responder_staged := False, responder_live := True\<rparr>, True))"

definition should_retry_confirm :: "FourWayHybrid \<Rightarrow> u64 \<Rightarrow> u64 \<Rightarrow> bool" where
  "should_retry_confirm s now staged_at \<longleftrightarrow>
     initiator_staged s \<and> \<not> initiator_live s \<and> confirm_retries s < CONFIRM_RETRY_MAX \<and>
     staged_at \<le> now \<and> sat_sub now staged_at \<le> STAGED_TTL_MS"

definition note_confirm_retry :: "FourWayHybrid \<Rightarrow> FourWayHybrid" where
  "note_confirm_retry s = s\<lparr>confirm_retries := sat_add (confirm_retries s) 1\<rparr>"

definition expire_initiator_stage :: "FourWayHybrid \<Rightarrow> FourWayHybrid" where
  "expire_initiator_stage s = (if \<not> initiator_live s then s\<lparr>initiator_staged := False\<rparr> else s)"

definition expire_responder_stage :: "FourWayHybrid \<Rightarrow> FourWayHybrid" where
  "expire_responder_stage s =
     (if \<not> responder_live s then s\<lparr>responder_staged := False, ack_sent := False\<rparr> else s)"

definition expire_together :: "FourWayHybrid \<Rightarrow> FourWayHybrid" where
  "expire_together s = expire_responder_stage (expire_initiator_stage s)"

definition tx_keys_split :: "FourWayHybrid \<Rightarrow> bool" where
  "tx_keys_split s =
     (case (initiator_live s, responder_live s) of
        (True, True) \<Rightarrow> False
      | (False, False) \<Rightarrow> False
      | (True, False) \<Rightarrow> \<not> responder_staged s \<and> \<not> ack_sent s
      | (False, True) \<Rightarrow> \<not> initiator_staged s)"

definition pair_tx_split :: "FourWayHybrid \<Rightarrow> FourWayHybrid \<Rightarrow> bool" where
  "pair_tx_split i r =
     (case (initiator_live i, responder_live r) of
        (True, True) \<Rightarrow> False
      | (False, False) \<Rightarrow> False
      | (True, False) \<Rightarrow> \<not> responder_staged r \<and> \<not> ack_sent r
      | (False, True) \<Rightarrow> \<not> initiator_staged i)"

section \<open>The two-party protocol\<close>

text \<open>
  One handshake between two devices. The network keeps every message that was ever sent and may
  deliver it at any later time, any number of times, or never; the flags record what was sent. The
  parameter says whether the responder's stage may expire after it has answered a confirmation.
\<close>

record rekey_net =
  net_init :: FourWayHybrid
  net_resp :: FourWayHybrid
  sent_resp :: bool
  sent_confirm :: bool
  sent_ack :: bool
  sent_cipher :: bool

definition rekey_start :: rekey_net where
  "rekey_start = \<lparr>net_init = FourWayHybrid_default, net_resp = FourWayHybrid_default, sent_resp = False,
     sent_confirm = False, sent_ack = False, sent_cipher = False\<rparr>"

inductive rekey_step :: "bool \<Rightarrow> rekey_net \<Rightarrow> rekey_net \<Rightarrow> bool" for late_expiry where
  deliver_init: "\<not> sent_resp n \<Longrightarrow>
    rekey_step late_expiry n (n\<lparr>net_resp := on_init_at_responder (net_resp n), sent_resp := True\<rparr>)"
| deliver_resp: "sent_resp n \<Longrightarrow> \<not> sent_confirm n \<Longrightarrow>
    rekey_step late_expiry n (n\<lparr>net_init := on_resp_at_initiator (net_init n), sent_confirm := True\<rparr>)"
| deliver_confirm: "sent_confirm n \<Longrightarrow> on_confirm_at_responder (net_resp n) = (r, ok) \<Longrightarrow>
    rekey_step late_expiry n (n\<lparr>net_resp := r, sent_ack := sent_ack n \<or> ok\<rparr>)"
| deliver_ack: "sent_ack n \<Longrightarrow> on_ack_at_initiator (net_init n) = (i, ok) \<Longrightarrow>
    rekey_step late_expiry n (n\<lparr>net_init := i\<rparr>)"
| transmit: "initiator_live (net_init n) \<Longrightarrow> rekey_step late_expiry n (n\<lparr>sent_cipher := True\<rparr>)"
| deliver_cipher: "sent_cipher n \<Longrightarrow> on_peer_new_key_at_responder (net_resp n) = (r, ok) \<Longrightarrow>
    rekey_step late_expiry n (n\<lparr>net_resp := r\<rparr>)"
| retry: "should_retry_confirm (net_init n) now staged_at \<Longrightarrow>
    rekey_step late_expiry n (n\<lparr>net_init := note_confirm_retry (net_init n)\<rparr>)"
| expire_initiator: "rekey_step late_expiry n (n\<lparr>net_init := expire_initiator_stage (net_init n)\<rparr>)"
| expire_responder: "late_expiry \<or> \<not> ack_sent (net_resp n) \<Longrightarrow>
    rekey_step late_expiry n (n\<lparr>net_resp := expire_responder_stage (net_resp n)\<rparr>)"

inductive rekey_reach :: "bool \<Rightarrow> rekey_net \<Rightarrow> bool" for late_expiry where
  rekey_start: "rekey_reach late_expiry rekey_start"
| rekey_next: "rekey_reach late_expiry n \<Longrightarrow> rekey_step late_expiry n n' \<Longrightarrow> rekey_reach late_expiry n'"

lemmas hybrid_defs =
  on_init_at_responder_def on_resp_at_initiator_def on_confirm_at_responder_def on_ack_at_initiator_def
  on_peer_new_key_at_responder_def note_confirm_retry_def expire_initiator_stage_def
  expire_responder_stage_def should_retry_confirm_def

text \<open>What causality gives: an initiator is live only after an answered confirmation.\<close>

definition rekey_inv :: "rekey_net \<Rightarrow> bool" where
  "rekey_inv n \<longleftrightarrow>
     (initiator_live (net_init n) \<longrightarrow> sent_ack n) \<and>
     (sent_ack n \<longrightarrow> sent_confirm n \<and> sent_resp n \<and> ack_sent (net_resp n) \<and>
        (responder_staged (net_resp n) \<or> responder_live (net_resp n))) \<and>
     (sent_confirm n \<longrightarrow> sent_resp n) \<and>
     (responder_live (net_resp n) \<longrightarrow> initiator_live (net_init n)) \<and>
     (sent_cipher n \<longrightarrow> initiator_live (net_init n))"

lemma rekey_step_inv: "rekey_step False n n' \<Longrightarrow> rekey_inv n \<Longrightarrow> rekey_inv n'"
  by (induction rule: rekey_step.induct)
    (auto simp: rekey_inv_def hybrid_defs split: if_splits)

lemma rekey_reach_inv: "rekey_reach False n \<Longrightarrow> rekey_inv n"
proof (induction rule: rekey_reach.induct)
  case rekey_start
  show ?case by (simp add: rekey_inv_def rekey_start_def FourWayHybrid_default_def)
next
  case (rekey_next n n')
  then show ?case using rekey_step_inv by blast
qed

section \<open>Handshake frames are TLV messages\<close>

interpretation hybrid_msg: tlv_message "\<lambda>(op, ch, msg). encode_hybrid_frame op ch msg" fst
  "\<lambda>p. map_option (\<lambda>(ch, msg). (op, ch, msg)) (parse_hybrid_frame p)"
  "\<lambda>(op', ch, msg). op' = op \<and> is_hybrid_opcode op \<and> length msg < 65535" for op
  by unfold_locales
    (auto simp: encode_hybrid_frame_def parse_hybrid_frame_def is_hybrid_opcode_def is_tlv_opcode_def opcode_defs
      intro!: exI conjI)

section \<open>Properties\<close>



lemma split_reachable:
  "\<exists>n. rekey_reach True n \<and> pair_tx_split (net_init n) (net_resp n) \<and> initiator_live (net_init n) \<and>
     sent_resp n \<and> sent_confirm n \<and> \<not> responder_staged (net_resp n) \<and> \<not> responder_live (net_resp n)"
proof -
  define n1 where "n1 = rekey_start\<lparr>net_resp := on_init_at_responder (net_resp rekey_start), sent_resp := True\<rparr>"
  define n2 where "n2 = n1\<lparr>net_init := on_resp_at_initiator (net_init n1), sent_confirm := True\<rparr>"
  define n3 where "n3 = n2\<lparr>net_resp := fst (on_confirm_at_responder (net_resp n2)), sent_ack := True\<rparr>"
  define n4 where "n4 = n3\<lparr>net_init := fst (on_ack_at_initiator (net_init n3))\<rparr>"
  define n5 where "n5 = n4\<lparr>net_resp := expire_responder_stage (net_resp n4)\<rparr>"
  have s1: "rekey_step True rekey_start n1" unfolding n1_def by (rule deliver_init) (simp add: rekey_start_def)
  have s2: "rekey_step True n1 n2"
    unfolding n2_def by (rule deliver_resp) (simp_all add: n1_def rekey_start_def)
  have "on_confirm_at_responder (net_resp n2) = (fst (on_confirm_at_responder (net_resp n2)), True)"
    by (simp add: n2_def n1_def hybrid_defs)
  from deliver_confirm [OF _ this, of True] have s3: "rekey_step True n2 n3"
    by (simp add: n3_def) (simp add: n2_def)
  have "on_ack_at_initiator (net_init n3) = (fst (on_ack_at_initiator (net_init n3)), True)"
    by (simp add: n3_def n2_def hybrid_defs)
  from deliver_ack [OF _ this, of True] have s4: "rekey_step True n3 n4"
    by (simp add: n4_def) (simp add: n3_def)
  have s5: "rekey_step True n4 n5" unfolding n5_def by (rule expire_responder) simp
  have "rekey_reach True n5"
    by (intro rekey_next [OF rekey_next [OF rekey_next [OF rekey_next [OF rekey_next [OF rekey_reach.rekey_start]]]]])
      (rule s1 s2 s3 s4 s5)+
  moreover have "pair_tx_split (net_init n5) (net_resp n5) \<and> initiator_live (net_init n5) \<and>
     sent_resp n5 \<and> sent_confirm n5 \<and> \<not> responder_staged (net_resp n5) \<and> \<not> responder_live (net_resp n5)"
    by (simp add: n5_def n4_def n3_def n2_def n1_def rekey_start_def FourWayHybrid_default_def hybrid_defs
        pair_tx_split_def)
  ultimately show ?thesis by blast
qed

definition stuck :: "rekey_net \<Rightarrow> bool" where
  "stuck n \<longleftrightarrow> initiator_live (net_init n) \<and> sent_resp n \<and> sent_confirm n \<and>
     \<not> responder_staged (net_resp n) \<and> \<not> responder_live (net_resp n)"

lemma stuck_step: "rekey_step b n n' \<Longrightarrow> stuck n \<Longrightarrow> stuck n'"
  by (induction rule: rekey_step.induct) (auto simp: stuck_def hybrid_defs split: if_splits)

lemma stuck_forever: "(rekey_step b)\<^sup>*\<^sup>* n n' \<Longrightarrow> stuck n \<Longrightarrow> stuck n'"
  by (induction rule: rtranclp_induct) (auto intro: stuck_step)

text \<open>
  When the responder's stage does expire after its
  acknowledgement was delivered and before it has seen ciphertext on the new key, the pair is split
  for good: this state is reachable, the initiator is live on the new key, the responder has dropped
  it, and no delivery of any message of this handshake makes the responder live.
\<close>

theorem rekey_late_expiry_splits:
  "\<exists>n. rekey_reach True n \<and> pair_tx_split (net_init n) (net_resp n) \<and>
     (\<nexists>n'. (rekey_step True)\<^sup>*\<^sup>* n n' \<and> responder_live (net_resp n'))"
proof -
  obtain n where "rekey_reach True n" "pair_tx_split (net_init n) (net_resp n)" "stuck n"
    using split_reachable by (auto simp: stuck_def)
  then show ?thesis using stuck_forever [of True n] by (fastforce simp: stuck_def)
qed

text \<open>
  A confirmation or acknowledgement is accepted exactly when both tokens are present
  and equal, not empty, and the clock is between the staging time and 15 seconds after it.
\<close>

theorem confirm_acceptance:
  "(confirm_acceptable st ct now staged_at \<longleftrightarrow>
      (\<exists>t. st = Some t \<and> ct = Some t \<and> t \<noteq> []) \<and> unat staged_at \<le> unat now \<and> unat now \<le> unat staged_at + 15000) \<and>
   ack_acceptable st ct now staged_at = confirm_acceptable st ct now staged_at"
proof -
  have "sat_sub now staged_at \<le> 15000 \<longleftrightarrow> unat now \<le> unat staged_at + 15000"
    by (auto simp: word_le_nat_alt unat_sat_sub)
  then show ?thesis
    by (auto simp: confirm_acceptable_def ack_acceptable_def STAGED_TTL_MS_def not_less word_le_nat_alt
        split: option.splits)
qed

end
