(* ===== verification/Pqc.thy ===== *)
theory Pqc
  imports Crypto_Session Ptt_Frames
begin

text \<open>
  The hybrid key agreement of \<open>core/src/pqc.rs\<close>: the secret combiners, the two handshake messages, the
  initiator and responder with and without a pre-shared key, and suite negotiation. X25519, ML-KEM-768
  and HKDF are parameters; ephemeral secrets and the randomness of encapsulation are arguments.
\<close>

section \<open>Model\<close>

definition X25519_PUBLIC_LEN :: nat where "X25519_PUBLIC_LEN = 32"

text \<open>The sizes the ML-KEM crate documents for ML-KEM-768.\<close>

definition MLKEM768_ENCAPS_KEY_LEN :: nat where "MLKEM768_ENCAPS_KEY_LEN = 1184"
definition MLKEM768_CIPHERTEXT_LEN :: nat where "MLKEM768_CIPHERTEXT_LEN = 1088"
definition HYBRID_INIT_MSG_LEN :: nat where "HYBRID_INIT_MSG_LEN = X25519_PUBLIC_LEN + MLKEM768_ENCAPS_KEY_LEN"
definition HYBRID_RESP_MSG_LEN :: nat where "HYBRID_RESP_MSG_LEN = X25519_PUBLIC_LEN + MLKEM768_CIPHERTEXT_LEN"
definition HYBRID_HKDF_INFO :: bytes where "HYBRID_HKDF_INFO = ascii ''sassytalkie-hybrid-pqc-v1''"
definition HYBRID_PSK_HKDF_INFO :: bytes where "HYBRID_PSK_HKDF_INFO = ascii ''sassytalkie-psk-hybrid-pqc-v1''"
definition CAP_HYBRID_PQC :: u8 where "CAP_HYBRID_PQC = 0x01"

definition combine_secrets :: "(bytes \<Rightarrow> bytes \<Rightarrow> bytes) \<Rightarrow> bytes \<Rightarrow> bytes \<Rightarrow> bytes" where
  "combine_secrets hkdf x25519_shared mlkem_shared = hkdf (x25519_shared @ mlkem_shared) HYBRID_HKDF_INFO"

definition combine_secrets_with_psk :: "(bytes \<Rightarrow> bytes \<Rightarrow> bytes) \<Rightarrow> bytes \<Rightarrow> bytes \<Rightarrow> bytes \<Rightarrow> bytes" where
  "combine_secrets_with_psk hkdf psk x25519_shared mlkem_shared =
     hkdf (psk @ x25519_shared @ mlkem_shared) HYBRID_PSK_HKDF_INFO"

datatype pqc_error = WrongMessageLength nat | WrongKeyLength nat | KeyInvalid | WrongCiphertextLength nat

record HybridInitiatorMessage =
  hi_x25519_public :: bytes
  hi_mlkem_encaps_key :: bytes

record HybridResponderMessage =
  hr_x25519_public :: bytes
  hr_mlkem_ciphertext :: bytes

definition init_to_bytes :: "HybridInitiatorMessage \<Rightarrow> bytes" where
  "init_to_bytes m = hi_x25519_public m @ hi_mlkem_encaps_key m"

definition init_from_bytes :: "bytes \<Rightarrow> pqc_error + HybridInitiatorMessage" where
  "init_from_bytes bs =
     (if length bs \<noteq> HYBRID_INIT_MSG_LEN then Inl (WrongMessageLength (length bs))
      else Inr \<lparr>hi_x25519_public = take X25519_PUBLIC_LEN bs, hi_mlkem_encaps_key = drop X25519_PUBLIC_LEN bs\<rparr>)"

definition resp_to_bytes :: "HybridResponderMessage \<Rightarrow> bytes" where
  "resp_to_bytes m = hr_x25519_public m @ hr_mlkem_ciphertext m"

definition resp_from_bytes :: "bytes \<Rightarrow> pqc_error + HybridResponderMessage" where
  "resp_from_bytes bs =
     (if length bs \<noteq> HYBRID_RESP_MSG_LEN then Inl (WrongMessageLength (length bs))
      else Inr \<lparr>hr_x25519_public = take X25519_PUBLIC_LEN bs, hr_mlkem_ciphertext = drop X25519_PUBLIC_LEN bs\<rparr>)"

record HybridKeyExchange =
  hk_x25519_secret :: bytes
  hk_x25519_public :: bytes
  hk_mlkem_dk :: bytes
  hk_mlkem_ek_bytes :: bytes

text \<open>
  The primitives: the public key of a secret, Diffie-Hellman, the validation of an encapsulation key,
  encapsulation (key, randomness) and decapsulation.
\<close>

record kem_primitives =
  x_public :: "bytes \<Rightarrow> bytes"
  x_dh :: "bytes \<Rightarrow> bytes \<Rightarrow> bytes"
  ek_of_dk :: "bytes \<Rightarrow> bytes"
  ek_valid :: "bytes \<Rightarrow> bool"
  encapsulate :: "bytes \<Rightarrow> bytes \<Rightarrow> bytes \<times> bytes"
  decapsulate :: "bytes \<Rightarrow> bytes \<Rightarrow> bytes"

definition HybridKeyExchange_new :: "kem_primitives \<Rightarrow> bytes \<Rightarrow> bytes \<Rightarrow> HybridKeyExchange" where
  "HybridKeyExchange_new P x_secret dk =
     \<lparr>hk_x25519_secret = x_secret, hk_x25519_public = x_public P x_secret, hk_mlkem_dk = dk,
      hk_mlkem_ek_bytes = ek_of_dk P dk\<rparr>"

definition initiator_message :: "HybridKeyExchange \<Rightarrow> HybridInitiatorMessage" where
  "initiator_message k = \<lparr>hi_x25519_public = hk_x25519_public k, hi_mlkem_encaps_key = hk_mlkem_ek_bytes k\<rparr>"

definition decode_mlkem_encaps_key :: "kem_primitives \<Rightarrow> bytes \<Rightarrow> pqc_error + bytes" where
  "decode_mlkem_encaps_key P bs =
     (if length bs \<noteq> MLKEM768_ENCAPS_KEY_LEN then Inl (WrongKeyLength (length bs))
      else if ek_valid P bs then Inr bs else Inl KeyInvalid)"

definition decode_mlkem_ciphertext :: "bytes \<Rightarrow> pqc_error + bytes" where
  "decode_mlkem_ciphertext bs =
     (if length bs \<noteq> MLKEM768_CIPHERTEXT_LEN then Inl (WrongCiphertextLength (length bs)) else Inr bs)"

definition hybrid_complete ::
  "(bytes \<Rightarrow> bytes \<Rightarrow> bytes) \<Rightarrow> kem_primitives \<Rightarrow> HybridKeyExchange \<Rightarrow> HybridResponderMessage \<Rightarrow> bytes \<Rightarrow>
   pqc_error + CryptoSession" where
  "hybrid_complete hkdf P k response prefix =
     (let x25519_shared = x_dh P (hk_x25519_secret k) (hr_x25519_public response)
      in case decode_mlkem_ciphertext (hr_mlkem_ciphertext response) of
           Inl e \<Rightarrow> Inl e
         | Inr ct \<Rightarrow>
             Inr (from_psk (combine_secrets hkdf x25519_shared (decapsulate P (hk_mlkem_dk k) ct)) prefix))"

definition respond ::
  "(bytes \<Rightarrow> bytes \<Rightarrow> bytes) \<Rightarrow> kem_primitives \<Rightarrow> HybridInitiatorMessage \<Rightarrow> bytes \<Rightarrow> bytes \<Rightarrow> bytes \<Rightarrow>
   pqc_error + HybridResponderMessage \<times> CryptoSession" where
  "respond hkdf P initiator our_secret rand prefix =
     (let x25519_shared = x_dh P our_secret (hi_x25519_public initiator)
      in case decode_mlkem_encaps_key P (hi_mlkem_encaps_key initiator) of
           Inl e \<Rightarrow> Inl e
         | Inr ek \<Rightarrow>
             (case encapsulate P ek rand of
                (ct, mlkem_shared) \<Rightarrow>
                  Inr (\<lparr>hr_x25519_public = x_public P our_secret, hr_mlkem_ciphertext = ct\<rparr>,
                       from_psk (combine_secrets hkdf x25519_shared mlkem_shared) prefix)))"

record PskHybridInitiator =
  phi_psk :: bytes
  phi_hkx :: HybridKeyExchange

definition PskHybridInitiator_new :: "kem_primitives \<Rightarrow> bytes \<Rightarrow> bytes \<Rightarrow> bytes \<Rightarrow> PskHybridInitiator" where
  "PskHybridInitiator_new P psk x_secret dk = \<lparr>phi_psk = psk, phi_hkx = HybridKeyExchange_new P x_secret dk\<rparr>"

definition psk_initiator_message :: "PskHybridInitiator \<Rightarrow> HybridInitiatorMessage" where
  "psk_initiator_message k = initiator_message (phi_hkx k)"

definition psk_hybrid_complete ::
  "(bytes \<Rightarrow> bytes \<Rightarrow> bytes) \<Rightarrow> kem_primitives \<Rightarrow> PskHybridInitiator \<Rightarrow> HybridResponderMessage \<Rightarrow> bytes \<Rightarrow>
   pqc_error + CryptoSession" where
  "psk_hybrid_complete hkdf P k response prefix =
     (let x25519_shared = x_dh P (hk_x25519_secret (phi_hkx k)) (hr_x25519_public response)
      in case decode_mlkem_ciphertext (hr_mlkem_ciphertext response) of
           Inl e \<Rightarrow> Inl e
         | Inr ct \<Rightarrow>
             Inr (from_psk (combine_secrets_with_psk hkdf (phi_psk k) x25519_shared
                    (decapsulate P (hk_mlkem_dk (phi_hkx k)) ct)) prefix))"

definition psk_hybrid_respond ::
  "(bytes \<Rightarrow> bytes \<Rightarrow> bytes) \<Rightarrow> kem_primitives \<Rightarrow> bytes \<Rightarrow> HybridInitiatorMessage \<Rightarrow> bytes \<Rightarrow> bytes \<Rightarrow> bytes \<Rightarrow>
   pqc_error + HybridResponderMessage \<times> CryptoSession" where
  "psk_hybrid_respond hkdf P psk initiator our_secret rand prefix =
     (let x25519_shared = x_dh P our_secret (hi_x25519_public initiator)
      in case decode_mlkem_encaps_key P (hi_mlkem_encaps_key initiator) of
           Inl e \<Rightarrow> Inl e
         | Inr ek \<Rightarrow>
             (case encapsulate P ek rand of
                (ct, mlkem_shared) \<Rightarrow>
                  Inr (\<lparr>hr_x25519_public = x_public P our_secret, hr_mlkem_ciphertext = ct\<rparr>,
                       from_psk (combine_secrets_with_psk hkdf psk x25519_shared mlkem_shared) prefix)))"

datatype KexSuite = Classical | Hybrid

definition negotiate :: "bool \<Rightarrow> bool \<Rightarrow> KexSuite" where
  "negotiate local_supports peer_supports = (if local_supports \<and> peer_supports then Hybrid else Classical)"

definition from_capabilities :: "u8 \<Rightarrow> u8 \<Rightarrow> KexSuite" where
  "from_capabilities local_caps peer_caps =
     negotiate (local_caps AND CAP_HYBRID_PQC \<noteq> 0) (peer_caps AND CAP_HYBRID_PQC \<noteq> 0)"

definition is_hybrid :: "KexSuite \<Rightarrow> bool" where
  "is_hybrid s \<longleftrightarrow> s = Hybrid"

definition local_capabilities :: u8 where
  "local_capabilities = CAP_HYBRID_PQC"

definition classical_key_exchange :: "(bytes \<Rightarrow> bytes) \<Rightarrow> bytes \<Rightarrow> KeyExchange" where
  "classical_key_exchange public_of secret = KeyExchange_new public_of secret"

section \<open>Properties\<close>

text \<open>
  What the two primitives document: public keys and key sizes, commuting Diffie-Hellman, and that the
  holder of a decapsulation key recovers the secret encapsulated to its encapsulation key.
\<close>

definition kem_ok :: "kem_primitives \<Rightarrow> bool" where
  "kem_ok P \<longleftrightarrow>
     (\<forall>s. length (x_public P s) = 32) \<and> (\<forall>s t. x_dh P s (x_public P t) = x_dh P t (x_public P s)) \<and>
     (\<forall>dk. length (ek_of_dk P dk) = 1184 \<and> ek_valid P (ek_of_dk P dk)) \<and>
     (\<forall>dk r. case encapsulate P (ek_of_dk P dk) r of (ct, ss) \<Rightarrow> length ct = 1088 \<and> decapsulate P dk ct = ss)"

lemma message_roundtrip:
  "length (hi_x25519_public m) = 32 \<Longrightarrow> length (hi_mlkem_encaps_key m) = 1184 \<Longrightarrow>
   init_from_bytes (init_to_bytes m) = Inr m"
  "length (hr_x25519_public n) = 32 \<Longrightarrow> length (hr_mlkem_ciphertext n) = 1088 \<Longrightarrow>
   resp_from_bytes (resp_to_bytes n) = Inr n"
  by (simp_all add: init_from_bytes_def init_to_bytes_def resp_from_bytes_def resp_to_bytes_def
      HYBRID_INIT_MSG_LEN_def HYBRID_RESP_MSG_LEN_def X25519_PUBLIC_LEN_def MLKEM768_ENCAPS_KEY_LEN_def
      MLKEM768_CIPHERTEXT_LEN_def)

text \<open>
  The hybrid handshake agrees, with and without the pre-shared key: the initiator's
  message, serialized and parsed, is answered by the responder; the answer, serialized and parsed,
  completes; and both sides then hold sessions with the same cipher key. The authenticated variant sends
  the same messages, so the pre-shared key is never on the wire.
\<close>

theorem hybrid_handshake_agrees:
  assumes "kem_ok P"
  shows "\<exists>msg resp s t s' t'.
    init_from_bytes (init_to_bytes (initiator_message (HybridKeyExchange_new P xs dk))) = Inr msg \<and>
    respond hkdf P msg ys r p = Inr (resp, s) \<and> resp_from_bytes (resp_to_bytes resp) = Inr resp \<and>
    hybrid_complete hkdf P (HybridKeyExchange_new P xs dk) resp q = Inr t \<and> cs_cipher s = cs_cipher t \<and>
    psk_initiator_message (PskHybridInitiator_new P psk xs dk) = msg \<and>
    psk_hybrid_respond hkdf P psk msg ys r p = Inr (resp, s') \<and>
    psk_hybrid_complete hkdf P (PskHybridInitiator_new P psk xs dk) resp q = Inr t' \<and> cs_cipher s' = cs_cipher t'"
proof -
  let ?m = "initiator_message (HybridKeyExchange_new P xs dk)"
  obtain ct ss where e: "encapsulate P (ek_of_dk P dk) r = (ct, ss)" by (cases "encapsulate P (ek_of_dk P dk) r")
  from assms have "\<forall>dk r. case encapsulate P (ek_of_dk P dk) r of (ct, ss) \<Rightarrow> length ct = 1088 \<and> decapsulate P dk ct = ss"
    unfolding kem_ok_def by (elim conjE)
  from this [THEN spec, THEN spec, of dk r] have k1: "length ct = 1088" "decapsulate P dk ct = ss" by (simp_all add: e)
  have k2: "length (x_public P s) = 32" for s using assms unfolding kem_ok_def by blast
  have k3: "length (ek_of_dk P dk) = 1184" "ek_valid P (ek_of_dk P dk)"
    using assms unfolding kem_ok_def by blast+
  have k4: "x_dh P ys (x_public P xs) = x_dh P xs (x_public P ys)"
    using assms unfolding kem_ok_def by blast
  note k = k1 k2 k3 k4
  let ?resp = "\<lparr>hr_x25519_public = x_public P ys, hr_mlkem_ciphertext = ct\<rparr>"
  have "init_from_bytes (init_to_bytes ?m) = Inr ?m"
    by (rule message_roundtrip) (simp_all add: initiator_message_def HybridKeyExchange_new_def k)
  moreover have "resp_from_bytes (resp_to_bytes ?resp) = Inr ?resp"
    by (rule message_roundtrip) (simp_all add: k)
  ultimately show ?thesis using e k
    by (simp add: respond_def hybrid_complete_def psk_hybrid_respond_def psk_hybrid_complete_def
        psk_initiator_message_def PskHybridInitiator_new_def initiator_message_def HybridKeyExchange_new_def
        decode_mlkem_encaps_key_def decode_mlkem_ciphertext_def MLKEM768_ENCAPS_KEY_LEN_def
        MLKEM768_CIPHERTEXT_LEN_def from_psk_def)
qed

text \<open>A toy instance of the primitives: everything is determined by lengths.\<close>

definition demo_kem :: kem_primitives where
  "demo_kem = \<lparr>x_public = \<lambda>s. replicate 32 1, x_dh = \<lambda>s t. replicate 32 2, ek_of_dk = \<lambda>d. replicate 1184 3,
     ek_valid = \<lambda>k. True, encapsulate = \<lambda>k r. (replicate 1088 4, replicate 32 5), decapsulate = \<lambda>d c. replicate 32 5\<rparr>"

theorem hybrid_handshake_agrees_witness:
  "\<exists>msg resp s t.
    init_from_bytes (init_to_bytes (initiator_message (HybridKeyExchange_new demo_kem [1] [2]))) = Inr msg \<and>
    respond (\<lambda>i n. take 32 i) demo_kem msg [3] [4] [5] = Inr (resp, s) \<and>
    hybrid_complete (\<lambda>i n. take 32 i) demo_kem (HybridKeyExchange_new demo_kem [1] [2]) resp [6] = Inr t \<and>
    cs_cipher s = cs_cipher t"
proof -
  have "kem_ok demo_kem" by (simp add: kem_ok_def demo_kem_def)
  from hybrid_handshake_agrees [OF this, of "[1]" "[2]" "\<lambda>i n. take 32 i" "[3]" "[4]" "[5]" "[6]"]
  show ?thesis by blast
qed

text \<open>
  Negotiation is symmetric and conservative: from the capability byte each heartbeat
  carries, both peers select the same suite, the hybrid one exactly when both advertise it; a heartbeat
  of an older peer, which has no capability byte, always yields the classical suite.
\<close>

theorem negotiation_symmetric:
  "from_capabilities a b = from_capabilities b a \<and>
   (is_hybrid (from_capabilities a b) \<longleftrightarrow> bit a 0 \<and> bit b 0) \<and>
   (length p = 23 \<longrightarrow> (\<exists>hb. parse_heartbeat p = Some hb \<and> from_capabilities a (hb_caps hb) = Classical))"
proof -
  have m: "w AND CAP_HYBRID_PQC \<noteq> 0 \<longleftrightarrow> bit w 0" for w :: u8
    by (simp add: CAP_HYBRID_PQC_def and_one_eq odd_iff_mod_2_eq_one bit_0)
  have "\<exists>hb. parse_heartbeat p = Some hb \<and> hb_caps hb = 0" if "length p = 23"
    using that field_at_None [of p] by (auto simp: parse_heartbeat_def split: option.splits)
  then have "length p = 23 \<longrightarrow> (\<exists>hb. parse_heartbeat p = Some hb \<and> from_capabilities a (hb_caps hb) = Classical)"
    by (fastforce simp: from_capabilities_def negotiate_def)
  then show ?thesis
    by (auto simp: from_capabilities_def negotiate_def is_hybrid_def m)
qed

theorem negotiation_symmetric_witness:
  "\<exists>hb. parse_heartbeat (replicate 23 0) = Some hb \<and> from_capabilities local_capabilities (hb_caps hb) = Classical"
  using negotiation_symmetric [of local_capabilities 0 "replicate 23 0"] by simp

end
