(* ===== verification/Emergency.thy ===== *)
theory Emergency
  imports Protocol
begin

text \<open>
  The life-safety signalling of \<open>core/src/emergency.rs\<close>: the distress and stand-down payload codecs,
  the beacon controller that repeats a distress frame until it is cleared, and the man-down detector.
\<close>

section \<open>Floating point comparison\<close>

text \<open>
  The only floating point operation of the detector is \<open>>=\<close> between two \<open>f32\<close>. Finite values are
  the rational numbers they denote; a comparison with NaN is false.
\<close>

datatype fval = Fin rat | PosInf | NegInf | NaN

fun fge :: "fval \<Rightarrow> fval \<Rightarrow> bool" where
  "fge NaN _ = False"
| "fge _ NaN = False"
| "fge PosInf _ = True"
| "fge (Fin x) PosInf = False"
| "fge (Fin x) (Fin y) = (y \<le> x)"
| "fge (Fin x) NegInf = True"
| "fge NegInf y = (y = NegInf)"

section \<open>Signals\<close>

definition SIGNAL_VERSION :: u8 where "SIGNAL_VERSION = 1"
definition CLEAR_VERSION :: u8 where "CLEAR_VERSION = 1"
definition MAX_NOTE_LEN :: nat where "MAX_NOTE_LEN = 255"
definition FLAG_HAS_COORD :: u8 where "FLAG_HAS_COORD = 1"
definition FLAG_HAS_NOTE :: u8 where "FLAG_HAS_NOTE = 2"

datatype EmergencyKind = Sos | ManDown | Custom u8

fun to_byte :: "EmergencyKind \<Rightarrow> u8" where
  "to_byte Sos = 0x01"
| "to_byte ManDown = 0x02"
| "to_byte (Custom n) = 0x80 OR (n AND 0x7F)"

definition from_byte :: "u8 \<Rightarrow> EmergencyKind" where
  "from_byte b =
     (if b = 0x01 then Sos else if b = 0x02 then ManDown
      else if b AND 0x80 \<noteq> 0 then Custom (b AND 0x7F) else Sos)"

record FixedCoord =
  lat_e7 :: i32
  lon_e7 :: i32

record EmergencySignal =
  es_sender_id :: rstring
  es_kind :: EmergencyKind
  es_timestamp_ms :: u64
  es_coord :: "FixedCoord option"
  es_note :: "rstring option"

record EmergencyClear =
  ec_sender_id :: rstring
  ec_timestamp_ms :: u64

text \<open>\<open>truncate_utf8\<close>: back up to a character boundary.\<close>

fun truncate_end :: "rstring \<Rightarrow> nat \<Rightarrow> nat" where
  "truncate_end s n = (if 0 < n \<and> \<not> is_char_boundary s n then truncate_end s (n - 1) else n)"

declare truncate_end.simps [simp del]

definition truncate_utf8 :: "rstring \<Rightarrow> nat \<Rightarrow> rstring" where
  "truncate_utf8 s n = (if length s \<le> n then s else take (truncate_end s n) s)"

definition EmergencySignal_new ::
  "rstring \<Rightarrow> EmergencyKind \<Rightarrow> u64 \<Rightarrow> FixedCoord option \<Rightarrow> rstring option \<Rightarrow> EmergencySignal" where
  "EmergencySignal_new sender kind ts coord note =
     \<lparr>es_sender_id = sender, es_kind = kind, es_timestamp_ms = ts, es_coord = coord,
      es_note = map_option (\<lambda>n. truncate_utf8 n MAX_NOTE_LEN) note\<rparr>"

definition signal_opcode :: "EmergencySignal \<Rightarrow> u8" where
  "signal_opcode s = (case es_kind s of ManDown \<Rightarrow> OP_MANDOWN | _ \<Rightarrow> OP_EMERGENCY)"

definition signal_payload :: "EmergencySignal \<Rightarrow> bytes" where
  "signal_payload s =
     (let flags = (if es_coord s \<noteq> None then FLAG_HAS_COORD else 0) OR
                  (if es_note s \<noteq> None then FLAG_HAS_NOTE else 0);
          sender_len = min (length (es_sender_id s)) 255
      in [SIGNAL_VERSION, to_byte (es_kind s), flags] @ to_le 8 (es_timestamp_ms s) @
         [word_of_nat sender_len] @ take sender_len (es_sender_id s) @
         (case es_coord s of None \<Rightarrow> [] | Some c \<Rightarrow> to_le 4 (lat_e7 c) @ to_le 4 (lon_e7 c)) @
         (case es_note s of None \<Rightarrow> []
          | Some n \<Rightarrow> let nlen = min (length n) MAX_NOTE_LEN in [word_of_nat nlen] @ take nlen n))"

definition signal_encode :: "EmergencySignal \<Rightarrow> bytes" where
  "signal_encode s = encode_tlv (signal_opcode s) (signal_payload s)"

definition clear_payload :: "EmergencyClear \<Rightarrow> bytes" where
  "clear_payload c =
     (let sender_len = min (length (ec_sender_id c)) 255
      in [CLEAR_VERSION] @ to_le 8 (ec_timestamp_ms c) @ [word_of_nat sender_len] @
         take sender_len (ec_sender_id c))"

definition clear_encode :: "EmergencyClear \<Rightarrow> bytes" where
  "clear_encode c = encode_tlv OP_EMERGENCY_CLEAR (clear_payload c)"

subsection \<open>The bounds-checked reader\<close>

datatype emergency_error =
  Truncated string | UnsupportedVersion u8 | SenderNotUtf8 | NoteNotUtf8

record Reader =
  rd_buf :: bytes
  rd_pos :: nat

definition Reader_new :: "bytes \<Rightarrow> Reader" where
  "Reader_new buf = \<lparr>rd_buf = buf, rd_pos = 0\<rparr>"

text \<open>\<open>Reader::take\<close>; offsets and lengths are those of a buffer in memory, so the sum cannot overflow.\<close>

definition rd_take :: "Reader \<Rightarrow> nat \<Rightarrow> string \<Rightarrow> (emergency_error, bytes \<times> Reader) outcome" where
  "rd_take r n field =
     (if length (rd_buf r) < rd_pos r + n then Err (Truncated field)
      else bind_outcome (slice_range (rd_buf r) (rd_pos r) (rd_pos r + n))
             (\<lambda>s. Ok (s, r\<lparr>rd_pos := rd_pos r + n\<rparr>)))"

definition rd_u8 :: "Reader \<Rightarrow> string \<Rightarrow> (emergency_error, u8 \<times> Reader) outcome" where
  "rd_u8 r field =
     bind_outcome (rd_take r 1 field) (\<lambda>(b, r1). bind_outcome (index_at b 0) (\<lambda>x. Ok (x, r1)))"

definition rd_u64_le :: "Reader \<Rightarrow> string \<Rightarrow> (emergency_error, u64 \<times> Reader) outcome" where
  "rd_u64_le r field = bind_outcome (rd_take r 8 field) (\<lambda>(b, r1). Ok (from_le b, r1))"

definition rd_i32_le :: "Reader \<Rightarrow> string \<Rightarrow> (emergency_error, i32 \<times> Reader) outcome" where
  "rd_i32_le r field = bind_outcome (rd_take r 4 field) (\<lambda>(b, r1). Ok (from_le b, r1))"

definition signal_decode :: "bytes \<Rightarrow> (emergency_error, EmergencySignal) outcome" where
  "signal_decode payload =
     bind_outcome (rd_u8 (Reader_new payload) ''version'') (\<lambda>(version, r).
     if version \<noteq> SIGNAL_VERSION then Err (UnsupportedVersion version) else
     bind_outcome (rd_u8 r ''kind'') (\<lambda>(kind, r).
     bind_outcome (rd_u8 r ''flags'') (\<lambda>(flags, r).
     bind_outcome (rd_u64_le r ''timestamp'') (\<lambda>(ts, r).
     bind_outcome (rd_u8 r ''sender_id_len'') (\<lambda>(sender_len, r).
     bind_outcome (rd_take r (unat sender_len) ''sender_id'') (\<lambda>(sender, r).
     if \<not> utf8_valid sender then Err SenderNotUtf8 else
     bind_outcome (if flags AND FLAG_HAS_COORD \<noteq> 0 then
                     bind_outcome (rd_i32_le r ''lat_e7'') (\<lambda>(lat, r).
                     bind_outcome (rd_i32_le r ''lon_e7'') (\<lambda>(lon, r).
                     Ok (Some \<lparr>lat_e7 = lat, lon_e7 = lon\<rparr>, r)))
                   else Ok (None, r)) (\<lambda>(coord, r).
     bind_outcome (if flags AND FLAG_HAS_NOTE \<noteq> 0 then
                     bind_outcome (rd_u8 r ''note_len'') (\<lambda>(nlen, r).
                     bind_outcome (rd_take r (unat nlen) ''note'') (\<lambda>(nb, r).
                     if \<not> utf8_valid nb then Err NoteNotUtf8 else Ok (Some nb, r)))
                   else Ok (None, r)) (\<lambda>(note, r).
     Ok \<lparr>es_sender_id = sender, es_kind = from_byte kind, es_timestamp_ms = ts, es_coord = coord,
         es_note = note\<rparr>))))))))"

definition clear_decode :: "bytes \<Rightarrow> (emergency_error, EmergencyClear) outcome" where
  "clear_decode payload =
     bind_outcome (rd_u8 (Reader_new payload) ''version'') (\<lambda>(version, r).
     if version \<noteq> CLEAR_VERSION then Err (UnsupportedVersion version) else
     bind_outcome (rd_u64_le r ''timestamp'') (\<lambda>(ts, r).
     bind_outcome (rd_u8 r ''sender_id_len'') (\<lambda>(sender_len, r).
     bind_outcome (rd_take r (unat sender_len) ''sender_id'') (\<lambda>(sender, r).
     if \<not> utf8_valid sender then Err SenderNotUtf8 else
     Ok \<lparr>ec_sender_id = sender, ec_timestamp_ms = ts\<rparr>))))"

section \<open>The beacon controller\<close>

definition DEFAULT_BEACON_INTERVAL_MS :: u64 where "DEFAULT_BEACON_INTERVAL_MS = 5000"

record ActiveBeacon =
  ab_signal :: EmergencySignal
  ab_last_beacon_ms :: u64

record EmergencyState =
  em_sender_id :: rstring
  em_interval_ms :: u64
  em_active :: "ActiveBeacon option"

definition EmergencyState_new :: "rstring \<Rightarrow> EmergencyState" where
  "EmergencyState_new sender =
     \<lparr>em_sender_id = sender, em_interval_ms = DEFAULT_BEACON_INTERVAL_MS, em_active = None\<rparr>"

definition EmergencyState_with_interval :: "rstring \<Rightarrow> u64 \<Rightarrow> EmergencyState" where
  "EmergencyState_with_interval sender interval =
     \<lparr>em_sender_id = sender, em_interval_ms = max interval 1, em_active = None\<rparr>"

definition emergency_is_active :: "EmergencyState \<Rightarrow> bool" where
  "emergency_is_active s \<longleftrightarrow> em_active s \<noteq> None"

definition activate_with ::
  "EmergencyState \<Rightarrow> EmergencyKind \<Rightarrow> u64 \<Rightarrow> FixedCoord option \<Rightarrow> rstring option \<Rightarrow> EmergencyState \<times> bytes" where
  "activate_with s kind now coord note =
     (let signal = EmergencySignal_new (em_sender_id s) kind now coord note
      in (s\<lparr>em_active := Some \<lparr>ab_signal = signal, ab_last_beacon_ms = now\<rparr>\<rparr>, signal_encode signal))"

definition activate :: "EmergencyState \<Rightarrow> u64 \<Rightarrow> EmergencyState \<times> bytes" where
  "activate s now = activate_with s Sos now None None"

definition emergency_tick :: "EmergencyState \<Rightarrow> u64 \<Rightarrow> EmergencyState \<times> bytes option" where
  "emergency_tick s now =
     (case em_active s of
        None \<Rightarrow> (s, None)
      | Some a \<Rightarrow>
          if sat_sub now (ab_last_beacon_ms a) < em_interval_ms s then (s, None)
          else let a1 = a\<lparr>ab_last_beacon_ms := now,
                         ab_signal := (ab_signal a)\<lparr>es_timestamp_ms := now\<rparr>\<rparr>
               in (s\<lparr>em_active := Some a1\<rparr>, Some (signal_encode (ab_signal a1))))"

definition emergency_clear :: "EmergencyState \<Rightarrow> u64 \<Rightarrow> EmergencyState \<times> bytes option" where
  "emergency_clear s now =
     (case em_active s of
        Some _ \<Rightarrow> (s\<lparr>em_active := None\<rparr>,
                   Some (clear_encode \<lparr>ec_sender_id = em_sender_id s, ec_timestamp_ms = now\<rparr>))
      | None \<Rightarrow> (s, None))"

section \<open>The man-down detector\<close>

datatype ManDownPhase = PhaseNormal | Settling | Grace | Tripped

record ManDownConfig =
  tilt_threshold_deg :: fval
  no_motion_timeout_ms :: u64
  grace_ms :: u64

definition ManDownConfig_default :: ManDownConfig where
  "ManDownConfig_default = \<lparr>tilt_threshold_deg = Fin 60, no_motion_timeout_ms = 30000, grace_ms = 10000\<rparr>"

record ManDownDetector =
  md_cfg :: ManDownConfig
  md_phase :: ManDownPhase
  md_phase_since_ms :: u64
  md_armed :: bool

definition ManDownDetector_new :: "ManDownConfig \<Rightarrow> ManDownDetector" where
  "ManDownDetector_new cfg = \<lparr>md_cfg = cfg, md_phase = PhaseNormal, md_phase_since_ms = 0, md_armed = True\<rparr>"

definition is_tripped :: "ManDownDetector \<Rightarrow> bool" where
  "is_tripped d \<longleftrightarrow> md_phase d = Tripped"

definition set_armed :: "ManDownDetector \<Rightarrow> bool \<Rightarrow> ManDownDetector" where
  "set_armed d armed =
     (let d1 = d\<lparr>md_armed := armed\<rparr>
      in if \<not> armed then d1\<lparr>md_phase := PhaseNormal, md_phase_since_ms := 0\<rparr> else d1)"

definition md_update :: "ManDownDetector \<Rightarrow> u64 \<Rightarrow> bool \<Rightarrow> fval \<Rightarrow> ManDownDetector" where
  "md_update d now is_moving tilt =
     (if \<not> md_armed d then d
      else if md_phase d = Tripped then d
      else let danger = (\<not> is_moving \<and> fge tilt (tilt_threshold_deg (md_cfg d))) in
        if \<not> danger then
          (if md_phase d \<noteq> PhaseNormal then d\<lparr>md_phase := PhaseNormal, md_phase_since_ms := 0\<rparr> else d)
        else case md_phase d of
               PhaseNormal \<Rightarrow> d\<lparr>md_phase := Settling, md_phase_since_ms := now\<rparr>
             | Settling \<Rightarrow>
                 if no_motion_timeout_ms (md_cfg d) \<le> sat_sub now (md_phase_since_ms d)
                 then d\<lparr>md_phase := Grace, md_phase_since_ms := now\<rparr> else d
             | Grace \<Rightarrow>
                 if grace_ms (md_cfg d) \<le> sat_sub now (md_phase_since_ms d)
                 then d\<lparr>md_phase := Tripped\<rparr> else d
             | Tripped \<Rightarrow> d)"

definition md_cancel :: "ManDownDetector \<Rightarrow> ManDownDetector" where
  "md_cancel d = d\<lparr>md_phase := PhaseNormal, md_phase_since_ms := 0\<rparr>"

definition md_reset :: "ManDownDetector \<Rightarrow> ManDownDetector" where
  "md_reset d = md_cancel d"

section \<open>Codec lemmas\<close>

text \<open>A reader that has consumed \<open>pre\<close> and has \<open>post\<close> ahead.\<close>

definition rd_at :: "bytes \<Rightarrow> bytes \<Rightarrow> Reader" where
  "rd_at pre post = \<lparr>rd_buf = pre @ post, rd_pos = length pre\<rparr>"

lemma Reader_new_at: "Reader_new p = rd_at [] p"
  by (simp add: Reader_new_def rd_at_def)

lemma rd_take_at: "length x = n \<Longrightarrow> rd_take (rd_at pre (x @ post)) n f = Ok (x, rd_at (pre @ x) post)"
  by (simp add: rd_take_def rd_at_def)

lemma rd_u8_at: "rd_u8 (rd_at pre (b # post)) f = Ok (b, rd_at (pre @ [b]) post)"
  using rd_take_at [of "[b]" 1 pre post f] by (simp add: rd_u8_def)

lemma rd_u64_at: "rd_u64_le (rd_at pre (to_le 8 w @ post)) f = Ok (w, rd_at (pre @ to_le 8 w) post)"
  by (simp add: rd_u64_le_def rd_take_at del: append_assoc)

lemma rd_i32_at: "rd_i32_le (rd_at pre (to_le 4 w @ post)) f = Ok (w, rd_at (pre @ to_le 4 w) post)"
  by (simp add: rd_i32_le_def rd_take_at del: append_assoc)

lemma rd_at_end:
  "length x = n \<Longrightarrow> rd_take (rd_at pre x) n f = Ok (x, rd_at (pre @ x) [])"
  "rd_i32_le (rd_at pre (to_le 4 w)) f = Ok (w, rd_at (pre @ to_le 4 w) [])"
  using rd_take_at [of x n pre "[]" f] rd_i32_at [of pre w "[]" f] by simp_all

lemmas rd_at_simps = Reader_new_at rd_take_at rd_u8_at rd_u64_at rd_i32_at rd_at_end

lemma rd_no_panic [simp]:
  "rd_take r n f \<noteq> Panic" "rd_u8 r f \<noteq> Panic" "rd_u64_le r f \<noteq> Panic" "rd_i32_le r f \<noteq> Panic"
proof -
  show t: "rd_take r n f \<noteq> Panic" for r n f by (simp add: rd_take_def)
  have "rd_take r 1 f = Ok (b, r1) \<Longrightarrow> length b = 1" for b r1
    by (auto simp: rd_take_def slice_range_def split: if_splits)
  then show "rd_u8 r f \<noteq> Panic" using t by (auto simp: rd_u8_def bind_outcome_Panic_iff)
  show "rd_u64_le r f \<noteq> Panic" "rd_i32_le r f \<noteq> Panic"
    using t by (auto simp: rd_u64_le_def rd_i32_le_def bind_outcome_Panic_iff)
qed

lemma signal_decode_no_panic: "signal_decode p \<noteq> Panic"
  unfolding signal_decode_def
  by (auto simp: bind_outcome_Panic_iff split: if_splits)

lemma clear_decode_no_panic: "clear_decode p \<noteq> Panic"
  unfolding clear_decode_def
  by (auto simp: bind_outcome_Panic_iff split: if_splits)

text \<open>Kind bytes: custom kinds keep their low seven bits and never collide with built-in ones.\<close>

fun kind_ok :: "EmergencyKind \<Rightarrow> bool" where
  "kind_ok (Custom n) \<longleftrightarrow> n < 0x80"
| "kind_ok _ \<longleftrightarrow> True"

lemma and_mask_7: "(n :: u8) < 0x80 \<Longrightarrow> n AND 0x7F = n"
proof -
  assume "n < 0x80"
  then have "take_bit 7 n = n"
    by (simp add: word_less_nat_alt take_bit_nat_eq_self_iff word_unat_eq_iff unsigned_take_bit_eq)
  then show ?thesis by (simp add: take_bit_eq_mask mask_eq_exp_minus_1)
qed

lemma from_byte_custom: "from_byte (0x80 OR (n AND 0x7F)) = Custom (n AND 0x7F)"
proof -
  have "bit (0x80 OR (n AND 0x7F)) 7" by (simp add: bit_simps)
  moreover have "\<not> bit (1 :: u8) 7" "\<not> bit (2 :: u8) 7" by (simp_all add: bit_simps)
  ultimately have "0x80 OR (n AND 0x7F) \<noteq> (1 :: u8)" "0x80 OR (n AND 0x7F) \<noteq> (2 :: u8)" by metis+
  moreover have "(0x80 OR (n AND 0x7F)) AND 0x80 = (0x80 :: u8)"
    by (rule bit_word_eqI) (auto simp: bit_simps)
  moreover have "(0x80 OR (n AND 0x7F)) AND 0x7F = (n AND 0x7F :: u8)"
    by (simp add: bit.conj_disj_distrib2 and.assoc)
  ultimately show ?thesis by (simp add: from_byte_def)
qed

lemma from_byte_to_byte [simp]: "kind_ok k \<Longrightarrow> from_byte (to_byte k) = k"
proof (cases k)
  case (Custom n)
  then show "kind_ok k \<Longrightarrow> ?thesis" using from_byte_custom [of n] and_mask_7 [of n] by simp
qed (simp_all add: from_byte_def)

text \<open>The signals that survive the wire unchanged.\<close>

definition signal_ok :: "EmergencySignal \<Rightarrow> bool" where
  "signal_ok s \<longleftrightarrow> utf8_valid (es_sender_id s) \<and> length (es_sender_id s) \<le> 255 \<and> kind_ok (es_kind s) \<and>
     (case es_note s of None \<Rightarrow> True | Some n \<Rightarrow> utf8_valid n \<and> length n \<le> 255)"

lemma flag_bits [simp]:
  "((if a then FLAG_HAS_COORD else 0) OR (if b then FLAG_HAS_NOTE else 0)) AND FLAG_HAS_COORD \<noteq> 0 \<longleftrightarrow> a"
  "((if a then FLAG_HAS_COORD else 0) OR (if b then FLAG_HAS_NOTE else 0)) AND FLAG_HAS_NOTE \<noteq> 0 \<longleftrightarrow> b"
  by (cases a; cases b; simp add: FLAG_HAS_COORD_def FLAG_HAS_NOTE_def)+

text \<open>What the receiver makes of any payload the encoder produced, whatever the sender's name.\<close>

lemma signal_decode_payload:
  assumes "case es_note s of None \<Rightarrow> True | Some n \<Rightarrow> utf8_valid (take 255 n)"
  shows "signal_decode (signal_payload s) =
    (if utf8_valid (take 255 (es_sender_id s))
     then Ok (s\<lparr>es_sender_id := take 255 (es_sender_id s), es_kind := from_byte (to_byte (es_kind s)),
                es_note := map_option (take 255) (es_note s)\<rparr>)
     else Err SenderNotUtf8)"
proof -
  define fl where "fl = (if es_coord s \<noteq> None then FLAG_HAS_COORD else 0) OR
                  (if es_note s \<noteq> None then FLAG_HAS_NOTE else 0)"
  have fl: "fl AND FLAG_HAS_COORD \<noteq> 0 \<longleftrightarrow> es_coord s \<noteq> None" "fl AND FLAG_HAS_NOTE \<noteq> 0 \<longleftrightarrow> es_note s \<noteq> None"
    unfolding fl_def by (rule flag_bits)+
  have len: "unat (word_of_nat (min (length x) 255) :: u8) = min (length x) 255" for x :: bytes
    by (rule unat_of_nat_len) simp
  have tk: "length (take (min (length x) 255) x) = min (length x) 255" for x :: bytes by simp
  have p: "signal_payload s = SIGNAL_VERSION # to_byte (es_kind s) # fl # to_le 8 (es_timestamp_ms s) @
     word_of_nat (min (length (es_sender_id s)) 255) #
     take (min (length (es_sender_id s)) 255) (es_sender_id s) @
     (case es_coord s of None \<Rightarrow> [] | Some c \<Rightarrow> to_le 4 (lat_e7 c) @ to_le 4 (lon_e7 c)) @
     (case es_note s of None \<Rightarrow> []
      | Some n \<Rightarrow> word_of_nat (min (length n) 255) # take (min (length n) 255) n)"
    by (simp add: signal_payload_def fl_def Let_def MAX_NOTE_LEN_def split: option.splits)
  show ?thesis
  proof (cases "utf8_valid (take 255 (es_sender_id s))")
    case False
    then show ?thesis
      unfolding p signal_decode_def
      by (simp add: rd_at_simps len tk cong: bind_outcome_weak_cong)
  next
    case True
    then show ?thesis using assms
      unfolding p signal_decode_def
      by (cases "es_coord s"; cases "es_note s")
        (simp_all add: rd_at_simps len tk fl cong: bind_outcome_weak_cong)
  qed
qed

lemma clear_decode_payload:
  "clear_decode (clear_payload c) =
    (if utf8_valid (take 255 (ec_sender_id c)) then Ok (c\<lparr>ec_sender_id := take 255 (ec_sender_id c)\<rparr>)
     else Err SenderNotUtf8)"
proof -
  have len: "unat (word_of_nat (min (length x) 255) :: u8) = min (length x) 255" for x :: bytes
    by (rule unat_of_nat_len) simp
  have p: "clear_payload c = CLEAR_VERSION # to_le 8 (ec_timestamp_ms c) @
      word_of_nat (min (length (ec_sender_id c)) 255) # take (min (length (ec_sender_id c)) 255) (ec_sender_id c)"
    by (simp add: clear_payload_def Let_def)
  show ?thesis
    unfolding p clear_decode_def by (simp add: rd_at_simps len cong: bind_outcome_weak_cong)
qed

lemma signal_payload_length: "length (signal_payload s) < 65536"
  by (auto simp: signal_payload_def Let_def MAX_NOTE_LEN_def split: option.splits)

lemma signal_opcode_tlv: "is_tlv_opcode (signal_opcode s)"
  by (auto simp: signal_opcode_def is_tlv_opcode_def opcode_defs split: EmergencyKind.splits)

fun ok_of :: "('e, 'a) outcome \<Rightarrow> 'a option" where
  "ok_of (Ok x) = Some x"
| "ok_of _ = None"

interpretation signal_msg: tlv_message signal_encode signal_opcode "\<lambda>p. ok_of (signal_decode p)" signal_ok
proof
  fix s
  assume ok: "signal_ok s"
  show "is_tlv_opcode (signal_opcode s)" by (rule signal_opcode_tlv)
  have "signal_decode (signal_payload s) = Ok s"
    using ok signal_decode_payload [of s]
    by (auto simp: signal_ok_def split: option.splits)
  then show "\<exists>p. signal_encode s = encode_tlv (signal_opcode s) p \<and> length p < 65536 \<and>
      ok_of (signal_decode p) = Some s"
    using signal_payload_length by (auto simp: signal_encode_def)
qed

interpretation clear_msg: tlv_message clear_encode "\<lambda>_. OP_EMERGENCY_CLEAR" "\<lambda>p. ok_of (clear_decode p)"
  "\<lambda>c. utf8_valid (ec_sender_id c) \<and> length (ec_sender_id c) \<le> 255"
proof
  fix c :: EmergencyClear
  assume ok: "utf8_valid (ec_sender_id c) \<and> length (ec_sender_id c) \<le> 255"
  show "is_tlv_opcode OP_EMERGENCY_CLEAR" by (simp add: is_tlv_opcode_def opcode_defs)
  have "length (clear_payload c) < 65536" by (simp add: clear_payload_def Let_def)
  with ok show "\<exists>p. clear_encode c = encode_tlv OP_EMERGENCY_CLEAR p \<and> length p < 65536 \<and>
      ok_of (clear_decode p) = Some c"
    using clear_decode_payload [of c] by (auto simp: clear_encode_def)
qed

text \<open>Truncation keeps a note valid and within the limit.\<close>

lemma truncate_end_boundary: "is_char_boundary s (truncate_end s n) \<and> truncate_end s n \<le> n"
proof (induction s n rule: truncate_end.induct)
  case (1 s n)
  show ?case
  proof (cases "0 < n \<and> \<not> is_char_boundary s n")
    case True
    with 1 have "is_char_boundary s (truncate_end s (n - 1)) \<and> truncate_end s (n - 1) \<le> n - 1" by blast
    moreover have "truncate_end s n = truncate_end s (n - 1)"
      using True by (subst truncate_end.simps) simp
    ultimately show ?thesis by (auto intro: le_trans)
  next
    case False
    then have "truncate_end s n = n" by (subst truncate_end.simps) auto
    with False show ?thesis by (auto simp: is_char_boundary_def)
  qed
qed

lemma truncate_utf8_ok:
  "utf8_valid s \<Longrightarrow> utf8_valid (truncate_utf8 s n) \<and> length (truncate_utf8 s n) \<le> n"
  using truncate_end_boundary [of s n] utf8_valid_take_boundary by (auto simp: truncate_utf8_def)

lemma signal_new_ok:
  assumes "utf8_valid sender" "length sender \<le> 255" "kind_ok kind"
    and "case note of None \<Rightarrow> True | Some n \<Rightarrow> utf8_valid n"
  shows "signal_ok (EmergencySignal_new sender kind ts coord note)"
  using assms truncate_utf8_ok
  by (auto simp: signal_ok_def EmergencySignal_new_def MAX_NOTE_LEN_def split: option.splits)

section \<open>Beacon runs\<close>

text \<open>The ticks of an active controller, and the times at which it emitted a frame.\<close>

fun run_ticks :: "EmergencyState \<Rightarrow> u64 list \<Rightarrow> EmergencyState \<times> (u64 \<times> bytes) list" where
  "run_ticks s [] = (s, [])"
| "run_ticks s (t # ts) =
     (case emergency_tick s t of (s1, r) \<Rightarrow>
       (case run_ticks s1 ts of (s2, es) \<Rightarrow>
         (s2, (case r of None \<Rightarrow> es | Some f \<Rightarrow> (t, f) # es))))"

definition active_at :: "EmergencyState \<Rightarrow> EmergencySignal \<Rightarrow> u64 \<Rightarrow> bool" where
  "active_at s sig t \<longleftrightarrow>
     (\<exists>a. em_active s = Some a \<and> ab_signal a = sig\<lparr>es_timestamp_ms := t\<rparr> \<and> ab_last_beacon_ms a = t)"

lemma tick_active:
  assumes "active_at s sig t0"
  shows "if sat_sub t t0 < em_interval_ms s then emergency_tick s t = (s, None)
    else \<exists>s'. emergency_tick s t = (s', Some (signal_encode (sig\<lparr>es_timestamp_ms := t\<rparr>))) \<and>
      active_at s' sig t \<and> em_interval_ms s' = em_interval_ms s"
  using assms by (auto simp: active_at_def emergency_tick_def Let_def)

text \<open>Successive emissions, starting from the last one before the run, are an interval apart.\<close>

fun spaced :: "u64 \<Rightarrow> u64 \<Rightarrow> u64 list \<Rightarrow> bool" where
  "spaced iv t0 [] \<longleftrightarrow> True"
| "spaced iv t0 (t # ts) \<longleftrightarrow> iv \<le> sat_sub t t0 \<and> spaced iv t ts"

lemma run_ticks_emissions:
  assumes "active_at s sig t0"
  shows "spaced (em_interval_ms s) t0 (map fst (snd (run_ticks s ts))) \<and>
    (\<forall>(t, f) \<in> set (snd (run_ticks s ts)). f = signal_encode (sig\<lparr>es_timestamp_ms := t\<rparr>))"
  using assms
proof (induction ts arbitrary: s t0)
  case (Cons t ts)
  show ?case
  proof (cases "sat_sub t t0 < em_interval_ms s")
    case True
    with tick_active [OF Cons.prems, of t] Cons.IH [OF Cons.prems] show ?thesis
      by (simp add: prod.case_eq_if)
  next
    case False
    with tick_active [OF Cons.prems, of t] obtain s' where
      s': "emergency_tick s t = (s', Some (signal_encode (sig\<lparr>es_timestamp_ms := t\<rparr>)))"
      "active_at s' sig t" "em_interval_ms s' = em_interval_ms s" by auto
    with Cons.IH [OF s'(2)] False show ?thesis by (simp add: prod.case_eq_if not_less)
  qed
qed simp

text \<open>After every tick some emission is less than an interval old.\<close>

lemma run_ticks_fresh:
  assumes "active_at s sig t0" and "0 < em_interval_ms s" and "t \<in> set ts" and "sorted (t0 # ts)"
  shows "\<exists>e \<in> insert t0 (fst ` set (snd (run_ticks s ts))). e \<le> t \<and> t - e < em_interval_ms s"
  using assms
proof (induction ts arbitrary: s t0)
  case (Cons u ts)
  have sat: "sat_sub u t0 = u - t0" using Cons.prems(4) by (auto simp: sat_sub_def)
  show ?case
  proof (cases "sat_sub u t0 < em_interval_ms s")
    case True
    with tick_active [OF Cons.prems(1), of u] have
      run: "snd (run_ticks s (u # ts)) = snd (run_ticks s ts)" by (simp add: prod.case_eq_if)
    show ?thesis
    proof (cases "t = u")
      case True': True
      with True sat Cons.prems(4) show ?thesis by auto
    next
      case False
      with Cons.IH [OF Cons.prems(1,2)] Cons.prems(3,4) show ?thesis unfolding run by auto
    qed
  next
    case False
    with tick_active [OF Cons.prems(1), of u] obtain s' where
      s': "emergency_tick s u = (s', Some (signal_encode (sig\<lparr>es_timestamp_ms := u\<rparr>)))"
      "active_at s' sig u" "em_interval_ms s' = em_interval_ms s" by auto
    then have run: "fst ` set (snd (run_ticks s (u # ts))) = insert u (fst ` set (snd (run_ticks s' ts)))"
      by (simp add: prod.case_eq_if)
    show ?thesis
    proof (cases "t = u")
      case True
      with Cons.prems(2) show ?thesis unfolding run by auto
    next
      case ne: False
      with Cons.IH [OF s'(2)] s'(3) Cons.prems(2,3,4) show ?thesis unfolding run by auto
    qed
  qed
qed simp

section \<open>Man-down runs\<close>

text \<open>Everything that can happen to a detector, in order.\<close>

datatype md_event = Sample u64 bool fval | Cancel | Arm bool

fun md_step :: "ManDownDetector \<Rightarrow> md_event \<Rightarrow> ManDownDetector" where
  "md_step d (Sample t m tilt) = md_update d t m tilt"
| "md_step d Cancel = md_cancel d"
| "md_step d (Arm b) = set_armed d b"

definition md_run :: "ManDownDetector \<Rightarrow> md_event list \<Rightarrow> ManDownDetector" where
  "md_run d es = foldl md_step d es"

fun danger :: "ManDownConfig \<Rightarrow> md_event \<Rightarrow> bool" where
  "danger cfg (Sample t m tilt) \<longleftrightarrow> \<not> m \<and> fge tilt (tilt_threshold_deg cfg)"
| "danger cfg _ \<longleftrightarrow> False"

text \<open>Events that leave a countdown running: further danger samples, and arming an armed detector.\<close>

definition undisturbed :: "ManDownConfig \<Rightarrow> md_event \<Rightarrow> bool" where
  "undisturbed cfg e \<longleftrightarrow> danger cfg e \<or> e = Arm True"

fun ev_time :: "md_event \<Rightarrow> u64" where
  "ev_time (Sample t _ _) = t"
| "ev_time _ = 0"

fun stands_down :: "md_event \<Rightarrow> bool" where
  "stands_down Cancel \<longleftrightarrow> True"
| "stands_down (Arm b) \<longleftrightarrow> \<not> b"
| "stands_down (Sample _ _ _) \<longleftrightarrow> False"

text \<open>What the history must contain for a phase to be reached.\<close>

definition settled :: "ManDownConfig \<Rightarrow> md_event list \<Rightarrow> u64 \<Rightarrow> bool" where
  "settled cfg es t \<longleftrightarrow>
     (\<exists>pre s mid. es = pre @ s # mid \<and> danger cfg s \<and> list_all (undisturbed cfg) mid \<and> ev_time s = t)"

definition graced :: "ManDownConfig \<Rightarrow> md_event list \<Rightarrow> u64 \<Rightarrow> bool" where
  "graced cfg es t \<longleftrightarrow>
     (\<exists>pre s mid g post. es = pre @ s # mid @ g # post \<and> danger cfg s \<and> danger cfg g \<and>
        list_all (undisturbed cfg) (mid @ post) \<and>
        ev_time g = t \<and> no_motion_timeout_ms cfg \<le> sat_sub (ev_time g) (ev_time s))"

definition trip_evidence :: "ManDownConfig \<Rightarrow> md_event list \<Rightarrow> bool" where
  "trip_evidence cfg es \<longleftrightarrow>
     (\<exists>pre s mid g post k rest. es = pre @ s # mid @ g # post @ k # rest \<and>
        danger cfg s \<and> danger cfg g \<and> danger cfg k \<and> list_all (undisturbed cfg) (mid @ post) \<and>
        no_motion_timeout_ms cfg \<le> sat_sub (ev_time g) (ev_time s) \<and>
        grace_ms cfg \<le> sat_sub (ev_time k) (ev_time g) \<and> list_all (\<lambda>e. \<not> stands_down e) rest)"

definition md_justified :: "ManDownConfig \<Rightarrow> md_event list \<Rightarrow> ManDownDetector \<Rightarrow> bool" where
  "md_justified cfg es d \<longleftrightarrow> md_cfg d = cfg \<and>
     (case md_phase d of PhaseNormal \<Rightarrow> True | Settling \<Rightarrow> settled cfg es (md_phase_since_ms d)
      | Grace \<Rightarrow> graced cfg es (md_phase_since_ms d) | Tripped \<Rightarrow> trip_evidence cfg es) \<and>
     (\<not> md_armed d \<longrightarrow> md_phase d = PhaseNormal)"

lemma settled_snoc: "settled cfg es t \<Longrightarrow> undisturbed cfg e \<Longrightarrow> settled cfg (es @ [e]) t"
proof -
  assume "settled cfg es t" and e: "undisturbed cfg e"
  then obtain pre s mid where "es = pre @ s # mid" "danger cfg s" "list_all (undisturbed cfg) mid"
    "ev_time s = t" unfolding settled_def by blast
  with e show ?thesis unfolding settled_def
    by (intro exI [of _ pre] exI [of _ s] exI [of _ "mid @ [e]"]) simp
qed

lemma settled_start: "danger cfg e \<Longrightarrow> settled cfg (es @ [e]) (ev_time e)"
  unfolding settled_def by (intro exI [of _ es] exI [of _ e] exI [of _ "[]"]) simp

lemma graced_snoc: "graced cfg es t \<Longrightarrow> undisturbed cfg e \<Longrightarrow> graced cfg (es @ [e]) t"
proof -
  assume "graced cfg es t" and e: "undisturbed cfg e"
  then obtain pre s mid g post where "es = pre @ s # mid @ g # post"
    "danger cfg s" "danger cfg g" "list_all (undisturbed cfg) (mid @ post)" "ev_time g = t"
    "no_motion_timeout_ms cfg \<le> sat_sub (ev_time g) (ev_time s)" unfolding graced_def by blast
  with e show ?thesis unfolding graced_def
    by (intro exI [of _ pre] exI [of _ s] exI [of _ mid] exI [of _ g] exI [of _ "post @ [e]"]) simp
qed

lemma graced_start:
  "settled cfg es t0 \<Longrightarrow> danger cfg e \<Longrightarrow> no_motion_timeout_ms cfg \<le> sat_sub (ev_time e) t0 \<Longrightarrow>
   graced cfg (es @ [e]) (ev_time e)"
proof -
  assume "settled cfg es t0" and e: "danger cfg e" "no_motion_timeout_ms cfg \<le> sat_sub (ev_time e) t0"
  then obtain pre s mid where "es = pre @ s # mid" "danger cfg s" "list_all (undisturbed cfg) mid"
    "ev_time s = t0" unfolding settled_def by blast
  with e show ?thesis unfolding graced_def
    by (intro exI [of _ pre] exI [of _ s] exI [of _ mid] exI [of _ e] exI [of _ "[]"]) simp
qed

lemma trip_start:
  "graced cfg es t0 \<Longrightarrow> danger cfg e \<Longrightarrow> grace_ms cfg \<le> sat_sub (ev_time e) t0 \<Longrightarrow>
   trip_evidence cfg (es @ [e])"
proof -
  assume "graced cfg es t0" and e: "danger cfg e" "grace_ms cfg \<le> sat_sub (ev_time e) t0"
  then obtain pre s mid g post where "es = pre @ s # mid @ g # post"
    "danger cfg s" "danger cfg g" "list_all (undisturbed cfg) (mid @ post)" "ev_time g = t0"
    "no_motion_timeout_ms cfg \<le> sat_sub (ev_time g) (ev_time s)" unfolding graced_def by blast
  with e show ?thesis unfolding trip_evidence_def
    by (intro exI [of _ pre] exI [of _ s] exI [of _ mid] exI [of _ g] exI [of _ post] exI [of _ e]
        exI [of _ "[]"]) simp
qed

lemma trip_keep: "trip_evidence cfg es \<Longrightarrow> \<not> stands_down e \<Longrightarrow> trip_evidence cfg (es @ [e])"
proof -
  assume "trip_evidence cfg es" and e: "\<not> stands_down e"
  then obtain pre s mid g post k rest where "es = pre @ s # mid @ g # post @ k # rest"
    "danger cfg s" "danger cfg g" "danger cfg k" "list_all (undisturbed cfg) (mid @ post)"
    "no_motion_timeout_ms cfg \<le> sat_sub (ev_time g) (ev_time s)"
    "grace_ms cfg \<le> sat_sub (ev_time k) (ev_time g)" "list_all (\<lambda>e. \<not> stands_down e) rest"
    unfolding trip_evidence_def by blast
  with e show ?thesis unfolding trip_evidence_def
    by (intro exI [of _ pre] exI [of _ s] exI [of _ mid] exI [of _ g] exI [of _ post] exI [of _ k]
        exI [of _ "rest @ [e]"]) simp
qed

lemma md_step_justified:
  assumes "md_justified cfg es d"
  shows "md_justified cfg (es @ [e]) (md_step d e)"
proof (cases e)
  case Cancel
  with assms show ?thesis by (simp add: md_justified_def md_cancel_def)
next
  case (Arm b)
  show ?thesis
  proof (cases b)
    case True
    with Arm have "undisturbed cfg e" "\<not> stands_down e" by (simp_all add: undisturbed_def)
    with assms Arm True trip_keep [of cfg es e] settled_snoc [of cfg es _ e] graced_snoc [of cfg es _ e]
    show ?thesis
      by (cases "md_phase d") (auto simp: md_justified_def set_armed_def Let_def)
  next
    case False
    with assms Arm show ?thesis by (auto simp: md_justified_def set_armed_def Let_def)
  qed
next
  case (Sample t m tilt)
  show ?thesis
  proof (cases "md_armed d \<and> md_phase d \<noteq> Tripped")
    case False
    with assms Sample trip_keep [of cfg es e] show ?thesis
      by (auto simp: md_justified_def md_update_def)
  next
    case True
    show ?thesis
    proof (cases "danger cfg e")
      case False
      with True assms Sample show ?thesis by (auto simp: md_justified_def md_update_def)
    next
      case dg: True
      then have ud: "undisturbed cfg e" by (simp add: undisturbed_def)
      from dg True assms Sample show ?thesis
        using settled_start [OF dg, of es] settled_snoc [OF _ ud, of es "md_phase_since_ms d"]
          graced_snoc [OF _ ud, of es "md_phase_since_ms d"]
          graced_start [OF _ dg, of es "md_phase_since_ms d"]
          trip_start [OF _ dg, of es "md_phase_since_ms d"]
        by (cases "md_phase d") (auto simp: md_justified_def md_update_def)
    qed
  qed
qed

lemma md_run_justified:
  "md_justified cfg pre d \<Longrightarrow> md_justified cfg (pre @ es) (md_run d es)"
proof (induction es arbitrary: d pre)
  case (Cons e es)
  from Cons.IH [OF md_step_justified [OF Cons.prems, of e]] show ?case by (simp add: md_run_def)
qed (simp add: md_run_def)

lemma md_run_append: "md_run d (xs @ ys) = md_run (md_run d xs) ys"
  by (simp add: md_run_def)

lemma md_run_Cons: "md_run d (x # xs) = md_run (md_step d x) xs"
  by (simp add: md_run_def)

text \<open>A countdown that danger samples keep advancing.\<close>

definition counting :: "ManDownDetector \<Rightarrow> u64 \<Rightarrow> u64 \<Rightarrow> bool" where
  "counting d a b \<longleftrightarrow> md_armed d \<and>
     (md_phase d = Settling \<and> md_phase_since_ms d = a \<or>
      md_phase d = Grace \<and> md_phase_since_ms d \<le> b \<or> md_phase d = Tripped)"

definition alarming :: "ManDownDetector \<Rightarrow> u64 \<Rightarrow> bool" where
  "alarming d b \<longleftrightarrow> md_armed d \<and>
     (md_phase d = Grace \<and> md_phase_since_ms d \<le> b \<or> md_phase d = Tripped)"

lemma md_cfg_step [simp]: "md_cfg (md_step d e) = md_cfg d"
  by (cases e) (auto simp: md_update_def md_cancel_def set_armed_def Let_def split: ManDownPhase.splits)

lemma md_cfg_run [simp]: "md_cfg (md_run d es) = md_cfg d"
  by (induction es arbitrary: d) (auto simp: md_run_def)

lemma counting_step:
  "counting d a b \<Longrightarrow> danger (md_cfg d) e \<Longrightarrow> ev_time e \<le> b \<Longrightarrow> counting (md_step d e) a b"
  by (cases e) (auto simp: counting_def md_update_def split: ManDownPhase.splits)

lemma counting_run:
  "counting d a b \<Longrightarrow> \<forall>e \<in> set es. danger (md_cfg d) e \<and> ev_time e \<le> b \<Longrightarrow> counting (md_run d es) a b"
proof (induction es arbitrary: d)
  case (Cons e es)
  from Cons.IH [OF counting_step [OF Cons.prems(1)]] Cons.prems show ?case by (auto simp: md_run_Cons)
qed (simp add: md_run_def)

lemma counting_alarming:
  "counting d a b \<Longrightarrow> danger (md_cfg d) e \<Longrightarrow> ev_time e = b \<Longrightarrow>
   no_motion_timeout_ms (md_cfg d) \<le> sat_sub b a \<Longrightarrow> alarming (md_step d e) b"
  by (cases e) (auto simp: counting_def alarming_def md_update_def split: ManDownPhase.splits)

lemma alarming_run:
  "alarming d b \<Longrightarrow> \<forall>e \<in> set es. danger (md_cfg d) e \<Longrightarrow> alarming (md_run d es) b"
proof (induction es arbitrary: d)
  case (Cons e es)
  then have "alarming (md_step d e) b"
    by (cases e) (auto simp: alarming_def md_update_def split: ManDownPhase.splits)
  from Cons.IH [OF this] Cons.prems show ?case by (simp add: md_run_Cons)
qed (simp add: md_run_def)

lemma sat_sub_mono_right: "u \<le> b \<Longrightarrow> g \<le> sat_sub c b \<Longrightarrow> g \<le> sat_sub c u"
  by (simp add: word_le_nat_alt unat_sat_sub)

lemma alarming_trips:
  "alarming d b \<Longrightarrow> danger (md_cfg d) e \<Longrightarrow> grace_ms (md_cfg d) \<le> sat_sub (ev_time e) b \<Longrightarrow>
   is_tripped (md_step d e)"
  using sat_sub_mono_right
  by (cases e) (auto simp: alarming_def is_tripped_def md_update_def split: ManDownPhase.splits)

lemma tripped_latches:
  "is_tripped d \<Longrightarrow> list_all (\<lambda>e. \<not> stands_down e) es \<Longrightarrow> is_tripped (md_run d es)"
proof (induction es arbitrary: d)
  case (Cons e es)
  then have "is_tripped (md_step d e)"
    by (cases e) (auto simp: is_tripped_def md_update_def set_armed_def Let_def)
  with Cons show ?case by (simp add: md_run_Cons)
qed (simp add: md_run_def)

section \<open>Properties\<close>

text \<open>
  A distress signal and a stand-down survive the wire: whatever follows in the
  buffer, the receiver finds the frame under the opcode of its kind and decodes the same sender,
  kind, time, position and note, for every sender name of at most 255 bytes and every note, which
  construction has cut to at most 255 bytes without splitting a character.
\<close>

theorem emergency_roundtrip:
  assumes "utf8_valid sender" and "length sender \<le> 255" and "kind_ok kind"
    and "case note of None \<Rightarrow> True | Some n \<Rightarrow> utf8_valid n"
  shows "(\<exists>t. parse_tlv (signal_encode (EmergencySignal_new sender kind ts coord note) @ rest) = Some t \<and>
      tlv_opcode t = (if kind = ManDown then OP_MANDOWN else OP_EMERGENCY) \<and>
      signal_decode (tlv_payload t) = Ok (EmergencySignal_new sender kind ts coord note)) \<and>
    (\<exists>t. parse_tlv (clear_encode \<lparr>ec_sender_id = sender, ec_timestamp_ms = ts\<rparr> @ rest) = Some t \<and>
      tlv_opcode t = OP_EMERGENCY_CLEAR \<and>
      clear_decode (tlv_payload t) = Ok \<lparr>ec_sender_id = sender, ec_timestamp_ms = ts\<rparr>)"
proof -
  have ok: "ok_of r = Some x \<longleftrightarrow> r = Ok x" for r :: "(emergency_error, 'z) outcome" and x by (cases r) auto
  have op: "signal_opcode (EmergencySignal_new sender kind ts coord note) =
      (if kind = ManDown then OP_MANDOWN else OP_EMERGENCY)"
    by (cases kind) (simp_all add: signal_opcode_def EmergencySignal_new_def)
  from signal_msg.frame_roundtrip [OF signal_new_ok [OF assms, of ts coord], of rest]
    clear_msg.frame_roundtrip [of "\<lparr>ec_sender_id = sender, ec_timestamp_ms = ts\<rparr>" rest] assms(1,2)
  show ?thesis unfolding op ok by simp
qed

theorem emergency_roundtrip_witness:
  "\<exists>t. parse_tlv (signal_encode (EmergencySignal_new (ascii ''bob'') ManDown 77 None (Some (ascii ''help''))) @ [1]) = Some t \<and>
      tlv_opcode t = OP_MANDOWN \<and>
      signal_decode (tlv_payload t) = Ok (EmergencySignal_new (ascii ''bob'') ManDown 77 None (Some (ascii ''help'')))"
proof -
  have "utf8_valid (ascii ''bob'')" "utf8_valid (ascii ''help'')"
    by (rule utf8_valid_ascii, simp add: ascii_def)+
  then show ?thesis
    using emergency_roundtrip [of "ascii ''bob''" ManDown "Some (ascii ''help'')" 77 None "[1]"] by simp
qed

text \<open>
  The decoders are total on hostile input: no byte string makes them panic. And the exact
  condition under which the device's own distress frame is undecodable: when the sender name is longer
  than 255 bytes and byte 255 is inside a character, because the encoder clips the name by bytes; every
  other signal a device constructs is decoded.
\<close>

theorem emergency_decode_errors:
  assumes "utf8_valid sender" and "case note of None \<Rightarrow> True | Some n \<Rightarrow> utf8_valid n"
  shows "signal_decode p \<noteq> Panic \<and> clear_decode p \<noteq> Panic \<and>
    (signal_decode (signal_payload (EmergencySignal_new sender kind ts coord note)) = Err SenderNotUtf8 \<longleftrightarrow>
       255 < length sender \<and> \<not> is_char_boundary sender 255) \<and>
    ((\<exists>s. signal_decode (signal_payload (EmergencySignal_new sender kind ts coord note)) = Ok s) \<longleftrightarrow>
       \<not> (255 < length sender \<and> \<not> is_char_boundary sender 255))"
proof -
  let ?s = "EmergencySignal_new sender kind ts coord note"
  have "case es_note ?s of None \<Rightarrow> True | Some n \<Rightarrow> utf8_valid (take 255 n)"
    using assms(2) truncate_utf8_ok [of _ 255]
    by (auto simp: EmergencySignal_new_def MAX_NOTE_LEN_def split: option.splits)
  note dec = signal_decode_payload [OF this]
  have "utf8_valid (take 255 sender) \<longleftrightarrow> \<not> (255 < length sender \<and> \<not> is_char_boundary sender 255)"
  proof (cases "255 \<le> length sender")
    case True
    then show ?thesis using utf8_valid_take_iff [OF assms(1) True]
      by (auto simp: is_char_boundary_def le_less)
  qed (use assms(1) in simp)
  then show ?thesis
    using signal_decode_no_panic clear_decode_no_panic dec by (simp add: EmergencySignal_new_def)
qed

theorem emergency_decode_errors_witness:
  "signal_decode (signal_payload (EmergencySignal_new (concat (replicate 128 [0xC3, 0xA9])) Sos 0 None None))
     = Err SenderNotUtf8"
proof -
  let ?s = "concat (replicate 128 [0xC3, 0xA9]) :: bytes"
  have "utf8_valid ?s" by (rule utf8_valid_concat) (simp add: list_all_iff utf8_cont_def)
  moreover have "length ?s = 256" by (simp add: length_concat sum_list_replicate)
  moreover have "?s ! 255 = 0xA9" by (simp add: numeral_eq_Suc)
  ultimately show ?thesis
    using emergency_decode_errors [of ?s None "[]" Sos 0 None] by (simp add: is_char_boundary_def)
qed

text \<open>
  Beacon cadence: after an activation at time \<open>t0\<close> and any non-decreasing sequence of
  ticks, consecutive beacons are at least an interval apart; at every tick some beacon, the first one
  included, is less than an interval old, so the channel is never silent longer than the interval plus
  the tick period; and every beacon is the activated signal stamped with the time it was sent.
\<close>

theorem beacon_cadence:
  assumes "0 < em_interval_ms s" and "sorted (t0 # ts)"
    and "run_ticks (fst (activate_with s kind t0 coord note)) ts = (s', es)"
  shows "spaced (em_interval_ms s) t0 (map fst es) \<and>
    (\<forall>t \<in> set ts. \<exists>e \<in> insert t0 (fst ` set es). e \<le> t \<and> t - e < em_interval_ms s) \<and>
    (\<forall>(t, f) \<in> set es. f = signal_encode (EmergencySignal_new (em_sender_id s) kind t coord note))"
proof -
  let ?s = "fst (activate_with s kind t0 coord note)"
  let ?sig = "EmergencySignal_new (em_sender_id s) kind t0 coord note"
  have act: "active_at ?s ?sig t0"
    by (simp add: active_at_def activate_with_def Let_def EmergencySignal_new_def)
  have iv: "em_interval_ms ?s = em_interval_ms s" by (simp add: activate_with_def Let_def)
  have sig: "?sig\<lparr>es_timestamp_ms := t\<rparr> = EmergencySignal_new (em_sender_id s) kind t coord note" for t
    by (simp add: EmergencySignal_new_def)
  from run_ticks_emissions [OF act, of ts] run_ticks_fresh [OF act _ _ assms(2)] assms(1,3)
  show ?thesis unfolding iv sig by auto
qed

theorem beacon_cadence_witness:
  "spaced 5000 0 (map fst (snd (run_ticks (fst (activate_with (EmergencyState_new []) Sos 0 None None)) [3000, 6000])))"
proof -
  obtain s' es where r: "run_ticks (fst (activate_with (EmergencyState_new []) Sos 0 None None)) [3000, 6000] = (s', es)"
    by (cases "run_ticks (fst (activate_with (EmergencyState_new []) Sos 0 None None)) [3000, 6000]")
  show ?thesis
    using beacon_cadence [OF _ _ r] unfolding r
    by (simp add: EmergencyState_new_def DEFAULT_BEACON_INTERVAL_MS_def)
qed

text \<open>
  C30 (safety). No false man-down: whatever samples, cancellations and arming changes a new detector
  has seen, if it is tripped then the history contains a danger sample, a second one at least the
  no-motion timeout later and a third at least the grace period after that, with nothing but danger
  samples (tilted and still) between them, and no cancellation or disarming since.
\<close>

theorem mandown_trip_justified:
  "is_tripped (md_run (ManDownDetector_new cfg) es) \<Longrightarrow> trip_evidence cfg es"
proof -
  have "md_justified cfg [] (ManDownDetector_new cfg)"
    by (simp add: md_justified_def ManDownDetector_new_def)
  from md_run_justified [OF this, of es] show
    "is_tripped (md_run (ManDownDetector_new cfg) es) \<Longrightarrow> trip_evidence cfg es"
    by (simp add: md_justified_def is_tripped_def)
qed

theorem mandown_trip_justified_witness:
  "trip_evidence ManDownConfig_default [Sample 0 False (Fin 90), Sample 30000 False (Fin 90), Sample 40000 False (Fin 90)]"
  by (rule mandown_trip_justified)
    (simp add: md_run_def ManDownDetector_new_def md_update_def ManDownConfig_default_def is_tripped_def sat_sub_def)

text \<open>
  No missed man-down: an armed detector in its normal phase that is fed only danger
  samples trips as soon as they span the no-motion timeout followed by the grace period, however the
  samples are spaced; and from then on it stays tripped through every sample until it is cancelled or
  disarmed.
\<close>

theorem mandown_trips:
  assumes "md_armed d" and "md_phase d = PhaseNormal"
    and "list_all (danger (md_cfg d)) (a # xs @ b # ys @ [c])"
    and "\<forall>e \<in> set (a # xs). ev_time e \<le> ev_time b"
    and "no_motion_timeout_ms (md_cfg d) \<le> sat_sub (ev_time b) (ev_time a)"
    and "grace_ms (md_cfg d) \<le> sat_sub (ev_time c) (ev_time b)"
    and "list_all (\<lambda>e. \<not> stands_down e) later"
  shows "is_tripped (md_run d (a # xs @ b # ys @ [c] @ later))"
proof -
  have "counting (md_step d a) (ev_time a) (ev_time b)"
    using assms(1-3) by (cases a) (auto simp: counting_def md_update_def)
  from counting_run [OF this, of xs] have "counting (md_run (md_step d a) xs) (ev_time a) (ev_time b)"
    using assms(3,4) by (auto simp: list_all_iff)
  from counting_alarming [OF this, of b] have "alarming (md_step (md_run (md_step d a) xs) b) (ev_time b)"
    using assms(3,5) by simp
  from alarming_run [OF this, of ys] have
    "alarming (md_run (md_step (md_run (md_step d a) xs) b) ys) (ev_time b)"
    using assms(3) by (simp add: list_all_iff)
  from alarming_trips [OF this, of c] have
    "is_tripped (md_step (md_run (md_step (md_run (md_step d a) xs) b) ys) c)"
    using assms(3,6) by simp
  from tripped_latches [OF this assms(7)] show ?thesis by (simp add: md_run_Cons md_run_append)
qed

theorem mandown_trips_witness:
  "is_tripped (md_run (ManDownDetector_new ManDownConfig_default)
     [Sample 0 False (Fin 90), Sample 15000 False (Fin 70), Sample 30000 False (Fin 90), Sample 40000 False PosInf,
      Sample 41000 True (Fin 0)])"
  using mandown_trips [of "ManDownDetector_new ManDownConfig_default" "Sample 0 False (Fin 90)"
      "[Sample 15000 False (Fin 70)]" "Sample 30000 False (Fin 90)" "[]" "Sample 40000 False PosInf"
      "[Sample 41000 True (Fin 0)]"]
  by (simp add: ManDownDetector_new_def ManDownConfig_default_def sat_sub_def)

end
