(* ===== verification/Session.thy ===== *)
theory Session
  imports Crypto_Session Utf8_Std
begin

text \<open>
  The per-channel session registry of \<open>core/src/session.rs\<close>: generating and importing a time-limited
  channel key, looking it up, renaming and clearing it. JSON and base64 coding are parameters; random
  bytes, fresh identifiers and the clock reading are arguments.
\<close>

section \<open>Model\<close>

definition MAX_SESSION_HOURS :: u32 where "MAX_SESSION_HOURS = 72"
definition DEFAULT_SESSION_HOURS :: u32 where "DEFAULT_SESSION_HOURS = 24"
definition MAX_CHANNELS :: nat where "MAX_CHANNELS = 8"

record SessionKey =
  sk_key :: rstring
  sk_device :: rstring
  sk_created_at :: u64
  sk_expires_at :: u64
  sk_session_id :: rstring
  sk_channel :: u8
  sk_group_name :: rstring
  sk_cohort_id :: rstring

record ChannelSession =
  ch_key :: SessionKey
  ch_group_name :: rstring

record SessionManager =
  sm_channels :: "ChannelSession option list"
  sm_device_name :: rstring

datatype session_error =
  InvalidChannel u8 | TimeError | SerializeFailed | InvalidQr | Expired | ExpiresBeforeCreation
  | DurationTooLong | InvalidKeyEncoding | InvalidKeyLength nat

definition SessionManager_new :: "rstring \<Rightarrow> SessionManager" where
  "SessionManager_new device = \<lparr>sm_channels = replicate MAX_CHANNELS None, sm_device_name = device\<rparr>"

definition validate_channel :: "u8 \<Rightarrow> session_error + nat" where
  "validate_channel channel =
     (if channel < 1 \<or> word_of_nat MAX_CHANNELS < channel then Inl (InvalidChannel channel)
      else Inr (unat (channel - 1)))"

text \<open>\<open>format!("Channel {}", channel)\<close>\<close>

definition default_group_name :: "u8 \<Rightarrow> rstring" where
  "default_group_name channel = ascii ''Channel '' @ dec_digits (unat channel)"

definition generate_session_qr_with_cohort ::
  "(SessionKey \<Rightarrow> rstring option) \<Rightarrow> (bytes \<Rightarrow> rstring) \<Rightarrow> SessionManager \<Rightarrow> u8 \<Rightarrow> u32 \<Rightarrow> rstring \<Rightarrow>
   rstring option \<Rightarrow> u64 option \<Rightarrow> bytes \<Rightarrow> rstring \<Rightarrow> rstring \<Rightarrow> SessionManager \<times> (session_error + rstring)" where
  "generate_session_qr_with_cohort to_json b64 m channel duration_hours group_name cohort_id clock
     key_bytes session_uuid cohort_uuid =
     (case validate_channel channel of
        Inl e \<Rightarrow> (m, Inl e)
      | Inr ch_idx \<Rightarrow>
          let hours = (if duration_hours = 0 then DEFAULT_SESSION_HOURS else duration_hours);
              duration = max (min hours MAX_SESSION_HOURS) 1
          in case clock of
               None \<Rightarrow> (m, Inl TimeError)
             | Some now \<Rightarrow>
                 let expires = now + ucast duration * 3600;
                     cohort = (case cohort_id of
                                 Some s \<Rightarrow> if s \<noteq> [] then s else cohort_uuid
                               | None \<Rightarrow> cohort_uuid);
                     name = (if group_name = [] then default_group_name channel else group_name);
                     session = \<lparr>sk_key = b64 key_bytes, sk_device = sm_device_name m, sk_created_at = now,
                                sk_expires_at = expires, sk_session_id = session_uuid, sk_channel = channel,
                                sk_group_name = name, sk_cohort_id = cohort\<rparr>
                 in case to_json session of
                      None \<Rightarrow> (m, Inl SerializeFailed)
                    | Some json \<Rightarrow>
                        (m\<lparr>sm_channels := (sm_channels m)[ch_idx :=
                             Some \<lparr>ch_key = session, ch_group_name = name\<rparr>]\<rparr>, Inr json))"

definition generate_session_qr ::
  "(SessionKey \<Rightarrow> rstring option) \<Rightarrow> (bytes \<Rightarrow> rstring) \<Rightarrow> SessionManager \<Rightarrow> u8 \<Rightarrow> u32 \<Rightarrow> rstring \<Rightarrow>
   u64 option \<Rightarrow> bytes \<Rightarrow> rstring \<Rightarrow> rstring \<Rightarrow> SessionManager \<times> (session_error + rstring)" where
  "generate_session_qr to_json b64 m channel duration_hours group_name clock key_bytes session_uuid cohort_uuid =
     generate_session_qr_with_cohort to_json b64 m channel duration_hours group_name None clock key_bytes
       session_uuid cohort_uuid"

definition import_session ::
  "(rstring \<Rightarrow> SessionKey option) \<Rightarrow> (rstring \<Rightarrow> bytes option) \<Rightarrow> SessionManager \<Rightarrow> rstring \<Rightarrow> u64 option \<Rightarrow>
   rstring \<Rightarrow> bytes \<Rightarrow> SessionManager \<times> (session_error + u8 \<times> CryptoSession \<times> rstring)" where
  "import_session from_json unb64 m qr_json clock cohort_uuid prefix =
     (case from_json qr_json of
        None \<Rightarrow> (m, Inl InvalidQr)
      | Some session \<Rightarrow>
          let channel = sk_channel session in
          case validate_channel channel of
            Inl e \<Rightarrow> (m, Inl e)
          | Inr ch_idx \<Rightarrow>
              (case clock of
                 None \<Rightarrow> (m, Inl TimeError)
               | Some now \<Rightarrow>
                   if sk_expires_at session < now then (m, Inl Expired)
                   else if sk_expires_at session < sk_created_at session then (m, Inl ExpiresBeforeCreation)
                   else if ucast MAX_SESSION_HOURS * 3600 < sk_expires_at session - sk_created_at session
                     then (m, Inl DurationTooLong)
                   else (case unb64 (sk_key session) of
                           None \<Rightarrow> (m, Inl InvalidKeyEncoding)
                         | Some key_bytes \<Rightarrow>
                             if length key_bytes \<noteq> 32 then (m, Inl (InvalidKeyLength (length key_bytes)))
                             else
                               let crypto = from_psk key_bytes prefix;
                                   session = (if sk_cohort_id session = []
                                              then session\<lparr>sk_cohort_id := cohort_uuid\<rparr> else session);
                                   name = (if sk_group_name session = [] then default_group_name channel
                                           else sk_group_name session)
                               in (m\<lparr>sm_channels := (sm_channels m)[ch_idx :=
                                        Some \<lparr>ch_key = session, ch_group_name = name\<rparr>]\<rparr>,
                                   Inr (channel, crypto, sk_cohort_id session)))))"

definition get_psk_for_channel ::
  "(rstring \<Rightarrow> bytes option) \<Rightarrow> SessionManager \<Rightarrow> u8 \<Rightarrow> u64 option \<Rightarrow> bytes option" where
  "get_psk_for_channel unb64 m channel clock =
     (case validate_channel channel of
        Inl _ \<Rightarrow> None
      | Inr ch_idx \<Rightarrow>
          (case sm_channels m ! ch_idx of
             None \<Rightarrow> None
           | Some cs \<Rightarrow>
               (case clock of
                  None \<Rightarrow> None
                | Some now \<Rightarrow>
                    if sk_expires_at (ch_key cs) < now then None
                    else (case unb64 (sk_key (ch_key cs)) of
                            None \<Rightarrow> None
                          | Some key_bytes \<Rightarrow> if length key_bytes \<noteq> 32 then None else Some key_bytes))))"

definition get_crypto_for_channel ::
  "(rstring \<Rightarrow> bytes option) \<Rightarrow> SessionManager \<Rightarrow> u8 \<Rightarrow> u64 option \<Rightarrow> bytes \<Rightarrow> CryptoSession option" where
  "get_crypto_for_channel unb64 m channel clock prefix =
     map_option (\<lambda>k. from_psk k prefix) (get_psk_for_channel unb64 m channel clock)"

definition is_authenticated :: "SessionManager \<Rightarrow> u64 option \<Rightarrow> bool" where
  "is_authenticated m clock =
     list_ex (\<lambda>slot. case slot of
         Some cs \<Rightarrow> (case clock of Some now \<Rightarrow> now < sk_expires_at (ch_key cs) | None \<Rightarrow> False)
       | None \<Rightarrow> False) (sm_channels m)"

definition channel_is_authenticated ::
  "(rstring \<Rightarrow> bytes option) \<Rightarrow> SessionManager \<Rightarrow> u8 \<Rightarrow> u64 option \<Rightarrow> bool" where
  "channel_is_authenticated unb64 m channel clock \<longleftrightarrow>
     get_crypto_for_channel unb64 m channel clock [] \<noteq> None"

definition get_group_name :: "SessionManager \<Rightarrow> u8 \<Rightarrow> rstring" where
  "get_group_name m channel =
     (case validate_channel channel of
        Inl _ \<Rightarrow> default_group_name channel
      | Inr idx \<Rightarrow> (case sm_channels m ! idx of
                     Some cs \<Rightarrow> ch_group_name cs | None \<Rightarrow> default_group_name channel))"

definition set_group_name :: "SessionManager \<Rightarrow> u8 \<Rightarrow> rstring \<Rightarrow> SessionManager" where
  "set_group_name m channel name =
     (case validate_channel channel of
        Inl _ \<Rightarrow> m
      | Inr idx \<Rightarrow>
          (case sm_channels m ! idx of
             None \<Rightarrow> m
           | Some cs \<Rightarrow> m\<lparr>sm_channels := (sm_channels m)[idx :=
               Some (cs\<lparr>ch_group_name := name, ch_key := (ch_key cs)\<lparr>sk_group_name := name\<rparr>\<rparr>)]\<rparr>))"

definition get_session_id :: "SessionManager \<Rightarrow> u8 \<Rightarrow> rstring option" where
  "get_session_id m channel =
     (case validate_channel channel of
        Inl _ \<Rightarrow> None
      | Inr idx \<Rightarrow> map_option (\<lambda>cs. sk_session_id (ch_key cs)) (sm_channels m ! idx))"

definition get_any_session_id :: "SessionManager \<Rightarrow> rstring option" where
  "get_any_session_id m =
     (case List.map_filter (map_option (\<lambda>cs. sk_session_id (ch_key cs))) (sm_channels m) of
        [] \<Rightarrow> None | x # _ \<Rightarrow> Some x)"

definition get_active_cohort_id :: "SessionManager \<Rightarrow> u8 \<Rightarrow> u64 option \<Rightarrow> rstring option" where
  "get_active_cohort_id m channel clock =
     (case validate_channel channel of
        Inl _ \<Rightarrow> None
      | Inr idx \<Rightarrow>
          (case sm_channels m ! idx of
             None \<Rightarrow> None
           | Some cs \<Rightarrow>
               (case clock of
                  None \<Rightarrow> None
                | Some now \<Rightarrow> if sk_expires_at (ch_key cs) < now then None
                              else Some (sk_cohort_id (ch_key cs)))))"

text \<open>The values of the two status reports; printing them as JSON text is left to the library.\<close>

record ChannelStatus =
  st_channel :: u8
  st_active :: bool
  st_group_name :: rstring
  st_session :: "(rstring \<times> rstring \<times> u64 \<times> rstring) option"

definition fingerprint :: "rstring \<Rightarrow> rstring" where
  "fingerprint session_id = concat (take 8 (str_chars session_id))"

definition get_session_status :: "SessionManager \<Rightarrow> u64 option \<Rightarrow> ChannelStatus list \<times> bool" where
  "get_session_status m clock =
     (let now = (case clock of Some n \<Rightarrow> n | None \<Rightarrow> 0)
      in (map (\<lambda>i. let ch = word_of_nat (i + 1) in
                 case sm_channels m ! i of
                   Some cs \<Rightarrow>
                     let expired = sk_expires_at (ch_key cs) < now;
                         remaining = (if expired then 0 else sk_expires_at (ch_key cs) - now)
                     in \<lparr>st_channel = ch, st_active = \<not> expired, st_group_name = ch_group_name cs,
                         st_session = Some (sk_session_id (ch_key cs), sk_device (ch_key cs), remaining,
                                            fingerprint (sk_session_id (ch_key cs)))\<rparr>
                 | None \<Rightarrow> \<lparr>st_channel = ch, st_active = False, st_group_name = default_group_name ch,
                            st_session = None\<rparr>) [0..<MAX_CHANNELS],
          is_authenticated m clock))"

definition get_channel_info :: "SessionManager \<Rightarrow> u64 option \<Rightarrow> (u8 \<times> bool \<times> rstring \<times> rstring option) list" where
  "get_channel_info m clock =
     (let now = (case clock of Some n \<Rightarrow> n | None \<Rightarrow> 0)
      in map (\<lambda>i. let ch = word_of_nat (i + 1) in
                case sm_channels m ! i of
                  Some cs \<Rightarrow> (ch, now < sk_expires_at (ch_key cs), ch_group_name cs,
                              Some (fingerprint (sk_session_id (ch_key cs))))
                | None \<Rightarrow> (ch, False, default_group_name ch, None)) [0..<MAX_CHANNELS])"

definition clear_channel :: "SessionManager \<Rightarrow> u8 \<Rightarrow> SessionManager" where
  "clear_channel m channel =
     (case validate_channel channel of
        Inl _ \<Rightarrow> m
      | Inr idx \<Rightarrow> m\<lparr>sm_channels := (sm_channels m)[idx := None]\<rparr>)"

definition clear_session :: "SessionManager \<Rightarrow> SessionManager" where
  "clear_session m = m\<lparr>sm_channels := foldl (\<lambda>cs i. cs[i := None]) (sm_channels m) [0..<MAX_CHANNELS]\<rparr>"

definition set_device_name :: "SessionManager \<Rightarrow> rstring \<Rightarrow> SessionManager" where
  "set_device_name m name = m\<lparr>sm_device_name := name\<rparr>"

section \<open>The registry invariant\<close>

lemma validate_channel_iff: "validate_channel c = Inr i \<longleftrightarrow> i < 8 \<and> unat c = Suc i"
proof -
  have "unat (c - 1) = unat c - 1" if "c \<noteq> 0"
    using that by (simp add: unat_minus_one)
  moreover have "c = 0 \<longleftrightarrow> unat c = 0" by (simp add: unat_eq_0)
  ultimately show ?thesis
    by (auto simp: validate_channel_def MAX_CHANNELS_def word_less_nat_alt)
qed

lemma validate_channel_Inl: "validate_channel c = Inl e \<longleftrightarrow> e = InvalidChannel c \<and> \<not> (1 \<le> unat c \<and> unat c \<le> 8)"
  by (auto simp: validate_channel_def MAX_CHANNELS_def word_less_nat_alt)

definition slot_ok :: "(rstring \<Rightarrow> bytes option) \<Rightarrow> nat \<Rightarrow> ChannelSession \<Rightarrow> bool" where
  "slot_ok unb64 i cs \<longleftrightarrow>
     unat (sk_channel (ch_key cs)) = Suc i \<and> sk_created_at (ch_key cs) \<le> sk_expires_at (ch_key cs) \<and>
     sk_expires_at (ch_key cs) - sk_created_at (ch_key cs) \<le> 72 * 3600 \<and>
     (\<exists>k. unb64 (sk_key (ch_key cs)) = Some k \<and> length k = 32)"

definition session_wf :: "(rstring \<Rightarrow> bytes option) \<Rightarrow> SessionManager \<Rightarrow> bool" where
  "session_wf unb64 m \<longleftrightarrow>
     length (sm_channels m) = 8 \<and>
     (\<forall>i cs. i < 8 \<and> sm_channels m ! i = Some cs \<longrightarrow> slot_ok unb64 i cs)"

lemma session_wf_update:
  assumes "session_wf unb64 m" and "case v of None \<Rightarrow> True | Some cs \<Rightarrow> slot_ok unb64 i cs"
  shows "session_wf unb64 (m\<lparr>sm_channels := (sm_channels m)[i := v]\<rparr>)"
  using assms
  by (cases "i < 8") (auto simp: session_wf_def nth_list_update list_update_beyond split: option.splits if_splits)

text \<open>The documented round trip of the two libraries, on the values the code gives them.\<close>

definition b64_ok :: "(bytes \<Rightarrow> rstring) \<Rightarrow> (rstring \<Rightarrow> bytes option) \<Rightarrow> bool" where
  "b64_ok b64 unb64 \<longleftrightarrow> (\<forall>bs. unb64 (b64 bs) = Some bs)"

definition json_ok :: "('a \<Rightarrow> rstring option) \<Rightarrow> (rstring \<Rightarrow> 'a option) \<Rightarrow> bool" where
  "json_ok to_json from_json \<longleftrightarrow> (\<forall>x j. to_json x = Some j \<longrightarrow> from_json j = Some x)"

definition session_hours :: "u32 \<Rightarrow> u32" where
  "session_hours h = max (min (if h = 0 then DEFAULT_SESSION_HOURS else h) MAX_SESSION_HOURS) 1"

lemma session_hours_bounds: "1 \<le> unat (session_hours h) \<and> unat (session_hours h) \<le> 72"
  by (auto simp: session_hours_def DEFAULT_SESSION_HOURS_def MAX_SESSION_HOURS_def max_def min_def
      word_le_nat_alt)

lemma session_span: "unat (ucast (session_hours h) * 3600 :: u64) = unat (session_hours h) * 3600"
proof -
  have "unat (ucast (session_hours h) :: u64) = unat (session_hours h)"
    using session_hours_bounds [of h] by (simp add: unsigned_ucast_eq take_bit_nat_eq_self_iff)
  then show ?thesis
    using session_hours_bounds [of h] by (simp add: unat_word_ariths)
qed

lemma session_expiry:
  fixes now :: u64
  assumes "unat now < 2 ^ 63"
  shows "unat (now + ucast (session_hours h) * 3600) = unat now + unat (session_hours h) * 3600"
  using session_span [of h] session_hours_bounds [of h] assms by (simp add: unat_word_ariths)

text \<open>The session a successful generation stores, in the stored slot.\<close>

lemma generate_Inr:
  assumes "generate_session_qr_with_cohort to_json b64 m channel h name cohort clock key sid cid = (m', Inr j)"
  obtains now idx sess where "clock = Some now" "validate_channel channel = Inr idx" "to_json sess = Some j"
    "m' = m\<lparr>sm_channels := (sm_channels m)[idx := Some \<lparr>ch_key = sess, ch_group_name = sk_group_name sess\<rparr>]\<rparr>"
    "sk_key sess = b64 key" "sk_channel sess = channel" "sk_created_at sess = now"
    "sk_expires_at sess = now + ucast (session_hours h) * 3600" "sk_session_id sess = sid"
    "sk_cohort_id sess = (case cohort of Some s \<Rightarrow> if s \<noteq> [] then s else cid | None \<Rightarrow> cid)"
    "sk_group_name sess = (if name = [] then default_group_name channel else name)"
  using assms
  by (auto simp: generate_session_qr_with_cohort_def Let_def session_hours_def [symmetric]
      split: sum.splits option.splits if_splits)

lemma generate_Inl_unchanged:
  "generate_session_qr_with_cohort to_json b64 m channel h name cohort clock key sid cid = (m', Inl e) \<Longrightarrow> m' = m"
  by (auto simp: generate_session_qr_with_cohort_def Let_def split: sum.splits option.splits)

lemma slot_ok_generated:
  assumes "unat now < 2 ^ 63" "b64_ok b64 unb64" "length key = 32" "validate_channel (sk_channel sess) = Inr idx"
    "sk_key sess = b64 key" "sk_created_at sess = now"
    "sk_expires_at sess = now + ucast (session_hours h) * 3600"
  shows "slot_ok unb64 idx \<lparr>ch_key = sess, ch_group_name = g\<rparr>"
proof -
  note e = session_expiry [OF assms(1), of h]
  have "unat (sk_expires_at sess - now) = unat (session_hours h) * 3600"
    using assms(7) session_span by simp
  then show ?thesis
    using assms e session_hours_bounds [of h]
    by (simp add: slot_ok_def validate_channel_iff b64_ok_def word_le_nat_alt)
qed

lemma generate_wf:
  assumes "session_wf unb64 m" and "b64_ok b64 unb64" and "length key = 32"
    and "case clock of Some now \<Rightarrow> unat now < 2 ^ 63 | None \<Rightarrow> True"
    and g: "generate_session_qr_with_cohort to_json b64 m channel h name cohort clock key sid cid = (m', r)"
  shows "session_wf unb64 m'"
proof (cases r)
  case (Inl e)
  with g generate_Inl_unchanged assms(1) show ?thesis by metis
next
  case (Inr j)
  from generate_Inr [OF g [unfolded Inr]] obtain now idx sess where
    s: "clock = Some now" "validate_channel channel = Inr idx"
      "m' = m\<lparr>sm_channels := (sm_channels m)[idx := Some \<lparr>ch_key = sess, ch_group_name = sk_group_name sess\<rparr>]\<rparr>"
      "sk_key sess = b64 key" "sk_channel sess = channel" "sk_created_at sess = now"
      "sk_expires_at sess = now + ucast (session_hours h) * 3600" by this
  with slot_ok_generated [OF _ assms(2,3), of now sess idx h] assms(4)
  have "slot_ok unb64 idx \<lparr>ch_key = sess, ch_group_name = sk_group_name sess\<rparr>" by simp
  with session_wf_update [OF assms(1)] s(3) show ?thesis by simp
qed

text \<open>What an accepted import must satisfy, and what it stores.\<close>

definition importable :: "(rstring \<Rightarrow> bytes option) \<Rightarrow> SessionKey \<Rightarrow> u64 \<Rightarrow> bool" where
  "importable unb64 k now \<longleftrightarrow>
     1 \<le> unat (sk_channel k) \<and> unat (sk_channel k) \<le> 8 \<and> now \<le> sk_expires_at k \<and>
     sk_created_at k \<le> sk_expires_at k \<and> sk_expires_at k - sk_created_at k \<le> 72 * 3600 \<and>
     (\<exists>bs. unb64 (sk_key k) = Some bs \<and> length bs = 32)"

definition imported :: "rstring \<Rightarrow> SessionKey \<Rightarrow> SessionKey" where
  "imported cid k = (if sk_cohort_id k = [] then k\<lparr>sk_cohort_id := cid\<rparr> else k)"

lemma import_Inr_iff:
  "import_session from_json unb64 m qr clock cid prefix = (m', Inr r) \<longleftrightarrow>
     (\<exists>k now bs. from_json qr = Some k \<and> clock = Some now \<and> importable unb64 k now \<and>
        unb64 (sk_key k) = Some bs \<and>
        r = (sk_channel k, from_psk bs prefix, sk_cohort_id (imported cid k)) \<and>
        m' = m\<lparr>sm_channels := (sm_channels m)[unat (sk_channel k) - 1 :=
          Some \<lparr>ch_key = imported cid k,
                ch_group_name = (if sk_group_name k = [] then default_group_name (sk_channel k) else sk_group_name k)\<rparr>]\<rparr>)"
proof (cases "from_json qr")
  case (Some k)
  note k = this
  show ?thesis
  proof (cases "validate_channel (sk_channel k)")
    case (Inl e)
    then have "\<not> importable unb64 k now" for now by (auto simp: validate_channel_Inl importable_def)
    with Inl k show ?thesis by (simp add: import_session_def)
  next
    case (Inr idx)
    then have ch: "1 \<le> unat (sk_channel k)" "unat (sk_channel k) \<le> 8" "idx = unat (sk_channel k) - 1"
      by (auto simp: validate_channel_iff)
    show ?thesis
    proof (cases "clock = None \<or> unb64 (sk_key k) = None")
      case True
      with k Inr show ?thesis
        by (cases clock) (simp_all add: import_session_def importable_def Let_def)
    next
      case False
      then obtain now bs where n: "clock = Some now" "unb64 (sk_key k) = Some bs" by auto
      show ?thesis
      proof (cases "importable unb64 k now")
        case True
        with k Inr n ch show ?thesis
          by (auto simp: import_session_def importable_def imported_def Let_def MAX_SESSION_HOURS_def not_less)
      next
        case False
        with k Inr n ch show ?thesis
          by (auto simp: import_session_def importable_def Let_def MAX_SESSION_HOURS_def not_less)
      qed
    qed
  qed
qed (simp add: import_session_def)

lemma import_Inl_unchanged:
  "import_session from_json unb64 m qr clock cid prefix = (m', Inl e) \<Longrightarrow> m' = m"
  by (auto simp: import_session_def Let_def split: sum.splits option.splits if_splits)

lemma import_wf:
  assumes "session_wf unb64 m" and i: "import_session from_json unb64 m qr clock cid prefix = (m', r)"
  shows "session_wf unb64 m'"
proof (cases r)
  case (Inl e)
  with i import_Inl_unchanged assms(1) show ?thesis by metis
next
  case (Inr x)
  from i [unfolded Inr import_Inr_iff] obtain k now where
    k: "importable unb64 k now" and
    m': "m' = m\<lparr>sm_channels := (sm_channels m)[unat (sk_channel k) - 1 :=
          Some \<lparr>ch_key = imported cid k,
                ch_group_name = (if sk_group_name k = [] then default_group_name (sk_channel k) else sk_group_name k)\<rparr>]\<rparr>"
    by blast
  show ?thesis unfolding m'
    by (rule session_wf_update [OF assms(1)]) (use k in \<open>auto simp: importable_def imported_def slot_ok_def\<close>)
qed

lemma set_group_name_wf: "session_wf unb64 m \<Longrightarrow> session_wf unb64 (set_group_name m ch name)"
  by (auto simp: set_group_name_def validate_channel_iff session_wf_def slot_ok_def nth_list_update
      split: sum.splits option.splits)

lemma clear_channel_wf: "session_wf unb64 m \<Longrightarrow> session_wf unb64 (clear_channel m ch)"
  by (auto simp: clear_channel_def intro!: session_wf_update split: sum.splits)

lemma length_clear_fold [simp]: "length (foldl (\<lambda>cs i. cs[i := None]) xs is) = length xs"
  by (induction "is" arbitrary: xs) auto

lemma nth_clear_fold:
  "i < length xs \<Longrightarrow> foldl (\<lambda>cs i. cs[i := None]) xs is ! i = (if i \<in> set is then None else xs ! i)"
  by (induction "is" arbitrary: xs) (auto simp: nth_list_update)

lemma clear_session_all: "length (sm_channels m) = 8 \<Longrightarrow> sm_channels (clear_session m) = replicate 8 None"
  by (intro nth_equalityI) (auto simp: clear_session_def MAX_CHANNELS_def nth_clear_fold)

text \<open>Everything an application can do to a registry.\<close>

inductive session_reach ::
  "(SessionKey \<Rightarrow> rstring option) \<Rightarrow> (bytes \<Rightarrow> rstring) \<Rightarrow> (rstring \<Rightarrow> SessionKey option) \<Rightarrow>
   (rstring \<Rightarrow> bytes option) \<Rightarrow> SessionManager \<Rightarrow> bool"
  for to_json b64 from_json unb64 where
  reach_new: "session_reach to_json b64 from_json unb64 (SessionManager_new device)"
| reach_generate: "session_reach to_json b64 from_json unb64 m \<Longrightarrow> length key = 32 \<Longrightarrow>
    (case clock of Some now \<Rightarrow> unat now < 2 ^ 63 | None \<Rightarrow> True) \<Longrightarrow>
    generate_session_qr_with_cohort to_json b64 m ch h name cohort clock key sid cid = (m', r) \<Longrightarrow>
    session_reach to_json b64 from_json unb64 m'"
| reach_import: "session_reach to_json b64 from_json unb64 m \<Longrightarrow>
    import_session from_json unb64 m qr clock cid prefix = (m', r') \<Longrightarrow>
    session_reach to_json b64 from_json unb64 m'"
| reach_rename: "session_reach to_json b64 from_json unb64 m \<Longrightarrow>
    session_reach to_json b64 from_json unb64 (set_group_name m ch name)"
| reach_clear: "session_reach to_json b64 from_json unb64 m \<Longrightarrow>
    session_reach to_json b64 from_json unb64 (clear_channel m ch)"
| reach_clear_all: "session_reach to_json b64 from_json unb64 m \<Longrightarrow>
    session_reach to_json b64 from_json unb64 (clear_session m)"
| reach_device: "session_reach to_json b64 from_json unb64 m \<Longrightarrow>
    session_reach to_json b64 from_json unb64 (set_device_name m name)"

lemma session_reach_wf:
  assumes "session_reach to_json b64 from_json unb64 m" and "b64_ok b64 unb64"
  shows "session_wf unb64 m"
  using assms(1)
proof induction
  case (reach_new device)
  show ?case by (auto simp: session_wf_def SessionManager_new_def MAX_CHANNELS_def)
next
  case (reach_generate m key clock ch h name cohort sid cid m' r)
  then show ?case using generate_wf [OF _ assms(2)] by blast
next
  case (reach_import m qr clock cid prefix m' r')
  then show ?case using import_wf by blast
next
  case (reach_clear_all m)
  then have "length (sm_channels m) = 8" by (simp add: session_wf_def)
  then show ?case using clear_session_all [of m] by (auto simp: session_wf_def)
next
  case (reach_device m name)
  then show ?case by (simp add: session_wf_def set_device_name_def)
qed (auto intro: set_group_name_wf clear_channel_wf)

text \<open>Looking up the key of a well-formed registry.\<close>

lemma get_psk_slot:
  assumes "validate_channel ch = Inr i"
  shows "get_psk_for_channel unb64 m ch (Some now) =
    (case sm_channels m ! i of None \<Rightarrow> None
     | Some cs \<Rightarrow> if sk_expires_at (ch_key cs) < now then None
                  else (case unb64 (sk_key (ch_key cs)) of Some k \<Rightarrow> if length k = 32 then Some k else None | None \<Rightarrow> None))"
  using assms by (auto simp: get_psk_for_channel_def split: option.splits)

section \<open>Properties\<close>

text \<open>
  Whatever sequence of generated and scanned codes, renames and clears a registry has
  been through, hostile codes included, every occupied slot holds a session for exactly that channel,
  whose lifetime is between zero and 72 hours and whose key decodes to 32 bytes.
\<close>

theorem session_registry_invariant:
  "session_reach to_json b64 from_json unb64 m \<Longrightarrow> b64_ok b64 unb64 \<Longrightarrow> session_wf unb64 m"
  by (rule session_reach_wf)

theorem session_registry_invariant_witness:
  "session_wf Some (clear_channel (SessionManager_new (ascii ''d'')) 3)"
  by (rule session_registry_invariant [of "\<lambda>_. None" id "\<lambda>_. None"])
    (auto intro: session_reach.intros simp: b64_ok_def)

text \<open>
  Pairing works and ends: after one device generates a code for a channel and another
  scans it before it expires, both hold the same 32-byte key, cohort and session id for that channel at
  every later instant up to and including the expiry second, which is one to 72 hours after creation,
  and neither yields a key after it. The other channels of the scanning device are untouched.
\<close>

theorem session_pairing:
  assumes "b64_ok b64 unb64" and "json_ok to_json from_json" and "length key = 32"
    and "unat now < 2 ^ 63" and "now \<le> now'"
    and "length (sm_channels a) = 8" and "length (sm_channels b) = 8"
    and "generate_session_qr_with_cohort to_json b64 a ch h name cohort (Some now) key sid cid = (a', Inr j)"
    and "from_json j = Some sess" and "now' \<le> sk_expires_at sess" and "cid \<noteq> []"
  shows "\<exists>b'. import_session from_json unb64 b j (Some now') cid' prefix =
      (b', Inr (ch, from_psk key prefix, sk_cohort_id sess)) \<and>
    unat (sk_expires_at sess) = unat now + unat (session_hours h) * 3600 \<and>
    get_session_id a' ch = Some sid \<and> get_session_id b' ch = Some sid \<and>
    (\<forall>t. get_psk_for_channel unb64 a' ch (Some t) = (if t \<le> sk_expires_at sess then Some key else None) \<and>
         get_psk_for_channel unb64 b' ch (Some t) = (if t \<le> sk_expires_at sess then Some key else None)) \<and>
    (\<forall>i. Suc i \<noteq> unat ch \<longrightarrow> sm_channels b' ! i = sm_channels b ! i)"
proof -
  from generate_Inr [OF assms(8)] obtain n idx s where
    n: "Some now = Some n" and v: "validate_channel ch = Inr idx" and js: "to_json s = Some j" and
    a': "a' = a\<lparr>sm_channels := (sm_channels a)[idx := Some \<lparr>ch_key = s, ch_group_name = sk_group_name s\<rparr>]\<rparr>" and
    s': "sk_key s = b64 key" "sk_channel s = ch" "sk_created_at s = n"
      "sk_expires_at s = n + ucast (session_hours h) * 3600" "sk_session_id s = sid"
      "sk_cohort_id s = (case cohort of Some s \<Rightarrow> if s \<noteq> [] then s else cid | None \<Rightarrow> cid)"
    by this
  note s = s' [folded option.inject [THEN iffD1, OF n]]
  have sess: "sess = s" using js assms(2,9) by (simp add: json_ok_def)
  have cne: "sk_cohort_id s \<noteq> []" using s(6) assms(11) by (auto split: option.splits)
  have idx: "idx < 8" "unat ch - 1 = idx" "unat ch = Suc idx" using v by (auto simp: validate_channel_iff)
  have ok: "slot_ok unb64 idx \<lparr>ch_key = s, ch_group_name = []\<rparr>"
    using slot_ok_generated [OF assms(4,1,3)] v s by simp
  have imp: "importable unb64 s now'"
    using ok idx s assms(10) sess by (auto simp: importable_def slot_ok_def)
  have dec: "unb64 (sk_key s) = Some key" using assms(1) s(1) by (simp add: b64_ok_def)
  define b' where "b' = b\<lparr>sm_channels := (sm_channels b)[idx := Some \<lparr>ch_key = s,
      ch_group_name = (if sk_group_name s = [] then default_group_name ch else sk_group_name s)\<rparr>]\<rparr>"
  have "import_session from_json unb64 b j (Some now') cid' prefix =
      (b', Inr (ch, from_psk key prefix, sk_cohort_id sess))"
    unfolding import_Inr_iff using imp dec assms(9) sess s(2) cne idx
    by (auto simp: b'_def imported_def)
  moreover have "unat (sk_expires_at sess) = unat now + unat (session_hours h) * 3600"
    unfolding sess s(4) by (rule session_expiry [OF assms(4)])
  moreover have "get_session_id a' ch = Some sid" "get_session_id b' ch = Some sid"
    using v idx assms(6,7) s(5) by (simp_all add: get_session_id_def a' b'_def)
  moreover have "get_psk_for_channel unb64 a' ch (Some t) = (if t \<le> sk_expires_at sess then Some key else None)"
    "get_psk_for_channel unb64 b' ch (Some t) = (if t \<le> sk_expires_at sess then Some key else None)" for t
    using idx assms(3,6,7) dec by (auto simp: get_psk_slot [OF v] a' b'_def sess)
  moreover have "\<forall>i. Suc i \<noteq> unat ch \<longrightarrow> sm_channels b' ! i = sm_channels b ! i"
    using idx by (simp add: b'_def)
  ultimately show ?thesis by blast
qed

definition demo_session :: SessionKey where
  "demo_session = \<lparr>sk_key = replicate 32 7, sk_device = ascii ''a'', sk_created_at = 1000, sk_expires_at = 8200,
     sk_session_id = ascii ''s'', sk_channel = 3, sk_group_name = ascii ''g'', sk_cohort_id = ascii ''c''\<rparr>"

theorem session_pairing_witness:
  "\<exists>b'. import_session (\<lambda>_. Some demo_session) Some (SessionManager_new (ascii ''b'')) [1] (Some 5000) [2] (replicate 8 1) =
      (b', Inr (3, from_psk (replicate 32 7) (replicate 8 1), ascii ''c'')) \<and>
    get_psk_for_channel Some b' 3 (Some 8200) = Some (replicate 32 7) \<and>
    get_psk_for_channel Some b' 3 (Some 8201) = None"
proof -
  let ?tj = "\<lambda>x. if x = demo_session then Some [1] else None"
  let ?a = "SessionManager_new (ascii ''a'')"
  have g: "generate_session_qr_with_cohort ?tj id ?a 3 2 (ascii ''g'') None (Some 1000) (replicate 32 7) (ascii ''s'') (ascii ''c'') =
      (?a\<lparr>sm_channels := (sm_channels ?a)[2 := Some \<lparr>ch_key = demo_session, ch_group_name = ascii ''g''\<rparr>]\<rparr>, Inr [1])"
    by (simp add: generate_session_qr_with_cohort_def validate_channel_def MAX_CHANNELS_def demo_session_def
        SessionManager_new_def MAX_SESSION_HOURS_def max_def min_def word_le_nat_alt Let_def)
  have l: "length (sm_channels (SessionManager_new x)) = 8" for x by (simp add: SessionManager_new_def MAX_CHANNELS_def)
  have j: "json_ok ?tj (\<lambda>_. Some demo_session)" by (simp add: json_ok_def)
  have b: "b64_ok id Some" by (simp add: b64_ok_def)
  have e: "sk_expires_at demo_session = 8200" "sk_cohort_id demo_session = ascii ''c''" by (simp_all add: demo_session_def)
  from session_pairing [OF b j _ _ _ l l [of "ascii ''b''"] g, of 5000 demo_session "[2]" "replicate 8 1"]
  show ?thesis unfolding e by force
qed

text \<open>
  A scanned code is accepted exactly when it parses, names a channel from 1 to 8, has not
  expired, does not expire before its creation, lasts at most 72 hours and carries a 32-byte key; and a
  rejected code leaves the registry as it was.
\<close>

theorem session_import_exact:
  "((\<exists>r. snd (import_session from_json unb64 m qr clock cid prefix) = Inr r) \<longleftrightarrow>
     (\<exists>k now. from_json qr = Some k \<and> clock = Some now \<and> importable unb64 k now)) \<and>
   ((\<exists>e. snd (import_session from_json unb64 m qr clock cid prefix) = Inl e) \<longrightarrow>
     fst (import_session from_json unb64 m qr clock cid prefix) = m)"
proof (intro conjI impI)
  obtain m' r where i: "import_session from_json unb64 m qr clock cid prefix = (m', r)"
    by (cases "import_session from_json unb64 m qr clock cid prefix")
  show "(\<exists>r. snd (import_session from_json unb64 m qr clock cid prefix) = Inr r) \<longleftrightarrow>
     (\<exists>k now. from_json qr = Some k \<and> clock = Some now \<and> importable unb64 k now)"
  proof
    assume "\<exists>r. snd (import_session from_json unb64 m qr clock cid prefix) = Inr r"
    with i obtain x where "import_session from_json unb64 m qr clock cid prefix = (m', Inr x)" by auto
    then show "\<exists>k now. from_json qr = Some k \<and> clock = Some now \<and> importable unb64 k now"
      unfolding import_Inr_iff by blast
  next
    assume "\<exists>k now. from_json qr = Some k \<and> clock = Some now \<and> importable unb64 k now"
    then show "\<exists>r. snd (import_session from_json unb64 m qr clock cid prefix) = Inr r"
      using import_Inr_iff [of from_json unb64 m qr clock cid prefix] importable_def
      by (metis snd_conv)
  qed
next
  assume "\<exists>e. snd (import_session from_json unb64 m qr clock cid prefix) = Inl e"
  then show "fst (import_session from_json unb64 m qr clock cid prefix) = m"
    using import_Inl_unchanged [of from_json unb64 m qr clock cid prefix] by (metis prod.collapse)
qed

theorem session_import_exact_witness:
  "fst (import_session (\<lambda>_. Some demo_session) Some (SessionManager_new []) [1] (Some 8201) [2] []) = SessionManager_new []"
proof -
  have "snd (import_session (\<lambda>_. Some demo_session) Some (SessionManager_new []) [1] (Some 8201) [2] []) = Inl Expired"
    by (simp add: import_session_def demo_session_def validate_channel_def MAX_CHANNELS_def)
  then show ?thesis
    using session_import_exact [of "\<lambda>_. Some demo_session" Some "SessionManager_new []" "[1]" "Some 8201" "[2]" "[]"] by blast
qed

text \<open>
  The two notions of being authenticated differ by one second: in a well-formed registry
  some channel yields a key at a given time if and only if \<open>is_authenticated\<close> says so or some session expires
  at exactly that second, when the key is still handed out but the registry already reports none.
\<close>

theorem session_auth_boundary:
  assumes "session_wf unb64 m"
  shows "(\<exists>ch. channel_is_authenticated unb64 m ch (Some now)) \<longleftrightarrow>
    is_authenticated m (Some now) \<or> (\<exists>i cs. i < 8 \<and> sm_channels m ! i = Some cs \<and> sk_expires_at (ch_key cs) = now)"
proof -
  have slot: "channel_is_authenticated unb64 m ch (Some now) \<longleftrightarrow>
      (\<exists>i cs. validate_channel ch = Inr i \<and> sm_channels m ! i = Some cs \<and> now \<le> sk_expires_at (ch_key cs))" for ch
  proof (cases "validate_channel ch")
    case (Inl e)
    then show ?thesis by (simp add: channel_is_authenticated_def get_crypto_for_channel_def get_psk_for_channel_def)
  next
    case (Inr i)
    then have "i < 8" by (simp add: validate_channel_iff)
    with assms have "sm_channels m ! i = Some cs \<Longrightarrow> \<exists>k. unb64 (sk_key (ch_key cs)) = Some k \<and> length k = 32" for cs
      by (auto simp: session_wf_def slot_ok_def)
    with Inr show ?thesis
      by (cases "sm_channels m ! i")
        (auto simp: channel_is_authenticated_def get_crypto_for_channel_def get_psk_slot not_less)
  qed
  have all: "\<exists>ch. validate_channel ch = Inr i" if "i < 8" for i
    using that unat_of_nat_len [of "Suc i", where 'a = 8]
    by (intro exI [of _ "word_of_nat (Suc i)"]) (simp add: validate_channel_iff)
  have ex: "is_authenticated m (Some now) \<longleftrightarrow>
      (\<exists>i cs. i < 8 \<and> sm_channels m ! i = Some cs \<and> now < sk_expires_at (ch_key cs))"
    using assms by (auto simp: is_authenticated_def list_ex_length session_wf_def split: option.splits)
  show ?thesis unfolding ex slot
    using all by (auto simp: le_less validate_channel_iff) blast+
qed

theorem session_auth_boundary_witness:
  "(\<exists>ch. channel_is_authenticated Some (SessionManager_new []) ch (Some 5)) \<longleftrightarrow>
    is_authenticated (SessionManager_new []) (Some 5) \<or>
    (\<exists>i cs. i < 8 \<and> sm_channels (SessionManager_new []) ! i = Some cs \<and> sk_expires_at (ch_key cs) = 5)"
  by (rule session_auth_boundary) (auto simp: session_wf_def SessionManager_new_def MAX_CHANNELS_def)

end
