(* ===== verification/Cohort_History.thy ===== *)
theory Cohort_History
  imports Utf8_Std
begin

text \<open>
  The cohort history of \<open>core/src/cohort_history.rs\<close>: a bounded list of group records, most recent
  first, updated when the user hosts or joins a group. JSON decoding is a parameter and fresh
  identifiers are arguments.
\<close>

section \<open>Model\<close>

definition ORPHAN_MERGE_WINDOW_SECS :: u64 where "ORPHAN_MERGE_WINDOW_SECS = 30 * 24 * 3600"

datatype CohortRole = Hosted | Joined | Both

fun max_with :: "CohortRole \<Rightarrow> CohortRole \<Rightarrow> CohortRole" where
  "max_with Both _ = Both"
| "max_with _ Both = Both"
| "max_with Hosted Joined = Both"
| "max_with Joined Hosted = Both"
| "max_with Hosted Hosted = Hosted"
| "max_with Joined Joined = Joined"

record ParticipantSnapshot =
  ps_id :: rstring
  ps_name :: rstring

record CohortRecord =
  cr_cohort_id :: rstring
  cr_channel :: u8
  cr_group_name :: rstring
  cr_role :: CohortRole
  cr_host_device :: "rstring option"
  cr_last_participants :: "ParticipantSnapshot list"
  cr_last_session_id :: rstring
  cr_created_at :: u64
  cr_last_joined_at :: u64

record CohortHistory =
  chh_records :: "CohortRecord list"
  chh_cap :: nat

definition CohortHistory_new :: "nat \<Rightarrow> CohortHistory" where
  "CohortHistory_new cap = \<lparr>chh_records = [], chh_cap = max cap 1\<rparr>"

text \<open>\<open>sort_by\<close> is stable: the library's \<open>sort_key\<close>, on the negated time for descending order.\<close>

definition recency :: "CohortRecord \<Rightarrow> int" where
  "recency r = - int (unat (cr_last_joined_at r))"

definition sort_by_recency :: "CohortHistory \<Rightarrow> CohortHistory" where
  "sort_by_recency h = h\<lparr>chh_records := sort_key recency (chh_records h)\<rparr>"

definition enforce_cap :: "CohortHistory \<Rightarrow> CohortHistory" where
  "enforce_cap h =
     (if chh_cap h < length (chh_records h) then h\<lparr>chh_records := take (chh_cap h) (chh_records h)\<rparr> else h)"

definition load_from_json :: "(rstring \<Rightarrow> CohortRecord list option) \<Rightarrow> rstring \<Rightarrow> nat \<Rightarrow> CohortHistory" where
  "load_from_json from_json json cap =
     (let records = (case from_json json of Some rs \<Rightarrow> rs | None \<Rightarrow> [])
      in enforce_cap (sort_by_recency \<lparr>chh_records = records, chh_cap = max cap 1\<rparr>))"

definition cohort_find :: "CohortHistory \<Rightarrow> rstring \<Rightarrow> CohortRecord option" where
  "cohort_find h cid = find (\<lambda>r. cr_cohort_id r = cid) (chh_records h)"

definition cohort_remove :: "CohortHistory \<Rightarrow> rstring \<Rightarrow> CohortHistory" where
  "cohort_remove h cid = h\<lparr>chh_records := filter (\<lambda>r. cr_cohort_id r \<noteq> cid) (chh_records h)\<rparr>"

definition cohort_clear :: "CohortHistory \<Rightarrow> CohortHistory" where
  "cohort_clear h = h\<lparr>chh_records := []\<rparr>"

text \<open>\<open>iter_mut().find(...)\<close> followed by an update: the first match is changed in place.\<close>

fun update_first :: "('a \<Rightarrow> bool) \<Rightarrow> ('a \<Rightarrow> 'a) \<Rightarrow> 'a list \<Rightarrow> 'a list" where
  "update_first P f [] = []"
| "update_first P f (x # xs) = (if P x then f x # xs else x # update_first P f xs)"

definition resolve_host_cohort_id :: "CohortHistory \<Rightarrow> u8 \<Rightarrow> rstring \<Rightarrow> rstring option \<Rightarrow> rstring \<Rightarrow> rstring" where
  "resolve_host_cohort_id h channel group_name cohort_id uuid =
     (case cohort_id of
        Some cid \<Rightarrow> if cid \<noteq> [] then cid else
          (case find (\<lambda>r. cr_channel r = channel \<and> cr_group_name r = group_name \<and>
                          (cr_role r = Hosted \<or> cr_role r = Both)) (chh_records h) of
             Some r \<Rightarrow> cr_cohort_id r | None \<Rightarrow> uuid)
      | None \<Rightarrow>
          (case find (\<lambda>r. cr_channel r = channel \<and> cr_group_name r = group_name \<and>
                          (cr_role r = Hosted \<or> cr_role r = Both)) (chh_records h) of
             Some r \<Rightarrow> cr_cohort_id r | None \<Rightarrow> uuid))"

definition host_update :: "u8 \<Rightarrow> rstring \<Rightarrow> rstring \<Rightarrow> u64 \<Rightarrow> CohortRecord \<Rightarrow> CohortRecord" where
  "host_update channel group_name session_id now r =
     r\<lparr>cr_role := (case cr_role r of Joined \<Rightarrow> Both | _ \<Rightarrow> max_with Hosted (cr_role r)),
       cr_last_session_id := session_id, cr_last_joined_at := now, cr_group_name := group_name,
       cr_channel := channel\<rparr>"

definition upsert_host ::
  "CohortHistory \<Rightarrow> u8 \<Rightarrow> rstring \<Rightarrow> rstring option \<Rightarrow> rstring \<Rightarrow> u64 \<Rightarrow> rstring \<Rightarrow> CohortHistory \<times> rstring" where
  "upsert_host h channel group_name cohort_id session_id now uuid =
     (let resolved = resolve_host_cohort_id h channel group_name cohort_id uuid;
          recs = (if \<exists>r \<in> set (chh_records h). cr_cohort_id r = resolved
                  then update_first (\<lambda>r. cr_cohort_id r = resolved)
                         (host_update channel group_name session_id now) (chh_records h)
                  else chh_records h @
                    [\<lparr>cr_cohort_id = resolved, cr_channel = channel, cr_group_name = group_name,
                      cr_role = Hosted, cr_host_device = None, cr_last_participants = [],
                      cr_last_session_id = session_id, cr_created_at = now, cr_last_joined_at = now\<rparr>])
      in (enforce_cap (sort_by_recency (h\<lparr>chh_records := recs\<rparr>)), resolved))"

text \<open>\<open>Vec::remove\<close> at the first position that satisfies a predicate.\<close>

fun remove_first :: "('a \<Rightarrow> bool) \<Rightarrow> 'a list \<Rightarrow> 'a list" where
  "remove_first P [] = []"
| "remove_first P (x # xs) = (if P x then xs else x # remove_first P xs)"

definition is_orphan :: "rstring \<Rightarrow> u8 \<Rightarrow> rstring \<Rightarrow> rstring \<Rightarrow> u64 \<Rightarrow> CohortRecord \<Rightarrow> bool" where
  "is_orphan cid channel group_name host_device now r \<longleftrightarrow>
     (let in_window = (cr_last_joined_at r \<le> now \<and> now - cr_last_joined_at r \<le> ORPHAN_MERGE_WINDOW_SECS)
      in cr_cohort_id r \<noteq> cid \<and> cr_channel r = channel \<and> cr_group_name r = group_name \<and>
         cr_host_device r = Some host_device \<and> in_window)"

definition joiner_update :: "u8 \<Rightarrow> rstring \<Rightarrow> rstring \<Rightarrow> rstring \<Rightarrow> u64 \<Rightarrow> CohortRecord \<Rightarrow> CohortRecord" where
  "joiner_update channel group_name host_device session_id now r =
     r\<lparr>cr_role := (case cr_role r of Hosted \<Rightarrow> Both | _ \<Rightarrow> max_with Joined (cr_role r)),
       cr_host_device := Some host_device, cr_last_session_id := session_id, cr_last_joined_at := now,
       cr_group_name := group_name, cr_channel := channel\<rparr>"

definition upsert_joiner ::
  "CohortHistory \<Rightarrow> u8 \<Rightarrow> rstring \<Rightarrow> rstring option \<Rightarrow> rstring \<Rightarrow> rstring \<Rightarrow> u64 \<Rightarrow> rstring \<Rightarrow> CohortHistory \<times> rstring" where
  "upsert_joiner h channel group_name cohort_id host_device session_id now uuid =
     (let incoming = (case cohort_id of Some s \<Rightarrow> if s \<noteq> [] then Some s else None | None \<Rightarrow> None);
          kept = (case incoming of
                    Some cid \<Rightarrow> remove_first (is_orphan cid channel group_name host_device now) (chh_records h)
                  | None \<Rightarrow> chh_records h);
          resolved = (case incoming of Some s \<Rightarrow> s | None \<Rightarrow> uuid);
          recs = (if \<exists>r \<in> set kept. cr_cohort_id r = resolved
                  then update_first (\<lambda>r. cr_cohort_id r = resolved)
                         (joiner_update channel group_name host_device session_id now) kept
                  else kept @
                    [\<lparr>cr_cohort_id = resolved, cr_channel = channel, cr_group_name = group_name,
                      cr_role = Joined, cr_host_device = Some host_device, cr_last_participants = [],
                      cr_last_session_id = session_id, cr_created_at = now, cr_last_joined_at = now\<rparr>])
      in (enforce_cap (sort_by_recency (h\<lparr>chh_records := recs\<rparr>)), resolved))"

definition snapshot_participants :: "CohortHistory \<Rightarrow> rstring \<Rightarrow> ParticipantSnapshot list \<Rightarrow> CohortHistory" where
  "snapshot_participants h cid ps =
     h\<lparr>chh_records := update_first (\<lambda>r. cr_cohort_id r = cid) (\<lambda>r. r\<lparr>cr_last_participants := ps\<rparr>) (chh_records h)\<rparr>"

section \<open>The history invariant\<close>

definition newest_first :: "CohortRecord list \<Rightarrow> bool" where
  "newest_first rs \<longleftrightarrow> sorted_wrt (\<lambda>a b. cr_last_joined_at b \<le> cr_last_joined_at a) rs"

definition history_wf :: "CohortHistory \<Rightarrow> bool" where
  "history_wf h \<longleftrightarrow> newest_first (chh_records h) \<and> length (chh_records h) \<le> chh_cap h \<and> 0 < chh_cap h \<and>
     distinct (map cr_cohort_id (chh_records h))"

lemma map_id_update_first:
  "(\<And>r. cr_cohort_id (f r) = cr_cohort_id r) \<Longrightarrow> map cr_cohort_id (update_first P f rs) = map cr_cohort_id rs"
  by (induction rs) auto

lemma map_time_update_first:
  "(\<And>r. cr_last_joined_at (f r) = cr_last_joined_at r) \<Longrightarrow>
   map cr_last_joined_at (update_first P f rs) = map cr_last_joined_at rs"
  by (induction rs) auto

lemma length_update_first [simp]: "length (update_first P f rs) = length rs"
  by (induction rs) auto

lemma newest_first_times:
  "newest_first rs \<longleftrightarrow> sorted_wrt (\<lambda>a b. b \<le> a) (map cr_last_joined_at rs)"
  by (simp add: newest_first_def sorted_wrt_map)

lemma remove_first_filter_mono: "set (remove_first P xs) \<subseteq> set xs"
  by (induction xs) auto

lemma distinct_remove_first: "distinct (map f xs) \<Longrightarrow> distinct (map f (remove_first P xs))"
proof (induction xs)
  case (Cons x xs)
  have "f ` set (remove_first P xs) \<subseteq> f ` set xs" using remove_first_filter_mono by (rule image_mono)
  with Cons show ?case by auto
qed simp

lemma newest_first_sort: "newest_first (sort_key recency rs)"
proof -
  have "sorted (map recency (sort_key recency rs))" by (rule sorted_sort_key)
  then show ?thesis
    by (auto simp: newest_first_def sorted_map recency_def word_le_def elim: sorted_wrt_mono_rel [rotated])
qed

lemma sort_enforce:
  "chh_records (enforce_cap (sort_by_recency (h\<lparr>chh_records := rs\<rparr>))) = take (chh_cap h) (sort_key recency rs)"
  "chh_cap (enforce_cap (sort_by_recency (h\<lparr>chh_records := rs\<rparr>))) = chh_cap h"
  by (auto simp: enforce_cap_def sort_by_recency_def)

lemma sort_enforce_wf:
  assumes "0 < chh_cap h" and "distinct (map cr_cohort_id rs)"
  shows "history_wf (enforce_cap (sort_by_recency (h\<lparr>chh_records := rs\<rparr>)))"
proof -
  have "distinct (map cr_cohort_id (sort_key recency rs))"
    using assms(2) by (simp add: distinct_map)
  then have "distinct (map cr_cohort_id (take (chh_cap h) (sort_key recency rs)))"
    by (simp add: take_map [symmetric])
  moreover have "newest_first (take (chh_cap h) (sort_key recency rs))"
    using newest_first_sort [of rs] by (simp add: newest_first_def sorted_wrt_take)
  ultimately show ?thesis using assms(1) by (simp add: history_wf_def sort_enforce)
qed

lemma host_update_id [simp]: "cr_cohort_id (host_update c g s n r) = cr_cohort_id r"
  by (simp add: host_update_def)

lemma joiner_update_id [simp]: "cr_cohort_id (joiner_update c g d s n r) = cr_cohort_id r"
  by (simp add: joiner_update_def)

text \<open>Both upserts end the same way: put a record in the list, sort, cut.\<close>

definition upserted :: "rstring \<Rightarrow> (CohortRecord \<Rightarrow> CohortRecord) \<Rightarrow> CohortRecord \<Rightarrow> CohortRecord list \<Rightarrow> CohortRecord list" where
  "upserted cid f new rs =
     (if \<exists>r \<in> set rs. cr_cohort_id r = cid then update_first (\<lambda>r. cr_cohort_id r = cid) f rs else rs @ [new])"

lemma upserted_distinct:
  assumes "distinct (map cr_cohort_id rs)" "\<And>r. cr_cohort_id (f r) = cr_cohort_id r" "cr_cohort_id new = cid"
  shows "distinct (map cr_cohort_id (upserted cid f new rs))"
  using assms by (auto simp: upserted_def map_id_update_first)

lemma update_first_member:
  "find P rs = Some r \<Longrightarrow> f r \<in> set (update_first P f rs)"
  by (induction rs) (auto split: if_splits)

lemma upserted_member:
  "(case find (\<lambda>r. cr_cohort_id r = cid) rs of Some r \<Rightarrow> f r | None \<Rightarrow> new) \<in> set (upserted cid f new rs)"
proof (cases "find (\<lambda>r. cr_cohort_id r = cid) rs")
  case None
  then have "\<not> (\<exists>r \<in> set rs. cr_cohort_id r = cid)" by (auto simp: find_None_iff)
  with None show ?thesis by (simp add: upserted_def)
next
  case (Some r)
  then have "\<exists>r \<in> set rs. cr_cohort_id r = cid" by (auto simp: find_Some_iff dest: nth_mem)
  with update_first_member [OF Some, of f] Some show ?thesis by (simp add: upserted_def)
qed

lemma filter_update_first:
  "(\<And>r. P r \<Longrightarrow> \<not> Q r) \<Longrightarrow> (\<And>r. P r \<Longrightarrow> \<not> Q (f r)) \<Longrightarrow> filter Q (update_first P f rs) = filter Q rs"
  by (induction rs) auto

lemma upserted_others:
  assumes "\<And>r. cr_cohort_id (f r) = cr_cohort_id r" "cr_cohort_id new = cid"
  shows "filter (\<lambda>r. now \<le> cr_last_joined_at r \<and> cr_cohort_id r \<noteq> cid) (upserted cid f new rs) =
    filter (\<lambda>r. now \<le> cr_last_joined_at r \<and> cr_cohort_id r \<noteq> cid) rs"
  using assms by (simp add: upserted_def filter_update_first)

text \<open>A record survives the cut when fewer than \<open>cap\<close> others are at least as recent.\<close>

lemma survives_cut:
  assumes "r \<in> set rs" and "distinct (map cr_cohort_id rs)"
    and "length (filter (\<lambda>x. cr_last_joined_at r \<le> cr_last_joined_at x \<and> cr_cohort_id x \<noteq> cr_cohort_id r) rs) < cap"
  shows "r \<in> set (take cap (sort_key recency rs))"
proof -
  let ?xs = "sort_key recency rs"
  let ?P = "\<lambda>x. cr_last_joined_at r \<le> cr_last_joined_at x \<and> cr_cohort_id x \<noteq> cr_cohort_id r"
  from assms(1) have "r \<in> set ?xs" by simp
  then obtain i where i: "i < length ?xs" "?xs ! i = r" by (metis in_set_conv_nth)
  have dist: "distinct (map cr_cohort_id ?xs)" using assms(2) by (simp add: distinct_map)
  have before: "?P (?xs ! j)" if "j < i" for j
  proof -
    have "cr_last_joined_at (?xs ! i) \<le> cr_last_joined_at (?xs ! j)"
      using newest_first_sort [of rs] that i(1) by (simp add: newest_first_def sorted_wrt_iff_nth_less)
    moreover have "cr_cohort_id (?xs ! j) \<noteq> cr_cohort_id (?xs ! i)"
      using dist that i(1) nth_eq_iff_index_eq [of "map cr_cohort_id ?xs" j i] by simp
    ultimately show ?thesis using i(2) by simp
  qed
  have "i = length (filter ?P (take i ?xs))"
    using before i(1) by (subst filter_True) (auto simp: in_set_conv_nth)
  also have "\<dots> \<le> length (filter ?P ?xs)"
    by (subst (2) append_take_drop_id [of i ?xs, symmetric]) (simp only: filter_append length_append le_add1)
  also have "\<dots> = length (filter ?P rs)"
    using arg_cong [OF mset_filter [of ?P ?xs], of size] arg_cong [OF mset_filter [of ?P rs], of size]
    by (simp only: size_mset mset_sort)
  finally have "i < cap" using assms(3) by simp
  then have "take cap ?xs ! i = r" "i < length (take cap ?xs)" using i by simp_all
  then show ?thesis using nth_mem by blast
qed

lemma find_distinct:
  "distinct (map cr_cohort_id rs) \<Longrightarrow> r \<in> set rs \<Longrightarrow> find (\<lambda>x. cr_cohort_id x = cr_cohort_id r) rs = Some r"
  by (induction rs) (auto simp: image_iff)

lemma upsert_found:
  assumes "distinct (map cr_cohort_id rs)" "\<And>r. cr_cohort_id (f r) = cr_cohort_id r" "cr_cohort_id new = cid"
    and "x = (case find (\<lambda>r. cr_cohort_id r = cid) rs of Some r \<Rightarrow> f r | None \<Rightarrow> new)"
    and "length (filter (\<lambda>r. cr_last_joined_at x \<le> cr_last_joined_at r \<and> cr_cohort_id r \<noteq> cid) rs) < chh_cap h"
  shows "cohort_find (enforce_cap (sort_by_recency (h\<lparr>chh_records := upserted cid f new rs\<rparr>))) cid = Some x"
proof -
  have id: "cr_cohort_id x = cid" using assms(2-4) by (auto simp: find_Some_iff split: option.splits)
  have mem: "x \<in> set (upserted cid f new rs)" unfolding assms(4) by (rule upserted_member)
  have dist: "distinct (map cr_cohort_id (upserted cid f new rs))" using upserted_distinct assms(1-3) by blast
  have "x \<in> set (take (chh_cap h) (sort_key recency (upserted cid f new rs)))"
    using survives_cut [OF mem dist, of "chh_cap h"] assms(5) upserted_others [OF assms(2,3)] id by simp
  moreover have "distinct (map cr_cohort_id (take (chh_cap h) (sort_key recency (upserted cid f new rs))))"
  proof -
    have "distinct (map cr_cohort_id (sort_key recency (upserted cid f new rs)))"
      using dist by (simp add: distinct_map)
    then show ?thesis by (simp add: take_map [symmetric])
  qed
  ultimately show ?thesis using find_distinct id by (fastforce simp: cohort_find_def sort_enforce)
qed

definition host_record :: "rstring \<Rightarrow> u8 \<Rightarrow> rstring \<Rightarrow> rstring \<Rightarrow> u64 \<Rightarrow> CohortRecord" where
  "host_record cid channel name sid now =
     \<lparr>cr_cohort_id = cid, cr_channel = channel, cr_group_name = name, cr_role = Hosted, cr_host_device = None,
      cr_last_participants = [], cr_last_session_id = sid, cr_created_at = now, cr_last_joined_at = now\<rparr>"

definition joiner_record :: "rstring \<Rightarrow> u8 \<Rightarrow> rstring \<Rightarrow> rstring \<Rightarrow> rstring \<Rightarrow> u64 \<Rightarrow> CohortRecord" where
  "joiner_record cid channel name host sid now =
     \<lparr>cr_cohort_id = cid, cr_channel = channel, cr_group_name = name, cr_role = Joined,
      cr_host_device = Some host, cr_last_participants = [], cr_last_session_id = sid,
      cr_created_at = now, cr_last_joined_at = now\<rparr>"

lemma upsert_host_eq:
  "upsert_host h ch name cid sid now uuid =
     (let c = resolve_host_cohort_id h ch name cid uuid
      in (enforce_cap (sort_by_recency (h\<lparr>chh_records := upserted c (host_update ch name sid now)
            (host_record c ch name sid now) (chh_records h)\<rparr>)), c))"
  by (simp add: upsert_host_def Let_def upserted_def host_record_def)

definition joiner_kept :: "CohortHistory \<Rightarrow> u8 \<Rightarrow> rstring \<Rightarrow> rstring option \<Rightarrow> rstring \<Rightarrow> u64 \<Rightarrow> CohortRecord list" where
  "joiner_kept h ch name cid host now =
     (case cid of
        Some s \<Rightarrow> if s \<noteq> [] then remove_first (is_orphan s ch name host now) (chh_records h) else chh_records h
      | None \<Rightarrow> chh_records h)"

definition joiner_id :: "rstring option \<Rightarrow> rstring \<Rightarrow> rstring" where
  "joiner_id cid uuid = (case cid of Some s \<Rightarrow> if s \<noteq> [] then s else uuid | None \<Rightarrow> uuid)"

lemma upsert_joiner_eq:
  "upsert_joiner h ch name cid host sid now uuid =
     (enforce_cap (sort_by_recency (h\<lparr>chh_records := upserted (joiner_id cid uuid)
        (joiner_update ch name host sid now) (joiner_record (joiner_id cid uuid) ch name host sid now)
        (joiner_kept h ch name cid host now)\<rparr>)), joiner_id cid uuid)"
  by (cases cid) (simp_all add: upsert_joiner_def Let_def upserted_def joiner_record_def joiner_kept_def joiner_id_def)

lemma joiner_kept_distinct:
  "distinct (map cr_cohort_id (chh_records h)) \<Longrightarrow> distinct (map cr_cohort_id (joiner_kept h ch name cid host now))"
  by (auto simp: joiner_kept_def distinct_remove_first split: option.splits)

lemma records_ids [simp]:
  "cr_cohort_id (host_record c ch name sid now) = c" "cr_cohort_id (joiner_record c ch name host sid now) = c"
  by (simp_all add: host_record_def joiner_record_def)

lemma upsert_host_wf: "history_wf h \<Longrightarrow> history_wf (fst (upsert_host h ch name cid sid now uuid))"
  by (simp add: upsert_host_eq Let_def history_wf_def [of h] sort_enforce_wf upserted_distinct)

lemma upsert_joiner_wf: "history_wf h \<Longrightarrow> history_wf (fst (upsert_joiner h ch name cid host sid now uuid))"
  by (simp add: upsert_joiner_eq history_wf_def [of h] sort_enforce_wf upserted_distinct joiner_kept_distinct)

inductive cohort_reach :: "(rstring \<Rightarrow> CohortRecord list option) \<Rightarrow> CohortHistory \<Rightarrow> bool" for from_json where
  cohort_new: "cohort_reach from_json (CohortHistory_new cap)"
| cohort_load: "(case from_json js of Some rs \<Rightarrow> distinct (map cr_cohort_id rs) | None \<Rightarrow> True) \<Longrightarrow>
    cohort_reach from_json (load_from_json from_json js cap)"
| cohort_host: "cohort_reach from_json h \<Longrightarrow> cohort_reach from_json (fst (upsert_host h ch name cid sid now uuid))"
| cohort_join: "cohort_reach from_json h \<Longrightarrow> cohort_reach from_json (fst (upsert_joiner h ch name cid host sid now uuid))"
| cohort_snap: "cohort_reach from_json h \<Longrightarrow> cohort_reach from_json (snapshot_participants h c ps)"
| cohort_rm: "cohort_reach from_json h \<Longrightarrow> cohort_reach from_json (cohort_remove h c)"
| cohort_cl: "cohort_reach from_json h \<Longrightarrow> cohort_reach from_json (cohort_clear h)"

lemma cohort_reach_wf: "cohort_reach from_json h \<Longrightarrow> history_wf h"
proof (induction rule: cohort_reach.induct)
  case (cohort_new cap)
  show ?case by (simp add: history_wf_def CohortHistory_new_def newest_first_def)
next
  case (cohort_load js cap)
  then show ?case
    using sort_enforce_wf [of "\<lparr>chh_records = [], chh_cap = max cap 1\<rparr>"]
    by (auto simp: load_from_json_def Let_def split: option.splits)
next
  case (cohort_snap h c ps)
  then show ?case
    by (simp add: history_wf_def snapshot_participants_def newest_first_times map_id_update_first map_time_update_first)
next
  case (cohort_rm h c)
  then show ?case
    using le_trans [OF length_filter_le [of "\<lambda>r. cr_cohort_id r \<noteq> c" "chh_records h"]]
    by (simp add: history_wf_def cohort_remove_def newest_first_def sorted_wrt_filter distinct_map_filter)
next
  case (cohort_cl h)
  then show ?case by (simp add: history_wf_def cohort_clear_def newest_first_def)
qed (auto intro: upsert_host_wf upsert_joiner_wf)

section \<open>Properties\<close>

text \<open>
  However a history was loaded and used, its records are ordered from the most to the
  least recently joined, there are at most \<open>cap\<close> of them and no two have the same cohort id.
\<close>

theorem cohort_history_invariant: "cohort_reach from_json h \<Longrightarrow> history_wf h"
  by (rule cohort_reach_wf)

theorem cohort_history_invariant_witness:
  "history_wf (fst (upsert_host (CohortHistory_new 2) 3 (ascii ''g'') None (ascii ''s'') 7 (ascii ''u'')))"
  by (rule cohort_history_invariant [of "\<lambda>_. None"]) (intro cohort_host cohort_new)

text \<open>
  Hosting a group records it: the resolved id is found afterwards with the new channel,
  name, session and time, the creation time of an existing record kept, and the role recording that the
  user has hosted (and also joined, if the record says so), unless \<open>cap\<close> other records are at least
  as recent, which only a clock that went backwards or equal timestamps can bring about.
\<close>

theorem cohort_host_recorded:
  assumes "cohort_reach from_json h" and "upsert_host h ch name cid sid now uuid = (h', c)"
    and "length (filter (\<lambda>r. now \<le> cr_last_joined_at r \<and> cr_cohort_id r \<noteq> c) (chh_records h)) < chh_cap h"
  shows "\<exists>r. cohort_find h' c = Some r \<and> cr_channel r = ch \<and> cr_group_name r = name \<and>
    cr_last_session_id r = sid \<and> cr_last_joined_at r = now \<and>
    cr_created_at r = (case cohort_find h c of Some o' \<Rightarrow> cr_created_at o' | None \<Rightarrow> now) \<and>
    cr_role r = (case cohort_find h c of Some o' \<Rightarrow> if cr_role o' = Hosted then Hosted else Both | None \<Rightarrow> Hosted)"
proof -
  have wf: "history_wf h" using assms(1) by (rule cohort_reach_wf)
  have c: "c = resolve_host_cohort_id h ch name cid uuid"
    and h': "h' = enforce_cap (sort_by_recency (h\<lparr>chh_records := upserted c (host_update ch name sid now)
            (host_record c ch name sid now) (chh_records h)\<rparr>))"
    using assms(2) by (auto simp: upsert_host_eq Let_def)
  define x where "x = (case find (\<lambda>r. cr_cohort_id r = c) (chh_records h) of
      Some r \<Rightarrow> host_update ch name sid now r | None \<Rightarrow> host_record c ch name sid now)"
  have t: "cr_last_joined_at x = now" by (simp add: x_def host_update_def host_record_def split: option.splits)
  have "cohort_find h' c = Some x"
    unfolding h' using wf assms(3) t by (intro upsert_found) (auto simp: history_wf_def x_def)
  then show ?thesis
    by (intro exI [of _ x])
      (auto simp: x_def host_update_def host_record_def cohort_find_def split: option.splits CohortRole.splits)
qed

theorem cohort_host_recorded_witness:
  "\<exists>r. cohort_find (fst (upsert_host (CohortHistory_new 2) 3 (ascii ''g'') None (ascii ''s'') 7 (ascii ''u''))) (ascii ''u'') = Some r \<and>
     cr_role r = Hosted"
proof -
  let ?h = "CohortHistory_new 2"
  have u: "upsert_host ?h 3 (ascii ''g'') None (ascii ''s'') 7 (ascii ''u'') =
      (fst (upsert_host ?h 3 (ascii ''g'') None (ascii ''s'') 7 (ascii ''u'')), ascii ''u'')"
    by (simp add: upsert_host_eq Let_def resolve_host_cohort_id_def CohortHistory_new_def)
  show ?thesis
    using cohort_host_recorded [OF cohort_new [of "\<lambda>_. None"] u]
    by (auto simp: CohortHistory_new_def cohort_find_def)
qed

end
