(* ===== verification/Civil_Date.thy ===== *)
theory Civil_Date
  imports Utf8_Std
begin

text \<open>
  The UTC time stamps of \<open>core/src/audit.rs\<close>: \<open>civil_from_unix_days\<close>, Howard Hinnant's conversion of a
  day number to a date of the proleptic Gregorian calendar, and the formatting of milliseconds. The
  machine integers of the code are mathematical integers here; the bounds proved below keep every
  intermediate value inside its type for every \<open>u64\<close> time stamp.
\<close>

section \<open>Model\<close>

text \<open>Rust's \<open>/\<close> on signed integers truncates towards zero.\<close>

definition trunc_div :: "int \<Rightarrow> int \<Rightarrow> int" where
  "trunc_div a b = (if a < 0 then - ((- a) div b) else a div b)"

definition civil_from_unix_days :: "int \<Rightarrow> int \<times> int \<times> int" where
  "civil_from_unix_days z0 =
     (let z = z0 + 719468;
          era = trunc_div (if 0 \<le> z then z else z - 146096) 146097;
          doe = z - era * 146097;
          yoe = (doe - doe div 1460 + doe div 36524 - doe div 146096) div 365;
          y = yoe + era * 400;
          doy = doe - (365 * yoe + yoe div 4 - yoe div 100);
          mp = (5 * doy + 2) div 153;
          d = doy - (153 * mp + 2) div 5 + 1;
          m = (if mp < 10 then mp + 3 else mp - 9);
          y = y + (if m \<le> 2 then 1 else 0)
      in (y, m, d))"

text \<open>\<open>{n:0w}\<close>\<close>

definition pad0 :: "nat \<Rightarrow> nat \<Rightarrow> rstring" where
  "pad0 w n = replicate (w - length (dec_digits n)) 0x30 @ dec_digits n"

definition unix_ms_to_utc :: "u64 \<Rightarrow> rstring" where
  "unix_ms_to_utc ts_unix_ms =
     (let secs = unat ts_unix_ms div 1000; millis = unat ts_unix_ms mod 1000;
          days = secs div 86400; rest = secs mod 86400;
          hh = rest div 3600; mm = (rest mod 3600) div 60; ss = rest mod 60
      in case civil_from_unix_days (int days) of
           (y, m, d) \<Rightarrow>
             pad0 4 (nat y) @ ascii ''-'' @ pad0 2 (nat m) @ ascii ''-'' @ pad0 2 (nat d) @ ascii ''T'' @
             pad0 2 hh @ ascii '':'' @ pad0 2 mm @ ascii '':'' @ pad0 2 ss @ ascii ''.'' @ pad0 3 millis @ ascii ''Z'')"

section \<open>The Gregorian calendar\<close>

definition leap :: "int \<Rightarrow> bool" where
  "leap y \<longleftrightarrow> y mod 4 = 0 \<and> (y mod 100 \<noteq> 0 \<or> y mod 400 = 0)"

definition days_in_month :: "int \<Rightarrow> int \<Rightarrow> int" where
  "days_in_month y m =
     (if m = 2 then (if leap y then 29 else 28) else if m \<in> {4, 6, 9, 11} then 30 else 31)"

fun next_day :: "int \<times> int \<times> int \<Rightarrow> int \<times> int \<times> int" where
  "next_day (y, m, d) =
     (if d < days_in_month y m then (y, m, d + 1) else if m < 12 then (y, m + 1, 1) else (y + 1, 1, 1))"

section \<open>Years of an era\<close>

text \<open>
  An era is 400 years that start on the first of March. Day \<open>year_start y\<close> of an era is the first day of its
  year \<open>y\<close>; the code recovers the year from the day by \<open>era_year\<close>.
\<close>

definition year_start :: "int \<Rightarrow> int" where
  "year_start y = 365 * y + y div 4 - y div 100 + y div 400"

definition era_year :: "int \<Rightarrow> int" where
  "era_year doe = (doe - doe div 1460 + doe div 36524 - doe div 146096) div 365"

lemma year_bounds_check:
  "list_all (\<lambda>y. era_year (year_start y) = y \<and> era_year (year_start (y + 1) - 1) = y) [0..399]"
  by code_simp

lemma year_length_check:
  "list_all (\<lambda>y. year_start (y + 1) - year_start y = (if leap (y + 1) then 366 else 365)) [0..399]"
  by code_simp

lemma year_bounds:
  "0 \<le> y \<Longrightarrow> y < 400 \<Longrightarrow> era_year (year_start y) = y \<and> era_year (year_start (y + 1) - 1) = y"
  using year_bounds_check by (simp add: list_all_iff)

lemma year_length:
  "0 \<le> y \<Longrightarrow> y < 400 \<Longrightarrow> year_start (y + 1) = year_start y + (if leap (y + 1) then 366 else 365)"
proof -
  assume "0 \<le> y" "y < 400"
  then have "y \<in> set [0..399]" by simp
  with year_length_check have "year_start (y + 1) - year_start y = (if leap (y + 1) then 366 else 365)"
    unfolding list_all_iff by (rule bspec)
  then show ?thesis by linarith
qed

lemma year_exists: "0 \<le> d \<Longrightarrow> d < year_start (int n) \<Longrightarrow> \<exists>y. 0 \<le> y \<and> y < int n \<and> year_start y \<le> d \<and> d < year_start (y + 1)"
proof (induction n)
  case 0
  then show ?case by (simp add: year_start_def)
next
  case (Suc n)
  show ?case
  proof (cases "d < year_start (int n)")
    case True
    with Suc obtain y where "0 \<le> y" "y < int n" "year_start y \<le> d" "d < year_start (y + 1)" by blast
    then show ?thesis by (intro exI [of _ y]) simp
  next
    case False
    with Suc.prems show ?thesis by (intro exI [of _ "int n"]) (simp add: add.commute)
  qed
qed

text \<open>The dividend of \<open>era_year\<close> grows with the day.\<close>

lemma sub_div_mono:
  fixes c d k :: int
  assumes "0 < k" "c \<le> d"
  shows "c - c div k \<le> d - d div k"
proof (cases "c div k = d div k")
  case False
  with assms have "c div k + 1 \<le> d div k" using zdiv_mono1 [of c d k] by linarith
  with assms(1) have "(k - 1) * (c div k + 1) \<le> (k - 1) * (d div k)" by (intro mult_left_mono) auto
  then have "(k - 1) * (c div k) + (k - 1) \<le> (k - 1) * (d div k)" by (simp add: distrib_left)
  moreover have "c - c div k = (k - 1) * (c div k) + c mod k" "d - d div k = (k - 1) * (d div k) + d mod k"
    by (simp_all add: left_diff_distrib flip: minus_div_mult_eq_mod)
  moreover have "c mod k \<le> k - 1" "0 \<le> d mod k" using assms(1) by (simp_all add: zle_diff1_eq)
  ultimately show ?thesis by linarith
qed (use assms in simp)

lemma year_start_mono: "c \<le> d \<Longrightarrow> year_start c \<le> year_start d"
  using sub_div_mono [of 100 c d] zdiv_mono1 [of c d 4] zdiv_mono1 [of c d 400]
  unfolding year_start_def by linarith

lemma year_start_400: "year_start 400 = 146097"
  by (simp add: year_start_def)

lemma era_year_mono:
  assumes "0 \<le> c" "c \<le> d" "d < 146097"
  shows "era_year c \<le> era_year d"
proof -
  have q: "c div 36524 \<le> d div 36524" "c - c div 1460 \<le> d - d div 1460"
    using assms(2) by (simp_all add: zdiv_mono1 sub_div_mono [of 1460])
  have last_day: "e div 146096 = (if e = 146096 then 1 else 0)" if "0 \<le> e" "e < 146097" for e :: int
    using that by (auto intro: div_pos_pos_trivial)
  show ?thesis
  proof (cases "d = 146096")
    case False
    then show ?thesis using assms q last_day [of c] last_day [of d]
      unfolding era_year_def by (intro zdiv_mono1) auto
  next
    case True
    show ?thesis
    proof (cases "c = d")
      case False
      with True assms have c: "c \<le> 146095" by simp
      then have "c div 36524 \<le> 3" by simp
      moreover have "c - c div 1460 \<le> 146095 - 146095 div 1460" using c by (intro sub_div_mono) simp_all
      ultimately show ?thesis using True False assms last_day [of c]
        unfolding era_year_def by (intro zdiv_mono1) auto
    qed simp
  qed
qed

lemma era_year_unique:
  assumes "0 \<le> y" "y < 400" "year_start y \<le> d" "d < year_start (y + 1)"
  shows "era_year d = y"
proof -
  have s: "0 \<le> year_start y" using year_start_mono [OF assms(1)] by (simp add: year_start_def)
  have "d < 146097" using assms(2,4) year_start_mono [of "y + 1" 400] year_start_400 by simp
  then have "era_year (year_start y) \<le> era_year d" "era_year d \<le> era_year (year_start (y + 1) - 1)"
    using assms s year_start_mono [of "y + 1" 400] year_start_400
    by (auto intro!: era_year_mono)
  with year_bounds [OF assms(1,2)] show ?thesis by simp
qed

lemma era_year_cases:
  assumes "0 \<le> d" "d < 146097"
  shows "0 \<le> era_year d \<and> era_year d < 400 \<and> year_start (era_year d) \<le> d \<and> d < year_start (era_year d + 1)"
proof -
  from assms have "\<exists>y. 0 \<le> y \<and> y < 400 \<and> year_start y \<le> d \<and> d < year_start (y + 1)"
    using year_exists [of d 400] by (simp add: year_start_400)
  with era_year_unique show ?thesis by blast
qed

section \<open>Days of a year\<close>

text \<open>The month and day of the \<open>doy\<close>-th day of a year that starts in March.\<close>

definition month_day :: "int \<Rightarrow> int \<times> int" where
  "month_day doy =
     (let mp = (5 * doy + 2) div 153
      in (if mp < 10 then mp + 3 else mp - 9, doy - (153 * mp + 2) div 5 + 1))"

definition month_step :: "int \<Rightarrow> bool" where
  "month_step doy =
     (case month_day doy of (m, d) \<Rightarrow>
        (if m = 2 then d < 28 \<and> month_day (doy + 1) = (2, d + 1)
         else if d < days_in_month 0 m then month_day (doy + 1) = (m, d + 1)
         else d = days_in_month 0 m \<and> month_day (doy + 1) = (if m < 12 then (m + 1, 1) else (1, 1))))"

lemma month_step_check: "list_all month_step [0..363]"
  by code_simp

lemma month_day_ends: "month_day 0 = (3, 1)" "month_day 364 = (2, 28)" "month_day 365 = (2, 29)"
  by code_simp+

definition era_date :: "int \<Rightarrow> int \<Rightarrow> int \<Rightarrow> int \<times> int \<times> int" where
  "era_date era y doy =
     (case month_day doy of (m, d) \<Rightarrow> (y + era * 400 + (if m \<le> 2 then 1 else 0), m, d))"

lemma civil_era_date:
  assumes "0 \<le> z"
  defines "doe \<equiv> (z + 719468) mod 146097"
  shows "civil_from_unix_days z =
    era_date ((z + 719468) div 146097) (era_year doe) (doe - year_start (era_year doe))"
proof -
  have d: "doe = z + 719468 - (z + 719468) div 146097 * 146097"
    unfolding doe_def by (simp add: minus_div_mult_eq_mod)
  have "0 \<le> doe" "doe < 146097" unfolding doe_def by simp_all
  then have "era_year doe div 400 = 0" using era_year_cases [of doe] by simp
  then have y: "year_start (era_year doe) = 365 * era_year doe + era_year doe div 4 - era_year doe div 100"
    by (simp add: year_start_def)
  have e: "trunc_div (if 0 \<le> z + 719468 then z + 719468 else z + 719468 - 146096) 146097 = (z + 719468) div 146097"
    using assms by (simp add: trunc_div_def)
  show ?thesis
    unfolding civil_from_unix_days_def Let_def e d [symmetric] era_year_def [symmetric] y era_date_def month_day_def
    by simp
qed

lemma leap_era: "leap (y + era * 400) = leap y"
proof -
  have "(y + era * 400) mod k = y mod k" if "k dvd 400" for k
    using that by (metis dvd_mult mod_add_right_eq dvd_imp_mod_0 add.right_neutral)
  then show ?thesis by (simp add: leap_def)
qed

text \<open>One day later inside a year, and across its end.\<close>

lemma era_date_step:
  assumes "0 \<le> doy" "doy + 1 < (if leap (y + 1) then 366 else 365)"
  shows "era_date era y (doy + 1) = next_day (era_date era y doy)"
proof (cases "doy = 364")
  case True
  then have "leap (y + era * 400 + 1)" using assms leap_era [of "y + 1" era] by (simp add: algebra_simps split: if_splits)
  then show ?thesis using True month_day_ends by (simp add: era_date_def days_in_month_def)
next
  case False
  with assms have "doy \<in> set [0..363]" by (auto split: if_splits)
  with month_step_check have "month_step doy" unfolding list_all_iff by blast
  then show ?thesis
    by (cases "month_day doy")
      (auto simp: month_step_def era_date_def days_in_month_def split: if_splits)
qed

lemma era_date_year_end:
  assumes "doy + 1 = (if leap (y + 1) then 366 else 365)"
  shows "next_day (era_date era y doy) = (y + 1 + era * 400, 3, 1)"
proof -
  have "leap (y + era * 400 + 1) = leap (y + 1)" using leap_era [of "y + 1" era] by (simp add: algebra_simps)
  moreover have "doy = (if leap (y + 1) then 365 else 364)" using assms by auto
  ultimately show ?thesis using month_day_ends by (auto simp: era_date_def days_in_month_def)
qed

lemma era_date_zero: "era_date era y 0 = (y + era * 400, 3, 1)"
  by (simp add: era_date_def month_day_ends)

lemma civil_step:
  assumes "0 \<le> z"
  shows "civil_from_unix_days (z + 1) = next_day (civil_from_unix_days z)"
proof -
  define e where "e = z + 719468"
  define doe era where "doe = e mod 146097" and "era = e div 146097"
  define y where "y = era_year doe"
  have e1: "z + 1 + 719468 = e + 1" by (simp add: e_def)
  have doe: "0 \<le> doe" "doe < 146097" by (simp_all add: doe_def)
  note y = era_year_cases [OF doe, folded y_def]
  note len = year_length [of y]
  have now: "civil_from_unix_days z = era_date era y (doe - year_start y)"
    using civil_era_date [OF assms] unfolding e_def [symmetric] by (simp add: doe_def era_def y_def)
  have later: "civil_from_unix_days (z + 1) =
      era_date ((e + 1) div 146097) (era_year ((e + 1) mod 146097))
        ((e + 1) mod 146097 - year_start (era_year ((e + 1) mod 146097)))"
    using civil_era_date [of "z + 1"] assms unfolding e1 by simp
  have e: "e = era * 146097 + doe" by (simp add: era_def doe_def)
  show ?thesis
  proof (cases "doe = 146096")
    case True
    then have "y = 399" unfolding y_def by (simp add: era_year_def)
    have q: "(e + 1) div 146097 = era + 1" "(e + 1) mod 146097 = 0" using e True by simp_all
    have "doe - year_start y + 1 = (if leap (y + 1) then 366 else 365)"
      unfolding True \<open>y = 399\<close> by (simp add: year_start_def leap_def)
    from era_date_year_end [OF this, of era] show ?thesis
      unfolding now later q by (simp add: era_year_def year_start_def era_date_zero \<open>y = 399\<close>)
  next
    case False
    with doe have d1: "(doe + 1) div 146097 = 0" "(doe + 1) mod 146097 = doe + 1"
      by (simp_all add: div_pos_pos_trivial mod_pos_pos_trivial)
    have q: "(e + 1) div 146097 = era" "(e + 1) mod 146097 = doe + 1"
      unfolding e add.assoc using d1 by simp_all
    show ?thesis
    proof (cases "doe + 1 = year_start (y + 1)")
      case True
      then have "y \<noteq> 399" using False by (auto simp: year_start_400)
      then have "era_year (doe + 1) = y + 1" unfolding True using y by (simp add: year_bounds)
      moreover have "doe - year_start y + 1 = (if leap (y + 1) then 366 else 365)" using True len y by simp
      ultimately show ?thesis
        unfolding now later q by (simp add: era_date_year_end era_date_zero True)
    next
      case False
      then have "era_year (doe + 1) = y" using y by (intro era_year_unique) auto
      then show ?thesis unfolding now later q
        using era_date_step [of "doe - year_start y" y era] len y False by (simp add: algebra_simps)
    qed
  qed
qed

section \<open>Properties\<close>

text \<open>
  The day conversion is the Gregorian calendar: day 0 is the first of January 1970, and
  the date of every following day is the date after it by the rules of month lengths and leap years.
  Every date of a \<open>u64\<close> millisecond time stamp has a year that fits \<open>i32\<close>.
\<close>

theorem civil_is_gregorian:
  "civil_from_unix_days (int n) = (next_day ^^ n) (1970, 1, 1) \<and>
   (n \<le> 2 ^ 64 div 86400000 \<longrightarrow> fst (civil_from_unix_days (int n)) < 2 ^ 31)"
proof
  show "civil_from_unix_days (int n) = (next_day ^^ n) (1970, 1, 1)"
  proof (induction n)
    case 0
    have "civil_from_unix_days 0 = (1970, 1, 1)" by code_simp
    then show ?case by simp
  next
    case (Suc n)
    then show ?case using civil_step [of "int n"] by (simp add: add.commute)
  qed
  show "n \<le> 2 ^ 64 div 86400000 \<longrightarrow> fst (civil_from_unix_days (int n)) < 2 ^ 31"
  proof
    assume n: "n \<le> 2 ^ 64 div 86400000"
    let ?e = "int n + 719468"
    have "era_year (?e mod 146097) < 400" using era_year_cases [of "?e mod 146097"] by simp
    moreover have "?e div 146097 \<le> 213504701982 div 146097" using n by (intro zdiv_mono1) simp_all
    ultimately show "fst (civil_from_unix_days (int n)) < 2 ^ 31"
      by (simp add: civil_era_date era_date_def split: prod.split)
  qed
qed

theorem civil_is_gregorian_witness:
  "civil_from_unix_days 59 = (1970, 3, 1) \<and> (next_day ^^ 59) (1970, 1, 1) = (1970, 3, 1) \<and>
   fst (civil_from_unix_days 20000) < 2 ^ 31"
proof -
  have "civil_from_unix_days 59 = (1970, 3, 1)" by code_simp
  moreover from this have "(next_day ^^ 59) (1970, 1, 1) = (1970, 3, 1)" using civil_is_gregorian [of 59] by simp
  moreover have "fst (civil_from_unix_days 20000) < 2 ^ 31"
    using civil_is_gregorian [of 20000, THEN conjunct2] by simp
  ultimately show ?thesis by simp
qed

end
