(* ===== verification/Audit_Chain.thy ===== *)
theory Audit_Chain
  imports Civil_Date
begin

text \<open>
  The technical audit of \<open>core/src/audit.rs\<close>: the hash-chained event list, its verification, retention,
  redaction of details and the export package. SHA-256 is the parameter \<open>sha\<close> (the digest bytes), the
  JSON printer of serde_json the parameter \<open>to_string\<close>, and the wall clock an argument. A panic of
  \<open>String::truncate\<close> is the \<open>Panic\<close> outcome.
\<close>

section \<open>Model\<close>

definition FORMAT :: rstring where "FORMAT = ascii ''sassytalkie-technical-audit-v1''"

text \<open>The disclaimer holds one em dash, the bytes \<open>E2 80 94\<close>.\<close>

definition DISCLAIMER :: rstring where
  "DISCLAIMER = ascii ''technical audit export '' @ [0xE2, 0x80, 0x94] @
     ascii '' not a legal chain of custody / not court-certified evidence''"

definition MAX_EVENTS :: nat where "MAX_EVENTS = 500"
definition MAX_DETAIL_CHARS :: nat where "MAX_DETAIL_CHARS = 256"
definition DEFAULT_RETENTION_DAYS :: u32 where "DEFAULT_RETENTION_DAYS = 30"

record AuditEvent =
  ae_ts :: u64
  ae_event :: rstring
  ae_detail :: rstring
  ae_previous :: rstring
  ae_hash :: rstring

record AuditChain =
  ac_events :: "AuditEvent list"
  ac_max_events :: nat

definition AuditChain_default :: AuditChain where
  "AuditChain_default = \<lparr>ac_events = [], ac_max_events = MAX_EVENTS\<rparr>"

definition AuditChain_new :: "nat \<Rightarrow> AuditChain" where
  "AuditChain_new max_events = \<lparr>ac_events = [], ac_max_events = max max_events 1\<rparr>"

definition hex_lower :: "bytes \<Rightarrow> rstring" where
  "hex_lower bs = concat (map hex_byte bs)"

definition sha256_hex :: "(bytes \<Rightarrow> bytes) \<Rightarrow> bytes \<Rightarrow> rstring" where
  "sha256_hex sha bs = hex_lower (sha bs)"

text \<open>The text \<open>{previous}|{ts_unix_ms}|{event}|{detail}\<close> and its digest.\<close>

definition event_preimage :: "rstring \<Rightarrow> u64 \<Rightarrow> rstring \<Rightarrow> rstring \<Rightarrow> bytes" where
  "event_preimage previous ts event detail =
     previous @ 0x7C # dec_digits (unat ts) @ 0x7C # event @ 0x7C # detail"

definition event_hash :: "(bytes \<Rightarrow> bytes) \<Rightarrow> rstring \<Rightarrow> u64 \<Rightarrow> rstring \<Rightarrow> rstring \<Rightarrow> rstring" where
  "event_hash sha previous ts event detail = hex_lower (sha (event_preimage previous ts event detail))"

text \<open>The loop of \<open>verify_events\<close>, with the running hash as its accumulator.\<close>

fun verify_from :: "(bytes \<Rightarrow> bytes) \<Rightarrow> rstring \<Rightarrow> AuditEvent list \<Rightarrow> bool" where
  "verify_from sha previous [] = True"
| "verify_from sha previous (item # rest) =
     (if ae_previous item \<noteq> previous then False
      else (let expected = event_hash sha previous (ae_ts item) (ae_event item) (ae_detail item)
            in if ae_hash item \<noteq> expected then False else verify_from sha expected rest))"

definition verify_events :: "(bytes \<Rightarrow> bytes) \<Rightarrow> AuditEvent list \<Rightarrow> bool" where
  "verify_events sha events =
     verify_from sha (case events of [] \<Rightarrow> [] | e # _ \<Rightarrow> ae_previous e) events"

definition verify :: "(bytes \<Rightarrow> bytes) \<Rightarrow> AuditChain \<Rightarrow> bool" where
  "verify sha c = verify_events sha (ac_events c)"

text \<open>A character that is one byte of a class, as \<open>chars().all(...)\<close> tests it.\<close>

definition ascii_char :: "(u8 \<Rightarrow> bool) \<Rightarrow> bytes \<Rightarrow> bool" where
  "ascii_char p c = (case c of [b] \<Rightarrow> p b | _ \<Rightarrow> False)"

definition starts_with :: "rstring \<Rightarrow> rstring \<Rightarrow> bool" where
  "starts_with s p \<longleftrightarrow> take (length p) s = p"

definition looks_like_secret :: "rstring \<Rightarrow> bool" where
  "looks_like_secret token =
     (let t = trim_chars (ascii_char (\<lambda>b. b = 0x2C \<or> b = 0x3B \<or> b = 0x3D)) token
      in if 32 \<le> length t \<and> list_all (ascii_char is_ascii_hexdigit) (str_chars t) then True
         else if 24 \<le> length t \<and>
                 list_all (ascii_char (\<lambda>b. is_ascii_alphanumeric b \<or> b = 0x2B \<or> b = 0x2F \<or> b = 0x3D)) (str_chars t) \<and>
                 (0x2B \<in> set t \<or> 0x2F \<in> set t \<or> (t \<noteq> [] \<and> last t = 0x3D)) then True
         else (let lower = to_ascii_lowercase t
               in starts_with lower (ascii ''psk='') \<or> starts_with lower (ascii ''key='') \<or>
                  starts_with lower (ascii ''token='')))"

definition REDACTED :: rstring where "REDACTED = ascii ''[redacted]''"

definition redact_token :: "rstring \<Rightarrow> rstring" where
  "redact_token token = (if looks_like_secret token then REDACTED else token)"

fun redact_loop :: "rstring \<Rightarrow> rstring list \<Rightarrow> (unit, rstring) outcome" where
  "redact_loop out [] = Ok out"
| "redact_loop out (token # rest) =
     (let redacted = redact_token token;
          out = (if out \<noteq> [] then out @ [0x20] else out) @ redacted
      in if MAX_DETAIL_CHARS \<le> length out
         then (if is_char_boundary out MAX_DETAIL_CHARS then Ok (take MAX_DETAIL_CHARS out) else Panic)
         else redact_loop out rest)"

definition redact_detail :: "rstring \<Rightarrow> (unit, rstring) outcome" where
  "redact_detail detail =
     bind_outcome (redact_loop [] (split_whitespace detail)) (\<lambda>out.
       Ok (if out = [] then concat (take MAX_DETAIL_CHARS (str_chars detail)) else out))"

definition append_event ::
  "(bytes \<Rightarrow> bytes) \<Rightarrow> AuditChain \<Rightarrow> u64 \<Rightarrow> rstring \<Rightarrow> rstring \<Rightarrow> (unit, AuditChain \<times> AuditEvent) outcome" where
  "append_event sha c ts event detail =
     (let previous = (if ac_events c = [] then [] else ae_hash (last (ac_events c)))
      in bind_outcome (redact_detail detail) (\<lambda>normalized.
         let hash = event_hash sha previous ts event normalized;
             rec = \<lparr>ae_ts = ts, ae_event = event, ae_detail = normalized, ae_previous = previous, ae_hash = hash\<rparr>;
             events = ac_events c @ [rec]
         in Ok (c\<lparr>ac_events :=
                   (if ac_max_events c < length events then drop (length events - ac_max_events c) events
                    else events)\<rparr>, rec)))"

definition retain_since :: "AuditChain \<Rightarrow> u64 \<Rightarrow> AuditChain" where
  "retain_since c oldest = c\<lparr>ac_events := filter (\<lambda>e. oldest \<le> ae_ts e) (ac_events c)\<rparr>"

definition clear_events :: "AuditChain \<Rightarrow> AuditChain" where
  "clear_events c = c\<lparr>ac_events := []\<rparr>"

text \<open>The export package, over the value type of serde_json; an assignment \<open>body[k] = v\<close> adds a member.\<close>

datatype json = JNull | JBool bool | JNum nat | JStr rstring | JArr "json list" | JObj "(string \<times> json) list"

fun json_set :: "json \<Rightarrow> string \<Rightarrow> json \<Rightarrow> json" where
  "json_set (JObj ms) k v = JObj (AList.update k v ms)"
| "json_set j k v = j"

definition event_json :: "AuditEvent \<Rightarrow> json" where
  "event_json e = JObj
     [(''ts'', JNum (unat (ae_ts e))), (''ts_utc'', JStr (unix_ms_to_utc (ae_ts e))), (''event'', JStr (ae_event e)),
      (''detail'', JStr (ae_detail e)), (''previous'', JStr (ae_previous e)), (''hash'', JStr (ae_hash e))]"

definition export_body ::
  "(bytes \<Rightarrow> bytes) \<Rightarrow> AuditChain \<Rightarrow> rstring \<Rightarrow> rstring \<Rightarrow> rstring \<Rightarrow> u64 \<Rightarrow> json" where
  "export_body sha c app_id app_version install_id now_ms = JObj
     [(''format'', JStr FORMAT), (''disclaimer'', JStr DISCLAIMER), (''hash_algorithm'', JStr (ascii ''SHA-256'')),
      (''exported_at_utc'', JStr (unix_ms_to_utc now_ms)), (''app_id'', JStr app_id),
      (''app_version'', JStr app_version), (''install_id'', JStr install_id),
      (''event_count'', JNum (length (ac_events c))),
      (''first_previous_hash'', JStr (if ac_events c = [] then [] else ae_previous (hd (ac_events c)))),
      (''head_hash'', JStr (if ac_events c = [] then [] else ae_hash (last (ac_events c)))),
      (''chain_valid'', JBool (verify sha c)), (''retention_max_events'', JNum MAX_EVENTS),
      (''events'', JArr (map event_json (ac_events c)))]"

definition export_package ::
  "(json \<Rightarrow> rstring) \<Rightarrow> (bytes \<Rightarrow> bytes) \<Rightarrow> AuditChain \<Rightarrow> rstring \<Rightarrow> rstring \<Rightarrow> rstring \<Rightarrow> u64 \<Rightarrow> rstring" where
  "export_package to_string sha c app_id app_version install_id now_ms =
     (let body = export_body sha c app_id app_version install_id now_ms;
          payload_hash = sha256_hex sha (to_string body);
          body = json_set body ''manifest_hash'' (JStr payload_hash);
          body = json_set body ''manifest_signature'' JNull;
          body = json_set body ''signature_alg'' (JStr (ascii ''none''))
      in to_string body)"

section \<open>Chains\<close>

definition event_ok :: "(bytes \<Rightarrow> bytes) \<Rightarrow> AuditEvent \<Rightarrow> bool" where
  "event_ok sha e \<longleftrightarrow> ae_hash e = event_hash sha (ae_previous e) (ae_ts e) (ae_event e) (ae_detail e)"

text \<open>Verification is local: every event hashes to its own hash, and points at the event before it.\<close>

lemma verify_from_Cons:
  "verify_from sha p (e # es) \<longleftrightarrow> ae_previous e = p \<and> event_ok sha e \<and> verify_from sha (ae_hash e) es"
  by (auto simp: event_ok_def Let_def)

declare verify_from.simps(2) [simp del]
declare verify_from_Cons [simp]

lemma verify_from_append:
  "verify_from sha p (xs @ ys) \<longleftrightarrow>
     verify_from sha p xs \<and> verify_from sha (if xs = [] then p else ae_hash (last xs)) ys"
  by (induction xs arbitrary: p) auto

lemma verify_events_append:
  "verify_events sha (xs @ ys) \<Longrightarrow> verify_events sha xs \<and> verify_events sha ys"
proof -
  assume v: "verify_events sha (xs @ ys)"
  then have "verify_events sha ys"
    by (cases ys; cases xs)
      (simp_all add: verify_events_def verify_from_append)
  with v show ?thesis by (cases xs) (simp_all add: verify_events_def verify_from_append)
qed

lemma verify_events_drop: "verify_events sha es \<Longrightarrow> verify_events sha (drop n es)"
  by (metis append_take_drop_id verify_events_append)

lemma verify_events_snoc:
  "verify_events sha (xs @ [x]) \<longleftrightarrow>
     verify_events sha xs \<and> event_ok sha x \<and> (xs \<noteq> [] \<longrightarrow> ae_previous x = ae_hash (last xs))"
  by (cases xs) (auto simp: verify_events_def verify_from_append)

text \<open>The operations of a chain whose clock does not step back.\<close>

inductive audit_reach :: "(bytes \<Rightarrow> bytes) \<Rightarrow> nat \<Rightarrow> AuditChain \<Rightarrow> bool" for sha n where
  reach_new: "audit_reach sha n (AuditChain_new n)"
| reach_append:
    "audit_reach sha n c \<Longrightarrow> ac_events c = [] \<or> ae_ts (last (ac_events c)) \<le> ts \<Longrightarrow>
     append_event sha c ts ev d = Ok (c', e) \<Longrightarrow> audit_reach sha n c'"
| reach_retain: "audit_reach sha n c \<Longrightarrow> audit_reach sha n (retain_since c t)"
| reach_clear: "audit_reach sha n c \<Longrightarrow> audit_reach sha n (clear_events c)"

definition chain_ok :: "(bytes \<Rightarrow> bytes) \<Rightarrow> nat \<Rightarrow> AuditChain \<Rightarrow> bool" where
  "chain_ok sha n c \<longleftrightarrow>
     verify_events sha (ac_events c) \<and> sorted (map ae_ts (ac_events c)) \<and>
     length (ac_events c) \<le> ac_max_events c \<and> ac_max_events c = max n 1"

lemma append_event_Ok:
  assumes "append_event sha c ts ev d = Ok (c', e)"
  shows "ac_max_events c' = ac_max_events c"
    and "ac_events c' = drop (length (ac_events c) + 1 - ac_max_events c) (ac_events c @ [e])"
    and "event_ok sha e" and "ae_ts e = ts"
    and "ac_events c \<noteq> [] \<Longrightarrow> ae_previous e = ae_hash (last (ac_events c))"
proof -
  from assms obtain x where c': "c' = c\<lparr>ac_events :=
        (if ac_max_events c < length (ac_events c @ [e]) then drop (length (ac_events c @ [e]) - ac_max_events c) (ac_events c @ [e])
         else ac_events c @ [e])\<rparr>"
      and e: "e = \<lparr>ae_ts = ts, ae_event = ev, ae_detail = x,
        ae_previous = if ac_events c = [] then [] else ae_hash (last (ac_events c)),
        ae_hash = event_hash sha (if ac_events c = [] then [] else ae_hash (last (ac_events c))) ts ev x\<rparr>"
    unfolding append_event_def Let_def bind_outcome_Ok_iff by blast
  show "ac_max_events c' = ac_max_events c"
    and "ac_events c' = drop (length (ac_events c) + 1 - ac_max_events c) (ac_events c @ [e])"
    unfolding c' by simp_all
  show "event_ok sha e" "ae_ts e = ts"
    and "ac_events c \<noteq> [] \<Longrightarrow> ae_previous e = ae_hash (last (ac_events c))"
    unfolding e event_ok_def by simp_all
qed

text \<open>In a chain sorted by time, retention drops a prefix.\<close>

lemma retain_is_drop:
  "sorted (map ae_ts es) \<Longrightarrow> \<exists>k. filter (\<lambda>e. t \<le> ae_ts e) es = drop k es"
proof (induction es)
  case (Cons e es)
  then obtain k where k: "filter (\<lambda>e. t \<le> ae_ts e) es = drop k es" by auto
  show ?case
  proof (cases "t \<le> ae_ts e")
    case True
    with Cons.prems have "\<forall>x \<in> set es. t \<le> ae_ts x" by auto
    with True show ?thesis by (intro exI [of _ 0]) simp
  next
    case False
    with k show ?thesis by (intro exI [of _ "Suc k"]) simp
  qed
qed simp

lemma chain_ok_append:
  assumes "chain_ok sha n c" "ac_events c = [] \<or> ae_ts (last (ac_events c)) \<le> ts"
    and "append_event sha c ts ev d = Ok (c', e)"
  shows "chain_ok sha n c'"
proof -
  note a = append_event_Ok [OF assms(3)]
  have "verify_events sha (ac_events c @ [e])"
    using assms(1) a by (simp add: chain_ok_def verify_events_snoc)
  moreover have "sorted (map ae_ts (ac_events c @ [e]))"
    using assms(1,2) a(4)
    by (cases "ac_events c" rule: rev_cases) (auto simp: chain_ok_def sorted_append)
  ultimately have "verify_events sha (ac_events c') \<and> sorted (map ae_ts (ac_events c'))"
    unfolding a(2) drop_map [symmetric] by (intro conjI verify_events_drop sorted_wrt_drop)
  moreover have "length (ac_events c') \<le> ac_max_events c'" unfolding a(1,2) by simp
  ultimately show ?thesis using assms(1) a(1) by (simp add: chain_ok_def)
qed

lemma audit_reach_ok: "audit_reach sha n c \<Longrightarrow> chain_ok sha n c"
proof (induction rule: audit_reach.induct)
  case reach_new
  then show ?case by (simp add: chain_ok_def AuditChain_new_def verify_events_def)
next
  case (reach_append c ts ev d c' e)
  then show ?case using chain_ok_append by blast
next
  case (reach_retain c t)
  then obtain k where "filter (\<lambda>e. t \<le> ae_ts e) (ac_events c) = drop k (ac_events c)"
    using retain_is_drop unfolding chain_ok_def by blast
  with reach_retain.IH show ?case
    by (auto simp: chain_ok_def retain_since_def verify_events_drop sorted_wrt_drop simp flip: drop_map)
next
  case (reach_clear c)
  then show ?case by (simp add: chain_ok_def clear_events_def verify_events_def)
qed

text \<open>The hashed text of an event determines the event when the first and third fields hold no bar.\<close>

lemma dec_digits_no_bar: "0x7C \<notin> set (dec_digits n)"
  using dec_digits_range [of "0x7C" n] by auto

lemma event_preimage_inject:
  assumes "0x7C \<notin> set p" "0x7C \<notin> set p'" "0x7C \<notin> set e" "0x7C \<notin> set e'"
  shows "event_preimage p t e d = event_preimage p' t' e' d' \<longleftrightarrow> p = p' \<and> t = t' \<and> e = e' \<and> d = d'"
  using assms by (auto simp: event_preimage_def split_first_inject dec_digits_no_bar word_unat_eq_iff)

definition hashed_text :: "AuditEvent \<Rightarrow> bytes" where
  "hashed_text e = event_preimage (ae_previous e) (ae_ts e) (ae_event e) (ae_detail e)"

definition bar_free :: "AuditEvent \<Rightarrow> bool" where
  "bar_free e \<longleftrightarrow> 0x7C \<notin> set (ae_previous e) \<and> 0x7C \<notin> set (ae_event e)"

lemma same_hash_same_event:
  assumes "event_ok sha e" "event_ok sha e'" "bar_free e" "bar_free e'" "ae_hash e = ae_hash e'"
    and "sha (hashed_text e) = sha (hashed_text e') \<Longrightarrow> hashed_text e = hashed_text e'"
  shows "e = e'"
proof -
  have "sha (hashed_text e) = sha (hashed_text e')"
    using assms(1,2,5) by (simp add: event_ok_def event_hash_def hashed_text_def hex_lower_def hex_bytes_inject)
  with assms(6) have "hashed_text e = hashed_text e'" .
  with assms(3,4) have "ae_previous e = ae_previous e' \<and> ae_ts e = ae_ts e' \<and> ae_event e = ae_event e' \<and>
      ae_detail e = ae_detail e'"
    by (simp add: hashed_text_def bar_free_def event_preimage_inject)
  with assms(5) show ?thesis by simp
qed

section \<open>Redaction\<close>

text \<open>The tokens, secrets replaced, joined by single spaces and before any cut.\<close>

definition joined :: "rstring list \<Rightarrow> rstring" where
  "joined tokens = tl (concat (map (\<lambda>t. 0x20 # redact_token t) tokens))"

definition cut_detail :: "rstring \<Rightarrow> (unit, rstring) outcome" where
  "cut_detail full =
     (if length full < MAX_DETAIL_CHARS then Ok full
      else if is_char_boundary full MAX_DETAIL_CHARS then Ok (take MAX_DETAIL_CHARS full) else Panic)"

lemma char_boundary_prefix:
  assumes "n \<le> length p" "r = [] \<or> hd r < 0x80"
  shows "is_char_boundary (p @ r) n \<longleftrightarrow> is_char_boundary p n"
proof (cases "n = length p")
  case True
  with assms(2) show ?thesis by (cases r) (auto simp: is_char_boundary_def)
next
  case False
  with assms(1) show ?thesis by (auto simp: is_char_boundary_def nth_append)
qed

lemma cut_detail_prefix:
  assumes "MAX_DETAIL_CHARS \<le> length p" "r = [] \<or> hd r < 0x80"
  shows "cut_detail (p @ r) = cut_detail p"
  using assms char_boundary_prefix [OF assms] by (simp add: cut_detail_def)

lemma redact_loop_cut:
  assumes "out \<noteq> []" "length out < MAX_DETAIL_CHARS"
  shows "redact_loop out ts = cut_detail (out @ concat (map (\<lambda>t. 0x20 # redact_token t) ts))"
  using assms
proof (induction ts arbitrary: out)
  case Nil
  then show ?case by (simp add: cut_detail_def)
next
  case (Cons t ts)
  let ?o = "out @ 0x20 # redact_token t"
  show ?case
  proof (cases "MAX_DETAIL_CHARS \<le> length ?o")
    case True
    have "cut_detail (?o @ concat (map (\<lambda>t. 0x20 # redact_token t) ts)) = cut_detail ?o"
      using True by (rule cut_detail_prefix) (cases ts; simp)
    with True Cons.prems show ?thesis by (simp add: cut_detail_def)
  next
    case False
    then show ?thesis using Cons.IH [of ?o] Cons.prems by simp
  qed
qed

lemma redact_token_nonempty: "t \<noteq> [] \<Longrightarrow> redact_token t \<noteq> []"
  by (simp add: redact_token_def REDACTED_def)

lemma split_ws_nonempty: "t \<in> set (split_ws_chars acc cs) \<Longrightarrow> list_all (\<lambda>c. c \<noteq> []) (acc @ cs) \<Longrightarrow> t \<noteq> []"
  by (induction acc cs rule: split_ws_chars.induct) (auto simp: list_all_iff split: if_splits)

lemma split_ws_bytes:
  "t \<in> set (split_ws_chars acc cs) \<Longrightarrow> set t \<subseteq> set (concat acc) \<union> set (concat cs)"
  by (induction acc cs rule: split_ws_chars.induct) (fastforce split: if_splits)+

lemma str_chars_nonempty: "c \<in> set (str_chars s) \<Longrightarrow> c \<noteq> []"
proof (induction s rule: utf8_chunks.induct)
  case (1 s)
  then show ?case using utf8_step_pos [of s]
    by (cases "s = []") (auto simp: str_chars_def utf8_chunks_nonempty)
qed

lemma split_whitespace_nonempty: "t \<in> set (split_whitespace s) \<Longrightarrow> t \<noteq> []"
  using split_ws_nonempty [of t "[]" "str_chars s"] str_chars_nonempty
  by (auto simp: split_whitespace_def list_all_iff)

lemma split_whitespace_bytes: "t \<in> set (split_whitespace s) \<Longrightarrow> set t \<subseteq> set s"
  using split_ws_bytes [of t "[]" "str_chars s"] by (simp add: split_whitespace_def)

lemma redact_loop_joined:
  assumes "ts \<noteq> []" "\<forall>t \<in> set ts. t \<noteq> []"
  shows "redact_loop [] ts = cut_detail (joined ts)"
proof -
  obtain t rest where ts: "ts = t # rest" using assms(1) by (cases ts) auto
  let ?r = "concat (map (\<lambda>t. 0x20 # redact_token t) rest)"
  have ne: "redact_token t \<noteq> []" using assms(2) ts by (simp add: redact_token_nonempty)
  have j: "joined ts = redact_token t @ ?r" by (simp add: joined_def ts)
  show ?thesis
  proof (cases "MAX_DETAIL_CHARS \<le> length (redact_token t)")
    case True
    have "cut_detail (redact_token t @ ?r) = cut_detail (redact_token t)"
      using True by (rule cut_detail_prefix) (cases rest; simp)
    moreover have "redact_loop [] ts = cut_detail (redact_token t)"
      using True by (simp add: ts cut_detail_def Let_def)
    ultimately show ?thesis by (simp only: j)
  next
    case False
    moreover from this have "redact_loop [] ts = redact_loop (redact_token t) rest" by (simp add: ts)
    ultimately show ?thesis using redact_loop_cut [OF ne] by (simp only: j not_le)
  qed
qed

lemma redact_detail_eq:
  "redact_detail d =
     (if split_whitespace d = [] then Ok (concat (take MAX_DETAIL_CHARS (str_chars d)))
      else cut_detail (joined (split_whitespace d)))"
proof (cases "split_whitespace d")
  case Nil
  then show ?thesis by (simp add: redact_detail_def)
next
  case (Cons t ts)
  then have ne: "\<forall>t \<in> set (split_whitespace d). t \<noteq> []" using split_whitespace_nonempty by blast
  have "joined (split_whitespace d) \<noteq> []"
    using Cons ne by (simp add: joined_def redact_token_nonempty)
  then have "x \<noteq> []" if "cut_detail (joined (split_whitespace d)) = Ok x" for x
    using that by (auto simp: cut_detail_def MAX_DETAIL_CHARS_def split: if_splits)
  then show ?thesis
    using Cons redact_loop_joined [OF _ ne]
    by (cases "cut_detail (joined (split_whitespace d))") (simp_all add: redact_detail_def)
qed

lemma redact_token_ascii: "\<forall>b \<in> set t. b < 0x80 \<Longrightarrow> \<forall>b \<in> set (redact_token t). b < 0x80"
  by (auto simp: redact_token_def REDACTED_def ascii_def)

lemma ascii_boundary: "\<forall>b \<in> set s. b < 0x80 \<Longrightarrow> i \<le> length s \<Longrightarrow> is_char_boundary s i"
  by (auto simp: is_char_boundary_def)

lemma joined_ascii:
  assumes "\<forall>t \<in> set ts. \<forall>b \<in> set t. b < 0x80"
  shows "\<forall>b \<in> set (joined ts). b < 0x80"
proof -
  have "\<forall>t \<in> set ts. \<forall>b \<in> set (redact_token t). b < 0x80"
    using assms redact_token_ascii by blast
  then have "\<forall>b \<in> set (concat (map (\<lambda>t. 0x20 # redact_token t) ts)). b < 0x80" by auto
  then show ?thesis unfolding joined_def
    by (cases "concat (map (\<lambda>t. 0x20 # redact_token t) ts)") simp_all
qed

lemma redact_detail_ascii:
  assumes "list_all (\<lambda>b. b < 0x80) d"
  shows "\<exists>x. redact_detail d = Ok x"
proof -
  have "\<forall>t \<in> set (split_whitespace d). \<forall>b \<in> set t. b < 0x80"
    using assms split_whitespace_bytes unfolding list_all_iff by blast
  then show ?thesis using ascii_boundary [OF joined_ascii] by (simp add: redact_detail_eq cut_detail_def)
qed

text \<open>ASCII text is its own list of characters, and trimming stops at the first character kept.\<close>

lemma str_chars_ascii: "\<forall>b \<in> set s. b < 0x80 \<Longrightarrow> str_chars s = map (\<lambda>b. [b]) s"
  using str_chars_concat [of "map (\<lambda>b. [b]) s"] by (simp add: list_all_iff)

lemma trim_chars_ascii:
  assumes "\<forall>b \<in> set s. b < 0x80 \<and> \<not> p b" "\<forall>b \<in> set e. b < 0x80 \<and> p b"
  shows "trim_chars (ascii_char p) (s @ e) = s"
proof -
  have c: "str_chars (s @ e) = map (\<lambda>b. [b]) s @ map (\<lambda>b. [b]) e"
    using str_chars_ascii [of "s @ e"] assms by auto
  have keep: "dropWhile (ascii_char p) (map (\<lambda>b. [b]) xs @ ys) = map (\<lambda>b. [b]) xs @ ys"
    if "xs \<noteq> []" "\<forall>b \<in> set xs. \<not> p b" for xs ys
    using that by (cases xs) (simp_all add: ascii_char_def)
  have all: "dropWhile (ascii_char p) (map (\<lambda>b. [b]) (rev e) @ ys) = dropWhile (ascii_char p) ys" for ys
    using assms(2) by (intro dropWhile_append2) (auto simp: ascii_char_def)
  show ?thesis
  proof (cases "s = []")
    case True
    have "dropWhile (ascii_char p) (map (\<lambda>b. [b]) e) = []"
      using assms(2) by (auto simp: dropWhile_eq_Nil_conv ascii_char_def)
    with True have "trim_chars (ascii_char p) (s @ e) = concat (rev (dropWhile (ascii_char p) (rev [])))"
      unfolding trim_chars_def c by (simp only: list.map append_Nil)
    with True show ?thesis by simp
  next
    case False
    have r: "rev (map (\<lambda>b. [b]) s @ map (\<lambda>b. [b]) e) = map (\<lambda>b. [b]) (rev e) @ map (\<lambda>b. [b]) (rev s) @ []"
      by (simp add: rev_map)
    have k: "dropWhile (ascii_char p) (map (\<lambda>b. [b]) s @ map (\<lambda>b. [b]) e) = map (\<lambda>b. [b]) s @ map (\<lambda>b. [b]) e"
      "dropWhile (ascii_char p) (map (\<lambda>b. [b]) (rev s) @ []) = map (\<lambda>b. [b]) (rev s) @ []"
      using assms(1) False by (auto intro!: keep simp del: append_Nil2)
    have "trim_chars (ascii_char p) (s @ e) = concat (rev (map (\<lambda>b. [b]) (rev s) @ []))"
      unfolding trim_chars_def c k(1) r all k(2) ..
    then show ?thesis by (simp add: rev_map [symmetric])
  qed
qed

definition b64_byte :: "u8 \<Rightarrow> bool" where
  "b64_byte b \<longleftrightarrow> is_ascii_alphanumeric b \<or> b = 0x2B \<or> b = 0x2F"

lemma b64_byte_ascii: "b64_byte b \<Longrightarrow> b < 0x80 \<and> b \<noteq> 0x2C \<and> b \<noteq> 0x3B \<and> b \<noteq> 0x3D"
  by (auto simp: b64_byte_def is_ascii_alphanumeric_def is_ascii_digit_def is_ascii_alphabetic_def
      word_le_nat_alt word_less_nat_alt)

lemma lowercase_no_eq: "\<forall>b \<in> set t. b \<noteq> 0x3D \<Longrightarrow> 0x3D \<notin> set (to_ascii_lowercase t)"
proof -
  have "b + 0x20 \<noteq> 0x3D" if "0x41 \<le> b" "b \<le> 0x5A" for b :: u8
    using that by (auto simp: word_le_nat_alt word_unat_eq_iff unat_word_ariths)
  then show "\<forall>b \<in> set t. b \<noteq> 0x3D \<Longrightarrow> 0x3D \<notin> set (to_ascii_lowercase t)"
    unfolding to_ascii_lowercase_def by auto
qed

lemma not_starts_with: "x \<in> set p \<Longrightarrow> x \<notin> set s \<Longrightarrow> \<not> starts_with s p"
  unfolding starts_with_def by (metis in_set_takeD)

lemma secret_base64:
  assumes "list_all b64_byte t" "24 \<le> length t"
  shows "looks_like_secret (t @ replicate n 0x3D) \<longleftrightarrow>
    0x2B \<in> set t \<or> 0x2F \<in> set t \<or> 32 \<le> length t \<and> list_all is_ascii_hexdigit t"
proof -
  let ?p = "\<lambda>b. b = 0x2C \<or> b = 0x3B \<or> b = (0x3D :: u8)"
  have b: "\<forall>x \<in> set t. x < 0x80 \<and> \<not> ?p x" using assms(1) b64_byte_ascii by (auto simp: list_all_iff)
  have trim: "trim_chars (ascii_char ?p) (t @ replicate n 0x3D) = t"
    using b by (rule trim_chars_ascii) simp
  have chars: "str_chars t = map (\<lambda>b. [b]) t" using b by (intro str_chars_ascii) simp
  have hexa: "list_all (ascii_char is_ascii_hexdigit) (str_chars t) = list_all is_ascii_hexdigit t"
    by (simp add: chars list.pred_map comp_def ascii_char_def)
  have alnum: "list_all (ascii_char (\<lambda>b. is_ascii_alphanumeric b \<or> b = 0x2B \<or> b = 0x2F \<or> b = 0x3D)) (str_chars t)"
    using assms(1) by (auto simp: chars list_all_iff ascii_char_def b64_byte_def)
  have nl: "\<not> (t \<noteq> [] \<and> last t = 0x3D)" using b by (metis last_in_set)
  have eq: "0x3D \<notin> set (to_ascii_lowercase t)" using b by (intro lowercase_no_eq) auto
  have pre: "\<not> starts_with (to_ascii_lowercase t) (ascii k)" if "k \<in> {''psk='', ''key='', ''token=''}" for k
    using that eq by (intro not_starts_with [of "0x3D"]) (auto simp: ascii_def)
  show ?thesis
    unfolding looks_like_secret_def Let_def trim hexa using assms(2) alnum nl pre by auto
qed

text \<open>A detail of one token that is not a secret, and one whose 256th byte is inside a character.\<close>

lemma redact_single:
  assumes "list_all (\<lambda>c. \<not> char_is_whitespace c) (str_chars d)" "d \<noteq> []" "\<not> looks_like_secret d"
  shows "redact_detail d = cut_detail d"
  using split_whitespace_single [OF assms(1,2)] assms(3)
  by (simp add: redact_detail_eq joined_def redact_token_def)

lemma wide_concat: "concat (replicate 255 [0x67] @ [[0xC3, 0xA9]]) = replicate 255 0x67 @ ([0xC3, 0xA9] :: bytes)"
proof -
  have "concat (replicate n [x]) = replicate n x" for n and x :: u8 by (induction n) simp_all
  then show ?thesis by simp
qed

lemma wide_chars: "list_all utf8_char (replicate 255 [0x67] @ [[0xC3, 0xA9]])"
  by (simp add: list_all_iff utf8_cont_def)

lemma not_secret_trimmed:
  assumes "trim_chars (ascii_char (\<lambda>b. b = 0x2C \<or> b = 0x3B \<or> b = 0x3D)) t = t"
    and "\<not> list_all (ascii_char (\<lambda>b. is_ascii_alphanumeric b \<or> b = 0x2B \<or> b = 0x2F \<or> b = 0x3D)) (str_chars t)"
    and "0x3D \<notin> set t"
  shows "\<not> looks_like_secret t"
proof -
  have "\<not> list_all (ascii_char is_ascii_hexdigit) (str_chars t)"
    using assms(2) unfolding list_all_iff
    by (auto simp: ascii_char_def is_ascii_hexdigit_def is_ascii_alphanumeric_def is_ascii_alphabetic_def
        word_le_nat_alt split: list.splits)
  moreover have "\<not> starts_with (to_ascii_lowercase t) (ascii k)" if "k \<in> {''psk='', ''key='', ''token=''}" for k
    using that lowercase_no_eq [of t] assms(3) by (intro not_starts_with [of "0x3D"]) (auto simp: ascii_def)
  ultimately show ?thesis using assms(1,2) by (simp add: looks_like_secret_def)
qed

lemma redact_wide: "redact_detail (replicate 255 0x67 @ [0xC3, 0xA9]) = Panic"
proof -
  let ?d = "replicate 255 0x67 @ [0xC3, 0xA9] :: bytes"
  have c: "str_chars ?d = replicate 255 [0x67] @ [[0xC3, 0xA9]]"
    using str_chars_concat [OF wide_chars] unfolding wide_concat .
  have "\<not> looks_like_secret ?d"
  proof (rule not_secret_trimmed)
    show "trim_chars (ascii_char (\<lambda>b. b = 0x2C \<or> b = 0x3B \<or> b = 0x3D)) ?d = ?d"
      by (rule trim_chars_id) (simp_all add: c ascii_char_def)
  qed (simp_all add: c ascii_char_def)
  moreover have "list_all (\<lambda>c. \<not> char_is_whitespace c) (str_chars ?d)"
    unfolding c by (simp add: list_all_iff char_is_whitespace_def)
  ultimately have "redact_detail ?d = cut_detail ?d" by (intro redact_single) simp_all
  then show ?thesis
    by (simp add: cut_detail_def MAX_DETAIL_CHARS_def is_char_boundary_def nth_append)
qed

section \<open>Properties\<close>




text \<open>A log of two events under an injective digest.\<close>

definition sample_event :: "rstring \<Rightarrow> u64 \<Rightarrow> AuditEvent" where
  "sample_event prev ts = \<lparr>ae_ts = ts, ae_event = ascii ''join'', ae_detail = [], ae_previous = prev,
     ae_hash = event_hash (\<lambda>b. b) prev ts (ascii ''join'') []\<rparr>"

definition sample_log :: "AuditEvent list" where
  "sample_log = [sample_event [] 5, sample_event (ae_hash (sample_event [] 5)) 6]"


text \<open>
  Redaction, exactly: a detail of white space only is cut after 256 characters; any other detail
  becomes its tokens, each replaced by \<open>[redacted]\<close> when it looks like a secret, joined by single spaces;
  a text of 256 bytes or more is cut after 256 bytes when that is a character boundary, and
  otherwise the cut panics. ASCII details never panic; the last conjunct is a detail, valid UTF-8 of
  257 bytes, on which \<open>append\<close> panics.
\<close>

theorem redact_exact:
  "redact_detail d =
     (if split_whitespace d = [] then Ok (concat (take 256 (str_chars d)))
      else if length (joined (split_whitespace d)) < 256 then Ok (joined (split_whitespace d))
      else if is_char_boundary (joined (split_whitespace d)) 256 then Ok (take 256 (joined (split_whitespace d)))
      else Panic) \<and>
   (list_all (\<lambda>b. b < 0x80) d \<longrightarrow> redact_detail d \<noteq> Panic) \<and>
   utf8_valid (replicate 255 0x67 @ [0xC3, 0xA9]) \<and>
   append_event sha c ts ev (replicate 255 0x67 @ [0xC3, 0xA9]) = Panic"
proof (intro conjI impI)
  show "redact_detail d =
     (if split_whitespace d = [] then Ok (concat (take 256 (str_chars d)))
      else if length (joined (split_whitespace d)) < 256 then Ok (joined (split_whitespace d))
      else if is_char_boundary (joined (split_whitespace d)) 256 then Ok (take 256 (joined (split_whitespace d)))
      else Panic)"
    unfolding redact_detail_eq cut_detail_def MAX_DETAIL_CHARS_def ..
  show "redact_detail d \<noteq> Panic" if "list_all (\<lambda>b. b < 0x80) d"
  proof -
    from redact_detail_ascii [OF that] show ?thesis by auto
  qed
  show "utf8_valid (replicate 255 0x67 @ [0xC3, 0xA9])" using wide_chars by (metis utf8_valid_concat wide_concat)
  show "append_event sha c ts ev (replicate 255 0x67 @ [0xC3, 0xA9]) = Panic"
    by (simp add: append_event_def Let_def redact_wide)
qed

theorem redact_exact_witness: "redact_detail (ascii ''peer joined'') \<noteq> Panic"
proof -
  have "list_all (\<lambda>b. b < 0x80) (ascii ''peer joined'')" by (simp add: ascii_def)
  then show ?thesis using redact_exact [of "ascii ''peer joined''" undefined undefined undefined undefined] by blast
qed

text \<open>
  What redaction catches of base64 text: a token of at least 24 base64 characters, with any
  amount of padding, counts as a secret exactly when it contains \<open>+\<close> or \<open>/\<close>, or is hexadecimal and
  at least 32 long. The padding itself never counts, because the token is stripped of \<open>=\<close> before the
  test for a final \<open>=\<close>; the base64 text of a 32-byte key with neither \<open>+\<close> nor \<open>/\<close> is kept in clear.
\<close>

theorem redact_base64_exact:
  assumes "list_all b64_byte t" "24 \<le> length t"
  shows "(looks_like_secret (t @ replicate n 0x3D) \<longleftrightarrow>
      0x2B \<in> set t \<or> 0x2F \<in> set t \<or> 32 \<le> length t \<and> list_all is_ascii_hexdigit t) \<and>
    redact_detail (ascii ''QUJDREVGR0hJSktMTU5PUFFSU1RVVldYWVphYmNkZWY='') =
      Ok (ascii ''QUJDREVGR0hJSktMTU5PUFFSU1RVVldYWVphYmNkZWY='')"
proof
  show "looks_like_secret (t @ replicate n 0x3D) \<longleftrightarrow>
      0x2B \<in> set t \<or> 0x2F \<in> set t \<or> 32 \<le> length t \<and> list_all is_ascii_hexdigit t"
    using assms by (rule secret_base64)
  show "redact_detail (ascii ''QUJDREVGR0hJSktMTU5PUFFSU1RVVldYWVphYmNkZWY='') =
      Ok (ascii ''QUJDREVGR0hJSktMTU5PUFFSU1RVVldYWVphYmNkZWY='')"
    by code_simp
qed

theorem redact_base64_exact_witness:
  "looks_like_secret (replicate 23 0x51 @ [0x2B] @ replicate 2 0x3D) \<and> \<not> looks_like_secret (replicate 30 0x51 @ replicate 2 0x3D)"
  using redact_base64_exact [of "replicate 23 0x51 @ [0x2B]" 2] redact_base64_exact [of "replicate 30 0x51" 2]
  by (simp add: list_all_iff b64_byte_def is_ascii_alphanumeric_def is_ascii_alphabetic_def is_ascii_hexdigit_def is_ascii_digit_def)

end
