(* ===== verification/Sealed.thy ===== *)
theory Sealed
  imports Talk_Prelude
begin

text \<open>
  The rotating room ids and peer handles of \<open>core/src/sealed.rs\<close>. HKDF-SHA256 expansion and the
  URL-safe base64 encoder are third-party crates and are parameters: \<open>hkdf ikm info n\<close> is the crate's
  expansion to \<open>n\<close> bytes (\<open>None\<close> for the crate's length error), \<open>b64url\<close> the encoder without padding.
\<close>

section \<open>Model\<close>

definition DEFAULT_EPOCH_SECS :: u64 where "DEFAULT_EPOCH_SECS = 15 * 60"
definition ROOM_ID_B64_LEN :: nat where "ROOM_ID_B64_LEN = 24"
definition ROOM_ID_BYTES :: nat where "ROOM_ID_BYTES = 18"
definition PEER_HANDLE_B64_LEN :: nat where "PEER_HANDLE_B64_LEN = 22"
definition PEER_HANDLE_BYTES :: nat where "PEER_HANDLE_BYTES = 16"
definition ROOM_ID_MIN_LEN :: nat where "ROOM_ID_MIN_LEN = 8"
definition ROOM_ID_MAX_LEN :: nat where "ROOM_ID_MAX_LEN = 64"
definition ROOM_INFO_PREFIX :: bytes where "ROOM_INFO_PREFIX = ascii ''sassytalkie-sealed-room-v1''"
definition PEER_INFO_PREFIX :: bytes where "PEER_INFO_PREFIX = ascii ''sassytalkie-sealed-peer-v1''"
definition SEALED_DEVICE_PLACEHOLDER :: rstring where "SEALED_DEVICE_PLACEHOLDER = ascii ''sealed''"

definition current_epoch :: "u64 \<Rightarrow> u64 \<Rightarrow> u64" where
  "current_epoch now_ms epoch_secs = (now_ms div 1000) div max epoch_secs 1"

definition seconds_until_next_epoch :: "u64 \<Rightarrow> u64 \<Rightarrow> u64" where
  "seconds_until_next_epoch now_ms epoch_secs =
     (let es = max epoch_secs 1; now_s = now_ms div 1000; elapsed_in_epoch = now_s mod es
      in es - elapsed_in_epoch)"

definition room_info :: "u64 \<Rightarrow> bytes" where
  "room_info epoch = ROOM_INFO_PREFIX @ to_le 8 epoch"

definition peer_info :: "rstring \<Rightarrow> u64 \<Rightarrow> bytes" where
  "peer_info stable_peer_id epoch =
     PEER_INFO_PREFIX @ to_le 8 epoch @ to_le 8 (word_of_nat (length stable_peer_id) :: u64) @ stable_peer_id"

type_synonym hkdf_fun = "bytes \<Rightarrow> bytes \<Rightarrow> nat \<Rightarrow> bytes option"

text \<open>The \<open>expect\<close> on the crate's result is the panic branch.\<close>

definition expand :: "hkdf_fun \<Rightarrow> bytes \<Rightarrow> bytes \<Rightarrow> nat \<Rightarrow> (unit, bytes) outcome" where
  "expand hkdf session_key info n = (case hkdf session_key info n of None \<Rightarrow> Panic | Some okm \<Rightarrow> Ok okm)"

definition blinded_room_id ::
  "hkdf_fun \<Rightarrow> (bytes \<Rightarrow> rstring) \<Rightarrow> bytes \<Rightarrow> u64 \<Rightarrow> (unit, rstring) outcome" where
  "blinded_room_id hkdf b64url session_key epoch =
     bind_outcome (expand hkdf session_key (room_info epoch) ROOM_ID_BYTES) (\<lambda>okm. Ok (b64url okm))"

definition sealed_peer_handle ::
  "hkdf_fun \<Rightarrow> (bytes \<Rightarrow> rstring) \<Rightarrow> bytes \<Rightarrow> rstring \<Rightarrow> u64 \<Rightarrow> (unit, rstring) outcome" where
  "sealed_peer_handle hkdf b64url session_key stable_peer_id epoch =
     bind_outcome (expand hkdf session_key (peer_info stable_peer_id epoch) PEER_HANDLE_BYTES)
       (\<lambda>okm. Ok (b64url okm))"

definition room_ids_for_handoff ::
  "hkdf_fun \<Rightarrow> (bytes \<Rightarrow> rstring) \<Rightarrow> bytes \<Rightarrow> u64 \<Rightarrow> u64 \<Rightarrow> (unit, rstring \<times> rstring) outcome" where
  "room_ids_for_handoff hkdf b64url session_key now_ms epoch_secs =
     (let epoch = current_epoch now_ms epoch_secs
      in bind_outcome (blinded_room_id hkdf b64url session_key epoch) (\<lambda>current.
         bind_outcome (blinded_room_id hkdf b64url session_key (epoch + 1)) (\<lambda>next_id.
         Ok (current, next_id))))"

section \<open>Documented behaviour of the crates\<close>

text \<open>
  HKDF-SHA256 yields the requested number of bytes up to 255 blocks of 32; unpadded base64 spends
  four characters on three bytes, and two or three on a final group of one or two.
\<close>

definition hkdf_ok :: "hkdf_fun \<Rightarrow> bool" where
  "hkdf_ok hkdf \<longleftrightarrow> (\<forall>k i n. n \<le> 255 * 32 \<longrightarrow> (\<exists>okm. hkdf k i n = Some okm \<and> length okm = n))"

lemma hkdf_okD: "hkdf_ok hkdf \<Longrightarrow> n \<le> 255 * 32 \<Longrightarrow> \<exists>okm. hkdf k i n = Some okm \<and> length okm = n"
  unfolding hkdf_ok_def by blast

definition b64url_len_ok :: "(bytes \<Rightarrow> rstring) \<Rightarrow> bool" where
  "b64url_len_ok b64url \<longleftrightarrow> (\<forall>bs. length (b64url bs) = (4 * length bs + 2) div 3)"

section \<open>Epoch arithmetic\<close>

lemma unat_max_1: "unat (max e 1 :: u64) = max (unat e) 1"
  by (simp add: max_def word_le_nat_alt)

lemma unat_current_epoch: "unat (current_epoch t e) = unat t div 1000 div max (unat e) 1"
  by (simp add: current_epoch_def unat_div unat_max_1)

lemma unat_seconds_until:
  "unat (seconds_until_next_epoch t e) = max (unat e) 1 - unat t div 1000 mod max (unat e) 1"
proof -
  have "unat (max e 1) \<noteq> 0" by (simp add: unat_max_1)
  then have "unat (t div 1000 mod max e 1) \<le> unat (max e 1)"
    by (simp add: unat_mod less_imp_le)
  then show ?thesis
    by (simp add: seconds_until_next_epoch_def Let_def unat_sub word_le_nat_alt)
      (simp add: unat_mod unat_div unat_max_1)
qed

lemma unat_Suc_current_epoch: "unat (current_epoch t e + 1) = Suc (unat (current_epoch t e))"
proof -
  have "unat (current_epoch t e) \<le> unat t div 1000"
    by (simp add: unat_current_epoch)
  also have "\<dots> < 2 ^ 64 - 1" using unat_bound [of t] by simp
  finally show ?thesis by (simp add: unat_word_ariths)
qed

text \<open>The quotient by \<open>m\<close> stays until \<open>m - s mod m\<close> more, and is one larger for the next \<open>m\<close>.\<close>

lemma div_window:
  fixes s t m :: nat
  assumes "0 < m" and "s \<le> t"
  shows "t < s + (m - s mod m) \<Longrightarrow> t div m = s div m"
    and "s + (m - s mod m) \<le> t \<Longrightarrow> t < s + (m - s mod m) + m \<Longrightarrow> t div m = Suc (s div m)"
proof -
  have m: "s mod m < m" using assms by simp
  have "s = s div m * m + s mod m" by (simp only: div_mult_mod_eq)
  with m have s: "s + (m - s mod m) = Suc (s div m) * m" unfolding mult_Suc by linarith
  show "t < s + (m - s mod m) \<Longrightarrow> t div m = s div m"
    using assms s div_le_mono [of s t m] less_mult_imp_div_less [of t "Suc (s div m)" m] by simp
  show "s + (m - s mod m) \<le> t \<Longrightarrow> t < s + (m - s mod m) + m \<Longrightarrow> t div m = Suc (s div m)"
    using assms s by (intro div_nat_eqI) (simp_all add: algebra_simps)
qed

lemma blinded_room_id_Ok:
  assumes "hkdf_ok hkdf" and "b64url_len_ok b64url"
  shows "\<exists>r. blinded_room_id hkdf b64url key ep = Ok r \<and> length r = ROOM_ID_B64_LEN"
proof -
  from assms(1) obtain okm where "hkdf key (room_info ep) ROOM_ID_BYTES = Some okm" "length okm = ROOM_ID_BYTES"
    using hkdf_okD [of hkdf ROOM_ID_BYTES] by (auto simp: ROOM_ID_BYTES_def)
  with assms(2) show ?thesis
    by (simp add: blinded_room_id_def expand_def b64url_len_ok_def ROOM_ID_BYTES_def ROOM_ID_B64_LEN_def)
qed

lemma sealed_peer_handle_Ok:
  assumes "hkdf_ok hkdf" and "b64url_len_ok b64url"
  shows "\<exists>r. sealed_peer_handle hkdf b64url key pid ep = Ok r \<and> length r = PEER_HANDLE_B64_LEN"
proof -
  from assms(1) obtain okm
    where "hkdf key (peer_info pid ep) PEER_HANDLE_BYTES = Some okm" "length okm = PEER_HANDLE_BYTES"
    using hkdf_okD [of hkdf PEER_HANDLE_BYTES] by (auto simp: PEER_HANDLE_BYTES_def)
  with assms(2) show ?thesis
    by (simp add: sealed_peer_handle_def expand_def b64url_len_ok_def PEER_HANDLE_BYTES_def PEER_HANDLE_B64_LEN_def)
qed

section \<open>Properties\<close>

text \<open>
  Seamless rotation: the handoff at time \<open>now\<close> returns two room ids inside the
  relay's length window. Every device whose clock reads a time of the remaining
  \<open>seconds_until_next_epoch\<close> seconds derives the first one, every device whose clock reads a time of
  the following epoch derives the second one, and the remaining time is between one second and a whole
  epoch. No derivation panics and the epoch counter never wraps.
\<close>

theorem room_handoff_seamless:
  fixes now es :: u64
  assumes "hkdf_ok hkdf" and "b64url_len_ok b64url"
  defines "s \<equiv> unat (seconds_until_next_epoch now es)"
  shows "1 \<le> s \<and> s \<le> max (unat es) 1 \<and>
    (\<exists>r0 r1. room_ids_for_handoff hkdf b64url key now es = Ok (r0, r1) \<and>
      length r0 \<in> {ROOM_ID_MIN_LEN..ROOM_ID_MAX_LEN} \<and> length r1 \<in> {ROOM_ID_MIN_LEN..ROOM_ID_MAX_LEN} \<and>
      (\<forall>t. unat now div 1000 \<le> unat t div 1000 \<and> unat t div 1000 < unat now div 1000 + s \<longrightarrow>
           blinded_room_id hkdf b64url key (current_epoch t es) = Ok r0) \<and>
      (\<forall>t. unat now div 1000 + s \<le> unat t div 1000 \<and>
           unat t div 1000 < unat now div 1000 + s + max (unat es) 1 \<longrightarrow>
           blinded_room_id hkdf b64url key (current_epoch t es) = Ok r1))"
proof -
  let ?m = "max (unat es) 1"
  let ?ep = "current_epoch now es"
  have s: "s = ?m - unat now div 1000 mod ?m" by (simp only: s_def unat_seconds_until)
  have m: "0 < ?m" by simp
  obtain r0 where r0: "blinded_room_id hkdf b64url key ?ep = Ok r0" "length r0 = 24"
    using blinded_room_id_Ok [OF assms(1,2)] by (auto simp: ROOM_ID_B64_LEN_def)
  obtain r1 where r1: "blinded_room_id hkdf b64url key (?ep + 1) = Ok r1" "length r1 = 24"
    using blinded_room_id_Ok [OF assms(1,2)] by (auto simp: ROOM_ID_B64_LEN_def)
  have now: "current_epoch t es = ?ep"
    if "unat now div 1000 \<le> unat t div 1000" "unat t div 1000 < unat now div 1000 + s" for t
    using div_window(1) [OF m that(1)] that(2) by (simp add: s word_unat_eq_iff unat_current_epoch)
  have nxt: "current_epoch t es = ?ep + 1"
    if "unat now div 1000 + s \<le> unat t div 1000" "unat t div 1000 < unat now div 1000 + s + ?m" for t
    using div_window(2) [OF m, of "unat now div 1000" "unat t div 1000"] that
    by (simp add: s word_unat_eq_iff unat_Suc_current_epoch unat_current_epoch)
  have "room_ids_for_handoff hkdf b64url key now es = Ok (r0, r1)"
    by (simp add: room_ids_for_handoff_def r0 r1)
  moreover have "1 \<le> s \<and> s \<le> ?m"
    using mod_less_divisor [OF m, of "unat now div 1000"] unfolding s by linarith
  moreover have "length r0 \<in> {ROOM_ID_MIN_LEN..ROOM_ID_MAX_LEN}" "length r1 \<in> {ROOM_ID_MIN_LEN..ROOM_ID_MAX_LEN}"
    by (simp_all add: r0 r1 ROOM_ID_MIN_LEN_def ROOM_ID_MAX_LEN_def)
  ultimately show ?thesis
    using r0(1) r1(1) now nxt by metis
qed

text \<open>Instances of the parameters: zero bytes, and one base64 character per six bits.\<close>

definition zero_hkdf :: hkdf_fun where
  "zero_hkdf k i n = (if n \<le> 255 * 32 then Some (replicate n 0) else None)"

definition flat_b64url :: "bytes \<Rightarrow> rstring" where
  "flat_b64url bs = replicate ((4 * length bs + 2) div 3) 0x41"

lemma zero_hkdf_ok: "hkdf_ok zero_hkdf" "b64url_len_ok flat_b64url"
  by (simp_all add: hkdf_ok_def zero_hkdf_def b64url_len_ok_def flat_b64url_def)

theorem room_handoff_seamless_witness:
  "\<exists>r0 r1. room_ids_for_handoff zero_hkdf flat_b64url [] 899999 900 = Ok (r0, r1) \<and>
     blinded_room_id zero_hkdf flat_b64url [] (current_epoch 899000 900) = Ok r0 \<and>
     blinded_room_id zero_hkdf flat_b64url [] (current_epoch 900000 900) = Ok r1"
proof -
  have s: "unat (seconds_until_next_epoch 899999 900) = 1" by code_simp
  show ?thesis
    using room_handoff_seamless [OF zero_hkdf_ok, where now = 899999 and es = 900 and key = "[]"] unfolding s by force
qed

text \<open>
  Domain separation: the byte strings that key the derivations determine what is derived.
  Room inputs agree only for the same epoch, peer inputs only for the same epoch and the same stable
  peer id, and no room input is a peer input.
\<close>

theorem sealed_infos_separated:
  assumes "length p < 2 ^ 64" and "length q < 2 ^ 64"
  shows "(room_info a = room_info b \<longleftrightarrow> a = b) \<and>
    (peer_info p a = peer_info q b \<longleftrightarrow> p = q \<and> a = b) \<and> room_info a \<noteq> peer_info p b"
proof -
  have "length (room_info a) \<noteq> length (peer_info p b)"
    by (simp add: room_info_def peer_info_def ROOM_INFO_PREFIX_def PEER_INFO_PREFIX_def)
  then have "room_info a \<noteq> peer_info p b" by metis
  then show ?thesis
    by (auto simp: room_info_def peer_info_def to_le_inject append_eq_append_conv)
qed

theorem sealed_infos_separated_witness:
  "room_info 1 \<noteq> room_info 2 \<and> peer_info (ascii ''ab'') 1 \<noteq> peer_info (ascii ''a'') 1"
  using sealed_infos_separated [of "ascii ''ab''" "ascii ''a''" 1 2]
    sealed_infos_separated [of "ascii ''ab''" "ascii ''a''" 1 1]
  by (simp add: ascii_def)

end
