(* ===== verification/Share.thy ===== *)
theory Share
  imports Aead Utf8_Std
begin

text \<open>
  The invite blobs of \<open>core/src/share.rs\<close>: validation of share ids, sealing of the session JSON and
  opening of a fetched blob. AES-256-GCM is the parameter pair \<open>enc\<close>, \<open>dec\<close> of theory \<open>Aead\<close> (used
  with no associated data), \<open>b64url\<close> and \<open>unb64url\<close> the URL-safe base64 codec without padding; the
  random key and IV are arguments.
\<close>

section \<open>Model\<close>

definition IV_LEN :: nat where "IV_LEN = 12"
definition TAG_LEN :: nat where "TAG_LEN = 16"

definition share_id_byte :: "u8 \<Rightarrow> bool" where
  "share_id_byte b \<longleftrightarrow> is_ascii_alphanumeric b \<or> b = 0x5F \<or> b = 0x2D"

definition is_valid_share_id :: "rstring \<Rightarrow> bool" where
  "is_valid_share_id sid \<longleftrightarrow> 16 \<le> length sid \<and> length sid \<le> 64 \<and> list_all share_id_byte sid"

datatype share_error =
    InvalidKeyEncoding | KeyMustBe32Bytes | BlobTooShort | DecryptionFailed | NotUtf8
  | EmptySessionPayload | EncryptFailed

text \<open>\<open>trim_end_matches('=')\<close>; the padding character is one byte, so it is cut bytewise.\<close>

definition trim_end_eq :: "rstring \<Rightarrow> rstring" where
  "trim_end_eq s = rev (dropWhile (\<lambda>b. b = 0x3D) (rev s))"

definition decrypt_share_blob ::
  "aead_fun \<Rightarrow> (rstring \<Rightarrow> bytes option) \<Rightarrow> bytes \<Rightarrow> rstring \<Rightarrow> share_error + rstring" where
  "decrypt_share_blob dec unb64url blob key_b64url =
     (let cleaned = trim_end_eq (str_trim key_b64url)
      in case unb64url cleaned of
           None \<Rightarrow> Inl InvalidKeyEncoding
         | Some key_bytes \<Rightarrow>
             if length key_bytes \<noteq> 32 then Inl KeyMustBe32Bytes
             else if length blob \<le> IV_LEN + TAG_LEN then Inl BlobTooShort
             else (case dec key_bytes (take IV_LEN blob) [] (drop IV_LEN blob) of
                     None \<Rightarrow> Inl DecryptionFailed
                   | Some plaintext \<Rightarrow>
                       (case from_utf8 plaintext of None \<Rightarrow> Inl NotUtf8 | Some s \<Rightarrow> Inr s)))"

definition encrypt_share_blob ::
  "aead_fun \<Rightarrow> (bytes \<Rightarrow> rstring) \<Rightarrow> rstring \<Rightarrow> bytes \<Rightarrow> bytes \<Rightarrow> share_error + (bytes \<times> rstring)" where
  "encrypt_share_blob enc b64url json key iv =
     (if json = [] then Inl EmptySessionPayload
      else (case enc key iv [] json of
              None \<Rightarrow> Inl EncryptFailed
            | Some ct \<Rightarrow> Inr (iv @ ct, b64url key)))"

section \<open>Documented behaviour of the base64 codec\<close>

definition b64url_ok :: "(bytes \<Rightarrow> rstring) \<Rightarrow> (rstring \<Rightarrow> bytes option) \<Rightarrow> bool" where
  "b64url_ok b64url unb64url \<longleftrightarrow>
     (\<forall>bs. unb64url (b64url bs) = Some bs \<and> list_all share_id_byte (b64url bs))"

section \<open>Lemmas\<close>

lemma share_id_byte_ascii:
  "share_id_byte b \<Longrightarrow> b < 0x80 \<and> \<not> char_is_whitespace [b] \<and> b \<noteq> 0x3D"
  by (auto simp: share_id_byte_def is_ascii_alphanumeric_def is_ascii_digit_def is_ascii_alphabetic_def
      char_is_whitespace_def word_le_nat_alt word_less_nat_alt)

text \<open>The key text of an invite link, with any amount of padding, cleans to the encoder's output.\<close>

lemma cleaned_key:
  assumes "list_all share_id_byte k"
  shows "trim_end_eq (str_trim (k @ replicate n 0x3D)) = k"
proof -
  have "list_all (\<lambda>b. b < 0x80 \<and> \<not> char_is_whitespace [b]) (k @ replicate n 0x3D)"
    using assms share_id_byte_ascii by (auto simp: list_all_iff char_is_whitespace_def)
  then have t: "str_trim (k @ replicate n 0x3D) = k @ replicate n 0x3D" by (rule str_trim_ascii)
  have "dropWhile (\<lambda>b. b = 0x3D) (rev k) = rev k"
    using assms share_id_byte_ascii by (cases "rev k") (auto simp: list_all_iff rev_eq_Cons_iff)
  moreover have "dropWhile (\<lambda>b. b = 0x3D) (replicate n 0x3D @ r) = dropWhile (\<lambda>b. b = 0x3D) r" for r :: bytes
    by (induction n) auto
  ultimately show ?thesis unfolding t
    by (subst trim_end_eq_def) simp
qed

section \<open>Properties\<close>

text \<open>
  What is sealed opens, and only what was sealed opens: sealing a non-empty session JSON
  yields a blob and a link key, and opening that blob with that key, padded with any number of \<open>=\<close>
  signs or not, returns the JSON. In the other direction a blob opens to \<open>j\<close> exactly when the cleaned
  key text decodes to 32 bytes under which \<open>j\<close>, a valid UTF-8 string, encrypts to the blob's tail with
  the blob's first 12 bytes as IV, and the blob is longer than IV and tag together.
\<close>

theorem share_roundtrip:
  assumes "aead_correct enc dec" "aead_canonical enc dec" "aead_total enc" "b64url_ok b64url unb64url"
    and "utf8_valid json" "json \<noteq> []" "length json < 2 ^ 32" "length key = 32" "length iv = IV_LEN"
  shows "(\<exists>blob kb. encrypt_share_blob enc b64url json key iv = Inr (blob, kb) \<and>
      (\<forall>n. decrypt_share_blob dec unb64url blob (kb @ replicate n 0x3D) = Inr json)) \<and>
    (decrypt_share_blob dec unb64url blob k = Inr j \<longleftrightarrow>
      (\<exists>kb. unb64url (trim_end_eq (str_trim k)) = Some kb \<and> length kb = 32 \<and>
         IV_LEN + TAG_LEN < length blob \<and> utf8_valid j \<and> enc kb (take IV_LEN blob) [] j = Some (drop IV_LEN blob)))"
proof
  from assms(3,7) obtain ct where ct: "enc key iv [] json = Some ct" using aead_totalD by blast
  note d = aead_correctD [OF assms(1) ct]
  have "decrypt_share_blob dec unb64url (iv @ ct) (b64url key @ replicate n 0x3D) = Inr json" for n
  proof -
    have "trim_end_eq (str_trim (b64url key @ replicate n 0x3D)) = b64url key"
      using assms(4) by (intro cleaned_key) (simp add: b64url_ok_def)
    moreover have "0 < length json" using assms(6) by simp
    ultimately show ?thesis using assms(4,5,8,9) d
      by (simp add: decrypt_share_blob_def b64url_ok_def IV_LEN_def TAG_LEN_def)
  qed
  then show "\<exists>blob kb. encrypt_share_blob enc b64url json key iv = Inr (blob, kb) \<and>
      (\<forall>n. decrypt_share_blob dec unb64url blob (kb @ replicate n 0x3D) = Inr json)"
    using ct assms(6) by (simp add: encrypt_share_blob_def)
next
  have "enc kb n [] j = Some c \<longleftrightarrow> dec kb n [] c = Some j" for kb n c
    using assms(1,2) aead_correctD aead_canonicalD by metis
  then show "decrypt_share_blob dec unb64url blob k = Inr j \<longleftrightarrow>
      (\<exists>kb. unb64url (trim_end_eq (str_trim k)) = Some kb \<and> length kb = 32 \<and>
         IV_LEN + TAG_LEN < length blob \<and> utf8_valid j \<and> enc kb (take IV_LEN blob) [] j = Some (drop IV_LEN blob))"
    by (auto simp: decrypt_share_blob_def from_utf8_def not_le split: option.splits)
qed

text \<open>A codec with the two laws: two letters per byte.\<close>

definition hex_b64url :: "bytes \<Rightarrow> rstring" where
  "hex_b64url bs = concat (map (\<lambda>b. [0x61 + drop_bit 4 b, 0x61 + (b AND 0xF)]) bs)"

fun hex_unb64url :: "rstring \<Rightarrow> bytes option" where
  "hex_unb64url (a # b # r) = map_option ((#) (push_bit 4 (a - 0x61) OR (b - 0x61))) (hex_unb64url r)"
| "hex_unb64url [] = Some []"
| "hex_unb64url [a] = None"

lemma nibble_letters: "share_id_byte (0x61 + drop_bit 4 b)" "share_id_byte (0x61 + (b AND 0xF))"
  using unat_hi_nibble [of b] unat_lo_nibble [of b]
  by (auto simp: share_id_byte_def is_ascii_alphanumeric_def is_ascii_alphabetic_def word_le_nat_alt
      unat_word_ariths)

lemma hex_b64url_ok: "b64url_ok hex_b64url hex_unb64url"
proof -
  have "hex_unb64url (hex_b64url bs) = Some bs" for bs
    by (induction bs) (simp_all add: hex_b64url_def nibbles_join)
  moreover have "list_all share_id_byte (hex_b64url bs)" for bs
    by (induction bs) (simp_all add: hex_b64url_def nibble_letters)
  ultimately show ?thesis by (simp add: b64url_ok_def)
qed

theorem share_roundtrip_witness:
  "\<exists>blob kb. encrypt_share_blob plain_enc hex_b64url (ascii ''{}'') (replicate 32 7) (replicate 12 9) = Inr (blob, kb) \<and>
     decrypt_share_blob plain_dec hex_unb64url blob (kb @ [0x3D]) = Inr (ascii ''{}'')"
proof -
  have "utf8_valid (ascii ''{}'')" by (intro utf8_valid_ascii) (simp add: ascii_def)
  then have "\<exists>blob kb. encrypt_share_blob plain_enc hex_b64url (ascii ''{}'') (replicate 32 7) (replicate 12 9) = Inr (blob, kb) \<and>
      (\<forall>n. decrypt_share_blob plain_dec hex_unb64url blob (kb @ replicate n 0x3D) = Inr (ascii ''{}''))"
    by (intro share_roundtrip [OF plain_aead hex_b64url_ok, THEN conjunct1]) (simp_all add: IV_LEN_def)
  from this obtain blob kb
    where e: "encrypt_share_blob plain_enc hex_b64url (ascii ''{}'') (replicate 32 7) (replicate 12 9) = Inr (blob, kb)"
      and d: "\<forall>n. decrypt_share_blob plain_dec hex_unb64url blob (kb @ replicate n 0x3D) = Inr (ascii ''{}'')"
    by blast
  from d [THEN spec, of 1] e show ?thesis by auto
qed

end
