(* ===== verification/Enrollment.thy ===== *)
theory Enrollment
  imports Utf8_Std
begin

text \<open>
  The join checks of \<open>core/src/enrollment.rs\<close>: roles, the room-secret proof and its verification, the
  enrollment token and the join decision. HMAC-SHA256 is a parameter, \<open>hmac key message\<close>, with
  \<open>None\<close> for the crate's key error. The constant-time comparisons of the \<open>subtle\<close> crate return equality.
\<close>

section \<open>Model\<close>

definition PROOF_DOMAIN :: bytes where "PROOF_DOMAIN = ascii ''sassytalkie-enroll-v1''"

datatype Role = Operator | Supervisor

definition Role_parse :: "rstring \<Rightarrow> Role" where
  "Role_parse value =
     (if to_ascii_lowercase (str_trim value) = ascii ''supervisor'' then Supervisor else Operator)"

fun Role_as_str :: "Role \<Rightarrow> rstring" where
  "Role_as_str Operator = ascii ''operator''"
| "Role_as_str Supervisor = ascii ''supervisor''"

definition can_export_audit :: "Role \<Rightarrow> bool" where
  "can_export_audit r = True"

definition can_invoke_wipe :: "Role \<Rightarrow> bool" where
  "can_invoke_wipe r \<longleftrightarrow> r = Supervisor"

definition enroll_hex_lower :: "bytes \<Rightarrow> rstring" where
  "enroll_hex_lower bs = concat (map hex_byte bs)"

definition hex_eq :: "rstring \<Rightarrow> rstring \<Rightarrow> bool" where
  "hex_eq a b \<longleftrightarrow> length (str_trim a) = length (str_trim b) \<and> str_trim a = str_trim b"

datatype enroll_error = RoomSecretLength | RoomAndPeerRequired | HmacKey

type_synonym hmac_fun = "bytes \<Rightarrow> bytes \<Rightarrow> bytes option"

text \<open>The bytes fed to the MAC by the successive calls of \<open>update\<close>.\<close>

definition proof_message :: "rstring \<Rightarrow> rstring \<Rightarrow> bytes" where
  "proof_message room_id peer_id = PROOF_DOMAIN @ [0] @ room_id @ [0] @ peer_id"

definition room_secret_proof :: "hmac_fun \<Rightarrow> bytes \<Rightarrow> rstring \<Rightarrow> rstring \<Rightarrow> enroll_error + rstring" where
  "room_secret_proof hmac room_secret room_id peer_id =
     (if length room_secret \<noteq> 32 then Inl RoomSecretLength
      else if length room_id < 8 \<or> peer_id = [] then Inl RoomAndPeerRequired
      else (case hmac room_secret (proof_message room_id peer_id) of
              None \<Rightarrow> Inl HmacKey
            | Some tag \<Rightarrow> Inr (enroll_hex_lower tag)))"

definition verify_room_secret_proof ::
  "hmac_fun \<Rightarrow> bytes \<Rightarrow> rstring \<Rightarrow> rstring \<Rightarrow> rstring \<Rightarrow> bool" where
  "verify_room_secret_proof hmac room_secret room_id peer_id presented =
     (case room_secret_proof hmac room_secret room_id peer_id of
        Inr expected \<Rightarrow> hex_eq expected presented
      | Inl _ \<Rightarrow> False)"

text \<open>\<open>map(str::trim).filter(|s| !s.is_empty())\<close>\<close>

definition trimmed_token :: "rstring option \<Rightarrow> rstring option" where
  "trimmed_token t =
     (case t of None \<Rightarrow> None | Some s \<Rightarrow> if str_trim s = [] then None else Some (str_trim s))"

definition enrollment_token_acceptable :: "rstring option \<Rightarrow> rstring option \<Rightarrow> bool" where
  "enrollment_token_acceptable required_token presented =
     (case trimmed_token required_token of
        None \<Rightarrow> True
      | Some required \<Rightarrow> (case trimmed_token presented of None \<Rightarrow> False | Some got \<Rightarrow> required = got))"

definition join_authorized ::
  "rstring \<Rightarrow> bytes option \<Rightarrow> rstring option \<Rightarrow> rstring option \<Rightarrow> bool" where
  "join_authorized room_id room_secret required_enrollment_token presented_enrollment_token =
     (if length room_id < 8 then False
      else (case room_secret of
              Some secret \<Rightarrow>
                if length secret = 32
                then enrollment_token_acceptable required_enrollment_token presented_enrollment_token
                else False
            | None \<Rightarrow> False))"

section \<open>Lemmas\<close>

text \<open>Room ids with no NUL byte make the MAC input unambiguous.\<close>

lemma proof_message_inject:
  "0 \<notin> set r \<Longrightarrow> 0 \<notin> set r' \<Longrightarrow> proof_message r p = proof_message r' p' \<longleftrightarrow> r = r' \<and> p = p'"
  by (simp add: proof_message_def split_first_inject)

lemma hex_eq_enroll [simp]: "hex_eq (enroll_hex_lower a) (enroll_hex_lower b) \<longleftrightarrow> a = b"
  by (auto simp: hex_eq_def enroll_hex_lower_def hex_bytes_inject)

text \<open>A parsed role is one of the two, and only the supervisor's own text names the supervisor.\<close>

lemma Role_parse_as_str: "Role_parse (Role_as_str r) = r"
proof -
  have "str_trim (Role_as_str r) = Role_as_str r"
    by (cases r) (auto intro!: str_trim_ascii simp: ascii_def char_is_whitespace_def)
  then show ?thesis
    by (cases r) (simp_all add: Role_parse_def to_ascii_lowercase_def ascii_def)
qed

section \<open>Properties\<close>

text \<open>
  A room-secret proof is bound to the room and the peer it was made for: with a 32-byte
  secret a proof exists, has 64 hexadecimal digits, and verifies for the ids \<open>r'\<close>, \<open>p'\<close> exactly when
  they are the ids it was made for. The hypotheses are that the MAC accepts the key and gives 32 bytes,
  that it does not collide on the two messages compared, and that the room ids hold no NUL byte; the
  last conjunct shows the need for it, since the separator is a NUL byte: a proof for the room
  \<open>r @ [0] @ x\<close> and peer \<open>p\<close> is also a proof for the room \<open>r\<close> and the peer \<open>x @ [0] @ p\<close>.
\<close>

theorem room_proof_binding:
  assumes "length s = 32" and "\<And>m. \<exists>t. hmac s m = Some t \<and> length t = 32"
    and "hmac s (proof_message r p) = hmac s (proof_message r' p') \<Longrightarrow> proof_message r p = proof_message r' p'"
    and "8 \<le> length r" "p \<noteq> []" "8 \<le> length r'" "p' \<noteq> []"
    and "0 \<notin> set r" "0 \<notin> set r'"
  shows "(\<exists>pr. room_secret_proof hmac s r p = Inr pr \<and> length pr = 64 \<and>
      (verify_room_secret_proof hmac s r' p' pr \<longleftrightarrow> r' = r \<and> p' = p)) \<and>
    room_secret_proof hmac s (r @ [0] @ x) p = room_secret_proof hmac s r (x @ [0] @ p)"
proof -
  obtain t where t: "hmac s (proof_message r p) = Some t" "length t = 32" using assms(2) by blast
  obtain t' where t': "hmac s (proof_message r' p') = Some t'" using assms(2) by blast
  have "t' = t \<longleftrightarrow> r' = r \<and> p' = p"
    using assms(3) t(1) t' proof_message_inject [OF assms(8,9)] by auto
  moreover have "room_secret_proof hmac s r p = Inr (enroll_hex_lower t)"
    using assms t by (simp add: room_secret_proof_def)
  moreover have "length (enroll_hex_lower t) = 64" using t(2) by (simp add: enroll_hex_lower_def length_hex_bytes)
  moreover have "verify_room_secret_proof hmac s r' p' (enroll_hex_lower t) \<longleftrightarrow> t' = t"
    using assms t' by (simp add: verify_room_secret_proof_def room_secret_proof_def)
  moreover have "room_secret_proof hmac s (r @ [0] @ x) p = room_secret_proof hmac s r (x @ [0] @ p)"
    using assms by (simp add: room_secret_proof_def proof_message_def)
  ultimately show ?thesis by blast
qed

text \<open>A MAC that keeps the last 32 bytes of the padded message distinguishes the messages below.\<close>

definition tail_mac :: hmac_fun where
  "tail_mac k m = Some (take 32 (rev m @ replicate 32 0))"

theorem room_proof_binding_witness:
  "\<exists>pr. room_secret_proof tail_mac (replicate 32 1) (ascii ''field-01'') (ascii ''alice'') = Inr pr \<and>
     length pr = 64 \<and>
     \<not> verify_room_secret_proof tail_mac (replicate 32 1) (ascii ''field-01'') (ascii ''bob'') pr"
proof -
  have "ascii ''bob'' \<noteq> ascii ''alice''" by (simp add: ascii_def)
  moreover have "(\<exists>pr. room_secret_proof tail_mac (replicate 32 1) (ascii ''field-01'') (ascii ''alice'') = Inr pr \<and>
      length pr = 64 \<and>
      (verify_room_secret_proof tail_mac (replicate 32 1) (ascii ''field-01'') (ascii ''bob'') pr \<longleftrightarrow>
        ascii ''field-01'' = ascii ''field-01'' \<and> ascii ''bob'' = ascii ''alice'')) \<and>
    room_secret_proof tail_mac (replicate 32 1) (ascii ''field-01'' @ [0] @ []) (ascii ''alice'') =
      room_secret_proof tail_mac (replicate 32 1) (ascii ''field-01'') ([] @ [0] @ ascii ''alice'')"
    by (rule room_proof_binding) (simp_all add: tail_mac_def proof_message_def PROOF_DOMAIN_def ascii_def)
  ultimately show ?thesis by blast
qed

text \<open>
  Knowing the room id is not enough to join: a join is authorised exactly when the room id
  has eight bytes, a room secret of 32 bytes is held, and every token policy that is not blank is met by
  a presented token with the same text after trimming. Without a secret, or with a blank or missing
  token under a policy, every join is refused.
\<close>

theorem join_requires_secret:
  "(join_authorized room secret req pres \<longleftrightarrow>
      8 \<le> length room \<and> (\<exists>s. secret = Some s \<and> length s = 32) \<and>
      (\<forall>t. req = Some t \<and> str_trim t \<noteq> [] \<longrightarrow> (\<exists>g. pres = Some g \<and> str_trim g = str_trim t))) \<and>
   \<not> join_authorized room None req pres \<and>
   (str_trim t \<noteq> [] \<and> str_trim g = [] \<longrightarrow>
      \<not> join_authorized room secret (Some t) None \<and> \<not> join_authorized room secret (Some t) (Some g))"
proof -
  have tok: "enrollment_token_acceptable req pres \<longleftrightarrow>
      (\<forall>t. req = Some t \<and> str_trim t \<noteq> [] \<longrightarrow> (\<exists>g. pres = Some g \<and> str_trim g = str_trim t))" for req pres
    by (cases req; cases pres) (auto simp: enrollment_token_acceptable_def trimmed_token_def)
  show ?thesis by (auto simp: join_authorized_def tok split: option.splits)
qed

theorem join_requires_secret_witness:
  "join_authorized (ascii ''field-01'') (Some (replicate 32 1)) (Some []) None \<and>
   \<not> join_authorized (ascii ''field-01'') (Some (replicate 32 1)) (Some (ascii ''tok'')) None"
proof -
  have "str_trim (ascii ''tok'') = ascii ''tok''"
    by (rule str_trim_ascii) (simp add: ascii_def char_is_whitespace_def)
  moreover have "str_trim [] = []" by (simp add: str_trim_def)
  ultimately show ?thesis
    using join_requires_secret [of "ascii ''field-01''" "Some (replicate 32 1)" "Some []" None "ascii ''tok''" "[]"]
    by simp
qed

end
