(* ===== verification/Tls_Pins.thy ===== *)
theory Tls_Pins
  imports Talk_Prelude
begin

text \<open>
  The certificate pins of \<open>core/src/tls_pins.rs\<close>: the configured set, the match against the presented
  chain and the environment switch. The value of the environment variable is an argument
  (\<open>None\<close> when it is unset or not Unicode).
\<close>

definition RELAY_HOST :: rstring where "RELAY_HOST = ascii ''relay.sassyconsultingllc.com''"

definition SPKI_PINS_SHA256_B64 :: "rstring list" where
  "SPKI_PINS_SHA256_B64 =
     [ascii ''kIdp6NNEd8wsugYyyIYFsi1ylMCED3hZbSR8ZFsa/A4='',
      ascii ''vh78KSg1Ry4NaqGDV10w/cTb9VH3BQUZoCWNa93W/EY='',
      ascii ''yDu9og255NN5GEf+Bwa9rTrqFQ0EydZ0r1FCh9TdAW4='',
      ascii ''YPtHaftLw6/0vnc2BnNKGF54xiCA28WFcccjkA4ypCM='']"

definition pins_complete :: bool where
  "pins_complete \<longleftrightarrow> 2 \<le> length SPKI_PINS_SHA256_B64"

definition PINNING_DEFAULT :: bool where "PINNING_DEFAULT = True"

definition pin_match :: "rstring list \<Rightarrow> rstring list \<Rightarrow> bool" where
  "pin_match presented_b64 configured_b64 =
     (if presented_b64 = [] \<or> configured_b64 = [] then False
      else list_ex (\<lambda>p. list_ex (\<lambda>c. c = p) configured_b64) presented_b64)"

definition pinning_enabled_from_env :: "rstring option \<Rightarrow> bool" where
  "pinning_enabled_from_env var =
     (case var of
        Some v \<Rightarrow>
          if v \<in> set (map ascii [''0'', ''false'', ''FALSE'', ''no'', ''off'']) then False
          else if v \<in> set (map ascii [''1'', ''true'', ''TRUE'', ''yes'', ''on'']) then True
          else PINNING_DEFAULT \<and> pins_complete
      | None \<Rightarrow> PINNING_DEFAULT \<and> pins_complete)"

lemma pin_match_iff: "pin_match ps cs \<longleftrightarrow> set ps \<inter> set cs \<noteq> {}"
  by (cases "ps = [] \<or> cs = []") (auto simp: pin_match_def list_ex_iff)

text \<open>
  Pinning is fail-closed and on by default: a chain is accepted exactly when it presents a
  configured pin, so an empty chain or an empty pin set never matches; each certificate of the configured
  set is accepted on its own, so losing one intermediate leaves backups; and pinning is off only for
  the five spellings of an explicit opt-out.
\<close>

theorem pinning_fails_closed:
  "(pin_match ps cs \<longleftrightarrow> set ps \<inter> set cs \<noteq> {}) \<and> \<not> pin_match [] cs \<and> \<not> pin_match ps [] \<and>
   (pin_match [p] SPKI_PINS_SHA256_B64 \<longleftrightarrow> p \<in> set SPKI_PINS_SHA256_B64) \<and>
   distinct SPKI_PINS_SHA256_B64 \<and> pins_complete \<and>
   (pinning_enabled_from_env var = False \<longleftrightarrow>
      var \<in> Some ` ascii ` {''0'', ''false'', ''FALSE'', ''no'', ''off''})"
proof -
  have "distinct SPKI_PINS_SHA256_B64" by code_simp
  moreover have "pins_complete" by (simp add: pins_complete_def SPKI_PINS_SHA256_B64_def)
  moreover from this have "pinning_enabled_from_env var = False \<longleftrightarrow>
      var \<in> Some ` ascii ` {''0'', ''false'', ''FALSE'', ''no'', ''off''}"
    unfolding pinning_enabled_from_env_def PINNING_DEFAULT_def list.set_map
    by (cases var) (simp_all add: image_iff)
  ultimately show ?thesis by (simp add: pin_match_iff)
qed

end
