(* ===== verification/Audio_Buffers.thy ===== *)
theory Audio_Buffers
  imports Dedup_Window
begin

text \<open>
  The building blocks of \<open>core/src/audio_cache.rs\<close>: frames, utterances, the per-speaker accumulator, the
  per-sender jitter queue, the priority order of the playback queue and the arithmetic of the mixer.
  An \<open>Instant\<close> is a number of nanoseconds. The operations read the monotonic clock at several points of
  one call; the model passes one reading, \<open>now\<close>, per call. Floating-point values (\<open>f32\<close>, \<open>f64\<close>) are real
  numbers, so rounding is not modelled.
\<close>

section \<open>Frames and utterances\<close>

definition SPEECH_GAP_MS :: nat where "SPEECH_GAP_MS = 800"
definition ACTIVE_SPEAKER_WINDOW_MS :: nat where "ACTIVE_SPEAKER_WINDOW_MS = 200"
definition MAX_FRAMES_PER_SPEAKER :: nat where "MAX_FRAMES_PER_SPEAKER = 500"
definition MAX_CACHED_SPEAKERS :: nat where "MAX_CACHED_SPEAKERS = 16"
definition MAX_QUEUED_UTTERANCES :: nat where "MAX_QUEUED_UTTERANCES = 32"
definition MIX_MAX_SPEAKERS :: nat where "MIX_MAX_SPEAKERS = 6"
definition MIX_ALIGNMENT_WINDOW_MS :: nat where "MIX_ALIGNMENT_WINDOW_MS = 25"
definition ACTIVE_SPEAKER_MIN_FRAMES :: nat where "ACTIVE_SPEAKER_MIN_FRAMES = 2"
definition LIVE_JITTER_DRAIN_AGE_MS :: nat where "LIVE_JITTER_DRAIN_AGE_MS = 35"
definition DEFAULT_LIVE_JITTER_PREBUFFER_FRAMES :: nat where "DEFAULT_LIVE_JITTER_PREBUFFER_FRAMES = 5"
definition FRAME_DEDUP_WINDOW :: nat where "FRAME_DEDUP_WINDOW = 256"

record CachedFrame =
  cf_sender_id :: rstring
  cf_timestamp :: u64
  cf_samples :: "i16 list"
  cf_received_at :: instant

record Utterance =
  ut_id :: u64
  ut_sender_id :: rstring
  ut_sender_name :: rstring
  ut_is_favorite :: bool
  ut_started_at :: u64
  ut_ended_at :: u64
  ut_frames :: "CachedFrame list"
  ut_fully_played :: bool

definition duration_ms :: "Utterance \<Rightarrow> u64" where
  "duration_ms u = (if ut_frames u = [] then 0 else sat_add (sat_sub (ut_ended_at u) (ut_started_at u)) 20)"

section \<open>Speaker buffers\<close>

record SpeakerBuffer =
  sb_sender_id :: rstring
  sb_frames :: "CachedFrame list"
  sb_last_frame_at :: instant
  sb_first_timestamp :: u64
  sb_last_timestamp :: u64
  sb_recent_pushes :: "instant list"

definition SpeakerBuffer_new :: "rstring \<Rightarrow> instant \<Rightarrow> SpeakerBuffer" where
  "SpeakerBuffer_new sender_id now =
     \<lparr>sb_sender_id = sender_id, sb_frames = [], sb_last_frame_at = now, sb_first_timestamp = 0,
      sb_last_timestamp = 0, sb_recent_pushes = []\<rparr>"

definition prune_recent_pushes :: "SpeakerBuffer \<Rightarrow> instant \<Rightarrow> SpeakerBuffer" where
  "prune_recent_pushes b now =
     b\<lparr>sb_recent_pushes :=
        dropWhile (\<lambda>front. millis ACTIVE_SPEAKER_WINDOW_MS < now - front) (sb_recent_pushes b)\<rparr>"

definition push_frame :: "SpeakerBuffer \<Rightarrow> CachedFrame \<Rightarrow> instant \<Rightarrow> SpeakerBuffer" where
  "push_frame b frame now =
     (let b = (if sb_frames b = [] then b\<lparr>sb_first_timestamp := cf_timestamp frame\<rparr> else b);
          b = b\<lparr>sb_last_timestamp := cf_timestamp frame, sb_last_frame_at := now,
                sb_recent_pushes := sb_recent_pushes b @ [now]\<rparr>;
          b = prune_recent_pushes b now
      in if length (sb_frames b) < MAX_FRAMES_PER_SPEAKER then b\<lparr>sb_frames := sb_frames b @ [frame]\<rparr> else b)"

definition is_speech_complete :: "SpeakerBuffer \<Rightarrow> instant \<Rightarrow> bool" where
  "is_speech_complete b now \<longleftrightarrow>
     (if sb_frames b = [] then False else millis SPEECH_GAP_MS < now - sb_last_frame_at b)"

definition is_actively_speaking :: "SpeakerBuffer \<Rightarrow> bool" where
  "is_actively_speaking b \<longleftrightarrow> ACTIVE_SPEAKER_MIN_FRAMES \<le> length (sb_recent_pushes b)"

text \<open>
  The utterance takes the buffer's frames and the next id of the process-wide counter. The callers own
  the buffer they drain and drop it afterwards.
\<close>

definition drain_to_utterance :: "SpeakerBuffer \<Rightarrow> rstring \<Rightarrow> bool \<Rightarrow> u64 \<Rightarrow> Utterance" where
  "drain_to_utterance b sender_name is_favorite next_id =
     \<lparr>ut_id = next_id, ut_sender_id = sb_sender_id b, ut_sender_name = sender_name,
      ut_is_favorite = is_favorite, ut_started_at = sb_first_timestamp b, ut_ended_at = sb_last_timestamp b,
      ut_frames = sb_frames b, ut_fully_played = False\<rparr>"

section \<open>The jitter queue\<close>

text \<open>
  The frame goes before the first one with a later time stamp, and the oldest leaves when more than
  \<open>prebuffer\<close> frames are held.
\<close>

definition jitter_insert :: "CachedFrame \<Rightarrow> CachedFrame list \<Rightarrow> CachedFrame list" where
  "jitter_insert f q =
     takeWhile (\<lambda>g. \<not> cf_timestamp f < cf_timestamp g) q @ f #
     dropWhile (\<lambda>g. \<not> cf_timestamp f < cf_timestamp g) q"

definition jitter_step :: "nat \<Rightarrow> CachedFrame \<Rightarrow> CachedFrame list \<Rightarrow> CachedFrame list \<times> CachedFrame option" where
  "jitter_step prebuffer f q =
     (let q = jitter_insert f q
      in if prebuffer < length q then (case q of [] \<Rightarrow> (q, None) | out # rest \<Rightarrow> (rest, Some out)) else (q, None))"

text \<open>A run over arriving frames: what is played, and what is still held.\<close>

fun jitter_run :: "nat \<Rightarrow> CachedFrame list \<Rightarrow> CachedFrame list \<Rightarrow> CachedFrame list \<times> CachedFrame list" where
  "jitter_run n q [] = ([], q)"
| "jitter_run n q (f # fs) =
     (case jitter_step n f q of
        (q1, out) \<Rightarrow> (case jitter_run n q1 fs of
          (played, rest) \<Rightarrow> (case out of None \<Rightarrow> played | Some g \<Rightarrow> g # played, rest)))"

section \<open>The playback queue\<close>

text \<open>Rust compares the tuples \<open>(started_at, duration_ms)\<close> lexicographically.\<close>

definition queue_key :: "Utterance \<Rightarrow> u64 \<times> u64" where
  "queue_key u = (ut_started_at u, duration_ms u)"

definition key_less :: "u64 \<times> u64 \<Rightarrow> u64 \<times> u64 \<Rightarrow> bool" where
  "key_less a b \<longleftrightarrow> fst a < fst b \<or> fst a = fst b \<and> snd a < snd b"

text \<open>\<open>iter().position(p).unwrap_or(len)\<close>\<close>

definition position_or_len :: "('a \<Rightarrow> bool) \<Rightarrow> 'a list \<Rightarrow> nat" where
  "position_or_len p xs = length (takeWhile (\<lambda>x. \<not> p x) xs)"

text \<open>\<open>(from..to).find(p).unwrap_or(to)\<close> over the indices of the queue.\<close>

definition find_in_range :: "(nat \<Rightarrow> bool) \<Rightarrow> nat \<Rightarrow> nat \<Rightarrow> nat" where
  "find_in_range p a b = (case find p [a..<b] of Some i \<Rightarrow> i | None \<Rightarrow> b)"

definition insert_prioritized :: "Utterance \<Rightarrow> Utterance list \<Rightarrow> Utterance list" where
  "insert_prioritized u queue =
     (let (tier_start, tier_end) =
            (if ut_is_favorite u then (0, position_or_len (\<lambda>v. \<not> ut_is_favorite v) queue)
             else (position_or_len (\<lambda>v. \<not> ut_is_favorite v) queue, length queue));
          new_key = queue_key u;
          pos = find_in_range (\<lambda>i. key_less new_key (queue_key (queue ! i))) tier_start tier_end
      in take pos queue @ u # drop pos queue)"

section \<open>Mixing\<close>

definition I16_MAX :: int where "I16_MAX = 32767"
definition I16_MIN :: int where "I16_MIN = -32768"
definition MIX_SOFT_CLIP_THRESHOLD :: real where "MIX_SOFT_CLIP_THRESHOLD = 85 / 100"
definition MIX_TARGET_RMS :: real where "MIX_TARGET_RMS = 18 / 100"
definition MIX_GAIN_SMOOTHING :: real where "MIX_GAIN_SMOOTHING = 10 / 100"

text \<open>The sum of the aligned frames, cut or padded to the length of the first.\<close>

definition mix_add :: "int list \<Rightarrow> i16 list \<Rightarrow> int list" where
  "mix_add acc samples =
     map (\<lambda>i. acc ! i + (if i < length samples then sint (samples ! i) else 0)) [0..<length acc]"

definition mix_sum :: "nat \<Rightarrow> i16 list list \<Rightarrow> int list" where
  "mix_sum frame_len frames = foldl mix_add (replicate frame_len 0) frames"

definition mix_rms :: "int list \<Rightarrow> real" where
  "mix_rms acc =
     sqrt (sum_list (map (\<lambda>s. (real_of_int s / real_of_int I16_MAX) * (real_of_int s / real_of_int I16_MAX)) acc)
       / real (length acc))"

definition clampr :: "real \<Rightarrow> real \<Rightarrow> real \<Rightarrow> real" where
  "clampr lo hi x = (if x < lo then lo else if hi < x then hi else x)"

definition mix_target_gain :: "real \<Rightarrow> real \<Rightarrow> real" where
  "mix_target_gain rms gain = (if rms > 1 / 1000 then clampr (1 / 10) 4 (MIX_TARGET_RMS / rms) else gain)"

definition mix_next_gain :: "real \<Rightarrow> int list \<Rightarrow> real" where
  "mix_next_gain gain acc = gain + (mix_target_gain (mix_rms acc) gain - gain) * MIX_GAIN_SMOOTHING"

definition soft_clip :: "real \<Rightarrow> real" where
  "soft_clip scaled =
     (let threshold = MIX_SOFT_CLIP_THRESHOLD * real_of_int I16_MAX
      in if threshold < \<bar>scaled\<bar>
         then (let over = (\<bar>scaled\<bar> - threshold) / (real_of_int I16_MAX - threshold)
               in sgn scaled * (threshold + (real_of_int I16_MAX - threshold) * tanh over))
         else scaled)"

text \<open>\<open>clamp(i16::MIN, i16::MAX) as i16\<close>; the cast truncates towards zero.\<close>

definition to_i16 :: "real \<Rightarrow> i16" where
  "to_i16 x =
     (let y = clampr (real_of_int I16_MIN) (real_of_int I16_MAX) x
      in word_of_int (if y < 0 then - \<lfloor>- y\<rfloor> else \<lfloor>y\<rfloor>))"

definition mix_output :: "real \<Rightarrow> int list \<Rightarrow> i16 list" where
  "mix_output gain acc = map (\<lambda>s. to_i16 (soft_clip (real_of_int s * gain))) acc"

section \<open>The jitter queue restores order\<close>

abbreviation in_order :: "CachedFrame list \<Rightarrow> bool" where
  "in_order fs \<equiv> sorted (map cf_timestamp fs)"

lemma mset_jitter_insert [simp]: "mset (jitter_insert f q) = add_mset f (mset q)"
proof -
  have "mset (takeWhile P q) + mset (dropWhile P q) = mset q" for P
    by (metis mset_append takeWhile_dropWhile_id)
  then show ?thesis by (simp add: jitter_insert_def)
qed

lemma length_jitter_insert [simp]: "length (jitter_insert f q) = Suc (length q)"
  by (metis mset_jitter_insert size_mset size_add_mset)

lemma set_jitter_insert [simp]: "set (jitter_insert f q) = insert f (set q)"
  by (metis mset_jitter_insert set_mset_mset set_mset_add_mset_insert)

lemma in_order_jitter_insert: "in_order q \<Longrightarrow> in_order (jitter_insert f q)"
proof (induction q)
  case (Cons g q)
  then show ?case
  proof (cases "cf_timestamp f < cf_timestamp g")
    case True
    with Cons.prems show ?thesis by (auto simp: jitter_insert_def)
  next
    case False
    then have "jitter_insert f (g # q) = g # jitter_insert f q" by (simp add: jitter_insert_def)
    with Cons False show ?thesis by simp
  qed
qed (simp add: jitter_insert_def)

lemma jitter_step_cases:
  obtains "length q < n" "jitter_step n f q = (jitter_insert f q, None)"
    | out rest where "n \<le> length q" "jitter_insert f q = out # rest" "jitter_step n f q = (rest, Some out)"
  by (cases "jitter_insert f q"; cases "n \<le> length q")
    (auto simp: jitter_step_def Let_def dest: arg_cong [where f = length])

lemma jitter_run_snoc:
  "jitter_run n q (fs @ [f]) =
     (case jitter_run n q fs of (played, r) \<Rightarrow>
        (case jitter_step n f r of (r1, out) \<Rightarrow> (played @ (case out of None \<Rightarrow> [] | Some g \<Rightarrow> [g]), r1)))"
  by (induction fs arbitrary: q) (auto split: prod.splits option.splits)

text \<open>A frame that would have to go before one already played was overtaken by more than \<open>n\<close> frames.\<close>

lemma late_frame:
  assumes "in_order (p @ r)" "x \<in> set p" "t < cf_timestamp x"
  shows "Suc (length r) \<le> length (filter (\<lambda>g. t < cf_timestamp g) (p @ r))"
proof -
  from assms(1,2) have "\<forall>g \<in> set r. cf_timestamp x \<le> cf_timestamp g" by (auto simp: sorted_append)
  with assms(3) have "filter (\<lambda>g. t < cf_timestamp g) r = r" by (force simp: filter_id_conv)
  moreover have "filter (\<lambda>g. t < cf_timestamp g) p \<noteq> []" using assms(2,3) by (auto simp: filter_empty_conv)
  ultimately show ?thesis by (cases "filter (\<lambda>g. t < cf_timestamp g) p") auto
qed

definition displaced_at_most :: "nat \<Rightarrow> CachedFrame list \<Rightarrow> bool" where
  "displaced_at_most n fs \<longleftrightarrow>
     (\<forall>j < length fs. length (filter (\<lambda>g. cf_timestamp (fs ! j) < cf_timestamp g) (take j fs)) \<le> n)"

lemma displaced_snoc:
  "displaced_at_most n (fs @ [f]) \<longleftrightarrow>
     displaced_at_most n fs \<and> length (filter (\<lambda>g. cf_timestamp f < cf_timestamp g) fs) \<le> n"
  by (auto simp: displaced_at_most_def nth_append less_Suc_eq)

lemma jitter_run_content:
  "jitter_run n [] fs = (played, r) \<Longrightarrow>
     mset (played @ r) = mset fs \<and> length r = min n (length fs) \<and> (length fs \<le> n \<longrightarrow> played = [])"
proof (induction fs arbitrary: played r rule: rev_induct)
  case (snoc f fs)
  obtain p q where pq: "jitter_run n [] fs = (p, q)" by (cases "jitter_run n [] fs")
  note IH = snoc.IH [OF pq]
  show ?case
  proof (cases rule: jitter_step_cases [of q n f])
    case 1
    with snoc.prems pq IH show ?thesis by (auto simp: jitter_run_snoc)
  next
    case (2 out rest)
    then have "mset (out # rest) = add_mset f (mset q)" "length (out # rest) = Suc (length q)"
      by (metis mset_jitter_insert, metis length_jitter_insert)
    moreover from this(1) have "mset (p @ out # rest) = add_mset f (mset (p @ q))"
      by (metis mset_append union_mset_add_mset_right)
    moreover have "played = p @ [out]" "r = rest" using 2 snoc.prems pq by (simp_all add: jitter_run_snoc)
    ultimately show ?thesis using 2 IH by auto
  qed
qed simp

lemma jitter_run_order:
  "jitter_run n [] fs = (played, r) \<Longrightarrow> displaced_at_most n fs \<Longrightarrow> in_order (played @ r)"
proof (induction fs arbitrary: played r rule: rev_induct)
  case (snoc f fs)
  obtain p q where pq: "jitter_run n [] fs = (p, q)" by (cases "jitter_run n [] fs")
  have IH: "in_order (p @ q)" using snoc.IH [OF pq] snoc.prems(2) by (simp add: displaced_snoc)
  have few: "length (filter (\<lambda>g. cf_timestamp f < cf_timestamp g) fs) \<le> n"
    using snoc.prems(2) by (simp add: displaced_snoc)
  note content = jitter_run_content [OF pq]
  then have "mset (filter (\<lambda>g. cf_timestamp f < cf_timestamp g) (p @ q)) =
      mset (filter (\<lambda>g. cf_timestamp f < cf_timestamp g) fs)" by (metis mset_filter)
  then have same: "length (filter (\<lambda>g. cf_timestamp f < cf_timestamp g) (p @ q)) =
      length (filter (\<lambda>g. cf_timestamp f < cf_timestamp g) fs)" by (rule mset_eq_length)
  have "cf_timestamp x \<le> cf_timestamp f" if "x \<in> set p" for x
  proof (rule ccontr)
    assume "\<not> cf_timestamp x \<le> cf_timestamp f"
    then have "Suc (length q) \<le> n" using late_frame [OF IH that, of "cf_timestamp f"] few same by (simp add: not_le)
    then have "length fs \<le> n" using content by simp
    with content that show False by simp
  qed
  then have "in_order (p @ jitter_insert f q)"
    using IH in_order_jitter_insert [of q f] by (auto simp: sorted_append)
  then show ?case
    using snoc.prems(1) pq by (cases rule: jitter_step_cases [of q n f]) (auto simp: jitter_run_snoc)
qed simp

section \<open>The playback queue is a stable sort\<close>

text \<open>Favourites first, then by start, then by duration, as one number.\<close>

definition queue_rank :: "Utterance \<Rightarrow> nat" where
  "queue_rank u =
     (if ut_is_favorite u then 0 else 2 ^ 128) + unat (ut_started_at u) * 2 ^ 64 + unat (duration_ms u)"

lemma rank_mixed_less:
  fixes a b c d :: nat
  assumes "b < 2 ^ 64" "d < 2 ^ 64"
  shows "a * 2 ^ 64 + b < c * 2 ^ 64 + d \<longleftrightarrow> a < c \<or> a = c \<and> b < d"
proof (cases a c rule: linorder_cases)
  case less
  then have "Suc a * 2 ^ 64 \<le> c * 2 ^ 64" by (intro mult_right_mono) auto
  with less assms show ?thesis by simp
next
  case greater
  then have "Suc c * 2 ^ 64 \<le> a * 2 ^ 64" by (intro mult_right_mono) auto
  with greater assms show ?thesis by simp
qed simp

lemma rank_bound: "unat s * 2 ^ 64 + unat d < 2 ^ 128" for s d :: u64
proof -
  have "unat s * 2 ^ 64 + unat d < (2 ^ 64) * 2 ^ 64 + 0 \<or> unat s = 2 ^ 64"
    using rank_mixed_less [of "unat d" 0 "unat s" "2 ^ 64"] unat_bound [of s] unat_bound [of d] by simp
  with unat_bound [of s] show ?thesis by auto
qed

lemma queue_rank_less:
  "queue_rank u < queue_rank v \<longleftrightarrow>
     ut_is_favorite u \<and> \<not> ut_is_favorite v \<or>
     ut_is_favorite u = ut_is_favorite v \<and> key_less (queue_key u) (queue_key v)"
proof -
  let ?r = "\<lambda>u. unat (ut_started_at u) * 2 ^ 64 + unat (duration_ms u)"
  have r: "?r u < ?r v \<longleftrightarrow> key_less (queue_key u) (queue_key v)" for u v
    using unat_bound [of "duration_ms u"] unat_bound [of "duration_ms v"]
      rank_mixed_less [of "unat (duration_ms u)" "unat (duration_ms v)" "unat (ut_started_at u)" "unat (ut_started_at v)"]
    by (simp add: key_less_def queue_key_def word_less_nat_alt word_unat_eq_iff)
  have b: "?r u < 2 ^ 128" for u by (rule rank_bound)
  have q: "queue_rank u = (if ut_is_favorite u then ?r u else 2 ^ 128 + ?r u)" for u
    by (simp add: queue_rank_def)
  show ?thesis
    unfolding r [symmetric] q using b [of u] b [of v]
    by (cases "ut_is_favorite u"; cases "ut_is_favorite v") auto
qed

text \<open>Where the linear searches of the code stop.\<close>

lemma find_append_none: "(\<And>x. x \<in> set xs \<Longrightarrow> \<not> p x) \<Longrightarrow> find p (xs @ ys) = find p ys"
  by (induction xs) auto

lemma find_in_range_eq:
  assumes "a \<le> i" "i \<le> b" "\<And>j. a \<le> j \<Longrightarrow> j < i \<Longrightarrow> \<not> p j" "i < b \<Longrightarrow> p i"
  shows "find_in_range p a b = i"
proof -
  have "find p ([a..<i] @ [i..<b]) = find p [i..<b]" using assms(3) by (intro find_append_none) auto
  also have "\<dots> = (if i < b then Some i else None)" using assms(4) by (simp add: upt_conv_Cons)
  finally have "find p ([a..<i] @ [i..<b]) = (if i < b then Some i else None)" .
  moreover have "[a..<i] @ [i..<b] = [a..<b]" using assms(1,2) by (metis le_Suc_ex upt_add_eq_append)
  ultimately show ?thesis using assms(2) by (simp add: find_in_range_def)
qed

lemma find_in_range_spec:
  assumes "a \<le> b"
  shows "a \<le> find_in_range p a b \<and> find_in_range p a b \<le> b \<and>
    (\<forall>j. a \<le> j \<and> j < find_in_range p a b \<longrightarrow> \<not> p j) \<and> (find_in_range p a b < b \<longrightarrow> p (find_in_range p a b))"
proof (cases "\<exists>i. a \<le> i \<and> i < b \<and> p i")
  case True
  define i where "i = (LEAST i. a \<le> i \<and> i < b \<and> p i)"
  from True have i: "a \<le> i" "i < b" "p i" unfolding i_def by (metis (mono_tags, lifting) LeastI_ex)+
  have less: "\<not> p j" if "a \<le> j" "j < i" for j
    using that i not_less_Least [of j "\<lambda>i. a \<le> i \<and> i < b \<and> p i"] by (auto simp: i_def)
  have "find_in_range p a b = i" using i less by (intro find_in_range_eq) auto
  with i less show ?thesis by simp
next
  case False
  then have "find_in_range p a b = b" using assms by (intro find_in_range_eq) auto
  with False assms show ?thesis by auto
qed

lemma length_takeWhile_eqI:
  assumes "i \<le> length xs" "\<And>j. j < i \<Longrightarrow> P (xs ! j)" "i < length xs \<Longrightarrow> \<not> P (xs ! i)"
  shows "length (takeWhile P xs) = i"
  using assms
proof (induction xs arbitrary: i)
  case (Cons x xs)
  show ?case
  proof (cases i)
    case 0
    with Cons.prems(3) show ?thesis by simp
  next
    case (Suc k)
    have "length (takeWhile P xs) = k"
      using Suc Cons.prems by (intro Cons.IH) fastforce+
    with Suc Cons.prems(2) [of 0] show ?thesis by simp
  qed
qed simp

lemma insert_prioritized_eq:
  assumes "sorted (map queue_rank q)"
  shows "insert_prioritized u q =
    takeWhile (\<lambda>v. \<not> queue_rank u < queue_rank v) q @ u # dropWhile (\<lambda>v. \<not> queue_rank u < queue_rank v) q"
proof -
  let ?P = "\<lambda>v. \<not> queue_rank u < queue_rank v"
  let ?k = "position_or_len (\<lambda>v. \<not> ut_is_favorite v) q"
  let ?p = "\<lambda>i. key_less (queue_key u) (queue_key (q ! i))"
  have k: "?k \<le> length q" "?k < length q \<Longrightarrow> \<not> ut_is_favorite (q ! ?k)"
    using nth_length_takeWhile [of "\<lambda>v. \<not> \<not> ut_is_favorite v" q]
    by (simp_all add: position_or_len_def length_takeWhile_le)
  have fav: "ut_is_favorite (q ! j)" if "j < ?k" for j
    using nth_mem [of j "takeWhile (\<lambda>v. \<not> \<not> ut_is_favorite v) q"] that
    by (auto simp: position_or_len_def takeWhile_nth dest: set_takeWhileD)
  have non: "\<not> ut_is_favorite (q ! j)" if "?k \<le> j" "j < length q" for j
  proof
    assume "ut_is_favorite (q ! j)"
    moreover have "\<not> ut_is_favorite (q ! ?k)" using k(2) that by simp
    ultimately have "queue_rank (q ! j) < queue_rank (q ! ?k)" by (simp add: queue_rank_less)
    moreover have "queue_rank (q ! ?k) \<le> queue_rank (q ! j)"
      using sorted_nth_mono [OF assms, of ?k j] that by simp
    ultimately show False by simp
  qed
  define pos where "pos = (if ut_is_favorite u then find_in_range ?p 0 ?k else find_in_range ?p ?k (length q))"
  have "length (takeWhile ?P q) = pos"
  proof (cases "ut_is_favorite u")
    case True
    have f: "pos \<le> ?k" "\<And>j. j < pos \<Longrightarrow> \<not> ?p j" "pos < ?k \<Longrightarrow> ?p pos"
      using True find_in_range_spec [of 0 ?k ?p] by (auto simp: pos_def)
    show ?thesis
    proof (rule length_takeWhile_eqI)
      show "pos \<le> length q" using f(1) k(1) by simp
      show "?P (q ! j)" if "j < pos" for j
        using that f(1,2) fav [of j] True by (auto simp: queue_rank_less)
      show "\<not> ?P (q ! pos)" if "pos < length q"
        using that f(1,3) fav [of pos] k(2) True by (cases "pos = ?k") (auto simp: queue_rank_less)
    qed
  next
    case False
    note f = find_in_range_spec [OF k(1), of ?p]
    show ?thesis
    proof (rule length_takeWhile_eqI)
      show "pos \<le> length q" using f False by (simp add: pos_def)
      show "?P (q ! j)" if "j < pos" for j
        using that f fav [of j] non [of j] False by (cases "j < ?k") (auto simp: pos_def queue_rank_less)
      show "\<not> ?P (q ! pos)" if "pos < length q"
        using that f non [of pos] False by (auto simp: pos_def queue_rank_less)
    qed
  qed
  moreover have "insert_prioritized u q = take pos q @ u # drop pos q"
    by (simp add: insert_prioritized_def pos_def Let_def)
  ultimately show ?thesis by (metis takeWhile_eq_take dropWhile_eq_drop)
qed

lemma sorted_map_between:
  "sorted (map f (xs @ ys)) \<Longrightarrow> (\<And>x. x \<in> set xs \<Longrightarrow> f x \<le> f u) \<Longrightarrow> (\<And>y. y \<in> set ys \<Longrightarrow> f u \<le> f y) \<Longrightarrow>
   sorted (map f (xs @ u # ys))"
  by (auto simp: sorted_append)

lemma insert_prioritized_sort_key:
  "insert_prioritized u (sort_key queue_rank us) = sort_key queue_rank (us @ [u])"
proof -
  let ?P = "\<lambda>v. \<not> queue_rank u < queue_rank v"
  let ?q = "sort_key queue_rank us"
  have tw: "takeWhile ?P ?q @ dropWhile ?P ?q = ?q" by simp
  have srt: "sorted (map queue_rank ?q)" by simp
  have later: "queue_rank u < queue_rank v" if "v \<in> set (dropWhile ?P ?q)" for v
  proof (cases "dropWhile ?P ?q")
    case Nil
    with that show ?thesis by (simp only: list.set empty_iff)
  next
    case (Cons w ws)
    then have "queue_rank u < queue_rank w" by (metis hd_dropWhile list.discI list.sel(1))
    moreover have "sorted (map queue_rank (takeWhile ?P ?q @ w # ws))" using srt tw Cons by metis
    ultimately show ?thesis using that Cons by (auto simp: sorted_append)
  qed
  have "sort_key queue_rank (us @ [u]) = takeWhile ?P ?q @ u # dropWhile ?P ?q"
  proof (rule properties_for_sort_key)
    have "mset (takeWhile ?P ?q) + mset (dropWhile ?P ?q) = mset us" by (metis mset_append mset_sort tw)
    then show "mset (takeWhile ?P ?q @ u # dropWhile ?P ?q) = mset (us @ [u])" by simp
    have "sorted (map queue_rank (takeWhile ?P ?q @ dropWhile ?P ?q))" using srt tw by metis
    then show "sorted (map queue_rank (takeWhile ?P ?q @ u # dropWhile ?P ?q))"
    proof (rule sorted_map_between)
      show "queue_rank x \<le> queue_rank u" if "x \<in> set (takeWhile ?P ?q)" for x
        using set_takeWhileD [OF that] by simp
      show "queue_rank u \<le> queue_rank y" if "y \<in> set (dropWhile ?P ?q)" for y
        using later [OF that] by simp
    qed
    fix k
    have none: "filter (\<lambda>x. queue_rank k = queue_rank x) (dropWhile ?P ?q) = []" if "queue_rank k = queue_rank u"
      unfolding filter_empty_conv using later that by (metis less_irrefl)
    have "filter (\<lambda>x. queue_rank k = queue_rank x) ?q = filter (\<lambda>x. queue_rank k = queue_rank x) us"
      using sort_key_stable [of queue_rank "queue_rank k" us] by (simp add: eq_commute)
    moreover have "filter (\<lambda>x. queue_rank k = queue_rank x) ?q =
        filter (\<lambda>x. queue_rank k = queue_rank x) (takeWhile ?P ?q) @
        filter (\<lambda>x. queue_rank k = queue_rank x) (dropWhile ?P ?q)" by (metis filter_append tw)
    ultimately show "filter (\<lambda>x. queue_rank k = queue_rank x) (takeWhile ?P ?q @ u # dropWhile ?P ?q) =
        filter (\<lambda>x. queue_rank k = queue_rank x) (us @ [u])"
      using none by (cases "queue_rank k = queue_rank u") auto
  qed
  then show ?thesis by (simp only: insert_prioritized_eq [OF srt])
qed

section \<open>The mixer stays in range\<close>

lemma clampr_range: "lo \<le> hi \<Longrightarrow> lo \<le> clampr lo hi x \<and> clampr lo hi x \<le> hi"
  by (simp add: clampr_def)

lemma clampr_mono: "lo \<le> hi \<Longrightarrow> x \<le> y \<Longrightarrow> clampr lo hi x \<le> clampr lo hi y"
  by (simp add: clampr_def)

lemma mix_next_gain_range:
  assumes "1 / 10 \<le> g" "g \<le> 4"
  shows "1 / 10 \<le> mix_next_gain g acc \<and> mix_next_gain g acc \<le> 4"
proof -
  have "1 / 10 \<le> mix_target_gain (mix_rms acc) g \<and> mix_target_gain (mix_rms acc) g \<le> 4"
    using assms clampr_range [of "1 / 10" 4] by (simp add: mix_target_gain_def)
  with assms show ?thesis unfolding mix_next_gain_def MIX_GAIN_SMOOTHING_def by argo
qed

text \<open>The knee of the soft clip: the part above the threshold, as a function of the magnitude.\<close>

definition knee :: "real \<Rightarrow> real" where
  "knee a = (if 2785195 / 100 < a then 2785195 / 100 + 491505 / 100 * tanh ((a - 2785195 / 100) / (491505 / 100)) else a)"

lemma soft_clip_knee: "soft_clip x = (if x < 0 then - knee (- x) else knee x)"
  by (auto simp: soft_clip_def knee_def Let_def MIX_SOFT_CLIP_THRESHOLD_def I16_MAX_def sgn_if)

lemma knee_range:
  assumes "0 \<le> a"
  shows "0 \<le> knee a \<and> knee a \<le> 32767"
proof (cases "2785195 / 100 < a")
  case True
  let ?t = "tanh ((a - 2785195 / 100) / (491505 / 100)) :: real"
  have "?t < 1" by (rule tanh_real_lt_1)
  moreover have "0 \<le> ?t" using True by simp
  moreover have "knee a = 2785195 / 100 + 491505 / 100 * ?t" unfolding knee_def using True by (rule if_P)
  ultimately show ?thesis by linarith
next
  case False
  then have "knee a = a" unfolding knee_def by (rule if_not_P)
  with assms False show ?thesis by linarith
qed

lemma knee_mono: "a \<le> b \<Longrightarrow> knee a \<le> knee b"
proof -
  assume ab: "a \<le> b"
  let ?t = "\<lambda>a. tanh ((a - 2785195 / 100) / (491505 / 100)) :: real"
  have "?t a \<le> ?t b" using ab by (simp add: divide_right_mono)
  moreover have "2785195 / 100 < b \<Longrightarrow> 0 \<le> ?t b" by simp
  ultimately show ?thesis using ab unfolding knee_def
    by (cases "2785195 / 100 < a"; cases "2785195 / 100 < b") (simp_all only: if_True if_False, linarith+)
qed

lemma soft_clip_range: "\<bar>soft_clip x\<bar> \<le> 32767"
  using knee_range [of x] knee_range [of "- x"] by (auto simp: soft_clip_knee)

lemma soft_clip_mono: "x \<le> y \<Longrightarrow> soft_clip x \<le> soft_clip y"
  using knee_mono [of x y] knee_mono [of "- y" "- x"] knee_range [of "- x"] knee_range [of y]
  by (auto simp: soft_clip_knee)

text \<open>Truncation towards zero.\<close>

definition trunc :: "real \<Rightarrow> int" where
  "trunc y = (if y < 0 then - \<lfloor>- y\<rfloor> else \<lfloor>y\<rfloor>)"

lemma trunc_mono: "x \<le> y \<Longrightarrow> trunc x \<le> trunc y"
proof -
  assume "x \<le> y"
  then have "\<lfloor>x\<rfloor> \<le> \<lfloor>y\<rfloor>" "\<lfloor>- y\<rfloor> \<le> \<lfloor>- x\<rfloor>" by (auto intro: floor_mono)
  moreover have "x < 0 \<Longrightarrow> 0 \<le> \<lfloor>- x\<rfloor>" "0 \<le> y \<Longrightarrow> 0 \<le> \<lfloor>y\<rfloor>" by auto
  ultimately show ?thesis using \<open>x \<le> y\<close> unfolding trunc_def
    by (cases "x < 0"; cases "y < 0") (simp_all only: if_True if_False, linarith+)
qed

lemma sint_to_i16: "\<bar>x\<bar> \<le> 32767 \<Longrightarrow> sint (to_i16 x) = trunc x"
proof -
  assume x: "\<bar>x\<bar> \<le> 32767"
  then have "to_i16 x = word_of_int (trunc x)"
    by (auto simp: to_i16_def clampr_def I16_MIN_def I16_MAX_def trunc_def Let_def)
  moreover have "trunc (- 32767) \<le> trunc x" "trunc x \<le> trunc 32767" using x by (auto intro!: trunc_mono)
  then have "- 32767 \<le> trunc x" "trunc x \<le> 32767" by (simp_all add: trunc_def)
  ultimately show ?thesis
    by (simp add: sint_sbintrunc' signed_take_bit_int_eq_self)
qed

section \<open>Properties\<close>

text \<open>
  The jitter queue restores order: when no frame arrives after more than \<open>n\<close> frames with later
  time stamps, what a queue of \<open>n\<close> frames has played followed by what it still holds is in time order,
  and is the frames received, each exactly once; at most \<open>n\<close> frames are held back, and playback starts
  with the \<open>n + 1\<close>st arrival.
\<close>

theorem jitter_restores_order:
  assumes "displaced_at_most n fs"
  shows "case jitter_run n [] fs of (played, held) \<Rightarrow>
    sorted (map cf_timestamp (played @ held)) \<and> mset (played @ held) = mset fs \<and>
    length held = min n (length fs) \<and> length played = length fs - n"
proof -
  obtain played held where r: "jitter_run n [] fs = (played, held)" by (cases "jitter_run n [] fs")
  note c = jitter_run_content [OF r]
  have "length played + length held = length fs" using c by (metis length_append mset_eq_length)
  with c jitter_run_order [OF r assms] r show ?thesis by auto
qed

definition frame_at :: "u64 \<Rightarrow> CachedFrame" where
  "frame_at t = \<lparr>cf_sender_id = [], cf_timestamp = t, cf_samples = [], cf_received_at = 0\<rparr>"

theorem jitter_restores_order_witness:
  "displaced_at_most 1 (map frame_at [20, 0, 40]) \<and>
   jitter_run 1 [] (map frame_at [20, 0, 40]) = (map frame_at [0, 20], [frame_at 40]) \<and>
   sorted (map cf_timestamp (map frame_at [0, 20] @ [frame_at 40]))"
proof -
  have d: "displaced_at_most 1 (map frame_at [20, 0, 40])"
    by (simp add: displaced_at_most_def frame_at_def less_Suc_eq numeral_3_eq_3)
  moreover have r: "jitter_run 1 [] (map frame_at [20, 0, 40]) = (map frame_at [0, 20], [frame_at 40])"
    by (simp add: jitter_step_def jitter_insert_def frame_at_def)
  ultimately show ?thesis using jitter_restores_order [OF d] unfolding r by simp
qed

text \<open>
  C33 (equivalence). The linear searches of \<open>insert_prioritized\<close> build a stable sort: utterances queued one
  after another are in the order favourites first, then by start time, then by duration, and
  those that agree in all three keep their arrival order.
\<close>

theorem queue_is_stable_sort:
  "foldl (\<lambda>q u. insert_prioritized u q) [] us = sort_key queue_rank us \<and>
   (queue_rank u < queue_rank v \<longleftrightarrow>
      ut_is_favorite u \<and> \<not> ut_is_favorite v \<or>
      ut_is_favorite u = ut_is_favorite v \<and>
      (ut_started_at u < ut_started_at v \<or> ut_started_at u = ut_started_at v \<and> duration_ms u < duration_ms v))"
proof
  show "foldl (\<lambda>q u. insert_prioritized u q) [] us = sort_key queue_rank us"
  proof (induction us rule: rev_induct)
    case (snoc u us)
    then show ?case by (simp only: foldl_append foldl.simps insert_prioritized_sort_key)
  qed simp
qed (simp add: queue_rank_less key_less_def queue_key_def)

text \<open>
  C34 (bounds). The mixer never wraps and never turns a louder sum into a quieter or inverted one: from a
  gain between 0.1 and 4 the smoothed gain stays between them, an output sample is the truncation of
  the soft-clipped value, whose magnitude is at most 32767 and which is the value itself up to 85 percent
  of full scale, and samples follow the order of the sums.
\<close>

theorem mix_in_range:
  assumes "1 / 10 \<le> g" "g \<le> 4"
  shows "1 / 10 \<le> mix_next_gain g acc \<and> mix_next_gain g acc \<le> 4 \<and>
    length (mix_output g acc) = length acc \<and>
    (\<forall>i < length acc. sint (mix_output g acc ! i) = trunc (soft_clip (real_of_int (acc ! i) * g)) \<and>
       \<bar>sint (mix_output g acc ! i)\<bar> \<le> I16_MAX \<and>
       (\<bar>real_of_int (acc ! i) * g\<bar> \<le> MIX_SOFT_CLIP_THRESHOLD * I16_MAX \<longrightarrow>
          sint (mix_output g acc ! i) = trunc (real_of_int (acc ! i) * g)) \<and>
       (\<forall>j < length acc. acc ! i \<le> acc ! j \<longrightarrow> sint (mix_output g acc ! i) \<le> sint (mix_output g acc ! j)))"
proof -
  have out: "sint (mix_output g acc ! i) = trunc (soft_clip (real_of_int (acc ! i) * g))" if "i < length acc" for i
    using that soft_clip_range by (simp add: mix_output_def sint_to_i16)
  have range: "\<bar>trunc (soft_clip x)\<bar> \<le> I16_MAX" for x
    using trunc_mono [of "- 32767" "soft_clip x"] trunc_mono [of "soft_clip x" 32767] soft_clip_range [of x]
    by (auto simp: trunc_def I16_MAX_def abs_le_iff)
  have same: "soft_clip x = x" if "\<bar>x\<bar> \<le> MIX_SOFT_CLIP_THRESHOLD * I16_MAX" for x
    using that by (simp add: soft_clip_def)
  have mono: "trunc (soft_clip (real_of_int a * g)) \<le> trunc (soft_clip (real_of_int b * g))" if "a \<le> b" for a b
    using that assms by (intro trunc_mono soft_clip_mono mult_right_mono) auto
  have len: "length (mix_output g acc) = length acc" by (simp add: mix_output_def)
  show ?thesis
    by (intro conjI allI impI)
      (simp_all add: out range same mono len mix_next_gain_range [OF assms, simplified] del: of_int_mult)
qed

theorem mix_in_range_witness:
  "1 / 10 \<le> mix_next_gain 1 [100, 40000] \<and> sint (mix_output 1 [100, 40000] ! 0) = trunc 100 \<and>
   sint (mix_output 1 [100, 40000] ! 0) \<le> sint (mix_output 1 [100, 40000] ! 1)"
proof -
  have g: "1 / 10 \<le> (1 :: real)" "(1 :: real) \<le> 4" by simp_all
  note r = mix_in_range [OF g, of "[100, 40000]"]
  note r0 = r [THEN conjunct2, THEN conjunct2, THEN conjunct2, THEN spec, of 0]
  have "sint (mix_output 1 [100, 40000] ! 0) = trunc 100"
    using r0 by (simp add: MIX_SOFT_CLIP_THRESHOLD_def I16_MAX_def)
  moreover have "0 < length [100 :: int, 40000]" by simp
  from r0 [THEN mp, OF this, THEN conjunct2, THEN conjunct2, THEN conjunct2, THEN spec, of 1]
  have "sint (mix_output 1 [100, 40000] ! 0) \<le> sint (mix_output 1 [100, 40000] ! 1)" by simp
  ultimately show ?thesis using r by simp
qed

end
