(* ===== verification/Audio_Cache.thy ===== *)
theory Audio_Cache
  imports Audio_Buffers
begin

text \<open>
  The receive-side audio cache of \<open>core/src/audio_cache.rs\<close>: duplicate filter, Live, Queue, Mix and Replay
  modes, the jitter path, utterance queue, history and playback. A \<open>HashMap\<close> is an association list whose
  order is the map's iteration order. The hash of a sender id (\<open>DefaultHasher\<close>, whose algorithm the
  standard library leaves open) is the parameter \<open>hs\<close>. The two process-wide atomics, the utterance counter and
  the prebuffer setting, are the fields \<open>au_next_id\<close> and \<open>au_prebuffer\<close>.
\<close>

section \<open>State\<close>

datatype CacheMode = Live | Queue | Replay | Mix

type_synonym frame_key = "u64 \<times> u64 \<times> u32"

record AudioCache =
  au_active_buffers :: "(rstring, SpeakerBuffer) hmap"
  au_playback_queue :: "Utterance list"
  au_now_playing :: "Utterance option"
  au_play_cursor :: nat
  au_mode :: CacheMode
  au_user_info :: "(rstring, rstring \<times> bool \<times> bool) hmap"
  au_history :: "Utterance list"
  au_max_history :: nat
  au_live_accumulator :: "(rstring, SpeakerBuffer) hmap"
  au_live_jitter :: "(rstring, CachedFrame list) hmap"
  au_live_adaptive_extra :: nat
  au_live_arrival_last :: "instant option"
  au_live_arrival_sender :: "rstring option"
  au_live_jitter_ewma_ms :: real
  au_newly_committed_ids :: "(u64 \<times> rstring \<times> rstring \<times> u64) list"
  au_enable_mix_mode :: bool
  au_mix_pending :: "(rstring, CachedFrame) hmap"
  au_mix_gain :: real
  au_recent_frames :: "frame_key window"
  au_live_stream_positions :: "(rstring, u64 \<times> u32) hmap"
  au_next_id :: u64
  au_prebuffer :: nat

definition AudioCache_new :: "u64 \<Rightarrow> nat \<Rightarrow> AudioCache" where
  "AudioCache_new next_id prebuffer =
     \<lparr>au_active_buffers = [], au_playback_queue = [], au_now_playing = None, au_play_cursor = 0,
      au_mode = Live, au_user_info = [], au_history = [], au_max_history = 50, au_live_accumulator = [],
      au_live_jitter = [], au_live_adaptive_extra = 0, au_live_arrival_last = None,
      au_live_arrival_sender = None, au_live_jitter_ewma_ms = 0, au_newly_committed_ids = [],
      au_enable_mix_mode = False, au_mix_pending = [], au_mix_gain = 1, au_recent_frames = ({}, []),
      au_live_stream_positions = [], au_next_id = next_id, au_prebuffer = prebuffer\<rparr>"

definition set_live_jitter_prebuffer_frames :: "AudioCache \<Rightarrow> nat \<Rightarrow> AudioCache" where
  "set_live_jitter_prebuffer_frames c frames = c\<lparr>au_prebuffer := min 16 (max 2 frames)\<rparr>"

definition effective_live_prebuffer :: "AudioCache \<Rightarrow> nat" where
  "effective_live_prebuffer c = min (au_prebuffer c + au_live_adaptive_extra c) 16"

text \<open>The only actively speaking sender, if there is exactly one.\<close>

definition current_live_sender :: "AudioCache \<Rightarrow> rstring option" where
  "current_live_sender c =
     (case filter (\<lambda>(sid, b). is_actively_speaking b) (au_active_buffers c) of
        [(sid, _)] \<Rightarrow> Some sid
      | _ \<Rightarrow> None)"

definition active_speakers :: "AudioCache \<Rightarrow> nat" where
  "active_speakers c = length (filter (\<lambda>(sid, b). is_actively_speaking b) (au_active_buffers c))"

section \<open>Small operations\<close>

definition flush_one :: "instant \<Rightarrow> (rstring, SpeakerBuffer) hmap \<Rightarrow> rstring \<times> CachedFrame list \<Rightarrow> (rstring, SpeakerBuffer) hmap" where
  "flush_one now bufs e =
     (case e of (sid, q) \<Rightarrow>
        entry_update sid (SpeakerBuffer_new sid now) (\<lambda>b. foldl (\<lambda>b f. push_frame b f now) b q) bufs)"

definition flush_live_jitter_into_buffers :: "AudioCache \<Rightarrow> instant \<Rightarrow> AudioCache" where
  "flush_live_jitter_into_buffers c now =
     c\<lparr>au_live_jitter := [], au_active_buffers := foldl (flush_one now) (au_active_buffers c) (au_live_jitter c)\<rparr>"

definition adaptive_extra :: "real \<Rightarrow> nat" where
  "adaptive_extra ewma =
     (if ewma > 45 then 4 else if ewma > 30 then 3 else if ewma > 18 then 2 else if ewma > 10 then 1 else 0)"

definition note_live_arrival_jitter :: "AudioCache \<Rightarrow> rstring \<Rightarrow> instant \<Rightarrow> AudioCache" where
  "note_live_arrival_jitter c sender_id now =
     (if au_live_arrival_sender c \<noteq> Some sender_id
      then c\<lparr>au_live_arrival_sender := Some sender_id, au_live_arrival_last := Some now\<rparr>
      else (let c1 = (case au_live_arrival_last c of
                        Some l \<Rightarrow>
                          (let gap_ms = real (now - l) / 1000000
                           in if 5 \<le> gap_ms \<and> gap_ms < 200
                              then (let err = \<bar>gap_ms - 20\<bar>;
                                        ewma = au_live_jitter_ewma_ms c * (85 / 100) + err * (15 / 100)
                                    in c\<lparr>au_live_jitter_ewma_ms := ewma,
                                         au_live_adaptive_extra := adaptive_extra ewma\<rparr>)
                              else c)
                      | None \<Rightarrow> c)
            in c1\<lparr>au_live_arrival_last := Some now\<rparr>))"

definition accept_frame_once ::
  "(rstring \<Rightarrow> u64) \<Rightarrow> AudioCache \<Rightarrow> rstring \<Rightarrow> u64 \<Rightarrow> u32 \<Rightarrow> bool \<times> AudioCache" where
  "accept_frame_once hs c sender_id epoch sequence =
     (case window_insert FRAME_DEDUP_WINDOW (hs sender_id, epoch, sequence) (au_recent_frames c) of
        (new, w) \<Rightarrow> (new, c\<lparr>au_recent_frames := w\<rparr>))"

definition set_mix_mode_enabled :: "AudioCache \<Rightarrow> bool \<Rightarrow> AudioCache" where
  "set_mix_mode_enabled c enabled =
     (if au_enable_mix_mode c = enabled then c
      else c\<lparr>au_enable_mix_mode := enabled, au_mix_pending := [], au_mix_gain := 1\<rparr>)"

definition take_newly_committed_ids :: "AudioCache \<Rightarrow> (u64 \<times> rstring \<times> rstring \<times> u64) list \<times> AudioCache" where
  "take_newly_committed_ids c = (au_newly_committed_ids c, c\<lparr>au_newly_committed_ids := []\<rparr>)"

definition update_user_info :: "AudioCache \<Rightarrow> rstring \<Rightarrow> rstring \<Rightarrow> bool \<Rightarrow> bool \<Rightarrow> AudioCache" where
  "update_user_info c sender_id name is_favorite is_muted =
     c\<lparr>au_user_info := hm_insert sender_id (name, is_favorite, is_muted) (au_user_info c)\<rparr>"

section \<open>Mixing\<close>

definition mix_fresh :: "AudioCache \<Rightarrow> instant \<Rightarrow> (rstring, CachedFrame) hmap" where
  "mix_fresh c now =
     filter (\<lambda>(sid, f). now - cf_received_at f < millis (MIX_ALIGNMENT_WINDOW_MS * 2)) (au_mix_pending c)"

definition mix_aligned :: "(rstring, CachedFrame) hmap \<Rightarrow> (rstring, CachedFrame) hmap" where
  "mix_aligned pending =
     (let leading_ts = Min (set (map (cf_timestamp \<circ> snd) pending));
          window_end = sat_add leading_ts (word_of_nat MIX_ALIGNMENT_WINDOW_MS)
      in filter (\<lambda>(sid, f). cf_timestamp f \<le> window_end) pending)"

definition try_emit_mix :: "AudioCache \<Rightarrow> instant \<Rightarrow> AudioCache \<times> i16 list option" where
  "try_emit_mix c now =
     (if length (au_mix_pending c) < 2 then (c, None)
      else (let c = c\<lparr>au_mix_pending := mix_fresh c now\<rparr>
            in if length (au_mix_pending c) < 2 then (c, None)
               else (let aligned = mix_aligned (au_mix_pending c)
                     in if length aligned < 2 then (c, None)
                        else (let frame_len = length (cf_samples (snd (hd aligned)));
                                  acc = mix_sum frame_len (map (cf_samples \<circ> snd) aligned);
                                  gain = mix_next_gain (au_mix_gain c) acc
                              in (c\<lparr>au_mix_pending :=
                                      filter (\<lambda>(sid, f). sid \<notin> fst ` set aligned) (au_mix_pending c),
                                    au_mix_gain := gain\<rparr>,
                                  Some (mix_output gain acc))))))"

section \<open>Ingest\<close>

definition make_frame :: "rstring \<Rightarrow> u64 \<Rightarrow> i16 list \<Rightarrow> instant \<Rightarrow> CachedFrame" where
  "make_frame sender_id timestamp samples now =
     \<lparr>cf_sender_id = sender_id, cf_timestamp = timestamp, cf_samples = samples, cf_received_at = now\<rparr>"

text \<open>The reset test on the sender's last logical position, and the update of that position.\<close>

definition note_stream_position :: "AudioCache \<Rightarrow> rstring \<Rightarrow> u64 \<Rightarrow> u32 \<Rightarrow> AudioCache" where
  "note_stream_position c sender_id stream_epoch sequence =
     (let reset_sender = (case hm_get (au_live_stream_positions c) sender_id of
            Some (epoch, last_seq) \<Rightarrow> epoch \<noteq> stream_epoch \<or> sat_add sequence 32 < last_seq
          | None \<Rightarrow> False);
          c = (if reset_sender then c\<lparr>au_live_jitter := hm_remove sender_id (au_live_jitter c)\<rparr> else c)
      in c\<lparr>au_live_stream_positions := hm_insert sender_id (stream_epoch, sequence) (au_live_stream_positions c)\<rparr>)"

definition is_muted :: "AudioCache \<Rightarrow> rstring \<Rightarrow> bool" where
  "is_muted c sender_id = (case hm_get (au_user_info c) sender_id of Some (_, _, muted) \<Rightarrow> muted | None \<Rightarrow> False)"

text \<open>A new speaker is refused when the table is full.\<close>

definition buffer_frame :: "AudioCache \<Rightarrow> rstring \<Rightarrow> CachedFrame \<Rightarrow> instant \<Rightarrow> AudioCache option" where
  "buffer_frame c sender_id frame now =
     (if \<not> hm_contains (au_active_buffers c) sender_id \<and> MAX_CACHED_SPEAKERS \<le> length (au_active_buffers c)
      then None
      else Some (c\<lparr>au_active_buffers :=
             entry_update sender_id (SpeakerBuffer_new sender_id now) (\<lambda>b. push_frame b frame now) (au_active_buffers c)\<rparr>))"

definition overlap_transition :: "AudioCache \<Rightarrow> nat \<Rightarrow> instant \<Rightarrow> AudioCache" where
  "overlap_transition c active now =
     (if 1 < active \<and> au_mode c = Live
      then (let next_mode = (if au_enable_mix_mode c \<and> active \<le> MIX_MAX_SPEAKERS then Mix else Queue)
            in flush_live_jitter_into_buffers (c\<lparr>au_mode := next_mode\<rparr>) now)
      else c)"

definition mix_ceiling :: "AudioCache \<Rightarrow> nat \<Rightarrow> AudioCache" where
  "mix_ceiling c active =
     (if au_mode c = Mix \<and> MIX_MAX_SPEAKERS < active then c\<lparr>au_mode := Queue, au_mix_pending := []\<rparr> else c)"

text \<open>\<open>get_mut(sender).and_then(|buf| buf.frames.pop())\<close>\<close>

definition pop_buffered :: "AudioCache \<Rightarrow> rstring \<Rightarrow> AudioCache \<times> CachedFrame option" where
  "pop_buffered c sender_id =
     (case hm_get (au_active_buffers c) sender_id of
        None \<Rightarrow> (c, None)
      | Some b \<Rightarrow>
          if sb_frames b = [] then (c, None)
          else (c\<lparr>au_active_buffers := hm_insert sender_id (b\<lparr>sb_frames := butlast (sb_frames b)\<rparr>) (au_active_buffers c)\<rparr>,
                Some (last (sb_frames b))))"

definition ingest_jitter :: "AudioCache \<Rightarrow> rstring \<Rightarrow> u64 \<Rightarrow> i16 list \<Rightarrow> instant \<Rightarrow> AudioCache \<times> i16 list option" where
  "ingest_jitter c sender_id timestamp samples now =
     (case pop_buffered c sender_id of
        (c, recycled) \<Rightarrow>
          (let c = (case recycled of
                      Some live_frame \<Rightarrow>
                        c\<lparr>au_live_accumulator :=
                            entry_update sender_id (SpeakerBuffer_new sender_id now)
                              (\<lambda>b. push_frame b live_frame now) (au_live_accumulator c)\<rparr>
                    | None \<Rightarrow> c);
               c = note_live_arrival_jitter c sender_id now;
               q = (case hm_get (au_live_jitter c) sender_id of Some q \<Rightarrow> q | None \<Rightarrow> [])
           in case jitter_step (effective_live_prebuffer c) (make_frame sender_id timestamp samples now) q of
                (q1, out) \<Rightarrow> (c\<lparr>au_live_jitter := hm_insert sender_id q1 (au_live_jitter c)\<rparr>,
                               map_option cf_samples out)))"

definition ingest_live :: "AudioCache \<Rightarrow> rstring \<Rightarrow> u64 \<Rightarrow> i16 list \<Rightarrow> instant \<Rightarrow> AudioCache \<times> i16 list option" where
  "ingest_live c sender_id timestamp samples now =
     (case current_live_sender c of
        Some live \<Rightarrow> if live \<noteq> sender_id then (fst (pop_buffered c sender_id), None)
                     else ingest_jitter c sender_id timestamp samples now
      | None \<Rightarrow> ingest_jitter c sender_id timestamp samples now)"

definition ingest_mix :: "AudioCache \<Rightarrow> rstring \<Rightarrow> u64 \<Rightarrow> i16 list \<Rightarrow> instant \<Rightarrow> AudioCache \<times> i16 list option" where
  "ingest_mix c sender_id timestamp samples now =
     try_emit_mix (c\<lparr>au_mix_pending :=
       hm_insert sender_id (make_frame sender_id timestamp samples now) (au_mix_pending c)\<rparr>) now"

definition ingest_logical_frame ::
  "(rstring \<Rightarrow> u64) \<Rightarrow> AudioCache \<Rightarrow> rstring \<Rightarrow> u64 \<Rightarrow> u32 \<Rightarrow> u64 \<Rightarrow> i16 list \<Rightarrow> instant \<Rightarrow> AudioCache \<times> i16 list option" where
  "ingest_logical_frame hs c sender_id stream_epoch sequence timestamp samples now =
     (case accept_frame_once hs c sender_id stream_epoch sequence of
        (False, c) \<Rightarrow> (c, None)
      | (True, c) \<Rightarrow>
          (let c = note_stream_position c sender_id stream_epoch sequence
           in if is_muted c sender_id then (c, None)
              else (case buffer_frame c sender_id (make_frame sender_id timestamp samples now) now of
                      None \<Rightarrow> (c, None)
                    | Some c \<Rightarrow>
                        (let active = active_speakers c;
                             c = overlap_transition c active now;
                             c = mix_ceiling c active
                         in if au_mode c = Mix then ingest_mix c sender_id timestamp samples now
                            else if au_mode c = Live \<and> active \<le> 1 \<and> au_now_playing c = None
                            then ingest_live c sender_id timestamp samples now
                            else (c, None)))))"

definition ingest_frame ::
  "(rstring \<Rightarrow> u64) \<Rightarrow> AudioCache \<Rightarrow> rstring \<Rightarrow> u64 \<Rightarrow> i16 list \<Rightarrow> instant \<Rightarrow> AudioCache \<times> i16 list option" where
  "ingest_frame hs c sender_id timestamp samples now =
     ingest_logical_frame hs c sender_id 0 (ucast timestamp) timestamp samples now"

section \<open>Tick\<close>

definition user_entry :: "AudioCache \<Rightarrow> rstring \<Rightarrow> rstring \<times> bool \<times> bool" where
  "user_entry c sid = (case hm_get (au_user_info c) sid of Some e \<Rightarrow> e | None \<Rightarrow> (sid, False, False))"

definition commit_history :: "AudioCache \<Rightarrow> Utterance \<Rightarrow> AudioCache" where
  "commit_history c u =
     (let h = (if au_max_history c \<le> length (au_history c) then tl (au_history c) else au_history c)
      in c\<lparr>au_history := h @ [u],
           au_newly_committed_ids := au_newly_committed_ids c @
             [(ut_id u, ut_sender_id u, ut_sender_name u, duration_ms u)]\<rparr>)"

text \<open>The body of the loop that moves a finished live accumulator into the history.\<close>

definition finalize_live :: "AudioCache \<Rightarrow> rstring \<Rightarrow> AudioCache" where
  "finalize_live c sid =
     (case hm_get (au_live_accumulator c) sid of
        None \<Rightarrow> c
      | Some buffer \<Rightarrow>
          (let c = c\<lparr>au_live_accumulator := hm_remove sid (au_live_accumulator c)\<rparr>;
               (name, is_fav, _) = user_entry c sid;
               utterance = drain_to_utterance buffer name is_fav (au_next_id c);
               c = c\<lparr>au_next_id := au_next_id c + 1\<rparr>
           in if ut_frames utterance \<noteq> [] then commit_history c (utterance\<lparr>ut_fully_played := True\<rparr>) else c))"

text \<open>The body of the loop that queues a finished utterance.\<close>

definition finalize_active :: "AudioCache \<Rightarrow> rstring \<Rightarrow> AudioCache" where
  "finalize_active c sid =
     (case hm_get (au_active_buffers c) sid of
        None \<Rightarrow> c
      | Some buffer \<Rightarrow>
          (let c = c\<lparr>au_active_buffers := hm_remove sid (au_active_buffers c)\<rparr>;
               (name, is_fav, muted) = user_entry c sid
           in if muted then c
              else (let utterance = drain_to_utterance buffer name is_fav (au_next_id c);
                        c = c\<lparr>au_next_id := au_next_id c + 1\<rparr>
                    in if ut_frames utterance = [] then c
                       else c\<lparr>au_playback_queue := insert_prioritized utterance (au_playback_queue c)\<rparr>)))"

definition prune_all :: "instant \<Rightarrow> (rstring, SpeakerBuffer) hmap \<Rightarrow> (rstring, SpeakerBuffer) hmap" where
  "prune_all now m = map (\<lambda>(sid, b). (sid, prune_recent_pushes b now)) m"

definition completed_ids :: "instant \<Rightarrow> (rstring, SpeakerBuffer) hmap \<Rightarrow> rstring list" where
  "completed_ids now m = map fst (filter (\<lambda>(sid, b). is_speech_complete b now) m)"

definition buffer_in_use :: "SpeakerBuffer \<Rightarrow> bool" where
  "buffer_in_use b \<longleftrightarrow> sb_frames b \<noteq> [] \<or> sb_recent_pushes b \<noteq> []"

definition tick :: "AudioCache \<Rightarrow> instant \<Rightarrow> AudioCache" where
  "tick c now =
     (let c = c\<lparr>au_active_buffers := prune_all now (au_active_buffers c),
                au_live_accumulator := prune_all now (au_live_accumulator c)\<rparr>;
          c = foldl finalize_live c (completed_ids now (au_live_accumulator c));
          c = foldl finalize_active c (completed_ids now (au_active_buffers c));
          c = c\<lparr>au_active_buffers := filter (\<lambda>(sid, b). buffer_in_use b) (au_active_buffers c),
                au_live_accumulator := filter (\<lambda>(sid, b). buffer_in_use b) (au_live_accumulator c),
                au_live_jitter := filter (\<lambda>(sid, q). q \<noteq> []) (au_live_jitter c)\<rparr>;
          c = (if au_mode c = Queue \<and> au_playback_queue c = [] \<and> au_now_playing c = None \<and> active_speakers c \<le> 1
               then c\<lparr>au_mode := Live\<rparr> else c)
      in c\<lparr>au_playback_queue :=
            drop (length (au_playback_queue c) - MAX_QUEUED_UTTERANCES) (au_playback_queue c)\<rparr>)"

section \<open>Playback\<close>

definition finish_playing :: "AudioCache \<Rightarrow> AudioCache" where
  "finish_playing c =
     (case au_now_playing c of
        None \<Rightarrow> c
      | Some u \<Rightarrow> commit_history (c\<lparr>au_now_playing := None\<rparr>) (u\<lparr>ut_fully_played := True\<rparr>))"

text \<open>The drain of aged jitter queues when nothing else plays.\<close>

definition drain_target :: "AudioCache \<Rightarrow> instant \<Rightarrow> rstring option" where
  "drain_target c now =
     map_option fst (find (\<lambda>(sid, q).
        (case current_live_sender c of Some live \<Rightarrow> sid = live | None \<Rightarrow> True) \<and>
        q \<noteq> [] \<and> millis LIVE_JITTER_DRAIN_AGE_MS < now - cf_received_at (last q)) (au_live_jitter c))"

definition drain_jitter :: "AudioCache \<Rightarrow> instant \<Rightarrow> AudioCache \<times> (rstring \<times> i16 list) option" where
  "drain_jitter c now =
     (let c = (if au_mode c = Live
               then (case current_live_sender c of
                       Some live \<Rightarrow> c\<lparr>au_live_jitter := filter (\<lambda>(sid, q). sid = live) (au_live_jitter c)\<rparr>
                     | None \<Rightarrow> c)
               else c)
      in case drain_target c now of
           None \<Rightarrow> (c, None)
         | Some sid \<Rightarrow>
             (case hm_get (au_live_jitter c) sid of
                Some (frame # rest) \<Rightarrow>
                  (c\<lparr>au_live_jitter := hm_insert sid rest (au_live_jitter c)\<rparr>, Some (sid, cf_samples frame))
              | _ \<Rightarrow> (c, None)))"

definition start_next :: "AudioCache \<Rightarrow> instant \<Rightarrow> AudioCache \<times> (rstring \<times> i16 list) option" where
  "start_next c now =
     (case au_playback_queue c of
        next_u # rest \<Rightarrow>
          (c\<lparr>au_playback_queue := rest, au_now_playing := Some next_u, au_play_cursor := 1\<rparr>,
           case ut_frames next_u of [] \<Rightarrow> None | f # _ \<Rightarrow> Some (cf_sender_id f, cf_samples f))
      | [] \<Rightarrow> drain_jitter c now)"

definition next_playback_frame :: "AudioCache \<Rightarrow> instant \<Rightarrow> AudioCache \<times> (rstring \<times> i16 list) option" where
  "next_playback_frame c now =
     (case au_now_playing c of
        Some u \<Rightarrow>
          if au_play_cursor c < length (ut_frames u)
          then (let frame = ut_frames u ! au_play_cursor c
                in (c\<lparr>au_play_cursor := au_play_cursor c + 1\<rparr>, Some (cf_sender_id frame, cf_samples frame)))
          else start_next (finish_playing c) now
      | None \<Rightarrow> start_next c now)"

section \<open>Control and status\<close>

record CacheStatus =
  cst_mode :: CacheMode
  cst_queued_utterances :: nat
  cst_queued_duration_ms :: u64
  cst_current_speaker :: "rstring option"
  cst_current_speaker_name :: "rstring option"
  cst_speakers_in_queue :: "rstring list"

definition status :: "AudioCache \<Rightarrow> CacheStatus" where
  "status c =
     \<lparr>cst_mode = au_mode c, cst_queued_utterances = length (au_playback_queue c),
      cst_queued_duration_ms = sum_list (map duration_ms (au_playback_queue c)),
      cst_current_speaker = map_option ut_sender_id (au_now_playing c),
      cst_current_speaker_name = map_option ut_sender_name (au_now_playing c),
      cst_speakers_in_queue = map ut_sender_name (au_playback_queue c)\<rparr>"

definition set_mode :: "AudioCache \<Rightarrow> CacheMode \<Rightarrow> AudioCache" where
  "set_mode c mode = c\<lparr>au_mode := mode\<rparr>"

definition skip_current :: "AudioCache \<Rightarrow> AudioCache" where
  "skip_current c =
     (case au_now_playing c of None \<Rightarrow> c | Some _ \<Rightarrow> c\<lparr>au_now_playing := None, au_play_cursor := 0\<rparr>)"

definition replay_utterance :: "AudioCache \<Rightarrow> Utterance \<Rightarrow> AudioCache" where
  "replay_utterance c u =
     c\<lparr>au_mode := Replay, au_now_playing := Some (u\<lparr>ut_fully_played := False\<rparr>), au_play_cursor := 0\<rparr>"

definition replay_from_history :: "AudioCache \<Rightarrow> nat \<Rightarrow> AudioCache \<times> bool" where
  "replay_from_history c index =
     (if length (au_history c) \<le> index then (c, False)
      else (replay_utterance c (au_history c ! index), True))"

definition replay_by_id :: "AudioCache \<Rightarrow> u64 \<Rightarrow> AudioCache \<times> bool" where
  "replay_by_id c utterance_id =
     (case find (\<lambda>u. ut_id u = utterance_id) (au_history c) of
        None \<Rightarrow> (c, False)
      | Some u \<Rightarrow> (replay_utterance c u, True))"

definition get_history_frames :: "AudioCache \<Rightarrow> u64 \<Rightarrow> i16 list list option" where
  "get_history_frames c utterance_id =
     map_option (\<lambda>u. map cf_samples (ut_frames u)) (find (\<lambda>u. ut_id u = utterance_id) (au_history c))"

definition last_history_id :: "AudioCache \<Rightarrow> u64 option" where
  "last_history_id c = (if au_history c = [] then None else Some (ut_id (last (au_history c))))"

text \<open>What \<open>clear\<close> and \<open>clear_active\<close> both reset.\<close>

definition reset_active :: "AudioCache \<Rightarrow> AudioCache" where
  "reset_active c =
     c\<lparr>au_active_buffers := [], au_live_accumulator := [], au_playback_queue := [], au_live_jitter := [],
       au_live_stream_positions := [], au_recent_frames := ({}, []), au_live_arrival_last := None,
       au_live_arrival_sender := None, au_live_jitter_ewma_ms := 0, au_live_adaptive_extra := 0,
       au_now_playing := None, au_play_cursor := 0, au_mode := Live\<rparr>"

definition clear :: "AudioCache \<Rightarrow> AudioCache" where
  "clear c = (reset_active c)\<lparr>au_history := []\<rparr>"

definition clear_active :: "AudioCache \<Rightarrow> AudioCache" where
  "clear_active c = reset_active (foldl finalize_live c (map fst (au_live_accumulator c)))"

end
