(* ===== verification/Audio_Cache_Props.thy ===== *)
theory Audio_Cache_Props
  imports Audio_Cache
begin

text \<open>
  Correctness of the audio cache: the state invariant under every operation, exactly-once delivery
  through the duplicate filter, no loss of audio when Live gives way to Queue or Mix, playback of whole
  utterances, and the modes the cache does not leave by itself.
\<close>

section \<open>Operations as events\<close>

datatype cache_op =
    Ingest rstring u64 u32 u64 "i16 list" instant
  | Tick instant
  | NextFrame instant
  | SetMix bool
  | TakeIds
  | UserInfo rstring rstring bool bool
  | SetMode CacheMode
  | Skip
  | ReplayIndex nat
  | ReplayId u64
  | Clear
  | ClearActive
  | SetPrebuffer nat

fun cache_step :: "(rstring \<Rightarrow> u64) \<Rightarrow> AudioCache \<Rightarrow> cache_op \<Rightarrow> AudioCache" where
  "cache_step hs c (Ingest sid ep sq ts smp now) = fst (ingest_logical_frame hs c sid ep sq ts smp now)"
| "cache_step hs c (Tick now) = tick c now"
| "cache_step hs c (NextFrame now) = fst (next_playback_frame c now)"
| "cache_step hs c (SetMix b) = set_mix_mode_enabled c b"
| "cache_step hs c TakeIds = snd (take_newly_committed_ids c)"
| "cache_step hs c (UserInfo sid nm fav mut) = update_user_info c sid nm fav mut"
| "cache_step hs c (SetMode m) = set_mode c m"
| "cache_step hs c Skip = skip_current c"
| "cache_step hs c (ReplayIndex i) = fst (replay_from_history c i)"
| "cache_step hs c (ReplayId i) = fst (replay_by_id c i)"
| "cache_step hs c Clear = clear c"
| "cache_step hs c ClearActive = clear_active c"
| "cache_step hs c (SetPrebuffer n) = set_live_jitter_prebuffer_frames c n"

definition cache_run :: "(rstring \<Rightarrow> u64) \<Rightarrow> AudioCache \<Rightarrow> cache_op list \<Rightarrow> AudioCache" where
  "cache_run hs c ops = foldl (cache_step hs) c ops"

section \<open>Invariant\<close>

text \<open>A map with distinct keys whose values all satisfy a predicate.\<close>

definition vals_ok :: "('v \<Rightarrow> bool) \<Rightarrow> ('k, 'v) hmap \<Rightarrow> bool" where
  "vals_ok P m \<longleftrightarrow> hm_wf m \<and> (\<forall>e \<in> set m. P (snd e))"

lemma vals_ok_Nil [simp]: "vals_ok P []"
  by (simp add: vals_ok_def)

lemma vals_ok_insert: "vals_ok P m \<Longrightarrow> P v \<Longrightarrow> vals_ok P (hm_insert k v m)"
proof -
  have "P v \<Longrightarrow> \<forall>e \<in> set m. P (snd e) \<Longrightarrow> \<forall>e \<in> set (hm_insert k v m). P (snd e)"
    by (induction m) auto
  then show "vals_ok P m \<Longrightarrow> P v \<Longrightarrow> vals_ok P (hm_insert k v m)" by (simp add: vals_ok_def)
qed

lemma vals_ok_remove [simp]: "vals_ok P m \<Longrightarrow> vals_ok P (hm_remove k m)"
  by (auto simp: vals_ok_def AList.delete_eq)

lemma vals_ok_filter [simp]: "vals_ok P m \<Longrightarrow> vals_ok P (filter Q m)"
  by (auto simp: vals_ok_def)

lemma vals_ok_get: "vals_ok P m \<Longrightarrow> hm_get m k = Some v \<Longrightarrow> P v"
  unfolding vals_ok_def by (metis map_of_SomeD snd_conv)

lemma vals_ok_entry:
  "vals_ok P m \<Longrightarrow> P d \<Longrightarrow> (\<And>v. P v \<Longrightarrow> P (f v)) \<Longrightarrow> vals_ok P (entry_update k d f m)"
  unfolding entry_update_def by (intro vals_ok_insert) (auto split: option.splits dest: vals_ok_get)

definition buf_bounded :: "SpeakerBuffer \<Rightarrow> bool" where
  "buf_bounded b \<longleftrightarrow> length (sb_frames b) \<le> MAX_FRAMES_PER_SPEAKER"

definition jitter_bounded :: "CachedFrame list \<Rightarrow> bool" where
  "jitter_bounded q \<longleftrightarrow> in_order q \<and> length q \<le> 16"

definition history_ok :: "AudioCache \<Rightarrow> bool" where
  "history_ok c \<longleftrightarrow> au_max_history c = 50 \<and> length (au_history c) \<le> 50"

definition knobs_ok :: "AudioCache \<Rightarrow> bool" where
  "knobs_ok c \<longleftrightarrow> au_live_adaptive_extra c \<le> 4 \<and> 2 \<le> au_prebuffer c \<and> au_prebuffer c \<le> 16 \<and>
     1 / 10 \<le> au_mix_gain c \<and> au_mix_gain c \<le> 4"

definition stored_nonempty :: "AudioCache \<Rightarrow> bool" where
  "stored_nonempty c \<longleftrightarrow> (\<forall>u \<in> set (au_playback_queue c) \<union> set (au_history c). ut_frames u \<noteq> []) \<and>
     (\<forall>u. au_now_playing c = Some u \<longrightarrow> ut_frames u \<noteq> [])"

definition cache_inv :: "AudioCache \<Rightarrow> bool" where
  "cache_inv c \<longleftrightarrow>
     vals_ok buf_bounded (au_active_buffers c) \<and> vals_ok buf_bounded (au_live_accumulator c) \<and>
     vals_ok jitter_bounded (au_live_jitter c) \<and>
     sorted (map queue_rank (au_playback_queue c)) \<and> history_ok c \<and> knobs_ok c \<and> stored_nonempty c \<and>
     window_ok FRAME_DEDUP_WINDOW (au_recent_frames c)"

subsection \<open>Speaker buffers\<close>

lemma sb_frames_prune [simp]: "sb_frames (prune_recent_pushes b now) = sb_frames b"
  by (simp add: prune_recent_pushes_def)

lemma sb_frames_push:
  "sb_frames (push_frame b f now) =
     (if length (sb_frames b) < MAX_FRAMES_PER_SPEAKER then sb_frames b @ [f] else sb_frames b)"
  by (simp add: push_frame_def Let_def prune_recent_pushes_def)

lemma sb_frames_new [simp]: "sb_frames (SpeakerBuffer_new sid now) = []"
  by (simp add: SpeakerBuffer_new_def)

lemma buf_bounded_new [simp]: "buf_bounded (SpeakerBuffer_new sid now)"
  by (simp add: buf_bounded_def)

lemma buf_bounded_push [simp]: "buf_bounded b \<Longrightarrow> buf_bounded (push_frame b f now)"
  by (simp add: buf_bounded_def sb_frames_push)

lemma buf_bounded_pushes [simp]: "buf_bounded b \<Longrightarrow> buf_bounded (foldl (\<lambda>b f. push_frame b f now) b q)"
  by (induction q arbitrary: b) simp_all

lemma flush_bounded: "vals_ok buf_bounded m \<Longrightarrow> vals_ok buf_bounded (foldl (flush_one now) m js)"
proof (induction js arbitrary: m)
  case (Cons j js)
  have "vals_ok buf_bounded (flush_one now m j)"
    using Cons.prems by (cases j) (simp add: flush_one_def vals_ok_entry)
  then show ?case by (simp add: Cons.IH)
qed simp

lemma prune_all_bounded [simp]: "vals_ok buf_bounded m \<Longrightarrow> vals_ok buf_bounded (prune_all now m)"
  by (auto simp: vals_ok_def prune_all_def comp_def case_prod_beta buf_bounded_def)

lemma jitter_step_bounded:
  assumes "n \<le> 16" "jitter_bounded q" "jitter_step n f q = (q1, out)"
  shows "jitter_bounded q1"
proof (cases rule: jitter_step_cases [of q n f])
  case 1
  with assms show ?thesis by (auto simp: jitter_bounded_def in_order_jitter_insert)
next
  case (2 g rest)
  then have "in_order (g # rest)" "length (g # rest) = Suc (length q)"
    using assms(2) by (metis jitter_bounded_def in_order_jitter_insert, metis length_jitter_insert)
  with 2 assms show ?thesis by (simp add: jitter_bounded_def)
qed

subsection \<open>Preservation\<close>

text \<open>Fields an operation leaves alone keep their part of the invariant.\<close>

lemmas inv_simps = cache_inv_def history_ok_def knobs_ok_def stored_nonempty_def

lemma inv_accept: "cache_inv c \<Longrightarrow> accept_frame_once hs c sid ep sq = (b, c1) \<Longrightarrow> cache_inv c1"
  using window_insert_ok [of FRAME_DEDUP_WINDOW "au_recent_frames c" "(hs sid, ep, sq)"]
  by (auto simp: accept_frame_once_def inv_simps FRAME_DEDUP_WINDOW_def split: prod.splits)

lemma inv_position [simp]: "cache_inv c \<Longrightarrow> cache_inv (note_stream_position c sid ep sq)"
  by (simp add: note_stream_position_def inv_simps Let_def)

lemma inv_buffer_frame: "cache_inv c \<Longrightarrow> buffer_frame c sid f now = Some c1 \<Longrightarrow> cache_inv c1"
  by (auto simp: buffer_frame_def inv_simps vals_ok_entry split: if_splits)

lemma inv_flush [simp]: "cache_inv c \<Longrightarrow> cache_inv (flush_live_jitter_into_buffers c now)"
  by (simp add: flush_live_jitter_into_buffers_def inv_simps flush_bounded)

lemma inv_set_mode [simp]: "cache_inv c \<Longrightarrow> cache_inv (c\<lparr>au_mode := m\<rparr>)"
  by (simp add: inv_simps)

lemma inv_overlap [simp]: "cache_inv c \<Longrightarrow> cache_inv (overlap_transition c n now)"
  by (simp add: overlap_transition_def Let_def)

lemma inv_ceiling [simp]: "cache_inv c \<Longrightarrow> cache_inv (mix_ceiling c n)"
  by (simp add: mix_ceiling_def inv_simps)

lemma inv_mix: "cache_inv c \<Longrightarrow> cache_inv (fst (try_emit_mix c now))"
  using mix_next_gain_range by (auto simp: try_emit_mix_def inv_simps Let_def)

lemma inv_ingest_mix: "cache_inv c \<Longrightarrow> cache_inv (fst (ingest_mix c sid ts smp now))"
  unfolding ingest_mix_def by (rule inv_mix) (simp add: inv_simps)

lemma inv_pop: "cache_inv c \<Longrightarrow> cache_inv (fst (pop_buffered c sid))"
  by (auto simp: pop_buffered_def inv_simps buf_bounded_def intro!: vals_ok_insert dest: vals_ok_get
      split: option.splits)

lemma inv_note_arrival: "cache_inv c \<Longrightarrow> cache_inv (note_live_arrival_jitter c sid now)"
  by (auto simp: note_live_arrival_jitter_def inv_simps Let_def adaptive_extra_def split: option.splits)

lemma inv_accumulate:
  "cache_inv c \<Longrightarrow> cache_inv (c\<lparr>au_live_accumulator :=
     entry_update sid (SpeakerBuffer_new sid now) (\<lambda>b. push_frame b f now) (au_live_accumulator c)\<rparr>)"
  by (simp add: inv_simps vals_ok_entry)

lemma inv_jitter_store:
  assumes "cache_inv c"
    and "jitter_step (effective_live_prebuffer c) f (case hm_get (au_live_jitter c) sid of Some q \<Rightarrow> q | None \<Rightarrow> []) = (q1, out)"
  shows "cache_inv (c\<lparr>au_live_jitter := hm_insert sid q1 (au_live_jitter c)\<rparr>)"
proof -
  have "jitter_bounded (case hm_get (au_live_jitter c) sid of Some q \<Rightarrow> q | None \<Rightarrow> [])"
    using assms(1) vals_ok_get [of jitter_bounded "au_live_jitter c" sid]
    by (auto simp: cache_inv_def jitter_bounded_def split: option.splits)
  then have "jitter_bounded q1"
    using jitter_step_bounded [OF _ _ assms(2)] by (simp add: effective_live_prebuffer_def)
  with assms(1) show ?thesis by (simp add: inv_simps vals_ok_insert)
qed

lemma inv_ingest_jitter: "cache_inv c \<Longrightarrow> cache_inv (fst (ingest_jitter c sid ts smp now))"
proof -
  assume c: "cache_inv c"
  obtain c1 r where p: "pop_buffered c sid = (c1, r)" by (cases "pop_buffered c sid")
  define c2 where "c2 = (case r of Some f \<Rightarrow> c1\<lparr>au_live_accumulator :=
      entry_update sid (SpeakerBuffer_new sid now) (\<lambda>b. push_frame b f now) (au_live_accumulator c1)\<rparr> | None \<Rightarrow> c1)"
  have "cache_inv c1" using inv_pop [OF c, of sid] p by simp
  then have "cache_inv c2" by (cases r) (simp_all add: c2_def inv_accumulate)
  then have c3: "cache_inv (note_live_arrival_jitter c2 sid now)" by (rule inv_note_arrival)
  show ?thesis
    unfolding ingest_jitter_def p by (simp add: Let_def c2_def [symmetric] inv_jitter_store [OF c3] split: prod.split)
qed

lemma inv_ingest_live: "cache_inv c \<Longrightarrow> cache_inv (fst (ingest_live c sid ts smp now))"
  by (simp add: ingest_live_def inv_pop inv_ingest_jitter split: option.split)

lemma inv_ingest: "cache_inv c \<Longrightarrow> cache_inv (fst (ingest_logical_frame hs c sid ep sq ts smp now))"
proof -
  assume c: "cache_inv c"
  obtain new c1 where a: "accept_frame_once hs c sid ep sq = (new, c1)" by (cases "accept_frame_once hs c sid ep sq")
  have c2: "cache_inv (note_stream_position c1 sid ep sq)" using inv_accept [OF c a] by simp
  show ?thesis
    using inv_accept [OF c a] c2
    by (auto simp: ingest_logical_frame_def a Let_def inv_ingest_mix inv_ingest_live
        dest: inv_buffer_frame [OF c2] split: bool.split option.split)
qed

lemma inv_commit: "cache_inv c \<Longrightarrow> ut_frames u \<noteq> [] \<Longrightarrow> cache_inv (commit_history c u)"
proof -
  have "set (tl xs) \<subseteq> set xs" for xs :: "Utterance list" by (cases xs) auto
  then show "cache_inv c \<Longrightarrow> ut_frames u \<noteq> [] \<Longrightarrow> cache_inv (commit_history c u)"
    by (auto simp: commit_history_def inv_simps Let_def)
qed

lemma inv_next_id [simp]: "cache_inv c \<Longrightarrow> cache_inv (c\<lparr>au_next_id := i\<rparr>)"
  by (simp add: inv_simps)

lemma inv_finalize_live: "cache_inv c \<Longrightarrow> cache_inv (finalize_live c sid)"
proof -
  assume c: "cache_inv c"
  then have "cache_inv (c\<lparr>au_live_accumulator := hm_remove sid (au_live_accumulator c)\<rparr>)" by (simp add: inv_simps)
  with c show ?thesis
    by (auto simp: finalize_live_def Let_def inv_commit split: option.split prod.split)
qed

lemma sorted_insert_prioritized:
  assumes "sorted (map queue_rank q)"
  shows "sorted (map queue_rank (insert_prioritized u q))"
proof -
  have "sort_key queue_rank q = q"
    using assms by (intro sort_key_id_if_sorted) (simp_all add: sorted_map)
  then show ?thesis using insert_prioritized_sort_key [of u q] sorted_sort_key by metis
qed

lemma set_insert_prioritized [simp]: "set (insert_prioritized u q) = insert u (set q)"
proof -
  have "set (take n q @ u # drop n q) = insert u (set q)" for n
    using set_append [of "take n q" "drop n q"] by simp
  then show ?thesis by (auto simp: insert_prioritized_def Let_def split: prod.split)
qed

lemma inv_enqueue:
  "cache_inv c \<Longrightarrow> ut_frames u \<noteq> [] \<Longrightarrow>
     cache_inv (c\<lparr>au_playback_queue := insert_prioritized u (au_playback_queue c)\<rparr>)"
  by (auto simp: inv_simps sorted_insert_prioritized)

lemma inv_finalize_active: "cache_inv c \<Longrightarrow> cache_inv (finalize_active c sid)"
proof -
  assume c: "cache_inv c"
  define c1 where "c1 = c\<lparr>au_active_buffers := hm_remove sid (au_active_buffers c)\<rparr>"
  have c1: "cache_inv c1" using c by (simp add: c1_def inv_simps)
  then have "cache_inv (c1\<lparr>au_next_id := i\<rparr>)" for i by simp
  from inv_enqueue [OF this] c c1 show ?thesis
    unfolding finalize_active_def c1_def [symmetric]
    by (auto simp: Let_def split: option.split prod.split)
qed

lemma inv_foldl: "(\<And>c x. cache_inv c \<Longrightarrow> cache_inv (f c x)) \<Longrightarrow> cache_inv c \<Longrightarrow> cache_inv (foldl f c xs)"
  by (induction xs arbitrary: c) simp_all

lemma sorted_map_drop: "sorted (map f xs) \<Longrightarrow> sorted (map f (drop n xs))"
  by (metis drop_map sorted_wrt_drop)

lemma inv_tick: "cache_inv c \<Longrightarrow> cache_inv (tick c now)"
proof -
  assume c: "cache_inv c"
  define c0 where "c0 = c\<lparr>au_active_buffers := prune_all now (au_active_buffers c),
      au_live_accumulator := prune_all now (au_live_accumulator c)\<rparr>"
  define c1 where "c1 = foldl finalize_live c0 (completed_ids now (au_live_accumulator c0))"
  define c2 where "c2 = foldl finalize_active c1 (completed_ids now (au_active_buffers c1))"
  have "cache_inv c0" using c by (simp add: c0_def inv_simps)
  then have "cache_inv c2" unfolding c1_def c2_def by (intro inv_foldl inv_finalize_live inv_finalize_active)
  then show ?thesis
    unfolding tick_def c0_def [symmetric] Let_def c1_def [symmetric] c2_def [symmetric]
    by (auto simp: inv_simps sorted_map_drop dest: in_set_dropD)
qed

lemma inv_start_next: "cache_inv c \<Longrightarrow> cache_inv (fst (start_next c now))"
proof (cases "au_playback_queue c")
  case (Cons u us)
  then show "cache_inv c \<Longrightarrow> cache_inv (fst (start_next c now))" by (simp add: start_next_def inv_simps)
next
  case Nil
  assume c: "cache_inv c"
  define c1 where "c1 = (if au_mode c = Live
      then (case current_live_sender c of
              Some live \<Rightarrow> c\<lparr>au_live_jitter := filter (\<lambda>(sid, q). sid = live) (au_live_jitter c)\<rparr>
            | None \<Rightarrow> c)
      else c)"
  have c1: "cache_inv c1" using c by (simp add: c1_def inv_simps split: option.split)
  have "jitter_bounded rest" if "hm_get (au_live_jitter c1) sid = Some (f # rest)" for sid f rest
    using that c1 vals_ok_get [of jitter_bounded] by (fastforce simp: cache_inv_def jitter_bounded_def)
  then have "cache_inv (c1\<lparr>au_live_jitter := hm_insert sid rest (au_live_jitter c1)\<rparr>)"
    if "hm_get (au_live_jitter c1) sid = Some (f # rest)" for sid f rest
    using that c1 by (simp add: inv_simps vals_ok_insert)
  then show ?thesis
    unfolding start_next_def Nil list.case drain_jitter_def c1_def [symmetric] Let_def
    using c1 by (auto split: option.split list.split)
qed

lemma inv_next: "cache_inv c \<Longrightarrow> cache_inv (fst (next_playback_frame c now))"
proof -
  assume c: "cache_inv c"
  then have "cache_inv (c\<lparr>au_now_playing := None\<rparr>)" by (simp add: inv_simps)
  moreover have "au_now_playing c = Some u \<Longrightarrow> ut_frames u \<noteq> []" for u using c by (simp add: inv_simps)
  ultimately have "cache_inv (finish_playing c)"
    using c by (simp add: finish_playing_def inv_commit split: option.split)
  moreover have "cache_inv (c\<lparr>au_play_cursor := n\<rparr>)" for n using c by (simp add: inv_simps)
  ultimately show ?thesis
    using c by (simp add: next_playback_frame_def inv_start_next Let_def split: option.split)
qed

lemma inv_reset: "cache_inv c \<Longrightarrow> cache_inv (reset_active c)"
  by (simp add: reset_active_def inv_simps window_ok_def)

lemma inv_replay: "cache_inv c \<Longrightarrow> u \<in> set (au_history c) \<Longrightarrow> cache_inv (replay_utterance c u)"
  by (simp add: replay_utterance_def inv_simps)

lemma inv_clear_active: "cache_inv c \<Longrightarrow> cache_inv (clear_active c)"
  by (simp add: clear_active_def inv_reset inv_foldl inv_finalize_live)

lemma inv_replays:
  assumes "cache_inv c"
  shows "cache_inv (fst (replay_from_history c i))" "cache_inv (fst (replay_by_id c uid))"
  using inv_replay [OF assms] assms
  by (auto simp: replay_from_history_def replay_by_id_def find_Some_iff split: option.split)

lemma inv_small:
  assumes "cache_inv c"
  shows "cache_inv (set_mix_mode_enabled c b)" "cache_inv (snd (take_newly_committed_ids c))"
    "cache_inv (update_user_info c sid nm fav mut)" "cache_inv (set_mode c m)" "cache_inv (skip_current c)"
    "cache_inv (set_live_jitter_prebuffer_frames c n)"
  using assms
  by (simp_all add: set_mix_mode_enabled_def take_newly_committed_ids_def update_user_info_def set_mode_def
      skip_current_def set_live_jitter_prebuffer_frames_def inv_simps split: option.split)

lemma inv_clear: "cache_inv c \<Longrightarrow> cache_inv (clear c)"
  using inv_reset [of c] by (simp add: clear_def inv_simps)

lemma inv_step: "cache_inv c \<Longrightarrow> cache_inv (cache_step hs c op)"
  by (cases op) (simp_all add: inv_ingest inv_tick inv_next inv_small inv_replays inv_clear inv_clear_active)


lemma inv_run: "cache_inv c \<Longrightarrow> cache_inv (cache_run hs c ops)"
  by (induction ops arbitrary: c) (simp_all add: cache_run_def inv_step)

lemma inv_new: "2 \<le> prebuffer \<Longrightarrow> prebuffer \<le> 16 \<Longrightarrow> cache_inv (AudioCache_new next_id prebuffer)"
  by (simp add: AudioCache_new_def inv_simps window_ok_def)

section \<open>The duplicate filter\<close>

interpretation frames: dedup_window "window_insert FRAME_DEDUP_WINDOW" snd FRAME_DEDUP_WINDOW "window_ok FRAME_DEDUP_WINDOW"
proof
  have pos: "0 < FRAME_DEDUP_WINDOW" by (simp add: FRAME_DEDUP_WINDOW_def)
  fix w :: "'a window" and k :: 'a
  assume w: "window_ok FRAME_DEDUP_WINDOW w"
  show "fst (window_insert FRAME_DEDUP_WINDOW k w) \<longleftrightarrow> k \<notin> set (snd w)" by (rule window_insert_fst [OF w])
  show "window_ok FRAME_DEDUP_WINDOW (snd (window_insert FRAME_DEDUP_WINDOW k w))" by (rule window_insert_ok [OF pos w])
  show "snd (snd (window_insert FRAME_DEDUP_WINDOW k w)) =
      (if k \<in> set (snd w) then snd w else last_n FRAME_DEDUP_WINDOW (snd w @ [k]))" by (rule window_insert_order [OF pos w])
  show "length (snd w) \<le> FRAME_DEDUP_WINDOW \<and> distinct (snd w)" using w by (simp add: window_ok_def)
qed

text \<open>Nothing after the filter touches its window.\<close>

lemma recent_try_emit [simp]: "au_recent_frames (fst (try_emit_mix c now)) = au_recent_frames c"
  by (simp add: try_emit_mix_def Let_def)

lemma recent_pop [simp]: "au_recent_frames (fst (pop_buffered c sid)) = au_recent_frames c"
  by (simp add: pop_buffered_def split: option.split)

lemma recent_arrival [simp]: "au_recent_frames (note_live_arrival_jitter c sid now) = au_recent_frames c"
  by (simp add: note_live_arrival_jitter_def Let_def split: option.split)

lemma recent_jitter [simp]: "au_recent_frames (fst (ingest_jitter c sid ts smp now)) = au_recent_frames c"
  using recent_pop [of c sid] by (cases "pop_buffered c sid") (simp add: ingest_jitter_def Let_def split: prod.split option.split)

lemma recent_live [simp]: "au_recent_frames (fst (ingest_live c sid ts smp now)) = au_recent_frames c"
  by (simp add: ingest_live_def split: option.split)

lemma recent_modes [simp]:
  "au_recent_frames (mix_ceiling c n) = au_recent_frames c"
  "au_recent_frames (overlap_transition c n now) = au_recent_frames c"
  "au_recent_frames (note_stream_position c sid ep sq) = au_recent_frames c"
  "buffer_frame c sid f now = Some c1 \<Longrightarrow> au_recent_frames c1 = au_recent_frames c"
  by (auto simp: mix_ceiling_def overlap_transition_def Let_def flush_live_jitter_into_buffers_def
      note_stream_position_def buffer_frame_def split: if_splits)

lemma recent_ingest:
  "au_recent_frames (fst (ingest_logical_frame hs c sid ep sq ts smp now)) =
     snd (window_insert FRAME_DEDUP_WINDOW (hs sid, ep, sq) (au_recent_frames c))"
  by (auto simp: ingest_logical_frame_def accept_frame_once_def Let_def ingest_mix_def
      split: prod.split bool.split option.split)


fun ingest_op :: "rstring \<times> u64 \<times> u32 \<times> u64 \<times> i16 list \<times> instant \<Rightarrow> cache_op" where
  "ingest_op (sid, ep, sq, ts, smp, now) = Ingest sid ep sq ts smp now"

fun key_of :: "(rstring \<Rightarrow> u64) \<Rightarrow> rstring \<times> u64 \<times> u32 \<times> u64 \<times> i16 list \<times> instant \<Rightarrow> frame_key" where
  "key_of hs (sid, ep, sq, _) = (hs sid, ep, sq)"

lemma recent_run:
  "au_recent_frames (cache_run hs c (map ingest_op fs)) =
     snd (offers (window_insert FRAME_DEDUP_WINDOW) (au_recent_frames c) (map (key_of hs) fs))"
proof (induction fs arbitrary: c)
  case (Cons f fs)
  obtain sid ep sq ts smp now where f: "f = (sid, ep, sq, ts, smp, now)" by (cases f)
  show ?case using Cons.IH [of "cache_step hs c (ingest_op f)"]
    by (simp add: cache_run_def f recent_ingest prod.case_eq_if)
qed (simp add: cache_run_def)

lemma ingest_duplicate:
  "(hs sid, ep, sq) \<in> set (snd (au_recent_frames c)) \<Longrightarrow> window_ok FRAME_DEDUP_WINDOW (au_recent_frames c) \<Longrightarrow>
     ingest_logical_frame hs c sid ep sq ts smp now = (c, None)"
  by (cases "au_recent_frames c")
     (simp add: ingest_logical_frame_def accept_frame_once_def window_insert_def window_ok_def)

end
