(* ===== verification/Audio_Playback.thy ===== *)
theory Audio_Playback
  imports Audio_Cache_Props
begin

text \<open>
  What the audio cache promises its caller: the invariant over every sequence of operations, no frame
  delivered twice, the whole queue played in order and committed once, no frame lost when Live gives way to
  Queue or Mix, and the modes the cache does not leave by itself.
\<close>

section \<open>Playback\<close>

text \<open>Successive calls of \<open>next_playback_frame\<close> at the given instants.\<close>

fun play :: "AudioCache \<Rightarrow> instant list \<Rightarrow> AudioCache \<times> (rstring \<times> i16 list) option list" where
  "play c [] = (c, [])"
| "play c (now # nows) =
     (case next_playback_frame c now of (c1, r) \<Rightarrow> (case play c1 nows of (c2, rs) \<Rightarrow> (c2, r # rs)))"

definition played_frame :: "CachedFrame \<Rightarrow> (rstring \<times> i16 list) option" where
  "played_frame f = Some (cf_sender_id f, cf_samples f)"

definition fully :: "Utterance \<Rightarrow> Utterance" where
  "fully u = u\<lparr>ut_fully_played := True\<rparr>"

definition commit_entry :: "Utterance \<Rightarrow> u64 \<times> rstring \<times> rstring \<times> u64" where
  "commit_entry u = (ut_id u, ut_sender_id u, ut_sender_name u, duration_ms u)"

text \<open>Nothing is playing, or what plays has reached its end.\<close>

definition at_end :: "AudioCache \<Rightarrow> bool" where
  "at_end c \<longleftrightarrow> (case au_now_playing c of None \<Rightarrow> True | Some u \<Rightarrow> length (ut_frames u) \<le> au_play_cursor c)"

lemma play_append:
  "play c (xs @ ys) = (case play c xs of (c1, r1) \<Rightarrow> (case play c1 ys of (c2, r2) \<Rightarrow> (c2, r1 @ r2)))"
  by (induction xs arbitrary: c) (simp_all split: prod.split)

lemma next_at_end: "at_end c \<Longrightarrow> next_playback_frame c now = start_next (finish_playing c) now"
  by (auto simp: at_end_def next_playback_frame_def finish_playing_def split: option.splits)

text \<open>The rest of the playing utterance.\<close>

lemma play_rest:
  assumes "au_now_playing c = Some u" "length nows + au_play_cursor c = length (ut_frames u)"
  shows "play c nows = (c\<lparr>au_play_cursor := length (ut_frames u)\<rparr>, map played_frame (drop (au_play_cursor c) (ut_frames u)))"
  using assms
proof (induction nows arbitrary: c)
  case (Cons now nows)
  then have lt: "au_play_cursor c < length (ut_frames u)" by simp
  with Cons.prems Cons.IH [of "c\<lparr>au_play_cursor := au_play_cursor c + 1\<rparr>"] show ?case
    by (simp add: next_playback_frame_def Let_def played_frame_def flip: Cons_nth_drop_Suc)
qed simp

lemma finish_fields [simp]:
  "au_playback_queue (finish_playing c) = au_playback_queue c" "au_now_playing (finish_playing c) = None"
  "au_max_history (finish_playing c) = au_max_history c"
  by (simp_all add: finish_playing_def commit_history_def Let_def split: option.split)

lemma play_one:
  assumes "at_end c" "au_playback_queue c = u # us" "length nows = length (ut_frames u)" "ut_frames u \<noteq> []"
  shows "play c nows =
    ((finish_playing c)\<lparr>au_playback_queue := us, au_now_playing := Some u, au_play_cursor := length (ut_frames u)\<rparr>,
     map played_frame (ut_frames u))"
proof -
  obtain now nows' where n: "nows = now # nows'" using assms(3,4) by (cases nows) auto
  obtain f fs where f: "ut_frames u = f # fs" using assms(4) by (cases "ut_frames u") auto
  have "next_playback_frame c now =
      ((finish_playing c)\<lparr>au_playback_queue := us, au_now_playing := Some u, au_play_cursor := 1\<rparr>, played_frame f)"
    using assms(2) by (simp add: next_at_end [OF assms(1)] start_next_def f played_frame_def)
  then show ?thesis
    using assms(3) by (simp add: n f play_rest)
qed

text \<open>The history and the commit log once the playing utterance is finished.\<close>

lemma finish_commit:
  assumes "au_max_history c = 50" "length (au_history c) \<le> 50" "au_now_playing c = Some u"
  shows "au_history (finish_playing c) = last_n 50 (au_history c @ [fully u])"
    and "au_newly_committed_ids (finish_playing c) = au_newly_committed_ids c @ [commit_entry (fully u)]"
    and "length (au_history (finish_playing c)) \<le> 50"
proof -
  have "h = [] \<or> last_n 50 (h @ [x]) = tl h @ [x]" if "length h = 50" for h :: "Utterance list" and x
    using last_n_snoc [of h 50 x] that by simp
  with assms show "au_history (finish_playing c) = last_n 50 (au_history c @ [fully u])"
    by (fastforce simp: finish_playing_def commit_history_def Let_def fully_def)
  then show "length (au_history (finish_playing c)) \<le> 50" by simp
  show "au_newly_committed_ids (finish_playing c) = au_newly_committed_ids c @ [commit_entry (fully u)]"
    using assms by (simp add: finish_playing_def commit_history_def Let_def fully_def commit_entry_def)
qed

lemma play_queue:
  assumes "at_end c" "\<forall>u \<in> set (au_playback_queue c). ut_frames u \<noteq> []"
    and "au_max_history c = 50" "length (au_history (finish_playing c)) \<le> 50"
    and "length nows = length (concat (map ut_frames (au_playback_queue c)))"
  shows "snd (play c nows) = map played_frame (concat (map ut_frames (au_playback_queue c))) \<and>
    at_end (fst (play c nows)) \<and> au_playback_queue (fst (play c nows)) = [] \<and>
    au_history (finish_playing (fst (play c nows))) =
      last_n 50 (au_history (finish_playing c) @ map fully (au_playback_queue c)) \<and>
    au_newly_committed_ids (finish_playing (fst (play c nows))) =
      au_newly_committed_ids (finish_playing c) @ map (commit_entry \<circ> fully) (au_playback_queue c)"
  using assms
proof (induction "au_playback_queue c" arbitrary: c nows)
  case Nil
  then show ?case by (simp flip: Nil.hyps(1))
next
  case (Cons u us)
  define n where "n = length (ut_frames u)"
  define c1 where "c1 = (finish_playing c)\<lparr>au_playback_queue := us, au_now_playing := Some u, au_play_cursor := n\<rparr>"
  have q: "au_playback_queue c = u # us" using Cons.hyps(2) by simp
  have ne: "ut_frames u \<noteq> []" using Cons.prems(2) q by simp
  have len: "length (take n nows) = n" "length (drop n nows) = length (concat (map ut_frames us))"
    using Cons.prems(5) by (simp_all add: q n_def)
  have one: "play c (take n nows) = (c1, map played_frame (ut_frames u))"
    unfolding c1_def n_def by (rule play_one [OF Cons.prems(1) q _ ne]) (use len n_def in simp)
  have run: "play c nows = (fst (play c1 (drop n nows)), map played_frame (ut_frames u) @ snd (play c1 (drop n nows)))"
    using play_append [of c "take n nows" "drop n nows"] one by (simp add: prod.case_eq_if)
  have c1: "au_max_history c1 = 50" "length (au_history c1) \<le> 50" "au_now_playing c1 = Some u"
    "au_playback_queue c1 = us" "at_end c1" "au_history c1 = au_history (finish_playing c)"
    "au_newly_committed_ids c1 = au_newly_committed_ids (finish_playing c)"
    using Cons.prems(3,4) by (simp_all add: c1_def at_end_def n_def)
  note fin = finish_commit [OF c1(1-3)]
  have "length (drop n nows) = length (concat (map ut_frames (au_playback_queue c1)))" using len c1(4) by simp
  note IH = Cons.hyps(1) [OF _ c1(5) _ c1(1) fin(3) this, unfolded c1(4)]
  have "\<forall>u \<in> set us. ut_frames u \<noteq> []" using Cons.prems(2) q by simp
  from IH [OF refl this] show ?case
    unfolding run q by (simp add: fin c1 last_n_append_last_n)
qed

section \<open>Flushing the jitter queues\<close>

text \<open>The frames a table holds for a sender.\<close>

definition frames_for :: "(rstring, SpeakerBuffer) hmap \<Rightarrow> rstring \<Rightarrow> CachedFrame list" where
  "frames_for m sid = (case hm_get m sid of Some b \<Rightarrow> sb_frames b | None \<Rightarrow> [])"

definition pending_for :: "(rstring, CachedFrame list) hmap \<Rightarrow> rstring \<Rightarrow> CachedFrame list" where
  "pending_for m sid = (case hm_get m sid of Some q \<Rightarrow> q | None \<Rightarrow> [])"

lemma push_all:
  "length (sb_frames b) \<le> MAX_FRAMES_PER_SPEAKER \<Longrightarrow>
     sb_frames (foldl (\<lambda>b f. push_frame b f now) b q) = take MAX_FRAMES_PER_SPEAKER (sb_frames b @ q)"
proof (induction q arbitrary: b)
  case (Cons f q)
  then show ?case using Cons.IH [of "push_frame b f now"] by (auto simp: sb_frames_push take_Cons' split: if_splits)
qed simp

lemma frames_flush_one:
  assumes "length (frames_for m sid) \<le> MAX_FRAMES_PER_SPEAKER"
  shows "frames_for (flush_one now m (s, q)) sid =
    (if s = sid then take MAX_FRAMES_PER_SPEAKER (frames_for m sid @ q) else frames_for m sid)"
  using assms push_all
  by (auto simp: frames_for_def flush_one_def entry_update_def split: option.splits)

lemma frames_flush:
  assumes "hm_wf js" "length (frames_for m sid) \<le> MAX_FRAMES_PER_SPEAKER"
  shows "frames_for (foldl (flush_one now) m js) sid =
    take MAX_FRAMES_PER_SPEAKER (frames_for m sid @ pending_for js sid)"
  using assms
proof (induction js arbitrary: m)
  case (Cons j js)
  obtain s q where j: "j = (s, q)" by (cases j)
  have "length (frames_for (flush_one now m (s, q)) sid) \<le> MAX_FRAMES_PER_SPEAKER"
    using Cons.prems(2) frames_flush_one [OF Cons.prems(2), of now s q] by (simp split: if_splits)
  moreover have "s = sid \<Longrightarrow> pending_for js sid = []"
    using Cons.prems(1) by (force simp: j pending_for_def dest: map_of_SomeD split: option.splits)
  ultimately show ?case
    using Cons.IH [of "flush_one now m (s, q)"] Cons.prems by (auto simp: j frames_flush_one pending_for_def)
qed (simp add: pending_for_def)

section \<open>Modes\<close>

lemma mode_finalize [simp]:
  "au_mode (finalize_live c sid) = au_mode c" "au_mode (finalize_active c sid) = au_mode c"
  by (simp_all add: finalize_live_def finalize_active_def commit_history_def Let_def split: option.split prod.split)

lemma mode_finalizes [simp]:
  "au_mode (foldl finalize_live c xs) = au_mode c" "au_mode (foldl finalize_active c xs) = au_mode c"
  by (induction xs arbitrary: c) simp_all

lemma mode_tick: "au_mode c \<noteq> Queue \<Longrightarrow> au_mode (tick c now) = au_mode c"
  by (simp add: tick_def Let_def)

lemma mode_drain [simp]: "au_mode (fst (drain_jitter c now)) = au_mode c"
proof -
  have "au_mode (if b then (case o1 of Some x \<Rightarrow> c\<lparr>au_live_jitter := f x\<rparr> | None \<Rightarrow> c) else c) = au_mode c" for b o1 f
    by (cases o1) simp_all
  then show ?thesis by (simp add: drain_jitter_def Let_def split: option.split list.split)
qed

lemma mode_next [simp]: "au_mode (fst (next_playback_frame c now)) = au_mode c"
proof -
  have "au_mode (finish_playing c) = au_mode c"
    by (simp add: finish_playing_def commit_history_def Let_def split: option.split)
  moreover have "au_mode (fst (start_next c now)) = au_mode c" for c
    by (simp add: start_next_def split: list.split)
  ultimately show ?thesis by (simp add: next_playback_frame_def Let_def split: option.split)
qed

lemma mode_ingest_replay:
  "au_mode c = Replay \<Longrightarrow>
     au_mode (fst (ingest_logical_frame hs c sid ep sq ts smp now)) = Replay \<and>
     snd (ingest_logical_frame hs c sid ep sq ts smp now) = None"
  by (auto simp: ingest_logical_frame_def accept_frame_once_def note_stream_position_def buffer_frame_def Let_def
      overlap_transition_def mix_ceiling_def split: prod.split bool.split option.split)

lemma mode_emit [simp]: "au_mode (fst (try_emit_mix c now)) = au_mode c"
  by (simp add: try_emit_mix_def Let_def)

lemma mode_ingest_mix:
  "au_mode c = Mix \<Longrightarrow> au_mode (fst (ingest_logical_frame hs c sid ep sq ts smp now)) \<in> {Mix, Queue}"
  by (auto simp: ingest_logical_frame_def accept_frame_once_def note_stream_position_def buffer_frame_def Let_def
      overlap_transition_def mix_ceiling_def ingest_mix_def split: prod.split bool.split option.split)

section \<open>Properties\<close>

text \<open>
  C25 (invariant). Every state the cache reaches from its constructor, through any sequence of its operations
  with any arguments and instants, keeps its tables and bounds: each speaker's buffer holds at most 500 frames,
  each jitter queue at most 16 frames in timestamp order, the playback queue is sorted favourites first, history
  holds at most 50 utterances, no stored utterance is empty, the adaptive prebuffer and the mix gain stay in
  their ranges and the duplicate window is consistent; and a tick leaves at most 32 queued utterances.
\<close>

theorem cache_invariant:
  assumes "2 \<le> prebuffer" "prebuffer \<le> 16"
  shows "cache_inv (cache_run hs (AudioCache_new next_id prebuffer) ops) \<and>
    length (au_playback_queue (tick (cache_run hs (AudioCache_new next_id prebuffer) ops) now)) \<le> MAX_QUEUED_UTTERANCES"
  using inv_run [OF inv_new [OF assms]] by (simp add: tick_def Let_def)

theorem cache_invariant_witness:
  "cache_inv (cache_run (\<lambda>_. 0) (AudioCache_new 1 6) [Ingest [] 0 0 0 [1] 0, SetPrebuffer 90, Tick 1, NextFrame 2]) \<and>
    length (au_playback_queue (tick (cache_run (\<lambda>_. 0) (AudioCache_new 1 6)
      [Ingest [] 0 0 0 [1] 0, SetPrebuffer 90, Tick 1, NextFrame 2]) 3)) \<le> MAX_QUEUED_UTTERANCES"
  by (rule cache_invariant) simp_all

text \<open>
  C26 (safety). No frame is delivered twice: after any sequence of arrivals the filter holds the last 256 keys it
  accepted, a frame whose sender hash, epoch and sequence are among them is dropped with the cache unchanged and
  nothing to play, and while at most 256 different keys have arrived the accepted keys are exactly the first
  occurrences.
\<close>

theorem duplicate_frames_dropped:
  fixes hs :: "rstring \<Rightarrow> u64"
    and arrivals :: "(rstring \<times> u64 \<times> u32 \<times> u64 \<times> i16 list \<times> instant) list"
  assumes "window_ok FRAME_DEDUP_WINDOW (au_recent_frames c)"
  defines "c1 \<equiv> cache_run hs c (map ingest_op arrivals)"
    and "accepted \<equiv> fst (offers (window_insert FRAME_DEDUP_WINDOW) (au_recent_frames c) (map (key_of hs) arrivals))"
  shows "snd (au_recent_frames c1) = last_n FRAME_DEDUP_WINDOW (snd (au_recent_frames c) @ accepted) \<and>
    ((hs sid, ep, sq) \<in> set (last_n FRAME_DEDUP_WINDOW (snd (au_recent_frames c) @ accepted)) \<longrightarrow>
       ingest_logical_frame hs c1 sid ep sq ts smp now = (c1, None)) \<and>
    (card (set (snd (au_recent_frames c)) \<union> set (map (key_of hs) arrivals)) \<le> FRAME_DEDUP_WINDOW \<longrightarrow>
       accepted = rev (remdups (rev (filter (\<lambda>k. k \<notin> set (snd (au_recent_frames c))) (map (key_of hs) arrivals)))))"
proof -
  have win: "snd (au_recent_frames c1) = last_n FRAME_DEDUP_WINDOW (snd (au_recent_frames c) @ accepted)"
    using frames.offers_recent [OF assms(1)] by (simp add: c1_def accepted_def recent_run)
  moreover have "window_ok FRAME_DEDUP_WINDOW (au_recent_frames c1)"
    unfolding c1_def recent_run by (rule frames.offers_inv [OF assms(1)])
  ultimately show ?thesis
    using frames.offers_first_occurrences [OF assms(1)] ingest_duplicate [of hs sid ep sq c1 ts smp now]
    by (simp add: accepted_def)
qed

theorem duplicate_frames_dropped_witness:
  "ingest_logical_frame (\<lambda>_. 7) (cache_run (\<lambda>_. 7) (AudioCache_new 1 6) (map ingest_op [([], 1, 2, 3, [4], 5)])) [] 1 2 3 [4] 6 =
     (cache_run (\<lambda>_. 7) (AudioCache_new 1 6) (map ingest_op [([], 1, 2, 3, [4], 5)]), None)"
  using duplicate_frames_dropped [of "AudioCache_new 1 6" "\<lambda>_. 7" "[([], 1, 2, 3, [4], 5)]" "[]" 1 2 3 "[4]" 6]
  by (simp add: AudioCache_new_def window_ok_def window_insert_def last_n_def FRAME_DEDUP_WINDOW_def Let_def)

lemma drain_commits [simp]:
  "au_history (fst (drain_jitter c now)) = au_history c"
  "au_newly_committed_ids (fst (drain_jitter c now)) = au_newly_committed_ids c"
  by (auto simp: drain_jitter_def Let_def split: option.split list.split)

text \<open>
  C27 (liveness). A queue plays out: from any well-formed cache with nothing playing, as many calls of
  \<open>next_playback_frame\<close> as the queue has frames return every frame of every queued utterance, in queue order
  and without a gap, and the next call has committed each utterance once, marked fully played, to the history
  (of which the last 50 are kept) and to the list of new ids.
\<close>

theorem queue_plays_out:
  fixes now :: instant
  assumes "cache_inv c" "au_now_playing c = None"
    and "length nows = length (concat (map ut_frames (au_playback_queue c)))"
  defines "c1 \<equiv> fst (next_playback_frame (fst (play c nows)) now)"
  shows "snd (play c nows) = map played_frame (concat (map ut_frames (au_playback_queue c))) \<and>
    au_playback_queue (fst (play c nows)) = [] \<and>
    au_history c1 = last_n 50 (au_history c @ map fully (au_playback_queue c)) \<and>
    au_newly_committed_ids c1 = au_newly_committed_ids c @ map (commit_entry \<circ> fully) (au_playback_queue c)"
proof -
  have fin: "finish_playing c = c" using assms(2) by (simp add: finish_playing_def)
  have "at_end c" using assms(2) by (simp add: at_end_def)
  moreover have "\<forall>u \<in> set (au_playback_queue c). ut_frames u \<noteq> []" "au_max_history c = 50" "length (au_history c) \<le> 50"
    using assms(1) by (auto simp: cache_inv_def stored_nonempty_def history_ok_def)
  ultimately have "snd (play c nows) = map played_frame (concat (map ut_frames (au_playback_queue c))) \<and>
    at_end (fst (play c nows)) \<and> au_playback_queue (fst (play c nows)) = [] \<and>
    au_history (finish_playing (fst (play c nows))) = last_n 50 (au_history c @ map fully (au_playback_queue c)) \<and>
    au_newly_committed_ids (finish_playing (fst (play c nows))) =
      au_newly_committed_ids c @ map (commit_entry \<circ> fully) (au_playback_queue c)"
    using play_queue [of c nows] assms(3) fin by simp
  then show ?thesis by (simp add: c1_def next_at_end start_next_def)
qed

text \<open>
  When a second speaker ends Live mode, the jitter queues are emptied into the speakers' buffers
  without losing audio: each sender's buffer becomes its old frames followed by its jitter frames, cut only at
  the 500-frame limit, and the new mode is Mix when mixing is enabled and at most 6 speak, else Queue.
\<close>

theorem overlap_keeps_audio:
  assumes "cache_inv c" "au_mode c = Live" "1 < active"
  shows "frames_for (au_active_buffers (overlap_transition c active now)) sid =
      take MAX_FRAMES_PER_SPEAKER (frames_for (au_active_buffers c) sid @ pending_for (au_live_jitter c) sid) \<and>
    au_live_jitter (overlap_transition c active now) = [] \<and>
    au_mode (overlap_transition c active now) =
      (if au_enable_mix_mode c \<and> active \<le> MIX_MAX_SPEAKERS then Mix else Queue)"
proof -
  have "hm_wf (au_live_jitter c)" using assms(1) by (simp add: cache_inv_def vals_ok_def)
  moreover have "length (frames_for (au_active_buffers c) sid) \<le> MAX_FRAMES_PER_SPEAKER"
    using assms(1) vals_ok_get [of buf_bounded "au_active_buffers c" sid]
    by (auto simp: cache_inv_def frames_for_def buf_bounded_def split: option.split)
  ultimately show ?thesis
    using assms(2,3) by (simp add: overlap_transition_def Let_def flush_live_jitter_into_buffers_def frames_flush)
qed

text \<open>A cache with two queued utterances, for the witnesses.\<close>

definition demo_frame :: "u64 \<Rightarrow> CachedFrame" where
  "demo_frame ts = make_frame [] ts [1, 2] 0"

definition demo_cache :: AudioCache where
  "demo_cache = (AudioCache_new 3 6)\<lparr>au_playback_queue :=
     [\<lparr>ut_id = 1, ut_sender_id = [], ut_sender_name = [], ut_is_favorite = True, ut_started_at = 0, ut_ended_at = 20,
       ut_frames = [demo_frame 0, demo_frame 20], ut_fully_played = False\<rparr>,
      \<lparr>ut_id = 2, ut_sender_id = [], ut_sender_name = [], ut_is_favorite = False, ut_started_at = 5, ut_ended_at = 5,
       ut_frames = [demo_frame 5], ut_fully_played = False\<rparr>],
     au_live_jitter := [([], [demo_frame 1, demo_frame 2])]\<rparr>"

lemma demo_cache_inv: "cache_inv demo_cache"
  by (simp add: demo_cache_def AudioCache_new_def inv_simps window_ok_def queue_rank_def vals_ok_def jitter_bounded_def
      demo_frame_def make_frame_def duration_ms_def sat_add_def sat_sub_def)

theorem queue_plays_out_witness:
  "snd (play demo_cache [0, 20, 40]) = [Some ([], [1, 2]), Some ([], [1, 2]), Some ([], [1, 2])] \<and>
   map ut_id (au_history (fst (next_playback_frame (fst (play demo_cache [0, 20, 40])) 60))) = [1, 2]"
  using queue_plays_out [OF demo_cache_inv, of "[0, 20, 40]" 60]
  by (simp add: demo_cache_def AudioCache_new_def played_frame_def demo_frame_def make_frame_def fully_def)

theorem overlap_keeps_audio_witness:
  "frames_for (au_active_buffers (overlap_transition demo_cache 2 9)) [] = [demo_frame 1, demo_frame 2] \<and>
   au_mode (overlap_transition demo_cache 2 9) = Queue"
  using overlap_keeps_audio [OF demo_cache_inv, of 2 9 "[]"]
  by (simp add: demo_cache_def AudioCache_new_def frames_for_def pending_for_def MAX_FRAMES_PER_SPEAKER_def)

text \<open>The operations the audio threads perform on their own: arrivals, ticks and playback.\<close>

fun is_audio_op :: "cache_op \<Rightarrow> bool" where
  "is_audio_op (Ingest _ _ _ _ _ _) = True"
| "is_audio_op (Tick _) = True"
| "is_audio_op (NextFrame _) = True"
| "is_audio_op _ = False"

lemma mode_step_replay: "au_mode c = Replay \<Longrightarrow> is_audio_op op \<Longrightarrow> au_mode (cache_step hs c op) = Replay"
  by (cases op) (simp_all add: mode_ingest_replay mode_tick)

lemma mode_step_mix: "au_mode c = Mix \<Longrightarrow> is_audio_op op \<Longrightarrow> au_mode (cache_step hs c op) \<in> {Mix, Queue}"
  using mode_ingest_mix by (cases op) (simp_all add: mode_tick)

text \<open>
  Replay is never left without a command: whatever arrives, ticks or plays, a cache in Replay mode
  stays in it and hands no arriving frame to the speaker directly (frames are only queued), so after a replay
  has ended received speech is no longer live. Mix is left only for Queue.
\<close>

theorem replay_mode_sticks:
  assumes "au_mode c = Replay" "\<forall>op \<in> set ops. is_audio_op op"
  shows "au_mode (cache_run hs c ops) = Replay \<and>
    snd (ingest_logical_frame hs (cache_run hs c ops) sid ep sq ts smp now) = None \<and>
    (au_mode d = Mix \<and> is_audio_op op \<longrightarrow> au_mode (cache_step hs d op) \<in> {Mix, Queue})"
proof -
  have "au_mode (cache_run hs c ops) = Replay"
    using assms by (induction ops arbitrary: c) (simp_all add: cache_run_def mode_step_replay)
  then show ?thesis using mode_ingest_replay mode_step_mix by blast
qed

theorem replay_mode_sticks_witness:
  "au_mode (cache_run (\<lambda>_. 0) (set_mode demo_cache Replay) [NextFrame 1, Tick 2, Ingest [] 0 1 2 [3] 4]) = Replay"
  using replay_mode_sticks [of "set_mode demo_cache Replay" "[NextFrame 1, Tick 2, Ingest [] 0 1 2 [3] 4]" "\<lambda>_. 0"]
  by (simp add: set_mode_def)

end
