(* ===== verification/Users.thy ===== *)
theory Users
  imports Utf8_Std
begin

text \<open>
  The user registry of \<open>android-native/src/users.rs\<close>: mute and favourite flags per peer, and the derivation of a
  user id. SHA-256 is a parameter; the JSON listing is not modelled.
\<close>

record UserProfile =
  up_id :: rstring
  up_name :: rstring
  up_is_muted :: bool
  up_is_favorite :: bool

type_synonym UserRegistry = "(rstring, UserProfile) hmap"

definition UserRegistry_new :: UserRegistry where
  "UserRegistry_new = []"

definition register_user :: "UserRegistry \<Rightarrow> rstring \<Rightarrow> rstring \<Rightarrow> UserRegistry" where
  "register_user reg uid name =
     entry_update uid \<lparr>up_id = uid, up_name = name, up_is_muted = False, up_is_favorite = False\<rparr>
       (\<lambda>u. u\<lparr>up_name := name\<rparr>) reg"

definition user_is_muted :: "UserRegistry \<Rightarrow> rstring \<Rightarrow> bool" where
  "user_is_muted reg uid = (case hm_get reg uid of Some u \<Rightarrow> up_is_muted u | None \<Rightarrow> False)"

definition set_muted :: "UserRegistry \<Rightarrow> rstring \<Rightarrow> bool \<Rightarrow> UserRegistry" where
  "set_muted reg uid muted =
     (case hm_get reg uid of Some u \<Rightarrow> hm_insert uid (u\<lparr>up_is_muted := muted\<rparr>) reg | None \<Rightarrow> reg)"

definition user_is_favorite :: "UserRegistry \<Rightarrow> rstring \<Rightarrow> bool" where
  "user_is_favorite reg uid = (case hm_get reg uid of Some u \<Rightarrow> up_is_favorite u | None \<Rightarrow> False)"

definition set_favorite :: "UserRegistry \<Rightarrow> rstring \<Rightarrow> bool \<Rightarrow> UserRegistry" where
  "set_favorite reg uid favorite =
     (case hm_get reg uid of Some u \<Rightarrow> hm_insert uid (u\<lparr>up_is_favorite := favorite\<rparr>) reg | None \<Rightarrow> reg)"

definition remove_user :: "UserRegistry \<Rightarrow> rstring \<Rightarrow> UserRegistry \<times> bool" where
  "remove_user reg uid = (hm_remove uid reg, hm_contains reg uid)"

definition favorites :: "UserRegistry \<Rightarrow> UserProfile list" where
  "favorites reg = filter up_is_favorite (map snd reg)"

definition others :: "UserRegistry \<Rightarrow> UserProfile list" where
  "others reg = filter (\<lambda>u. \<not> up_is_favorite u) (map snd reg)"

text \<open>First 8 bytes of the digest, in lower-case hex.\<close>

definition derive_user_id :: "(bytes \<Rightarrow> bytes) \<Rightarrow> bytes \<Rightarrow> rstring" where
  "derive_user_id sha256 session_key = concat (map hex_byte (take 8 (sha256 session_key)))"

text \<open>Every entry is filed under its own id.\<close>

definition registry_ok :: "UserRegistry \<Rightarrow> bool" where
  "registry_ok reg \<longleftrightarrow> hm_wf reg \<and> (\<forall>uid u. hm_get reg uid = Some u \<longrightarrow> up_id u = uid)"

lemma registry_ok_ops:
  assumes "registry_ok reg"
  shows "registry_ok (register_user reg uid name)" "registry_ok (set_muted reg uid b)"
    "registry_ok (set_favorite reg uid b)" "registry_ok (fst (remove_user reg uid))"
  using assms
  by (auto simp: registry_ok_def register_user_def entry_update_def set_muted_def set_favorite_def remove_user_def
      split: option.splits if_splits)

lemma register_keeps_flags [simp]:
  "user_is_muted (register_user reg uid name) x = user_is_muted reg x"
  "user_is_favorite (register_user reg uid name) x = user_is_favorite reg x"
  by (auto simp: user_is_muted_def user_is_favorite_def register_user_def entry_update_def split: option.splits)

lemma registered_lookup: "hm_get (register_user reg uid name) uid \<noteq> None"
  by (simp add: register_user_def entry_update_def)

end
