(* ===== verification/Packet_Queue.thy ===== *)
theory Packet_Queue
  imports Talk_Prelude "HOL-Library.Sublist"
begin

text \<open>
  The bounded packet queue of \<open>android-native/src/cellular_transport.rs\<close>, between the audio threads and the
  Kotlin side of the relay and Bluetooth links. The lock is held for the whole of each operation, so an
  operation is one step; the instant at which it runs is an argument. The locale states what the links rely on
  and is interpreted on the model.
\<close>

section \<open>Model\<close>

type_synonym QueuedPacket = "bytes \<times> instant"

record PacketQueue =
  pq_inner :: "QueuedPacket list"
  pq_max_size :: nat
  pq_max_age :: instant
  pq_dropped :: u64
  pq_dropped_stale :: u64

definition PacketQueue_new :: "nat \<Rightarrow> instant \<Rightarrow> PacketQueue" where
  "PacketQueue_new max_size max_age =
     \<lparr>pq_inner = [], pq_max_size = max_size, pq_max_age = max_age, pq_dropped = 0, pq_dropped_stale = 0\<rparr>"

definition is_stale :: "PacketQueue \<Rightarrow> instant \<Rightarrow> QueuedPacket \<Rightarrow> bool" where
  "is_stale q now p \<longleftrightarrow> pq_max_age q < now - snd p"

definition drop_stale_locked :: "PacketQueue \<Rightarrow> instant \<Rightarrow> PacketQueue" where
  "drop_stale_locked q now =
     (let dropped = length (takeWhile (is_stale q now) (pq_inner q))
      in q\<lparr>pq_inner := dropWhile (is_stale q now) (pq_inner q),
           pq_dropped_stale := pq_dropped_stale q + word_of_nat dropped\<rparr>)"

definition push_at :: "PacketQueue \<Rightarrow> bytes \<Rightarrow> instant \<Rightarrow> instant \<Rightarrow> PacketQueue" where
  "push_at q data queued_at now =
     (let q1 = drop_stale_locked q now;
          q2 = (if pq_max_size q1 \<le> length (pq_inner q1)
                then q1\<lparr>pq_inner := tl (pq_inner q1), pq_dropped := pq_dropped q1 + 1\<rparr>
                else q1)
      in q2\<lparr>pq_inner := pq_inner q2 @ [(data, queued_at)]\<rparr>)"

definition push :: "PacketQueue \<Rightarrow> bytes \<Rightarrow> instant \<Rightarrow> PacketQueue" where
  "push q data now = push_at q data now now"

definition is_congested :: "PacketQueue \<Rightarrow> bool" where
  "is_congested q \<longleftrightarrow> pq_max_size q * 3 div 4 < length (pq_inner q)"

definition pop :: "PacketQueue \<Rightarrow> instant \<Rightarrow> bytes option \<times> PacketQueue" where
  "pop q now =
     (let q1 = drop_stale_locked q now
      in case pq_inner q1 of
           [] \<Rightarrow> (None, q1)
         | p # rest \<Rightarrow> (Some (fst p), q1\<lparr>pq_inner := rest\<rparr>))"

definition queue_clear :: "PacketQueue \<Rightarrow> PacketQueue" where
  "queue_clear q = q\<lparr>pq_inner := []\<rparr>"

definition oldest_age_ms :: "PacketQueue \<Rightarrow> instant \<Rightarrow> int" where
  "oldest_age_ms q now =
     (case pq_inner q of [] \<Rightarrow> - 1 | p # _ \<Rightarrow> int ((now - snd p) div millis 1))"

section \<open>Contract\<close>

text \<open>Operations on one queue, each with its instant.\<close>

datatype queue_op = Push bytes instant | Pop instant | Clear

fun op_time :: "queue_op \<Rightarrow> instant option" where
  "op_time (Push _ t) = Some t"
| "op_time (Pop t) = Some t"
| "op_time Clear = None"

text \<open>The packets pushed, with their instants.\<close>

fun pushed :: "queue_op list \<Rightarrow> QueuedPacket list" where
  "pushed [] = []"
| "pushed (Push d t # ops) = (d, t) # pushed ops"
| "pushed (_ # ops) = pushed ops"

lemma pushed_append [simp]: "pushed (xs @ ys) = pushed xs @ pushed ys"
  by (induction xs rule: pushed.induct) simp_all

text \<open>The packets delivered by a sequence of operations, with the instant of delivery, and the queue afterwards.\<close>

fun queue_run ::
  "('q \<Rightarrow> bytes \<Rightarrow> instant \<Rightarrow> 'q) \<Rightarrow> ('q \<Rightarrow> instant \<Rightarrow> bytes option \<times> 'q) \<Rightarrow> ('q \<Rightarrow> 'q) \<Rightarrow> 'q \<Rightarrow> queue_op list \<Rightarrow>
   (bytes \<times> instant) list \<times> 'q" where
  "queue_run enq deq wipe q [] = ([], q)"
| "queue_run enq deq wipe q (Push d t # ops) = queue_run enq deq wipe (enq q d t) ops"
| "queue_run enq deq wipe q (Pop t # ops) =
     (case deq q t of (None, q1) \<Rightarrow> queue_run enq deq wipe q1 ops
      | (Some d, q1) \<Rightarrow> (case queue_run enq deq wipe q1 ops of (out, q2) \<Rightarrow> ((d, t) # out, q2)))"
| "queue_run enq deq wipe q (Clear # ops) = queue_run enq deq wipe (wipe q) ops"

text \<open>
  What a link relies on: the queue holds at most \<open>cap\<close> packets; a push keeps a suffix of what was held and
  adds the packet at the end; a pop removes a prefix and hands out the first packet that is not stale.
\<close>

locale fresh_queue =
  fixes contents :: "'q \<Rightarrow> QueuedPacket list"
    and enq :: "'q \<Rightarrow> bytes \<Rightarrow> instant \<Rightarrow> 'q"
    and deq :: "'q \<Rightarrow> instant \<Rightarrow> bytes option \<times> 'q"
    and wipe :: "'q \<Rightarrow> 'q"
    and cap :: nat
    and age :: instant
    and inv :: "'q \<Rightarrow> bool"
  assumes enq_inv: "inv q \<Longrightarrow> inv (enq q d t)"
    and deq_inv: "inv q \<Longrightarrow> inv (snd (deq q t))"
    and wipe_inv: "inv q \<Longrightarrow> inv (wipe q)"
    and bounded: "inv q \<Longrightarrow> length (contents q) \<le> cap"
    and enq_contents: "inv q \<Longrightarrow> \<exists>n. contents (enq q d t) = drop n (contents q) @ [(d, t)]"
    and deq_None: "inv q \<Longrightarrow> fst (deq q t) = None \<Longrightarrow> contents (snd (deq q t)) = []"
    and deq_Some: "inv q \<Longrightarrow> fst (deq q t) = Some d \<Longrightarrow>
      \<exists>n t'. drop n (contents q) = (d, t') # contents (snd (deq q t)) \<and> t - t' \<le> age"
    and wipe_contents: "inv q \<Longrightarrow> contents (wipe q) = []"
begin

abbreviation run :: "'q \<Rightarrow> queue_op list \<Rightarrow> (bytes \<times> instant) list \<times> 'q" where
  "run \<equiv> queue_run enq deq wipe"

lemma run_inv: "inv q \<Longrightarrow> inv (snd (run q ops))"
proof (induction ops arbitrary: q)
  case (Cons op ops)
  show ?case
  proof (cases op)
    case (Pop t)
    then show ?thesis
      using Cons.IH [OF deq_inv [OF Cons.prems, of t]] by (auto simp: prod.case_eq_if split: prod.split option.split)
  qed (use Cons enq_inv wipe_inv in simp_all)
qed simp

lemma subseq_drop: "subseq (drop n xs) xs"
  by (metis append_take_drop_id subseq_drop_many subseq_order.refl)

text \<open>
  Deliveries follow the order of arrival, without duplicates and without invention: there are arrival instants
  for the delivered packets such that the delivered packets, followed by those still queued, are a subsequence
  of those held at the start and pushed since; each was delivered within the age limit.
\<close>

lemma run_fifo:
  assumes "inv q"
  shows "\<exists>ats. length ats = length (fst (run q ops)) \<and>
    subseq (zip (map fst (fst (run q ops))) ats @ contents (snd (run q ops))) (contents q @ pushed ops) \<and>
    list_all2 (\<lambda>out t0. snd out - t0 \<le> age) (fst (run q ops)) ats"
  using assms
proof (induction ops arbitrary: q)
  case Nil
  show ?case by (intro exI [of _ "[]"]) simp
next
  case (Cons op ops)
  show ?case
  proof (cases op)
    case (Push d t)
    obtain n where n: "contents (enq q d t) = drop n (contents q) @ [(d, t)]" using enq_contents Cons.prems by blast
    have "subseq (drop n (contents q) @ [(d, t)] @ pushed ops) (contents q @ (d, t) # pushed ops)"
      by (simp add: list_emb_append_mono subseq_drop)
    moreover obtain ats where ats: "length ats = length (fst (run (enq q d t) ops))"
      "subseq (zip (map fst (fst (run (enq q d t) ops))) ats @ contents (snd (run (enq q d t) ops)))
        (contents (enq q d t) @ pushed ops)"
      "list_all2 (\<lambda>out t0. snd out - t0 \<le> age) (fst (run (enq q d t) ops)) ats"
      using Cons.IH [OF enq_inv [OF Cons.prems]] by blast
    ultimately have "subseq (zip (map fst (fst (run (enq q d t) ops))) ats @ contents (snd (run (enq q d t) ops)))
        (contents q @ pushed (op # ops))"
      unfolding n Push pushed.simps append.assoc by (blast intro: subseq_order.trans)
    with ats(1,3) Push show ?thesis by (intro exI [of _ ats]) simp
  next
    case (Pop t)
    obtain r q1 where r: "deq q t = (r, q1)" by (cases "deq q t")
    have q1: "inv q1" using deq_inv [OF Cons.prems, of t] r by simp
    obtain ats where ats: "length ats = length (fst (run q1 ops))"
      "subseq (zip (map fst (fst (run q1 ops))) ats @ contents (snd (run q1 ops))) (contents q1 @ pushed ops)"
      "list_all2 (\<lambda>out t0. snd out - t0 \<le> age) (fst (run q1 ops)) ats" using Cons.IH [OF q1] by blast
    show ?thesis
    proof (cases r)
      case None
      then have "contents q1 = []" using deq_None [OF Cons.prems, of t] r by simp
      then have "subseq (contents q1 @ pushed ops) (contents q @ pushed ops)" by (simp add: subseq_drop_many)
      with ats Pop r None show ?thesis by (auto intro!: exI [of _ ats] intro: subseq_order.trans)
    next
      case (Some d)
      obtain n t' where n: "drop n (contents q) = (d, t') # contents q1" "t - t' \<le> age"
        using deq_Some [OF Cons.prems, of t d] r Some by auto
      have "subseq ((d, t') # contents q1) (contents q)" by (metis n(1) subseq_drop)
      then have "subseq ((d, t') # contents q1 @ pushed ops) (contents q @ pushed ops)"
        by (metis append_Cons list_emb_append_mono subseq_order.refl)
      moreover have "subseq ((d, t') # zip (map fst (fst (run q1 ops))) ats @ contents (snd (run q1 ops)))
          ((d, t') # contents q1 @ pushed ops)" using ats(2) by simp
      ultimately have "subseq ((d, t') # zip (map fst (fst (run q1 ops))) ats @ contents (snd (run q1 ops)))
          (contents q @ pushed ops)" by (rule subseq_order.trans [rotated])
      with ats n(2) Pop r Some show ?thesis
        by (intro exI [of _ "t' # ats"]) (auto split: prod.split)
    qed
  next
    case Clear
    have "subseq (contents (wipe q) @ pushed ops) (contents q @ pushed ops)"
      using wipe_contents [OF Cons.prems] by (simp add: subseq_drop_many)
    then show ?thesis
      using Cons.IH [OF wipe_inv [OF Cons.prems]] unfolding Clear queue_run.simps pushed.simps
      by (meson subseq_order.trans)
  qed
qed

end

section \<open>The packet queue meets the contract\<close>

definition queue_ok :: "nat \<Rightarrow> instant \<Rightarrow> PacketQueue \<Rightarrow> bool" where
  "queue_ok cap age q \<longleftrightarrow> pq_max_size q = cap \<and> pq_max_age q = age \<and> length (pq_inner q) \<le> cap"

lemma drop_stale_inner: "\<exists>n. pq_inner (drop_stale_locked q now) = drop n (pq_inner q)"
  by (simp add: drop_stale_locked_def Let_def) (metis dropWhile_eq_drop)

lemma drop_stale_fields [simp]:
  "pq_max_size (drop_stale_locked q now) = pq_max_size q" "pq_max_age (drop_stale_locked q now) = pq_max_age q"
  "pq_dropped (drop_stale_locked q now) = pq_dropped q"
  by (simp_all add: drop_stale_locked_def Let_def)

lemma drop_stale_ok: "queue_ok cap age q \<Longrightarrow> queue_ok cap age (drop_stale_locked q now)"
  using drop_stale_inner [of q now] by (auto simp: queue_ok_def)

lemma drop_stale_hd:
  "pq_inner (drop_stale_locked q now) = p # rest \<Longrightarrow> now - snd p \<le> pq_max_age q"
  by (auto simp: drop_stale_locked_def Let_def is_stale_def dropWhile_eq_Cons_conv)

lemma push_inner:
  "0 < pq_max_size q \<Longrightarrow> \<exists>n. pq_inner (push q d t) = drop n (pq_inner q) @ [(d, t)] \<and> n \<le> length (pq_inner q)"
proof -
  obtain n where n: "pq_inner (drop_stale_locked q t) = drop n (pq_inner q)" using drop_stale_inner by blast
  have "\<exists>m. drop n xs = drop m xs \<and> m \<le> length xs" "\<exists>m. drop (Suc n) xs = drop m xs \<and> m \<le> length xs" for xs :: "QueuedPacket list"
    by (metis drop_all nat_le_linear order_refl)+
  with n show ?thesis by (auto simp: push_def push_at_def Let_def tl_drop drop_Suc)
qed

lemma push_ok: "0 < cap \<Longrightarrow> queue_ok cap age q \<Longrightarrow> queue_ok cap age (push q d t)"
  using drop_stale_ok [of cap age q t] by (auto simp: push_def push_at_def Let_def queue_ok_def)

lemma packet_queue_fresh:
  assumes "0 < cap"
  shows "fresh_queue pq_inner push pop queue_clear cap age (queue_ok cap age)"
proof
  fix q d t
  assume q: "queue_ok cap age q"
  show "queue_ok cap age (push q d t)" by (rule push_ok [OF assms q])
  show "queue_ok cap age (queue_clear q)" using q by (simp add: queue_ok_def queue_clear_def)
  show "length (pq_inner q) \<le> cap" using q by (simp add: queue_ok_def)
  show "\<exists>n. pq_inner (push q d t) = drop n (pq_inner q) @ [(d, t)]"
    using push_inner [of q d t] assms q by (auto simp: queue_ok_def)
  show "queue_ok cap age (snd (pop q t))"
    using drop_stale_ok [OF q, of t] by (auto simp: pop_def Let_def queue_ok_def split: list.split)
  show "pq_inner (queue_clear q) = []" by (simp add: queue_clear_def)
  show "pq_inner (snd (pop q t)) = []" if "fst (pop q t) = None"
    using that by (simp add: pop_def Let_def split: list.splits)
next
  fix q t d
  assume q: "queue_ok cap age q" and "fst (pop q t) = Some d"
  then obtain p rest where p: "pq_inner (drop_stale_locked q t) = p # rest" "d = fst p" "pq_inner (snd (pop q t)) = rest"
    by (auto simp: pop_def Let_def split: list.splits)
  obtain n where "pq_inner (drop_stale_locked q t) = drop n (pq_inner q)" using drop_stale_inner by blast
  with p drop_stale_hd [OF p(1)] q
  show "\<exists>n t'. drop n (pq_inner q) = (d, t') # pq_inner (snd (pop q t)) \<and> t - t' \<le> age"
    by (metis prod.collapse queue_ok_def)
qed

section \<open>Accounting\<close>

text \<open>Packets a queue has seen and not handed out: held, dropped on overflow or dropped as stale.\<close>

definition accounted :: "PacketQueue \<Rightarrow> u64" where
  "accounted q = word_of_nat (length (pq_inner q)) + pq_dropped q + pq_dropped_stale q"

lemma accounted_drop_stale [simp]: "accounted (drop_stale_locked q now) = accounted q"
proof -
  have "length (pq_inner q) = length (takeWhile (is_stale q now) (pq_inner q)) + length (dropWhile (is_stale q now) (pq_inner q))"
    by (metis length_append takeWhile_dropWhile_id)
  then show ?thesis by (simp add: accounted_def drop_stale_locked_def Let_def)
qed

lemma accounted_push: "0 < pq_max_size q \<Longrightarrow> accounted (push q d t) = accounted q + 1"
proof -
  let ?q = "drop_stale_locked q t"
  assume "0 < pq_max_size q"
  moreover have "pq_inner ?q \<noteq> [] \<Longrightarrow> length (pq_inner ?q) = Suc (length (tl (pq_inner ?q)))" by simp
  ultimately have "accounted (push q d t) = accounted ?q + 1"
    by (cases "pq_inner ?q") (simp_all add: push_def push_at_def Let_def accounted_def)
  then show ?thesis by simp
qed

lemma accounted_pop:
  "accounted q = accounted (snd (pop q t)) + (case fst (pop q t) of None \<Rightarrow> 0 | Some _ \<Rightarrow> 1)"
proof -
  have "accounted (drop_stale_locked q t) = accounted (snd (pop q t)) + (case fst (pop q t) of None \<Rightarrow> 0 | Some _ \<Rightarrow> 1)"
    by (simp add: pop_def Let_def accounted_def split: list.split)
  then show ?thesis by simp
qed

lemma run_accounting:
  assumes "Clear \<notin> set ops" "0 < pq_max_size q"
  shows "accounted q + word_of_nat (length (pushed ops)) =
    accounted (snd (queue_run push pop queue_clear q ops)) +
    word_of_nat (length (fst (queue_run push pop queue_clear q ops)))"
  using assms
proof (induction ops arbitrary: q)
  case (Cons op ops)
  show ?case
  proof (cases op)
    case (Push d t)
    have "0 < pq_max_size (push q d t)" using Cons.prems(2) by (simp add: push_def push_at_def Let_def)
    from Cons.IH [OF _ this] Cons.prems show ?thesis
      unfolding Push queue_run.simps accounted_push [OF Cons.prems(2), of d t] by (simp add: ac_simps)
  next
    case (Pop t)
    obtain r q1 where r: "pop q t = (r, q1)" by (cases "pop q t")
    then have "0 < pq_max_size q1" using Cons.prems(2) by (auto simp: pop_def Let_def split: list.splits)
    with Cons.IH [of q1] Cons.prems have
      "accounted q1 + word_of_nat (length (pushed ops)) = accounted (snd (queue_run push pop queue_clear q1 ops)) +
        word_of_nat (length (fst (queue_run push pop queue_clear q1 ops)))" by simp
    then show ?thesis
      using accounted_pop [of q t] r Pop by (cases r) (simp_all add: prod.case_eq_if ac_simps)
  qed (use Cons.prems in simp)
qed simp

section \<open>Properties\<close>

text \<open>
  C20 (refinement). The packet queue is a bounded FIFO without invention or duplication. Over any sequence of
  pushes, pops and clears from a new queue, it never holds more than its capacity; the packets delivered,
  followed by those still queued, are a subsequence of the packets pushed, in order; each was delivered within
  the age limit of its push; and without clears, every packet pushed is delivered, still queued, or counted by
  one of the two drop counters (modulo 2 to the 64).
\<close>

theorem packet_queue_fifo:
  fixes ops :: "queue_op list" and age :: instant
  assumes "0 < cap"
  defines "r \<equiv> queue_run push pop queue_clear (PacketQueue_new cap age) ops"
  shows "length (pq_inner (snd r)) \<le> cap \<and>
    (\<exists>pushed_at. length pushed_at = length (fst r) \<and>
       subseq (zip (map fst (fst r)) pushed_at @ pq_inner (snd r)) (pushed ops) \<and>
       list_all2 (\<lambda>out t0. snd out - t0 \<le> age) (fst r) pushed_at) \<and>
    (Clear \<notin> set ops \<longrightarrow>
       word_of_nat (length (pushed ops)) =
       word_of_nat (length (fst r) + length (pq_inner (snd r))) + pq_dropped (snd r) + pq_dropped_stale (snd r))"
proof -
  have new: "queue_ok cap age (PacketQueue_new cap age)" by (simp add: queue_ok_def PacketQueue_new_def)
  have "length (pq_inner (snd r)) \<le> cap"
    unfolding r_def using fresh_queue.bounded [OF packet_queue_fresh fresh_queue.run_inv [OF packet_queue_fresh new]] assms(1) by blast
  moreover have "\<exists>pushed_at. length pushed_at = length (fst r) \<and>
       subseq (zip (map fst (fst r)) pushed_at @ pq_inner (snd r)) (pushed ops) \<and>
       list_all2 (\<lambda>out t0. snd out - t0 \<le> age) (fst r) pushed_at"
    using fresh_queue.run_fifo [OF packet_queue_fresh [OF assms(1)] new, of ops]
    by (simp add: r_def PacketQueue_new_def)
  moreover have "Clear \<notin> set ops \<Longrightarrow> accounted (PacketQueue_new cap age) + word_of_nat (length (pushed ops)) =
      accounted (snd r) + word_of_nat (length (fst r))"
    unfolding r_def by (rule run_accounting) (simp_all add: PacketQueue_new_def assms(1))
  ultimately show ?thesis by (simp add: accounted_def PacketQueue_new_def ac_simps)
qed

theorem packet_queue_fifo_witness:
  "pq_inner (snd (queue_run push pop queue_clear (PacketQueue_new 2 10) [Push [1] 0, Push [2] 5, Pop 11, Push [3] 12])) =
     [([3], 12)] \<and>
   length (pq_inner (snd (queue_run push pop queue_clear (PacketQueue_new 2 10) [Push [1] 0, Push [2] 5, Pop 11, Push [3] 12]))) \<le> 2"
  using packet_queue_fifo [of 2 10 "[Push [1] 0, Push [2] 5, Pop 11, Push [3] 12]"]
  by (simp add: PacketQueue_new_def push_def push_at_def pop_def drop_stale_locked_def is_stale_def Let_def)

end
