(* ===== verification/Cellular.thy ===== *)
theory Cellular
  imports Packet_Queue Sealed
begin

text \<open>
  The relay link of \<open>android-native/src/cellular_transport.rs\<close>: connection state, the two packet queues, send
  gating and the connection URL. The two module globals (sealed-sender switch and context) are arguments of the
  functions that read them, the wall clock and the fresh UUID are arguments, HKDF and base64 are parameters.
  The statistics printer is not modelled.
\<close>

section \<open>Model\<close>

definition MAX_INBOUND_QUEUE_SIZE :: nat where "MAX_INBOUND_QUEUE_SIZE = 64"
definition MAX_OUTBOUND_QUEUE_SIZE :: nat where "MAX_OUTBOUND_QUEUE_SIZE = 32"
definition MAX_INBOUND_AGE :: instant where "MAX_INBOUND_AGE = millis 1200"
definition MAX_OUTBOUND_AGE :: instant where "MAX_OUTBOUND_AGE = millis 500"
definition MAX_PACKET_SIZE :: nat where "MAX_PACKET_SIZE = 1400"
definition RELAY_URL :: rstring where "RELAY_URL = ascii ''wss://relay.sassyconsultingllc.com/ws''"

type_synonym sealed_ctx = "(bytes \<times> rstring) option"

datatype CellularState = Disconnected | Connecting | Connected | CellError

datatype link_error = NotConnected | PacketTooLarge nat nat | SocketMissing | OsError rstring

record CellularTransport =
  ct_state :: CellularState
  ct_room_id :: rstring
  ct_device_name :: rstring
  ct_inbound :: PacketQueue
  ct_outbound :: PacketQueue
  ct_packets_sent :: u64
  ct_packets_send_failed :: u64
  ct_packets_queued :: u64
  ct_packets_received :: u64
  ct_packets_dropped_oversize :: u64
  ct_tx_send_allowed :: bool
  ct_last_send_success :: "instant option"

definition CellularTransport_new :: "rstring \<Rightarrow> CellularTransport" where
  "CellularTransport_new device_name =
     \<lparr>ct_state = Disconnected, ct_room_id = [], ct_device_name = device_name,
      ct_inbound = PacketQueue_new MAX_INBOUND_QUEUE_SIZE MAX_INBOUND_AGE,
      ct_outbound = PacketQueue_new MAX_OUTBOUND_QUEUE_SIZE MAX_OUTBOUND_AGE,
      ct_packets_sent = 0, ct_packets_send_failed = 0, ct_packets_queued = 0, ct_packets_received = 0,
      ct_packets_dropped_oversize = 0, ct_tx_send_allowed = False, ct_last_send_success = None\<rparr>"

definition set_room_id :: "CellularTransport \<Rightarrow> rstring \<Rightarrow> CellularTransport" where
  "set_room_id t room_id = t\<lparr>ct_room_id := room_id\<rparr>"

text \<open>Percent-encoding over bytes; \<open>{:02X}\<close> prints upper-case digits.\<close>

definition HEX_UPPER :: bytes where "HEX_UPPER = ascii ''0123456789ABCDEF''"

definition unreserved :: "u8 \<Rightarrow> bool" where
  "unreserved b \<longleftrightarrow> (0x61 \<le> b \<and> b \<le> 0x7A) \<or> (0x41 \<le> b \<and> b \<le> 0x5A) \<or> (0x30 \<le> b \<and> b \<le> 0x39) \<or>
     b = 0x2D \<or> b = 0x5F \<or> b = 0x2E \<or> b = 0x7E"

definition encode_byte :: "u8 \<Rightarrow> rstring" where
  "encode_byte b =
     (if unreserved b then [b]
      else if b = 0x20 then ascii ''%20''
      else [0x25, HEX_UPPER ! unat (drop_bit 4 b), HEX_UPPER ! unat (b AND 0x0F)])"

definition urlencoded :: "rstring \<Rightarrow> rstring" where
  "urlencoded s = concat (map encode_byte s)"

definition get_ws_url ::
  "hkdf_fun \<Rightarrow> (bytes \<Rightarrow> rstring) \<Rightarrow> bool \<Rightarrow> sealed_ctx \<Rightarrow> u64 \<Rightarrow> rstring \<Rightarrow> CellularTransport \<Rightarrow> (unit, rstring) outcome" where
  "get_ws_url hkdf b64url sealed_enabled ctx now_ms uuid t =
     (case (sealed_enabled, ctx) of
        (True, Some (key, peer_id)) \<Rightarrow>
          (let epoch = current_epoch now_ms DEFAULT_EPOCH_SECS
           in bind_outcome (blinded_room_id hkdf b64url key epoch) (\<lambda>room.
              bind_outcome (sealed_peer_handle hkdf b64url key peer_id epoch) (\<lambda>peer.
              Ok (RELAY_URL @ ascii ''?room='' @ urlencoded room @ ascii ''&peer='' @ urlencoded peer @
                  ascii ''&device='' @ urlencoded SEALED_DEVICE_PLACEHOLDER @ ascii ''&client_id='' @ uuid))))
      | _ \<Rightarrow> Ok (RELAY_URL @ ascii ''?room='' @ urlencoded (ct_room_id t) @ ascii ''&device='' @
                 urlencoded (ct_device_name t) @ ascii ''&client_id='' @ uuid))"

definition next_epoch_room_id ::
  "hkdf_fun \<Rightarrow> (bytes \<Rightarrow> rstring) \<Rightarrow> bool \<Rightarrow> sealed_ctx \<Rightarrow> u64 \<Rightarrow> (unit, rstring) outcome" where
  "next_epoch_room_id hkdf b64url sealed_enabled ctx now_ms =
     (if \<not> sealed_enabled then Ok []
      else case ctx of
             Some (key, _) \<Rightarrow>
               bind_outcome (room_ids_for_handoff hkdf b64url key now_ms DEFAULT_EPOCH_SECS) (\<lambda>(_, next_id). Ok next_id)
           | None \<Rightarrow> Ok [])"

definition cell_on_connected :: "CellularTransport \<Rightarrow> CellularTransport" where
  "cell_on_connected t =
     t\<lparr>ct_state := Connected, ct_inbound := queue_clear (ct_inbound t), ct_outbound := queue_clear (ct_outbound t),
       ct_packets_sent := 0, ct_packets_send_failed := 0, ct_packets_queued := 0, ct_packets_received := 0,
       ct_tx_send_allowed := True, ct_last_send_success := None\<rparr>"

definition on_message_received :: "CellularTransport \<Rightarrow> bytes \<Rightarrow> instant \<Rightarrow> CellularTransport" where
  "on_message_received t data now =
     (if MAX_PACKET_SIZE < length data
      then t\<lparr>ct_packets_dropped_oversize := ct_packets_dropped_oversize t + 1\<rparr>
      else t\<lparr>ct_packets_received := ct_packets_received t + 1, ct_inbound := push (ct_inbound t) data now\<rparr>)"

definition cell_on_disconnected :: "CellularTransport \<Rightarrow> CellularTransport" where
  "cell_on_disconnected t =
     t\<lparr>ct_state := Disconnected, ct_tx_send_allowed := False,
       ct_inbound := queue_clear (ct_inbound t), ct_outbound := queue_clear (ct_outbound t)\<rparr>"

definition cell_on_error :: "CellularTransport \<Rightarrow> CellularTransport" where
  "cell_on_error t = t\<lparr>ct_state := CellError, ct_tx_send_allowed := False\<rparr>"

definition poll_outbound :: "CellularTransport \<Rightarrow> instant \<Rightarrow> CellularTransport \<times> bytes option" where
  "poll_outbound t now = (case pop (ct_outbound t) now of (r, q) \<Rightarrow> (t\<lparr>ct_outbound := q\<rparr>, r))"

definition report_send_result :: "CellularTransport \<Rightarrow> bool \<Rightarrow> instant \<Rightarrow> CellularTransport" where
  "report_send_result t success now =
     (if success
      then t\<lparr>ct_packets_sent := ct_packets_sent t + 1, ct_tx_send_allowed := True, ct_last_send_success := Some now\<rparr>
      else t\<lparr>ct_packets_send_failed := ct_packets_send_failed t + 1, ct_tx_send_allowed := False\<rparr>)"

definition can_transmit_realtime :: "CellularTransport \<Rightarrow> bool" where
  "can_transmit_realtime t \<longleftrightarrow> ct_state t = Connected \<and> ct_tx_send_allowed t"

definition is_outbound_congested :: "CellularTransport \<Rightarrow> bool" where
  "is_outbound_congested t = is_congested (ct_outbound t)"

definition cell_send_audio :: "CellularTransport \<Rightarrow> bytes \<Rightarrow> instant \<Rightarrow> CellularTransport \<times> (link_error + nat)" where
  "cell_send_audio t data now =
     (if ct_state t \<noteq> Connected then (t, Inl NotConnected)
      else if MAX_PACKET_SIZE < length data then (t, Inl (PacketTooLarge (length data) MAX_PACKET_SIZE))
      else (t\<lparr>ct_outbound := push (ct_outbound t) data now, ct_packets_queued := ct_packets_queued t + 1\<rparr>,
            Inr (length data)))"

text \<open>The bytes copied into a buffer of \<open>len\<close> bytes; none when there is nothing to read.\<close>

definition cell_receive_audio :: "CellularTransport \<Rightarrow> nat \<Rightarrow> instant \<Rightarrow> CellularTransport \<times> bytes" where
  "cell_receive_audio t len now =
     (if ct_state t \<noteq> Connected then (t, [])
      else case pop (ct_inbound t) now of
             (Some packet, q) \<Rightarrow> (t\<lparr>ct_inbound := q\<rparr>, take len packet)
           | (None, q) \<Rightarrow> (t\<lparr>ct_inbound := q\<rparr>, []))"

definition cell_activate :: "CellularTransport \<Rightarrow> CellularTransport" where
  "cell_activate t = t\<lparr>ct_state := Connected\<rparr>"

definition cell_shutdown :: "CellularTransport \<Rightarrow> CellularTransport" where
  "cell_shutdown t =
     t\<lparr>ct_state := Disconnected, ct_tx_send_allowed := False,
       ct_inbound := queue_clear (ct_inbound t), ct_outbound := queue_clear (ct_outbound t)\<rparr>"

interpretation relay_inbound: fresh_queue pq_inner push pop queue_clear MAX_INBOUND_QUEUE_SIZE MAX_INBOUND_AGE
  "queue_ok MAX_INBOUND_QUEUE_SIZE MAX_INBOUND_AGE"
  by (rule packet_queue_fresh) (simp add: MAX_INBOUND_QUEUE_SIZE_def)

interpretation relay_outbound: fresh_queue pq_inner push pop queue_clear MAX_OUTBOUND_QUEUE_SIZE MAX_OUTBOUND_AGE
  "queue_ok MAX_OUTBOUND_QUEUE_SIZE MAX_OUTBOUND_AGE"
  by (rule packet_queue_fresh) (simp add: MAX_OUTBOUND_QUEUE_SIZE_def)

section \<open>Reading the connection URL\<close>

text \<open>A server's reading of a query: split at \<open>&\<close> and \<open>=\<close>, then decode the escapes.\<close>

fun split_on :: "u8 \<Rightarrow> bytes \<Rightarrow> bytes list" where
  "split_on c [] = [[]]"
| "split_on c (b # bs) = (if b = c then [] # split_on c bs else (b # hd (split_on c bs)) # tl (split_on c bs))"

definition hex_value :: "u8 \<Rightarrow> u8" where
  "hex_value d = (if d \<le> 0x39 then d - 0x30 else d - 0x41 + 10)"

fun urldecoded :: "bytes \<Rightarrow> bytes" where
  "urldecoded [] = []"
| "urldecoded (b # bs) =
     (if b = 0x25 then (case bs of d1 # d2 # rest \<Rightarrow> (push_bit 4 (hex_value d1) OR hex_value d2) # urldecoded rest | _ \<Rightarrow> b # bs)
      else b # urldecoded bs)"

definition query_param :: "bytes \<Rightarrow> bytes \<times> bytes" where
  "query_param p = (takeWhile (\<lambda>b. b \<noteq> 0x3D) p, urldecoded (tl (dropWhile (\<lambda>b. b \<noteq> 0x3D) p)))"

definition query_params :: "rstring \<Rightarrow> (bytes \<times> bytes) list" where
  "query_params url = map query_param (split_on 0x26 (tl (dropWhile (\<lambda>b. b \<noteq> 0x3F) url)))"

lemma split_on_none: "c \<notin> set x \<Longrightarrow> split_on c x = [x]"
  by (induction x) auto

lemma split_on_append: "c \<notin> set x \<Longrightarrow> split_on c (x @ c # y) = x # split_on c y"
  by (induction x) auto

lemma HEX_UPPER_code:
  "HEX_UPPER = [0x30, 0x31, 0x32, 0x33, 0x34, 0x35, 0x36, 0x37, 0x38, 0x39, 0x41, 0x42, 0x43, 0x44, 0x45, 0x46]"
  by (simp add: HEX_UPPER_def ascii_def)

lemma hex_upper_digit:
  assumes "i < 16"
  shows "hex_value (HEX_UPPER ! i) = word_of_nat i" "unreserved (HEX_UPPER ! i)"
proof -
  have "\<forall>i \<in> set [0..<16]. hex_value (HEX_UPPER ! i) = word_of_nat i \<and> unreserved (HEX_UPPER ! i)"
    by (simp add: HEX_UPPER_code hex_value_def unreserved_def upt_rec)
  with assms show "hex_value (HEX_UPPER ! i) = word_of_nat i" "unreserved (HEX_UPPER ! i)" by auto
qed

lemma urldecoded_byte: "urldecoded (encode_byte b @ s) = b # urldecoded s"
proof -
  have "push_bit 4 (hex_value (HEX_UPPER ! unat (drop_bit 4 b))) OR hex_value (HEX_UPPER ! unat (b AND 0x0F)) = b"
    using nibbles_join [of b] by (simp add: hex_upper_digit unat_hi_nibble unat_lo_nibble)
  moreover have "unreserved b \<Longrightarrow> b \<noteq> 0x25" by (auto simp: unreserved_def)
  ultimately show ?thesis by (auto simp: encode_byte_def ascii_def hex_value_def)
qed

lemma urldecoded_urlencoded: "urldecoded (urlencoded s) = s"
  using urldecoded_byte by (induction s) (simp_all add: urlencoded_def)

lemma urldecoded_plain: "list_all unreserved s \<Longrightarrow> urldecoded s = s"
  by (induction s) (auto simp: unreserved_def)

definition query_safe :: "u8 \<Rightarrow> bool" where
  "query_safe b \<longleftrightarrow> b \<noteq> 0x26 \<and> b \<noteq> 0x3D \<and> b \<noteq> 0x3F"

lemma unreserved_query_safe: "unreserved b \<Longrightarrow> query_safe b"
  by (auto simp: unreserved_def query_safe_def)

lemma urlencoded_query_safe: "b \<in> set (urlencoded s) \<Longrightarrow> query_safe b"
proof -
  have "c \<in> set (encode_byte b) \<Longrightarrow> query_safe c" for b c
    using hex_upper_digit(2) [OF unat_hi_nibble, of b] hex_upper_digit(2) [OF unat_lo_nibble, of b]
    by (auto simp: encode_byte_def ascii_def unreserved_query_safe split: if_splits) (simp_all add: query_safe_def)
  then show "b \<in> set (urlencoded s) \<Longrightarrow> query_safe b" by (auto simp: urlencoded_def)
qed

lemma query_param_pair:
  assumes "\<forall>b \<in> set k. query_safe b"
  shows "query_param (k @ 0x3D # v) = (k, urldecoded v)"
proof -
  have "\<forall>b \<in> set k. b \<noteq> 0x3D" using assms by (auto simp: query_safe_def)
  then show ?thesis by (simp add: query_param_def takeWhile_append dropWhile_append)
qed

text \<open>A query built from safe names and encoded values reads back as those names and values.\<close>

fun query_string :: "(bytes \<times> bytes) list \<Rightarrow> bytes" where
  "query_string [] = []"
| "query_string [(k, v)] = k @ 0x3D # v"
| "query_string ((k, v) # ps) = k @ 0x3D # v @ 0x26 # query_string ps"

definition pair_safe :: "bytes \<times> bytes \<Rightarrow> bool" where
  "pair_safe p \<longleftrightarrow> (\<forall>b \<in> set (fst p) \<union> set (snd p). query_safe b)"

lemma query_string_read:
  assumes "ps \<noteq> []" "list_all pair_safe ps"
  shows "map query_param (split_on 0x26 (query_string ps)) = map (\<lambda>(k, v). (k, urldecoded v)) ps"
  using assms
proof (induction ps rule: query_string.induct)
  case (2 k v)
  then have "0x26 \<notin> set (k @ 0x3D # v)" by (auto simp: pair_safe_def query_safe_def)
  with 2 show ?case by (simp add: split_on_none query_param_pair pair_safe_def del: set_append)
next
  case (3 k v p ps)
  then have "0x26 \<notin> set (k @ 0x3D # v)" by (auto simp: pair_safe_def query_safe_def)
  from split_on_append [OF this, of "query_string (p # ps)"] 3 show ?case
    by (simp add: query_param_pair pair_safe_def)
qed simp

lemma query_params_relay:
  "query_params (RELAY_URL @ 0x3F # q) = map query_param (split_on 0x26 q)"
  by (simp add: query_params_def RELAY_URL_def ascii_def)

section \<open>Properties\<close>

lemma safe_encoded [simp]: "\<forall>b \<in> set (urlencoded s). query_safe b"
  using urlencoded_query_safe by blast

lemma classic_url:
  "get_ws_url hkdf b64url sealed_enabled ctx now_ms uuid t = Ok (RELAY_URL @ 0x3F # query_string
     [(ascii ''room'', urlencoded (ct_room_id t)), (ascii ''device'', urlencoded (ct_device_name t)), (ascii ''client_id'', uuid)])"
  if "\<not> sealed_enabled \<or> ctx = None"
  using that by (auto simp: get_ws_url_def ascii_def split: bool.split option.split)

lemma sealed_url:
  assumes "blinded_room_id hkdf b64url key (current_epoch now_ms DEFAULT_EPOCH_SECS) = Ok room"
    and "sealed_peer_handle hkdf b64url key peer_id (current_epoch now_ms DEFAULT_EPOCH_SECS) = Ok peer"
  shows "get_ws_url hkdf b64url True (Some (key, peer_id)) now_ms uuid t = Ok (RELAY_URL @ 0x3F # query_string
     [(ascii ''room'', urlencoded room), (ascii ''peer'', urlencoded peer),
      (ascii ''device'', urlencoded SEALED_DEVICE_PLACEHOLDER), (ascii ''client_id'', uuid)])"
  using assms by (simp add: get_ws_url_def ascii_def Let_def)

lemma param_names_safe:
  "\<forall>b \<in> set (ascii ''room'') \<union> set (ascii ''peer'') \<union> set (ascii ''device'') \<union> set (ascii ''client_id''). query_safe b"
  by (simp add: ascii_def query_safe_def)

text \<open>
  The relay URL cannot be tampered with through its values: whatever bytes the scanned room id
  and the device name hold, a server that splits the query and undoes the escapes reads exactly the three
  parameters with those values. With sealed sender on and a context set, it reads the blinded room and peer
  handles of the current epoch and the placeholder device instead, and the URL does not depend on the room id,
  the device name or anything else of the transport.
\<close>

theorem ws_url_params:
  assumes "hkdf_ok hkdf" "b64url_len_ok b64url" "list_all unreserved uuid"
  shows "(\<not> sealed_enabled \<or> ctx = None \<longrightarrow>
      (\<exists>url. get_ws_url hkdf b64url sealed_enabled ctx now_ms uuid t = Ok url \<and>
         query_params url = [(ascii ''room'', ct_room_id t), (ascii ''device'', ct_device_name t), (ascii ''client_id'', uuid)])) \<and>
    (\<exists>url room peer. get_ws_url hkdf b64url True (Some (key, peer_id)) now_ms uuid t = Ok url \<and>
       (\<forall>t'. get_ws_url hkdf b64url True (Some (key, peer_id)) now_ms uuid t' = Ok url) \<and>
       blinded_room_id hkdf b64url key (current_epoch now_ms DEFAULT_EPOCH_SECS) = Ok room \<and>
       sealed_peer_handle hkdf b64url key peer_id (current_epoch now_ms DEFAULT_EPOCH_SECS) = Ok peer \<and>
       query_params url = [(ascii ''room'', room), (ascii ''peer'', peer),
         (ascii ''device'', SEALED_DEVICE_PLACEHOLDER), (ascii ''client_id'', uuid)])"
proof -
  have uuid: "\<forall>b \<in> set uuid. query_safe b" using assms(3) by (auto simp: list_all_iff unreserved_query_safe)
  note read = query_params_relay query_string_read pair_safe_def param_names_safe [unfolded ball_Un] ball_Un uuid
    urldecoded_urlencoded urldecoded_plain [OF assms(3)]
  obtain room peer where ids:
    "blinded_room_id hkdf b64url key (current_epoch now_ms DEFAULT_EPOCH_SECS) = Ok room"
    "sealed_peer_handle hkdf b64url key peer_id (current_epoch now_ms DEFAULT_EPOCH_SECS) = Ok peer"
    using blinded_room_id_Ok [OF assms(1,2)] sealed_peer_handle_Ok [OF assms(1,2)] by meson
  show ?thesis
    using classic_url [of sealed_enabled ctx hkdf b64url now_ms uuid t] sealed_url [OF ids, of uuid] ids
    by (auto simp: read simp del: query_string.simps)
qed

theorem ws_url_params_witness:
  "\<exists>url. get_ws_url zero_hkdf flat_b64url False None 0 (ascii ''a1-b2'') ((CellularTransport_new (ascii ''x&y''))\<lparr>ct_room_id := ascii ''r=1&peer=%''\<rparr>) = Ok url \<and>
     query_params url = [(ascii ''room'', ascii ''r=1&peer=%''), (ascii ''device'', ascii ''x&y''), (ascii ''client_id'', ascii ''a1-b2'')]"
proof -
  have "list_all unreserved (ascii ''a1-b2'')" by (simp add: ascii_def unreserved_def)
  from ws_url_params [OF zero_hkdf_ok this, of False None 0
      "(CellularTransport_new (ascii ''x&y''))\<lparr>ct_room_id := ascii ''r=1&peer=%''\<rparr>"]
  show ?thesis by (simp add: CellularTransport_new_def)
qed

end
