(* ===== verification/Wifi_Links.thy ===== *)
theory Wifi_Links
  imports Cellular Utf8_Std
begin

text \<open>
  The two WiFi parts of the Android app: the multicast transport of \<open>android-native/src/wifi_transport.rs\<close> and the
  WiFi Direct state tracker of \<open>android-native/src/wifi_direct.rs\<close>. A socket is the fact that it is open; what
  the operating system answers to a call (an error, the datagrams waiting) is an argument.
\<close>

section \<open>Multicast transport\<close>

definition PEER_STALE_MS :: nat where "PEER_STALE_MS = 30000"
definition WIFI_MAX_PACKET_SIZE :: nat where "WIFI_MAX_PACKET_SIZE = 1400"

datatype WifiState = WifiInactive | WifiDiscovering | WifiActive | WifiError

definition MSG_ANNOUNCE :: u8 where "MSG_ANNOUNCE = 0x01"
definition MSG_RESPONSE :: u8 where "MSG_RESPONSE = 0x02"
definition MSG_GOODBYE :: u8 where "MSG_GOODBYE = 0x03"

record WifiPeer =
  wp_address :: u32
  wp_device_name :: rstring
  wp_channel :: u8
  wp_last_seen :: instant

record WifiTransport =
  wt_audio_socket :: bool
  wt_discovery_socket :: bool
  wt_state :: WifiState
  wt_local_name :: rstring
  wt_peers :: "WifiPeer list"

definition WifiTransport_new :: "rstring \<Rightarrow> WifiTransport" where
  "WifiTransport_new device_name =
     \<lparr>wt_audio_socket = False, wt_discovery_socket = False, wt_state = WifiInactive,
      wt_local_name = device_name, wt_peers = []\<rparr>"

text \<open>The answers to the four calls of \<open>init\<close>, in order: \<open>None\<close> is success.\<close>

record wifi_io =
  io_audio_socket :: "rstring option"
  io_audio_timeout :: "rstring option"
  io_discovery_socket :: "rstring option"
  io_discovery_timeout :: "rstring option"

definition wifi_init :: "wifi_io \<Rightarrow> WifiTransport \<Rightarrow> WifiTransport \<times> (link_error + unit)" where
  "wifi_init io t =
     (case io_audio_socket io of
        Some e \<Rightarrow> (t\<lparr>wt_state := WifiError\<rparr>, Inl (OsError e))
      | None \<Rightarrow>
     (case io_audio_timeout io of
        Some e \<Rightarrow> (t\<lparr>wt_state := WifiError\<rparr>, Inl (OsError e))
      | None \<Rightarrow>
     (let t = t\<lparr>wt_audio_socket := True\<rparr>
      in case io_discovery_socket io of
           Some e \<Rightarrow> (t\<lparr>wt_state := WifiError\<rparr>, Inl (OsError e))
         | None \<Rightarrow>
        (case io_discovery_timeout io of
           Some e \<Rightarrow> (t\<lparr>wt_state := WifiError\<rparr>, Inl (OsError e))
         | None \<Rightarrow> (t\<lparr>wt_discovery_socket := True, wt_state := WifiDiscovering\<rparr>, Inr ())))))"

text \<open>The answer of the operating system to a datagram send is its error or the bytes sent.\<close>

definition wifi_send_audio :: "WifiTransport \<Rightarrow> bytes \<Rightarrow> rstring + nat \<Rightarrow> link_error + nat" where
  "wifi_send_audio t data os =
     (if \<not> wt_audio_socket t then Inl SocketMissing
      else if WIFI_MAX_PACKET_SIZE < length data then Inl (PacketTooLarge (length data) WIFI_MAX_PACKET_SIZE)
      else case os of Inl e \<Rightarrow> Inl (OsError e) | Inr n \<Rightarrow> Inr n)"

datatype recv_result = Datagram bytes | WouldBlock | RecvError rstring

definition wifi_receive_audio :: "WifiTransport \<Rightarrow> nat \<Rightarrow> recv_result \<Rightarrow> link_error + bytes" where
  "wifi_receive_audio t len r =
     (if \<not> wt_audio_socket t then Inl SocketMissing
      else case r of
             Datagram d \<Rightarrow> Inr (take len d)
           | WouldBlock \<Rightarrow> Inr []
           | RecvError e \<Rightarrow> Inl (OsError e))"

definition discovery_packet :: "u8 \<Rightarrow> u8 \<Rightarrow> rstring \<Rightarrow> bytes" where
  "discovery_packet kind channel name = [kind, channel, word_of_nat (length name)] @ name"

definition announce :: "WifiTransport \<Rightarrow> u8 \<Rightarrow> link_error + bytes" where
  "announce t channel =
     (if \<not> wt_discovery_socket t then Inl SocketMissing
      else Inr (discovery_packet MSG_ANNOUNCE channel (wt_local_name t)))"

definition goodbye :: "WifiTransport \<Rightarrow> bytes option" where
  "goodbye t = (if wt_discovery_socket t then Some (discovery_packet MSG_GOODBYE 0 (wt_local_name t)) else None)"

text \<open>One received datagram (at most 256 bytes reach the buffer) and its IPv4 source, if it has one.\<close>

definition touch_peer :: "u32 \<Rightarrow> u8 \<Rightarrow> instant \<Rightarrow> WifiPeer list \<Rightarrow> WifiPeer list" where
  "touch_peer ip channel now peers =
     (let i = length (takeWhile (\<lambda>p. wp_address p \<noteq> ip) peers)
      in peers[i := (peers ! i)\<lparr>wp_last_seen := now, wp_channel := channel\<rparr>])"

definition discovery_step ::
  "instant \<Rightarrow> WifiPeer list \<times> WifiPeer list \<Rightarrow> bytes \<times> u32 option \<Rightarrow> WifiPeer list \<times> WifiPeer list" where
  "discovery_step now acc msg =
     (case (acc, msg) of ((peers, new_peers), (datagram, addr)) \<Rightarrow>
        (let buffer = take 256 datagram; size = length buffer
         in if size < 3 then (peers, new_peers)
            else (let msg_type = buffer ! 0; channel = buffer ! 1; name_len = unat (buffer ! 2)
                  in if size < 3 + name_len then (peers, new_peers)
                     else (let name = from_utf8_lossy (take name_len (drop 3 buffer))
                           in if msg_type = MSG_ANNOUNCE \<or> msg_type = MSG_RESPONSE
                              then (case addr of
                                      None \<Rightarrow> (peers, new_peers)
                                    | Some ip \<Rightarrow>
                                        if \<exists>p \<in> set peers. wp_address p = ip
                                        then (touch_peer ip channel now peers, new_peers)
                                        else (let p = \<lparr>wp_address = ip, wp_device_name = name, wp_channel = channel,
                                                       wp_last_seen = now\<rparr>
                                              in (peers @ [p], new_peers @ [p])))
                              else if msg_type = MSG_GOODBYE
                              then (case addr of
                                      None \<Rightarrow> (peers, new_peers)
                                    | Some ip \<Rightarrow> (filter (\<lambda>p. wp_address p \<noteq> ip) peers, new_peers))
                              else (peers, new_peers)))))"

definition check_discovery ::
  "WifiTransport \<Rightarrow> (bytes \<times> u32 option) list \<Rightarrow> instant \<Rightarrow> WifiTransport \<times> WifiPeer list" where
  "check_discovery t msgs now =
     (if \<not> wt_discovery_socket t then (t, [])
      else (case foldl (discovery_step now) (wt_peers t, []) msgs of
              (peers, new_peers) \<Rightarrow>
                (t\<lparr>wt_peers := filter (\<lambda>p. (now - wp_last_seen p) div millis 1 < PEER_STALE_MS) peers\<rparr>, new_peers)))"

definition has_peers :: "WifiTransport \<Rightarrow> bool" where
  "has_peers t \<longleftrightarrow> wt_peers t \<noteq> []"

definition wifi_activate :: "WifiTransport \<Rightarrow> WifiTransport" where
  "wifi_activate t = t\<lparr>wt_state := WifiActive\<rparr>"

definition wifi_shutdown :: "WifiTransport \<Rightarrow> WifiTransport" where
  "wifi_shutdown t =
     t\<lparr>wt_state := WifiInactive, wt_audio_socket := False, wt_discovery_socket := False, wt_peers := []\<rparr>"

section \<open>WiFi Direct\<close>

datatype GroupRole = NoGroup | Owner | Client

datatype WifiDirectState = P2pDisabled | P2pAvailable | P2pDiscovering | P2pConnecting | P2pConnected | P2pError

record WifiDirectPeer =
  wdp_device_name :: rstring
  wdp_device_address :: rstring
  wdp_is_group_owner :: bool

record WifiDirectManager =
  wd_state :: WifiDirectState
  wd_role :: GroupRole
  wd_group_owner_address :: "u32 option"
  wd_local_address :: "u32 option"
  wd_peers :: "WifiDirectPeer list"
  wd_interface_name :: "rstring option"

definition WifiDirectManager_new :: WifiDirectManager where
  "WifiDirectManager_new =
     \<lparr>wd_state = P2pDisabled, wd_role = NoGroup, wd_group_owner_address = None, wd_local_address = None,
      wd_peers = [], wd_interface_name = None\<rparr>"

definition on_state_changed :: "WifiDirectManager \<Rightarrow> bool \<Rightarrow> WifiDirectManager" where
  "on_state_changed m enabled = m\<lparr>wd_state := (if enabled then P2pAvailable else P2pDisabled)\<rparr>"

definition on_peers_changed :: "WifiDirectManager \<Rightarrow> WifiDirectPeer list \<Rightarrow> WifiDirectManager" where
  "on_peers_changed m peers = m\<lparr>wd_peers := peers\<rparr>"

definition on_connection_changed ::
  "WifiDirectManager \<Rightarrow> bool \<Rightarrow> bool \<Rightarrow> u32 option \<Rightarrow> rstring option \<Rightarrow> WifiDirectManager" where
  "on_connection_changed m is_connected is_owner group_owner_ip interface =
     (if is_connected
      then m\<lparr>wd_state := P2pConnected, wd_role := (if is_owner then Owner else Client),
             wd_group_owner_address := group_owner_ip, wd_interface_name := interface\<rparr>
      else m\<lparr>wd_state := P2pAvailable, wd_role := NoGroup, wd_group_owner_address := None,
             wd_local_address := None, wd_interface_name := None\<rparr>)"

definition set_local_address :: "WifiDirectManager \<Rightarrow> u32 \<Rightarrow> WifiDirectManager" where
  "set_local_address m addr = m\<lparr>wd_local_address := Some addr\<rparr>"

definition on_discovery_started :: "WifiDirectManager \<Rightarrow> WifiDirectManager" where
  "on_discovery_started m = m\<lparr>wd_state := P2pDiscovering\<rparr>"

definition on_connecting :: "WifiDirectManager \<Rightarrow> WifiDirectManager" where
  "on_connecting m = m\<lparr>wd_state := P2pConnecting\<rparr>"

definition p2p_is_connected :: "WifiDirectManager \<Rightarrow> bool" where
  "p2p_is_connected m \<longleftrightarrow> wd_state m = P2pConnected"

definition p2p_reset :: "WifiDirectManager \<Rightarrow> WifiDirectManager" where
  "p2p_reset m =
     m\<lparr>wd_state := P2pDisabled, wd_role := NoGroup, wd_group_owner_address := None, wd_local_address := None,
       wd_peers := [], wd_interface_name := None\<rparr>"

section \<open>Discovery\<close>

lemma address_touch [simp]: "map wp_address (touch_peer ip ch now peers) = map wp_address peers"
proof -
  let ?i = "length (takeWhile (\<lambda>p. wp_address p \<noteq> ip) peers)"
  have "?i < length peers \<Longrightarrow> (map wp_address peers)[?i := wp_address (peers ! ?i)] = map wp_address peers"
    by (metis list_update_id nth_map)
  then show ?thesis
    by (cases "?i < length peers") (simp_all add: touch_peer_def Let_def map_update list_update_beyond not_less)
qed

lemma touch_peer_member:
  assumes "p \<in> set peers" "wp_address p = ip"
  shows "\<exists>q \<in> set (touch_peer ip ch now peers). wp_address q = ip \<and> wp_channel q = ch \<and> wp_last_seen q = now"
proof -
  let ?i = "length (takeWhile (\<lambda>p. wp_address p \<noteq> ip) peers)"
  have "takeWhile (\<lambda>p. wp_address p \<noteq> ip) peers \<noteq> peers" using assms by (auto simp: takeWhile_eq_all_conv)
  then have i: "?i < length peers"
    using length_takeWhile_le [of "\<lambda>p. wp_address p \<noteq> ip" peers] by (metis le_neq_implies_less takeWhile_eq_take take_all_iff order_refl)
  then have "wp_address (peers ! ?i) = ip" using nth_length_takeWhile by fastforce
  with i show ?thesis by (auto simp: touch_peer_def Let_def intro!: bexI [OF _ set_update_memI [OF i]])
qed

lemma discovery_step_distinct:
  "distinct (map wp_address (fst acc)) \<Longrightarrow> distinct (map wp_address (fst (discovery_step now acc msg)))"
  by (cases acc; cases msg)
     (auto simp: discovery_step_def Let_def distinct_map_filter split: option.splits)

lemma discovery_distinct:
  "distinct (map wp_address (fst acc)) \<Longrightarrow> distinct (map wp_address (fst (foldl (discovery_step now) acc msgs)))"
  by (induction msgs arbitrary: acc) (simp_all add: discovery_step_distinct)

text \<open>Entries of one address, written during this call.\<close>

definition seen_now :: "u32 \<Rightarrow> instant \<Rightarrow> WifiPeer list \<Rightarrow> bool" where
  "seen_now ip now peers \<longleftrightarrow> (\<exists>p \<in> set peers. wp_address p = ip \<and> wp_last_seen p = now)"

lemma discovery_step_announce:
  assumes "length name \<le> 253"
  shows "seen_now ip now (fst (discovery_step now acc (discovery_packet MSG_ANNOUNCE ch name, Some ip)))"
proof -
  have "unat (word_of_nat (length name) :: u8) = length name" using assms by (simp add: unat_of_nat)
  then show ?thesis
    using assms touch_peer_member [of _ "fst acc" ip ch now]
    by (cases acc) (auto simp: discovery_step_def discovery_packet_def Let_def seen_now_def)
qed

lemma touch_peer_keeps: "seen_now ip now peers \<Longrightarrow> seen_now ip now (touch_peer ip' ch now peers)"
proof -
  let ?i = "length (takeWhile (\<lambda>p. wp_address p \<noteq> ip') peers)"
  assume "seen_now ip now peers"
  then obtain j where j: "j < length peers" "wp_address (peers ! j) = ip" "wp_last_seen (peers ! j) = now"
    by (auto simp: seen_now_def in_set_conv_nth)
  then have "wp_address (touch_peer ip' ch now peers ! j) = ip \<and> wp_last_seen (touch_peer ip' ch now peers ! j) = now"
    by (cases "j = ?i") (simp_all add: touch_peer_def Let_def)
  with j(1) show ?thesis by (auto simp: seen_now_def touch_peer_def Let_def intro!: nth_mem bexI)
qed

lemma discovery_step_keeps:
  assumes "seen_now ip now (fst acc)" "\<not> (snd msg = Some ip \<and> fst msg ! 0 = MSG_GOODBYE)"
  shows "seen_now ip now (fst (discovery_step now acc msg))"
proof -
  have keep: "seen_now ip now (filter (\<lambda>p. wp_address p \<noteq> ip') (fst acc))" if "ip' \<noteq> ip" for ip'
    using assms(1) that by (auto simp: seen_now_def)
  have app: "seen_now ip now (fst acc @ [p])" for p using assms(1) by (auto simp: seen_now_def)
  show ?thesis
    using assms keep app touch_peer_keeps [OF assms(1)]
    by (cases acc; cases msg) (auto simp: discovery_step_def Let_def split: option.splits)
qed

lemma discovery_keeps:
  assumes "seen_now ip now (fst acc)" "\<forall>m \<in> set msgs. \<not> (snd m = Some ip \<and> fst m ! 0 = MSG_GOODBYE)"
  shows "seen_now ip now (fst (foldl (discovery_step now) acc msgs))"
  using assms by (induction msgs arbitrary: acc) (simp_all add: discovery_step_keeps)

lemma discovery_short_dropped:
  assumes "254 \<le> length name" "length name < 256"
  shows "discovery_step now acc (discovery_packet MSG_ANNOUNCE ch name, src) = acc"
proof -
  have "unat (word_of_nat (length name) :: u8) = length name" using assms by (simp add: unat_of_nat)
  then show ?thesis using assms by (cases acc) (simp add: discovery_step_def discovery_packet_def Let_def)
qed

text \<open>
  Peer discovery on the local network: after a poll the peer table has one entry per address and
  only entries heard of within 30 seconds; a device with a name of at most 253 bytes whose announcement was among
  the datagrams, and which sent no goodbye after it, is listed as seen now. An announcement with a name of 254 or
  255 bytes is ignored by every receiver, whose buffer cuts it short.
\<close>

theorem wifi_discovery:
  fixes msgs :: "(bytes \<times> u32 option) list" and now :: instant
  assumes "wt_discovery_socket t" "distinct (map wp_address (wt_peers t))"
  defines "t1 \<equiv> fst (check_discovery t msgs now)"
  shows "distinct (map wp_address (wt_peers t1)) \<and>
    (\<forall>p \<in> set (wt_peers t1). (now - wp_last_seen p) div millis 1 < PEER_STALE_MS) \<and>
    (msgs = before @ (discovery_packet MSG_ANNOUNCE ch name, Some ip) # after \<and> length name \<le> 253 \<and>
       (\<forall>m \<in> set after. \<not> (snd m = Some ip \<and> fst m ! 0 = MSG_GOODBYE)) \<longrightarrow> seen_now ip now (wt_peers t1)) \<and>
    (254 \<le> length name \<and> length name < 256 \<longrightarrow>
       check_discovery t [(discovery_packet MSG_ANNOUNCE ch name, src)] now = check_discovery t [] now)"
proof -
  define ps where "ps = fst (foldl (discovery_step now) (wt_peers t, []) msgs)"
  have t1: "wt_peers t1 = filter (\<lambda>p. (now - wp_last_seen p) div millis 1 < PEER_STALE_MS) ps"
    using assms(1) by (simp add: t1_def check_discovery_def ps_def prod.case_eq_if)
  have "distinct (map wp_address ps)" unfolding ps_def by (rule discovery_distinct) (simp add: assms(2))
  then have "distinct (map wp_address (wt_peers t1))" by (simp add: t1 distinct_map_filter)
  moreover have "seen_now ip now (wt_peers t1)"
    if "msgs = before @ (discovery_packet MSG_ANNOUNCE ch name, Some ip) # after" "length name \<le> 253"
      "\<forall>m \<in> set after. \<not> (snd m = Some ip \<and> fst m ! 0 = MSG_GOODBYE)"
  proof -
    have "seen_now ip now ps"
      unfolding ps_def that(1) foldl_append foldl.simps
      by (rule discovery_keeps [OF discovery_step_announce [OF that(2)] that(3)])
    then show ?thesis by (auto simp: t1 seen_now_def PEER_STALE_MS_def)
  qed
  ultimately show ?thesis
    using assms(1) by (auto simp: t1 check_discovery_def discovery_short_dropped)
qed

theorem wifi_discovery_witness:
  "seen_now 9 100 (wt_peers (fst (check_discovery ((WifiTransport_new [])\<lparr>wt_discovery_socket := True\<rparr>)
     [([1], None), (discovery_packet MSG_ANNOUNCE 5 [0x41], Some 9)] 100)))"
  using wifi_discovery [of "(WifiTransport_new [])\<lparr>wt_discovery_socket := True\<rparr>"
      "[([1], None), (discovery_packet MSG_ANNOUNCE 5 [0x41], Some 9)]" 100 "[([1], None)]" 5 "[0x41]" 9 "[]" None]
  by (simp add: WifiTransport_new_def)

end
