(* ===== verification/Transport.thy ===== *)
theory Transport
  imports Wifi_Links Crypto_Session
begin

text \<open>
  The transport manager of \<open>android-native/src/transport.rs\<close>: the bearers (WiFi multicast, relay, Bluetooth), the live
  and the staged encryption session, mandatory encryption with fan-out to every live bearer, and decryption.
  The cipher is a parameter; the instant of a call and the answer of the operating system to the multicast
  send or receive are arguments. Diagnostics counters and logging are not modelled.
\<close>

section \<open>State\<close>

datatype ActiveTransport = NoTransport | Wifi | WifiDirect | CellularLink | Bluetooth

datatype transport_error =
  EncryptionRequired | NoSession | DecryptFailed | NoActiveTransport | CryptoFailure crypto_error | LinkFailure link_error

record TransportManager =
  tm_wifi :: WifiTransport
  tm_wifi_direct :: WifiDirectManager
  tm_cellular :: CellularTransport
  tm_crypto :: "CryptoSession option"
  tm_pending_rx :: "CryptoSession option"
  tm_preferred :: ActiveTransport
  tm_bluetooth_connected :: bool
  tm_bluetooth_tx_allowed :: bool
  tm_bluetooth_outbound :: PacketQueue
  tm_device_name :: rstring

definition TransportManager_new :: "rstring \<Rightarrow> TransportManager" where
  "TransportManager_new device_name =
     \<lparr>tm_wifi = WifiTransport_new device_name, tm_wifi_direct = WifiDirectManager_new,
      tm_cellular = CellularTransport_new device_name, tm_crypto = None, tm_pending_rx = None,
      tm_preferred = NoTransport, tm_bluetooth_connected = False, tm_bluetooth_tx_allowed = False,
      tm_bluetooth_outbound = PacketQueue_new 32 (millis 500), tm_device_name = device_name\<rparr>"

section \<open>Sessions\<close>

definition set_crypto :: "TransportManager \<Rightarrow> CryptoSession \<Rightarrow> TransportManager" where
  "set_crypto tm session = tm\<lparr>tm_crypto := Some session, tm_pending_rx := None\<rparr>"

definition arm_pending_rx :: "TransportManager \<Rightarrow> CryptoSession \<Rightarrow> TransportManager" where
  "arm_pending_rx tm session = tm\<lparr>tm_pending_rx := Some session\<rparr>"

definition discard_pending_rx :: "TransportManager \<Rightarrow> TransportManager" where
  "discard_pending_rx tm = tm\<lparr>tm_pending_rx := None\<rparr>"

definition set_psk :: "TransportManager \<Rightarrow> bytes \<Rightarrow> bytes \<Rightarrow> TransportManager" where
  "set_psk tm key nonce_prefix = tm\<lparr>tm_crypto := Some (from_psk key nonce_prefix), tm_pending_rx := None\<rparr>"

definition is_encrypted :: "TransportManager \<Rightarrow> bool" where
  "is_encrypted tm \<longleftrightarrow> tm_crypto tm \<noteq> None"

definition encrypt_raw :: "aead_fun \<Rightarrow> TransportManager \<Rightarrow> bytes \<Rightarrow> TransportManager \<times> (transport_error + bytes)" where
  "encrypt_raw enc tm data =
     (case tm_crypto tm of
        None \<Rightarrow> (tm, Inl NoSession)
      | Some crypto \<Rightarrow>
          (case encrypt enc crypto data of
             (s, Inl e) \<Rightarrow> (tm\<lparr>tm_crypto := Some s\<rparr>, Inl (CryptoFailure e))
           | (s, Inr ct) \<Rightarrow> (tm\<lparr>tm_crypto := Some s\<rparr>, Inr ct)))"

text \<open>The staged half: a hit promotes the staged session to live.\<close>

definition decrypt_pending :: "aead_fun \<Rightarrow> TransportManager \<Rightarrow> bytes \<Rightarrow> TransportManager \<times> (transport_error + bytes)" where
  "decrypt_pending dec tm data =
     (case tm_pending_rx tm of
        Some pending \<Rightarrow>
          (case decrypt dec pending data of
             (s, Inr pt) \<Rightarrow> (tm\<lparr>tm_crypto := Some s, tm_pending_rx := None\<rparr>, Inr pt)
           | (s, Inl _) \<Rightarrow> (tm\<lparr>tm_pending_rx := Some s\<rparr>, Inl DecryptFailed))
      | None \<Rightarrow> (tm, Inl (if tm_crypto tm = None then NoSession else DecryptFailed)))"

definition decrypt_live_or_pending ::
  "aead_fun \<Rightarrow> TransportManager \<Rightarrow> bytes \<Rightarrow> TransportManager \<times> (transport_error + bytes)" where
  "decrypt_live_or_pending dec tm data =
     (case tm_crypto tm of
        Some crypto \<Rightarrow>
          (case decrypt dec crypto data of
             (s, Inr pt) \<Rightarrow> (tm\<lparr>tm_crypto := Some s\<rparr>, Inr pt)
           | (s, Inl _) \<Rightarrow> decrypt_pending dec (tm\<lparr>tm_crypto := Some s\<rparr>) data)
      | None \<Rightarrow> decrypt_pending dec tm data)"

definition decrypt_raw :: "aead_fun \<Rightarrow> TransportManager \<Rightarrow> bytes \<Rightarrow> TransportManager \<times> (transport_error + bytes)" where
  "decrypt_raw dec tm data = decrypt_live_or_pending dec tm data"

section \<open>Bearers\<close>

definition bluetooth_live :: "TransportManager \<Rightarrow> bool" where
  "bluetooth_live tm \<longleftrightarrow> tm_bluetooth_connected tm \<and> tm_bluetooth_tx_allowed tm"

definition wifi_live :: "TransportManager \<Rightarrow> bool" where
  "wifi_live tm \<longleftrightarrow> wt_state (tm_wifi tm) = WifiActive"

definition live_transport :: "TransportManager \<Rightarrow> ActiveTransport" where
  "live_transport tm =
     (if tm_preferred tm = CellularLink \<and> can_transmit_realtime (tm_cellular tm) then CellularLink
      else if (tm_preferred tm = Wifi \<or> tm_preferred tm = WifiDirect) \<and> wifi_live tm then tm_preferred tm
      else if tm_preferred tm = Bluetooth \<and> bluetooth_live tm then Bluetooth
      else if can_transmit_realtime (tm_cellular tm) then CellularLink
      else if wifi_live tm then Wifi
      else if bluetooth_live tm then Bluetooth
      else NoTransport)"

definition has_live_ip_transport :: "TransportManager \<Rightarrow> bool" where
  "has_live_ip_transport tm \<longleftrightarrow> wifi_live tm \<or> can_transmit_realtime (tm_cellular tm)"

definition has_live_audio_path :: "TransportManager \<Rightarrow> bool" where
  "has_live_audio_path tm \<longleftrightarrow> has_live_ip_transport tm \<or> bluetooth_live tm"

definition adopt_wifi_as_active :: "TransportManager \<Rightarrow> TransportManager" where
  "adopt_wifi_as_active tm =
     (if ct_state (tm_cellular tm) = Connected then tm else tm\<lparr>tm_preferred := Wifi\<rparr>)"

definition init_wifi :: "wifi_io \<Rightarrow> TransportManager \<Rightarrow> TransportManager \<times> (link_error + unit)" where
  "init_wifi io tm = (case wifi_init io (tm_wifi tm) of (w, r) \<Rightarrow> (tm\<lparr>tm_wifi := w\<rparr>, r))"

definition tm_on_wifi_direct_connected :: "wifi_io \<Rightarrow> TransportManager \<Rightarrow> TransportManager \<times> (link_error + unit)" where
  "tm_on_wifi_direct_connected io tm =
     (case init_wifi io tm of
        (tm, Inl e) \<Rightarrow> (tm, Inl e)
      | (tm, Inr _) \<Rightarrow>
          (let tm = tm\<lparr>tm_wifi := wifi_activate (tm_wifi tm)\<rparr>
           in (if ct_state (tm_cellular tm) = Connected then tm else tm\<lparr>tm_preferred := WifiDirect\<rparr>, Inr ())))"

definition tm_on_wifi_direct_disconnected :: "TransportManager \<Rightarrow> TransportManager" where
  "tm_on_wifi_direct_disconnected tm = tm\<lparr>tm_wifi := wifi_shutdown (tm_wifi tm)\<rparr>"

definition tm_connect_wifi_multicast :: "wifi_io \<Rightarrow> TransportManager \<Rightarrow> TransportManager \<times> (link_error + unit)" where
  "tm_connect_wifi_multicast io tm =
     (case init_wifi io tm of
        (tm, Inl e) \<Rightarrow> (tm, Inl e)
      | (tm, Inr _) \<Rightarrow> (adopt_wifi_as_active (tm\<lparr>tm_wifi := wifi_activate (tm_wifi tm)\<rparr>), Inr ()))"

definition tm_on_cellular_connected :: "TransportManager \<Rightarrow> TransportManager" where
  "tm_on_cellular_connected tm =
     tm\<lparr>tm_cellular := cell_on_connected (tm_cellular tm), tm_preferred := CellularLink\<rparr>"

definition tm_on_cellular_disconnected :: "TransportManager \<Rightarrow> TransportManager" where
  "tm_on_cellular_disconnected tm = tm\<lparr>tm_cellular := cell_on_disconnected (tm_cellular tm)\<rparr>"

definition tm_on_cellular_message :: "TransportManager \<Rightarrow> bytes \<Rightarrow> instant \<Rightarrow> TransportManager" where
  "tm_on_cellular_message tm data now = tm\<lparr>tm_cellular := on_message_received (tm_cellular tm) data now\<rparr>"

definition tm_on_cellular_error :: "TransportManager \<Rightarrow> TransportManager" where
  "tm_on_cellular_error tm = tm\<lparr>tm_cellular := cell_on_error (tm_cellular tm)\<rparr>"

definition tm_set_cellular_room :: "TransportManager \<Rightarrow> rstring \<Rightarrow> TransportManager" where
  "tm_set_cellular_room tm room_id = tm\<lparr>tm_cellular := set_room_id (tm_cellular tm) room_id\<rparr>"

definition poll_cellular_outbound :: "TransportManager \<Rightarrow> instant \<Rightarrow> TransportManager \<times> bytes option" where
  "poll_cellular_outbound tm now = (case poll_outbound (tm_cellular tm) now of (c, r) \<Rightarrow> (tm\<lparr>tm_cellular := c\<rparr>, r))"

definition report_cellular_send_result :: "TransportManager \<Rightarrow> bool \<Rightarrow> instant \<Rightarrow> TransportManager" where
  "report_cellular_send_result tm success now =
     tm\<lparr>tm_cellular := report_send_result (tm_cellular tm) success now\<rparr>"

definition tm_on_bluetooth_connected :: "TransportManager \<Rightarrow> TransportManager" where
  "tm_on_bluetooth_connected tm =
     (let tm = tm\<lparr>tm_bluetooth_connected := True, tm_bluetooth_tx_allowed := True\<rparr>
      in if tm_preferred tm = NoTransport then tm\<lparr>tm_preferred := Bluetooth\<rparr> else tm)"

definition tm_on_bluetooth_disconnected :: "TransportManager \<Rightarrow> TransportManager" where
  "tm_on_bluetooth_disconnected tm =
     tm\<lparr>tm_bluetooth_connected := False, tm_bluetooth_tx_allowed := False,
        tm_bluetooth_outbound := queue_clear (tm_bluetooth_outbound tm)\<rparr>"

definition poll_bluetooth_outbound :: "TransportManager \<Rightarrow> instant \<Rightarrow> TransportManager \<times> bytes option" where
  "poll_bluetooth_outbound tm now =
     (case pop (tm_bluetooth_outbound tm) now of (r, q) \<Rightarrow> (tm\<lparr>tm_bluetooth_outbound := q\<rparr>, r))"

definition report_bluetooth_send_result :: "TransportManager \<Rightarrow> bool \<Rightarrow> TransportManager" where
  "report_bluetooth_send_result tm success = tm\<lparr>tm_bluetooth_tx_allowed := success\<rparr>"

definition tm_set_device_name :: "TransportManager \<Rightarrow> rstring \<Rightarrow> TransportManager" where
  "tm_set_device_name tm name = tm\<lparr>tm_device_name := name\<rparr>"

definition tm_disconnect :: "TransportManager \<Rightarrow> TransportManager" where
  "tm_disconnect tm =
     tm\<lparr>tm_wifi := wifi_shutdown (tm_wifi tm), tm_wifi_direct := p2p_reset (tm_wifi_direct tm),
        tm_cellular := cell_shutdown (tm_cellular tm), tm_crypto := None, tm_bluetooth_connected := False,
        tm_bluetooth_tx_allowed := False, tm_bluetooth_outbound := queue_clear (tm_bluetooth_outbound tm),
        tm_preferred := NoTransport\<rparr>"

section \<open>Send\<close>

text \<open>
  The three bearers in turn. Each returns the manager, whether it took the payload, and its error. The multicast
  bearer hands the payload to the operating system, which is the third component of the first result.
\<close>

definition send_wifi ::
  "TransportManager \<Rightarrow> bytes \<Rightarrow> rstring + nat \<Rightarrow> bool \<times> transport_error option \<times> bytes option" where
  "send_wifi tm payload os =
     (if wifi_live tm
      then (case wifi_send_audio (tm_wifi tm) payload os of
              Inr _ \<Rightarrow> (True, None, Some payload)
            | Inl e \<Rightarrow> (False, Some (LinkFailure e), None))
      else (False, None, None))"

definition send_relay ::
  "TransportManager \<Rightarrow> bytes \<Rightarrow> instant \<Rightarrow> TransportManager \<times> bool \<times> transport_error option" where
  "send_relay tm payload now =
     (if can_transmit_realtime (tm_cellular tm)
      then (if is_outbound_congested (tm_cellular tm) then (tm, False, None)
            else (case cell_send_audio (tm_cellular tm) payload now of
                    (c, Inr _) \<Rightarrow> (tm\<lparr>tm_cellular := c\<rparr>, True, None)
                  | (c, Inl e) \<Rightarrow> (tm\<lparr>tm_cellular := c\<rparr>, False, Some (LinkFailure e))))
      else (tm, False, None))"

definition send_bluetooth :: "TransportManager \<Rightarrow> bytes \<Rightarrow> instant \<Rightarrow> TransportManager \<times> bool" where
  "send_bluetooth tm payload now =
     (if bluetooth_live tm
      then (tm\<lparr>tm_bluetooth_outbound := push (tm_bluetooth_outbound tm) payload now\<rparr>, True)
      else (tm, False))"

definition fan_out ::
  "TransportManager \<Rightarrow> bytes \<Rightarrow> instant \<Rightarrow> rstring + nat \<Rightarrow> TransportManager \<times> bytes option \<times> (transport_error + nat)" where
  "fan_out tm payload now os =
     (case send_wifi tm payload os of (sent_w, err_w, on_air) \<Rightarrow>
      case send_relay tm payload now of (tm, sent_c, err_c) \<Rightarrow>
      case send_bluetooth tm payload now of (tm, sent_b) \<Rightarrow>
        (tm, on_air,
         if sent_w \<or> sent_c \<or> sent_b then Inr (length payload)
         else Inl (case err_c of Some e \<Rightarrow> e | None \<Rightarrow> (case err_w of Some e \<Rightarrow> e | None \<Rightarrow> NoActiveTransport))))"

definition send ::
  "aead_fun \<Rightarrow> TransportManager \<Rightarrow> bytes \<Rightarrow> instant \<Rightarrow> rstring + nat \<Rightarrow> TransportManager \<times> bytes option \<times> (transport_error + nat)" where
  "send enc tm data now os =
     (case tm_crypto tm of
        None \<Rightarrow> (tm, None, Inl EncryptionRequired)
      | Some crypto \<Rightarrow>
          (case encrypt enc crypto data of
             (s, Inl e) \<Rightarrow> (tm\<lparr>tm_crypto := Some s\<rparr>, None, Inl (CryptoFailure e))
           | (s, Inr payload) \<Rightarrow> fan_out (tm\<lparr>tm_crypto := Some s\<rparr>) payload now os))"

section \<open>Receive\<close>

definition decrypt_into :: "aead_fun \<Rightarrow> TransportManager \<Rightarrow> bytes \<Rightarrow> nat \<Rightarrow> TransportManager \<times> bytes" where
  "decrypt_into dec tm raw len =
     (case decrypt_live_or_pending dec tm raw of (tm, Inr pt) \<Rightarrow> (tm, take len pt) | (tm, Inl _) \<Rightarrow> (tm, []))"

definition poll_wifi_into :: "aead_fun \<Rightarrow> TransportManager \<Rightarrow> nat \<Rightarrow> recv_result \<Rightarrow> TransportManager \<times> bytes" where
  "poll_wifi_into dec tm len r =
     (if \<not> wifi_live tm then (tm, [])
      else case wifi_receive_audio (tm_wifi tm) (len + 128) r of
             Inr raw \<Rightarrow> if raw = [] then (tm, []) else decrypt_into dec tm raw len
           | Inl _ \<Rightarrow> (tm, []))"

definition poll_cellular_into :: "aead_fun \<Rightarrow> TransportManager \<Rightarrow> nat \<Rightarrow> instant \<Rightarrow> TransportManager \<times> bytes" where
  "poll_cellular_into dec tm len now =
     (if ct_state (tm_cellular tm) \<noteq> Connected then (tm, [])
      else case cell_receive_audio (tm_cellular tm) (len + 128) now of
             (c, raw) \<Rightarrow> if raw = [] then (tm\<lparr>tm_cellular := c\<rparr>, []) else decrypt_into dec (tm\<lparr>tm_cellular := c\<rparr>) raw len)"

definition receive :: "aead_fun \<Rightarrow> TransportManager \<Rightarrow> nat \<Rightarrow> recv_result \<Rightarrow> instant \<Rightarrow> TransportManager \<times> bytes" where
  "receive dec tm len r now =
     (case live_transport tm of
        Wifi \<Rightarrow> (case poll_wifi_into dec tm len r of
                   (tm, []) \<Rightarrow> (if ct_state (tm_cellular tm) = Connected then poll_cellular_into dec tm len now else (tm, []))
                 | (tm, bs) \<Rightarrow> (tm, bs))
      | WifiDirect \<Rightarrow> (case poll_wifi_into dec tm len r of
                   (tm, []) \<Rightarrow> (if ct_state (tm_cellular tm) = Connected then poll_cellular_into dec tm len now else (tm, []))
                 | (tm, bs) \<Rightarrow> (tm, bs))
      | CellularLink \<Rightarrow> (case poll_cellular_into dec tm len now of
                   (tm, []) \<Rightarrow> poll_wifi_into dec tm len r
                 | (tm, bs) \<Rightarrow> (tm, bs))
      | Bluetooth \<Rightarrow> (tm, [])
      | NoTransport \<Rightarrow> (tm, []))"

interpretation bluetooth_queue: fresh_queue pq_inner push pop queue_clear 32 "millis 500" "queue_ok 32 (millis 500)"
  by (rule packet_queue_fresh) simp

section \<open>What is put on the air\<close>

text \<open>The packets one call adds: handed to the multicast socket, or put in the relay's or Bluetooth's queue.\<close>

definition emitted :: "TransportManager \<Rightarrow> TransportManager \<Rightarrow> bytes option \<Rightarrow> bytes set" where
  "emitted tm tm1 on_air =
     set_option on_air \<union>
     fst ` (set (pq_inner (ct_outbound (tm_cellular tm1))) - set (pq_inner (ct_outbound (tm_cellular tm)))) \<union>
     fst ` (set (pq_inner (tm_bluetooth_outbound tm1)) - set (pq_inner (tm_bluetooth_outbound tm)))"

lemma push_subset: "set (pq_inner (push q d t)) \<subseteq> insert (d, t) (set (pq_inner q))"
proof -
  have "set (pq_inner (drop_stale_locked q t)) \<subseteq> set (pq_inner q)"
    using drop_stale_inner [of q t] by (auto dest: in_set_dropD)
  moreover have "set (tl (pq_inner (drop_stale_locked q t))) \<subseteq> set (pq_inner (drop_stale_locked q t))"
    by (cases "pq_inner (drop_stale_locked q t)") auto
  ultimately show ?thesis by (auto simp: push_def push_at_def Let_def)
qed

lemma push_last: "(d, t) \<in> set (pq_inner (push q d t))"
  by (simp add: push_def push_at_def Let_def)

lemma send_relay_fields:
  assumes "send_relay tm payload now = (tm1, ok, e)"
  shows "tm_bluetooth_outbound tm1 = tm_bluetooth_outbound tm" "bluetooth_live tm1 = bluetooth_live tm"
    "tm_crypto tm1 = tm_crypto tm"
    "set (pq_inner (ct_outbound (tm_cellular tm1))) \<subseteq> insert (payload, now) (set (pq_inner (ct_outbound (tm_cellular tm))))"
  using assms push_subset [of "ct_outbound (tm_cellular tm)" payload now]
  by (auto simp: send_relay_def cell_send_audio_def bluetooth_live_def split: if_splits sum.splits)

lemma fan_out_emits:
  assumes "fan_out tm payload now os = (tm1, air, r)"
  shows "emitted tm tm1 air \<subseteq> {payload}"
proof -
  obtain ok e tm2 where relay: "send_relay tm payload now = (tm2, ok, e)" by (cases "send_relay tm payload now")
  note f = send_relay_fields [OF relay]
  have "air \<in> {None, Some payload}" using assms relay
    by (auto simp: fan_out_def send_wifi_def send_bluetooth_def split: if_splits sum.splits)
  moreover have "tm_cellular tm1 = tm_cellular tm2"
    "set (pq_inner (tm_bluetooth_outbound tm1)) \<subseteq> insert (payload, now) (set (pq_inner (tm_bluetooth_outbound tm)))"
    using assms relay f push_subset [of "tm_bluetooth_outbound tm2" payload now]
    by (auto simp: fan_out_def send_bluetooth_def split: prod.splits if_splits)
  ultimately show ?thesis using f(4) by (auto simp: emitted_def)
qed

text \<open>Each live bearer that accepts the packet carries it.\<close>

definition on_relay :: "TransportManager \<Rightarrow> bytes \<Rightarrow> instant \<Rightarrow> bool" where
  "on_relay tm payload now \<longleftrightarrow> (payload, now) \<in> set (pq_inner (ct_outbound (tm_cellular tm)))"

definition on_bluetooth :: "TransportManager \<Rightarrow> bytes \<Rightarrow> instant \<Rightarrow> bool" where
  "on_bluetooth tm payload now \<longleftrightarrow> (payload, now) \<in> set (pq_inner (tm_bluetooth_outbound tm))"

lemma fan_out_delivers:
  assumes f: "fan_out tm payload now os = (tm1, air, r)" and len: "length payload \<le> 1400"
  shows "wifi_live tm \<and> wt_audio_socket (tm_wifi tm) \<and> os = Inr n \<Longrightarrow> air = Some payload \<and> r = Inr (length payload)"
    and "can_transmit_realtime (tm_cellular tm) \<and> \<not> is_outbound_congested (tm_cellular tm) \<Longrightarrow>
      on_relay tm1 payload now \<and> r = Inr (length payload)"
    and "bluetooth_live tm \<Longrightarrow> on_bluetooth tm1 payload now \<and> r = Inr (length payload)"
    and "\<not> has_live_audio_path tm \<Longrightarrow> r = Inl NoActiveTransport \<and> tm1 = tm"
proof -
  obtain ok e tm2 where relay: "send_relay tm payload now = (tm2, ok, e)" by (cases "send_relay tm payload now")
  note s = send_relay_fields [OF relay]
  show "wifi_live tm \<and> wt_audio_socket (tm_wifi tm) \<and> os = Inr n \<Longrightarrow> air = Some payload \<and> r = Inr (length payload)"
    using f len relay by (auto simp: fan_out_def send_wifi_def wifi_send_audio_def WIFI_MAX_PACKET_SIZE_def
        split: if_splits prod.splits)
  show "can_transmit_realtime (tm_cellular tm) \<and> \<not> is_outbound_congested (tm_cellular tm) \<Longrightarrow>
      on_relay tm1 payload now \<and> r = Inr (length payload)"
    using f len push_last by (auto simp: fan_out_def send_relay_def cell_send_audio_def can_transmit_realtime_def
        MAX_PACKET_SIZE_def send_bluetooth_def on_relay_def split: if_splits prod.splits)
  show "bluetooth_live tm \<Longrightarrow> on_bluetooth tm1 payload now \<and> r = Inr (length payload)"
    using f relay s push_last by (auto simp: fan_out_def send_bluetooth_def on_bluetooth_def split: if_splits prod.splits)
  show "\<not> has_live_audio_path tm \<Longrightarrow> r = Inl NoActiveTransport \<and> tm1 = tm"
    using f by (auto simp: fan_out_def has_live_audio_path_def has_live_ip_transport_def send_wifi_def send_relay_def
        send_bluetooth_def split: prod.splits)
qed

section \<open>Properties\<close>

text \<open>
  C16 (safety). No cleartext leaves the device: without a session a send changes nothing, puts nothing on any
  bearer and is refused; with a session, every packet the call hands to the multicast socket or queues for the
  relay or Bluetooth is the AEAD encryption of the frame under the live session key and its next nonce.
\<close>

theorem send_always_encrypted:
  assumes "send enc tm data now os = (tm1, air, r)"
  shows "(tm_crypto tm = None \<longrightarrow> tm1 = tm \<and> air = None \<and> r = Inl EncryptionRequired) \<and>
    (\<forall>s. tm_crypto tm = Some s \<longrightarrow>
       (\<forall>p \<in> emitted tm tm1 air. \<exists>ct. p = nonce_of s (cs_nonce_counter s + 1) @ ct \<and>
          enc (cs_cipher s) (nonce_of s (cs_nonce_counter s + 1)) [] data = Some ct))"
proof (cases "tm_crypto tm")
  case None
  with assms show ?thesis by (simp add: send_def)
next
  case (Some s)
  obtain s1 e where e: "encrypt enc s data = (s1, e)" by (cases "encrypt enc s data")
  show ?thesis
  proof (cases e)
    case (Inl x)
    with assms Some e show ?thesis by (auto simp: send_def emitted_def)
  next
    case (Inr payload)
    then have "fan_out (tm\<lparr>tm_crypto := Some s1\<rparr>) payload now os = (tm1, air, r)" using assms Some e by (simp add: send_def)
    from fan_out_emits [OF this] have "emitted tm tm1 air \<subseteq> {payload}" by (simp add: emitted_def)
    moreover have "\<exists>ct. payload = nonce_of s (cs_nonce_counter s + 1) @ ct \<and>
        enc (cs_cipher s) (nonce_of s (cs_nonce_counter s + 1)) [] data = Some ct"
      using e Inr by (auto simp: encrypt_def next_nonce_def Let_def nonce_of_def split: if_splits option.splits)
    ultimately show ?thesis using Some by auto
  qed
qed

theorem send_always_encrypted_witness:
  "snd (send plain_enc (TransportManager_new []) [1, 2] 0 (Inr 2)) = (None, Inl EncryptionRequired)"
  using send_always_encrypted [of plain_enc "TransportManager_new []" "[1, 2]" 0 "Inr 2"]
  by (simp add: TransportManager_new_def send_def)

text \<open>
  Fan-out: one encryption serves every bearer. When the frame encrypts to at most 1400 bytes, the
  multicast socket carries it if WiFi is active and the system accepts it, the relay queue holds it if the relay
  can transmit and is not congested, the Bluetooth queue holds it if Bluetooth is live; each alone makes the
  send succeed, and with no live path the send fails without touching a bearer.
\<close>

theorem send_fans_out:
  assumes "tm_crypto tm = Some s" "encrypt enc s data = (s1, Inr payload)" "length payload \<le> 1400"
    and "send enc tm data now os = (tm1, air, r)"
  shows "(wifi_live tm \<and> wt_audio_socket (tm_wifi tm) \<and> os = Inr n \<longrightarrow> air = Some payload \<and> r = Inr (length payload)) \<and>
    (can_transmit_realtime (tm_cellular tm) \<and> \<not> is_outbound_congested (tm_cellular tm) \<longrightarrow>
       on_relay tm1 payload now \<and> r = Inr (length payload)) \<and>
    (bluetooth_live tm \<longrightarrow> on_bluetooth tm1 payload now \<and> r = Inr (length payload)) \<and>
    (\<not> has_live_audio_path tm \<longrightarrow> r = Inl NoActiveTransport \<and> tm1 = tm\<lparr>tm_crypto := Some s1\<rparr>)"
proof -
  have f: "fan_out (tm\<lparr>tm_crypto := Some s1\<rparr>) payload now os = (tm1, air, r)" using assms by (simp add: send_def)
  show ?thesis
    using fan_out_delivers [OF f assms(3)]
    by (auto simp: wifi_live_def bluetooth_live_def has_live_audio_path_def has_live_ip_transport_def)
qed

definition demo_manager :: TransportManager where
  "demo_manager = tm_on_bluetooth_connected (set_psk (TransportManager_new []) [7] [0, 0, 0, 0, 0, 0, 0, 0])"

theorem send_fans_out_witness:
  "\<exists>tm1 air r payload. send plain_enc demo_manager [1, 2] 0 (Inr 2) = (tm1, air, r) \<and> on_bluetooth tm1 payload 0 \<and> r = Inr 30"
proof -
  obtain tm1 air r where s: "send plain_enc demo_manager [1, 2] 0 (Inr 2) = (tm1, air, r)" by (metis prod_cases3)
  obtain s1 payload where e: "encrypt plain_enc (from_psk [7] [0, 0, 0, 0, 0, 0, 0, 0]) [1, 2] = (s1, Inr payload)" "length payload = 30"
    by (simp add: encrypt_def next_nonce_def from_psk_def Let_def plain_enc_def)
  have "tm_crypto demo_manager = Some (from_psk [7] [0, 0, 0, 0, 0, 0, 0, 0])" "bluetooth_live demo_manager"
    by (simp_all add: demo_manager_def tm_on_bluetooth_connected_def set_psk_def Let_def bluetooth_live_def)
  with send_fans_out [OF _ e(1) _ s] e(2) s show ?thesis by fastforce
qed



text \<open>
  Disconnecting does not forget a staged session: the live session is dropped and the device reports
  itself as not encrypted, but the next packet that is authentic under the staged key is decrypted and makes
  that key the live transmit key again.
\<close>

theorem disconnect_keeps_staged_key:
  assumes "tm_pending_rx tm = Some p" "session_ok p" "authentic dec (cs_cipher p) data = Some pt"
    and "take 12 data \<notin> set (seen_order p)"
  shows "\<not> is_encrypted (tm_disconnect tm) \<and> snd (decrypt_raw dec (tm_disconnect tm) data) = Inr pt \<and>
    map_option cs_cipher (tm_crypto (fst (decrypt_raw dec (tm_disconnect tm) data))) = Some (cs_cipher p)"
proof -
  have "fst (note_nonce (take 12 data) p)" using replay.acc_iff [OF assms(2)] assms(4) by simp
  with assms(1,3) show ?thesis
    by (simp add: is_encrypted_def tm_disconnect_def decrypt_raw_def decrypt_live_or_pending_def decrypt_pending_def decrypt_cases)
qed

theorem disconnect_keeps_staged_key_witness:
  "snd (decrypt_raw plain_dec (tm_disconnect (arm_pending_rx (TransportManager_new []) (from_psk [] [0, 0, 0, 0, 0, 0, 0, 0]))) (replicate 28 0)) = Inr []"
proof -
  have "authentic plain_dec [] (replicate 28 0) = Some []"
    by (simp add: authentic_def plain_dec_def plain_tag_def numeral_eq_Suc)
  then show ?thesis
    using disconnect_keeps_staged_key [of "arm_pending_rx (TransportManager_new []) (from_psk [] [0, 0, 0, 0, 0, 0, 0, 0])"
        "from_psk [] [0, 0, 0, 0, 0, 0, 0, 0]" plain_dec "replicate 28 0" "[]"]
    by (simp add: arm_pending_rx_def from_psk_def session_ok_def window_ok_def new_replay_window_def seen_order_def)
qed

text \<open>
  The bearer reported as active is one that can transmit now: it is none exactly when no path is
  live, it is the preferred one whenever that is live, and otherwise relay, WiFi and Bluetooth in that order.
\<close>

theorem active_transport_live:
  "(live_transport tm = NoTransport \<longleftrightarrow> \<not> has_live_audio_path tm) \<and>
   (live_transport tm = CellularLink \<longrightarrow> can_transmit_realtime (tm_cellular tm)) \<and>
   (live_transport tm \<in> {Wifi, WifiDirect} \<longrightarrow> wifi_live tm) \<and>
   (live_transport tm = Bluetooth \<longrightarrow> bluetooth_live tm) \<and>
   (tm_preferred tm = CellularLink \<and> can_transmit_realtime (tm_cellular tm) \<or>
    tm_preferred tm \<in> {Wifi, WifiDirect} \<and> wifi_live tm \<or>
    tm_preferred tm = Bluetooth \<and> bluetooth_live tm \<longrightarrow> live_transport tm = tm_preferred tm) \<and>
   (live_transport tm \<noteq> tm_preferred tm \<and> live_transport tm = Bluetooth \<longrightarrow> \<not> has_live_ip_transport tm)"
  by (auto simp: live_transport_def has_live_audio_path_def has_live_ip_transport_def)

theorem active_transport_live_witness:
  "bluetooth_live demo_manager \<and> live_transport demo_manager = Bluetooth"
proof -
  have "live_transport demo_manager = Bluetooth"
    by (simp add: live_transport_def demo_manager_def tm_on_bluetooth_connected_def set_psk_def TransportManager_new_def
        Let_def bluetooth_live_def)
  with active_transport_live [of demo_manager] show ?thesis by blast
qed

end
