(* ===== verification/Rx_Decode.thy ===== *)
theory Rx_Decode
  imports Talk_Prelude
begin

text \<open>
  The pre-decode reorder buffer of the Android receive path (\<open>SenderDecodeState\<close> in
  \<open>android-native/src/audio_pipeline.rs\<close>): frames of one sender are decoded in sequence order, small losses are
  concealed, large ones resynchronise. The Opus decoder is a parameter: a state with its four operations. The
  instant of a call is an argument, one per call. The drain loop is a total function with a termination proof.
\<close>

section \<open>Ordered maps\<close>

text \<open>A \<open>BTreeMap\<close>: an association list kept in key order.\<close>

fun bt_insert :: "'k::linorder \<Rightarrow> 'v \<Rightarrow> ('k \<times> 'v) list \<Rightarrow> ('k \<times> 'v) list" where
  "bt_insert k v [] = [(k, v)]"
| "bt_insert k v ((k', v') # m) =
     (if k < k' then (k, v) # (k', v') # m else if k = k' then (k, v) # m else (k', v') # bt_insert k v m)"

definition bt_remove :: "'k \<Rightarrow> ('k \<times> 'v) list \<Rightarrow> ('k \<times> 'v) list" where
  "bt_remove k m = filter (\<lambda>e. fst e \<noteq> k) m"

definition bt_wf :: "('k::linorder \<times> 'v) list \<Rightarrow> bool" where
  "bt_wf m \<longleftrightarrow> sorted_wrt (<) (map fst m)"

lemma keys_bt_insert: "fst ` set (bt_insert k v m) = insert k (fst ` set m)"
  by (induction m rule: bt_insert.induct) auto

lemma bt_wf_insert: "bt_wf m \<Longrightarrow> bt_wf (bt_insert k v m)"
proof (induction k v m rule: bt_insert.induct)
  case (2 k v k' v' m)
  then have tl: "bt_wf m" "\<forall>x \<in> fst ` set m. k' < x" by (simp_all add: bt_wf_def)
  then have "\<forall>x \<in> fst ` set (bt_insert k v m). k' < x" if "k' < k" using that by (simp add: keys_bt_insert)
  with 2 tl show ?case by (auto simp: bt_wf_def)
qed (simp add: bt_wf_def)

lemma length_bt_insert: "length (bt_insert k v m) \<le> Suc (length m)"
  by (induction m rule: bt_insert.induct) auto

lemma bt_wf_remove: "bt_wf m \<Longrightarrow> bt_wf (bt_remove k m)"
  by (induction m) (auto simp: bt_wf_def bt_remove_def)

lemma bt_wf_tl: "bt_wf m \<Longrightarrow> bt_wf (tl m)"
  by (cases m) (simp_all add: bt_wf_def)

lemma length_bt_remove: "map_of m k = Some v \<Longrightarrow> length (bt_remove k m) < length m"
  unfolding bt_remove_def by (rule length_filter_less [of "(k, v)"]) (auto dest: map_of_SomeD)

section \<open>Model\<close>

type_synonym pcm = "i16 list"

record 'd voice_decoder =
  vd_new :: 'd
  vd_decode :: "'d \<Rightarrow> bytes \<Rightarrow> 'd \<times> pcm"
  vd_decode_fec_from_next :: "'d \<Rightarrow> bytes \<Rightarrow> 'd \<times> pcm"
  vd_decode_plc :: "'d \<Rightarrow> 'd \<times> pcm"
  vd_reset :: "'d \<Rightarrow> 'd"

record 'd SenderDecodeState =
  sd_decoder :: 'd
  sd_stream_epoch :: "u64 option"
  sd_last_decoded_seq :: "u32 option"
  sd_pending :: "(u32 \<times> u64 \<times> bytes) list"
  sd_reorder_wait_since :: "instant option"

type_synonym decoded = "u64 \<times> u32 \<times> u64 \<times> pcm"

definition RX_FRAME_PERIOD_MS :: nat where "RX_FRAME_PERIOD_MS = 20"
definition RX_MAX_PLC_FRAMES :: nat where "RX_MAX_PLC_FRAMES = 5"
definition RX_REORDER_WAIT_MS :: nat where "RX_REORDER_WAIT_MS = 60"
definition MAX_PENDING :: nat where "MAX_PENDING = 32"

definition SenderDecodeState_new :: "'d voice_decoder \<Rightarrow> 'd SenderDecodeState" where
  "SenderDecodeState_new vd =
     \<lparr>sd_decoder = vd_new vd, sd_stream_epoch = None, sd_last_decoded_seq = None, sd_pending = [],
      sd_reorder_wait_since = None\<rparr>"

definition reset_for_epoch :: "'d voice_decoder \<Rightarrow> u64 \<Rightarrow> 'd SenderDecodeState \<Rightarrow> 'd SenderDecodeState" where
  "reset_for_epoch vd epoch st =
     st\<lparr>sd_decoder := vd_reset vd (sd_decoder st), sd_stream_epoch := Some epoch, sd_last_decoded_seq := None,
        sd_pending := [], sd_reorder_wait_since := None\<rparr>"

definition epoch_of :: "'d SenderDecodeState \<Rightarrow> u64" where
  "epoch_of st = (case sd_stream_epoch st of Some e \<Rightarrow> e | None \<Rightarrow> 0)"

definition expected_seq :: "'d SenderDecodeState \<Rightarrow> u32 option" where
  "expected_seq st =
     (case sd_last_decoded_seq st of
        Some l \<Rightarrow> Some (sat_add l 1)
      | None \<Rightarrow> (case sd_pending st of [] \<Rightarrow> None | (s, _) # _ \<Rightarrow> Some s))"

text \<open>The concealment loop, from index \<open>i\<close> for \<open>n\<close> more frames of a gap of \<open>gap\<close>.\<close>

fun conceal :: "'d voice_decoder \<Rightarrow> u32 \<Rightarrow> nat \<Rightarrow> u64 \<Rightarrow> nat \<Rightarrow> nat \<Rightarrow> 'd SenderDecodeState \<Rightarrow> 'd SenderDecodeState \<times> decoded list" where
  "conceal vd expected gap next_ts i 0 st = (st, [])"
| "conceal vd expected gap next_ts i (Suc n) st =
     (let synth_seq = sat_add expected (word_of_nat i);
          synth_ts = sat_sub next_ts (word_of_nat ((gap - i) * RX_FRAME_PERIOD_MS));
          (d, plc_pcm) = vd_decode_plc vd (sd_decoder st);
          st = st\<lparr>sd_decoder := d, sd_last_decoded_seq := Some synth_seq\<rparr>;
          (st, out) = conceal vd expected gap next_ts (Suc i) n st
      in (st, (epoch_of st, synth_seq, synth_ts, plc_pcm) # out))"

text \<open>The missing-frame branch, for a gap before \<open>earliest\<close>.\<close>

definition fill_gap ::
  "'d voice_decoder \<Rightarrow> nat \<Rightarrow> u32 \<Rightarrow> u32 \<Rightarrow> u64 \<Rightarrow> bytes \<Rightarrow> 'd SenderDecodeState \<Rightarrow> 'd SenderDecodeState \<times> decoded list" where
  "fill_gap vd max_plc expected earliest next_ts next_pkt st =
     (let gap = unat (earliest - expected)
      in if gap = 1
         then (let (d, fec_pcm) = vd_decode_fec_from_next vd (sd_decoder st) next_pkt
               in (st\<lparr>sd_decoder := d, sd_last_decoded_seq := Some expected\<rparr>,
                   [(epoch_of st, expected, sat_sub next_ts (word_of_nat RX_FRAME_PERIOD_MS), fec_pcm)]))
         else if gap \<le> max_plc then conceal vd expected gap next_ts 0 gap st
         else (st\<lparr>sd_decoder := vd_reset vd (sd_decoder st), sd_last_decoded_seq := None\<rparr>, []))"

text \<open>One turn of the loop: the new state, what it outputs, and whether the loop goes on.\<close>

definition drain_turn ::
  "'d voice_decoder \<Rightarrow> nat \<Rightarrow> nat \<Rightarrow> instant \<Rightarrow> 'd SenderDecodeState \<Rightarrow> 'd SenderDecodeState \<times> decoded list \<times> bool" where
  "drain_turn vd max_plc wait_ms now st =
     (case expected_seq st of
        None \<Rightarrow> (st, [], False)
      | Some expected \<Rightarrow>
          (case map_of (sd_pending st) expected of
             Some (timestamp, compressed) \<Rightarrow>
               (let (d, samples) = vd_decode vd (sd_decoder st) compressed
                in (st\<lparr>sd_pending := bt_remove expected (sd_pending st), sd_reorder_wait_since := None,
                       sd_decoder := d, sd_last_decoded_seq := Some expected\<rparr>,
                    [(epoch_of st, expected, timestamp, samples)], True))
           | None \<Rightarrow>
               (case sd_pending st of
                  [] \<Rightarrow> (st, [], False)
                | (earliest, next_ts, next_pkt) # _ \<Rightarrow>
                    if earliest \<le> expected then (st, [], False)
                    else (let wait_start = (case sd_reorder_wait_since st of Some w \<Rightarrow> w | None \<Rightarrow> now)
                          in if now - wait_start < millis wait_ms
                             then (st\<lparr>sd_reorder_wait_since := Some wait_start\<rparr>, [], False)
                             else (case fill_gap vd max_plc expected earliest next_ts next_pkt
                                          (st\<lparr>sd_reorder_wait_since := None\<rparr>) of
                                     (st, out) \<Rightarrow> (st, out, True))))))"

section \<open>Termination of the drain loop\<close>

lemma word_gap:
  fixes e x :: u32
  assumes "x < e"
  shows "unat e = unat x + unat (e - x)" "0 < unat (e - x)"
  using assms by (simp_all add: unat_sub word_less_nat_alt less_imp_le word_le_nat_alt)

lemma unat_plus_small: "unat x + n < 2 ^ 32 \<Longrightarrow> unat (x + word_of_nat n) = unat x + n" for x :: u32
  by (simp add: unat_word_ariths unat_of_nat)

lemma sat_add_small: "unat x + n < 2 ^ 32 \<Longrightarrow> unat (sat_add x (word_of_nat n)) = unat x + n" for x :: u32
proof -
  assume a: "unat x + n < 2 ^ 32"
  then have "unat (word_of_nat n :: u32) = n" by (simp add: unat_of_nat)
  with a show ?thesis by (simp add: unat_sat_add)
qed

lemma conceal_fields:
  "conceal vd expected gap next_ts i n st = (st1, out) \<Longrightarrow>
     sd_pending st1 = sd_pending st \<and> sd_stream_epoch st1 = sd_stream_epoch st \<and>
     sd_reorder_wait_since st1 = sd_reorder_wait_since st \<and>
     sd_last_decoded_seq st1 = (if n = 0 then sd_last_decoded_seq st else Some (sat_add expected (word_of_nat (i + n - 1)))) \<and>
     map (\<lambda>(e, s, _, _). (e, s)) out = map (\<lambda>j. (epoch_of st, sat_add expected (word_of_nat j))) [i..<i + n]"
proof (induction n arbitrary: i st st1 out)
  case (Suc n)
  obtain d p where d: "vd_decode_plc vd (sd_decoder st) = (d, p)" by (cases "vd_decode_plc vd (sd_decoder st)")
  define st0 where "st0 = st\<lparr>sd_decoder := d, sd_last_decoded_seq := Some (sat_add expected (word_of_nat i))\<rparr>"
  obtain st2 out2 where r: "conceal vd expected gap next_ts (Suc i) n st0 = (st2, out2)"
    by (cases "conceal vd expected gap next_ts (Suc i) n st0")
  have "st1 = st2" "out = (epoch_of st2, sat_add expected (word_of_nat i),
      sat_sub next_ts (word_of_nat ((gap - i) * RX_FRAME_PERIOD_MS)), p) # out2"
    using Suc.prems d r by (auto simp: Let_def st0_def)
  moreover have "[i..<i + Suc n] = i # [Suc i..<Suc i + n]" by (simp add: upt_conv_Cons del: upt_Suc)
  ultimately show ?case using Suc.IH [OF r] by (simp add: epoch_of_def st0_def del: upt_Suc)
qed simp

text \<open>After a gap is filled, the earliest frame waiting is the expected one.\<close>

lemma fill_gap_expected:
  assumes "fill_gap vd max_plc expected earliest next_ts next_pkt st = (st1, out)" "expected < earliest"
    and "sd_pending st = (earliest, p) # rest"
  shows "expected_seq st1 = Some earliest" "sd_pending st1 = sd_pending st" "sd_reorder_wait_since st1 = sd_reorder_wait_since st"
    "sd_stream_epoch st1 = sd_stream_epoch st"
proof -
  define gap where "gap = unat (earliest - expected)"
  have gap: "unat earliest = unat expected + gap" "0 < gap" using word_gap [OF assms(2)] by (simp_all add: gap_def)
  have bound: "unat earliest < 2 ^ 32" using unat_bound [of earliest] by simp
  have next1: "sat_add expected 1 = earliest" if "gap = 1"
  proof -
    have "unat (sat_add expected 1) = unat earliest" using sat_add_small [of expected 1] gap that bound by simp
    then show ?thesis by (simp add: word_unat_eq_iff)
  qed
  have next2: "sat_add (sat_add expected (word_of_nat (gap - 1))) 1 = earliest"
  proof -
    have a: "unat (sat_add expected (word_of_nat (gap - 1))) = unat expected + (gap - 1)"
      using gap bound by (intro sat_add_small) simp
    have "unat (sat_add (sat_add expected (word_of_nat (gap - 1))) 1) = unat earliest"
      using sat_add_small [of "sat_add expected (word_of_nat (gap - 1))" 1] gap a bound by simp
    then show ?thesis by (simp add: word_unat_eq_iff)
  qed
  show "expected_seq st1 = Some earliest" "sd_pending st1 = sd_pending st"
    "sd_reorder_wait_since st1 = sd_reorder_wait_since st" "sd_stream_epoch st1 = sd_stream_epoch st"
    using assms(1,3) gap(2) next1 next2 conceal_fields [of vd expected gap next_ts 0 gap st st1 out]
    by (auto simp: fill_gap_def Let_def expected_seq_def gap_def [symmetric] split: if_splits prod.splits)
qed

definition drain_measure :: "'d SenderDecodeState \<Rightarrow> nat" where
  "drain_measure st = 2 * length (sd_pending st) +
     (case expected_seq st of Some e \<Rightarrow> if map_of (sd_pending st) e = None then 1 else 0 | None \<Rightarrow> 0)"

lemma drain_turn_decreases:
  assumes "drain_turn vd max_plc wait_ms now st = (st1, out, True)"
  shows "drain_measure st1 < drain_measure st"
proof -
  obtain expected where e: "expected_seq st = Some expected" using assms by (auto simp: drain_turn_def split: option.splits)
  show ?thesis
  proof (cases "map_of (sd_pending st) expected")
    case (Some p)
    have "sd_pending st1 = bt_remove expected (sd_pending st)"
      using assms e Some by (auto simp: drain_turn_def Let_def split: prod.splits)
    then have "length (sd_pending st1) < length (sd_pending st)" using length_bt_remove [OF Some] by simp
    with Some e show ?thesis by (auto simp: drain_measure_def split: option.split)
  next
    case None
    obtain earliest ts pkt rest where p: "sd_pending st = (earliest, ts, pkt) # rest" "expected < earliest"
      "fill_gap vd max_plc expected earliest ts pkt (st\<lparr>sd_reorder_wait_since := None\<rparr>) = (st1, out)"
      using assms e None by (auto simp: drain_turn_def Let_def not_le split: list.splits if_splits prod.splits)
    from fill_gap_expected [OF p(3,2)] p(1) have "expected_seq st1 = Some earliest" "sd_pending st1 = sd_pending st" by auto
    with p(1) e None show ?thesis by (simp add: drain_measure_def)
  qed
qed

function drain_decodable ::
  "'d voice_decoder \<Rightarrow> nat \<Rightarrow> nat \<Rightarrow> instant \<Rightarrow> 'd SenderDecodeState \<Rightarrow> 'd SenderDecodeState \<times> decoded list" where
  "drain_decodable vd max_plc wait_ms now st =
     (case drain_turn vd max_plc wait_ms now st of
        (st1, out, False) \<Rightarrow> (st1, out)
      | (st1, out, True) \<Rightarrow> (case drain_decodable vd max_plc wait_ms now st1 of (st2, out2) \<Rightarrow> (st2, out @ out2)))"
  by auto
termination
  by (relation "measure (\<lambda>(vd, max_plc, wait_ms, now, st). drain_measure st)") (auto intro: drain_turn_decreases [OF sym])

declare drain_decodable.simps [simp del]

definition ingest ::
  "'d voice_decoder \<Rightarrow> u64 \<Rightarrow> u32 \<Rightarrow> u64 \<Rightarrow> bytes \<Rightarrow> nat \<Rightarrow> nat \<Rightarrow> instant \<Rightarrow> 'd SenderDecodeState \<Rightarrow>
   'd SenderDecodeState \<times> decoded list" where
  "ingest vd stream_epoch sequence timestamp compressed max_plc wait_ms now st =
     (let fresh = (if sd_stream_epoch st \<noteq> Some stream_epoch then Some (reset_for_epoch vd stream_epoch st)
                   else (case sd_last_decoded_seq st of
                           Some l \<Rightarrow> if sequence \<le> l
                                     then (if 32 < sat_sub l sequence then Some (reset_for_epoch vd stream_epoch st) else None)
                                     else Some st
                         | None \<Rightarrow> Some st))
      in case fresh of
           None \<Rightarrow> (st, [])
         | Some st \<Rightarrow>
             (let st = (if MAX_PENDING \<le> length (sd_pending st) then st\<lparr>sd_pending := tl (sd_pending st)\<rparr> else st);
                  st = st\<lparr>sd_pending := bt_insert sequence (timestamp, compressed) (sd_pending st)\<rparr>
              in drain_decodable vd max_plc wait_ms now st))"

section \<open>Order\<close>

lemma uint_sat_add: "uint x + int n < 2 ^ 32 \<Longrightarrow> uint (sat_add x (word_of_nat n)) = uint x + int n" for x :: u32
proof -
  assume "uint x + int n < 2 ^ 32"
  then have "int (unat x + n) < int (2 ^ 32)" by simp
  then have "unat x + n < 2 ^ 32" by (simp only: of_nat_less_iff)
  then have "int (unat (sat_add x (word_of_nat n))) = int (unat x + n)" by (simp only: sat_add_small)
  then show ?thesis by simp
qed

definition seqs :: "decoded list \<Rightarrow> int list" where
  "seqs out = map (\<lambda>d. uint (fst (snd d))) out"

lemma seqs_simps [simp]: "seqs [] = []" "seqs (d # out) = uint (fst (snd d)) # seqs out" "seqs (xs @ ys) = seqs xs @ seqs ys"
  by (simp_all add: seqs_def)

text \<open>
  Within one epoch: every waiting frame lies above \<open>b\<close>, the last sequence number output, and at most at \<open>m\<close>, the
  highest that arrived.
\<close>

definition rx_inv :: "u64 \<Rightarrow> int \<Rightarrow> int \<Rightarrow> 'd SenderDecodeState \<Rightarrow> bool" where
  "rx_inv e b m st \<longleftrightarrow>
     sd_stream_epoch st = Some e \<and> bt_wf (sd_pending st) \<and> length (sd_pending st) \<le> MAX_PENDING \<and>
     (\<forall>k \<in> fst ` set (sd_pending st). b < uint k \<and> uint k \<le> m) \<and>
     (\<forall>l. sd_last_decoded_seq st = Some l \<longrightarrow> uint l = b) \<and> b \<le> m"

text \<open>One turn outputs increasing numbers above \<open>b\<close>, all of the epoch, and restores the invariant above them.\<close>

definition in_epoch :: "u64 \<Rightarrow> decoded list \<Rightarrow> bool" where
  "in_epoch e out \<longleftrightarrow> (\<forall>d \<in> set out. fst d = e)"

lemma bt_wf_first: "bt_wf ((k, v) # m) \<Longrightarrow> k' \<in> fst ` set m \<Longrightarrow> k < k'"
  by (auto simp: bt_wf_def)

lemma map_of_key: "map_of m k = Some v \<Longrightarrow> k \<in> fst ` set m"
  by (force dest: map_of_SomeD)

lemma expected_above:
  assumes "rx_inv e b m st" "expected_seq st = Some x" "k \<in> fst ` set (sd_pending st)"
  shows "x \<le> k" "b < uint x"
proof (atomize (full), cases "sd_last_decoded_seq st")
  case None
  then show "x \<le> k \<and> b < uint x"
    using assms by (cases "sd_pending st") (auto simp: rx_inv_def expected_seq_def dest: bt_wf_first less_imp_le)
next
  case (Some l)
  have l: "uint l = b" "b < uint k" using assms(1,3) Some by (auto simp: rx_inv_def)
  have x: "x = sat_add l 1" using assms(2) Some by (simp add: expected_seq_def)
  have "uint l + 1 < 2 ^ 32" using l uint_lt2p [of k] by simp
  then have "uint x = uint l + 1" using uint_sat_add [of l 1] x by simp
  with l show "x \<le> k \<and> b < uint x" by (simp add: word_le_def)
qed

lemma turn_decode:
  assumes inv: "rx_inv e b m st" and x: "expected_seq st = Some x" "map_of (sd_pending st) x = Some v"
    and st1: "sd_stream_epoch st1 = sd_stream_epoch st" "sd_pending st1 = bt_remove x (sd_pending st)" "sd_last_decoded_seq st1 = Some x"
  shows "rx_inv e (uint x) m st1 \<and> b < uint x"
proof -
  have k: "x \<in> fst ` set (sd_pending st)" using x(2) by (rule map_of_key)
  have "uint x < uint k'" if "k' \<in> fst ` set (bt_remove x (sd_pending st))" for k'
  proof -
    have "k' \<in> fst ` set (sd_pending st)" "k' \<noteq> x" using that by (auto simp: bt_remove_def)
    with expected_above(1) [OF inv x(1), of k'] show ?thesis by (simp add: word_le_def word_uint_eq_iff)
  qed
  moreover have "length (bt_remove x (sd_pending st)) \<le> MAX_PENDING"
    using inv length_bt_remove [OF x(2)] by (simp add: rx_inv_def)
  ultimately show ?thesis
    using inv st1 k expected_above(2) [OF inv x(1) k] bt_wf_remove by (auto simp: rx_inv_def bt_remove_def)
qed

text \<open>What filling a gap outputs: nothing, or the numbers from the expected one up to the frame waiting.\<close>

lemma fill_gap_seqs:
  assumes "fill_gap vd max_plc x earliest next_ts next_pkt st = (st1, out)" "x < earliest"
  shows "(out = [] \<and> sd_last_decoded_seq st1 = None) \<or>
    (seqs out = map (\<lambda>j. uint x + int j) [0..<unat (earliest - x)] \<and>
     (\<exists>l. sd_last_decoded_seq st1 = Some l \<and> uint l = uint earliest - 1) \<and> in_epoch (epoch_of st) out)"
proof -
  define gap where "gap = unat (earliest - x)"
  have gap: "unat earliest = unat x + gap" "0 < gap" using word_gap [OF assms(2)] by (simp_all add: gap_def)
  then have ge: "uint earliest = uint x + int gap" by (metis of_nat_add uint_nat)
  have small: "uint (sat_add x (word_of_nat j)) = uint x + int j" if "j < gap" for j
    using that ge uint_lt2p [of earliest] by (intro uint_sat_add) simp
  show ?thesis
  proof (cases "gap = 1")
    case True
    with assms(1) ge show ?thesis by (auto simp: fill_gap_def gap_def [symmetric] in_epoch_def split: prod.splits)
  next
    case ne: False
    show ?thesis
    proof (cases "gap \<le> max_plc")
      case False
      with ne assms(1) show ?thesis by (auto simp: fill_gap_def gap_def [symmetric])
    next
      case True
      with ne assms(1) have "conceal vd x gap next_ts 0 gap st = (st1, out)" by (simp add: fill_gap_def gap_def [symmetric])
      from conceal_fields [OF this] gap(2) have c: "sd_last_decoded_seq st1 = Some (sat_add x (word_of_nat (gap - 1)))"
        "map (\<lambda>(e, s, _, _). (e, s)) out = map (\<lambda>j. (epoch_of st, sat_add x (word_of_nat j))) [0..<gap]" by simp_all
      have "seqs out = map (uint \<circ> snd) (map (\<lambda>(e, s, _, _). (e, s)) out)"
        "map fst out = map fst (map (\<lambda>(e, s, _, _). (e, s)) out)" by (simp_all add: seqs_def case_prod_beta)
      then have "seqs out = map (\<lambda>j. uint x + int j) [0..<gap]" "map fst out = map (\<lambda>_. epoch_of st) [0..<gap]"
        unfolding c(2) by (simp_all add: small)
      moreover have "uint (sat_add x (word_of_nat (gap - 1))) = uint earliest - 1"
        using small [of "gap - 1"] gap(2) ge by simp
      moreover have "in_epoch (epoch_of st) out"
        using calculation(2) by (metis (no_types, lifting) in_epoch_def in_set_conv_nth length_map nth_map)
      ultimately show ?thesis using c(1) gap_def by blast
    qed
  qed
qed

lemma turn_spec:
  assumes inv: "rx_inv e b m st" and turn: "drain_turn vd max_plc wait_ms now st = (st1, out, c)"
  shows "rx_inv e (last (b # seqs out)) m st1 \<and> sorted_wrt (<) (b # seqs out) \<and> in_epoch e out"
proof -
  have ep: "epoch_of st = e" using inv by (simp add: rx_inv_def epoch_of_def)
  have stop: ?thesis if "out = []" "sd_stream_epoch st1 = sd_stream_epoch st" "sd_pending st1 = sd_pending st"
      "sd_last_decoded_seq st1 = sd_last_decoded_seq st"
    using inv that by (simp add: rx_inv_def in_epoch_def)
  show ?thesis
  proof (cases "expected_seq st")
    case None
    with turn stop show ?thesis by (simp add: drain_turn_def)
  next
    case x: (Some x)
    show ?thesis
    proof (cases "map_of (sd_pending st) x")
      case (Some v)
      then have "out = [(epoch_of st, x, fst v, snd (vd_decode vd (sd_decoder st) (snd v)))]"
        "sd_stream_epoch st1 = sd_stream_epoch st" "sd_pending st1 = bt_remove x (sd_pending st)" "sd_last_decoded_seq st1 = Some x"
        using turn x by (auto simp: drain_turn_def Let_def split: prod.splits)
      with turn_decode [OF inv x Some, of st1] ep show ?thesis by (simp add: in_epoch_def)
    next
      case miss: None
      show ?thesis
      proof (cases "\<exists>earliest ts pkt rest. sd_pending st = (earliest, ts, pkt) # rest \<and> x < earliest \<and>
          fill_gap vd max_plc x earliest ts pkt (st\<lparr>sd_reorder_wait_since := None\<rparr>) = (st1, out)")
        case False
        with turn x miss have "out = [] \<and> sd_stream_epoch st1 = sd_stream_epoch st \<and> sd_pending st1 = sd_pending st \<and>
            sd_last_decoded_seq st1 = sd_last_decoded_seq st"
          by (auto simp: drain_turn_def Let_def not_le split: list.splits if_splits prod.splits)
        with stop show ?thesis by blast
      next
        case True
        then obtain earliest ts pkt rest where p: "sd_pending st = (earliest, ts, pkt) # rest" "x < earliest"
          and f: "fill_gap vd max_plc x earliest ts pkt (st\<lparr>sd_reorder_wait_since := None\<rparr>) = (st1, out)" by blast
        have st1: "sd_pending st1 = sd_pending st" "sd_stream_epoch st1 = sd_stream_epoch st"
          using fill_gap_expected(2,4) [OF f p(2)] p(1) by simp_all
        have k: "earliest \<in> fst ` set (sd_pending st)" "\<forall>k \<in> fst ` set (sd_pending st). uint earliest \<le> uint k"
          using inv p(1) by (auto simp: rx_inv_def dest!: bt_wf_first simp: word_less_def)
        note b = expected_above(2) [OF inv x k(1)]
        from fill_gap_seqs [OF f p(2)] show ?thesis
        proof (elim disjE conjE exE)
          assume "out = []" "sd_last_decoded_seq st1 = None"
          with inv st1 show ?thesis by (simp add: rx_inv_def in_epoch_def)
        next
          fix l
          assume s: "seqs out = map (\<lambda>j. uint x + int j) [0..<unat (earliest - x)]" and l: "sd_last_decoded_seq st1 = Some l"
            "uint l = uint earliest - 1" and ie: "in_epoch (epoch_of (st\<lparr>sd_reorder_wait_since := None\<rparr>)) out"
          have g: "uint earliest = uint x + int (unat (earliest - x))" "0 < unat (earliest - x)"
            using word_gap [OF p(2)] by (metis of_nat_add uint_nat, simp)
          have lst: "last (b # seqs out) = uint earliest - 1" using g by (simp add: s last_map)
          have "sorted_wrt (<) (seqs out)" by (simp add: s sorted_wrt_map sorted_wrt_iff_nth_less)
          with b have srt: "sorted_wrt (<) (b # seqs out)" by (auto simp: s)
          have "uint earliest - 1 \<le> m" using inv k(1) by (auto simp: rx_inv_def)
          with inv st1 l k have "rx_inv e (uint earliest - 1) m st1" by (fastforce simp: rx_inv_def)
          with lst srt ie ep show ?thesis by (simp add: epoch_of_def)
        qed
      qed
    qed
  qed
qed

lemma last_Cons_append: "last (b # xs @ ys) = last (last (b # xs) # ys)"
  by (cases ys) (simp_all add: last_append)

lemma sorted_wrt_chain:
  fixes b :: int
  assumes "sorted_wrt (<) (b # xs)" "sorted_wrt (<) (last (b # xs) # ys)"
  shows "sorted_wrt (<) (b # xs @ ys)"
  using assms
proof (induction xs arbitrary: b)
  case (Cons x xs)
  have "sorted_wrt (<) (x # xs @ ys)" using Cons.prems by (intro Cons.IH) simp_all
  moreover have "b < x" using Cons.prems(1) by simp
  ultimately show ?case by (auto intro: less_trans)
qed simp

lemma drain_spec:
  assumes "rx_inv e b m st" "drain_decodable vd max_plc wait_ms now st = (st1, out)"
  shows "rx_inv e (last (b # seqs out)) m st1 \<and> sorted_wrt (<) (b # seqs out) \<and> in_epoch e out"
  using assms
proof (induction vd max_plc wait_ms now st arbitrary: b st1 out rule: drain_decodable.induct)
  case (1 vd max_plc wait_ms now st)
  obtain st2 out2 c where turn: "drain_turn vd max_plc wait_ms now st = (st2, out2, c)" by (metis prod_cases3)
  note t = turn_spec [OF 1(2) turn]
  show ?case
  proof (cases c)
    case False
    with 1(3) turn t show ?thesis by (simp add: drain_decodable.simps [of vd max_plc wait_ms now st])
  next
    case True
    obtain st3 out3 where d: "drain_decodable vd max_plc wait_ms now st2 = (st3, out3)"
      by (cases "drain_decodable vd max_plc wait_ms now st2")
    have eq: "st1 = st3" "out = out2 @ out3"
      using 1(3) turn True d by (simp_all add: drain_decodable.simps [of vd max_plc wait_ms now st])
    have "rx_inv e (last (last (b # seqs out2) # seqs out3)) m st3 \<and> sorted_wrt (<) (last (b # seqs out2) # seqs out3) \<and> in_epoch e out3"
      using 1(1) [OF turn [symmetric] refl] True t d by blast
    with t show ?thesis
      unfolding eq seqs_simps last_Cons_append using sorted_wrt_chain [of b "seqs out2" "seqs out3"] by (auto simp: in_epoch_def)
  qed
qed

text \<open>A drain that has anything to work on ends with a frame decoded; it never adds frames.\<close>

lemma turn_pending: "drain_turn vd max_plc wait_ms now st = (st1, out, c) \<Longrightarrow> length (sd_pending st1) \<le> length (sd_pending st)"
proof -
  assume turn: "drain_turn vd max_plc wait_ms now st = (st1, out, c)"
  have "length (sd_pending st1) \<le> length (sd_pending st)"
    if "fill_gap vd max_plc x earliest ts pkt (st\<lparr>sd_reorder_wait_since := None\<rparr>) = (st1, out)" "x < earliest"
      "sd_pending st = (earliest, ts, pkt) # rest" for x earliest ts pkt rest
    using fill_gap_expected(2) [OF that(1,2)] that(3) by simp
  with turn show ?thesis
    by (auto simp: drain_turn_def Let_def not_le bt_remove_def split: option.splits list.splits if_splits prod.splits)
qed

lemma drain_pending: "length (sd_pending (fst (drain_decodable vd max_plc wait_ms now st))) \<le> length (sd_pending st)"
proof (induction vd max_plc wait_ms now st rule: drain_decodable.induct)
  case (1 vd max_plc wait_ms now st)
  obtain st2 out2 c where turn: "drain_turn vd max_plc wait_ms now st = (st2, out2, c)" by (metis prod_cases3)
  with 1 [OF turn [symmetric] refl] turn_pending [OF turn] show ?case
    by (cases c) (auto simp: drain_decodable.simps [of vd max_plc wait_ms now st] prod.case_eq_if)
qed

definition decodable :: "'d SenderDecodeState \<Rightarrow> bool" where
  "decodable st \<longleftrightarrow> sd_last_decoded_seq st \<noteq> None \<or> sd_pending st \<noteq> []"

lemma turn_decodable:
  assumes "drain_turn vd max_plc wait_ms now st = (st1, out, c)" "decodable st"
  shows "decodable st1 \<and> (\<not> c \<longrightarrow> sd_last_decoded_seq st1 \<noteq> None)"
proof -
  obtain x where x: "expected_seq st = Some x"
    using assms(2) by (cases "sd_last_decoded_seq st"; cases "sd_pending st") (auto simp: decodable_def expected_seq_def)
  show ?thesis
  proof (cases "map_of (sd_pending st) x")
    case (Some v)
    with assms(1) x show ?thesis by (auto simp: drain_turn_def decodable_def Let_def split: prod.splits)
  next
    case None
    then have l: "sd_last_decoded_seq st \<noteq> None"
      using x by (auto simp: expected_seq_def split: option.splits list.splits)
    have "c \<Longrightarrow> sd_pending st1 \<noteq> []"
    proof -
      assume c
      with assms(1) x None obtain earliest ts pkt rest where p: "sd_pending st = (earliest, ts, pkt) # rest" "x < earliest"
        "fill_gap vd max_plc x earliest ts pkt (st\<lparr>sd_reorder_wait_since := None\<rparr>) = (st1, out)"
        by (auto simp: drain_turn_def Let_def not_le split: list.splits if_splits prod.splits)
      from fill_gap_expected(2) [OF p(3,2)] p(1) show ?thesis by simp
    qed
    moreover have "\<not> c \<Longrightarrow> sd_last_decoded_seq st1 = sd_last_decoded_seq st"
      using assms(1) x None by (auto simp: drain_turn_def Let_def split: list.splits if_splits prod.splits)
    ultimately show ?thesis using l by (cases c) (auto simp: decodable_def)
  qed
qed

lemma drain_decoded: "decodable st \<Longrightarrow> sd_last_decoded_seq (fst (drain_decodable vd max_plc wait_ms now st)) \<noteq> None"
proof (induction vd max_plc wait_ms now st rule: drain_decodable.induct)
  case (1 vd max_plc wait_ms now st)
  obtain st2 out2 c where turn: "drain_turn vd max_plc wait_ms now st = (st2, out2, c)" by (metis prod_cases3)
  with 1(1) [OF turn [symmetric] refl] turn_decodable [OF turn 1(2)] show ?case
    by (cases c) (auto simp: drain_decodable.simps [of vd max_plc wait_ms now st] prod.case_eq_if)
qed

section \<open>A stream of arrivals\<close>

text \<open>Sequence number, capture time, packet and instant of arrival.\<close>

type_synonym arrival = "u32 \<times> u64 \<times> bytes \<times> instant"

fun decode_run ::
  "'d voice_decoder \<Rightarrow> nat \<Rightarrow> nat \<Rightarrow> u64 \<Rightarrow> 'd SenderDecodeState \<Rightarrow> arrival list \<Rightarrow> 'd SenderDecodeState \<times> decoded list" where
  "decode_run vd max_plc wait_ms e st [] = (st, [])"
| "decode_run vd max_plc wait_ms e st ((sq, ts, pkt, now) # as) =
     (case ingest vd e sq ts pkt max_plc wait_ms now st of
        (st1, out1) \<Rightarrow> (case decode_run vd max_plc wait_ms e st1 as of (st2, out2) \<Rightarrow> (st2, out1 @ out2)))"

definition rx_rest :: "u64 \<Rightarrow> int \<Rightarrow> int \<Rightarrow> 'd SenderDecodeState \<Rightarrow> bool" where
  "rx_rest e b m st \<longleftrightarrow> rx_inv e b m st \<and> (sd_last_decoded_seq st = None \<longrightarrow> b = - 1)"

lemma insert_drain:
  assumes "rx_inv e b m st" "b < uint sq" "max m (uint sq) = m'"
    and "(if MAX_PENDING \<le> length (sd_pending st) then st\<lparr>sd_pending := tl (sd_pending st)\<rparr> else st) = st0"
    and "drain_decodable vd max_plc wait_ms now (st0\<lparr>sd_pending := bt_insert sq v (sd_pending st0)\<rparr>) = (st1, out)"
  shows "rx_rest e (last (b # seqs out)) m' st1 \<and> sorted_wrt (<) (b # seqs out) \<and> in_epoch e out"
proof -
  let ?st = "st0\<lparr>sd_pending := bt_insert sq v (sd_pending st0)\<rparr>"
  have sub: "fst ` set (sd_pending st0) \<subseteq> fst ` set (sd_pending st)"
    unfolding assms(4) [symmetric] by (cases "sd_pending st") auto
  have "bt_wf (sd_pending st0)" "length (sd_pending st0) < MAX_PENDING"
    using assms(1) bt_wf_tl unfolding assms(4) [symmetric] by (auto simp: rx_inv_def MAX_PENDING_def)
  then have wf: "bt_wf (sd_pending ?st)" "length (sd_pending ?st) \<le> MAX_PENDING"
    using length_bt_insert [of sq v "sd_pending st0"] by (simp_all add: bt_wf_insert)
  have "sd_stream_epoch st0 = sd_stream_epoch st" "sd_last_decoded_seq st0 = sd_last_decoded_seq st"
    unfolding assms(4) [symmetric] by simp_all
  with assms(1,2,3) wf sub have "rx_inv e b m' ?st" by (fastforce simp: rx_inv_def keys_bt_insert)
  from drain_spec [OF this assms(5)] have d: "rx_inv e (last (b # seqs out)) m' st1 \<and> sorted_wrt (<) (b # seqs out) \<and> in_epoch e out" .
  have "decodable ?st" using keys_bt_insert [of sq v "sd_pending st0"] by (auto simp: decodable_def)
  from drain_decoded [OF this, of vd max_plc wait_ms now] assms(5) have "sd_last_decoded_seq st1 \<noteq> None" by simp
  with d show ?thesis by (auto simp: rx_rest_def)
qed

lemma ingest_spec:
  assumes "rx_rest e b m st" "m \<le> uint sq + 32"
    and i: "ingest vd e sq ts pkt max_plc wait_ms now st = (st1, out)"
  shows "rx_rest e (last (b # seqs out)) (max m (uint sq)) st1 \<and> sorted_wrt (<) (b # seqs out) \<and> in_epoch e out"
proof -
  have inv: "rx_inv e b m st" and ep: "sd_stream_epoch st = Some e" and bm: "b \<le> m"
    using assms(1) by (auto simp: rx_rest_def rx_inv_def)
  show ?thesis
  proof (cases "b < uint sq")
    case True
    then have "\<not> (\<exists>l. sd_last_decoded_seq st = Some l \<and> sq \<le> l)"
      using inv by (auto simp: rx_inv_def word_le_def)
    with i ep have "drain_decodable vd max_plc wait_ms now
        (let st = (if MAX_PENDING \<le> length (sd_pending st) then st\<lparr>sd_pending := tl (sd_pending st)\<rparr> else st)
         in st\<lparr>sd_pending := bt_insert sq (ts, pkt) (sd_pending st)\<rparr>) = (st1, out)"
      by (auto simp: ingest_def Let_def split: option.splits if_splits)
    from insert_drain [OF inv True refl refl this [unfolded Let_def]] show ?thesis .
  next
    case False
    then obtain l where l: "sd_last_decoded_seq st = Some l" "uint l = b"
      using assms(1) inv uint_ge_0 [of sq] by (cases "sd_last_decoded_seq st") (auto simp: rx_rest_def rx_inv_def)
    have "uint (sat_sub l sq) \<le> 32" using l False bm assms(2) by (simp add: sat_sub_def word_less_def uint_sub_if')
    then have "\<not> 32 < sat_sub l sq" by (simp add: word_less_def)
    then have "st1 = st" "out = []" using i ep l False by (auto simp: ingest_def Let_def word_le_def)
    then show ?thesis using assms(1) by (fastforce simp: rx_rest_def rx_inv_def in_epoch_def)
  qed
qed

lemma decode_run_spec:
  assumes "rx_rest e b m st" "\<forall>a \<in> set as. m \<le> uint (fst a) + 32"
    and "sorted_wrt (\<lambda>a a'. uint (fst a) \<le> uint (fst a') + 32) as"
    and "decode_run vd max_plc wait_ms e st as = (st1, out)"
  shows "\<exists>m'. rx_rest e (last (b # seqs out)) m' st1 \<and> sorted_wrt (<) (b # seqs out) \<and> in_epoch e out"
  using assms
proof (induction as arbitrary: b m st out)
  case Nil
  then show ?case by (auto simp: in_epoch_def)
next
  case (Cons a as)
  obtain sq ts pkt now where a: "a = (sq, ts, pkt, now)" by (cases a)
  obtain st2 out2 where i: "ingest vd e sq ts pkt max_plc wait_ms now st = (st2, out2)"
    by (cases "ingest vd e sq ts pkt max_plc wait_ms now st")
  obtain out3 where r: "decode_run vd max_plc wait_ms e st2 as = (st1, out3)" "out = out2 @ out3"
    using Cons.prems(4) i by (auto simp: a split: prod.splits)
  have "m \<le> uint sq + 32" using Cons.prems(2) by (simp add: a)
  note s = ingest_spec [OF Cons.prems(1) this i]
  have "\<forall>a \<in> set as. max m (uint sq) \<le> uint (fst a) + 32" using Cons.prems(2,3) by (auto simp: a)
  from Cons.IH [OF _ this _ r(1), of "last (b # seqs out2)"] s Cons.prems(3) obtain m' where
    "rx_rest e (last (last (b # seqs out2) # seqs out3)) m' st1" "sorted_wrt (<) (last (b # seqs out2) # seqs out3)" "in_epoch e out3"
    by auto
  with s show ?case
    unfolding r(2) seqs_simps last_Cons_append using sorted_wrt_chain [of b "seqs out2" "seqs out3"]
    by (auto simp: in_epoch_def)
qed

section \<open>Properties\<close>

text \<open>The drain loop run for at most \<open>n\<close> turns: \<open>None\<close> when it has not stopped by then.\<close>

fun drain_fuel ::
  "nat \<Rightarrow> 'd voice_decoder \<Rightarrow> nat \<Rightarrow> nat \<Rightarrow> instant \<Rightarrow> 'd SenderDecodeState \<Rightarrow> ('d SenderDecodeState \<times> decoded list) option" where
  "drain_fuel 0 vd max_plc wait_ms now st = None"
| "drain_fuel (Suc n) vd max_plc wait_ms now st =
     (case drain_turn vd max_plc wait_ms now st of
        (st1, out, False) \<Rightarrow> Some (st1, out)
      | (st1, out, True) \<Rightarrow> map_option (\<lambda>(st2, out2). (st2, out @ out2)) (drain_fuel n vd max_plc wait_ms now st1))"

lemma drain_fuel_enough:
  "drain_measure st < n \<Longrightarrow> drain_fuel n vd max_plc wait_ms now st = Some (drain_decodable vd max_plc wait_ms now st)"
proof (induction n arbitrary: st)
  case (Suc n)
  obtain st2 out2 c where turn: "drain_turn vd max_plc wait_ms now st = (st2, out2, c)" by (metis prod_cases3)
  show ?case
  proof (cases c)
    case False
    with turn show ?thesis by (simp add: drain_decodable.simps [of vd max_plc wait_ms now st])
  next
    case True
    with turn have "drain_measure st2 < n" using drain_turn_decreases [of vd max_plc wait_ms now st st2 out2] Suc.prems by simp
    from Suc.IH [OF this] turn True show ?thesis by (simp add: drain_decodable.simps [of vd max_plc wait_ms now st])
  qed
qed simp

text \<open>
  C35 (termination). The decode loop ends: whatever is waiting and whatever the decoder does, it stops after at
  most one turn more than twice the number of waiting frames plus one, so 66 turns suffice for a full buffer.
\<close>

theorem drain_terminates:
  "(\<exists>r. drain_fuel (2 * length (sd_pending st) + 2) vd max_plc wait_ms now st = Some r) \<and>
   (length (sd_pending st) \<le> MAX_PENDING \<longrightarrow>
      drain_fuel 66 vd max_plc wait_ms now st = Some (drain_decodable vd max_plc wait_ms now st))"
proof -
  have "drain_measure st \<le> 2 * length (sd_pending st) + 1" by (simp add: drain_measure_def split: option.split)
  then show ?thesis
    using drain_fuel_enough [of st "2 * length (sd_pending st) + 2"] drain_fuel_enough [of st 66] by (auto simp: MAX_PENDING_def)
qed

text \<open>A decoder whose state counts calls and whose output is that count, for the witnesses.\<close>

definition count_decoder :: "nat voice_decoder" where
  "count_decoder = \<lparr>vd_new = 0, vd_decode = (\<lambda>n b. (Suc n, [word_of_nat n])), vd_decode_fec_from_next = (\<lambda>n b. (Suc n, [])),
     vd_decode_plc = (\<lambda>n. (Suc n, [])), vd_reset = (\<lambda>_. 0)\<rparr>"

theorem drain_terminates_witness:
  "drain_fuel 66 count_decoder 5 60 0 (SenderDecodeState_new count_decoder) =
     Some (drain_decodable count_decoder 5 60 0 (SenderDecodeState_new count_decoder))"
  using drain_terminates [of "SenderDecodeState_new count_decoder" count_decoder 5 60 0]
  by (simp add: SenderDecodeState_new_def)



text \<open>
  No frame is stranded behind a loss: once a gap has been waited on for the reorder time, the next
  drain conceals it or resynchronises and decodes at least one of the waiting frames.
\<close>

theorem rx_gap_released:
  assumes "rx_inv e b m st" "sd_pending st \<noteq> []" "sd_reorder_wait_since st = Some w" "millis wait_ms \<le> now - w"
  shows "length (sd_pending (fst (drain_decodable vd max_plc wait_ms now st))) < length (sd_pending st)"
proof -
  have hit: "length (sd_pending (fst (drain_decodable vd max_plc wait_ms now st))) < length (sd_pending st)"
    if x: "expected_seq st = Some x" and v: "map_of (sd_pending st) x = Some v" for x v and st :: "'a SenderDecodeState"
  proof -
    obtain d samples where "vd_decode vd (sd_decoder st) (snd v) = (d, samples)" by (metis prod.collapse)
    with x v obtain st2 out2 where turn: "drain_turn vd max_plc wait_ms now st = (st2, out2, True)"
      "sd_pending st2 = bt_remove x (sd_pending st)"
      by (cases v) (simp add: drain_turn_def Let_def)
    then have "length (sd_pending st2) < length (sd_pending st)" using length_bt_remove [OF v] by simp
    with turn drain_pending [of vd max_plc wait_ms now st2] show ?thesis
      by (simp add: drain_decodable.simps [of vd max_plc wait_ms now st] prod.case_eq_if)
  qed
  obtain earliest ts pkt rest where p: "sd_pending st = (earliest, ts, pkt) # rest" using assms(2) by (cases "sd_pending st") auto
  obtain x where x: "expected_seq st = Some x" using p by (cases "sd_last_decoded_seq st") (auto simp: expected_seq_def)
  show ?thesis
  proof (cases "map_of (sd_pending st) x")
    case None
    have "x \<le> earliest" using expected_above(1) [OF assms(1) x, of earliest] p by simp
    moreover have "x \<noteq> earliest" using None p by auto
    ultimately have lt: "x < earliest" by simp
    obtain st2 out2 where f: "fill_gap vd max_plc x earliest ts pkt (st\<lparr>sd_reorder_wait_since := None\<rparr>) = (st2, out2)" by (metis prod.collapse)
    have turn: "drain_turn vd max_plc wait_ms now st = (st2, out2, True)"
      using x None p lt assms(3,4) f by (simp add: drain_turn_def Let_def not_less [symmetric])
    from fill_gap_expected [OF f lt] p have "expected_seq st2 = Some earliest" "sd_pending st2 = sd_pending st" by auto
    with hit [of st2 earliest] p turn show ?thesis
      by (simp add: drain_decodable.simps [of vd max_plc wait_ms now st] prod.case_eq_if)
  qed (rule hit [OF x])
qed

theorem rx_gap_released_witness:
  "sd_pending (fst (drain_decodable count_decoder 5 60 (millis 60)
     \<lparr>sd_decoder = 0, sd_stream_epoch = Some 7, sd_last_decoded_seq = Some 3, sd_pending = [(5, 100, [])], sd_reorder_wait_since = Some 0\<rparr>)) = []"
proof -
  let ?st = "\<lparr>sd_decoder = 0, sd_stream_epoch = Some 7, sd_last_decoded_seq = Some 3, sd_pending = [(5, 100, [])], sd_reorder_wait_since = Some 0\<rparr>"
  have "rx_inv 7 3 5 ?st" by (simp add: rx_inv_def bt_wf_def MAX_PENDING_def)
  from rx_gap_released [OF this, of 0 60 "millis 60" count_decoder 5] show ?thesis by simp
qed

end
