(* ===== verification/Rx_Path.thy ===== *)
theory Rx_Path
  imports Audio_Playback Rx_Decode Users Wire
begin

text \<open>
  The Android receive path of \<open>android-native/src/audio_pipeline.rs\<close> behind the transport: per-sender decoding, the
  audio cache, the playout queue, and the checks a wire frame passes before it is decoded. The transcription
  callback into Kotlin is not modelled. One instant per call.
\<close>

section \<open>Model\<close>

definition MAX_PLAYOUT_QUEUE_FRAMES :: nat where "MAX_PLAYOUT_QUEUE_FRAMES = 48"

record 'd RxSharedState =
  rx_sender_states :: "(rstring, 'd SenderDecodeState) hmap"
  rx_playout_queue :: "pcm list"

definition RxSharedState_new :: "'d RxSharedState" where
  "RxSharedState_new = \<lparr>rx_sender_states = [], rx_playout_queue = []\<rparr>"

definition enqueue_playout :: "pcm \<Rightarrow> 'd RxSharedState \<Rightarrow> 'd RxSharedState" where
  "enqueue_playout samples rx =
     rx\<lparr>rx_playout_queue :=
          drop (Suc (length (rx_playout_queue rx)) - MAX_PLAYOUT_QUEUE_FRAMES) (rx_playout_queue rx) @ [samples]\<rparr>"

text \<open>Decoded frames go to the cache; what it returns for immediate playout is queued.\<close>

definition feed_cache ::
  "(rstring \<Rightarrow> u64) \<Rightarrow> rstring \<Rightarrow> instant \<Rightarrow> 'd RxSharedState \<times> AudioCache \<Rightarrow> decoded \<Rightarrow> 'd RxSharedState \<times> AudioCache" where
  "feed_cache hs sender_id now acc frame =
     (case (acc, frame) of ((rx, cache), (epoch, sq, ts, samples)) \<Rightarrow>
        (case ingest_logical_frame hs cache sender_id epoch sq ts samples now of
           (cache, Some out) \<Rightarrow> (enqueue_playout out rx, cache)
         | (cache, None) \<Rightarrow> (rx, cache)))"

definition ingest_wire_frame ::
  "'d voice_decoder \<Rightarrow> (rstring \<Rightarrow> u64) \<Rightarrow> 'd RxSharedState \<Rightarrow> AudioCache \<Rightarrow> rstring \<Rightarrow> u64 \<Rightarrow> u32 \<Rightarrow> u64 \<Rightarrow> bytes \<Rightarrow> instant \<Rightarrow>
   ('d RxSharedState \<times> AudioCache) \<times> decoded list" where
  "ingest_wire_frame vd hs rx cache sender_id stream_epoch sequence timestamp compressed now =
     (let st = (case hm_get (rx_sender_states rx) sender_id of Some st \<Rightarrow> st | None \<Rightarrow> SenderDecodeState_new vd)
      in case ingest vd stream_epoch sequence timestamp compressed RX_MAX_PLC_FRAMES RX_REORDER_WAIT_MS now st of
           (st, frames) \<Rightarrow>
             (foldl (feed_cache hs sender_id now)
                (rx\<lparr>rx_sender_states := hm_insert sender_id st (rx_sender_states rx)\<rparr>, cache) frames, frames))"

definition drain_sender ::
  "'d voice_decoder \<Rightarrow> (rstring \<Rightarrow> u64) \<Rightarrow> instant \<Rightarrow> 'd RxSharedState \<times> AudioCache \<Rightarrow> rstring \<Rightarrow> 'd RxSharedState \<times> AudioCache" where
  "drain_sender vd hs now acc sender_id =
     (case acc of (rx, cache) \<Rightarrow>
        (case hm_get (rx_sender_states rx) sender_id of
           None \<Rightarrow> (rx, cache)
         | Some st \<Rightarrow>
             (case drain_decodable vd RX_MAX_PLC_FRAMES RX_REORDER_WAIT_MS now st of
                (st, frames) \<Rightarrow>
                  foldl (feed_cache hs sender_id now)
                    (rx\<lparr>rx_sender_states := hm_insert sender_id st (rx_sender_states rx)\<rparr>, cache) frames)))"

definition drain_decode_timers ::
  "'d voice_decoder \<Rightarrow> (rstring \<Rightarrow> u64) \<Rightarrow> 'd RxSharedState \<Rightarrow> AudioCache \<Rightarrow> instant \<Rightarrow> 'd RxSharedState \<times> AudioCache" where
  "drain_decode_timers vd hs rx cache now =
     foldl (drain_sender vd hs now) (rx, cache) (map fst (rx_sender_states rx))"

definition rx_reset :: "'d RxSharedState \<Rightarrow> 'd RxSharedState" where
  "rx_reset rx = rx\<lparr>rx_sender_states := [], rx_playout_queue := []\<rparr>"

definition pop_playout :: "'d RxSharedState \<Rightarrow> 'd RxSharedState \<times> pcm option" where
  "pop_playout rx =
     (case rx_playout_queue rx of [] \<Rightarrow> (rx, None) | s # rest \<Rightarrow> (rx\<lparr>rx_playout_queue := rest\<rparr>, Some s))"

definition playout_pending :: "'d RxSharedState \<Rightarrow> nat" where
  "playout_pending rx = length (rx_playout_queue rx)"

section \<open>Draining the cache\<close>

text \<open>The frames a cache can still hand out: they bound the drain loop.\<close>

definition cache_backlog :: "AudioCache \<Rightarrow> nat" where
  "cache_backlog c =
     (case au_now_playing c of Some u \<Rightarrow> length (ut_frames u) - au_play_cursor c | None \<Rightarrow> 0) +
     sum_list (map (length \<circ> ut_frames) (au_playback_queue c)) + sum_list (map (length \<circ> snd) (au_live_jitter c))"

lemma sum_filter_le: "sum_list (map f (filter P xs)) \<le> sum_list (map f xs)" for f :: "'a \<Rightarrow> nat"
  by (induction xs) auto

lemma sum_update_shorter:
  "map_of m k = Some v \<Longrightarrow> length v' < length v \<Longrightarrow>
     sum_list (map (length \<circ> snd) (hm_insert k v' m)) < sum_list (map (length \<circ> snd) m)"
  by (induction m) (auto split: if_splits)

lemma drain_jitter_backlog:
  assumes "drain_jitter c now = (c1, Some x)"
  shows "cache_backlog c1 < cache_backlog c"
proof -
  define c0 where "c0 = (if au_mode c = Live
      then (case current_live_sender c of
              Some live \<Rightarrow> c\<lparr>au_live_jitter := filter (\<lambda>(sid, q). sid = live) (au_live_jitter c)\<rparr>
            | None \<Rightarrow> c)
      else c)"
  have le: "sum_list (map (length \<circ> snd) (au_live_jitter c0)) \<le> sum_list (map (length \<circ> snd) (au_live_jitter c))"
    unfolding c0_def by (simp add: sum_filter_le split: option.split)
  have same: "au_now_playing c0 = au_now_playing c" "au_play_cursor c0 = au_play_cursor c" "au_playback_queue c0 = au_playback_queue c"
    unfolding c0_def by (simp_all split: option.split)
  obtain sid f rest where q: "hm_get (au_live_jitter c0) sid = Some (f # rest)"
    "c1 = c0\<lparr>au_live_jitter := hm_insert sid rest (au_live_jitter c0)\<rparr>"
    using assms unfolding drain_jitter_def c0_def [symmetric] Let_def by (auto split: option.splits list.splits)
  have "sum_list (map (length \<circ> snd) (hm_insert sid rest (au_live_jitter c0))) < sum_list (map (length \<circ> snd) (au_live_jitter c0))"
    by (rule sum_update_shorter [OF q(1)]) simp
  with le same q(2) show ?thesis by (simp add: cache_backlog_def split: option.split)
qed

lemma next_frame_backlog:
  assumes "next_playback_frame c now = (c1, Some x)"
  shows "cache_backlog c1 < cache_backlog c"
proof -
  have start: "cache_backlog c1 < cache_backlog c0" if "start_next c0 now = (c1, Some x)" "au_now_playing c0 = None" for c0
  proof (cases "au_playback_queue c0")
    case Nil
    with that drain_jitter_backlog show ?thesis by (auto simp: start_next_def)
  next
    case (Cons u us)
    with that show ?thesis by (auto simp: start_next_def cache_backlog_def split: list.splits)
  qed
  show ?thesis
  proof (cases "au_now_playing c")
    case None
    with assms start [of c] show ?thesis by (simp add: next_playback_frame_def)
  next
    case (Some u)
    show ?thesis
    proof (cases "au_play_cursor c < length (ut_frames u)")
      case True
      with assms Some show ?thesis by (auto simp: next_playback_frame_def Let_def cache_backlog_def)
    next
      case False
      with assms Some have "start_next (finish_playing c) now = (c1, Some x)" by (simp add: next_playback_frame_def)
      from start [OF this] have "cache_backlog c1 < cache_backlog (finish_playing c)" by simp
      also have "cache_backlog (finish_playing c) \<le> cache_backlog c"
        using Some False by (simp add: cache_backlog_def finish_playing_def commit_history_def Let_def)
      finally show ?thesis .
    qed
  qed
qed

text \<open>The loop \<open>while let Some(..) = cache.next_playback_frame()\<close>.\<close>

function drain_cache_playout :: "'d RxSharedState \<Rightarrow> AudioCache \<Rightarrow> instant \<Rightarrow> 'd RxSharedState \<times> AudioCache" where
  "drain_cache_playout rx cache now =
     (case next_playback_frame cache now of
        (cache, Some (_, samples)) \<Rightarrow> drain_cache_playout (enqueue_playout samples rx) cache now
      | (cache, None) \<Rightarrow> (rx, cache))"
  by auto
termination
  by (relation "measure (\<lambda>(rx, cache, now). cache_backlog cache)") (auto intro: next_frame_backlog [OF sym])

declare drain_cache_playout.simps [simp del]

section \<open>One wire frame\<close>

record 'd rx_state =
  rs_shared :: "'d RxSharedState"
  rs_cache :: AudioCache
  rs_registry :: UserRegistry

definition process_incoming_wire_frame ::
  "'d voice_decoder \<Rightarrow> (rstring \<Rightarrow> u64) \<Rightarrow> rstring \<Rightarrow> u8 \<Rightarrow> u8 \<Rightarrow> WireAudioFrame \<Rightarrow> instant \<Rightarrow> 'd rx_state \<Rightarrow> 'd rx_state" where
  "process_incoming_wire_frame vd hs local_sender_id my_channel my_subchannel frame now s =
     (if wire_sender_id frame = local_sender_id then s
      else if wire_channel frame \<noteq> my_channel then s
      else if wire_compressed frame = [] then s
      else if wire_subchannel frame \<noteq> my_subchannel
      then s\<lparr>rs_registry := register_user (rs_registry s) (wire_sender_id frame) (wire_device_name frame)\<rparr>
      else (let reg = register_user (rs_registry s) (wire_sender_id frame) (wire_device_name frame);
                cache = update_user_info (rs_cache s) (wire_sender_id frame) (wire_device_name frame)
                          (user_is_favorite reg (wire_sender_id frame)) (user_is_muted reg (wire_sender_id frame));
                ((rx, cache), _) = ingest_wire_frame vd hs (rs_shared s) cache (wire_sender_id frame)
                          (wire_stream_epoch frame) (wire_sequence frame) (wire_timestamp frame) (wire_compressed frame) now;
                (rx, cache) = drain_cache_playout rx (tick cache now) now
            in \<lparr>rs_shared = rx, rs_cache = cache, rs_registry = reg\<rparr>))"

text \<open>The parsed frames of one poll, in the order the receive thread handles them; invalid ones are skipped.\<close>

definition rx_deliver ::
  "'d voice_decoder \<Rightarrow> (rstring \<Rightarrow> u64) \<Rightarrow> rstring \<Rightarrow> u8 \<Rightarrow> u8 \<Rightarrow> instant \<Rightarrow> 'd rx_state \<Rightarrow> bytes \<Rightarrow> 'd rx_state" where
  "rx_deliver vd hs local_sender_id my_channel my_subchannel now s buf =
     (if buf = [] then s
      else case unpack_wire_frame_detailed buf of
             Ok frame \<Rightarrow> process_incoming_wire_frame vd hs local_sender_id my_channel my_subchannel frame now s
           | _ \<Rightarrow> s)"

text \<open>The rest of a turn of the receive thread: timers, tick, new commits, and one frame to the speaker.\<close>

definition rx_service ::
  "'d voice_decoder \<Rightarrow> (rstring \<Rightarrow> u64) \<Rightarrow> instant \<Rightarrow> 'd rx_state \<Rightarrow>
   'd rx_state \<times> (u64 \<times> rstring \<times> rstring \<times> u64) list \<times> pcm option" where
  "rx_service vd hs now s =
     (let (rx, cache) = drain_decode_timers vd hs (rs_shared s) (rs_cache s) now;
          (commits, cache) = take_newly_committed_ids (tick cache now);
          (rx, cache) = drain_cache_playout rx cache now;
          (rx, samples) = pop_playout rx
      in (s\<lparr>rs_shared := rx, rs_cache := cache\<rparr>, commits, samples))"

section \<open>What the drain leaves in the playout queue\<close>

lemma enqueue_last_n:
  "length (rx_playout_queue rx) \<le> MAX_PLAYOUT_QUEUE_FRAMES \<Longrightarrow>
     rx_playout_queue (enqueue_playout x rx) = last_n MAX_PLAYOUT_QUEUE_FRAMES (rx_playout_queue rx @ [x])"
  by (simp add: enqueue_playout_def last_n_def MAX_PLAYOUT_QUEUE_FRAMES_def)

lemma enqueue_all:
  "length (rx_playout_queue rx) \<le> MAX_PLAYOUT_QUEUE_FRAMES \<Longrightarrow>
     rx_playout_queue (foldl (\<lambda>rx x. enqueue_playout x rx) rx xs) = last_n MAX_PLAYOUT_QUEUE_FRAMES (rx_playout_queue rx @ xs)"
proof (induction xs arbitrary: rx)
  case (Cons x xs)
  then show ?case
    using Cons.IH [of "enqueue_playout x rx"] by (simp add: enqueue_last_n last_n_append_last_n)
qed simp

lemma drain_play:
  assumes "play c (replicate n now) = (c1, map (\<lambda>f. Some (cf_sender_id f, cf_samples f)) fs)" "next_playback_frame c1 now = (c2, None)"
  shows "drain_cache_playout rx c now = (foldl (\<lambda>rx x. enqueue_playout x rx) rx (map cf_samples fs), c2)"
  using assms(1)
proof (induction n arbitrary: c rx fs)
  case 0
  with assms(2) show ?case by (simp add: drain_cache_playout.simps [of rx c1 now])
next
  case (Suc n)
  obtain c' r where nx: "next_playback_frame c now = (c', r)" by (cases "next_playback_frame c now")
  then obtain f fs' where fs: "fs = f # fs'" "r = Some (cf_sender_id f, cf_samples f)"
    "play c' (replicate n now) = (c1, map (\<lambda>f. Some (cf_sender_id f, cf_samples f)) fs')"
    using Suc.prems by (cases fs) (auto split: prod.splits)
  from Suc.IH [OF fs(3)] show ?case by (simp add: drain_cache_playout.simps [of rx c now] nx fs)
qed

lemma next_keeps_no_jitter: "au_live_jitter c = [] \<Longrightarrow> au_live_jitter (fst (next_playback_frame c now)) = []"
  by (auto simp: next_playback_frame_def start_next_def finish_playing_def commit_history_def drain_jitter_def
      drain_target_def Let_def split: option.split list.split)

lemma play_keeps_no_jitter: "au_live_jitter c = [] \<Longrightarrow> au_live_jitter (fst (play c nows)) = []"
  using next_keeps_no_jitter by (induction nows arbitrary: c) (auto simp: prod.case_eq_if)

lemma drain_jitter_none: "au_live_jitter c = [] \<Longrightarrow> snd (drain_jitter c now) = None"
  by (simp add: drain_jitter_def drain_target_def Let_def split: option.split)

text \<open>
  Queued speech is cut to its last second: when the receive thread drains a cache that holds queued
  utterances and nothing else, the playout queue ends with only the last 48 frames of everything queued, while
  every utterance is committed to the history as fully played.
\<close>

theorem queued_speech_truncated:
  assumes "cache_inv c" "au_now_playing c = None" "au_live_jitter c = []" "rx_playout_queue rx = []"
  shows "rx_playout_queue (fst (drain_cache_playout rx c now)) =
      last_n MAX_PLAYOUT_QUEUE_FRAMES (map cf_samples (concat (map ut_frames (au_playback_queue c)))) \<and>
    au_history (snd (drain_cache_playout rx c now)) = last_n 50 (au_history c @ map fully (au_playback_queue c))"
proof -
  let ?fs = "concat (map ut_frames (au_playback_queue c))"
  define c1 where "c1 = fst (play c (replicate (length ?fs) now))"
  have fin: "finish_playing c = c" using assms(2) by (simp add: finish_playing_def)
  have ok: "\<forall>u \<in> set (au_playback_queue c). ut_frames u \<noteq> []" "au_max_history c = 50" "length (au_history c) \<le> 50"
    using assms(1) by (auto simp: cache_inv_def stored_nonempty_def history_ok_def)
  have "at_end c" using assms(2) by (simp add: at_end_def)
  from play_queue [OF this ok(1,2)] ok(3) fin have pq:
    "snd (play c (replicate (length ?fs) now)) = map played_frame ?fs" "at_end c1" "au_playback_queue c1 = []"
    "au_history (finish_playing c1) = last_n 50 (au_history c @ map fully (au_playback_queue c))"
    by (simp_all add: c1_def)
  have "au_live_jitter (finish_playing c1) = []"
    using play_keeps_no_jitter [OF assms(3)]
    by (simp add: c1_def finish_playing_def commit_history_def Let_def split: option.split)
  then have none: "snd (drain_jitter (finish_playing c1) now) = None" by (rule drain_jitter_none)
  define c2 where "c2 = fst (drain_jitter (finish_playing c1) now)"
  have "next_playback_frame c1 now = drain_jitter (finish_playing c1) now"
    unfolding next_at_end [OF pq(2)] start_next_def by (simp add: pq(3))
  then have c2: "next_playback_frame c1 now = (c2, None)" "au_history c2 = au_history (finish_playing c1)"
    using none by (simp_all add: c2_def prod_eq_iff)
  have "play c (replicate (length ?fs) now) = (c1, map (\<lambda>f. Some (cf_sender_id f, cf_samples f)) ?fs)"
    using pq(1) by (simp add: c1_def prod_eq_iff played_frame_def [abs_def])
  from drain_play [OF this c2(1), of rx] enqueue_all [of rx "map cf_samples ?fs"] assms(4) pq(4) c2(2) show ?thesis by simp
qed

theorem queued_speech_truncated_witness:
  "length (rx_playout_queue (fst (drain_cache_playout (RxSharedState_new :: nat RxSharedState)
     ((AudioCache_new 3 6)\<lparr>au_playback_queue :=
        [\<lparr>ut_id = 1, ut_sender_id = [], ut_sender_name = [], ut_is_favorite = False, ut_started_at = 0, ut_ended_at = 0,
          ut_frames = replicate 150 (demo_frame 0), ut_fully_played = False\<rparr>]\<rparr>) 0))) = 48"
proof -
  let ?u = "\<lparr>ut_id = 1, ut_sender_id = [], ut_sender_name = [], ut_is_favorite = False, ut_started_at = 0, ut_ended_at = 0,
          ut_frames = replicate 150 (demo_frame 0), ut_fully_played = False\<rparr>"
  have "cache_inv ((AudioCache_new 3 6)\<lparr>au_playback_queue := [?u]\<rparr>)"
    by (simp add: AudioCache_new_def inv_simps window_ok_def)
  from queued_speech_truncated [OF this, of "RxSharedState_new :: nat RxSharedState" 0] show ?thesis
    by (simp add: AudioCache_new_def RxSharedState_new_def MAX_PLAYOUT_QUEUE_FRAMES_def)
qed

section \<open>Invariant of the receive path\<close>

definition rx_ok :: "'d RxSharedState \<Rightarrow> AudioCache \<Rightarrow> bool" where
  "rx_ok rx cache \<longleftrightarrow> cache_inv cache \<and> hm_wf (rx_sender_states rx) \<and> length (rx_playout_queue rx) \<le> MAX_PLAYOUT_QUEUE_FRAMES"

lemma enqueue_ok: "rx_ok rx cache \<Longrightarrow> rx_ok (enqueue_playout x rx) cache"
  using enqueue_last_n [of rx x] by (simp add: rx_ok_def) (simp add: enqueue_playout_def)

lemma feed_ok: "rx_ok (fst acc) (snd acc) \<Longrightarrow> rx_ok (fst (feed_cache hs sid now acc d)) (snd (feed_cache hs sid now acc d))"
proof -
  assume a: "rx_ok (fst acc) (snd acc)"
  obtain rx cache e sq ts smp where p: "acc = (rx, cache)" "d = (e, sq, ts, smp)" by (metis prod.collapse)
  obtain cache1 out where i: "ingest_logical_frame hs cache sid e sq ts smp now = (cache1, out)" by (metis prod.collapse)
  have "cache_inv cache1" using a p inv_ingest [of cache hs sid e sq ts smp now] i by (simp add: rx_ok_def)
  then have "rx_ok rx cache1" using a p by (simp add: rx_ok_def)
  with i p enqueue_ok show ?thesis by (cases out) (simp_all add: feed_cache_def)
qed

lemma feeds_ok:
  "rx_ok (fst acc) (snd acc) \<Longrightarrow>
     rx_ok (fst (foldl (feed_cache hs sid now) acc ds)) (snd (foldl (feed_cache hs sid now) acc ds))"
  by (induction ds arbitrary: acc) (simp_all add: feed_ok)

lemma states_ok: "rx_ok rx cache \<Longrightarrow> rx_ok (rx\<lparr>rx_sender_states := hm_insert sid st (rx_sender_states rx)\<rparr>) cache"
  by (simp add: rx_ok_def)

lemma ingest_wire_ok:
  "rx_ok rx cache \<Longrightarrow> ingest_wire_frame vd hs rx cache sid ep sq ts pkt now = ((rx1, cache1), ds) \<Longrightarrow> rx_ok rx1 cache1"
proof -
  assume ok: "rx_ok rx cache" and i: "ingest_wire_frame vd hs rx cache sid ep sq ts pkt now = ((rx1, cache1), ds)"
  from i obtain st where "foldl (feed_cache hs sid now) (rx\<lparr>rx_sender_states := hm_insert sid st (rx_sender_states rx)\<rparr>, cache) ds = (rx1, cache1)"
    by (auto simp: ingest_wire_frame_def Let_def split: prod.splits)
  with feeds_ok [of "(rx\<lparr>rx_sender_states := hm_insert sid st (rx_sender_states rx)\<rparr>, cache)" hs sid now ds] states_ok [OF ok]
  show ?thesis by simp
qed

lemma drain_sender_ok:
  "rx_ok (fst acc) (snd acc) \<Longrightarrow> rx_ok (fst (drain_sender vd hs now acc sid)) (snd (drain_sender vd hs now acc sid))"
  using states_ok [of "fst acc" "snd acc" sid] by (auto simp: drain_sender_def feeds_ok split: prod.splits option.splits)

lemma drain_senders_ok:
  "rx_ok (fst acc) (snd acc) \<Longrightarrow>
     rx_ok (fst (foldl (drain_sender vd hs now) acc ids)) (snd (foldl (drain_sender vd hs now) acc ids))"
  by (induction ids arbitrary: acc) (simp_all add: drain_sender_ok)

lemma drain_cache_ok: "rx_ok rx cache \<Longrightarrow> rx_ok (fst (drain_cache_playout rx cache now)) (snd (drain_cache_playout rx cache now))"
proof (induction rx cache now rule: drain_cache_playout.induct)
  case (1 rx cache now)
  obtain cache1 r where n: "next_playback_frame cache now = (cache1, r)" by (metis prod.collapse)
  have ok: "rx_ok rx cache1" using 1(2) inv_next [of cache now] n by (simp add: rx_ok_def)
  show ?case
  proof (cases r)
    case None
    with n ok show ?thesis by (simp add: drain_cache_playout.simps [of rx cache now])
  next
    case (Some x)
    obtain sid samples where x: "x = (sid, samples)" by (cases x)
    from 1(1) [OF n [symmetric] Some x [symmetric]] enqueue_ok [OF ok] n Some x show ?thesis
      by (simp add: drain_cache_playout.simps [of rx cache now])
  qed
qed

definition rx_state_ok :: "'d rx_state \<Rightarrow> bool" where
  "rx_state_ok s \<longleftrightarrow> rx_ok (rs_shared s) (rs_cache s) \<and> registry_ok (rs_registry s)"

lemma process_ok: "rx_state_ok s \<Longrightarrow> rx_state_ok (process_incoming_wire_frame vd hs me ch sub frame now s)"
proof -
  assume s: "rx_state_ok s"
  let ?reg = "register_user (rs_registry s) (wire_sender_id frame) (wire_device_name frame)"
  let ?cache = "update_user_info (rs_cache s) (wire_sender_id frame) (wire_device_name frame)
      (user_is_favorite ?reg (wire_sender_id frame)) (user_is_muted ?reg (wire_sender_id frame))"
  have reg: "registry_ok ?reg" using s registry_ok_ops(1) by (simp add: rx_state_ok_def)
  have c: "rx_ok (rs_shared s) ?cache" using s inv_small(3) by (simp add: rx_state_ok_def rx_ok_def)
  obtain rx cache ds where i: "ingest_wire_frame vd hs (rs_shared s) ?cache (wire_sender_id frame)
      (wire_stream_epoch frame) (wire_sequence frame) (wire_timestamp frame) (wire_compressed frame) now = ((rx, cache), ds)"
    by (metis prod.collapse)
  have "rx_ok rx (tick cache now)" using ingest_wire_ok [OF c i] inv_tick by (simp add: rx_ok_def)
  from drain_cache_ok [OF this, of now] s reg i show ?thesis
    by (auto simp: process_incoming_wire_frame_def rx_state_ok_def Let_def split: prod.splits)
qed

lemma service_ok: "rx_state_ok s \<Longrightarrow> rx_state_ok (fst (rx_service vd hs now s))"
proof -
  assume s: "rx_state_ok s"
  obtain rx cache where d: "drain_decode_timers vd hs (rs_shared s) (rs_cache s) now = (rx, cache)" by (metis prod.collapse)
  have "rx_ok rx cache"
    using drain_senders_ok [of "(rs_shared s, rs_cache s)" vd hs now "map fst (rx_sender_states (rs_shared s))"] d s
    by (simp add: drain_decode_timers_def rx_state_ok_def)
  then have "rx_ok rx (snd (take_newly_committed_ids (tick cache now)))"
    using inv_tick inv_small(2) by (simp add: rx_ok_def)
  from drain_cache_ok [OF this, of now] have "rx_ok (fst (pop_playout rx1)) cache1"
    if "drain_cache_playout rx (snd (take_newly_committed_ids (tick cache now))) now = (rx1, cache1)" for rx1 cache1
    using that by (auto simp: pop_playout_def rx_ok_def split: list.split)
  with s d show ?thesis
    by (auto simp: rx_service_def Let_def rx_state_ok_def take_newly_committed_ids_def split: prod.splits)
qed

text \<open>Turns of the receive thread: a buffer delivered by a bearer, or the timer section.\<close>

datatype rx_event = Delivered bytes u8 u8 instant | Service instant

fun rx_turn :: "'d voice_decoder \<Rightarrow> (rstring \<Rightarrow> u64) \<Rightarrow> rstring \<Rightarrow> 'd rx_state \<Rightarrow> rx_event \<Rightarrow> 'd rx_state" where
  "rx_turn vd hs me s (Delivered buf ch sub now) = rx_deliver vd hs me ch sub now s buf"
| "rx_turn vd hs me s (Service now) = fst (rx_service vd hs now s)"

definition rx_start :: "u64 \<Rightarrow> nat \<Rightarrow> 'd rx_state" where
  "rx_start next_id prebuffer =
     \<lparr>rs_shared = RxSharedState_new, rs_cache = AudioCache_new next_id prebuffer, rs_registry = UserRegistry_new\<rparr>"

text \<open>
  Whatever arrives from the network, in any order and with any timing, the receive path keeps its
  bounds: after every turn of the receive thread the audio cache satisfies its invariant, there is one decode
  state per sender, at most 48 frames wait for the speaker, and every registry entry is filed under its id. A
  frame of our own, of another channel or with no audio changes nothing; one of another sub-channel only
  registers its sender.
\<close>

theorem receive_path_invariant:
  assumes "2 \<le> prebuffer" "prebuffer \<le> 16"
  shows "rx_state_ok (foldl (rx_turn vd hs me) (rx_start next_id prebuffer) evs) \<and>
    (wire_sender_id f = me \<or> wire_channel f \<noteq> ch \<or> wire_compressed f = [] \<longrightarrow>
       process_incoming_wire_frame vd hs me ch sub f now s = s) \<and>
    (wire_subchannel f \<noteq> sub \<longrightarrow>
       rs_shared (process_incoming_wire_frame vd hs me ch sub f now s) = rs_shared s \<and>
       rs_cache (process_incoming_wire_frame vd hs me ch sub f now s) = rs_cache s)"
proof -
  have "rx_state_ok (rx_start next_id prebuffer :: 'a rx_state)"
    using inv_new [OF assms] by (simp add: rx_state_ok_def rx_start_def rx_ok_def RxSharedState_new_def UserRegistry_new_def registry_ok_def)
  moreover have "rx_state_ok s \<Longrightarrow> rx_state_ok (rx_turn vd hs me s ev)" for s ev
    by (cases ev) (auto simp: rx_deliver_def process_ok service_ok split: outcome.split)
  then have "rx_state_ok s \<Longrightarrow> rx_state_ok (foldl (rx_turn vd hs me) s evs)" for s
    by (induction evs arbitrary: s) simp_all
  ultimately show ?thesis by (simp add: process_incoming_wire_frame_def)
qed

theorem receive_path_invariant_witness:
  "rx_state_ok (foldl (rx_turn count_decoder (\<lambda>_. 0) [0x4D]) (rx_start 1 6)
     [Delivered (pack_wire_frame_v2 1 0 [0x41] [] 7 0 20 [9]) 1 0 5, Service 10, Delivered [1, 2] 1 0 12])"
  using receive_path_invariant [of 6 count_decoder "\<lambda>_. 0" "[0x4D]" 1
      "[Delivered (pack_wire_frame_v2 1 0 [0x41] [] 7 0 20 [9]) 1 0 5, Service 10, Delivered [1, 2] 1 0 12]"]
  by simp

end
