(* ===== verification/State_Machine.thy ===== *)
theory State_Machine
  imports Transport Rx_Path
begin

text \<open>
  The Android coordinator of \<open>android-native/src/state.rs\<close>: connection callbacks, the life of the two audio threads,
  push-to-talk and identity. A thread is known by the handle its spawn returned. What the platform answers
  (thread spawns, sockets, the recorder and player) is an argument of the operation that asks; the accessors
  that only return a field are not modelled.
\<close>

section \<open>Model\<close>

datatype AppState = Initializing | Ready | AppConnecting | AppConnected | Transmitting | Receiving | Disconnecting | AppError

type_synonym thread_handle = nat

record 'd StateMachine =
  sm_state :: AppState
  sm_transport :: TransportManager
  sm_audio_cache :: AudioCache
  sm_user_registry :: UserRegistry
  sm_rx_shared :: "'d RxSharedState"
  sm_ptt_pressed :: bool
  sm_current_channel :: u8
  sm_current_subchannel :: u8
  sm_tx_running :: bool
  sm_rx_running :: bool
  sm_tx_handle :: "thread_handle option"
  sm_rx_handle :: "thread_handle option"
  sm_device_name :: rstring
  sm_local_sender_id :: rstring
  sm_install_salt :: rstring

definition DEFAULT_DEVICE_NAME :: rstring where "DEFAULT_DEVICE_NAME = ascii ''SassyTalkie-Android''"

definition derive_sender_id :: "(bytes \<Rightarrow> bytes) \<Rightarrow> rstring \<Rightarrow> rstring \<Rightarrow> rstring" where
  "derive_sender_id sha256 name salt = derive_user_id sha256 (name @ ascii ''|'' @ salt)"

definition StateMachine_new :: "(bytes \<Rightarrow> bytes) \<Rightarrow> bool \<Rightarrow> u8 \<Rightarrow> u8 \<Rightarrow> u64 \<Rightarrow> nat \<Rightarrow> 'd StateMachine" where
  "StateMachine_new sha256 ptt channel subchannel next_id prebuffer =
     \<lparr>sm_state = Initializing, sm_transport = TransportManager_new DEFAULT_DEVICE_NAME,
      sm_audio_cache = AudioCache_new next_id prebuffer, sm_user_registry = UserRegistry_new,
      sm_rx_shared = RxSharedState_new, sm_ptt_pressed = ptt, sm_current_channel = channel,
      sm_current_subchannel = subchannel, sm_tx_running = False, sm_rx_running = False, sm_tx_handle = None,
      sm_rx_handle = None, sm_device_name = DEFAULT_DEVICE_NAME,
      sm_local_sender_id = derive_sender_id sha256 DEFAULT_DEVICE_NAME [], sm_install_salt = []\<rparr>"

definition set_install_id :: "(bytes \<Rightarrow> bytes) \<Rightarrow> 'd StateMachine \<Rightarrow> rstring \<Rightarrow> 'd StateMachine" where
  "set_install_id sha256 sm install_id =
     sm\<lparr>sm_install_salt := install_id, sm_local_sender_id := derive_sender_id sha256 (sm_device_name sm) install_id\<rparr>"

definition set_device_name :: "(bytes \<Rightarrow> bytes) \<Rightarrow> 'd StateMachine \<Rightarrow> rstring \<Rightarrow> 'd StateMachine" where
  "set_device_name sha256 sm name =
     sm\<lparr>sm_device_name := name, sm_local_sender_id := derive_sender_id sha256 name (sm_install_salt sm),
        sm_transport := tm_set_device_name (sm_transport sm) name\<rparr>"

text \<open>The answers of the recorder and the player: \<open>None\<close> is success.\<close>

definition initialize :: "rstring option \<Rightarrow> rstring option \<Rightarrow> 'd StateMachine \<Rightarrow> 'd StateMachine \<times> (rstring + unit)" where
  "initialize recorder player sm =
     (case recorder of
        Some e \<Rightarrow> (sm, Inl e)
      | None \<Rightarrow> (case player of Some e \<Rightarrow> (sm, Inl e) | None \<Rightarrow> (sm\<lparr>sm_state := Ready\<rparr>, Inr ())))"

text \<open>Answers to the two thread spawns: an error or the handle.\<close>

type_synonym spawns = "(rstring + thread_handle) \<times> (rstring + thread_handle)"

definition start_audio_pipeline :: "spawns \<Rightarrow> 'd StateMachine \<Rightarrow> 'd StateMachine" where
  "start_audio_pipeline sp sm =
     (if sm_tx_running sm then sm
      else (let sm = sm\<lparr>sm_tx_running := True, sm_rx_running := True\<rparr>;
                sm = (case fst sp of Inr tx \<Rightarrow> sm\<lparr>sm_tx_handle := Some tx\<rparr> | Inl _ \<Rightarrow> sm\<lparr>sm_tx_running := False\<rparr>)
            in case snd sp of Inr rx \<Rightarrow> sm\<lparr>sm_rx_handle := Some rx\<rparr> | Inl _ \<Rightarrow> sm\<lparr>sm_rx_running := False\<rparr>))"

text \<open>Stops the threads; the second component lists the handles joined.\<close>

definition stop_audio_threads :: "'d StateMachine \<Rightarrow> 'd StateMachine \<times> thread_handle list" where
  "stop_audio_threads sm =
     (sm\<lparr>sm_tx_running := False, sm_rx_running := False, sm_tx_handle := None, sm_rx_handle := None,
         sm_rx_shared := rx_reset (sm_rx_shared sm)\<rparr>,
      List.map_filter id [sm_tx_handle sm, sm_rx_handle sm])"

definition leave_connected :: "'d StateMachine \<Rightarrow> 'd StateMachine" where
  "leave_connected sm =
     (if sm_state sm = AppConnected \<or> sm_state sm = Transmitting \<or> sm_state sm = Receiving
      then sm\<lparr>sm_state := Ready\<rparr> else sm)"

definition on_wifi_direct_connected :: "wifi_io \<Rightarrow> spawns \<Rightarrow> 'd StateMachine \<Rightarrow> 'd StateMachine \<times> (link_error + unit)" where
  "on_wifi_direct_connected io sp sm =
     (case tm_on_wifi_direct_connected io (sm_transport sm) of
        (tm, Inl e) \<Rightarrow> (sm\<lparr>sm_transport := tm\<rparr>, Inl e)
      | (tm, Inr _) \<Rightarrow> (start_audio_pipeline sp (sm\<lparr>sm_transport := tm, sm_state := AppConnected\<rparr>), Inr ()))"

definition on_wifi_direct_disconnected :: "'d StateMachine \<Rightarrow> 'd StateMachine" where
  "on_wifi_direct_disconnected sm =
     (let sm = fst (stop_audio_threads sm);
          sm = sm\<lparr>sm_transport := tm_on_wifi_direct_disconnected (sm_transport sm)\<rparr>
      in leave_connected sm)"

definition connect_wifi_multicast :: "wifi_io \<Rightarrow> spawns \<Rightarrow> 'd StateMachine \<Rightarrow> 'd StateMachine \<times> (link_error + unit)" where
  "connect_wifi_multicast io sp sm =
     (case tm_connect_wifi_multicast io (sm_transport sm) of
        (tm, Inl e) \<Rightarrow> (sm\<lparr>sm_transport := tm, sm_state := AppError\<rparr>, Inl e)
      | (tm, Inr _) \<Rightarrow> (start_audio_pipeline sp (sm\<lparr>sm_transport := tm, sm_state := AppConnected\<rparr>), Inr ()))"

definition on_cellular_connected :: "spawns \<Rightarrow> 'd StateMachine \<Rightarrow> 'd StateMachine" where
  "on_cellular_connected sp sm =
     start_audio_pipeline sp (sm\<lparr>sm_transport := tm_on_cellular_connected (sm_transport sm), sm_state := AppConnected\<rparr>)"

definition on_cellular_disconnected :: "'d StateMachine \<Rightarrow> 'd StateMachine" where
  "on_cellular_disconnected sm =
     (let sm = sm\<lparr>sm_transport := tm_on_cellular_disconnected (sm_transport sm)\<rparr>
      in if has_live_audio_path (sm_transport sm) then sm else leave_connected (fst (stop_audio_threads sm)))"

definition on_cellular_message :: "bytes \<Rightarrow> instant \<Rightarrow> 'd StateMachine \<Rightarrow> 'd StateMachine" where
  "on_cellular_message data now sm = sm\<lparr>sm_transport := tm_on_cellular_message (sm_transport sm) data now\<rparr>"

definition on_cellular_error :: "'d StateMachine \<Rightarrow> 'd StateMachine" where
  "on_cellular_error sm = sm\<lparr>sm_transport := tm_on_cellular_error (sm_transport sm)\<rparr>"

definition on_bluetooth_connected :: "spawns \<Rightarrow> 'd StateMachine \<Rightarrow> 'd StateMachine" where
  "on_bluetooth_connected sp sm =
     start_audio_pipeline sp (sm\<lparr>sm_transport := tm_on_bluetooth_connected (sm_transport sm), sm_state := AppConnected\<rparr>)"

definition on_bluetooth_disconnected :: "'d StateMachine \<Rightarrow> 'd StateMachine" where
  "on_bluetooth_disconnected sm =
     (let sm = sm\<lparr>sm_transport := tm_on_bluetooth_disconnected (sm_transport sm)\<rparr>
      in if has_live_ip_transport (sm_transport sm) then sm else leave_connected (fst (stop_audio_threads sm)))"

definition disconnect :: "'d StateMachine \<Rightarrow> 'd StateMachine" where
  "disconnect sm =
     (let sm = fst (stop_audio_threads (sm\<lparr>sm_state := Disconnecting\<rparr>));
          sm = sm\<lparr>sm_audio_cache := clear_active (sm_audio_cache sm)\<rparr>;
          sm = sm\<lparr>sm_transport := tm_disconnect (sm_transport sm)\<rparr>
      in sm\<lparr>sm_state := Ready\<rparr>)"

definition shutdown :: "'d StateMachine \<Rightarrow> 'd StateMachine" where
  "shutdown sm = disconnect (fst (stop_audio_threads sm))"

definition set_crypto_session :: "CryptoSession \<Rightarrow> 'd StateMachine \<Rightarrow> 'd StateMachine" where
  "set_crypto_session session sm = sm\<lparr>sm_transport := set_crypto (sm_transport sm) session\<rparr>"

text \<open>The remaining calls into the transport manager: room, WiFi sockets, send reports, polling and the staged key.\<close>

definition sm_set_cellular_room :: "rstring \<Rightarrow> 'd StateMachine \<Rightarrow> 'd StateMachine" where
  "sm_set_cellular_room room_id sm = sm\<lparr>sm_transport := tm_set_cellular_room (sm_transport sm) room_id\<rparr>"

definition sm_init_wifi :: "wifi_io \<Rightarrow> 'd StateMachine \<Rightarrow> 'd StateMachine \<times> (link_error + unit)" where
  "sm_init_wifi io sm = (case init_wifi io (sm_transport sm) of (tm, r) \<Rightarrow> (sm\<lparr>sm_transport := tm\<rparr>, r))"

definition sm_poll_cellular_outbound :: "instant \<Rightarrow> 'd StateMachine \<Rightarrow> 'd StateMachine \<times> bytes option" where
  "sm_poll_cellular_outbound now sm =
     (case poll_cellular_outbound (sm_transport sm) now of (tm, r) \<Rightarrow> (sm\<lparr>sm_transport := tm\<rparr>, r))"

definition sm_report_cellular_send_result :: "bool \<Rightarrow> instant \<Rightarrow> 'd StateMachine \<Rightarrow> 'd StateMachine" where
  "sm_report_cellular_send_result success now sm =
     sm\<lparr>sm_transport := report_cellular_send_result (sm_transport sm) success now\<rparr>"

definition sm_poll_bluetooth_outbound :: "instant \<Rightarrow> 'd StateMachine \<Rightarrow> 'd StateMachine \<times> bytes option" where
  "sm_poll_bluetooth_outbound now sm =
     (case poll_bluetooth_outbound (sm_transport sm) now of (tm, r) \<Rightarrow> (sm\<lparr>sm_transport := tm\<rparr>, r))"

definition sm_report_bluetooth_send_result :: "bool \<Rightarrow> 'd StateMachine \<Rightarrow> 'd StateMachine" where
  "sm_report_bluetooth_send_result success sm =
     sm\<lparr>sm_transport := report_bluetooth_send_result (sm_transport sm) success\<rparr>"

definition sm_arm_pending_rx :: "CryptoSession \<Rightarrow> 'd StateMachine \<Rightarrow> 'd StateMachine" where
  "sm_arm_pending_rx session sm = sm\<lparr>sm_transport := arm_pending_rx (sm_transport sm) session\<rparr>"

definition sm_discard_pending_rx :: "'d StateMachine \<Rightarrow> 'd StateMachine" where
  "sm_discard_pending_rx sm = sm\<lparr>sm_transport := discard_pending_rx (sm_transport sm)\<rparr>"

definition sm_set_psk :: "bytes \<Rightarrow> bytes \<Rightarrow> 'd StateMachine \<Rightarrow> 'd StateMachine" where
  "sm_set_psk key nonce_prefix sm = sm\<lparr>sm_transport := set_psk (sm_transport sm) key nonce_prefix\<rparr>"

definition on_ptt_press :: "'d StateMachine \<Rightarrow> 'd StateMachine" where
  "on_ptt_press sm = sm\<lparr>sm_ptt_pressed := True, sm_state := Transmitting\<rparr>"

definition on_ptt_release :: "'d StateMachine \<Rightarrow> 'd StateMachine" where
  "on_ptt_release sm = sm\<lparr>sm_ptt_pressed := False, sm_state := AppConnected\<rparr>"

section \<open>Events\<close>

text \<open>The callbacks of the Kotlin side and the user, with the platform's answers.\<close>

datatype sm_event =
    WifiDirectUp wifi_io spawns | WifiDirectDown | MulticastUp wifi_io spawns
  | RelayUp spawns | RelayDown | RelayMessage bytes instant | RelayError
  | BluetoothUp spawns | BluetoothDown | UserDisconnect | PttPress | PttRelease | InstallSession CryptoSession
  | SetRoom rstring | InitWifi wifi_io | PollRelay instant | RelaySendResult bool instant
  | PollBluetooth instant | BluetoothSendResult bool | ArmPending CryptoSession | DiscardPending | SetPsk bytes bytes

fun sm_step :: "'d StateMachine \<Rightarrow> sm_event \<Rightarrow> 'd StateMachine" where
  "sm_step sm (WifiDirectUp io sp) = fst (on_wifi_direct_connected io sp sm)"
| "sm_step sm WifiDirectDown = on_wifi_direct_disconnected sm"
| "sm_step sm (MulticastUp io sp) = fst (connect_wifi_multicast io sp sm)"
| "sm_step sm (RelayUp sp) = on_cellular_connected sp sm"
| "sm_step sm RelayDown = on_cellular_disconnected sm"
| "sm_step sm (RelayMessage data now) = on_cellular_message data now sm"
| "sm_step sm RelayError = on_cellular_error sm"
| "sm_step sm (BluetoothUp sp) = on_bluetooth_connected sp sm"
| "sm_step sm BluetoothDown = on_bluetooth_disconnected sm"
| "sm_step sm UserDisconnect = disconnect sm"
| "sm_step sm PttPress = on_ptt_press sm"
| "sm_step sm PttRelease = on_ptt_release sm"
| "sm_step sm (InstallSession s) = set_crypto_session s sm"
| "sm_step sm (SetRoom room_id) = sm_set_cellular_room room_id sm"
| "sm_step sm (InitWifi io) = fst (sm_init_wifi io sm)"
| "sm_step sm (PollRelay now) = fst (sm_poll_cellular_outbound now sm)"
| "sm_step sm (RelaySendResult success now) = sm_report_cellular_send_result success now sm"
| "sm_step sm (PollBluetooth now) = fst (sm_poll_bluetooth_outbound now sm)"
| "sm_step sm (BluetoothSendResult success) = sm_report_bluetooth_send_result success sm"
| "sm_step sm (ArmPending s) = sm_arm_pending_rx s sm"
| "sm_step sm DiscardPending = sm_discard_pending_rx sm"
| "sm_step sm (SetPsk key nonce) = sm_set_psk key nonce sm"

fun spawns_of :: "sm_event \<Rightarrow> spawns option" where
  "spawns_of (WifiDirectUp io sp) = Some sp"
| "spawns_of (MulticastUp io sp) = Some sp"
| "spawns_of (RelayUp sp) = Some sp"
| "spawns_of (BluetoothUp sp) = Some sp"
| "spawns_of _ = None"

definition spawns_ok :: "sm_event \<Rightarrow> bool" where
  "spawns_ok ev \<longleftrightarrow> (case spawns_of ev of Some (Inr _, Inr _) \<Rightarrow> True | Some _ \<Rightarrow> False | None \<Rightarrow> True)"

text \<open>Both threads run and are held, or neither.\<close>

definition threads_ok :: "'d StateMachine \<Rightarrow> bool" where
  "threads_ok sm \<longleftrightarrow> sm_tx_running sm = sm_rx_running sm \<and>
     (sm_tx_handle sm \<noteq> None) = sm_tx_running sm \<and> (sm_rx_handle sm \<noteq> None) = sm_rx_running sm"

definition running :: "'d StateMachine \<Rightarrow> bool" where
  "running sm \<longleftrightarrow> sm_tx_running sm \<and> sm_rx_running sm \<and> sm_tx_handle sm \<noteq> None \<and> sm_rx_handle sm \<noteq> None"

lemma start_threads:
  "threads_ok sm \<Longrightarrow> sp = (Inr tx, Inr rx) \<Longrightarrow> threads_ok (start_audio_pipeline sp sm) \<and> running (start_audio_pipeline sp sm)"
  by (auto simp: start_audio_pipeline_def threads_ok_def running_def Let_def)

lemma stop_threads [simp]: "threads_ok (fst (stop_audio_threads sm))" "\<not> sm_tx_running (fst (stop_audio_threads sm))"
  "\<not> sm_rx_running (fst (stop_audio_threads sm))"
  by (simp_all add: stop_audio_threads_def threads_ok_def)

lemma leave_threads [simp]: "threads_ok (leave_connected sm) = threads_ok sm" "sm_tx_running (leave_connected sm) = sm_tx_running sm"
  "sm_rx_running (leave_connected sm) = sm_rx_running sm" "sm_transport (leave_connected sm) = sm_transport sm"
  by (simp_all add: leave_connected_def threads_ok_def)

lemma threads_ok_other [simp]:
  "threads_ok (sm\<lparr>sm_transport := t\<rparr>) = threads_ok sm" "threads_ok (sm\<lparr>sm_state := a\<rparr>) = threads_ok sm"
  "threads_ok (sm\<lparr>sm_audio_cache := c\<rparr>) = threads_ok sm" "threads_ok (sm\<lparr>sm_ptt_pressed := b\<rparr>) = threads_ok sm"
  by (simp_all add: threads_ok_def)

lemmas sm_link_defs = on_wifi_direct_connected_def on_wifi_direct_disconnected_def connect_wifi_multicast_def
  on_cellular_connected_def on_cellular_disconnected_def on_bluetooth_connected_def on_bluetooth_disconnected_def disconnect_def

lemmas sm_other_defs = on_cellular_message_def on_cellular_error_def on_ptt_press_def on_ptt_release_def
  set_crypto_session_def sm_set_cellular_room_def sm_init_wifi_def sm_poll_cellular_outbound_def
  sm_report_cellular_send_result_def sm_poll_bluetooth_outbound_def sm_report_bluetooth_send_result_def
  sm_arm_pending_rx_def sm_discard_pending_rx_def sm_set_psk_def

lemma step_threads: "threads_ok sm \<Longrightarrow> spawns_ok ev \<Longrightarrow> threads_ok (sm_step sm ev)"
  by (cases ev)
     (auto simp: spawns_ok_def sm_link_defs sm_other_defs Let_def start_threads split: prod.splits sum.splits)

text \<open>A link is up once connected, whether or not the last send succeeded.\<close>

definition link_up :: "TransportManager \<Rightarrow> bool" where
  "link_up tm \<longleftrightarrow> wifi_live tm \<or> ct_state (tm_cellular tm) = Connected \<or> tm_bluetooth_connected tm"

definition sends_ok :: "TransportManager \<Rightarrow> bool" where
  "sends_ok tm \<longleftrightarrow> (ct_state (tm_cellular tm) = Connected \<longrightarrow> ct_tx_send_allowed (tm_cellular tm)) \<and>
     (tm_bluetooth_connected tm \<longrightarrow> tm_bluetooth_tx_allowed tm)"

definition served :: "'d StateMachine \<Rightarrow> bool" where
  "served sm \<longleftrightarrow> threads_ok sm \<and> sends_ok (sm_transport sm) \<and> (link_up (sm_transport sm) \<longrightarrow> running sm)"

text \<open>The events after which a live path is left without threads.\<close>

fun silencing :: "sm_event \<Rightarrow> bool" where
  "silencing WifiDirectDown = True"
| "silencing (RelaySendResult success now) = (\<not> success)"
| "silencing (BluetoothSendResult success) = (\<not> success)"
| "silencing _ = False"

lemmas served_defs = served_def sends_ok_def link_up_def wifi_live_def

lemma served_cong:
  assumes "served sm" "sm_transport sm' = sm_transport sm" "running sm' = running sm" "threads_ok sm' = threads_ok sm"
  shows "served sm'"
  using assms by (simp add: served_def)

lemma running_other [simp]:
  "running (sm\<lparr>sm_transport := t\<rparr>) = running sm" "running (sm\<lparr>sm_state := a\<rparr>) = running sm"
  "running (sm\<lparr>sm_audio_cache := c\<rparr>) = running sm" "running (sm\<lparr>sm_ptt_pressed := b\<rparr>) = running sm"
  by (simp_all add: running_def)

lemma stop_transport [simp]: "sm_transport (fst (stop_audio_threads sm)) = sm_transport sm"
  by (simp add: stop_audio_threads_def)

lemma start_transport [simp]: "sm_transport (start_audio_pipeline sp sm) = sm_transport sm"
  by (auto simp: start_audio_pipeline_def Let_def split: sum.splits)

text \<open>After a connect callback the threads run, so only the send permissions remain to be shown.\<close>

lemma served_start:
  assumes "threads_ok sm" "sends_ok (sm_transport sm)"
  shows "served (start_audio_pipeline (Inr tx, Inr rx) sm)"
  using start_threads [OF assms(1) refl, of tx rx] assms(2) by (simp add: served_def)

lemma wifi_init_relay:
  "init_wifi io tm = (tm', r) \<Longrightarrow> tm_cellular tm' = tm_cellular tm \<and> tm_bluetooth_connected tm' = tm_bluetooth_connected tm \<and>
     tm_bluetooth_tx_allowed tm' = tm_bluetooth_tx_allowed tm \<and> \<not> wifi_live tm'"
  by (auto simp: init_wifi_def wifi_init_def wifi_live_def Let_def split: option.splits prod.splits)

lemma served_transport:
  assumes "served sm" "sends_ok tm" "link_up tm \<Longrightarrow> link_up (sm_transport sm)"
  shows "served (sm\<lparr>sm_transport := tm\<rparr>)"
  using assms by (simp add: served_def)

lemma spawns_okE:
  assumes "spawns_ok ev" "spawns_of ev = Some sp"
  obtains tx rx where "sp = (Inr tx, Inr rx)"
  using assms by (cases sp; cases "fst sp"; cases "snd sp") (auto simp: spawns_ok_def)

lemma served_wifi_up:
  assumes s: "served sm"
  shows "served (fst (on_wifi_direct_connected io (Inr tx, Inr rx) sm))" "served (fst (connect_wifi_multicast io (Inr tx, Inr rx) sm))"
proof -
  have t: "threads_ok sm" "sends_ok (sm_transport sm)" using s by (simp_all add: served_def)
  obtain tm r where w: "init_wifi io (sm_transport sm) = (tm, r)" by (cases "init_wifi io (sm_transport sm)")
  note k = wifi_init_relay [OF w]
  have up: "sends_ok tm" "link_up tm \<Longrightarrow> link_up (sm_transport sm)" using k t(2) by (auto simp: sends_ok_def link_up_def)
  have fail: "served (sm\<lparr>sm_transport := tm\<rparr>)" "served (sm\<lparr>sm_transport := tm, sm_state := a\<rparr>)" for a
    using served_transport [OF s up] by (auto intro: served_cong)
  have ok: "served (start_audio_pipeline (Inr tx, Inr rx) (sm\<lparr>sm_transport := u, sm_state := a\<rparr>))" if "sends_ok u" for u a
    using that t(1) by (intro served_start) simp_all
  show "served (fst (on_wifi_direct_connected io (Inr tx, Inr rx) sm))"
    using fail up(1) w by (auto simp: on_wifi_direct_connected_def tm_on_wifi_direct_connected_def Let_def sends_ok_def
        intro!: ok split: sum.splits)
  show "served (fst (connect_wifi_multicast io (Inr tx, Inr rx) sm))"
    using fail up(1) w by (auto simp: connect_wifi_multicast_def tm_connect_wifi_multicast_def adopt_wifi_as_active_def
        sends_ok_def intro!: ok split: sum.splits)
qed

lemma served_link_up:
  assumes s: "served sm"
  shows "served (on_cellular_connected (Inr tx, Inr rx) sm)" "served (on_bluetooth_connected (Inr tx, Inr rx) sm)"
proof -
  have t: "threads_ok sm" "sends_ok (sm_transport sm)" using s by (simp_all add: served_def)
  show "served (on_cellular_connected (Inr tx, Inr rx) sm)" "served (on_bluetooth_connected (Inr tx, Inr rx) sm)"
    unfolding on_cellular_connected_def on_bluetooth_connected_def using t
    by (intro served_start; simp add: sends_ok_def tm_on_cellular_connected_def cell_on_connected_def
        tm_on_bluetooth_connected_def Let_def)+
qed

lemma served_link_down:
  assumes s: "served sm"
  shows "served (on_cellular_disconnected sm)" "served (on_bluetooth_disconnected sm)" "served (disconnect sm)"
  using s by (auto simp: on_cellular_disconnected_def on_bluetooth_disconnected_def disconnect_def served_def sends_ok_def
      link_up_def Let_def tm_on_cellular_disconnected_def cell_on_disconnected_def tm_on_bluetooth_disconnected_def
      has_live_audio_path_def has_live_ip_transport_def bluetooth_live_def can_transmit_realtime_def tm_disconnect_def
      cell_shutdown_def wifi_live_def wifi_shutdown_def)

lemma served_step:
  assumes s: "served sm" and ok: "spawns_ok ev" and q: "\<not> silencing ev"
  shows "served (sm_step sm ev)"
proof (cases "spawns_of ev")
  case (Some sp)
  obtain tx rx where "sp = (Inr tx, Inr rx)" using spawns_okE [OF ok Some] .
  then show ?thesis using Some s by (cases ev) (auto intro: served_wifi_up served_link_up)
next
  case None
  have keep: "served (sm\<lparr>sm_transport := tm\<rparr>)" if "tm_cellular tm = tm_cellular (sm_transport sm)"
    "tm_wifi tm = tm_wifi (sm_transport sm)" "tm_bluetooth_connected tm = tm_bluetooth_connected (sm_transport sm)"
    "tm_bluetooth_tx_allowed tm = tm_bluetooth_tx_allowed (sm_transport sm)" for tm
    using s that by (auto simp: served_def sends_ok_def link_up_def wifi_live_def)
  have relay: "served (sm\<lparr>sm_transport := (sm_transport sm)\<lparr>tm_cellular := c\<rparr>\<rparr>)"
    if "ct_state c = Connected \<Longrightarrow> ct_state (tm_cellular (sm_transport sm)) = Connected \<and>
      (ct_tx_send_allowed (tm_cellular (sm_transport sm)) \<longrightarrow> ct_tx_send_allowed c)" for c
    using s that by (auto simp: served_def sends_ok_def link_up_def wifi_live_def)
  have bt: "served (sm\<lparr>sm_transport := (sm_transport sm)\<lparr>tm_bluetooth_tx_allowed := True\<rparr>\<rparr>)"
    using s by (simp add: served_def sends_ok_def link_up_def wifi_live_def)
  show ?thesis
  proof (cases ev)
    case (InitWifi io)
    obtain tm r where w: "init_wifi io (sm_transport sm) = (tm, r)" by (cases "init_wifi io (sm_transport sm)")
    show ?thesis using InitWifi w s wifi_init_relay [OF w]
      by (auto simp: sm_init_wifi_def served_def sends_ok_def link_up_def)
  next
    case (BluetoothSendResult success)
    then show ?thesis using bt q by (simp add: sm_report_bluetooth_send_result_def report_bluetooth_send_result_def)
  qed (use s None q in \<open>auto intro: served_link_down keep relay served_cong simp: sm_other_defs tm_on_cellular_message_def
      on_message_received_def tm_on_cellular_error_def cell_on_error_def set_crypto_def tm_set_cellular_room_def set_room_id_def
      poll_cellular_outbound_def poll_outbound_def report_cellular_send_result_def report_send_result_def
      poll_bluetooth_outbound_def report_bluetooth_send_result_def arm_pending_rx_def discard_pending_rx_def set_psk_def
      split: prod.splits\<close>)
qed

lemma served_new: "served (StateMachine_new sha256 ptt channel subchannel next_id prebuffer)"
  by (simp add: served_def threads_ok_def sends_ok_def link_up_def wifi_live_def StateMachine_new_def TransportManager_new_def
      CellularTransport_new_def WifiTransport_new_def)

lemma threads_ok_run:
  assumes "threads_ok sm" "\<forall>ev \<in> set evs. spawns_ok ev"
  shows "threads_ok (foldl sm_step sm evs)"
  using assms by (induction evs arbitrary: sm) (auto intro: step_threads)

lemma served_run:
  assumes "served sm" "\<forall>ev \<in> set evs. spawns_ok ev \<and> \<not> silencing ev"
  shows "served (foldl sm_step sm evs)"
  using assms by (induction evs arbitrary: sm) (auto intro: served_step)

lemma live_link_up: "has_live_audio_path tm \<Longrightarrow> link_up tm"
  by (auto simp: has_live_audio_path_def has_live_ip_transport_def link_up_def bluetooth_live_def can_transmit_realtime_def)

lemma stopped_stays:
  assumes "spawns_of ev = None" "\<not> sm_tx_running sm" "\<not> sm_rx_running sm"
  shows "\<not> sm_tx_running (sm_step sm ev) \<and> \<not> sm_rx_running (sm_step sm ev)"
  using assms by (cases ev) (auto simp: sm_link_defs sm_other_defs Let_def split: prod.splits)

lemma stopped_run:
  assumes "\<forall>ev \<in> set evs. spawns_of ev = None" "\<not> sm_tx_running sm" "\<not> sm_rx_running sm"
  shows "\<not> sm_tx_running (foldl sm_step sm evs) \<and> \<not> sm_rx_running (foldl sm_step sm evs)"
  using assms by (induction evs arbitrary: sm) (auto dest: stopped_stays)

section \<open>Properties\<close>


text \<open>Concrete: relay and Bluetooth come up, the relay drops, a key is installed; audio still runs over Bluetooth.\<close>

definition flap_events :: "sm_event list" where
  "flap_events = [RelayUp (Inr 1, Inr 2), BluetoothUp (Inr 3, Inr 4), RelayDown, InstallSession (from_psk [] [])]"


text \<open>
  C38 (error). Dissolving a WiFi Direct group silences the other bearers: the threads are stopped although the relay or
  Bluetooth still carries audio, and no later event restarts them short of another connect callback, which a link
  that never went down does not send. The relay and Bluetooth callbacks make the check that is missing here.
\<close>

theorem wifi_direct_loss_silences:
  assumes live: "can_transmit_realtime (tm_cellular (sm_transport sm)) \<or> bluetooth_live (sm_transport sm)"
    and quiet: "\<forall>ev \<in> set evs. spawns_of ev = None"
  shows "has_live_audio_path (sm_transport (on_wifi_direct_disconnected sm)) \<and>
    \<not> sm_tx_running (foldl sm_step (on_wifi_direct_disconnected sm) evs) \<and>
    \<not> sm_rx_running (foldl sm_step (on_wifi_direct_disconnected sm) evs)"
proof -
  have "has_live_audio_path (sm_transport (on_wifi_direct_disconnected sm))"
    using live by (auto simp: on_wifi_direct_disconnected_def has_live_audio_path_def has_live_ip_transport_def
        tm_on_wifi_direct_disconnected_def bluetooth_live_def)
  moreover have "\<not> sm_tx_running (on_wifi_direct_disconnected sm)" "\<not> sm_rx_running (on_wifi_direct_disconnected sm)"
    by (simp_all add: on_wifi_direct_disconnected_def Let_def)
  from stopped_run [OF quiet this]
  have "\<not> sm_tx_running (foldl sm_step (on_wifi_direct_disconnected sm) evs) \<and>
    \<not> sm_rx_running (foldl sm_step (on_wifi_direct_disconnected sm) evs)" .
  ultimately show ?thesis by blast
qed

theorem wifi_direct_loss_silences_witness:
  "\<exists>sm :: nat StateMachine. running sm \<and> has_live_audio_path (sm_transport (on_wifi_direct_disconnected sm)) \<and>
     \<not> sm_tx_running (foldl sm_step (on_wifi_direct_disconnected sm) [PttPress, RelayMessage [1] 0, PttRelease])"
proof -
  let ?sm = "on_cellular_connected (Inr 1, Inr 2) (StateMachine_new (\<lambda>b. b) False 1 0 1 3 :: nat StateMachine)"
  have live: "can_transmit_realtime (tm_cellular (sm_transport ?sm)) \<or> bluetooth_live (sm_transport ?sm)"
    by (simp add: on_cellular_connected_def tm_on_cellular_connected_def cell_on_connected_def can_transmit_realtime_def)
  have quiet: "\<forall>ev \<in> set [PttPress, RelayMessage [1] 0, PttRelease]. spawns_of ev = None" by simp
  have "running ?sm"
    by (simp add: on_cellular_connected_def start_audio_pipeline_def StateMachine_new_def running_def)
  then show ?thesis using wifi_direct_loss_silences [OF live quiet] by blast
qed

end
