(* ===== verification/Codec.thy ===== *)
theory Codec
  imports Rx_Decode
begin

text \<open>
  The Opus wrapper of \<open>android-native/src/codec.rs\<close>. The C library is a parameter: its encoder and decoder states and
  the calls the wrapper makes, each with its return code and what it wrote into the output buffer. The wrapper's own
  part is modelled: buffer sizes, the handling of return codes, the fall-backs to silence and concealment.
\<close>

section \<open>Model\<close>

definition CODEC_FRAME_SIZE :: nat where "CODEC_FRAME_SIZE = 960"
definition COMPRESSED_FRAME_SIZE :: nat where "COMPRESSED_FRAME_SIZE = 256"
definition VOICE_BITRATE :: int where "VOICE_BITRATE = 32000"

datatype encoder_request = SetBitrate int | SetComplexity int | SetInbandFec int | SetPacketLossPerc int

record ('e, 'd) opus =
  op_encoder_create :: "'e option"
  op_encoder_ctl :: "'e \<Rightarrow> encoder_request \<Rightarrow> 'e"
  op_encode :: "'e \<Rightarrow> pcm \<Rightarrow> nat \<Rightarrow> 'e \<times> int \<times> bytes"
  op_decoder_create :: "'d option"
  op_decode :: "'d \<Rightarrow> bytes \<Rightarrow> nat \<Rightarrow> bool \<Rightarrow> 'd \<times> int \<times> pcm"

text \<open>The four settings applied to every new encoder.\<close>

definition configure_encoder :: "('e, 'd) opus \<Rightarrow> 'e \<Rightarrow> 'e" where
  "configure_encoder op e =
     foldl (op_encoder_ctl op) e [SetBitrate VOICE_BITRATE, SetComplexity 5, SetInbandFec 1, SetPacketLossPerc 10]"

definition VoiceEncoder_new :: "('e, 'd) opus \<Rightarrow> (unit, 'e) outcome" where
  "VoiceEncoder_new op = (case op_encoder_create op of None \<Rightarrow> Panic | Some e \<Rightarrow> Ok (configure_encoder op e))"

definition encoder_reset :: "('e, 'd) opus \<Rightarrow> 'e \<Rightarrow> 'e" where
  "encoder_reset op e = (case op_encoder_create op of None \<Rightarrow> e | Some e1 \<Rightarrow> configure_encoder op e1)"

text \<open>A zeroed buffer of the given size after the library has written its front, cut to \<open>n\<close>.\<close>

definition out_buffer :: "nat \<Rightarrow> int \<Rightarrow> 'a::zero list \<Rightarrow> 'a list" where
  "out_buffer sz n written = take (nat n) (take sz written @ replicate (sz - length written) 0)"

definition encode_frame :: "('e, 'd) opus \<Rightarrow> 'e \<Rightarrow> pcm \<Rightarrow> 'e \<times> bytes" where
  "encode_frame op e pcm =
     (case op_encode op e pcm COMPRESSED_FRAME_SIZE of
        (e1, n, written) \<Rightarrow> (e1, if n \<le> 0 then [] else out_buffer COMPRESSED_FRAME_SIZE n written))"

definition VoiceDecoder_new :: "('e, 'd) opus \<Rightarrow> (unit, 'd) outcome" where
  "VoiceDecoder_new op = (case op_decoder_create op of None \<Rightarrow> Panic | Some d \<Rightarrow> Ok d)"

definition decoder_reset :: "('e, 'd) opus \<Rightarrow> 'd \<Rightarrow> 'd" where
  "decoder_reset op d = (case op_decoder_create op of None \<Rightarrow> d | Some d1 \<Rightarrow> d1)"

definition silence :: pcm where "silence = replicate CODEC_FRAME_SIZE 0"

definition decode_frame :: "('e, 'd) opus \<Rightarrow> 'd \<Rightarrow> bytes \<Rightarrow> 'd \<times> pcm" where
  "decode_frame op d compressed =
     (if compressed = [] then (d, silence)
      else case op_decode op d compressed CODEC_FRAME_SIZE False of
             (d1, n, written) \<Rightarrow> (d1, if n \<le> 0 then silence else out_buffer CODEC_FRAME_SIZE n written))"

definition decode_plc :: "('e, 'd) opus \<Rightarrow> 'd \<Rightarrow> 'd \<times> pcm" where
  "decode_plc op d =
     (case op_decode op d [] CODEC_FRAME_SIZE False of
        (d1, n, written) \<Rightarrow> (d1, if n \<le> 0 then silence else out_buffer CODEC_FRAME_SIZE n written))"

definition decode_fec_from_next :: "('e, 'd) opus \<Rightarrow> 'd \<Rightarrow> bytes \<Rightarrow> 'd \<times> pcm" where
  "decode_fec_from_next op d next_packet =
     (if next_packet = [] then decode_plc op d
      else case op_decode op d next_packet CODEC_FRAME_SIZE True of
             (d1, n, written) \<Rightarrow> if n \<le> 0 then decode_plc op d1 else (d1, out_buffer CODEC_FRAME_SIZE n written))"

text \<open>The decoder the reorder buffer runs on, from a decoder state made by \<open>VoiceDecoder::new\<close>.\<close>

definition opus_decoder :: "('e, 'd) opus \<Rightarrow> 'd \<Rightarrow> 'd voice_decoder" where
  "opus_decoder op d0 =
     \<lparr>vd_new = d0, vd_decode = decode_frame op, vd_decode_fec_from_next = decode_fec_from_next op,
      vd_decode_plc = decode_plc op, vd_reset = decoder_reset op\<rparr>"

section \<open>Frame sizes\<close>

lemma length_out_buffer: "0 < n \<Longrightarrow> length (out_buffer sz n written) = min (nat n) sz"
  by (simp add: out_buffer_def) arith

lemma length_silence [simp]: "length silence = 960"
  by (simp add: silence_def CODEC_FRAME_SIZE_def)

lemma encode_frame_size: "length (snd (encode_frame op e pcm)) \<le> 256"
  by (simp add: encode_frame_def length_out_buffer COMPRESSED_FRAME_SIZE_def split: prod.split)

text \<open>A decoded frame: at least one sample, at most 20 ms.\<close>

definition frame_sized :: "pcm \<Rightarrow> bool" where
  "frame_sized p \<longleftrightarrow> 0 < length p \<and> length p \<le> CODEC_FRAME_SIZE"

lemma frame_sized_out [simp]: "0 < n \<Longrightarrow> frame_sized (out_buffer CODEC_FRAME_SIZE n written)" "frame_sized silence"
  by (simp_all add: frame_sized_def length_out_buffer CODEC_FRAME_SIZE_def)

lemma decoder_frame_sized:
  "frame_sized (snd (decode_frame op d bs))" "frame_sized (snd (decode_plc op d))" "frame_sized (snd (decode_fec_from_next op d bs))"
proof -
  show plc: "frame_sized (snd (decode_plc op d))" for d
    by (simp add: decode_plc_def not_le split: prod.split)
  show "frame_sized (snd (decode_frame op d bs))"
    by (simp add: decode_frame_def not_le split: prod.split)
  show "frame_sized (snd (decode_fec_from_next op d bs))"
    using plc by (simp add: decode_fec_from_next_def not_le split: prod.split)
qed

text \<open>
  A contract between the codec and its clients: whatever the decoder is asked to do, it answers with a frame of the
  stated size. Everything the reorder buffer hands on then has that size.
\<close>

locale sized_decoder =
  fixes vd :: "'d voice_decoder" and good :: "pcm \<Rightarrow> bool"
  assumes decode_good: "good (snd (vd_decode vd d bs))"
    and fec_good: "good (snd (vd_decode_fec_from_next vd d bs))"
    and plc_good: "good (snd (vd_decode_plc vd d))"
begin

lemma conceal_good: "conceal vd expected gap next_ts i n st = (st1, out) \<Longrightarrow> \<forall>(_, _, _, p) \<in> set out. good p"
proof (induction n arbitrary: i st st1 out)
  case (Suc n)
  obtain d p where d: "vd_decode_plc vd (sd_decoder st) = (d, p)" by (cases "vd_decode_plc vd (sd_decoder st)")
  define st0 where "st0 = st\<lparr>sd_decoder := d, sd_last_decoded_seq := Some (sat_add expected (word_of_nat i))\<rparr>"
  obtain st2 out2 where r: "conceal vd expected gap next_ts (Suc i) n st0 = (st2, out2)"
    by (cases "conceal vd expected gap next_ts (Suc i) n st0")
  have "good p" using plc_good [of "sd_decoder st"] d by simp
  with Suc.IH [OF r] Suc.prems d r show ?case by (auto simp: Let_def st0_def)
qed simp

lemma turn_good: "drain_turn vd max_plc wait_ms now st = (st1, out, c) \<Longrightarrow> \<forall>(_, _, _, p) \<in> set out. good p"
  using decode_good fec_good
  by (auto simp: drain_turn_def fill_gap_def Let_def split: option.splits list.splits if_splits prod.splits dest: conceal_good)
     (metis snd_conv)+

lemma drain_good: "drain_decodable vd max_plc wait_ms now st = (st1, out) \<Longrightarrow> \<forall>(_, _, _, p) \<in> set out. good p"
proof (induction n \<equiv> "drain_measure st" arbitrary: st st1 out rule: less_induct)
  case less
  obtain st2 out2 c where turn: "drain_turn vd max_plc wait_ms now st = (st2, out2, c)" by (metis prod_cases3)
  show ?case
  proof (cases c)
    case False
    with turn less.prems turn_good [OF turn] show ?thesis by (simp add: drain_decodable.simps [of vd max_plc wait_ms now st])
  next
    case True
    obtain st3 out3 where rest: "drain_decodable vd max_plc wait_ms now st2 = (st3, out3)"
      by (cases "drain_decodable vd max_plc wait_ms now st2")
    have "drain_measure st2 < drain_measure st" by (rule drain_turn_decreases) (use turn True in simp)
    from less.hyps [OF this rest] turn_good [OF turn] less.prems turn True rest show ?thesis
      by (auto simp: drain_decodable.simps [of vd max_plc wait_ms now st])
  qed
qed

lemma ingest_good: "ingest vd ep sq ts pkt max_plc wait_ms now st = (st1, out) \<Longrightarrow> \<forall>(_, _, _, p) \<in> set out. good p"
  by (auto simp: ingest_def Let_def split: option.splits if_splits dest: drain_good)

end

interpretation opus_sized: sized_decoder "opus_decoder op d0" frame_sized for op :: "('e, 'd) opus" and d0
  by unfold_locales (simp_all add: opus_decoder_def decoder_frame_sized)

section \<open>Properties\<close>

text \<open>
  Whatever the Opus library returns, a compressed frame is at most 256 bytes and every frame the reorder
  buffer hands on for playback, decoded, recovered or concealed, has between 1 and 960 samples.
\<close>

theorem codec_frame_bounds:
  "length (snd (encode_frame op e pcm)) \<le> 256 \<and>
   (\<forall>(_, _, _, p) \<in> set (snd (ingest (opus_decoder op d0) ep sq ts pkt max_plc wait_ms now st)). 0 < length p \<and> length p \<le> 960)"
proof -
  obtain st1 out where i: "ingest (opus_decoder op d0) ep sq ts pkt max_plc wait_ms now st = (st1, out)"
    by (cases "ingest (opus_decoder op d0) ep sq ts pkt max_plc wait_ms now st")
  from opus_sized.ingest_good [OF i] i encode_frame_size [of op e pcm] show ?thesis
    by (auto simp: frame_sized_def CODEC_FRAME_SIZE_def)
qed

text \<open>A library that stores one byte per frame and gives it back, for the witnesses.\<close>

definition echo_opus :: "(nat, nat) opus" where
  "echo_opus =
     \<lparr>op_encoder_create = Some 0, op_encoder_ctl = (\<lambda>e r. e), op_encode = (\<lambda>e p sz. (e + 1, 1, [word_of_nat (e + 1)])),
      op_decoder_create = Some 0, op_decode = (\<lambda>d bs sz fec. (d + 1, 2, map ucast bs))\<rparr>"

theorem codec_frame_bounds_witness:
  "\<forall>(_, _, _, p) \<in> set (snd (ingest (opus_decoder echo_opus 0) 7 0 0 [9] 5 60 0 (SenderDecodeState_new (opus_decoder echo_opus 0)))).
     0 < length p \<and> length p \<le> 960"
  using codec_frame_bounds [of echo_opus 0 "[]" 0 7 0 0 "[9]" 5 60 0 "SenderDecodeState_new (opus_decoder echo_opus 0)"] by simp

end
