(* ===== verification/Voice_Threads.thy ===== *)
theory Voice_Threads
  imports Transport Rx_Path Codec
begin

text \<open>
  The two audio threads of \<open>android-native/src/audio_pipeline.rs\<close>. The transmit thread captures 20 ms frames while
  push-to-talk is held, applies gain, noise suppression and squelch, encodes, numbers and packs them, and sends each
  one or buffers them until release. The receive thread empties both bearers through the wire parser. A turn of a
  loop is one definition; what the microphone, the clock and the sockets answer during the turn is its argument. The
  noise suppressor of \<open>audio_effects.rs\<close> is a parameter. Gain and level arithmetic is exact.
\<close>

section \<open>Settings and stream epochs\<close>

definition clamp :: "int \<Rightarrow> int \<Rightarrow> int \<Rightarrow> int" where
  "clamp lo hi x = (if x < lo then lo else if hi < x then hi else x)"

definition set_mic_gain_x100 :: "int \<Rightarrow> int" where
  "set_mic_gain_x100 g = clamp 25 400 g"

definition set_squelch_dbfs :: "int \<Rightarrow> int" where
  "set_squelch_dbfs threshold = (if threshold = 0 then 0 else clamp (- 60) (- 10) threshold)"

definition apply_mic_gain :: "pcm \<Rightarrow> int \<Rightarrow> pcm" where
  "apply_mic_gain pcm gain_x100 =
     (if gain_x100 = 100 then pcm
      else map (\<lambda>s. to_i16 (real_of_int (sint s) * (real_of_int gain_x100 / 100))) pcm)"

definition frame_dbfs :: "pcm \<Rightarrow> real" where
  "frame_dbfs pcm =
     (if pcm = [] then - 120
      else let sum_sq = sum_list (map (\<lambda>s. (real_of_int (sint s) / 32768) * (real_of_int (sint s) / 32768)) pcm);
               rms = sqrt (sum_sq / real (length pcm))
           in if rms \<le> 1 / 10 ^ 9 then - 120 else 20 * log 10 rms)"

definition squelch_drops_frame :: "int \<Rightarrow> pcm \<Rightarrow> bool" where
  "squelch_drops_frame squelch pcm \<longleftrightarrow> squelch \<noteq> 0 \<and> frame_dbfs pcm < real_of_int squelch"

text \<open>The epoch of a new stream, and the counter afterwards.\<close>

definition next_stream_epoch :: "u64 \<Rightarrow> u64 \<Rightarrow> u64 \<times> u64" where
  "next_stream_epoch now_ms counter = (word_rotl 17 now_ms XOR counter, counter + 1)"

section \<open>The transmit thread\<close>

record ('e, 'n) TxState =
  tx_encoder :: 'e
  tx_was_transmitting :: bool
  tx_idle_ticks :: u32
  tx_frame_index :: u64
  tx_stream_epoch_ms :: u64
  tx_frame_buffer :: "bytes list"
  tx_denoiser :: 'n
  tx_ptt_pressed :: bool
  tx_transport :: TransportManager
  tx_epoch_counter :: u64
  tx_mic_gain :: int
  tx_squelch :: int
  tx_buffer_mode :: bool

text \<open>What is fixed when the thread is spawned, and what one turn is answered.\<close>

record ('e, 'd, 'n) tx_env =
  te_opus :: "('e, 'd) opus"
  te_aead :: aead_fun
  te_denoise :: "'n \<Rightarrow> pcm \<Rightarrow> 'n \<times> pcm"
  te_sender_id :: rstring
  te_device_name :: rstring

record tx_io =
  io_channel :: u8
  io_subchannel :: u8
  io_now_ms :: u64
  io_start :: "rstring option"
  io_reads :: "(rstring + pcm) list"
  io_sends :: "nat \<Rightarrow> instant \<times> (rstring + nat)"

datatype purpose = Beacon | Voice

type_synonym tx_sent = "purpose \<times> bytes \<times> bytes option \<times> (transport_error + nat)"

definition transmit ::
  "('e, 'd, 'n) tx_env \<Rightarrow> purpose \<Rightarrow> bytes \<Rightarrow> instant \<times> (rstring + nat) \<Rightarrow> ('e, 'n) TxState \<Rightarrow> ('e, 'n) TxState \<times> tx_sent" where
  "transmit env p wire ans st =
     (case send (te_aead env) (tx_transport st) wire (fst ans) (snd ans) of
        (tm, air, r) \<Rightarrow> (st\<lparr>tx_transport := tm\<rparr>, (p, wire, air, r)))"

definition pack_tx :: "('e, 'd, 'n) tx_env \<Rightarrow> tx_io \<Rightarrow> u64 \<Rightarrow> u32 \<Rightarrow> bytes \<Rightarrow> bytes" where
  "pack_tx env io epoch sequence compressed =
     pack_wire_frame_v2 (io_channel io) (io_subchannel io) (te_sender_id env) (te_device_name env)
       epoch sequence (io_now_ms io) compressed"

text \<open>The presence beacon: one frame of silence in a stream of its own.\<close>

definition send_beacon ::
  "('e, 'd, 'n) tx_env \<Rightarrow> tx_io \<Rightarrow> nat \<Rightarrow> ('e, 'n) TxState \<Rightarrow> ('e, 'n) TxState \<times> tx_sent list" where
  "send_beacon env io i st =
     (case encode_frame (te_opus env) (tx_encoder st) silence of
        (e, compressed) \<Rightarrow>
          (let st = st\<lparr>tx_encoder := e\<rparr>
           in if compressed = [] then (st, [])
              else (case next_stream_epoch (io_now_ms io) (tx_epoch_counter st) of
                      (epoch, counter) \<Rightarrow>
                        (case transmit env Beacon (pack_tx env io epoch 0 compressed) (io_sends io i)
                                (st\<lparr>tx_epoch_counter := counter\<rparr>) of
                           (st, s) \<Rightarrow> (st, [s])))))"

definition tx_thread_start ::
  "('e, 'd, 'n) tx_env \<Rightarrow> tx_io \<Rightarrow> 'e \<Rightarrow> ('e, 'n) TxState \<Rightarrow> ('e, 'n) TxState \<times> tx_sent list" where
  "tx_thread_start env io encoder st =
     send_beacon env io 0
       (st\<lparr>tx_encoder := encoder, tx_was_transmitting := False, tx_idle_ticks := 0, tx_frame_index := 0,
           tx_stream_epoch_ms := 0, tx_frame_buffer := []\<rparr>)"

fun transmit_all ::
  "('e, 'd, 'n) tx_env \<Rightarrow> tx_io \<Rightarrow> nat \<Rightarrow> bytes list \<Rightarrow> ('e, 'n) TxState \<Rightarrow> ('e, 'n) TxState \<times> tx_sent list" where
  "transmit_all env io i [] st = (st, [])"
| "transmit_all env io i (wire # wires) st =
     (case transmit env Voice wire (io_sends io i) st of
        (st, s) \<Rightarrow> (case transmit_all env io (Suc i) wires st of (st, ss) \<Rightarrow> (st, s # ss)))"

text \<open>Release: the encoder is reset and, in buffer mode, what was captured goes out.\<close>

definition tx_release ::
  "('e, 'd, 'n) tx_env \<Rightarrow> tx_io \<Rightarrow> ('e, 'n) TxState \<Rightarrow> ('e, 'n) TxState \<times> tx_sent list" where
  "tx_release env io st =
     (if \<not> tx_was_transmitting st then (st, [])
      else (let st = st\<lparr>tx_was_transmitting := False, tx_encoder := encoder_reset (te_opus env) (tx_encoder st)\<rparr>
            in if tx_buffer_mode st \<and> tx_frame_buffer st \<noteq> []
               then transmit_all env io 0 (tx_frame_buffer st) (st\<lparr>tx_frame_buffer := []\<rparr>)
               else (st, [])))"

definition tx_idle ::
  "('e, 'd, 'n) tx_env \<Rightarrow> tx_io \<Rightarrow> nat \<Rightarrow> ('e, 'n) TxState \<Rightarrow> ('e, 'n) TxState \<times> tx_sent list" where
  "tx_idle env io i st =
     (let st = st\<lparr>tx_idle_ticks := tx_idle_ticks st + 1\<rparr>
      in if 2000 \<le> tx_idle_ticks st then send_beacon env io i (st\<lparr>tx_idle_ticks := 0\<rparr>) else (st, []))"

text \<open>Press: recording starts and a stream is opened; \<open>None\<close> when the recorder refuses.\<close>

definition tx_start :: "tx_io \<Rightarrow> ('e, 'n) TxState \<Rightarrow> ('e, 'n) TxState option" where
  "tx_start io st =
     (if tx_was_transmitting st then Some st
      else case io_start io of
             Some e \<Rightarrow> None
           | None \<Rightarrow>
               (case next_stream_epoch (io_now_ms io) (tx_epoch_counter st) of
                  (epoch, counter) \<Rightarrow>
                    Some (st\<lparr>tx_was_transmitting := True, tx_frame_index := 0, tx_stream_epoch_ms := epoch,
                             tx_epoch_counter := counter\<rparr>)))"

definition MAX_READ_ATTEMPTS_PER_FRAME :: nat where "MAX_READ_ATTEMPTS_PER_FRAME = 25"

text \<open>The read loop: short reads accumulate, errors and empty reads cost an attempt.\<close>

fun read_frame :: "nat \<Rightarrow> (rstring + pcm) list \<Rightarrow> pcm \<Rightarrow> pcm" where
  "read_frame 0 reads filled = filled"
| "read_frame (Suc attempts) reads filled =
     (if CODEC_FRAME_SIZE \<le> length filled then filled
      else case reads of
             [] \<Rightarrow> filled
           | Inl e # rest \<Rightarrow> read_frame attempts rest filled
           | Inr samples # rest \<Rightarrow> read_frame attempts rest (filled @ take (CODEC_FRAME_SIZE - length filled) samples))"

type_synonym packed = "u64 \<times> u32 \<times> bytes"

text \<open>The capture half of a turn: the new state, what was sent, and the voice frame packed, if any.\<close>

definition tx_capture ::
  "('e, 'd, 'n) tx_env \<Rightarrow> tx_io \<Rightarrow> ('e, 'n) TxState \<Rightarrow> ('e, 'n) TxState \<times> tx_sent list \<times> packed list" where
  "tx_capture env io st =
     (let pcm = read_frame MAX_READ_ATTEMPTS_PER_FRAME (io_reads io) []
      in if length pcm < CODEC_FRAME_SIZE then (st, [], [])
         else (let pcm = apply_mic_gain pcm (tx_mic_gain st);
                   (dn, pcm) = te_denoise env (tx_denoiser st) pcm;
                   st = st\<lparr>tx_denoiser := dn\<rparr>
               in if squelch_drops_frame (tx_squelch st) pcm then (st, [], [])
                  else (let (e, compressed) = encode_frame (te_opus env) (tx_encoder st) pcm;
                            sequence = word_of_nat (min (unat (tx_frame_index st)) (2 ^ 32 - 1));
                            st = st\<lparr>tx_encoder := e, tx_frame_index := tx_frame_index st + 1\<rparr>;
                            wire = pack_tx env io (tx_stream_epoch_ms st) sequence compressed;
                            out = [(tx_stream_epoch_ms st, sequence, wire)]
                        in if tx_buffer_mode st then (st\<lparr>tx_frame_buffer := tx_frame_buffer st @ [wire]\<rparr>, [], out)
                           else (case transmit env Voice wire (io_sends io 0) st of
                                   (st, p, w, air, Inl e) \<Rightarrow> (st\<lparr>tx_ptt_pressed := False\<rparr>, [(p, w, air, Inl e)], out)
                                 | (st, s) \<Rightarrow> (st, [s], out)))))"

definition tx_turn ::
  "('e, 'd, 'n) tx_env \<Rightarrow> tx_io \<Rightarrow> ('e, 'n) TxState \<Rightarrow> ('e, 'n) TxState \<times> tx_sent list \<times> packed list" where
  "tx_turn env io st =
     (if \<not> tx_ptt_pressed st
      then (case tx_release env io st of
              (st, sent) \<Rightarrow> (case tx_idle env io (length sent) st of (st, beacon) \<Rightarrow> (st, sent @ beacon, [])))
      else case tx_start io st of
             None \<Rightarrow> (st, [], [])
           | Some st \<Rightarrow> tx_capture env io st)"

section \<open>The receive thread\<close>

text \<open>The inner loop: both bearers are polled until neither has anything; the list is what the socket answers.\<close>

record 'd rx_env =
  re_decoder :: "'d voice_decoder"
  re_aead :: aead_fun
  re_hash :: "rstring \<Rightarrow> u64"
  re_local_id :: rstring
  re_channel :: u8
  re_subchannel :: u8

definition rx_frame :: "'d rx_env \<Rightarrow> instant \<Rightarrow> 'd rx_state \<Rightarrow> bytes \<Rightarrow> 'd rx_state" where
  "rx_frame env now s buf =
     rx_deliver (re_decoder env) (re_hash env) (re_local_id env) (re_channel env) (re_subchannel env) now s buf"

definition rx_polls ::
  "'d rx_env \<Rightarrow> instant \<Rightarrow> recv_result list \<Rightarrow> TransportManager \<Rightarrow> TransportManager \<times> bytes \<times> bytes" where
  "rx_polls env now answers tm =
     (case poll_wifi_into (re_aead env) tm 2048 (case answers of [] \<Rightarrow> WouldBlock | a # _ \<Rightarrow> a) of
        (tm, w) \<Rightarrow> (case poll_cellular_into (re_aead env) tm 2048 now of (tm, c) \<Rightarrow> (tm, w, c)))"

definition poll_work :: "recv_result list \<Rightarrow> TransportManager \<Rightarrow> nat" where
  "poll_work answers tm = length answers + length (pq_inner (ct_inbound (tm_cellular tm)))"

lemma decrypt_into_relay: "tm_cellular (fst (decrypt_into dec tm raw len)) = tm_cellular tm"
  by (auto simp: decrypt_into_def decrypt_live_or_pending_def decrypt_pending_def split: option.splits prod.splits sum.splits)

lemma decrypt_into_same: "decrypt_into dec tm raw len = (tm1, c) \<Longrightarrow> tm_cellular tm1 = tm_cellular tm"
  using decrypt_into_relay [of dec tm raw len] by simp

lemma poll_wifi_relay: "tm_cellular (fst (poll_wifi_into dec tm len r)) = tm_cellular tm"
  by (auto simp: poll_wifi_into_def decrypt_into_relay split: sum.splits)

lemma poll_wifi_idle: "snd (poll_wifi_into dec tm len WouldBlock) = []"
  by (simp add: poll_wifi_into_def wifi_receive_audio_def split: sum.splits)

lemma pop_shorter:
  "length (pq_inner (snd (pop q now))) \<le> length (pq_inner q)"
  "fst (pop q now) = Some d \<Longrightarrow> length (pq_inner (snd (pop q now))) < length (pq_inner q)"
proof -
  have le: "length (pq_inner (drop_stale_locked q now)) \<le> length (pq_inner q)"
    by (simp add: drop_stale_locked_def Let_def length_dropWhile_le)
  then show "length (pq_inner (snd (pop q now))) \<le> length (pq_inner q)"
    by (auto simp: pop_def Let_def split: list.split)
  show "fst (pop q now) = Some d \<Longrightarrow> length (pq_inner (snd (pop q now))) < length (pq_inner q)"
    using le by (auto simp: pop_def Let_def split: list.splits)
qed

lemma poll_cellular_shorter:
  assumes "poll_cellular_into dec tm len now = (tm1, c)"
  shows "length (pq_inner (ct_inbound (tm_cellular tm1))) \<le> length (pq_inner (ct_inbound (tm_cellular tm)))"
    and "c \<noteq> [] \<Longrightarrow> length (pq_inner (ct_inbound (tm_cellular tm1))) < length (pq_inner (ct_inbound (tm_cellular tm)))"
proof -
  obtain c' raw where r: "cell_receive_audio (tm_cellular tm) (len + 128) now = (c', raw)"
    by (cases "cell_receive_audio (tm_cellular tm) (len + 128) now")
  have q: "length (pq_inner (ct_inbound c')) \<le> length (pq_inner (ct_inbound (tm_cellular tm)))"
    "raw \<noteq> [] \<Longrightarrow> length (pq_inner (ct_inbound c')) < length (pq_inner (ct_inbound (tm_cellular tm)))"
    using r pop_shorter [of "ct_inbound (tm_cellular tm)" now]
    by (auto simp: cell_receive_audio_def split: if_splits prod.splits option.splits)
  have "tm_cellular tm1 = c' \<or> tm_cellular tm1 = tm_cellular tm" "c \<noteq> [] \<Longrightarrow> tm_cellular tm1 = c' \<and> raw \<noteq> []"
    using assms r decrypt_into_same [of dec "tm\<lparr>tm_cellular := c'\<rparr>" raw len tm1 c]
    by (auto simp: poll_cellular_into_def split: if_splits)
  with q show "length (pq_inner (ct_inbound (tm_cellular tm1))) \<le> length (pq_inner (ct_inbound (tm_cellular tm)))"
    "c \<noteq> [] \<Longrightarrow> length (pq_inner (ct_inbound (tm_cellular tm1))) < length (pq_inner (ct_inbound (tm_cellular tm)))"
    by auto
qed

lemma rx_polls_work:
  assumes "rx_polls env now answers tm = (tm1, w, c)" "w \<noteq> [] \<or> c \<noteq> []"
  shows "poll_work (tl answers) tm1 < poll_work answers tm"
proof -
  obtain tm0 where p: "poll_wifi_into (re_aead env) tm 2048 (case answers of [] \<Rightarrow> WouldBlock | a # _ \<Rightarrow> a) = (tm0, w)"
    "poll_cellular_into (re_aead env) tm0 2048 now = (tm1, c)"
    using assms(1) by (auto simp: rx_polls_def split: prod.splits)
  have same: "tm_cellular tm0 = tm_cellular tm"
    using poll_wifi_relay [of "re_aead env" tm 2048 "case answers of [] \<Rightarrow> WouldBlock | a # _ \<Rightarrow> a"] p(1) by simp
  note s = poll_cellular_shorter [OF p(2)]
  show ?thesis
  proof (cases answers)
    case Nil
    with p(1) poll_wifi_idle [of "re_aead env" tm 2048] have "w = []" by simp
    with assms(2) s(2) Nil same show ?thesis by (simp add: poll_work_def)
  next
    case (Cons a as)
    with s(1) same show ?thesis by (simp add: poll_work_def)
  qed
qed

function rx_poll ::
  "'d rx_env \<Rightarrow> instant \<Rightarrow> recv_result list \<Rightarrow> TransportManager \<Rightarrow> 'd rx_state \<Rightarrow> TransportManager \<times> 'd rx_state" where
  "rx_poll env now answers tm s =
     (case rx_polls env now answers tm of
        (tm1, w, c) \<Rightarrow>
          if w = [] \<and> c = [] then (tm1, s)
          else rx_poll env now (tl answers) tm1 (rx_frame env now (rx_frame env now s w) c))"
  by auto
termination
  by (relation "measure (\<lambda>(env, now, answers, tm, s). poll_work answers tm)") (auto intro: rx_polls_work [OF sym])

declare rx_poll.simps [simp del]

text \<open>A whole turn of the receive thread: poll, then timers, tick, commits and one frame to the speaker.\<close>

definition rx_thread_turn ::
  "'d rx_env \<Rightarrow> instant \<Rightarrow> recv_result list \<Rightarrow> TransportManager \<Rightarrow> 'd rx_state \<Rightarrow>
   TransportManager \<times> 'd rx_state \<times> (u64 \<times> rstring \<times> rstring \<times> u64) list \<times> pcm option" where
  "rx_thread_turn env now answers tm s =
     (case rx_poll env now answers tm s of (tm, s) \<Rightarrow> (tm, rx_service (re_decoder env) (re_hash env) now s))"

section \<open>Stream epochs never repeat\<close>

lemma high_bit_zero:
  fixes w :: "'a::len word"
  assumes "unat w < 2 ^ k" "k \<le> i"
  shows "\<not> bit w i"
proof -
  have "unat w < 2 ^ i" using assms by (meson order_less_le_trans one_le_numeral power_increasing)
  then have "\<not> bit (unat w) i" by (simp add: bit_iff_odd)
  then show ?thesis by (metis bit_imp_le_length bit_unsigned_iff possible_bit_nat)
qed

lemma epoch_fields:
  fixes n c :: u64
  assumes "unat n < 2 ^ 47" "unat c < 2 ^ 17"
  shows "take_bit 17 (word_rotl 17 n XOR c) = c" "drop_bit 17 (word_rotl 17 n XOR c) = n"
proof -
  note hi = high_bit_zero [OF assms(1)] and lo = high_bit_zero [OF assms(2)]
  show "take_bit 17 (word_rotl 17 n XOR c) = c"
  proof (rule bit_word_eqI)
    fix i assume "i < LENGTH(64)"
    then show "bit (take_bit 17 (word_rotl 17 n XOR c)) i = bit c i"
      using hi [of "i + 47"] lo [of i] by (auto simp: bit_simps)
  qed
  show "drop_bit 17 (word_rotl 17 n XOR c) = n"
  proof (rule bit_word_eqI)
    fix i assume "i < LENGTH(64)"
    then show "bit (drop_bit 17 (word_rotl 17 n XOR c)) i = bit n i"
      using hi [of i] lo [of "i + 17"] by (cases "i < 47") (auto simp: bit_simps add.commute)
  qed
qed

lemma epoch_inject:
  fixes n c n' c' :: u64
  assumes "unat n < 2 ^ 47" "unat c < 2 ^ 17" "unat n' < 2 ^ 47" "unat c' < 2 ^ 17"
    and "word_rotl 17 n XOR c = word_rotl 17 n' XOR c'"
  shows "c = c'"
  using epoch_fields(1) [OF assms(1,2)] epoch_fields(1) [OF assms(3,4)] assms(5) by simp

section \<open>Runs of the transmit thread\<close>

text \<open>Between turns the user presses and releases, settings change, and other threads use the transport.\<close>

datatype tx_event =
    Turn tx_io | SetPtt bool | SetGain int | SetSquelch int | SetBufferMode bool | TransportIs TransportManager

fun tx_step ::
  "('e, 'd, 'n) tx_env \<Rightarrow> ('e, 'n) TxState \<Rightarrow> tx_event \<Rightarrow> ('e, 'n) TxState \<times> tx_sent list \<times> packed list" where
  "tx_step env st (Turn io) = tx_turn env io st"
| "tx_step env st (SetPtt b) = (st\<lparr>tx_ptt_pressed := b\<rparr>, [], [])"
| "tx_step env st (SetGain g) = (st\<lparr>tx_mic_gain := set_mic_gain_x100 g\<rparr>, [], [])"
| "tx_step env st (SetSquelch t) = (st\<lparr>tx_squelch := set_squelch_dbfs t\<rparr>, [], [])"
| "tx_step env st (SetBufferMode b) = (st\<lparr>tx_buffer_mode := b\<rparr>, [], [])"
| "tx_step env st (TransportIs tm) = (st\<lparr>tx_transport := tm\<rparr>, [], [])"

fun tx_run ::
  "('e, 'd, 'n) tx_env \<Rightarrow> ('e, 'n) TxState \<Rightarrow> tx_event list \<Rightarrow> ('e, 'n) TxState \<times> tx_sent list \<times> packed list" where
  "tx_run env st [] = (st, [], [])"
| "tx_run env st (ev # evs) =
     (case tx_step env st ev of
        (st, sent, packed) \<Rightarrow> (case tx_run env st evs of (st, sent', packed') \<Rightarrow> (st, sent @ sent', packed @ packed')))"

definition voice_wires :: "tx_sent list \<Rightarrow> bytes list" where
  "voice_wires ss = List.map_filter (\<lambda>(p, w, _). if p = Voice then Some w else None) ss"

definition packed_wires :: "packed list \<Rightarrow> bytes list" where
  "packed_wires ps = map (\<lambda>(_, _, w). w) ps"

definition packed_keys :: "packed list \<Rightarrow> (u64 \<times> u32) list" where
  "packed_keys ps = map (\<lambda>(e, s, _). (e, s)) ps"

lemma trace_simps [simp]:
  "voice_wires [] = []" "voice_wires (ss @ ts) = voice_wires ss @ voice_wires ts"
  "voice_wires ((p, w, r) # ss) = (if p = Voice then w # voice_wires ss else voice_wires ss)"
  "packed_wires [] = []" "packed_wires (ps @ qs) = packed_wires ps @ packed_wires qs" "packed_wires ((e, s, w) # ps) = w # packed_wires ps"
  "packed_keys [] = []" "packed_keys (ps @ qs) = packed_keys ps @ packed_keys qs" "packed_keys ((e, s, w) # ps) = (e, s) # packed_keys ps"
  by (simp_all add: voice_wires_def packed_wires_def packed_keys_def map_filter_simps List.map_filter_def)

text \<open>What a send leaves alone: everything but the transport.\<close>

lemma transmit_same:
  "transmit env p wire ans st = (st1, s) \<Longrightarrow> (\<exists>tm r. st1 = st\<lparr>tx_transport := tm\<rparr> \<and> s = (p, wire, r))"
  by (auto simp: transmit_def split: prod.splits)

lemma transmit_all_same:
  "transmit_all env io i wires st = (st1, ss) \<Longrightarrow> (\<exists>tm. st1 = st\<lparr>tx_transport := tm\<rparr>) \<and> voice_wires ss = wires"
proof (induction wires arbitrary: i st st1 ss)
  case Nil
  then show ?case by simp (metis TxState.surjective TxState.update_convs(9))
next
  case (Cons w ws)
  obtain st0 s where t: "transmit env Voice w (io_sends io i) st = (st0, s)" by (cases "transmit env Voice w (io_sends io i) st")
  obtain st2 ss2 where r: "transmit_all env io (Suc i) ws st0 = (st2, ss2)" by (cases "transmit_all env io (Suc i) ws st0")
  from transmit_same [OF t] Cons.IH [OF r] Cons.prems t r show ?case by (auto split: prod.splits)
qed

lemma beacon_same:
  assumes "send_beacon env io i st = (st1, ss)"
  shows "voice_wires ss = [] \<and> tx_frame_buffer st1 = tx_frame_buffer st \<and> tx_was_transmitting st1 = tx_was_transmitting st \<and>
    tx_buffer_mode st1 = tx_buffer_mode st \<and> tx_frame_index st1 = tx_frame_index st \<and> tx_stream_epoch_ms st1 = tx_stream_epoch_ms st \<and>
    tx_ptt_pressed st1 = tx_ptt_pressed st \<and> (tx_epoch_counter st1 = tx_epoch_counter st \<or> tx_epoch_counter st1 = tx_epoch_counter st + 1)"
  using assms by (auto simp: send_beacon_def next_stream_epoch_def Let_def split: prod.splits if_splits dest!: transmit_same)

lemma capture_spec:
  assumes "tx_capture env io st = (st1, ss, ps)"
  shows "tx_buffer_mode st1 = tx_buffer_mode st \<and> tx_was_transmitting st1 = tx_was_transmitting st \<and>
    tx_epoch_counter st1 = tx_epoch_counter st \<and> tx_stream_epoch_ms st1 = tx_stream_epoch_ms st \<and>
    (if ps = [] then ss = [] \<and> tx_frame_buffer st1 = tx_frame_buffer st \<and> tx_frame_index st1 = tx_frame_index st
     else \<exists>w. ps = [(tx_stream_epoch_ms st, word_of_nat (min (unat (tx_frame_index st)) (2 ^ 32 - 1)), w)] \<and>
       tx_frame_index st1 = tx_frame_index st + 1 \<and>
       (if tx_buffer_mode st then ss = [] \<and> tx_frame_buffer st1 = tx_frame_buffer st @ [w]
        else voice_wires ss = [w] \<and> tx_frame_buffer st1 = tx_frame_buffer st))"
  using assms unfolding tx_capture_def Let_def
  by (auto split: if_splits prod.splits sum.splits dest!: transmit_same)

lemma release_spec:
  assumes "tx_release env io st = (st1, ss)"
  shows "tx_buffer_mode st1 = tx_buffer_mode st \<and> \<not> tx_was_transmitting st1 \<and> tx_epoch_counter st1 = tx_epoch_counter st \<and>
    (if tx_was_transmitting st \<and> tx_buffer_mode st then voice_wires ss = tx_frame_buffer st \<and> tx_frame_buffer st1 = []
     else ss = [] \<and> tx_frame_buffer st1 = tx_frame_buffer st)"
  using assms by (auto simp: tx_release_def Let_def split: if_splits dest!: transmit_all_same)

lemma idle_spec:
  assumes "tx_idle env io i st = (st1, ss)"
  shows "voice_wires ss = [] \<and> tx_frame_buffer st1 = tx_frame_buffer st \<and> tx_was_transmitting st1 = tx_was_transmitting st \<and>
    tx_buffer_mode st1 = tx_buffer_mode st \<and>
    (tx_epoch_counter st1 = tx_epoch_counter st \<or> tx_epoch_counter st1 = tx_epoch_counter st + 1)"
  using assms by (auto simp: tx_idle_def Let_def split: if_splits dest!: beacon_same)

lemma turn_released:
  assumes "tx_turn env io st = (st1, ss, ps)" "\<not> tx_ptt_pressed st"
  shows "ps = [] \<and> tx_buffer_mode st1 = tx_buffer_mode st \<and> \<not> tx_was_transmitting st1 \<and>
    (tx_epoch_counter st1 = tx_epoch_counter st \<or> tx_epoch_counter st1 = tx_epoch_counter st + 1) \<and>
    (if tx_was_transmitting st \<and> tx_buffer_mode st then voice_wires ss = tx_frame_buffer st \<and> tx_frame_buffer st1 = []
     else voice_wires ss = [] \<and> tx_frame_buffer st1 = tx_frame_buffer st)"
proof -
  obtain st0 s0 where r: "tx_release env io st = (st0, s0)" by (cases "tx_release env io st")
  obtain st2 s2 where i: "tx_idle env io (length s0) st0 = (st2, s2)" by (cases "tx_idle env io (length s0) st0")
  have "st1 = st2" "ss = s0 @ s2" "ps = []" using assms r i by (simp_all add: tx_turn_def)
  with release_spec [OF r] idle_spec [OF i] show ?thesis by (auto split: if_splits)
qed

text \<open>A pressed turn opens a stream if none is open, then captures.\<close>

lemma turn_pressed:
  assumes "tx_turn env io st = (st1, ss, ps)" "tx_ptt_pressed st"
  obtains (refused) "st1 = st" "ss = []" "ps = []" "\<not> tx_was_transmitting st"
  | (capture) st0 where "tx_capture env io st0 = (st1, ss, ps)" "tx_was_transmitting st0" "tx_buffer_mode st0 = tx_buffer_mode st"
      "tx_frame_buffer st0 = tx_frame_buffer st" "tx_was_transmitting st" "st0 = st"
  | (opened) st0 where "tx_capture env io st0 = (st1, ss, ps)" "tx_was_transmitting st0" "tx_buffer_mode st0 = tx_buffer_mode st"
      "tx_frame_buffer st0 = tx_frame_buffer st" "\<not> tx_was_transmitting st" "tx_frame_index st0 = 0"
      "tx_stream_epoch_ms st0 = word_rotl 17 (io_now_ms io) XOR tx_epoch_counter st" "tx_epoch_counter st0 = tx_epoch_counter st + 1"
proof -
  consider "tx_start io st = None" | st0 where "tx_start io st = Some st0" by (cases "tx_start io st") auto
  then show thesis
  proof cases
    case 1
    with assms refused show thesis by (auto simp: tx_turn_def tx_start_def split: if_splits option.splits prod.splits)
  next
    case 2
    then have c: "tx_capture env io st0 = (st1, ss, ps)" using assms by (simp add: tx_turn_def)
    show thesis
    proof (cases "tx_was_transmitting st")
      case True
      with 2 have "st0 = st" by (simp add: tx_start_def)
      then show thesis using c True by (intro capture [of st0]) simp_all
    next
      case False
      with 2 have "st0 = st\<lparr>tx_was_transmitting := True, tx_frame_index := 0,
          tx_stream_epoch_ms := word_rotl 17 (io_now_ms io) XOR tx_epoch_counter st, tx_epoch_counter := tx_epoch_counter st + 1\<rparr>"
        by (auto simp: tx_start_def next_stream_epoch_def split: option.splits)
      then show thesis using c False by (intro opened [of st0]) simp_all
    qed
  qed
qed

text \<open>Nothing captured is lost, repeated or reordered; in buffer mode what waits is sent by the end of the release.\<close>

definition tx_conserved :: "('e, 'n) TxState \<Rightarrow> ('e, 'n) TxState \<Rightarrow> tx_sent list \<Rightarrow> packed list \<Rightarrow> bool" where
  "tx_conserved st st1 ss ps \<longleftrightarrow>
    tx_buffer_mode st1 = tx_buffer_mode st \<and>
    (if tx_buffer_mode st then tx_frame_buffer st @ packed_wires ps = voice_wires ss @ tx_frame_buffer st1
     else voice_wires ss = packed_wires ps \<and> tx_frame_buffer st1 = tx_frame_buffer st) \<and>
    (tx_buffer_mode st \<and> (tx_was_transmitting st \<or> tx_frame_buffer st = []) \<longrightarrow> tx_was_transmitting st1 \<or> tx_frame_buffer st1 = [])"

lemma turn_conserves:
  assumes "tx_turn env io st = (st1, ss, ps)"
  shows "tx_conserved st st1 ss ps"
proof (cases "tx_ptt_pressed st")
  case False
  from turn_released [OF assms this] show ?thesis by (auto simp: tx_conserved_def split: if_splits)
next
  case True
  with assms show ?thesis
  proof (cases rule: turn_pressed)
    case refused
    then show ?thesis by (simp add: tx_conserved_def)
  next
    case (capture st0)
    from capture_spec [OF capture(1)] capture show ?thesis by (auto simp: tx_conserved_def split: if_splits)
  next
    case (opened st0)
    from capture_spec [OF opened(1)] opened show ?thesis by (auto simp: tx_conserved_def split: if_splits)
  qed
qed

lemma append_chain: "a @ b = c @ d \<Longrightarrow> d @ e = f @ g \<Longrightarrow> a @ b @ e = c @ f @ g"
  by (metis append.assoc)

lemma tx_conserved_trans:
  assumes a: "tx_conserved st st0 ss ps" and b: "tx_conserved st0 st1 ts qs"
  shows "tx_conserved st st1 (ss @ ts) (ps @ qs)"
proof (cases "tx_buffer_mode st")
  case False
  with a b show ?thesis by (simp add: tx_conserved_def)
next
  case True
  have m: "tx_buffer_mode st0" using a by (simp add: tx_conserved_def True)
  note a' = a [unfolded tx_conserved_def if_P [OF True]] and b' = b [unfolded tx_conserved_def if_P [OF m]]
  have "tx_frame_buffer st @ packed_wires ps @ packed_wires qs = voice_wires ss @ voice_wires ts @ tx_frame_buffer st1"
    using a' b' by (intro append_chain [of _ _ _ "tx_frame_buffer st0"]) blast+
  moreover have "tx_buffer_mode st \<and> (tx_was_transmitting st \<or> tx_frame_buffer st = []) \<longrightarrow> tx_was_transmitting st1 \<or> tx_frame_buffer st1 = []"
    using a' b' m by blast
  moreover have "tx_buffer_mode st1" using b' m by blast
  ultimately show ?thesis unfolding tx_conserved_def if_P [OF True] trace_simps append_assoc using True by blast
qed

fun mode_event :: "tx_event \<Rightarrow> bool" where
  "mode_event (SetBufferMode b) = True"
| "mode_event _ = False"

lemma run_conserves:
  assumes "tx_run env st evs = (st1, ss, ps)" "\<forall>ev \<in> set evs. \<not> mode_event ev"
  shows "tx_conserved st st1 ss ps"
  using assms
proof (induction evs arbitrary: st st1 ss ps)
  case (Cons ev evs)
  obtain st0 s0 p0 where a: "tx_step env st ev = (st0, s0, p0)" by (metis prod_cases3)
  obtain st2 s2 p2 where b: "tx_run env st0 evs = (st2, s2, p2)" by (metis prod_cases3)
  have r: "st1 = st2" "ss = s0 @ s2" "ps = p0 @ p2" using Cons.prems(1) a b by simp_all
  have one: "tx_conserved st st0 s0 p0"
    using a Cons.prems(2) turn_conserves [of env _ st st0 s0 p0] by (cases ev) (auto simp: tx_conserved_def)
  have "\<forall>ev \<in> set evs. \<not> mode_event ev" using Cons.prems(2) by simp
  from Cons.IH [OF b this] one show ?case unfolding r by (rule tx_conserved_trans [rotated])
qed (simp add: tx_conserved_def)

section \<open>Numbering\<close>

definition old_epoch :: "nat \<Rightarrow> u64 \<Rightarrow> bool" where
  "old_epoch bound e \<longleftrightarrow> (\<exists>n c. unat n < 2 ^ 47 \<and> unat c < bound \<and> e = word_rotl 17 n XOR c)"

text \<open>Next after a key: the next number of the same stream, or the start of another.\<close>

definition follows :: "u64 \<times> u32 \<Rightarrow> u64 \<times> u32 \<Rightarrow> bool" where
  "follows k k' \<longleftrightarrow> snd k' = 0 \<or> (fst k' = fst k \<and> unat (snd k') = Suc (unat (snd k)))"

definition keys_inv :: "('e, 'n) TxState \<Rightarrow> (u64 \<times> u32) list \<Rightarrow> nat \<Rightarrow> bool" where
  "keys_inv st ks k \<longleftrightarrow> distinct ks \<and> successively follows ks \<and> (\<forall>key \<in> set ks. old_epoch (unat (tx_epoch_counter st)) (fst key)) \<and>
     unat (tx_epoch_counter st) \<le> k \<and>
     (tx_was_transmitting st \<longrightarrow> old_epoch (unat (tx_epoch_counter st)) (tx_stream_epoch_ms st) \<and> unat (tx_frame_index st) \<le> k \<and>
        (\<forall>key \<in> set ks. fst key = tx_stream_epoch_ms st \<longrightarrow> unat (snd key) < unat (tx_frame_index st)) \<and>
        (0 < unat (tx_frame_index st) \<longrightarrow> ks \<noteq> [] \<and> last ks = (tx_stream_epoch_ms st, word_of_nat (unat (tx_frame_index st) - 1))))"

lemma old_epoch_mono: "old_epoch b e \<Longrightarrow> b \<le> b' \<Longrightarrow> old_epoch b' e"
  unfolding old_epoch_def by (elim exE conjE, intro exI conjI) auto

lemma fresh_epoch:
  assumes "old_epoch (unat c) e" "unat n < 2 ^ 47" "unat c < 2 ^ 17"
  shows "e \<noteq> word_rotl 17 n XOR c"
proof
  assume eq: "e = word_rotl 17 n XOR c"
  obtain n' c' where o: "unat n' < 2 ^ 47" "unat c' < unat c" "e = word_rotl 17 n' XOR c'" using assms(1) by (auto simp: old_epoch_def)
  have "unat c' < 2 ^ 17" using o(2) assms(3) by simp
  from epoch_inject [OF o(1) this assms(2,3)] o eq show False by simp
qed

lemma unat_small_nat: "n < 2 ^ 32 \<Longrightarrow> unat (word_of_nat n :: u32) = n"
  by (simp add: unsigned_of_nat take_bit_nat_eq_self)

lemma unat_add_one:
  fixes c :: u64
  assumes "unat c < 2 ^ 32"
  shows "unat (c + 1) = Suc (unat c)"
  using assms by (simp add: unat_word_ariths)

lemma capture_keys:
  assumes cap: "tx_capture env io st = (st1, ss, ps)" and inv: "keys_inv st ks k" and on: "tx_was_transmitting st" and k: "k < 2 ^ 17"
  shows "keys_inv st1 (ks @ packed_keys ps) (Suc k)"
proof (cases "ps = []")
  case True
  with capture_spec [OF cap] inv on show ?thesis by (auto simp: keys_inv_def)
next
  case False
  note c = capture_spec [OF cap, unfolded if_not_P [OF False]]
  have idx: "unat (tx_frame_index st) \<le> k" using inv on by (simp add: keys_inv_def)
  define sq :: u32 where "sq = word_of_nat (unat (tx_frame_index st))"
  have sq: "unat sq = unat (tx_frame_index st)" unfolding sq_def by (rule unat_small_nat) (use idx k in simp)
  have ps: "packed_keys ps = [(tx_stream_epoch_ms st, sq)]" using c idx k by (auto simp: sq_def min_def)
  have "tx_frame_index st1 = tx_frame_index st + 1" using c by blast
  then have idx1: "unat (tx_frame_index st1) = Suc (unat (tx_frame_index st))" using idx k by (simp add: unat_add_one)
  have new: "(tx_stream_epoch_ms st, sq) \<notin> set ks" using inv on sq by (auto simp: keys_inv_def)
  have fol: "ks = [] \<or> follows (last ks) (tx_stream_epoch_ms st, sq)"
  proof (cases "unat (tx_frame_index st) = 0")
    case True
    then show ?thesis using sq by (simp add: follows_def unat_eq_0)
  next
    case False
    then have "last ks = (tx_stream_epoch_ms st, word_of_nat (unat (tx_frame_index st) - 1))" using inv on by (simp add: keys_inv_def)
    moreover have "unat (word_of_nat (unat (tx_frame_index st) - 1) :: u32) = unat (tx_frame_index st) - 1"
      by (rule unat_small_nat) (use idx k in simp)
    ultimately show ?thesis using False sq by (simp add: follows_def)
  qed
  have "successively follows (ks @ packed_keys ps)" using inv fol by (auto simp: ps successively_append_iff keys_inv_def)
  moreover have "\<forall>key \<in> set (ks @ packed_keys ps). fst key = tx_stream_epoch_ms st1 \<longrightarrow> unat (snd key) < unat (tx_frame_index st1)"
    using inv on c by (auto simp: ps sq idx1 keys_inv_def)
  moreover have "last (ks @ packed_keys ps) = (tx_stream_epoch_ms st1, word_of_nat (unat (tx_frame_index st1) - 1))"
    using c by (simp add: ps idx1 sq_def)
  ultimately show ?thesis using inv on c new idx by (simp add: keys_inv_def ps idx1)
qed

lemma opened_keys:
  assumes inv: "keys_inv st ks k" and k: "k < 2 ^ 17" and clock: "unat now < 2 ^ 47"
    and st0: "tx_was_transmitting st0" "tx_frame_index st0 = 0" "tx_stream_epoch_ms st0 = word_rotl 17 now XOR tx_epoch_counter st"
      "tx_epoch_counter st0 = tx_epoch_counter st + 1"
  shows "keys_inv st0 ks (Suc k)"
proof -
  have c: "unat (tx_epoch_counter st) < 2 ^ 17" using inv k by (simp add: keys_inv_def)
  then have c1: "unat (tx_epoch_counter st0) = Suc (unat (tx_epoch_counter st))" using st0(4) by (simp add: unat_add_one)
  have "\<forall>key \<in> set ks. fst key \<noteq> tx_stream_epoch_ms st0"
    using inv fresh_epoch [OF _ clock c] st0(3) by (auto simp: keys_inv_def)
  moreover have "old_epoch (unat (tx_epoch_counter st0)) (tx_stream_epoch_ms st0)"
    unfolding old_epoch_def c1 st0(3) using clock by blast
  moreover have "\<forall>key \<in> set ks. old_epoch (unat (tx_epoch_counter st0)) (fst key)"
    using inv c1 by (auto simp: keys_inv_def intro: old_epoch_mono)
  ultimately show ?thesis using inv st0 c1 by (simp add: keys_inv_def)
qed

fun clock_ok :: "tx_event \<Rightarrow> bool" where
  "clock_ok (Turn io) = (unat (io_now_ms io) < 2 ^ 47)"
| "clock_ok _ = True"

lemma keys_inv_later: "keys_inv st ks k \<Longrightarrow> keys_inv st ks (Suc k)"
  by (auto simp: keys_inv_def)

lemma turn_keys:
  assumes turn: "tx_turn env io st = (st1, ss, ps)" and inv: "keys_inv st ks k" and k: "Suc k < 2 ^ 17"
    and clock: "unat (io_now_ms io) < 2 ^ 47"
  shows "keys_inv st1 (ks @ packed_keys ps) (Suc (Suc k))"
proof (cases "tx_ptt_pressed st")
  case False
  note r = turn_released [OF turn this]
  have c: "unat (tx_epoch_counter st) < 2 ^ 17" "unat (tx_epoch_counter st) \<le> k" using inv k by (auto simp: keys_inv_def)
  then have "unat (tx_epoch_counter st1) = unat (tx_epoch_counter st) \<or> unat (tx_epoch_counter st1) = Suc (unat (tx_epoch_counter st))"
    using r by (auto simp: unat_add_one)
  then show ?thesis using inv r c(2) by (auto simp: keys_inv_def intro: old_epoch_mono)
next
  case True
  with turn show ?thesis
  proof (cases rule: turn_pressed)
    case refused
    with inv show ?thesis by (auto intro: keys_inv_later)
  next
    case (capture st0)
    from capture_keys [OF capture(1)] capture inv k show ?thesis by (auto intro: keys_inv_later)
  next
    case (opened st0)
    have "keys_inv st0 ks (Suc k)" by (rule opened_keys [OF inv _ clock]) (use opened k in simp_all)
    from capture_keys [OF opened(1) this opened(2)] k show ?thesis by simp
  qed
qed

lemma run_keys:
  assumes "tx_run env st evs = (st1, ss, ps)" "keys_inv st ks k" "k + 2 * length evs < 2 ^ 17" "\<forall>ev \<in> set evs. clock_ok ev"
  shows "keys_inv st1 (ks @ packed_keys ps) (k + 2 * length evs)"
  using assms
proof (induction evs arbitrary: st st1 ss ps ks k)
  case (Cons ev evs)
  obtain st0 s0 p0 where a: "tx_step env st ev = (st0, s0, p0)" by (metis prod_cases3)
  obtain st2 s2 p2 where b: "tx_run env st0 evs = (st2, s2, p2)" by (metis prod_cases3)
  have r: "st1 = st2" "ps = p0 @ p2" using Cons.prems(1) a b by simp_all
  have "keys_inv st0 (ks @ packed_keys p0) (Suc (Suc k))"
  proof (cases ev)
    case (Turn io)
    have "tx_turn env io st = (st0, s0, p0)" "unat (io_now_ms io) < 2 ^ 47" using a Turn Cons.prems(4) by simp_all
    from turn_keys [OF this(1) Cons.prems(2) _ this(2)] Cons.prems(3) show ?thesis by simp
  qed (use a Cons.prems(2) in \<open>auto simp: keys_inv_def\<close>)
  from Cons.IH [OF b this] Cons.prems(3,4) show ?case by (simp add: r)
qed simp

section \<open>Properties\<close>


definition demo_env :: "(nat, nat, unit) tx_env" where
  "demo_env = \<lparr>te_opus = echo_opus, te_aead = plain_enc, te_denoise = (\<lambda>n p. (n, p)), te_sender_id = [0x41], te_device_name = []\<rparr>"

definition demo_io :: tx_io where
  "demo_io = \<lparr>io_channel = 1, io_subchannel = 0, io_now_ms = 1000, io_start = None, io_reads = [Inr (replicate 960 0)],
     io_sends = (\<lambda>i. (0, Inr 0))\<rparr>"

definition demo_tx :: "bool \<Rightarrow> (nat, unit) TxState" where
  "demo_tx buffered =
     \<lparr>tx_encoder = 0, tx_was_transmitting = False, tx_idle_ticks = 0, tx_frame_index = 0, tx_stream_epoch_ms = 0,
      tx_frame_buffer = [], tx_denoiser = (), tx_ptt_pressed = False, tx_transport = demo_manager, tx_epoch_counter = 1,
      tx_mic_gain = 100, tx_squelch = 0, tx_buffer_mode = buffered\<rparr>"

lemma read_full: "CODEC_FRAME_SIZE \<le> length filled \<Longrightarrow> read_frame n reads filled = filled"
  by (cases n) simp_all

text \<open>The microphone answers one whole frame at once.\<close>

lemma demo_read: "read_frame MAX_READ_ATTEMPTS_PER_FRAME (io_reads demo_io) [] = replicate 960 0"
proof -
  have m: "MAX_READ_ATTEMPTS_PER_FRAME = Suc 24" "io_reads demo_io = [Inr (replicate 960 0)]"
    by (simp_all add: MAX_READ_ATTEMPTS_PER_FRAME_def demo_io_def)
  show ?thesis unfolding m read_frame.simps by (simp add: CODEC_FRAME_SIZE_def read_full)
qed

definition demo_ready :: "(nat, unit) TxState \<Rightarrow> bool" where
  "demo_ready st \<longleftrightarrow> tx_ptt_pressed st \<and> tx_mic_gain st = 100 \<and> tx_squelch st = 0 \<and> tx_buffer_mode st"

lemma demo_capture:
  assumes "demo_ready st"
  shows "length (snd (snd (tx_capture demo_env demo_io st))) = 1 \<and> demo_ready (fst (tx_capture demo_env demo_io st))"
  using assms
  by (auto simp: tx_capture_def demo_read Let_def demo_env_def apply_mic_gain_def squelch_drops_frame_def demo_ready_def
      CODEC_FRAME_SIZE_def split: prod.splits)

lemma demo_turn:
  assumes "demo_ready st"
  shows "length (snd (snd (tx_turn demo_env demo_io st))) = 1 \<and> demo_ready (fst (tx_turn demo_env demo_io st))"
proof -
  obtain st0 where "tx_start demo_io st = Some st0" "demo_ready st0"
    using assms by (cases "tx_was_transmitting st") (auto simp: tx_start_def demo_io_def next_stream_epoch_def demo_ready_def)
  with assms demo_capture [of st0] show ?thesis by (simp add: tx_turn_def demo_ready_def)
qed




text \<open>
  Switching from buffer mode to live mode strands what was captured: the frames waiting are not sent at
  the release, nor discarded, however long the device then talks live; they go out in front of the next message
  recorded in buffer mode, in a stream long over.
\<close>

theorem mode_switch_strands_speech:
  assumes old: "tx_frame_buffer st = old" and live: "\<not> tx_buffer_mode st"
    and talk: "tx_run env st evs = (st1, ss, ps)" "\<forall>ev \<in> set evs. \<not> mode_event ev"
    and later: "tx_run env (st1\<lparr>tx_buffer_mode := True\<rparr>) evs' = (st2, ss', ps')" "\<forall>ev \<in> set evs'. \<not> mode_event ev"
    and released: "tx_frame_buffer st2 = []"
  shows "voice_wires ss = packed_wires ps \<and> tx_frame_buffer st1 = old \<and> voice_wires ss' = old @ packed_wires ps'"
  using run_conserves [OF talk] run_conserves [OF later] old live released by (simp add: tx_conserved_def)

theorem mode_switch_strands_speech_witness:
  "\<exists>ss ps st2. tx_run demo_env ((demo_tx False)\<lparr>tx_frame_buffer := [[7]], tx_was_transmitting := True, tx_buffer_mode := True\<rparr>) [Turn demo_io] = (st2, ss, ps) \<and>
     voice_wires ss = [[7]]"
proof -
  let ?st = "(demo_tx False)\<lparr>tx_frame_buffer := [[7]], tx_was_transmitting := True\<rparr>"
  obtain st2 ss ps where r: "tx_turn demo_env demo_io (?st\<lparr>tx_buffer_mode := True\<rparr>) = (st2, ss, ps)" by (metis prod_cases3)
  then have run: "tx_run demo_env (?st\<lparr>tx_buffer_mode := True\<rparr>) [Turn demo_io] = (st2, ss, ps)" by simp
  have off: "\<not> tx_ptt_pressed (?st\<lparr>tx_buffer_mode := True\<rparr>)" by (simp add: demo_tx_def)
  have "tx_frame_buffer st2 = []" "ps = []" using turn_released [OF r off] by simp_all
  with mode_switch_strands_speech [of ?st "[[7]]" demo_env "[]" ?st "[]" "[]" "[Turn demo_io]", OF _ _ _ _ run] run
  show ?thesis by (simp add: demo_tx_def)
qed

end
