(* ===== verification/Voice_Link.thy ===== *)
theory Voice_Link
  imports Voice_Threads
begin

text \<open>
  Two devices over the relay: the transmit thread of one, the queue its Kotlin side polls, the callback with which
  the packet reaches the other, and that one's receive thread. The relay hands packets on unchanged. The lemmas
  follow one frame through a hop; the property over whole conversations is in the root theory.
\<close>

section \<open>One hop\<close>

text \<open>A turn of the talker, and the instants at which its packet is polled, arrives and is read.\<close>

record hop =
  hop_io :: tx_io
  hop_polled :: instant
  hop_arrived :: instant
  hop_read :: instant

definition relay_hop ::
  "('e, 'd, 'n) tx_env \<Rightarrow> 'd rx_env \<Rightarrow> ('e, 'n) TxState \<times> TransportManager \<times> 'd rx_state \<Rightarrow> hop \<Rightarrow>
   ('e, 'n) TxState \<times> TransportManager \<times> 'd rx_state" where
  "relay_hop env renv w h =
     (case w of (a, tb, sb) \<Rightarrow>
        (let a = fst (tx_turn env (hop_io h) a);
             (ta, packet) = poll_cellular_outbound (tx_transport a) (hop_polled h);
             tb = (case packet of Some d \<Rightarrow> tm_on_cellular_message tb d (hop_arrived h) | None \<Rightarrow> tb);
             (tb, sb) = rx_poll renv (hop_read h) [] tb sb
         in (a\<lparr>tx_transport := ta\<rparr>, tb, sb)))"

text \<open>What the talker says over a list of hops: the frames it sends, in clear, each with the instant it is read at.\<close>

fun said :: "('e, 'd, 'n) tx_env \<Rightarrow> ('e, 'n) TxState \<Rightarrow> hop list \<Rightarrow> (bytes \<times> instant) list" where
  "said env a [] = []"
| "said env a (h # hs) =
     (case tx_turn env (hop_io h) a of
        (a1, sent, packed) \<Rightarrow>
          map (\<lambda>(p, wire, r). (wire, hop_read h)) sent @
          said env (a1\<lparr>tx_transport := fst (poll_cellular_outbound (tx_transport a1) (hop_polled h))\<rparr>) hs)"

text \<open>The listener when every frame is handed to its parser in clear.\<close>

definition heard :: "'d rx_env \<Rightarrow> 'd rx_state \<Rightarrow> (bytes \<times> instant) list \<Rightarrow> 'd rx_state" where
  "heard renv sb ws = foldl (\<lambda>s (wire, now). rx_frame renv now s wire) sb ws"

definition hop_ok :: "hop \<Rightarrow> bool" where
  "hop_ok h \<longleftrightarrow> hop_polled h - fst (io_sends (hop_io h) 0) \<le> MAX_OUTBOUND_AGE \<and> hop_read h - hop_arrived h \<le> MAX_INBOUND_AGE"

section \<open>The link between them\<close>

definition talker_ok :: "TransportManager \<Rightarrow> bool" where
  "talker_ok tm \<longleftrightarrow> can_transmit_realtime (tm_cellular tm) \<and> pq_inner (ct_outbound (tm_cellular tm)) = [] \<and>
     pq_max_size (ct_outbound (tm_cellular tm)) = MAX_OUTBOUND_QUEUE_SIZE \<and> pq_max_age (ct_outbound (tm_cellular tm)) = MAX_OUTBOUND_AGE"

definition listener_ok :: "TransportManager \<Rightarrow> bool" where
  "listener_ok tm \<longleftrightarrow> ct_state (tm_cellular tm) = Connected \<and> pq_inner (ct_inbound (tm_cellular tm)) = [] \<and>
     pq_max_size (ct_inbound (tm_cellular tm)) = MAX_INBOUND_QUEUE_SIZE \<and> pq_max_age (ct_inbound (tm_cellular tm)) = MAX_INBOUND_AGE"

text \<open>Both hold the same key, and the listener has seen none of the nonces the talker will use next.\<close>

definition paired :: "nat \<Rightarrow> TransportManager \<Rightarrow> TransportManager \<Rightarrow> bool" where
  "paired n ta tb \<longleftrightarrow> (\<exists>sa sb. tm_crypto ta = Some sa \<and> tm_crypto tb = Some sb \<and> cs_cipher sa = cs_cipher sb \<and>
     session_ok sa \<and> session_ok sb \<and> unat (cs_nonce_counter sa) + n < 2 ^ 32 \<and>
     (\<forall>i. cs_nonce_counter sa < i \<longrightarrow> nonce_of sa i \<notin> set (seen_order sb)))"

lemma drop_stale_empty: "pq_inner q = [] \<Longrightarrow> drop_stale_locked q now = q"
  by (simp add: drop_stale_locked_def)

lemma push_empty:
  "pq_inner q = [] \<Longrightarrow> 0 < pq_max_size q \<Longrightarrow> push q d t = q\<lparr>pq_inner := [(d, t)]\<rparr>"
  by (simp add: push_def push_at_def drop_stale_empty Let_def)

lemma pop_single:
  "pq_inner q = [(d, t)] \<Longrightarrow> now - t \<le> pq_max_age q \<Longrightarrow> pop q now = (Some d, q\<lparr>pq_inner := []\<rparr>)"
  by (simp add: pop_def drop_stale_locked_def is_stale_def Let_def)

lemma pop_empty: "pq_inner q = [] \<Longrightarrow> pop q now = (None, q)"
  by (simp add: pop_def drop_stale_empty Let_def)

text \<open>In live mode a turn sends at most one frame, which fits every bearer.\<close>

lemma length_pack_tx: "length (pack_tx env io ep sq (snd (encode_frame op e p))) \<le> 380"
  using encode_frame_size [of op e p]
  by (simp add: pack_tx_def pack_wire_frame_v2_def MAX_SENDER_ID_LEN_def MAX_DEVICE_NAME_LEN_def Let_def)

lemma length_pack_tx': "encode_frame op e p = (e', compressed) \<Longrightarrow> length (pack_tx env io ep sq compressed) \<le> 380 \<and> pack_tx env io ep sq compressed \<noteq> []"
  using length_pack_tx [of env io ep sq op e p] by (simp add: pack_tx_def pack_wire_frame_v2_def Let_def)

definition packed_by :: "('e, 'd, 'n) tx_env \<Rightarrow> tx_io \<Rightarrow> bytes \<Rightarrow> bool" where
  "packed_by env io wire \<longleftrightarrow> (\<exists>ep sq c. wire = pack_tx env io ep sq c)"

lemma packed_by_pack [simp]: "packed_by env io (pack_tx env io ep sq c)"
  by (auto simp: packed_by_def)

lemma packed_by_nonempty: "packed_by env io wire \<Longrightarrow> wire \<noteq> []"
  by (auto simp: packed_by_def pack_tx_def pack_wire_frame_v2_def Let_def)

text \<open>The receiver's parser reads the channel, the identity and the time back.\<close>

lemma packed_by_parses:
  assumes "packed_by env io wire"
  obtains f where "unpack_wire_frame_detailed wire = Ok f" "wire_sender_id f = from_utf8_lossy (take 32 (te_sender_id env))"
    "wire_channel f = io_channel io" "wire_subchannel f = io_subchannel io"
  using assms wire_roundtrip by (force simp: packed_by_def pack_tx_def)

definition one_send :: "('e, 'd, 'n) tx_env \<Rightarrow> tx_io \<Rightarrow> ('e, 'n) TxState \<Rightarrow> ('e, 'n) TxState \<Rightarrow> tx_sent list \<Rightarrow> bool" where
  "one_send env io st st1 ss \<longleftrightarrow> (ss = [] \<and> tx_transport st1 = tx_transport st) \<or>
     (\<exists>p wire air r. ss = [(p, wire, air, r)] \<and> packed_by env io wire \<and> length wire \<le> 380 \<and>
        send (te_aead env) (tx_transport st) wire (fst (io_sends io 0)) (snd (io_sends io 0)) = (tx_transport st1, air, r))"

lemma one_send_none: "tx_transport st1 = tx_transport st \<Longrightarrow> one_send env io st st1 []"
  by (simp add: one_send_def)

lemma pack_tx_nonempty [simp]: "pack_tx env io ep sq c \<noteq> []"
  by (simp add: pack_tx_def pack_wire_frame_v2_def Let_def)

lemma transmit_one:
  assumes "transmit env p wire (io_sends io 0) st = (st1, s)" "packed_by env io wire" "length wire \<le> 380"
  shows "one_send env io st st1 [s]"
  using assms by (auto simp: transmit_def one_send_def split: prod.splits)

lemma beacon_one:
  assumes "send_beacon env io 0 st = (st1, ss)"
  shows "one_send env io st st1 ss"
proof -
  obtain e c where e: "encode_frame (te_opus env) (tx_encoder st) silence = (e, c)" by (cases "encode_frame (te_opus env) (tx_encoder st) silence")
  show ?thesis
  proof (cases "c = []")
    case True
    with assms e show ?thesis by (auto simp: send_beacon_def Let_def one_send_def)
  next
    case False
    let ?st = "st\<lparr>tx_encoder := e, tx_epoch_counter := snd (next_stream_epoch (io_now_ms io) (tx_epoch_counter st))\<rparr>"
    let ?w = "pack_tx env io (fst (next_stream_epoch (io_now_ms io) (tx_epoch_counter st))) 0 c"
    obtain s where t: "transmit env Beacon ?w (io_sends io 0) ?st = (st1, s)" "ss = [s]"
      using assms e False by (auto simp: send_beacon_def Let_def split: prod.splits)
    have "one_send env io ?st st1 [s]" by (rule transmit_one [OF t(1)]) (use length_pack_tx' [OF e] in \<open>blast intro: packed_by_pack\<close>)+
    with t(2) show ?thesis by (simp add: one_send_def)
  qed
qed

lemma capture_one:
  assumes "tx_capture env io st = (st1, ss, ps)" "\<not> tx_buffer_mode st"
  shows "one_send env io st st1 ss"
proof -
  have keep: "one_send env io st st3 xs"
    if "transmit env p wire (io_sends io 0) st0 = (st2, x)" "packed_by env io wire" "length wire \<le> 380" "tx_transport st0 = tx_transport st"
      "tx_transport st3 = tx_transport st2" "xs = [x]" for p wire st0 st2 st3 x xs
    using transmit_one [OF that(1-3)] that(4-) by (simp add: one_send_def)
  show ?thesis
    using assms unfolding tx_capture_def Let_def
    by (auto split: if_splits prod.splits sum.splits intro!: one_send_none elim!: keep intro: length_pack_tx' [THEN conjunct1])
qed

lemma live_turn:
  assumes turn: "tx_turn env io st = (st1, ss, ps)" and live: "\<not> tx_buffer_mode st"
  shows "one_send env io st st1 ss \<and> \<not> tx_buffer_mode st1"
proof (cases "tx_ptt_pressed st")
  case False
  obtain st0 where r: "tx_release env io st = (st0, [])" "tx_transport st0 = tx_transport st" "\<not> tx_buffer_mode st0"
    using live by (cases "tx_was_transmitting st") (auto simp: tx_release_def Let_def)
  obtain st2 s2 where i: "tx_idle env io 0 st0 = (st2, s2)" by (cases "tx_idle env io 0 st0")
  have "st1 = st2" "ss = s2" using turn False r(1) i by (simp_all add: tx_turn_def)
  moreover have "one_send env io st0 st2 s2"
    using i beacon_one [of env io "st0\<lparr>tx_idle_ticks := 0\<rparr>" st2 s2] one_send_none
    by (auto simp: tx_idle_def Let_def one_send_def split: if_splits)
  ultimately show ?thesis using r idle_spec [OF i] by (simp add: one_send_def)
next
  case True
  have conserved: "\<not> tx_buffer_mode st1" using turn_conserves [OF turn] live by (simp add: tx_conserved_def)
  consider "tx_start io st = None" | st0 where "tx_start io st = Some st0" "tx_transport st0 = tx_transport st" "\<not> tx_buffer_mode st0"
    using live by (cases "tx_start io st") (auto simp: tx_start_def next_stream_epoch_def split: if_splits option.splits)
  then show ?thesis
  proof cases
    case 1
    with turn True conserved show ?thesis by (auto simp: tx_turn_def one_send_def)
  next
    case 2
    then have "tx_capture env io st0 = (st1, ss, ps)" using turn True by (simp add: tx_turn_def)
    from capture_one [OF this 2(3)] 2(2) conserved show ?thesis by (simp add: one_send_def)
  qed
qed

section \<open>The talker's side\<close>

text \<open>A frame sent is polled as one packet: the next nonce and the frame encrypted under it.\<close>

lemma congested_empty: "pq_inner (ct_outbound c) = [] \<Longrightarrow> \<not> is_outbound_congested c"
  by (simp add: is_outbound_congested_def is_congested_def)

lemma talker_send:
  assumes ok: "talker_ok tm" and c: "tm_crypto tm = Some s" "cs_nonce_counter s \<noteq> - 1" "session_ok s"
    and e: "enc (cs_cipher s) (nonce_of s (cs_nonce_counter s + 1)) [] wire = Some ct" "length ct \<le> 1000"
    and snd: "send enc tm wire now os = (tm1, air, r)" and poll: "polled - now \<le> MAX_OUTBOUND_AGE"
  shows "\<exists>tm2. poll_cellular_outbound tm1 polled = (tm2, Some (nonce_of s (cs_nonce_counter s + 1) @ ct)) \<and> talker_ok tm2 \<and>
    tm_crypto tm2 = Some (s\<lparr>cs_nonce_counter := cs_nonce_counter s + 1\<rparr>)"
proof -
  let ?p = "nonce_of s (cs_nonce_counter s + 1) @ ct"
  let ?s = "s\<lparr>cs_nonce_counter := cs_nonce_counter s + 1\<rparr>"
  have len: "length ?p \<le> 1400" using e(2) length_nonce_of [OF c(3)] by simp
  have "encrypt enc s wire = (?s, Inr ?p)" using c(2) e(1) by (simp add: encrypt_Inr_iff)
  with snd c(1) have f: "fan_out (tm\<lparr>tm_crypto := Some ?s\<rparr>) ?p now os = (tm1, air, r)" by (simp add: send_def)
  define q where "q = (ct_outbound (tm_cellular tm))\<lparr>pq_inner := [(?p, now)]\<rparr>"
  have live: "can_transmit_realtime (tm_cellular tm)" "pq_inner (ct_outbound (tm_cellular tm)) = []" using ok by (auto simp: talker_ok_def)
  have "cell_send_audio (tm_cellular tm) ?p now =
      ((tm_cellular tm)\<lparr>ct_outbound := q, ct_packets_queued := ct_packets_queued (tm_cellular tm) + 1\<rparr>, Inr (length ?p))"
    using live len ok by (simp add: cell_send_audio_def can_transmit_realtime_def MAX_PACKET_SIZE_def push_empty q_def talker_ok_def MAX_OUTBOUND_QUEUE_SIZE_def)
  with f live congested_empty have tm1: "tm_cellular tm1 = (tm_cellular tm)\<lparr>ct_outbound := q, ct_packets_queued := ct_packets_queued (tm_cellular tm) + 1\<rparr>"
    "tm_crypto tm1 = Some ?s"
    by (auto simp: fan_out_def send_relay_def send_bluetooth_def split: prod.splits if_splits)
  have "pop q polled = (Some ?p, q\<lparr>pq_inner := []\<rparr>)"
    by (rule pop_single) (use poll ok in \<open>simp_all add: q_def talker_ok_def\<close>)
  then show ?thesis using tm1 ok
    by (simp add: poll_cellular_outbound_def poll_outbound_def talker_ok_def can_transmit_realtime_def q_def)
qed

lemma talker_idle:
  assumes "talker_ok tm"
  shows "poll_cellular_outbound tm polled = (tm, None)"
proof -
  have "pop (ct_outbound (tm_cellular tm)) polled = (None, ct_outbound (tm_cellular tm))"
    using assms by (intro pop_empty) (simp add: talker_ok_def)
  then show ?thesis by (simp add: poll_cellular_outbound_def poll_outbound_def)
qed

section \<open>The listener's side\<close>

lemma wifi_quiet: "poll_wifi_into dec tm len WouldBlock = (tm, [])"
  by (simp add: poll_wifi_into_def wifi_receive_audio_def split: sum.split)

lemma listener_idle:
  assumes "listener_ok tm"
  shows "rx_poll env now [] tm s = (tm, s)"
proof -
  have "pop (ct_inbound (tm_cellular tm)) now = (None, ct_inbound (tm_cellular tm))"
    using assms by (intro pop_empty) (simp add: listener_ok_def)
  then have "poll_cellular_into (re_aead env) tm 2048 now = (tm, [])"
    using assms by (simp add: poll_cellular_into_def cell_receive_audio_def listener_ok_def)
  then show ?thesis by (simp add: rx_poll.simps [of env now "[]"] rx_polls_def wifi_quiet)
qed

lemma rx_frame_empty [simp]: "rx_frame env now s [] = s"
  by (simp add: rx_frame_def rx_deliver_def)

lemma listener_receives:
  assumes ok: "listener_ok tm" and c: "tm_crypto tm = Some s" "session_ok s"
    and d: "re_aead env (cs_cipher s) nonce [] ct = Some wire" "length nonce = 12" "16 \<le> length ct" "length ct \<le> 1000"
    and fresh: "nonce \<notin> set (seen_order s)" and w: "wire \<noteq> []" "length wire \<le> 2048"
    and t: "now - arrived \<le> MAX_INBOUND_AGE"
  shows "\<exists>tm1. rx_poll env now [] (tm_on_cellular_message tm (nonce @ ct) arrived) sb = (tm1, rx_frame env now sb wire) \<and>
    listener_ok tm1 \<and> tm_crypto tm1 = Some (snd (note_nonce nonce s))"
proof -
  let ?q = "(ct_inbound (tm_cellular tm))\<lparr>pq_inner := [(nonce @ ct, arrived)]\<rparr>"
  define tm0 where "tm0 = tm_on_cellular_message tm (nonce @ ct) arrived"
  have q: "ct_inbound (tm_cellular tm0) = ?q" "ct_state (tm_cellular tm0) = Connected" "tm_crypto tm0 = Some s"
    using ok d c by (simp_all add: tm0_def tm_on_cellular_message_def on_message_received_def MAX_PACKET_SIZE_def push_empty
        listener_ok_def MAX_INBOUND_QUEUE_SIZE_def)
  define c1 where "c1 = (tm_cellular tm0)\<lparr>ct_inbound := ?q\<lparr>pq_inner := []\<rparr>\<rparr>"
  have "pop ?q now = (Some (nonce @ ct), ?q\<lparr>pq_inner := []\<rparr>)"
    by (rule pop_single) (use t ok in \<open>simp_all add: listener_ok_def\<close>)
  then have "cell_receive_audio (tm_cellular tm0) (2048 + 128) now = (c1, nonce @ ct)"
    using q d(2,4) by (simp add: cell_receive_audio_def c1_def)
  moreover have "authentic (re_aead env) (cs_cipher s) (nonce @ ct) = Some wire" using d by (simp add: authentic_def)
  then have "decrypt (re_aead env) s (nonce @ ct) = (snd (note_nonce nonce s), Inr wire)"
    using replay.acc_iff [OF c(2), of nonce] fresh d(2) by (simp add: decrypt_cases)
  then have "decrypt_into (re_aead env) (tm0\<lparr>tm_cellular := c1\<rparr>) (nonce @ ct) 2048 =
      (tm0\<lparr>tm_cellular := c1, tm_crypto := Some (snd (note_nonce nonce s))\<rparr>, wire)"
    using q(3) w(2) by (simp add: decrypt_into_def decrypt_live_or_pending_def)
  ultimately have p: "poll_cellular_into (re_aead env) tm0 2048 now =
      (tm0\<lparr>tm_cellular := c1, tm_crypto := Some (snd (note_nonce nonce s))\<rparr>, wire)"
    using q(2) d(2,3) by (cases ct) (simp_all add: poll_cellular_into_def)
  let ?tm1 = "tm0\<lparr>tm_cellular := c1, tm_crypto := Some (snd (note_nonce nonce s))\<rparr>"
  have ok1: "listener_ok ?tm1" using ok q(2) by (simp add: listener_ok_def c1_def)
  have "rx_poll env now [] tm0 sb = rx_poll env now [] ?tm1 (rx_frame env now sb wire)"
    using p w(1) by (simp add: rx_poll.simps [of env now "[]" tm0] rx_polls_def wifi_quiet)
  also have "\<dots> = (?tm1, rx_frame env now sb wire)" by (rule listener_idle [OF ok1])
  finally show ?thesis using ok1 by (auto simp: tm0_def)
qed

section \<open>A hop, end to end\<close>

lemma next_nonces:
  assumes "session_ok sa" "session_ok sb" "cs_nonce_counter sa \<noteq> - 1"
    and "\<forall>i. cs_nonce_counter sa < i \<longrightarrow> nonce_of sa i \<notin> set (seen_order sb)"
  shows "\<forall>i. cs_nonce_counter sa + 1 < i \<longrightarrow>
    nonce_of (sa\<lparr>cs_nonce_counter := cs_nonce_counter sa + 1\<rparr>) i \<notin> set (seen_order (snd (note_nonce (nonce_of sa (cs_nonce_counter sa + 1)) sb)))"
proof (intro allI impI)
  fix i assume i: "cs_nonce_counter sa + 1 < i"
  have "unat (cs_nonce_counter sa + 1) = Suc (unat (cs_nonce_counter sa))" using assms(3) by (rule u32_succ)
  with i have lt: "cs_nonce_counter sa < i" "i \<noteq> cs_nonce_counter sa + 1" by (auto simp: word_less_nat_alt)
  have "set (seen_order (snd (note_nonce (nonce_of sa (cs_nonce_counter sa + 1)) sb))) \<subseteq>
      insert (nonce_of sa (cs_nonce_counter sa + 1)) (set (seen_order sb))"
    using replay.acc_recent [OF assms(2), of "nonce_of sa (cs_nonce_counter sa + 1)"]
      set_last_n_subset [of REPLAY_WINDOW "seen_order sb @ [nonce_of sa (cs_nonce_counter sa + 1)]"] by (auto split: if_splits)
  moreover have "nonce_of sa i \<noteq> nonce_of sa (cs_nonce_counter sa + 1)" using lt nonce_of_inject [OF assms(1) assms(1)] by simp
  moreover have "nonce_of (sa\<lparr>cs_nonce_counter := cs_nonce_counter sa + 1\<rparr>) i = nonce_of sa i" by (simp add: nonce_of_def)
  ultimately show "nonce_of (sa\<lparr>cs_nonce_counter := cs_nonce_counter sa + 1\<rparr>) i \<notin>
      set (seen_order (snd (note_nonce (nonce_of sa (cs_nonce_counter sa + 1)) sb)))"
    using assms(4) lt(1) by auto
qed

lemma relay_hop_said:
  assumes aead: "aead_correct (te_aead env) (re_aead renv)" "aead_total (te_aead env)"
    and ok: "talker_ok (tx_transport a)" "listener_ok tb" "paired (Suc n) (tx_transport a) tb" "\<not> tx_buffer_mode a" "hop_ok h"
  shows "\<exists>a1 tb1. relay_hop env renv (a, tb, sb) h = (a1, tb1, heard renv sb (said env a [h])) \<and>
    (\<forall>hs. said env a (h # hs) = said env a [h] @ said env a1 hs) \<and>
    talker_ok (tx_transport a1) \<and> listener_ok tb1 \<and> paired n (tx_transport a1) tb1 \<and> \<not> tx_buffer_mode a1"
proof -
  obtain a1 ss ps where turn: "tx_turn env (hop_io h) a = (a1, ss, ps)" by (metis prod_cases3)
  note lt = live_turn [OF turn ok(4)]
  obtain sa s where p: "tm_crypto (tx_transport a) = Some sa" "tm_crypto tb = Some s" "cs_cipher sa = cs_cipher s" "session_ok sa"
    "session_ok s" "unat (cs_nonce_counter sa) + Suc n < 2 ^ 32" "\<forall>i. cs_nonce_counter sa < i \<longrightarrow> nonce_of sa i \<notin> set (seen_order s)"
    using ok(3) by (auto simp: paired_def)
  have less: "cs_nonce_counter sa \<noteq> - 1"
  proof
    assume "cs_nonce_counter sa = - 1"
    then have "unat (cs_nonce_counter sa) = 2 ^ 32 - 1" by (simp add: unsigned_minus_1_eq_mask mask_eq_exp_minus_1)
    with p(6) show False by simp
  qed
  have cnt: "unat (cs_nonce_counter sa + 1) = Suc (unat (cs_nonce_counter sa))" using less by (rule u32_succ)
  consider "ss = []" "tx_transport a1 = tx_transport a"
    | p wire air r where "ss = [(p, wire, air, r)]" "packed_by env (hop_io h) wire" "length wire \<le> 380"
      "send (te_aead env) (tx_transport a) wire (fst (io_sends (hop_io h) 0)) (snd (io_sends (hop_io h) 0)) = (tx_transport a1, air, r)"
    using lt by (auto simp: one_send_def)
  then show ?thesis
  proof cases
    case 1
    have poll: "poll_cellular_outbound (tx_transport a1) (hop_polled h) = (tx_transport a1, None)"
      using ok(1) 1(2) by (intro talker_idle) simp
    have "paired n (tx_transport a1) tb" using p 1(2) by (simp add: paired_def)
    then show ?thesis using ok lt turn 1 poll listener_idle [OF ok(2), of renv "hop_read h" sb]
      by (simp add: relay_hop_def heard_def)
  next
    case (2 q wire air r)
    let ?n = "nonce_of sa (cs_nonce_counter sa + 1)"
    have "wire \<noteq> []" by (rule packed_by_nonempty [OF 2(2)])
    obtain ct where ct: "te_aead env (cs_cipher sa) ?n [] wire = Some ct"
      using aead_totalD [OF aead(2), of wire] 2(3) by fastforce
    have ctd: "re_aead renv (cs_cipher s) ?n [] ct = Some wire" "length ct = length wire + 16"
      using aead_correctD [OF aead(1) ct] p(3) by simp_all
    obtain ta where ta: "poll_cellular_outbound (tx_transport a1) (hop_polled h) = (ta, Some (?n @ ct))" "talker_ok ta"
      "tm_crypto ta = Some (sa\<lparr>cs_nonce_counter := cs_nonce_counter sa + 1\<rparr>)"
      using talker_send [OF ok(1) p(1) less p(4) ct _ 2(4), of "hop_polled h"] ctd(2) 2(3) ok(5) by (auto simp: hop_ok_def)
    obtain tb1 where tb1: "rx_poll renv (hop_read h) [] (tm_on_cellular_message tb (?n @ ct) (hop_arrived h)) sb = (tb1, rx_frame renv (hop_read h) sb wire)"
      "listener_ok tb1" "tm_crypto tb1 = Some (snd (note_nonce ?n s))"
      using listener_receives [OF ok(2) p(2,5) ctd(1) length_nonce_of [OF p(4)], of "hop_read h" "hop_arrived h" sb] ctd(2) p(7) \<open>wire \<noteq> []\<close> 2(3) ok(5) cnt
      by (auto simp: hop_ok_def word_less_nat_alt)
    have "session_ok (snd (note_nonce ?n s))" using replay.acc_inv [OF p(5)] .
    then have "paired n ta tb1" unfolding paired_def using ta(3) tb1(3) p(3,4,6) cnt next_nonces [OF p(4,5) less p(7)]
      by (auto simp: session_ok_def)
    then show ?thesis using ta tb1 lt turn 2(1) by (simp add: relay_hop_def heard_def)
  qed
qed

lemma relay_run_said:
  assumes aead: "aead_correct (te_aead env) (re_aead renv)" "aead_total (te_aead env)"
    and "talker_ok (tx_transport a)" "listener_ok tb" "paired (length hs) (tx_transport a) tb" "\<not> tx_buffer_mode a" "\<forall>h \<in> set hs. hop_ok h"
  shows "snd (snd (foldl (relay_hop env renv) (a, tb, sb) hs)) = heard renv sb (said env a hs)"
  using assms(3-)
proof (induction hs arbitrary: a tb sb)
  case Nil
  then show ?case by (simp add: heard_def)
next
  case (Cons h hs)
  obtain a1 tb1 where hop: "relay_hop env renv (a, tb, sb) h = (a1, tb1, heard renv sb (said env a [h]))"
    "said env a (h # hs) = said env a [h] @ said env a1 hs" "talker_ok (tx_transport a1)" "listener_ok tb1"
    "paired (length hs) (tx_transport a1) tb1" "\<not> tx_buffer_mode a1"
    using relay_hop_said [OF aead Cons.prems(1,2) _ Cons.prems(4), of "length hs" h sb] Cons.prems(3,5) by auto
  have "snd (snd (foldl (relay_hop env renv) (a, tb, sb) (h # hs))) = heard renv (heard renv sb (said env a [h])) (said env a1 hs)"
    using Cons.IH [OF hop(3-6)] hop(1) Cons.prems(5) by simp
  also have "\<dots> = heard renv sb (said env a (h # hs))" unfolding hop(2) by (simp add: heard_def)
  finally show ?case .
qed

text \<open>Every frame said is one the parser accepts, from this talker.\<close>

lemma said_parses:
  assumes "\<not> tx_buffer_mode a" "(wire, now) \<in> set (said env a hs)"
  shows "\<exists>f. unpack_wire_frame_detailed wire = Ok f \<and> wire_sender_id f = from_utf8_lossy (take 32 (te_sender_id env))"
  using assms
proof (induction hs arbitrary: a)
  case (Cons h hs)
  obtain a1 ss ps where turn: "tx_turn env (hop_io h) a = (a1, ss, ps)" by (metis prod_cases3)
  note lt = live_turn [OF turn Cons.prems(1)]
  let ?a = "a1\<lparr>tx_transport := fst (poll_cellular_outbound (tx_transport a1) (hop_polled h))\<rparr>"
  have "\<not> tx_buffer_mode ?a" using lt by simp
  from Cons.IH [OF this] Cons.prems(2) turn lt show ?case
    by (auto simp: one_send_def elim: packed_by_parses)
qed simp

end
