(* ===== verification/Ios_Audio.thy ===== *)
theory Ios_Audio
  imports Codec
begin

text \<open>
  The audio engine and the codec of the iOS client, \<open>ios-native/src/audio.rs\<close> and \<open>codec.rs\<close>: the frame type,
  the recording and playing state, the two ring buffers between Swift and Rust, and the frame-size checks around
  the Opus binding. The binding is a parameter.
\<close>

section \<open>Frames\<close>

definition IOS_SAMPLE_RATE :: u32 where "IOS_SAMPLE_RATE = 48000"
definition IOS_FRAME_SIZE :: nat where "IOS_FRAME_SIZE = 960"
definition RING_BUFFER_SIZE :: nat where "RING_BUFFER_SIZE = unat IOS_SAMPLE_RATE"

datatype audio_error = BufferOverflow | BufferUnderflow | AudioFrameSize nat

record AudioFrame =
  af_samples :: pcm
  af_sample_rate :: u32

definition AudioFrame_new :: "pcm \<Rightarrow> AudioFrame" where
  "AudioFrame_new samples = \<lparr>af_samples = samples, af_sample_rate = IOS_SAMPLE_RATE\<rparr>"

definition frame_to_bytes :: "AudioFrame \<Rightarrow> bytes" where
  "frame_to_bytes f = concat (map (to_le 2) (af_samples f))"

text \<open>\<open>chunks_exact(2)\<close> over the little-endian pairs.\<close>

fun sample_pairs :: "bytes \<Rightarrow> pcm" where
  "sample_pairs (lo # hi # rest) = from_le [lo, hi] # sample_pairs rest"
| "sample_pairs _ = []"

definition frame_from_bytes :: "bytes \<Rightarrow> audio_error + AudioFrame" where
  "frame_from_bytes bs =
     (if length bs mod 2 \<noteq> 0 then Inl (AudioFrameSize (length bs)) else Inr (AudioFrame_new (sample_pairs bs)))"

section \<open>The engine\<close>

datatype AudioState = AudioIdle | Recording | Playing | RecordingAndPlaying

text \<open>Each ring buffer is its content, the oldest sample first.\<close>

record AudioEngine =
  ae_state :: AudioState
  ae_input :: pcm
  ae_output :: pcm

definition AudioEngine_new :: AudioEngine where
  "AudioEngine_new = \<lparr>ae_state = AudioIdle, ae_input = [], ae_output = []\<rparr>"

definition start_recording :: "AudioEngine \<Rightarrow> AudioEngine" where
  "start_recording a = a\<lparr>ae_state :=
     (case ae_state a of AudioIdle \<Rightarrow> Recording | Playing \<Rightarrow> RecordingAndPlaying | s \<Rightarrow> s)\<rparr>"

definition stop_recording :: "AudioEngine \<Rightarrow> AudioEngine" where
  "stop_recording a = a\<lparr>ae_state :=
     (case ae_state a of Recording \<Rightarrow> AudioIdle | RecordingAndPlaying \<Rightarrow> Playing | s \<Rightarrow> s)\<rparr>"

definition start_playing :: "AudioEngine \<Rightarrow> AudioEngine" where
  "start_playing a = a\<lparr>ae_state :=
     (case ae_state a of AudioIdle \<Rightarrow> Playing | Recording \<Rightarrow> RecordingAndPlaying | s \<Rightarrow> s)\<rparr>"

definition stop_playing :: "AudioEngine \<Rightarrow> AudioEngine" where
  "stop_playing a = a\<lparr>ae_state :=
     (case ae_state a of Playing \<Rightarrow> AudioIdle | RecordingAndPlaying \<Rightarrow> Recording | s \<Rightarrow> s)\<rparr>"

text \<open>
  \<open>push_slice\<close> writes what fits and returns how much that was; \<open>pop_slice\<close> takes at most the length of the buffer.
\<close>

definition push_slice :: "pcm \<Rightarrow> pcm \<Rightarrow> pcm \<times> nat" where
  "push_slice ring samples =
     (let room = RING_BUFFER_SIZE - length ring in (ring @ take room samples, min room (length samples)))"

definition pop_slice :: "pcm \<Rightarrow> nat \<Rightarrow> pcm \<times> pcm" where
  "pop_slice ring n = (drop n ring, take n ring)"

definition write_input :: "AudioEngine \<Rightarrow> pcm \<Rightarrow> AudioEngine \<times> (audio_error + unit)" where
  "write_input a samples =
     (case push_slice (ae_input a) samples of (ring, written) \<Rightarrow>
        (a\<lparr>ae_input := ring\<rparr>, if written < length samples then Inl BufferOverflow else Inr ()))"

definition read_input_frame :: "AudioEngine \<Rightarrow> AudioEngine \<times> (audio_error + AudioFrame)" where
  "read_input_frame a =
     (if length (ae_input a) < IOS_FRAME_SIZE then (a, Inl BufferUnderflow)
      else case pop_slice (ae_input a) IOS_FRAME_SIZE of (ring, samples) \<Rightarrow>
        (a\<lparr>ae_input := ring\<rparr>,
         if length samples < IOS_FRAME_SIZE then Inl BufferUnderflow else Inr (AudioFrame_new samples)))"

definition write_output_frame :: "AudioEngine \<Rightarrow> AudioFrame \<Rightarrow> AudioEngine \<times> (audio_error + unit)" where
  "write_output_frame a frame =
     (case push_slice (ae_output a) (af_samples frame) of (ring, written) \<Rightarrow>
        (a\<lparr>ae_output := ring\<rparr>, if written < length (af_samples frame) then Inl BufferOverflow else Inr ()))"

definition read_output :: "AudioEngine \<Rightarrow> nat \<Rightarrow> AudioEngine \<times> pcm" where
  "read_output a n = (case pop_slice (ae_output a) n of (ring, samples) \<Rightarrow> (a\<lparr>ae_output := ring\<rparr>, samples))"

definition input_available :: "AudioEngine \<Rightarrow> nat" where
  "input_available a = length (ae_input a)"

definition output_available :: "AudioEngine \<Rightarrow> nat" where
  "output_available a = RING_BUFFER_SIZE - length (ae_output a)"

section \<open>The codec\<close>

definition MAX_OPUS_PACKET :: nat where "MAX_OPUS_PACKET = 4000"

datatype codec_error = EncoderError rstring | DecoderError rstring | CodecFrameSize nat

datatype opus_setting = Bitrate int | Vbr bool | Complexity nat | InbandFec bool | PacketLossPerc nat

text \<open>
  The binding: construction and settings may fail; coding returns the new state and an error or the size written
  with the bytes or samples written; a packet is made from bytes or refused.
\<close>

record ('e, 'd) audiopus =
  ap_encoder_new :: "rstring + 'e"
  ap_set :: "'e \<Rightarrow> opus_setting \<Rightarrow> rstring + 'e"
  ap_encode :: "'e \<Rightarrow> pcm \<Rightarrow> nat \<Rightarrow> 'e \<times> (rstring + nat \<times> bytes)"
  ap_decoder_new :: "rstring + 'd"
  ap_packet :: "bytes \<Rightarrow> rstring + bytes"
  ap_decode :: "'d \<Rightarrow> bytes \<Rightarrow> nat \<Rightarrow> bool \<Rightarrow> 'd \<times> (rstring + nat \<times> pcm)"

definition IOS_SETTINGS :: "opus_setting list" where
  "IOS_SETTINGS = [Bitrate 32000, Vbr True, Complexity 10, InbandFec True, PacketLossPerc 10]"

fun apply_settings :: "('e, 'd) audiopus \<Rightarrow> 'e \<Rightarrow> opus_setting list \<Rightarrow> codec_error + 'e" where
  "apply_settings ap e [] = Inr e"
| "apply_settings ap e (s # ss) =
     (case ap_set ap e s of Inl x \<Rightarrow> Inl (EncoderError x) | Inr e \<Rightarrow> apply_settings ap e ss)"

definition OpusEncoder_new :: "('e, 'd) audiopus \<Rightarrow> codec_error + 'e" where
  "OpusEncoder_new ap =
     (case ap_encoder_new ap of Inl x \<Rightarrow> Inl (EncoderError x) | Inr e \<Rightarrow> apply_settings ap e IOS_SETTINGS)"

definition ios_encode :: "('e, 'd) audiopus \<Rightarrow> 'e \<Rightarrow> pcm \<Rightarrow> 'e \<times> (codec_error + bytes)" where
  "ios_encode ap e samples =
     (if length samples \<noteq> IOS_FRAME_SIZE then (e, Inl (CodecFrameSize (length samples)))
      else case ap_encode ap e samples MAX_OPUS_PACKET of
             (e, Inl x) \<Rightarrow> (e, Inl (EncoderError x))
           | (e, Inr (n, written)) \<Rightarrow> (e, Inr (out_buffer MAX_OPUS_PACKET (int n) written)))"

definition OpusDecoder_new :: "('e, 'd) audiopus \<Rightarrow> codec_error + 'd" where
  "OpusDecoder_new ap = (case ap_decoder_new ap of Inl x \<Rightarrow> Inl (DecoderError x) | Inr d \<Rightarrow> Inr d)"

definition ios_decode :: "('e, 'd) audiopus \<Rightarrow> 'd \<Rightarrow> bytes \<Rightarrow> 'd \<times> (codec_error + pcm)" where
  "ios_decode ap d opus =
     (case ap_packet ap opus of
        Inl x \<Rightarrow> (d, Inl (DecoderError x))
      | Inr packet \<Rightarrow>
          (case ap_decode ap d packet IOS_FRAME_SIZE False of
             (d, Inl x) \<Rightarrow> (d, Inl (DecoderError x))
           | (d, Inr (n, written)) \<Rightarrow> (d, Inr (out_buffer IOS_FRAME_SIZE (int n) written))))"

section \<open>Lemmas\<close>

lemma sample_pairs_to_le: "sample_pairs (to_le 2 w @ bs) = w # sample_pairs bs" for w :: i16
  using from_le_to_le [of 2 w] by (simp add: numeral_2_eq_2)

text \<open>A frame survives the conversion to bytes and back; an odd number of bytes is refused.\<close>

lemma frame_bytes_roundtrip: "frame_from_bytes (frame_to_bytes (AudioFrame_new xs)) = Inr (AudioFrame_new xs)"
proof -
  have "length (concat (map (to_le 2) xs)) = 2 * length xs" by (induction xs) auto
  moreover have "sample_pairs (concat (map (to_le 2) xs)) = xs"
    by (induction xs) (simp_all add: sample_pairs_to_le del: to_le.simps)
  ultimately show ?thesis by (simp add: frame_from_bytes_def frame_to_bytes_def AudioFrame_new_def)
qed

text \<open>The four states are the two independent switches.\<close>

definition recording :: "AudioEngine \<Rightarrow> bool" where
  "recording a \<longleftrightarrow> ae_state a \<in> {Recording, RecordingAndPlaying}"

definition playing :: "AudioEngine \<Rightarrow> bool" where
  "playing a \<longleftrightarrow> ae_state a \<in> {Playing, RecordingAndPlaying}"

lemma engine_switches [simp]:
  "recording (start_recording a)" "playing (start_recording a) = playing a"
  "\<not> recording (stop_recording a)" "playing (stop_recording a) = playing a"
  "playing (start_playing a)" "recording (start_playing a) = recording a"
  "\<not> playing (stop_playing a)" "recording (stop_playing a) = recording a"
  by (auto simp: recording_def playing_def start_recording_def stop_recording_def start_playing_def
      stop_playing_def split: AudioState.splits)

lemma engine_rings [simp]:
  "ae_input (start_recording a) = ae_input a" "ae_output (start_recording a) = ae_output a"
  "ae_input (stop_recording a) = ae_input a" "ae_output (stop_recording a) = ae_output a"
  "ae_input (start_playing a) = ae_input a" "ae_output (start_playing a) = ae_output a"
  "ae_input (stop_playing a) = ae_input a" "ae_output (stop_playing a) = ae_output a"
  by (simp_all add: start_recording_def stop_recording_def start_playing_def stop_playing_def)

definition engine_ok :: "AudioEngine \<Rightarrow> bool" where
  "engine_ok a \<longleftrightarrow> length (ae_input a) \<le> RING_BUFFER_SIZE \<and> length (ae_output a) \<le> RING_BUFFER_SIZE"

lemma push_slice_bound:
  "length ring \<le> RING_BUFFER_SIZE \<Longrightarrow> length (fst (push_slice ring xs)) \<le> RING_BUFFER_SIZE"
  by (simp add: push_slice_def Let_def)

lemma engine_ok_ops [simp]:
  "engine_ok AudioEngine_new"
  "engine_ok a \<Longrightarrow> engine_ok (fst (write_input a xs))"
  "engine_ok a \<Longrightarrow> engine_ok (fst (read_input_frame a))"
  "engine_ok a \<Longrightarrow> engine_ok (fst (write_output_frame a f))"
  "engine_ok a \<Longrightarrow> engine_ok (fst (read_output a n))"
  "engine_ok (start_recording a) = engine_ok a" "engine_ok (stop_recording a) = engine_ok a"
  "engine_ok (start_playing a) = engine_ok a" "engine_ok (stop_playing a) = engine_ok a"
  by (auto simp: engine_ok_def AudioEngine_new_def write_input_def read_input_frame_def write_output_frame_def
      read_output_def pop_slice_def push_slice_bound prod.case_eq_if)

text \<open>When there is room, what is written is what is read, in order; a frame is exactly 960 samples.\<close>

lemma write_output_fits:
  "length (ae_output a) + length (af_samples f) \<le> RING_BUFFER_SIZE \<Longrightarrow>
   write_output_frame a f = (a\<lparr>ae_output := ae_output a @ af_samples f\<rparr>, Inr ())"
  by (auto simp: write_output_frame_def push_slice_def Let_def)

lemma read_input_Inr:
  "read_input_frame a = (a1, Inr f) \<longleftrightarrow>
     960 \<le> length (ae_input a) \<and> f = AudioFrame_new (take 960 (ae_input a)) \<and>
     a1 = a\<lparr>ae_input := drop 960 (ae_input a)\<rparr>"
  by (auto simp: read_input_frame_def pop_slice_def IOS_FRAME_SIZE_def)

lemma read_input_Inl: "read_input_frame a = (a1, Inl e) \<longleftrightarrow> length (ae_input a) < 960 \<and> a1 = a \<and> e = BufferUnderflow"
  by (auto simp: read_input_frame_def pop_slice_def IOS_FRAME_SIZE_def)

lemma write_output_fields [simp]:
  "ae_input (fst (write_output_frame a f)) = ae_input a" "ae_state (fst (write_output_frame a f)) = ae_state a"
  by (simp_all add: write_output_frame_def prod.case_eq_if)

end
