(* ===== verification/Ios_Floor.thy ===== *)
theory Ios_Floor
  imports Floor
begin

text \<open>
  The floor bookkeeping of the iOS client, \<open>ios-native/src/floor.rs\<close>: who owns the floor, until when, and why the
  last local press was refused. The module keeps absolute deadlines that are read lazily; the timers it replaces
  are the abstract machine it is proved to refine.
\<close>

section \<open>Model\<close>

definition REJECT_CHANNEL_BUSY :: rstring where "REJECT_CHANNEL_BUSY = ascii ''Channel busy''"
definition REJECT_NOT_ENCRYPTED :: rstring where "REJECT_NOT_ENCRYPTED = ascii ''Authenticate via QR first''"
definition REJECT_MAX_TX :: rstring where "REJECT_MAX_TX = ascii ''Transmission stopped after safety time limit''"

record FloorState =
  fl_owner :: "rstring option"
  fl_hold_until :: u64
  fl_speaking_until :: u64
  fl_self_emergency :: bool
  fl_reject_reason :: "rstring option"

definition FloorState_new :: FloorState where
  "FloorState_new = \<lparr>fl_owner = None, fl_hold_until = 0, fl_speaking_until = 0, fl_self_emergency = False,
     fl_reject_reason = None\<rparr>"

definition floor_hold :: "FloorState \<Rightarrow> rstring \<Rightarrow> u64 \<Rightarrow> u64 \<Rightarrow> FloorState" where
  "floor_hold f peer_id hold_ms now =
     f\<lparr>fl_owner := Some peer_id, fl_hold_until := sat_add now hold_ms,
       fl_speaking_until := sat_add now UI_SPEAKING_MS\<rparr>"

definition floor_release_after_drain :: "FloorState \<Rightarrow> rstring \<Rightarrow> u64 \<Rightarrow> FloorState" where
  "floor_release_after_drain f peer_id now =
     (if fl_owner f \<noteq> Some peer_id then f
      else let drain_deadline = sat_add now DRAIN_HOLD_MS
           in if drain_deadline < fl_hold_until f then f\<lparr>fl_hold_until := drain_deadline\<rparr> else f)"

definition floor_clear :: "FloorState \<Rightarrow> FloorState" where
  "floor_clear f = f\<lparr>fl_owner := None, fl_hold_until := 0, fl_speaking_until := 0\<rparr>"

definition floor_clear_if_owner :: "FloorState \<Rightarrow> rstring \<Rightarrow> FloorState" where
  "floor_clear_if_owner f peer_id =
     (if fl_owner f = Some peer_id then f\<lparr>fl_owner := None, fl_hold_until := 0\<rparr> else f)"

definition floor_is_held :: "FloorState \<Rightarrow> u64 \<Rightarrow> bool" where
  "floor_is_held f now \<longleftrightarrow> now < fl_hold_until f"

definition floor_owner :: "FloorState \<Rightarrow> u64 \<Rightarrow> rstring option" where
  "floor_owner f now = (if \<not> floor_is_held f now then None else fl_owner f)"

definition floor_peer_speaking :: "FloorState \<Rightarrow> u64 \<Rightarrow> bool" where
  "floor_peer_speaking f now \<longleftrightarrow> now < fl_speaking_until f"

definition set_self_emergency :: "FloorState \<Rightarrow> bool \<Rightarrow> FloorState" where
  "set_self_emergency f active = f\<lparr>fl_self_emergency := active\<rparr>"

definition set_reject_reason :: "FloorState \<Rightarrow> rstring \<Rightarrow> FloorState" where
  "set_reject_reason f reason = f\<lparr>fl_reject_reason := Some reason\<rparr>"

definition clear_reject_reason :: "FloorState \<Rightarrow> FloorState" where
  "clear_reject_reason f = f\<lparr>fl_reject_reason := None\<rparr>"

definition take_reject_reason :: "FloorState \<Rightarrow> FloorState \<times> rstring option" where
  "take_reject_reason f = (f\<lparr>fl_reject_reason := None\<rparr>, fl_reject_reason f)"

definition floor_blocks_local :: "FloorState \<Rightarrow> u64 \<Rightarrow> bool" where
  "floor_blocks_local f now = should_block_local (floor_is_held f now) (fl_self_emergency f)"

section \<open>The timers it replaces\<close>

text \<open>
  The floor with a cancellable job: the owner, if any, with the time at which its job will fire. Before anything
  else happens at \<open>now\<close>, a job that is due fires and drops the owner.
\<close>

datatype floor_event = Hold rstring u64 | Drain rstring | Clear | ClearIfOwner rstring

type_synonym floor_timer = "(rstring \<times> nat) option"

definition fire :: "nat \<Rightarrow> floor_timer \<Rightarrow> floor_timer" where
  "fire now t = (case t of Some (p, due) \<Rightarrow> if due \<le> now then None else t | None \<Rightarrow> None)"

fun timer_event :: "floor_timer \<Rightarrow> floor_event \<Rightarrow> nat \<Rightarrow> floor_timer" where
  "timer_event t (Hold p d) now = Some (p, now + unat d)"
| "timer_event t (Drain p) now =
     (case fire now t of
        Some (q, due) \<Rightarrow> Some (q, if q = p then min due (now + 300) else due)
      | None \<Rightarrow> None)"
| "timer_event t Clear now = None"
| "timer_event t (ClearIfOwner p) now =
     (case fire now t of Some (q, due) \<Rightarrow> if q = p then None else Some (q, due) | None \<Rightarrow> None)"

fun floor_apply :: "FloorState \<Rightarrow> floor_event \<Rightarrow> u64 \<Rightarrow> FloorState" where
  "floor_apply f (Hold p d) now = floor_hold f p d now"
| "floor_apply f (Drain p) now = floor_release_after_drain f p now"
| "floor_apply f Clear now = floor_clear f"
| "floor_apply f (ClearIfOwner p) now = floor_clear_if_owner f p"

definition timer_run :: "(u64 \<times> floor_event) list \<Rightarrow> floor_timer" where
  "timer_run es = foldl (\<lambda>t (now, e). timer_event t e (unat now)) None es"

definition floor_run :: "FloorState \<Rightarrow> (u64 \<times> floor_event) list \<Rightarrow> FloorState" where
  "floor_run f es = foldl (\<lambda>f (now, e). floor_apply f e now) f es"

text \<open>Clock readings do not go back, and no deadline passes the end of the 64-bit clock.\<close>

definition in_range :: "u64 \<times> floor_event \<Rightarrow> bool" where
  "in_range ev \<longleftrightarrow> (case ev of (now, Hold p d) \<Rightarrow> unat now + unat d < 2 ^ 64 | (now, _) \<Rightarrow> unat now + 300 < 2 ^ 64)"

text \<open>The two machines at \<open>now\<close>: the timer after it has fired is the owner while the deadline lies ahead.\<close>

definition floor_refines :: "FloorState \<Rightarrow> floor_timer \<Rightarrow> nat \<Rightarrow> bool" where
  "floor_refines f t now \<longleftrightarrow>
     fire now t = (case fl_owner f of
       Some p \<Rightarrow> if now < unat (fl_hold_until f) then Some (p, unat (fl_hold_until f)) else None
     | None \<Rightarrow> None) \<and>
     (fl_owner f = None \<longrightarrow> fl_hold_until f = 0)"

lemma fire_later: "now \<le> later \<Longrightarrow> fire later (fire now t) = fire later t"
  by (auto simp: fire_def split: option.splits)

lemma refines_later: "floor_refines f t now \<Longrightarrow> now \<le> later \<Longrightarrow> floor_refines f t later"
  using fire_later [of now later t]
  by (auto simp: floor_refines_def fire_def split: option.splits if_splits)

lemma unat_sat_add_u64: "unat a + unat b < 2 ^ 64 \<Longrightarrow> unat (sat_add a b) = unat a + unat b" for a b :: u64
  by (simp add: unat_sat_add)

lemma refines_event:
  assumes "floor_refines f t (unat now)" and "in_range (now, e)"
  shows "floor_refines (floor_apply f e now) (timer_event t e (unat now)) (unat now)"
proof (cases e)
  case (Hold p d)
  with assms(2) have "unat (sat_add now d) = unat now + unat d" by (intro unat_sat_add_u64) (simp add: in_range_def)
  then show ?thesis using Hold by (simp add: floor_hold_def floor_refines_def fire_def)
next
  case (Drain p)
  with assms(2) have "unat (sat_add now DRAIN_HOLD_MS) = unat now + 300"
    by (simp add: unat_sat_add_u64 in_range_def DRAIN_HOLD_MS_def)
  then show ?thesis using Drain assms(1)
    by (auto simp: floor_refines_def floor_release_after_drain_def fire_def Let_def word_less_nat_alt min_def
        split: option.splits if_splits)
next
  case Clear
  then show ?thesis by (simp add: floor_clear_def floor_refines_def fire_def)
next
  case (ClearIfOwner p)
  then show ?thesis using assms(1)
    by (auto simp: floor_refines_def floor_clear_if_owner_def fire_def split: option.splits if_splits)
qed

lemma refines_run:
  assumes "floor_refines f t start" and "sorted (start # map (unat \<circ> fst) es)" and "\<forall>ev \<in> set es. in_range ev"
  shows "floor_refines (floor_run f es) (foldl (\<lambda>t (now, e). timer_event t e (unat now)) t es)
    (last (start # map (unat \<circ> fst) es))"
  using assms
proof (induction es arbitrary: f t start)
  case (Cons ev es)
  obtain now e where ev: "ev = (now, e)" by (cases ev)
  from Cons.prems ev have "start \<le> unat now" by simp
  with Cons.prems(1) have "floor_refines f t (unat now)" by (rule refines_later)
  with Cons.prems(3) ev have "floor_refines (floor_apply f e now) (timer_event t e (unat now)) (unat now)"
    by (simp add: refines_event)
  from Cons.IH [OF this] Cons.prems ev show ?case by (simp add: floor_run_def)
qed (simp add: floor_run_def)

lemma emergency_event [simp]: "fl_self_emergency (floor_apply f e now) = fl_self_emergency f"
  by (cases e) (simp_all add: floor_hold_def floor_release_after_drain_def floor_clear_def floor_clear_if_owner_def
      Let_def)

lemma floor_run_simps [simp]:
  "floor_run f [] = f" "floor_run f (ev # es) = floor_run (floor_apply f (snd ev) (fst ev)) es"
  by (simp_all add: floor_run_def case_prod_beta)

lemma emergency_run: "fl_self_emergency (floor_run f es) = fl_self_emergency f"
  by (induction es arbitrary: f) (simp_all del: floor_apply.simps)

section \<open>Properties\<close>

text \<open>
  C24 (refinement). The lazily read deadlines are indistinguishable from cancellable timers: after any sequence of holds,
  drains and clears with clock readings that never go back, the owner read at any later time is the owner of the
  timer machine at that time, and a local press is blocked exactly while a peer owns the floor and no local
  emergency is active. A lapsed, shortened or superseded hold never shows, and a renewed one never lapses early.
\<close>

theorem floor_deadlines_are_timers:
  assumes "sorted (map (unat \<circ> fst) es @ [unat now])" and "\<forall>ev \<in> set es. in_range ev"
  shows "floor_owner (floor_run (set_self_emergency FloorState_new em) es) now =
      map_option fst (fire (unat now) (timer_run es)) \<and>
    (floor_blocks_local (floor_run (set_self_emergency FloorState_new em) es) now \<longleftrightarrow>
      \<not> em \<and> fire (unat now) (timer_run es) \<noteq> None)"
proof -
  let ?f = "floor_run (set_self_emergency FloorState_new em) es"
  have "floor_refines (set_self_emergency FloorState_new em) None 0"
    by (simp add: floor_refines_def set_self_emergency_def FloorState_new_def fire_def)
  then have "floor_refines ?f (timer_run es) (last (0 # map (unat \<circ> fst) es))"
    unfolding timer_run_def by (rule refines_run) (use assms in \<open>auto simp: sorted_append\<close>)
  moreover have "last (0 # map (unat \<circ> fst) es) \<le> unat now"
    using assms(1) by (cases es rule: rev_cases) (auto simp: sorted_append)
  ultimately have r: "floor_refines ?f (timer_run es) (unat now)" by (rule refines_later)
  have "fl_self_emergency ?f = em" by (simp add: emergency_run set_self_emergency_def)
  with r show ?thesis
    by (auto simp: floor_refines_def floor_owner_def floor_is_held_def floor_blocks_local_def should_block_local_def
        word_less_nat_alt split: option.splits if_splits)
qed

theorem floor_deadlines_are_timers_witness:
  "floor_owner (floor_run (set_self_emergency FloorState_new False) [(1000, Hold [97] 1500), (1400, Drain [97])]) 1699 = Some [97] \<and>
   floor_owner (floor_run (set_self_emergency FloorState_new False) [(1000, Hold [97] 1500), (1400, Drain [97])]) 1700 = None"
  using floor_deadlines_are_timers [of "[(1000, Hold [97] 1500), (1400, Drain [97])]" 1699 False]
    floor_deadlines_are_timers [of "[(1000, Hold [97] 1500), (1400, Drain [97])]" 1700 False]
  by (simp add: timer_run_def fire_def in_range_def)

end
