(* ===== verification/Ios_Transport.thy ===== *)
theory Ios_Transport
  imports Crypto_Session
begin

text \<open>
  The transport manager of the iOS client, \<open>ios-native/src/transport.rs\<close>: one multicast socket, the outbound queue
  that Swift drains into the relay, the live and the staged encryption session, and the table of peers. The cipher is
  a parameter; what the operating system answers to a socket call is an argument, and a datagram handed to the
  multicast group is part of the result.
\<close>

section \<open>State\<close>

definition RELAY_OUTBOUND_CAP :: nat where "RELAY_OUTBOUND_CAP = 256"
definition PEER_TIMEOUT :: nat where "PEER_TIMEOUT = 30 * 1000000000"

datatype io_kind = NotConnected | WouldBlock | OtherIo rstring

datatype ios_transport_error = IoError io_kind | BindError rstring | MulticastError rstring | TransportCrypto crypto_error | NotEncrypted

record PeerInfo =
  pi_device_id :: u32
  pi_device_name :: rstring
  pi_address :: rstring
  pi_channel :: u8
  pi_last_seen :: nat

text \<open>The socket is present or not; the queue has its front first. Times of day are nanoseconds.\<close>

record IosTransport =
  it_socket :: bool
  it_peers :: "(u32, PeerInfo) hmap"
  it_crypto :: "CryptoSession option"
  it_pending_rx :: "CryptoSession option"
  it_relay_active :: bool
  it_relay_outbound :: "bytes list"

definition IosTransport_new :: IosTransport where
  "IosTransport_new = \<lparr>it_socket = False, it_peers = [], it_crypto = None, it_pending_rx = None,
     it_relay_active = False, it_relay_outbound = []\<rparr>"

section \<open>The relay queue\<close>

definition it_set_relay_active :: "IosTransport \<Rightarrow> bool \<Rightarrow> IosTransport" where
  "it_set_relay_active t active =
     (let t = t\<lparr>it_relay_active := active\<rparr> in if \<not> active then t\<lparr>it_relay_outbound := []\<rparr> else t)"

definition it_poll_relay_outbound :: "IosTransport \<Rightarrow> IosTransport \<times> bytes option" where
  "it_poll_relay_outbound t =
     (case it_relay_outbound t of [] \<Rightarrow> (t, None) | f # q \<Rightarrow> (t\<lparr>it_relay_outbound := q\<rparr>, Some f))"

text \<open>\<open>push_back\<close>, then \<open>pop_front\<close> while the queue is over its cap.\<close>

fun drop_over_cap :: "bytes list \<Rightarrow> bytes list" where
  "drop_over_cap q = (if RELAY_OUTBOUND_CAP < length q then drop_over_cap (tl q) else q)"

declare drop_over_cap.simps [simp del]

definition it_enqueue_relay_control :: "IosTransport \<Rightarrow> bytes \<Rightarrow> IosTransport" where
  "it_enqueue_relay_control t frame = t\<lparr>it_relay_outbound := drop_over_cap (it_relay_outbound t @ [frame])\<rparr>"

section \<open>Sessions\<close>

definition it_open_sealed :: "aead_fun \<Rightarrow> IosTransport \<Rightarrow> bytes \<Rightarrow> IosTransport \<times> bytes option" where
  "it_open_sealed dec t sealed =
     (case (case it_crypto t of
              None \<Rightarrow> (t, None)
            | Some c \<Rightarrow> (case decrypt dec c sealed of
                           (c, Inr pt) \<Rightarrow> (t\<lparr>it_crypto := Some c\<rparr>, Some pt)
                         | (c, Inl _) \<Rightarrow> (t\<lparr>it_crypto := Some c\<rparr>, None))) of
        (t, Some pt) \<Rightarrow> (t, Some pt)
      | (t, None) \<Rightarrow>
          (case it_pending_rx t of
             None \<Rightarrow> (t, None)
           | Some p \<Rightarrow> (case decrypt dec p sealed of
                          (p, Inr pt) \<Rightarrow> (t\<lparr>it_pending_rx := None, it_crypto := Some p\<rparr>, Some pt)
                        | (p, Inl _) \<Rightarrow> (t\<lparr>it_pending_rx := Some p\<rparr>, None))))"

definition it_arm_pending_rx :: "IosTransport \<Rightarrow> CryptoSession \<Rightarrow> IosTransport" where
  "it_arm_pending_rx t session = t\<lparr>it_pending_rx := Some session\<rparr>"

definition it_discard_pending_rx :: "IosTransport \<Rightarrow> IosTransport" where
  "it_discard_pending_rx t = t\<lparr>it_pending_rx := None\<rparr>"

definition it_set_crypto :: "IosTransport \<Rightarrow> CryptoSession \<Rightarrow> IosTransport" where
  "it_set_crypto t session = t\<lparr>it_crypto := Some session\<rparr>"

definition it_set_psk :: "IosTransport \<Rightarrow> bytes \<Rightarrow> bytes \<Rightarrow> IosTransport" where
  "it_set_psk t key nonce_prefix = t\<lparr>it_crypto := Some (from_psk key nonce_prefix)\<rparr>"

definition it_is_encrypted :: "IosTransport \<Rightarrow> bool" where
  "it_is_encrypted t \<longleftrightarrow> it_crypto t \<noteq> None"

definition it_clear_crypto :: "IosTransport \<Rightarrow> IosTransport" where
  "it_clear_crypto t = t\<lparr>it_crypto := None\<rparr>"

section \<open>The socket\<close>

text \<open>A multicast send: the error of the system, if any. The result is the datagram that goes out, if one does.\<close>

definition multicast :: "IosTransport \<Rightarrow> bytes \<Rightarrow> rstring option \<Rightarrow> bytes option \<times> (ios_transport_error + unit)" where
  "multicast t payload os =
     (if it_socket t
      then (case os of Some e \<Rightarrow> (None, Inl (IoError (OtherIo e))) | None \<Rightarrow> (Some payload, Inr ()))
      else (None, Inr ()))"

definition it_send_control_datagram ::
  "IosTransport \<Rightarrow> bytes \<Rightarrow> rstring option \<Rightarrow> bytes option \<times> (ios_transport_error + unit)" where
  "it_send_control_datagram t sealed os = (if sealed = [] then (None, Inr ()) else multicast t sealed os)"

datatype datagram_in = Arrived bytes "rstring option" | NothingYet | RecvFailed rstring

text \<open>A datagram longer than the buffer is cut to it.\<close>

definition it_recv_datagram :: "IosTransport \<Rightarrow> datagram_in \<Rightarrow> ios_transport_error + bytes" where
  "it_recv_datagram t r =
     (if \<not> it_socket t then Inl (IoError NotConnected)
      else case r of
             Arrived d _ \<Rightarrow> Inr (take 4096 d)
           | NothingYet \<Rightarrow> Inl (IoError WouldBlock)
           | RecvFailed e \<Rightarrow> Inl (IoError (OtherIo e)))"

text \<open>The calls that make the socket, each with the system's error: create, reuse address, nonblocking, bind, join.\<close>

record socket_calls =
  so_create :: "rstring option"
  so_reuse :: "rstring option"
  so_nonblocking :: "rstring option"
  so_bind :: "rstring option"
  so_join :: "rstring option"

definition it_start :: "IosTransport \<Rightarrow> socket_calls \<Rightarrow> IosTransport \<times> (ios_transport_error + unit)" where
  "it_start t so =
     (case so_create so of Some e \<Rightarrow> (t, Inl (IoError (OtherIo e))) | None \<Rightarrow>
      case so_reuse so of Some e \<Rightarrow> (t, Inl (IoError (OtherIo e))) | None \<Rightarrow>
      case so_nonblocking so of Some e \<Rightarrow> (t, Inl (IoError (OtherIo e))) | None \<Rightarrow>
      case so_bind so of Some e \<Rightarrow> (t, Inl (IoError (OtherIo e))) | None \<Rightarrow>
      case so_join so of Some e \<Rightarrow> (t, Inl (MulticastError e)) | None \<Rightarrow>
        (t\<lparr>it_socket := True\<rparr>, Inr ()))"

definition it_stop :: "IosTransport \<Rightarrow> IosTransport" where
  "it_stop t = t\<lparr>it_socket := False\<rparr>"

text \<open>Seal, tee to the relay queue when the relay is active, then multicast.\<close>

definition it_send ::
  "aead_fun \<Rightarrow> IosTransport \<Rightarrow> bytes \<Rightarrow> rstring option \<Rightarrow> IosTransport \<times> bytes option \<times> (ios_transport_error + unit)" where
  "it_send enc t data os =
     (case it_crypto t of
        None \<Rightarrow> (t, None, Inl NotEncrypted)
      | Some crypto \<Rightarrow>
          (case encrypt enc crypto data of
             (c, Inl e) \<Rightarrow> (t\<lparr>it_crypto := Some c\<rparr>, None, Inl (TransportCrypto e))
           | (c, Inr payload) \<Rightarrow>
               (let t = t\<lparr>it_crypto := Some c\<rparr>;
                    t = (if it_relay_active t
                         then t\<lparr>it_relay_outbound := drop_over_cap (it_relay_outbound t @ [payload])\<rparr> else t)
                in case multicast t payload os of (air, r) \<Rightarrow> (t, air, r))))"

definition it_receive ::
  "aead_fun \<Rightarrow> IosTransport \<Rightarrow> nat \<Rightarrow> datagram_in \<Rightarrow> IosTransport \<times> (ios_transport_error + bytes \<times> rstring)" where
  "it_receive dec t len r =
     (if \<not> it_socket t then (t, Inl (IoError NotConnected))
      else case r of
        NothingYet \<Rightarrow> (t, Inl (IoError WouldBlock))
      | RecvFailed e \<Rightarrow> (t, Inl (IoError (OtherIo e)))
      | Arrived d None \<Rightarrow> (t, Inl (IoError (OtherIo (ascii ''Invalid address''))))
      | Arrived d (Some addr) \<Rightarrow>
          (let raw = take (len + 64) d in
           case it_crypto t of
             None \<Rightarrow> (t, Inl (IoError WouldBlock))
           | Some c \<Rightarrow>
               (case decrypt dec c raw of
                  (c, Inr pt) \<Rightarrow> (t\<lparr>it_crypto := Some c\<rparr>, Inr (take len pt, addr))
                | (c, Inl _) \<Rightarrow>
                    (let t = t\<lparr>it_crypto := Some c\<rparr> in
                     case it_pending_rx t of
                       None \<Rightarrow> (t, Inl (IoError WouldBlock))
                     | Some p \<Rightarrow>
                         (case decrypt dec p raw of
                            (p, Inr pt) \<Rightarrow> (t\<lparr>it_pending_rx := None, it_crypto := Some p\<rparr>, Inr (take len pt, addr))
                          | (p, Inl _) \<Rightarrow> (t\<lparr>it_pending_rx := Some p\<rparr>, Inl (IoError WouldBlock)))))))"

section \<open>Peers\<close>

definition update_peer :: "IosTransport \<Rightarrow> PeerInfo \<Rightarrow> IosTransport" where
  "update_peer t peer = t\<lparr>it_peers := hm_insert (pi_device_id peer) peer (it_peers t)\<rparr>"

text \<open>\<open>duration_since(..).unwrap_or(MAX) < PEER_TIMEOUT\<close>: a time of day in the future counts as stale.\<close>

definition peer_fresh :: "nat \<Rightarrow> PeerInfo \<Rightarrow> bool" where
  "peer_fresh now peer \<longleftrightarrow> pi_last_seen peer \<le> now \<and> now - pi_last_seen peer < PEER_TIMEOUT"

definition get_peers :: "IosTransport \<Rightarrow> nat \<Rightarrow> IosTransport \<times> PeerInfo list" where
  "get_peers t now =
     (let t = t\<lparr>it_peers := filter (\<lambda>(_, peer). peer_fresh now peer) (it_peers t)\<rparr> in (t, map snd (it_peers t)))"

definition remove_peer :: "IosTransport \<Rightarrow> u32 \<Rightarrow> IosTransport" where
  "remove_peer t device_id = t\<lparr>it_peers := hm_remove device_id (it_peers t)\<rparr>"

section \<open>Lemmas\<close>

lemma drop_over_cap_small: "length q \<le> RELAY_OUTBOUND_CAP \<Longrightarrow> drop_over_cap q = q"
  by (simp add: drop_over_cap.simps)

lemma drop_over_cap_eq: "drop_over_cap q = last_n RELAY_OUTBOUND_CAP q"
proof (induction q)
  case (Cons f q)
  then show ?case
    using drop_over_cap.simps [of "f # q"] by (auto simp: last_n_def Suc_diff_le)
qed (simp add: drop_over_cap_small)

lemma set_drop_over_cap: "p \<in> set (drop_over_cap (q @ [f])) \<Longrightarrow> p \<in> set q \<or> p = f"
  using set_last_n_subset [of RELAY_OUTBOUND_CAP "q @ [f]"] by (auto simp: drop_over_cap_eq)

text \<open>Opening: the live key first, then the staged one, which a hit installs; anything else leaves both keys.\<close>

definition live_key :: "IosTransport \<Rightarrow> bytes option" where
  "live_key t = map_option cs_cipher (it_crypto t)"

definition staged_key :: "IosTransport \<Rightarrow> bytes option" where
  "staged_key t = map_option cs_cipher (it_pending_rx t)"

lemma decrypt_key: "decrypt dec c d = (c', r) \<Longrightarrow> cs_cipher c' = cs_cipher c"
  using decrypt_frame [of dec c d] by simp

lemma open_sealed_keys:
  assumes "it_open_sealed dec t d = (t1, r)"
  shows "live_key t1 = live_key t \<and> staged_key t1 = staged_key t \<or>
    (\<exists>pt. r = Some pt) \<and> live_key t1 = staged_key t \<and> staged_key t \<noteq> None \<and> staged_key t1 = None"
  using assms
  by (auto simp: it_open_sealed_def live_key_def staged_key_def split: option.splits prod.splits sum.splits
      dest: decrypt_key)

lemma open_sealed_fields:
  "it_open_sealed dec t d = (t1, r) \<Longrightarrow>
   it_relay_outbound t1 = it_relay_outbound t \<and> it_socket t1 = it_socket t \<and> it_relay_active t1 = it_relay_active t"
  by (auto simp: it_open_sealed_def split: option.splits prod.splits sum.splits)

lemma open_sealed_none: "it_crypto t = None \<Longrightarrow> it_pending_rx t = None \<Longrightarrow> it_open_sealed dec t d = (t, None)"
  by (simp add: it_open_sealed_def)

lemma send_fields:
  assumes "it_send enc t data os = (t1, air, r)"
  shows "live_key t1 = live_key t" "staged_key t1 = staged_key t" "it_socket t1 = it_socket t"
    "it_relay_active t1 = it_relay_active t" "it_pending_rx t1 = it_pending_rx t"
  using assms encrypt_frame
  by (auto simp: it_send_def live_key_def staged_key_def Let_def split: option.splits prod.splits sum.splits if_splits)

text \<open>What a send puts in the queue or on the air is one encryption of the frame under the live key.\<close>

lemma send_emits:
  assumes "it_send enc t data os = (t1, air, r)"
  shows "(it_crypto t = None \<longrightarrow> t1 = t \<and> air = None \<and> r = Inl NotEncrypted) \<and>
    (\<forall>p \<in> set_option air \<union> (set (it_relay_outbound t1) - set (it_relay_outbound t)).
       \<exists>c c'. it_crypto t = Some c \<and> encrypt enc c data = (c', Inr p) \<and> it_crypto t1 = Some c')"
proof (cases "it_crypto t")
  case (Some c)
  obtain c' e where e: "encrypt enc c data = (c', e)" by (cases "encrypt enc c data")
  show ?thesis
    using assms Some e
    by (cases e)
      (auto simp: it_send_def multicast_def Let_def split: if_splits option.splits dest!: set_drop_over_cap)
qed (use assms in \<open>auto simp: it_send_def\<close>)

end
