(* ===== verification/Ios_State.thy ===== *)
theory Ios_State
  imports Ios_Audio Ios_Floor Ios_Transport Control_Auth Hybrid_Rekey Pqc Wire Session Enrollment Audit_Chain
begin

text \<open>
  The state machine of the iOS client, \<open>ios-native/src/state.rs\<close>: push-to-talk, the transmit and receive threads,
  the control plane, pairing, rekey and wipe, over the components it calls. A method is a function of the whole state.
  A thread is an entry of a list, and one turn of its loop is a step that may be interleaved with any method;
  the sleeping threads that acknowledge an end of transmission are entries with the time they are due.
\<close>

section \<open>State\<close>

definition SUBCH_MAIN :: u8 where "SUBCH_MAIN = 0"
definition PRESENCE_IDLE :: u8 where "PRESENCE_IDLE = 0"
definition PRESENCE_SPEAKING :: u8 where "PRESENCE_SPEAKING = 2"

datatype state_error =
  StateAudio audio_error | StateCodec codec_error | StateTransport ios_transport_error | AlreadyTransmitting
  | StateChannelBusy | StateNotEncrypted

datatype IosAppState = IosIdle | IosConnecting | IosConnected | IosTransmitting | IosReceiving | IosError

record StagedHybridResponder =
  st_session :: "CryptoSession option"
  st_token :: bytes
  st_staged_at :: u64

text \<open>The libraries the client is built on.\<close>

record ('e, 'd) ios_env =
  io_enc :: aead_fun
  io_dec :: aead_fun
  io_sha :: "bytes \<Rightarrow> bytes"
  io_hkdf :: "bytes \<Rightarrow> bytes \<Rightarrow> bytes"
  io_kem :: kem_primitives
  io_to_json :: "SessionKey \<Rightarrow> rstring option"
  io_from_json :: "rstring \<Rightarrow> SessionKey option"
  io_b64 :: "bytes \<Rightarrow> rstring"
  io_unb64 :: "rstring \<Rightarrow> bytes option"
  io_opus :: "('e, 'd) audiopus"

text \<open>
  The fields of the struct; then the running threads: of each transmit thread the channel it captured, of each
  receive thread its decoders, of each acknowledging thread the time it is due and its frame. \<open>im_air\<close> collects what
  the multicast socket was given, oldest first.
\<close>

record ('e, 'd) IosMachine =
  im_state :: IosAppState
  im_device_name :: rstring
  im_sender_id :: rstring
  im_channel :: u8
  im_audio :: AudioEngine
  im_encoder :: 'e
  im_decoder :: 'd
  im_transport :: IosTransport
  im_transmitting :: bool
  im_stop_tx :: bool
  im_stop_rx :: bool
  im_psk :: "bytes option"
  im_pending_hybrid :: "PskHybridInitiator option"
  im_staged_hybrid :: "StagedHybridResponder option"
  im_staged_initiator :: "StagedHybridResponder option"
  im_pending_kx :: "KeyExchange option"
  im_control :: "ControlAuthCodec option"
  im_audit :: AuditChain
  im_enrollment_token :: "rstring option"
  im_room_id :: "rstring option"
  im_session_epoch :: u64
  im_heartbeat_seq :: u32
  im_tx_seq :: u32
  im_floor :: FloorState
  im_tx_started :: u64
  im_tx_threads :: "u8 list"
  im_rx_threads :: "(rstring, 'd) hmap list"
  im_acks :: "(u64 \<times> bytes) list"
  im_air :: "bytes list"

type_synonym ('e, 'd) ios_step = "('e, 'd) IosMachine \<Rightarrow> ('e, 'd) IosMachine"

text \<open>The random bytes a call draws, and what the system answers to its multicast sends.\<close>

record ios_draw =
  dr_nonce :: bytes
  dr_secret :: bytes
  dr_kem :: bytes
  dr_prefix :: bytes
  dr_os :: "rstring option"

text \<open>\<open>format!("ios-{:08x}", id)\<close> and \<open>format!("iPhone-{}", id % 10000)\<close>.\<close>

definition ios_sender_id :: "u32 \<Rightarrow> rstring" where
  "ios_sender_id device_id = ascii ''ios-'' @ concat (map hex_byte (rev (to_le 4 device_id)))"

definition ios_device_name :: "u32 \<Rightarrow> rstring" where
  "ios_device_name device_id = ascii ''iPhone-'' @ dec_digits (unat device_id mod 10000)"

definition IosMachine_new ::
  "('e, 'd) ios_env \<Rightarrow> socket_calls \<Rightarrow> u32 \<Rightarrow> u64 \<Rightarrow> state_error + ('e, 'd) IosMachine" where
  "IosMachine_new env so device_id v =
     (case OpusEncoder_new (io_opus env) of Inl e \<Rightarrow> Inl (StateCodec e) | Inr encoder \<Rightarrow>
      case OpusDecoder_new (io_opus env) of Inl e \<Rightarrow> Inl (StateCodec e) | Inr decoder \<Rightarrow>
      case it_start IosTransport_new so of
        (_, Inl e) \<Rightarrow> Inl (StateTransport e)
      | (transport, Inr _) \<Rightarrow>
          Inr \<lparr>im_state = IosIdle, im_device_name = ios_device_name device_id, im_sender_id = ios_sender_id device_id,
            im_channel = 1, im_audio = AudioEngine_new, im_encoder = encoder, im_decoder = decoder,
            im_transport = transport, im_transmitting = False, im_stop_tx = False, im_stop_rx = False,
            im_psk = None, im_pending_hybrid = None, im_staged_hybrid = None, im_staged_initiator = None,
            im_pending_kx = None, im_control = None, im_audit = AuditChain_default, im_enrollment_token = None,
            im_room_id = None, im_session_epoch = (if v = 0 then 1 else v), im_heartbeat_seq = 0, im_tx_seq = 0,
            im_floor = FloorState_new, im_tx_started = 0, im_tx_threads = [], im_rx_threads = [], im_acks = [],
            im_air = []\<rparr>)"

section \<open>Shared steps\<close>

text \<open>
  \<open>audit.append\<close>. The details the client writes are short ASCII texts, for which \<open>append\<close> does not panic
  (\<open>audit_note_appends\<close>).
\<close>

definition audit_note :: "('e, 'd) ios_env \<Rightarrow> u64 \<Rightarrow> string \<Rightarrow> rstring \<Rightarrow> ('e, 'd) ios_step" where
  "audit_note env now event detail m =
     m\<lparr>im_audit := (case append_event (io_sha env) (im_audit m) now (ascii event) detail of
        Ok (c, _) \<Rightarrow> c
      | _ \<Rightarrow> im_audit m)\<rparr>"

text \<open>\<open>control.lock().as_ref().and_then(|c| c.seal(..).ok())\<close>\<close>

definition control_seal ::
  "('e, 'd) ios_env \<Rightarrow> ('e, 'd) IosMachine \<Rightarrow> bytes \<Rightarrow> u64 \<Rightarrow> bytes \<Rightarrow> ('e, 'd) IosMachine \<times> bytes option" where
  "control_seal env m inner now nonce =
     (case im_control m of
        None \<Rightarrow> (m, None)
      | Some c \<Rightarrow>
          (case seal_with_rng (io_enc env) c inner now nonce of
             (c, Inr sealed) \<Rightarrow> (m\<lparr>im_control := Some c\<rparr>, Some sealed)
           | (c, Inl _) \<Rightarrow> (m\<lparr>im_control := Some c\<rparr>, None)))"

definition ms_enqueue_relay :: "bytes \<Rightarrow> ('e, 'd) ios_step" where
  "ms_enqueue_relay sealed m = m\<lparr>im_transport := it_enqueue_relay_control (im_transport m) sealed\<rparr>"

definition put_on_air :: "bytes option \<Rightarrow> ('e, 'd) ios_step" where
  "put_on_air air m = m\<lparr>im_air := im_air m @ (case air of None \<Rightarrow> [] | Some d \<Rightarrow> [d])\<rparr>"

text \<open>The two sends of a sealed control frame: multicast, whose error is only logged, then the relay queue.\<close>

definition broadcast_control :: "bytes \<Rightarrow> rstring option \<Rightarrow> ('e, 'd) ios_step" where
  "broadcast_control sealed os m =
     ms_enqueue_relay sealed (put_on_air (fst (it_send_control_datagram (im_transport m) sealed os)) m)"

definition send_control_inner ::
  "('e, 'd) ios_env \<Rightarrow> bytes \<Rightarrow> u64 \<Rightarrow> ios_draw \<Rightarrow> ('e, 'd) ios_step" where
  "send_control_inner env inner now dr m =
     (case control_seal env m inner now (dr_nonce dr) of
        (m, None) \<Rightarrow> m
      | (m, Some sealed) \<Rightarrow> broadcast_control sealed (dr_os dr) m)"

definition yield_local_tx :: "('e, 'd) ios_step" where
  "yield_local_tx m =
     m\<lparr>im_stop_tx := True, im_transmitting := False, im_tx_started := 0, im_audio := stop_recording (im_audio m)\<rparr>"

section \<open>Keys and pairing\<close>

definition install_session :: "CryptoSession \<Rightarrow> ('e, 'd) ios_step" where
  "install_session session m = m\<lparr>im_transport := it_set_crypto (im_transport m) session\<rparr>"

definition ios_key_exchange_init ::
  "('e, 'd) ios_env \<Rightarrow> ('e, 'd) IosMachine \<Rightarrow> ios_draw \<Rightarrow> ('e, 'd) IosMachine \<times> bytes" where
  "ios_key_exchange_init env m dr =
     (let kx = KeyExchange_new (x_public (io_kem env)) (dr_secret dr)
      in (m\<lparr>im_pending_kx := Some kx\<rparr>, public_key_bytes kx))"

definition ios_key_exchange_complete ::
  "('e, 'd) ios_env \<Rightarrow> ('e, 'd) IosMachine \<Rightarrow> bytes \<Rightarrow> ios_draw \<Rightarrow> ('e, 'd) IosMachine \<times> bool" where
  "ios_key_exchange_complete env m remote_pub dr =
     (case im_pending_kx m of
        None \<Rightarrow> (m, False)
      | Some kx \<Rightarrow>
          (let m = m\<lparr>im_pending_kx := None\<rparr> in
           case complete (x_dh (io_kem env)) (io_hkdf env) kx remote_pub (dr_prefix dr) of
             Inr session \<Rightarrow> (install_session session m, True)
           | Inl _ \<Rightarrow> (m, False)))"

definition ios_set_psk :: "('e, 'd) ios_env \<Rightarrow> bytes \<Rightarrow> bytes \<Rightarrow> ('e, 'd) ios_step" where
  "ios_set_psk env key nonce_prefix m =
     (let m = m\<lparr>im_psk := Some key, im_transport := it_set_psk (im_transport m) key nonce_prefix\<rparr>;
          room = (case im_room_id m of Some r \<Rightarrow> r | None \<Rightarrow> ascii ''unpaired'')
      in m\<lparr>im_control :=
             (case ControlAuthCodec_new (io_sha env) key room (im_sender_id m) (im_session_epoch m) of
                Inr c \<Rightarrow> Some c | Inl _ \<Rightarrow> None)\<rparr>)"

definition set_enrollment_token :: "rstring option \<Rightarrow> ('e, 'd) ios_step" where
  "set_enrollment_token token m =
     m\<lparr>im_enrollment_token := (case token of Some s \<Rightarrow> if s \<noteq> [] then Some s else None | None \<Rightarrow> None)\<rparr>"

definition wipe_session :: "('e, 'd) ios_env \<Rightarrow> u64 \<Rightarrow> ('e, 'd) ios_step" where
  "wipe_session env now m =
     (let m = audit_note env now ''wipe'' (ascii ''source=in_app'') m
      in m\<lparr>im_psk := None, im_pending_hybrid := None, im_staged_hybrid := None, im_staged_initiator := None,
           im_pending_kx := None, im_control := None, im_room_id := None,
           im_transport := it_set_relay_active (it_clear_crypto (im_transport m)) False,
           im_floor := floor_clear (im_floor m), im_tx_started := 0\<rparr>)"

definition is_paired :: "('e, 'd) IosMachine \<Rightarrow> bool" where
  "is_paired m \<longleftrightarrow> it_is_encrypted (im_transport m)"

definition ios_set_channel :: "u8 \<Rightarrow> ('e, 'd) ios_step" where
  "ios_set_channel channel m = m\<lparr>im_channel := channel\<rparr>"

text \<open>
  The transient session manager draws a cohort id when the code has none; \<open>clock\<close> is its reading of the time of day
  in seconds, none before the epoch. Then the enrollment check, with the required token as the presented one.
\<close>

definition import_session_qr ::
  "('e, 'd) ios_env \<Rightarrow> ('e, 'd) IosMachine \<Rightarrow> rstring \<Rightarrow> u64 option \<Rightarrow> u64 \<Rightarrow> rstring \<Rightarrow> ios_draw \<Rightarrow>
   ('e, 'd) IosMachine \<times> u8 option" where
  "import_session_qr env m qr_json clock now cohort_uuid dr =
     (case import_session (io_from_json env) (io_unb64 env) (SessionManager_new (im_device_name m)) qr_json clock
             cohort_uuid (dr_prefix dr) of
        (mgr, Inl _) \<Rightarrow> (m, None)
      | (mgr, Inr (channel, _, _)) \<Rightarrow>
          (case get_psk_for_channel (io_unb64 env) mgr channel clock of None \<Rightarrow> (m, None) | Some psk \<Rightarrow>
           case get_session_id mgr channel of None \<Rightarrow> (m, None) | Some room \<Rightarrow>
             let required = im_enrollment_token m in
             if \<not> join_authorized room (Some psk) required required then (m, None)
             else
               let m = ios_set_channel channel (m\<lparr>im_room_id := Some room\<rparr>);
                   m = ios_set_psk env psk (dr_prefix dr) m;
                   m = audit_note env now ''enrollment'' (ascii ''ok'') m
               in (m, Some channel)))"

definition ios_generate_session_qr ::
  "('e, 'd) ios_env \<Rightarrow> ('e, 'd) IosMachine \<Rightarrow> u8 \<Rightarrow> u32 \<Rightarrow> rstring \<Rightarrow> u64 option \<Rightarrow> u64 \<Rightarrow> bytes \<Rightarrow> rstring \<Rightarrow> rstring \<Rightarrow>
   ios_draw \<Rightarrow> ('e, 'd) IosMachine \<times> rstring option" where
  "ios_generate_session_qr env m channel duration_hours group_name clock now key_bytes session_uuid cohort_uuid dr =
     (case generate_session_qr (io_to_json env) (io_b64 env) (SessionManager_new (im_device_name m)) channel
             duration_hours group_name clock key_bytes session_uuid cohort_uuid of
        (_, Inl _) \<Rightarrow> (m, None)
      | (_, Inr json) \<Rightarrow> (fst (import_session_qr env m json clock now cohort_uuid dr), Some json))"

section \<open>Rekey\<close>

definition ios_hybrid_init ::
  "('e, 'd) ios_env \<Rightarrow> ('e, 'd) IosMachine \<Rightarrow> ios_draw \<Rightarrow> ('e, 'd) IosMachine \<times> bytes option" where
  "ios_hybrid_init env m dr =
     (case im_psk m of
        None \<Rightarrow> (m, None)
      | Some psk \<Rightarrow>
          (let initiator = PskHybridInitiator_new (io_kem env) psk (dr_secret dr) (dr_kem dr)
           in (m\<lparr>im_pending_hybrid := Some initiator\<rparr>, Some (init_to_bytes (psk_initiator_message initiator)))))"

definition ios_hybrid_respond ::
  "('e, 'd) ios_env \<Rightarrow> ('e, 'd) IosMachine \<Rightarrow> bytes \<Rightarrow> u64 \<Rightarrow> ios_draw \<Rightarrow> ('e, 'd) IosMachine \<times> bytes option" where
  "ios_hybrid_respond env m init_bytes now dr =
     (case im_psk m of None \<Rightarrow> (m, None) | Some psk \<Rightarrow>
      case init_from_bytes init_bytes of Inl _ \<Rightarrow> (m, None) | Inr init_msg \<Rightarrow>
      case psk_hybrid_respond (io_hkdf env) (io_kem env) psk init_msg (dr_secret dr) (dr_kem dr) (dr_prefix dr) of
        Inl _ \<Rightarrow> (m, None)
      | Inr (resp, session) \<Rightarrow>
          (let resp_bytes = resp_to_bytes resp; token = token_for (io_sha env) resp_bytes
           in (m\<lparr>im_staged_hybrid := Some \<lparr>st_session = Some session, st_token = token, st_staged_at = now\<rparr>\<rparr>,
               Some resp_bytes)))"

definition hybrid_on_init ::
  "('e, 'd) ios_env \<Rightarrow> ('e, 'd) IosMachine \<Rightarrow> bytes \<Rightarrow> u64 \<Rightarrow> ios_draw \<Rightarrow> ('e, 'd) IosMachine \<times> bytes option" where
  "hybrid_on_init env m payload now dr =
     (case im_psk m of None \<Rightarrow> (m, None) | Some psk \<Rightarrow>
      case parse_hybrid_frame payload of None \<Rightarrow> (m, None) | Some (channel, init_bytes) \<Rightarrow>
      case init_from_bytes init_bytes of Inl _ \<Rightarrow> (m, None) | Inr init_msg \<Rightarrow>
      case psk_hybrid_respond (io_hkdf env) (io_kem env) psk init_msg (dr_secret dr) (dr_kem dr) (dr_prefix dr) of
        Inl _ \<Rightarrow> (m, None)
      | Inr (resp, session) \<Rightarrow>
          (let resp_bytes = resp_to_bytes resp; token = token_for (io_sha env) resp_bytes;
               m = m\<lparr>im_staged_hybrid := Some \<lparr>st_session = Some session, st_token = token, st_staged_at = now\<rparr>\<rparr>
           in control_seal env m (encode_hybrid_frame OP_HYBRID_RESP channel resp_bytes) now (dr_nonce dr)))"

definition hybrid_on_confirm ::
  "('e, 'd) ios_env \<Rightarrow> ('e, 'd) IosMachine \<Rightarrow> bytes \<Rightarrow> u64 \<Rightarrow> ('e, 'd) IosMachine \<times> bool" where
  "hybrid_on_confirm env m payload now =
     (let token = map_option snd (parse_hybrid_frame payload) in
      case im_staged_hybrid m of
        None \<Rightarrow> (m, False)
      | Some staged \<Rightarrow>
          if \<not> confirm_acceptable (Some (st_token staged)) token now (st_staged_at staged)
          then (audit_note env now ''control_rejected'' (ascii ''reason=hybrid_confirm'') m, False)
          else
            let m = (case st_session staged of
                       Some session \<Rightarrow> m\<lparr>im_staged_hybrid := Some (staged\<lparr>st_session := None\<rparr>),
                                         im_transport := it_arm_pending_rx (im_transport m) session\<rparr>
                     | None \<Rightarrow> m)
            in (audit_note env now ''rekey'' (ascii ''kind=hybrid_confirm_ack_sent'') m, True))"

definition hybrid_on_ack ::
  "('e, 'd) ios_env \<Rightarrow> ('e, 'd) IosMachine \<Rightarrow> bytes \<Rightarrow> u64 \<Rightarrow> ('e, 'd) IosMachine \<times> bool" where
  "hybrid_on_ack env m payload now =
     (let token = map_option snd (parse_hybrid_frame payload); staged = im_staged_initiator m;
          m = m\<lparr>im_staged_initiator := None\<rparr> in
      case staged of
        None \<Rightarrow> (m, False)
      | Some staged \<Rightarrow>
          if \<not> confirm_acceptable (Some (st_token staged)) token now (st_staged_at staged)
          then (audit_note env now ''control_rejected'' (ascii ''reason=hybrid_confirm_ack'') m, False)
          else (case st_session staged of
                  None \<Rightarrow> (m, False)
                | Some session \<Rightarrow>
                    (audit_note env now ''rekey'' (ascii ''kind=hybrid_confirm_ack'') (install_session session m), True)))"

definition ios_hybrid_complete ::
  "('e, 'd) ios_env \<Rightarrow> ('e, 'd) IosMachine \<Rightarrow> bytes \<Rightarrow> u64 \<Rightarrow> ios_draw \<Rightarrow> ('e, 'd) IosMachine \<times> bool" where
  "ios_hybrid_complete env m resp_bytes now dr =
     (case im_pending_hybrid m of
        None \<Rightarrow> (m, False)
      | Some initiator \<Rightarrow>
          (let m = m\<lparr>im_pending_hybrid := None\<rparr> in
           case resp_from_bytes resp_bytes of Inl _ \<Rightarrow> (m, False) | Inr resp_msg \<Rightarrow>
           case psk_hybrid_complete (io_hkdf env) (io_kem env) initiator resp_msg (dr_prefix dr) of
             Inl _ \<Rightarrow> (m, False)
           | Inr session \<Rightarrow>
               (m\<lparr>im_staged_initiator := Some \<lparr>st_session = Some session,
                    st_token = token_for (io_sha env) resp_bytes, st_staged_at = now\<rparr>\<rparr>, True)))"

definition ios_hybrid_confirm :: "('e, 'd) ios_env \<Rightarrow> ('e, 'd) IosMachine \<Rightarrow> u64 \<Rightarrow> ('e, 'd) IosMachine \<times> bool" where
  "ios_hybrid_confirm env m now =
     (case im_staged_hybrid m of
        None \<Rightarrow> (m, False)
      | Some staged \<Rightarrow> hybrid_on_confirm env m (1 # st_token staged) now)"

section \<open>The control plane\<close>

text \<open>Spawning the thread that acknowledges an end of transmission after the drain window.\<close>

definition spawn_ack :: "u64 \<Rightarrow> PttStop \<Rightarrow> ('e, 'd) ios_step" where
  "spawn_ack now stop m =
     m\<lparr>im_acks := im_acks m @ [(now + DRAIN_HOLD_MS, encode_eot_ack (stop_epoch stop) (stop_end_seq stop))]\<rparr>"

text \<open>That thread waking: it seals with the clock of that moment and ends.\<close>

definition ack_turn :: "('e, 'd) ios_env \<Rightarrow> nat \<Rightarrow> u64 \<Rightarrow> ios_draw \<Rightarrow> ('e, 'd) ios_step" where
  "ack_turn env i t dr m =
     (if i < length (im_acks m) \<and> fst (im_acks m ! i) \<le> t
      then (let inner = snd (im_acks m ! i); m = m\<lparr>im_acks := take i (im_acks m) @ drop (Suc i) (im_acks m)\<rparr>
            in case control_seal env m inner t (dr_nonce dr) of
                 (m, None) \<Rightarrow> m
               | (m, Some sealed) \<Rightarrow> broadcast_control sealed (dr_os dr) m)
      else m)"

definition on_remote_ptt_start :: "rstring \<Rightarrow> bytes \<Rightarrow> u64 \<Rightarrow> ('e, 'd) ios_step" where
  "on_remote_ptt_start peer_id payload now m =
     (case parse_ptt_start_v2 payload of
        None \<Rightarrow> m
      | Some start \<Rightarrow>
          if im_transmitting m
          then (if remote_wins (im_session_epoch m) (fl_self_emergency (im_floor m)) (start_epoch start)
                     (start_emergency start) (im_sender_id m) peer_id
                then (let m = yield_local_tx m
                      in m\<lparr>im_floor := floor_hold (im_floor m) peer_id STALE_HOLD_MS now\<rparr>)
                else m)
          else m\<lparr>im_floor := floor_hold (im_floor m) peer_id STALE_HOLD_MS now\<rparr>)"

definition on_remote_ptt_stop :: "rstring \<Rightarrow> bytes \<Rightarrow> u64 \<Rightarrow> ('e, 'd) ios_step" where
  "on_remote_ptt_stop peer_id payload now m =
     (case parse_ptt_stop_v2 payload of
        None \<Rightarrow> m
      | Some stop \<Rightarrow>
          spawn_ack now stop (m\<lparr>im_floor := floor_release_after_drain (im_floor m) peer_id now\<rparr>))"

text \<open>The LAN path: only the two push-to-talk frames, by the same rules.\<close>

definition lan_handle_ptt_control :: "VerifiedControl \<Rightarrow> u64 \<Rightarrow> ('e, 'd) ios_step" where
  "lan_handle_ptt_control v now m =
     (case decode_control_frame (vc_inner_frame v) of
        None \<Rightarrow> m
      | Some decoded \<Rightarrow>
          if dc_opcode decoded = OP_PTT_START_V2 then
            (case parse_ptt_start_v2 (dc_payload decoded) of
               None \<Rightarrow> m
             | Some start \<Rightarrow>
                 if im_transmitting m \<and>
                    \<not> remote_wins (im_session_epoch m) (fl_self_emergency (im_floor m)) (start_epoch start)
                        (start_emergency start) (im_sender_id m) (vc_sender_id v)
                 then m
                 else
                   let m = (if im_transmitting m
                            then m\<lparr>im_stop_tx := True, im_transmitting := False, im_tx_started := 0,
                                   im_audio := stop_recording (im_audio m)\<rparr>
                            else m)
                   in m\<lparr>im_floor := floor_hold (im_floor m) (vc_sender_id v) STALE_HOLD_MS now\<rparr>)
          else if dc_opcode decoded = OP_PTT_STOP_V2 then
            (case parse_ptt_stop_v2 (dc_payload decoded) of
               None \<Rightarrow> m
             | Some stop \<Rightarrow>
                 spawn_ack now stop
                   (m\<lparr>im_floor := floor_release_after_drain (im_floor m) (vc_sender_id v) now\<rparr>))
          else m)"

text \<open>Sealing an answer and putting it on the relay queue only.\<close>

definition relay_answer :: "('e, 'd) ios_env \<Rightarrow> bytes \<Rightarrow> u64 \<Rightarrow> bytes \<Rightarrow> ('e, 'd) ios_step" where
  "relay_answer env inner now nonce m =
     (case control_seal env m inner now nonce of
        (m, Some sealed) \<Rightarrow> ms_enqueue_relay sealed m
      | (m, None) \<Rightarrow> m)"

definition dispatch_verified_control ::
  "('e, 'd) ios_env \<Rightarrow> VerifiedControl \<Rightarrow> u64 \<Rightarrow> ios_draw \<Rightarrow> ('e, 'd) ios_step" where
  "dispatch_verified_control env v now dr m =
     (case decode_control_frame (vc_inner_frame v) of
        None \<Rightarrow> m
      | Some decoded \<Rightarrow>
          let op = dc_opcode decoded; payload = dc_payload decoded in
          if op = OP_HYBRID_INIT then
            (case hybrid_on_init env m payload now dr of
               (m, Some frame) \<Rightarrow> ms_enqueue_relay frame m
             | (m, None) \<Rightarrow> m)
          else if op = OP_HYBRID_RESP then
            (case parse_hybrid_frame payload of
               None \<Rightarrow> m
             | Some (channel, msg) \<Rightarrow>
                 (case ios_hybrid_complete env m msg now dr of
                    (m, True) \<Rightarrow>
                      relay_answer env (encode_hybrid_frame OP_HYBRID_CONFIRM channel (token_for (io_sha env) msg)) now
                        (dr_nonce dr) m
                  | (m, False) \<Rightarrow> m))
          else if op = OP_HYBRID_CONFIRM then
            (case parse_hybrid_frame payload of
               None \<Rightarrow> m
             | Some (channel, token) \<Rightarrow>
                 (case hybrid_on_confirm env m payload now of
                    (m, True) \<Rightarrow>
                      relay_answer env (encode_hybrid_frame OP_HYBRID_CONFIRM_ACK channel token) now (dr_nonce dr) m
                  | (m, False) \<Rightarrow> m))
          else if op = OP_HYBRID_CONFIRM_ACK then fst (hybrid_on_ack env m payload now)
          else if op = OP_PTT_START_V2 then on_remote_ptt_start (vc_sender_id v) payload now m
          else if op = OP_PTT_STOP_V2 then on_remote_ptt_stop (vc_sender_id v) payload now m
          else if op = OP_EMERGENCY \<or> op = OP_MANDOWN \<or> op = OP_EMERGENCY_CLEAR
          then audit_note env now ''emergency_control'' (ascii ''authenticated'') m
          else m)"

text \<open>
  Classifying what arrived: the audited rejections, and what is left to do. \<open>classify_inbound\<close> does not panic
  (\<open>classify_no_panic\<close>).
\<close>

definition classify_step ::
  "('e, 'd) ios_env \<Rightarrow> ('e, 'd) IosMachine \<Rightarrow> bytes \<Rightarrow> u64 \<Rightarrow> ('e, 'd) IosMachine \<times> InboundControl" where
  "classify_step env m raw now =
     (case classify_inbound (io_dec env) (im_control m) raw now of
        (c, Ok (RejectedUnauthenticated op)) \<Rightarrow>
          (audit_note env now ''control_rejected''
             (ascii ''reason=unauthenticated opcode='' @ dec_digits (unat op)) (m\<lparr>im_control := c\<rparr>),
           RejectedUnauthenticated op)
      | (c, Ok AuthFailed) \<Rightarrow>
          (audit_note env now ''control_rejected'' (ascii ''reason=auth_or_replay'') (m\<lparr>im_control := c\<rparr>), AuthFailed)
      | (c, Ok r) \<Rightarrow> (m\<lparr>im_control := c\<rparr>, r)
      | (c, _) \<Rightarrow> (m\<lparr>im_control := c\<rparr>, AuthFailed))"

section \<open>Receiving\<close>

text \<open>The sealed audio frames a device accepts: opened, parsed, not its own, on its channel.\<close>

definition open_audio ::
  "('e, 'd) ios_env \<Rightarrow> ('e, 'd) IosMachine \<Rightarrow> bytes \<Rightarrow> ('e, 'd) IosMachine \<times> (rstring \<times> bytes) option" where
  "open_audio env m sealed =
     (case it_open_sealed (io_dec env) (im_transport m) sealed of
        (t, None) \<Rightarrow> (m\<lparr>im_transport := t\<rparr>, None)
      | (t, Some plain) \<Rightarrow>
          (let m = m\<lparr>im_transport := t\<rparr> in
           case unpack_wire_frame plain of
             Ok (frame_channel, _, sender, _, _, compressed) \<Rightarrow>
               if sender = im_sender_id m then (m, None)
               else if frame_channel \<noteq> im_channel m then (m, None)
               else (m, Some (sender, compressed))
           | _ \<Rightarrow> (m, None)))"

definition process_relay_frame ::
  "('e, 'd) ios_env \<Rightarrow> ('e, 'd) IosMachine \<Rightarrow> bytes \<Rightarrow> u64 \<Rightarrow> ios_draw \<Rightarrow> ('e, 'd) IosMachine \<times> bool" where
  "process_relay_frame env m sealed now dr =
     (case classify_step env m sealed now of
        (m, Verified v) \<Rightarrow> (dispatch_verified_control env v now dr m, False)
      | (m, NotControl) \<Rightarrow>
          (case open_audio env m sealed of
             (m, None) \<Rightarrow> (m, False)
           | (m, Some (sender, compressed)) \<Rightarrow>
               (let m = m\<lparr>im_floor := floor_hold (im_floor m) sender STALE_HOLD_MS now\<rparr> in
                case ios_decode (io_opus env) (im_decoder m) compressed of
                  (d, Inl _) \<Rightarrow> (m\<lparr>im_decoder := d\<rparr>, False)
                | (d, Inr samples) \<Rightarrow>
                    (m\<lparr>im_decoder := d, im_audio := fst (write_output_frame (im_audio m) (AudioFrame_new samples)),
                       im_state := IosReceiving\<rparr>, True)))
      | (m, _) \<Rightarrow> (m, False))"

text \<open>
  One turn of receive thread \<open>j\<close>: it ends when told to, and otherwise takes one datagram. A sender's decoder is made
  on the first frame; \<open>expect\<close> on its creation is the panic that ends the thread.
\<close>

definition rx_audio ::
  "('e, 'd) ios_env \<Rightarrow> nat \<Rightarrow> rstring \<Rightarrow> bytes \<Rightarrow> ('e, 'd) ios_step" where
  "rx_audio env j sender compressed m =
     (case (case hm_get (im_rx_threads m ! j) sender of Some d \<Rightarrow> Inr d | None \<Rightarrow> OpusDecoder_new (io_opus env)) of
        Inl _ \<Rightarrow> m\<lparr>im_rx_threads := take j (im_rx_threads m) @ drop (Suc j) (im_rx_threads m)\<rparr>
      | Inr d \<Rightarrow>
          (case ios_decode (io_opus env) d compressed of (d, r) \<Rightarrow>
             let m = m\<lparr>im_rx_threads := (im_rx_threads m)[j := hm_insert sender d (im_rx_threads m ! j)]\<rparr> in
             case r of
               Inl _ \<Rightarrow> m
             | Inr samples \<Rightarrow>
                 m\<lparr>im_audio := fst (write_output_frame (im_audio m) (AudioFrame_new samples)),
                   im_state := IosReceiving\<rparr>))"

definition ios_rx_turn ::
  "('e, 'd) ios_env \<Rightarrow> nat \<Rightarrow> datagram_in \<Rightarrow> u64 \<Rightarrow> ('e, 'd) ios_step" where
  "ios_rx_turn env j r now m =
     (if length (im_rx_threads m) \<le> j then m
      else if im_stop_rx m then m\<lparr>im_rx_threads := take j (im_rx_threads m) @ drop (Suc j) (im_rx_threads m)\<rparr>
      else case it_recv_datagram (im_transport m) r of
             Inl _ \<Rightarrow> m
           | Inr raw \<Rightarrow>
               (case classify_step env m raw now of
                  (m, Verified v) \<Rightarrow> lan_handle_ptt_control v now m
                | (m, NotControl) \<Rightarrow>
                    (case open_audio env m raw of
                       (m, None) \<Rightarrow> m
                     | (m, Some (sender, compressed)) \<Rightarrow>
                         rx_audio env j sender compressed
                           (m\<lparr>im_floor := floor_hold (im_floor m) sender STALE_HOLD_MS now\<rparr>))
                | (m, _) \<Rightarrow> m))"

section \<open>Push-to-talk\<close>

definition start_tx_thread :: "('e, 'd) ios_step" where
  "start_tx_thread m = m\<lparr>im_tx_threads := im_tx_threads m @ [im_channel m]\<rparr>"

definition on_ptt_press ::
  "('e, 'd) ios_env \<Rightarrow> ('e, 'd) IosMachine \<Rightarrow> u64 \<Rightarrow> ios_draw \<Rightarrow> ('e, 'd) IosMachine \<times> (state_error + unit)" where
  "on_ptt_press env m now dr =
     (if im_transmitting m then (m, Inl AlreadyTransmitting)
      else if \<not> is_paired m
      then (m\<lparr>im_floor := set_reject_reason (im_floor m) REJECT_NOT_ENCRYPTED\<rparr>, Inl StateNotEncrypted)
      else if floor_blocks_local (im_floor m) now
      then (m\<lparr>im_floor := set_reject_reason (im_floor m) REJECT_CHANNEL_BUSY\<rparr>, Inl StateChannelBusy)
      else
        let m = m\<lparr>im_floor := clear_reject_reason (im_floor m)\<rparr>;
            start_seq = sat_add (im_tx_seq m) 1;
            inner = encode_ptt_start_v2 (im_session_epoch m) start_seq (fl_self_emergency (im_floor m));
            m = send_control_inner env inner now dr m;
            m = m\<lparr>im_audio := start_recording (im_audio m)\<rparr>;
            m = m\<lparr>im_state := IosTransmitting, im_transmitting := True, im_stop_tx := False, im_tx_started := now\<rparr>
        in (start_tx_thread m, Inr ()))"

definition on_ptt_release ::
  "('e, 'd) ios_env \<Rightarrow> u64 \<Rightarrow> ios_draw \<Rightarrow> ('e, 'd) ios_step" where
  "on_ptt_release env now dr m =
     (if \<not> im_transmitting m then m
      else
        let m = m\<lparr>im_stop_tx := True, im_audio := stop_recording (im_audio m)\<rparr>;
            inner = encode_ptt_stop_v2 (im_session_epoch m) (im_tx_seq m);
            m = send_control_inner env inner now dr m
        in m\<lparr>im_state := IosConnected, im_transmitting := False, im_tx_started := 0\<rparr>)"

text \<open>One turn of transmit thread \<open>i\<close>; \<open>stamp\<close> is the time of day it writes into the frame.\<close>

definition ios_tx_turn ::
  "('e, 'd) ios_env \<Rightarrow> nat \<Rightarrow> u64 \<Rightarrow> u64 \<Rightarrow> rstring option \<Rightarrow> ('e, 'd) ios_step" where
  "ios_tx_turn env i now stamp os m =
     (if length (im_tx_threads m) \<le> i then m
      else if im_stop_tx m then m\<lparr>im_tx_threads := take i (im_tx_threads m) @ drop (Suc i) (im_tx_threads m)\<rparr>
      else if 0 < im_tx_started m \<and> DEFAULT_MAX_TX_MS \<le> sat_sub now (im_tx_started m)
      then m\<lparr>im_floor := set_reject_reason (im_floor m) REJECT_MAX_TX, im_stop_tx := True, im_transmitting := False,
             im_tx_started := 0, im_audio := stop_recording (im_audio m),
             im_tx_threads := take i (im_tx_threads m) @ drop (Suc i) (im_tx_threads m)\<rparr>
      else case read_input_frame (im_audio m) of
        (a, Inl _) \<Rightarrow> m\<lparr>im_audio := a\<rparr>
      | (a, Inr frame) \<Rightarrow>
          (let m = m\<lparr>im_audio := a\<rparr> in
           case ios_encode (io_opus env) (im_encoder m) (af_samples frame) of
             (e, Inl _) \<Rightarrow> m\<lparr>im_encoder := e\<rparr>
           | (e, Inr encoded) \<Rightarrow>
               (let m = m\<lparr>im_encoder := e, im_tx_seq := im_tx_seq m + 1\<rparr>;
                    wire = pack_wire_frame (im_tx_threads m ! i) SUBCH_MAIN (im_sender_id m) (im_device_name m) stamp
                             encoded
                in case it_send (io_enc env) (im_transport m) wire os of
                     (t, air, _) \<Rightarrow> put_on_air air (m\<lparr>im_transport := t\<rparr>))))"

section \<open>Connection and the calls from Swift\<close>

definition start_listening :: "('e, 'd) ios_step" where
  "start_listening m =
     m\<lparr>im_audio := start_playing (im_audio m), im_stop_rx := False, im_state := IosConnected,
       im_rx_threads := im_rx_threads m @ [[]]\<rparr>"

definition ios_connect_to_device :: "('e, 'd) ios_step" where
  "ios_connect_to_device m = start_listening (m\<lparr>im_state := IosConnected\<rparr>)"

definition ios_disconnect :: "('e, 'd) ios_step" where
  "ios_disconnect m = m\<lparr>im_stop_rx := True, im_audio := stop_playing (im_audio m), im_state := IosIdle\<rparr>"

definition ios_shutdown :: "('e, 'd) ios_step" where
  "ios_shutdown m = m\<lparr>im_stop_tx := True, im_stop_rx := True, im_transport := it_stop (im_transport m)\<rparr>"

definition process_audio_input :: "pcm \<Rightarrow> ('e, 'd) IosMachine \<Rightarrow> ('e, 'd) IosMachine \<times> (state_error + unit)" where
  "process_audio_input samples m =
     (case write_input (im_audio m) samples of
        (a, Inl e) \<Rightarrow> (m\<lparr>im_audio := a\<rparr>, Inl (StateAudio e))
      | (a, Inr _) \<Rightarrow> (m\<lparr>im_audio := a\<rparr>, Inr ()))"

definition get_audio_output :: "nat \<Rightarrow> ('e, 'd) IosMachine \<Rightarrow> ('e, 'd) IosMachine \<times> pcm" where
  "get_audio_output n m = (case read_output (im_audio m) n of (a, samples) \<Rightarrow> (m\<lparr>im_audio := a\<rparr>, samples))"

definition ms_set_relay_active :: "bool \<Rightarrow> ('e, 'd) ios_step" where
  "ms_set_relay_active active m = m\<lparr>im_transport := it_set_relay_active (im_transport m) active\<rparr>"

definition ms_poll_relay_outbound :: "('e, 'd) IosMachine \<Rightarrow> ('e, 'd) IosMachine \<times> bytes option" where
  "ms_poll_relay_outbound m =
     (case it_poll_relay_outbound (im_transport m) of (t, r) \<Rightarrow> (m\<lparr>im_transport := t\<rparr>, r))"

definition relay_heartbeat_frame ::
  "('e, 'd) ios_env \<Rightarrow> ('e, 'd) IosMachine \<Rightarrow> u64 \<Rightarrow> ios_draw \<Rightarrow> ('e, 'd) IosMachine \<times> bytes" where
  "relay_heartbeat_frame env m now dr =
     (let seq = im_heartbeat_seq m; m = m\<lparr>im_heartbeat_seq := seq + 1\<rparr>;
          presence = (if im_transmitting m then PRESENCE_SPEAKING else PRESENCE_IDLE);
          inner = encode_heartbeat (im_session_epoch m) seq now presence 0 local_capabilities
      in case control_seal env m inner now (dr_nonce dr) of
           (m, Some sealed) \<Rightarrow> (m, sealed)
         | (m, None) \<Rightarrow> (m, []))"

definition current_state :: "('e, 'd) IosMachine \<Rightarrow> u64 \<Rightarrow> IosAppState" where
  "current_state m now =
     (if im_transmitting m then IosTransmitting
      else if floor_peer_speaking (im_floor m) now \<or> floor_is_held (im_floor m) now then IosReceiving
      else im_state m)"

definition ios_export_audit ::
  "('e, 'd) ios_env \<Rightarrow> (json \<Rightarrow> rstring) \<Rightarrow> ('e, 'd) IosMachine \<Rightarrow> rstring \<Rightarrow> u64 \<Rightarrow> rstring" where
  "ios_export_audit env to_string m version now =
     export_package to_string (io_sha env) (im_audit m) (ascii ''com.sassyconsulting.sassytalkie'') version
       (im_sender_id m) now"

end
