(* ===== verification/Ios_Runs.thy ===== *)
theory Ios_Runs
  imports Ios_State
begin

text \<open>
  Runs of the iOS client: every call from Swift and every turn of a thread as one step, in any order; what a step may
  put on the air or in the relay queue, and the invariant every step keeps.
\<close>

section \<open>Events\<close>

datatype ios_event =
    Press u64 ios_draw | Release u64 ios_draw | TxTurn nat u64 u64 "rstring option" | RxTurn nat datagram_in u64
  | AckTurn nat u64 ios_draw | RelayIn bytes u64 ios_draw | PollRelay | RelayActive bool | HeartbeatOut u64 ios_draw
  | ImportQr rstring "u64 option" u64 rstring ios_draw
  | GenerateQr u8 u32 rstring "u64 option" u64 bytes rstring rstring ios_draw
  | SetPsk bytes bytes | SetToken "rstring option" | Wipe u64 | KxInit ios_draw | KxComplete bytes ios_draw
  | HybridInit ios_draw | HybridRespond bytes u64 ios_draw | HybridComplete bytes u64 ios_draw | HybridConfirm u64
  | SetChannel u8 | Listen | Disconnect | Shutdown | AudioIn pcm | AudioOut nat | SetEmergency bool | TakeReason

fun ios_apply :: "('e, 'd) ios_env \<Rightarrow> ios_event \<Rightarrow> ('e, 'd) ios_step" where
  "ios_apply env (Press now dr) m = fst (on_ptt_press env m now dr)"
| "ios_apply env (Release now dr) m = on_ptt_release env now dr m"
| "ios_apply env (TxTurn i now stamp os) m = ios_tx_turn env i now stamp os m"
| "ios_apply env (RxTurn j r now) m = ios_rx_turn env j r now m"
| "ios_apply env (AckTurn i t dr) m = ack_turn env i t dr m"
| "ios_apply env (RelayIn d now dr) m = fst (process_relay_frame env m d now dr)"
| "ios_apply env PollRelay m = fst (ms_poll_relay_outbound m)"
| "ios_apply env (RelayActive b) m = ms_set_relay_active b m"
| "ios_apply env (HeartbeatOut now dr) m = fst (relay_heartbeat_frame env m now dr)"
| "ios_apply env (ImportQr qr clock now uuid dr) m = fst (import_session_qr env m qr clock now uuid dr)"
| "ios_apply env (GenerateQr ch hours name clock now key suuid cuuid dr) m =
     fst (ios_generate_session_qr env m ch hours name clock now key suuid cuuid dr)"
| "ios_apply env (SetPsk key prefix) m = ios_set_psk env key prefix m"
| "ios_apply env (SetToken t) m = set_enrollment_token t m"
| "ios_apply env (Wipe now) m = wipe_session env now m"
| "ios_apply env (KxInit dr) m = fst (ios_key_exchange_init env m dr)"
| "ios_apply env (KxComplete pub dr) m = fst (ios_key_exchange_complete env m pub dr)"
| "ios_apply env (HybridInit dr) m = fst (ios_hybrid_init env m dr)"
| "ios_apply env (HybridRespond bs now dr) m = fst (ios_hybrid_respond env m bs now dr)"
| "ios_apply env (HybridComplete bs now dr) m = fst (ios_hybrid_complete env m bs now dr)"
| "ios_apply env (HybridConfirm now) m = fst (ios_hybrid_confirm env m now)"
| "ios_apply env (SetChannel ch) m = ios_set_channel ch m"
| "ios_apply env Listen m = start_listening m"
| "ios_apply env Disconnect m = ios_disconnect m"
| "ios_apply env Shutdown m = ios_shutdown m"
| "ios_apply env (AudioIn xs) m = fst (process_audio_input xs m)"
| "ios_apply env (AudioOut n) m = fst (get_audio_output n m)"
| "ios_apply env (SetEmergency b) m = m\<lparr>im_floor := set_self_emergency (im_floor m) b\<rparr>"
| "ios_apply env TakeReason m = m\<lparr>im_floor := fst (take_reject_reason (im_floor m))\<rparr>"

definition ios_run :: "('e, 'd) ios_env \<Rightarrow> ('e, 'd) IosMachine \<Rightarrow> ios_event list \<Rightarrow> ('e, 'd) IosMachine" where
  "ios_run env m evs = foldl (\<lambda>m ev. ios_apply env ev m) m evs"

section \<open>What the shared steps change\<close>

text \<open>Every detail the client logs is ASCII, so the entry is appended.\<close>

lemma audit_note_appends:
  "list_all (\<lambda>b. b < 0x80) d \<Longrightarrow>
   \<exists>c e. append_event (io_sha env) (im_audit m) now (ascii ev) d = Ok (c, e) \<and> audit_note env now ev d m = m\<lparr>im_audit := c\<rparr>"
  using redact_detail_ascii [of d] by (auto simp: audit_note_def append_event_def Let_def)

lemma classify_step_shape:
  assumes "classify_step env m d now = (m1, r)"
  shows "\<exists>w a. m1 = m\<lparr>im_control := map_option (ca_replay_update (\<lambda>_. w)) (im_control m), im_audit := a\<rparr>"
proof -
  obtain c x where c: "classify_inbound (io_dec env) (im_control m) d now = (c, x)" by fastforce
  from classify_window [OF c] obtain w where w: "c = map_option (ca_replay_update (\<lambda>_. w)) (im_control m)" by blast
  have "\<exists>a. m1 = m\<lparr>im_control := c, im_audit := a\<rparr>"
    using assms c by (cases x) (auto simp: classify_step_def audit_note_def split: InboundControl.splits
        intro: exI [of _ "im_audit m"])
  with w show ?thesis by blast
qed

section \<open>What a step puts on the air\<close>

abbreviation relay_of :: "('e, 'd) IosMachine \<Rightarrow> bytes list" where
  "relay_of m \<equiv> it_relay_outbound (im_transport m)"

text \<open>From \<open>m\<close> to \<open>m1\<close> only packets of \<open>S\<close> are added to the multicast output and to the relay queue.\<close>

definition emits :: "bytes set \<Rightarrow> ('e, 'd) IosMachine \<Rightarrow> ('e, 'd) IosMachine \<Rightarrow> bool" where
  "emits S m m1 \<longleftrightarrow> (\<exists>new. im_air m1 = im_air m @ new \<and> set new \<subseteq> S) \<and> set (relay_of m1) \<subseteq> set (relay_of m) \<union> S"

text \<open>Control envelopes the device can seal, and audio frames it can encrypt.\<close>

definition sealable :: "('e, 'd) ios_env \<Rightarrow> ('e, 'd) IosMachine \<Rightarrow> bytes set" where
  "sealable env m = {p. \<exists>c inner now nonce. im_control m = Some c \<and>
     snd (seal_with_rng (io_enc env) c inner now nonce) = Inr p}"

definition encryptable :: "('e, 'd) ios_env \<Rightarrow> ('e, 'd) IosMachine \<Rightarrow> bytes set" where
  "encryptable env m = {p. \<exists>c data. it_crypto (im_transport m) = Some c \<and> snd (encrypt (io_enc env) c data) = Inr p}"

lemma emits_quiet: "im_air m1 = im_air m \<Longrightarrow> set (relay_of m1) \<subseteq> set (relay_of m) \<Longrightarrow> emits S m m1"
  by (auto simp: emits_def)

lemma emits_if: "emits S m a \<Longrightarrow> emits S m b \<Longrightarrow> emits S m (if P then a else b)"
  by simp

lemma emits_option:
  "emits S m a \<Longrightarrow> (\<And>y. emits S m (f y)) \<Longrightarrow> emits S m (case x of None \<Rightarrow> a | Some y \<Rightarrow> f y)"
  by (simp split: option.split)

lemma emits_pair: "(\<And>y z. emits S m (f y z)) \<Longrightarrow> emits S m (case x of (y, z) \<Rightarrow> f y z)"
  by (simp split: prod.split)

lemma emits_trans: "emits S m m1 \<Longrightarrow> emits S m1 m2 \<Longrightarrow> emits S m m2"
  by (fastforce simp: emits_def)

lemma emits_mono: "emits S m m1 \<Longrightarrow> S \<subseteq> T \<Longrightarrow> emits T m m1"
  by (fastforce simp: emits_def)

lemma emits_after: "im_air m1 = im_air m \<Longrightarrow> relay_of m1 = relay_of m \<Longrightarrow> emits S m m2 = emits S m1 m2"
  by (simp add: emits_def)

lemma seal_replay [simp]:
  "snd (seal_with_rng enc (ca_replay_update f c) inner now nonce) = snd (seal_with_rng enc c inner now nonce)"
  by (auto simp: seal_with_rng_def Let_def control_body_def split: option.splits)

lemma sealable_cong:
  "im_control m1 = map_option (ca_replay_update f) (im_control m) \<Longrightarrow> sealable env m1 = sealable env m"
  by (cases "im_control m") (auto simp: sealable_def)

lemma sealable_same: "im_control m1 = im_control m \<Longrightarrow> sealable env m1 = sealable env m"
  by (simp add: sealable_def)

lemma control_seal_shape:
  assumes "control_seal env m inner now nonce = (m1, r)"
  shows "\<exists>c. m1 = m\<lparr>im_control := c\<rparr> \<and> (\<forall>p. r = Some p \<longrightarrow> p \<in> sealable env m)"
proof (cases "im_control m")
  case None
  with assms show ?thesis by (auto simp: control_seal_def intro: exI [of _ None])
next
  case (Some c)
  obtain c1 x where s: "seal_with_rng (io_enc env) c inner now nonce = (c1, x)" by fastforce
  have "p \<in> sealable env m" if "x = Inr p" for p
    using Some s that by (auto simp: sealable_def) (metis snd_conv)
  with assms Some s show ?thesis by (cases x) (auto simp: control_seal_def)
qed

lemma broadcast_emits: "sealed \<in> S \<Longrightarrow> emits S m (broadcast_control sealed os m)"
  by (auto simp: emits_def broadcast_control_def ms_enqueue_relay_def put_on_air_def it_enqueue_relay_control_def
      it_send_control_datagram_def multicast_def split: option.splits dest!: set_drop_over_cap)

lemma enqueue_emits: "sealed \<in> S \<Longrightarrow> emits S m (ms_enqueue_relay sealed m)"
  by (auto simp: emits_def ms_enqueue_relay_def it_enqueue_relay_control_def dest!: set_drop_over_cap)

lemma control_seal_emits:
  assumes "control_seal env m inner now nonce = (m1, r)" and "sealable env m \<subseteq> S"
    and "\<And>p. r = Some p \<Longrightarrow> p \<in> S \<Longrightarrow> emits S m1 m2" and "r = None \<Longrightarrow> m2 = m1"
  shows "emits S m m2"
proof -
  obtain c where c: "m1 = m\<lparr>im_control := c\<rparr>" "\<forall>p. r = Some p \<longrightarrow> p \<in> sealable env m"
    using control_seal_shape [OF assms(1)] by blast
  have "emits S m1 m2" using assms(2-4) c(2) by (cases r) (auto intro: emits_quiet)
  then show ?thesis using c(1) emits_after [of m1 m S m2] by simp
qed

lemma send_control_emits: "emits (sealable env m) m (send_control_inner env inner now dr m)"
proof -
  obtain m1 r where "control_seal env m inner now (dr_nonce dr) = (m1, r)" by fastforce
  then show ?thesis
    by (rule control_seal_emits) (auto simp: send_control_inner_def \<open>control_seal _ _ _ _ _ = _\<close> intro: broadcast_emits)
qed

lemma relay_answer_emits: "emits (sealable env m) m (relay_answer env inner now nonce m)"
proof -
  obtain m1 r where "control_seal env m inner now nonce = (m1, r)" by fastforce
  then show ?thesis
    by (rule control_seal_emits) (auto simp: relay_answer_def \<open>control_seal _ _ _ _ _ = _\<close> intro: enqueue_emits)
qed

text \<open>Steps that put nothing out and keep the control codec.\<close>

definition silent :: "('e, 'd) IosMachine \<Rightarrow> ('e, 'd) IosMachine \<Rightarrow> bool" where
  "silent m m1 \<longleftrightarrow> im_air m1 = im_air m \<and> relay_of m1 = relay_of m \<and> im_control m1 = im_control m"

lemma silent_emits: "silent m m1 \<Longrightarrow> emits S m m1"
  by (simp add: silent_def emits_quiet)

lemma silent_before: "silent m m1 \<Longrightarrow> emits (sealable env m1) m1 m2 \<Longrightarrow> emits (sealable env m) m m2"
  using sealable_same [of m1 m env] emits_after [of m1 m _ m2] by (simp add: silent_def)

lemma silent_steps:
  "silent m (yield_local_tx m)" "silent m (audit_note env now ev d m)" "silent m (install_session session m)"
  "silent m (spawn_ack now stop m)" "silent m (fst (hybrid_on_confirm env m payload now))"
  "silent m (fst (hybrid_on_ack env m payload now))" "silent m (fst (ios_hybrid_complete env m bs now dr))"
  "silent m (fst (ios_hybrid_init env m dr))" "silent m (fst (ios_hybrid_respond env m bs now dr))"
  "silent m (fst (ios_hybrid_confirm env m now))" "silent m (on_remote_ptt_start peer payload now m)"
  "silent m (on_remote_ptt_stop peer payload now m)" "silent m (lan_handle_ptt_control v now m)"
  "silent m (fst (ios_key_exchange_init env m dr))" "silent m (fst (ios_key_exchange_complete env m pub dr))"
  "silent m (set_enrollment_token t m)" "silent m (ios_set_channel ch m)" "silent m (start_listening m)"
  "silent m (ios_disconnect m)" "silent m (ios_shutdown m)" "silent m (fst (process_audio_input xs m))"
  "silent m (fst (get_audio_output n m))" "silent m (rx_audio env j sender compressed m)"
  by (simp_all add: silent_def yield_local_tx_def audit_note_def install_session_def it_set_crypto_def spawn_ack_def
      hybrid_on_confirm_def it_arm_pending_rx_def hybrid_on_ack_def ios_hybrid_complete_def ios_hybrid_init_def
      ios_hybrid_respond_def ios_hybrid_confirm_def on_remote_ptt_start_def on_remote_ptt_stop_def
      lan_handle_ptt_control_def ios_key_exchange_init_def ios_key_exchange_complete_def set_enrollment_token_def
      ios_set_channel_def start_listening_def ios_disconnect_def ios_shutdown_def it_stop_def process_audio_input_def
      get_audio_output_def rx_audio_def Let_def split: option.split sum.split prod.split)

lemma on_init_emits:
  assumes "hybrid_on_init env m payload now dr = (m1, r)"
  shows "emits (sealable env m) m m1 \<and> (\<forall>p. r = Some p \<longrightarrow> p \<in> sealable env m)"
proof -
  have "(m1 = m \<and> r = None) \<or>
    (\<exists>x inner. control_seal env (m\<lparr>im_staged_hybrid := x\<rparr>) inner now (dr_nonce dr) = (m1, r))"
    using assms by (auto simp: hybrid_on_init_def Let_def split: option.splits sum.splits prod.splits)
  then show ?thesis
  proof
    assume "\<exists>x inner. control_seal env (m\<lparr>im_staged_hybrid := x\<rparr>) inner now (dr_nonce dr) = (m1, r)"
    then obtain x inner where c: "control_seal env (m\<lparr>im_staged_hybrid := x\<rparr>) inner now (dr_nonce dr) = (m1, r)" by blast
    from control_seal_shape [OF c] sealable_same [of "m\<lparr>im_staged_hybrid := x\<rparr>" m env]
    show ?thesis by (auto intro: emits_quiet)
  qed (auto intro: emits_quiet)
qed

lemma dispatch_emits: "emits (sealable env m) m (dispatch_verified_control env v now dr m)"
proof (cases "decode_control_frame (vc_inner_frame v)")
  case None
  then show ?thesis by (simp add: dispatch_verified_control_def emits_quiet)
next
  case (Some decoded)
  let ?p = "dc_payload decoded"
  have init: "emits (sealable env m) m
      (case hybrid_on_init env m ?p now dr of (m, Some frame) \<Rightarrow> ms_enqueue_relay frame m | (m, None) \<Rightarrow> m)"
  proof -
    obtain m1 r where i: "hybrid_on_init env m ?p now dr = (m1, r)" by fastforce
    from on_init_emits [OF i] show ?thesis
      by (cases r) (auto simp: i intro: emits_trans enqueue_emits)
  qed
  have answer: "emits (sealable env m) m (case x of (m, True) \<Rightarrow> relay_answer env inner now n m | (m, False) \<Rightarrow> m)"
    if "silent m (fst x)" for x inner n
    using that silent_before [OF that relay_answer_emits]
    by (cases x) (auto intro: silent_emits split: bool.splits)
  show ?thesis
    unfolding dispatch_verified_control_def Some option.case Let_def
    by (intro emits_if emits_option emits_pair init answer silent_steps silent_steps [THEN silent_emits])
      (simp_all add: emits_quiet)
qed

text \<open>After classification the codec can seal what it could before.\<close>

lemma classify_before:
  assumes "classify_step env m d now = (m1, r)" and "emits (sealable env m1) m1 m2"
  shows "emits (sealable env m) m m2"
proof -
  obtain w a where m1: "m1 = m\<lparr>im_control := map_option (ca_replay_update (\<lambda>_. w)) (im_control m), im_audit := a\<rparr>"
    using classify_step_shape [OF assms(1)] by blast
  have "sealable env m1 = sealable env m" by (rule sealable_cong) (simp add: m1)
  with assms(2) emits_after [of m1 m _ m2] show ?thesis by (simp add: m1)
qed

lemma open_audio_shape:
  assumes "open_audio env m d = (m1, r)"
  shows "\<exists>t x. it_open_sealed (io_dec env) (im_transport m) d = (t, x) \<and> m1 = m\<lparr>im_transport := t\<rparr>"
  using assms by (auto simp: open_audio_def Let_def split: prod.splits option.splits outcome.splits if_splits)

lemma open_audio_silent: "open_audio env m d = (m1, r) \<Longrightarrow> silent m m1"
  using open_audio_shape open_sealed_fields by (fastforce simp: silent_def)

lemma silent_trans: "silent m m1 \<Longrightarrow> silent m1 m2 \<Longrightarrow> silent m m2"
  by (simp add: silent_def)

lemma silent_updates [simp]:
  "silent m (m1\<lparr>im_floor := f\<rparr>) = silent m m1" "silent m (m1\<lparr>im_audio := a\<rparr>) = silent m m1"
  "silent m (m1\<lparr>im_decoder := d\<rparr>) = silent m m1" "silent m (m1\<lparr>im_state := st\<rparr>) = silent m m1"
  "silent m (m1\<lparr>im_rx_threads := rx\<rparr>) = silent m m1"
  by (simp_all add: silent_def)

lemma relay_frame_emits: "emits (sealable env m) m (fst (process_relay_frame env m d now dr))"
proof -
  obtain m1 r where c: "classify_step env m d now = (m1, r)" by fastforce
  obtain m2 x where o: "open_audio env m1 d = (m2, x)" by fastforce
  have "emits (sealable env m1) m1 (fst (process_relay_frame env m d now dr))"
    using c o open_audio_silent [OF o] dispatch_emits
    by (auto simp: process_relay_frame_def Let_def emits_quiet intro: silent_emits
        split: InboundControl.split option.split prod.split sum.split)
  with c show ?thesis by (rule classify_before)
qed

lemma rx_turn_emits: "emits (sealable env m) m (ios_rx_turn env j r now m)"
proof (cases "length (im_rx_threads m) \<le> j \<or> im_stop_rx m \<or> (\<exists>e. it_recv_datagram (im_transport m) r = Inl e)")
  case True
  then show ?thesis by (auto simp: ios_rx_turn_def emits_quiet split: sum.split)
next
  case False
  then obtain raw where raw: "it_recv_datagram (im_transport m) r = Inr raw"
    by (cases "it_recv_datagram (im_transport m) r") auto
  obtain m1 c where cs: "classify_step env m raw now = (m1, c)" by fastforce
  obtain m2 x where o: "open_audio env m1 raw = (m2, x)" by fastforce
  have audio: "emits (sealable env m1) m1 (rx_audio env j sender compressed (m2\<lparr>im_floor := f\<rparr>))" for sender compressed f
    by (rule silent_emits, rule silent_trans [OF _ silent_steps(23)]) (simp add: open_audio_silent [OF o])
  have "emits (sealable env m1) m1 (ios_rx_turn env j r now m)"
    using False raw cs o audio open_audio_silent [OF o] silent_steps(13) [THEN silent_emits]
    by (auto simp: ios_rx_turn_def emits_quiet intro: silent_emits split: InboundControl.split option.split)
  with cs show ?thesis by (rule classify_before)
qed

lemma ack_emits: "emits (sealable env m) m (ack_turn env i t dr m)"
proof (cases "i < length (im_acks m) \<and> fst (im_acks m ! i) \<le> t")
  case True
  let ?m = "m\<lparr>im_acks := take i (im_acks m) @ drop (Suc i) (im_acks m)\<rparr>"
  obtain m1 r where c: "control_seal env ?m (snd (im_acks m ! i)) t (dr_nonce dr) = (m1, r)" by fastforce
  then have "emits (sealable env ?m) ?m (ack_turn env i t dr m)"
    by (rule control_seal_emits) (use True c in \<open>auto simp: ack_turn_def Let_def intro: broadcast_emits\<close>)
  then show ?thesis by (rule silent_before [rotated]) (simp add: silent_def)
qed (auto simp: ack_turn_def emits_quiet)

lemma send_puts:
  assumes "it_send (io_enc env) (im_transport m) data os = (t, air, r)" and "im_air m1 = im_air m" and "im_transport m1 = t"
  shows "emits (encryptable env m) m (put_on_air air m1)"
proof -
  have e: "p \<in> encryptable env m"
    if "p \<in> set_option air \<union> (set (it_relay_outbound t) - set (relay_of m))" for p
  proof -
    from send_emits [OF assms(1)] that obtain c c' where
      "it_crypto (im_transport m) = Some c" "encrypt (io_enc env) c data = (c', Inr p)" by blast
    then show ?thesis unfolding encryptable_def by (metis (mono_tags, lifting) mem_Collect_eq snd_conv)
  qed
  then have "set (case air of None \<Rightarrow> [] | Some d \<Rightarrow> [d]) \<subseteq> encryptable env m" by (cases air) auto
  moreover have "set (it_relay_outbound t) \<subseteq> set (relay_of m) \<union> encryptable env m" using e by blast
  ultimately show ?thesis using assms(2,3) by (simp add: emits_def put_on_air_def)
qed

lemma tx_turn_emits: "emits (encryptable env m) m (ios_tx_turn env i now stamp os m)"
  by (auto simp: ios_tx_turn_def Let_def emits_quiet intro: send_puts split: prod.split sum.split)

lemma press_emits: "emits (sealable env m) m (fst (on_ptt_press env m now dr))"
proof -
  have "emits (sealable env m) (m\<lparr>im_floor := f\<rparr>) (send_control_inner env inner now dr (m\<lparr>im_floor := f\<rparr>))" for f inner
    using send_control_emits [of env "m\<lparr>im_floor := f\<rparr>"] sealable_same [of "m\<lparr>im_floor := f\<rparr>" m env] by simp
  then show ?thesis
    by (auto simp: on_ptt_press_def Let_def start_tx_thread_def emits_def)
qed

lemma release_emits: "emits (sealable env m) m (on_ptt_release env now dr m)"
proof -
  have "emits (sealable env m) (m\<lparr>im_stop_tx := b, im_audio := a\<rparr>)
      (send_control_inner env inner now dr (m\<lparr>im_stop_tx := b, im_audio := a\<rparr>))" for b a inner
    using send_control_emits [of env "m\<lparr>im_stop_tx := b, im_audio := a\<rparr>"]
      sealable_same [of "m\<lparr>im_stop_tx := b, im_audio := a\<rparr>" m env] by simp
  then show ?thesis by (auto simp: on_ptt_release_def Let_def emits_def)
qed

lemma heartbeat_emits: "emits S m (fst (relay_heartbeat_frame env m now dr))"
  by (rule emits_quiet) (simp_all add: relay_heartbeat_frame_def control_seal_def Let_def split: option.split prod.split sum.split)

lemma pairing_emits:
  "emits S m (fst (import_session_qr env m qr clock now uuid dr))"
  "emits S m (fst (ios_generate_session_qr env m ch hours name clock now key suuid cuuid dr))"
  "emits S m (ios_set_psk env k pre m)" "emits S m (wipe_session env now m)"
proof -
  show "emits S m (fst (import_session_qr env m qr clock now uuid dr))" for m qr uuid
    by (rule emits_quiet) (simp_all add: import_session_qr_def ios_set_psk_def ios_set_channel_def audit_note_def
        it_set_psk_def Let_def split: option.split prod.split sum.split)
  then show "emits S m (fst (ios_generate_session_qr env m ch hours name clock now key suuid cuuid dr))"
    by (auto simp: ios_generate_session_qr_def emits_quiet split: prod.split sum.split)
qed (auto intro!: emits_quiet
    simp: ios_set_psk_def it_set_psk_def wipe_session_def audit_note_def it_set_relay_active_def it_clear_crypto_def Let_def)

section \<open>Nothing leaves unsealed\<close>

lemma apply_emits: "emits (sealable env m \<union> encryptable env m) m (ios_apply env ev m)"
proof -
  have seal: "emits (sealable env m) m m1 \<Longrightarrow> emits (sealable env m \<union> encryptable env m) m m1"
    and enc: "emits (encryptable env m) m m1 \<Longrightarrow> emits (sealable env m \<union> encryptable env m) m m1" for m1
    by (auto elim: emits_mono)
  show ?thesis
    by (cases ev)
      (auto intro: seal enc press_emits release_emits tx_turn_emits rx_turn_emits ack_emits relay_frame_emits
        heartbeat_emits pairing_emits silent_steps [THEN silent_emits] emits_quiet
        simp: ms_poll_relay_outbound_def it_poll_relay_outbound_def ms_set_relay_active_def it_set_relay_active_def
          Let_def emits_quiet split: list.split)
qed

section \<open>The invariant\<close>

text \<open>
  The part of the state that push-to-talk is about; the identity a device seals with; the log. Each group of
  operations is shown to leave the parts it does not touch alone.
\<close>

definition tx_view :: "('e, 'd) IosMachine \<Rightarrow> bool \<times> bool \<times> u64 \<times> u8 list \<times> AudioState" where
  "tx_view m = (im_transmitting m, im_stop_tx m, im_tx_started m, im_tx_threads m, ae_state (im_audio m))"

definition tx_ok :: "('e, 'd) IosMachine \<Rightarrow> bool" where
  "tx_ok m \<longleftrightarrow> recording (im_audio m) = im_transmitting m \<and> (im_tx_started m \<noteq> 0 \<longrightarrow> im_transmitting m) \<and>
     (im_transmitting m \<and> \<not> im_stop_tx m \<longrightarrow> im_tx_threads m \<noteq> [])"

lemma tx_ok_view: "tx_view m1 = tx_view m \<Longrightarrow> tx_ok m1 = tx_ok m"
  by (simp add: tx_view_def tx_ok_def recording_def)

lemma control_seal_tx: "control_seal env m inner now n = (m1, r) \<Longrightarrow> tx_view m1 = tx_view m"
  using control_seal_shape by (fastforce simp: tx_view_def)

lemma classify_tx: "classify_step env m d now = (m1, r) \<Longrightarrow> tx_view m1 = tx_view m"
  using classify_step_shape by (fastforce simp: tx_view_def)

lemma open_audio_tx: "open_audio env m d = (m1, r) \<Longrightarrow> tx_view m1 = tx_view m"
  using open_audio_shape by (fastforce simp: tx_view_def)

lemma broadcast_tx [simp]:
  "tx_view (broadcast_control sealed os m) = tx_view m" "tx_view (ms_enqueue_relay sealed m) = tx_view m"
  "tx_view (put_on_air air m) = tx_view m"
  by (simp_all add: tx_view_def broadcast_control_def ms_enqueue_relay_def put_on_air_def)

lemma send_control_tx [simp]: "tx_view (send_control_inner env inner now dr m) = tx_view m"
  by (auto simp: send_control_inner_def split: prod.split option.split dest: control_seal_tx)

lemma relay_answer_tx [simp]: "tx_view (relay_answer env inner now n m) = tx_view m"
  by (auto simp: relay_answer_def split: prod.split option.split dest: control_seal_tx)

lemma on_init_tx: "hybrid_on_init env m payload now dr = (m1, r) \<Longrightarrow> tx_view m1 = tx_view m"
  by (auto simp: hybrid_on_init_def Let_def split: option.splits sum.splits prod.splits dest!: control_seal_tx)
    (simp_all add: tx_view_def)

lemma steps_tx [simp]:
  "tx_view (audit_note env now ev d m) = tx_view m" "tx_view (install_session session m) = tx_view m"
  "tx_view (spawn_ack now stop m) = tx_view m" "tx_view (fst (hybrid_on_confirm env m payload now)) = tx_view m"
  "tx_view (fst (hybrid_on_ack env m payload now)) = tx_view m"
  "tx_view (fst (ios_hybrid_complete env m bs now dr)) = tx_view m"
  "tx_view (fst (ios_hybrid_init env m dr)) = tx_view m"
  "tx_view (fst (ios_hybrid_respond env m bs now dr)) = tx_view m"
  "tx_view (fst (ios_hybrid_confirm env m now)) = tx_view m" "tx_view (on_remote_ptt_stop peer payload now m) = tx_view m"
  "tx_view (fst (ios_key_exchange_init env m dr)) = tx_view m"
  "tx_view (fst (ios_key_exchange_complete env m pub dr)) = tx_view m"
  "tx_view (set_enrollment_token tok m) = tx_view m" "tx_view (ios_set_channel ch m) = tx_view m"
  "tx_view (ios_set_psk env key pre m) = tx_view m" "tx_view (rx_audio env j sender compressed m) = tx_view m"
  "tx_view (fst (import_session_qr env m qr clock t uuid dr)) = tx_view m"
  "tx_view (fst (ios_generate_session_qr env m ch hours name clock t key suuid cuuid dr)) = tx_view m"
  by (simp_all add: tx_view_def audit_note_def install_session_def spawn_ack_def hybrid_on_confirm_def hybrid_on_ack_def
      ios_hybrid_complete_def ios_hybrid_init_def ios_hybrid_respond_def ios_hybrid_confirm_def on_remote_ptt_stop_def
      ios_key_exchange_init_def ios_key_exchange_complete_def set_enrollment_token_def ios_set_channel_def
      ios_set_psk_def rx_audio_def import_session_qr_def ios_generate_session_qr_def Let_def
      split: option.split sum.split prod.split)

lemma tx_ok_yield [simp]: "tx_ok (yield_local_tx m)"
  by (simp add: tx_ok_def yield_local_tx_def)

lemma tx_ok_floor [simp]:
  "tx_ok (m\<lparr>im_floor := f\<rparr>) = tx_ok m" "tx_ok (m\<lparr>im_decoder := d\<rparr>) = tx_ok m" "tx_ok (m\<lparr>im_state := st\<rparr>) = tx_ok m"
  by (simp_all add: tx_ok_def)

lemma tx_ok_ptt_start: "tx_ok m \<Longrightarrow> tx_ok (on_remote_ptt_start peer payload now m)"
  by (auto simp: on_remote_ptt_start_def Let_def split: option.split)

lemma tx_ok_lan: "tx_ok m \<Longrightarrow> tx_ok (lan_handle_ptt_control v now m)"
  by (auto simp: lan_handle_ptt_control_def tx_ok_def spawn_ack_def Let_def split: option.split)

lemma tx_ok_same [simp]:
  "tx_ok (ms_enqueue_relay sealed m) = tx_ok m" "tx_ok (relay_answer env inner now n m) = tx_ok m"
  "tx_ok (audit_note env now ev d m) = tx_ok m" "tx_ok (on_remote_ptt_stop peer payload now m) = tx_ok m"
  "tx_ok (fst (hybrid_on_ack env m payload now)) = tx_ok m" "tx_ok (rx_audio env j sender compressed m) = tx_ok m"
  "tx_ok (fst (hybrid_on_confirm env m payload now)) = tx_ok m"
  "tx_ok (fst (ios_hybrid_complete env m bs now dr)) = tx_ok m"
  by (rule tx_ok_view, simp)+

lemma tx_ok_init: "tx_ok m \<Longrightarrow> tx_ok (fst (hybrid_on_init env m payload now dr))"
  using tx_ok_view [OF on_init_tx [OF prod.collapse [symmetric]]] by blast

text \<open>Deciding, matching and continuing from a state with the property keeps it.\<close>

lemma keeps_cases:
  "P a \<Longrightarrow> P b \<Longrightarrow> P (if c then a else b)"
  "P a \<Longrightarrow> (\<And>y. P (f y)) \<Longrightarrow> P (case x of None \<Rightarrow> a | Some y \<Rightarrow> f y)"
  "(\<And>y z. P (g y z)) \<Longrightarrow> P (case p of (y, z) \<Rightarrow> g y z)"
  by (simp_all split: option.split prod.split)

lemma keeps_next:
  "P (fst q) \<Longrightarrow> (\<And>m. P m \<Longrightarrow> P (h m)) \<Longrightarrow> P (case q of (m, True) \<Rightarrow> h m | (m, False) \<Rightarrow> m)"
  "P (fst q') \<Longrightarrow> (\<And>m y. P m \<Longrightarrow> P (k y m)) \<Longrightarrow> P (case q' of (m, Some y) \<Rightarrow> k y m | (m, None) \<Rightarrow> m)"
  by (auto split: prod.split bool.split option.split)

lemma tx_ok_dispatch: "tx_ok m \<Longrightarrow> tx_ok (dispatch_verified_control env v now dr m)"
  unfolding dispatch_verified_control_def Let_def
  by (intro keeps_cases [where P = tx_ok] keeps_next [where P = tx_ok]) (simp_all add: tx_ok_init tx_ok_ptt_start)

lemma tx_ok_relay_frame:
  assumes "tx_ok m" shows "tx_ok (fst (process_relay_frame env m d now dr))"
proof -
  obtain m1 r where c: "classify_step env m d now = (m1, r)" by fastforce
  obtain m2 x where o: "open_audio env m1 d = (m2, x)" by fastforce
  have m1: "tx_ok m1" and m2: "tx_ok m2"
    using assms tx_ok_view [OF classify_tx [OF c]] tx_ok_view [OF open_audio_tx [OF o]] by simp_all
  have out: "tx_ok (m\<lparr>im_floor := f, im_decoder := dc, im_audio := fst (write_output_frame (im_audio m) fr)\<rparr>) =
      tx_ok m" for m f dc fr
    by (simp add: tx_ok_def recording_def)
  show ?thesis
    using m1 m2 tx_ok_dispatch [OF m1]
    by (cases r; cases x) (auto simp: process_relay_frame_def c o Let_def out split: prod.split sum.split)
qed

lemma tx_ok_rx_turn:
  assumes "tx_ok m" shows "tx_ok (ios_rx_turn env j r now m)"
proof (cases "length (im_rx_threads m) \<le> j \<or> im_stop_rx m \<or> (\<exists>e. it_recv_datagram (im_transport m) r = Inl e)")
  case True
  then show ?thesis using assms by (auto simp: ios_rx_turn_def tx_ok_def split: sum.split)
next
  case False
  then obtain raw where raw: "it_recv_datagram (im_transport m) r = Inr raw"
    by (cases "it_recv_datagram (im_transport m) r") auto
  obtain m1 c where cs: "classify_step env m raw now = (m1, c)" by fastforce
  obtain m2 x where o: "open_audio env m1 raw = (m2, x)" by fastforce
  have m1: "tx_ok m1" and m2: "tx_ok m2"
    using assms tx_ok_view [OF classify_tx [OF cs]] tx_ok_view [OF open_audio_tx [OF o]] by simp_all
  show ?thesis
    using False raw m1 m2 tx_ok_lan [OF m1]
    by (cases c; cases x) (auto simp: ios_rx_turn_def cs o)
qed

lemma tx_ok_tx_turn:
  assumes "tx_ok m" shows "tx_ok (ios_tx_turn env i now stamp os m)"
proof (cases "length (im_tx_threads m) \<le> i \<or> im_stop_tx m \<or>
    0 < im_tx_started m \<and> DEFAULT_MAX_TX_MS \<le> sat_sub now (im_tx_started m)")
  case True
  then show ?thesis using assms by (auto simp: ios_tx_turn_def tx_ok_def)
next
  case False
  have state: "ae_state (fst (read_input_frame a)) = ae_state a" for a
    by (simp add: read_input_frame_def pop_slice_def)
  have "tx_view (ios_tx_turn env i now stamp os m) = tx_view m"
    using False state [of "im_audio m"]
    by (auto simp: ios_tx_turn_def put_on_air_def tx_view_def Let_def split: prod.split sum.split)
  then show ?thesis using assms tx_ok_view by blast
qed

lemma tx_ok_ack: "tx_ok m \<Longrightarrow> tx_ok (ack_turn env i t dr m)"
proof -
  assume ok: "tx_ok m"
  have "tx_view (ack_turn env i t dr m) = tx_view m"
    by (auto simp: ack_turn_def Let_def split: prod.split option.split dest!: control_seal_tx) (simp_all add: tx_view_def)
  with ok show ?thesis using tx_ok_view by blast
qed

lemma tx_ok_press: "tx_ok m \<Longrightarrow> tx_ok (fst (on_ptt_press env m now dr))"
  by (auto simp: on_ptt_press_def start_tx_thread_def tx_ok_def Let_def)

lemma tx_ok_release:
  assumes "tx_ok m" shows "tx_ok (on_ptt_release env now dr m)"
proof -
  have "ae_state (im_audio (send_control_inner env inner now dr m)) = ae_state (im_audio m)" for inner m
    using send_control_tx [of env inner now dr m] by (simp add: tx_view_def)
  then show ?thesis using assms by (auto simp: on_ptt_release_def tx_ok_def recording_def Let_def)
      (simp_all add: stop_recording_def split: AudioState.splits)
qed

lemma tx_ok_apply: "tx_ok m \<Longrightarrow> tx_ok (ios_apply env ev m)"
proof (cases ev)
  case (Wipe now)
  assume "tx_ok m"
  with Wipe show ?thesis by (simp add: wipe_session_def audit_note_def tx_ok_def)
next
  case (HeartbeatOut now dr)
  assume "tx_ok m"
  moreover have "tx_view (fst (relay_heartbeat_frame env m now dr)) = tx_view m"
    by (simp add: relay_heartbeat_frame_def control_seal_def tx_view_def Let_def split: option.split prod.split sum.split)
  ultimately show ?thesis using HeartbeatOut tx_ok_view by fastforce
next
  case (AudioIn xs)
  assume "tx_ok m"
  with AudioIn show ?thesis
    by (simp add: process_audio_input_def write_input_def tx_ok_def recording_def split: prod.split sum.split)
next
  case (AudioOut n)
  assume "tx_ok m"
  with AudioOut show ?thesis by (simp add: get_audio_output_def read_output_def pop_slice_def tx_ok_def recording_def)
qed (simp_all add: tx_ok_press tx_ok_release tx_ok_tx_turn tx_ok_rx_turn tx_ok_ack tx_ok_relay_frame,
    simp_all add: tx_ok_view [OF steps_tx(13)] tx_ok_view [OF steps_tx(14)] tx_ok_view [OF steps_tx(15)]
      tx_ok_view [OF steps_tx(17)] tx_ok_view [OF steps_tx(18)] tx_ok_view [OF steps_tx(11)]
      tx_ok_view [OF steps_tx(12)] tx_ok_view [OF steps_tx(7)] tx_ok_view [OF steps_tx(8)] tx_ok_view [OF steps_tx(9)],
    simp_all add: tx_ok_def start_listening_def ios_disconnect_def ios_shutdown_def ms_poll_relay_outbound_def
      it_poll_relay_outbound_def ms_set_relay_active_def split: list.split)

text \<open>
  The control codec is bound to the device, its key and its room; the log verifies and is bounded; so are the ring
  buffers and the relay queue.
\<close>

definition room_binding :: "('e, 'd) ios_env \<Rightarrow> rstring option \<Rightarrow> bytes" where
  "room_binding env room = take ROOM_BINDING_BYTES (io_sha env (case room of Some r \<Rightarrow> r | None \<Rightarrow> ascii ''unpaired''))"

definition id_ok :: "('e, 'd) ios_env \<Rightarrow> ('e, 'd) IosMachine \<Rightarrow> bool" where
  "id_ok env m \<longleftrightarrow> (\<forall>c. im_control m = Some c \<longrightarrow> ca_sender_id c = im_sender_id m \<and> ca_epoch c = im_session_epoch m \<and>
     im_psk m = Some (ca_cipher c) \<and> ca_room_binding c = room_binding env (im_room_id m))"

definition audit_ok :: "('e, 'd) ios_env \<Rightarrow> AuditChain \<Rightarrow> bool" where
  "audit_ok env a \<longleftrightarrow> verify_events (io_sha env) (ac_events a) \<and> length (ac_events a) \<le> MAX_EVENTS \<and>
     ac_max_events a = MAX_EVENTS"

definition kept_ok :: "('e, 'd) ios_env \<Rightarrow> ('e, 'd) IosMachine \<Rightarrow> bool" where
  "kept_ok env m \<longleftrightarrow> id_ok env m \<and> audit_ok env (im_audit m) \<and> engine_ok (im_audio m) \<and>
     length (relay_of m) \<le> RELAY_OUTBOUND_CAP"

lemma audit_ok_append:
  assumes "audit_ok env a" and "append_event (io_sha env) a now ev d = Ok (c, e)"
  shows "audit_ok env c"
proof -
  note a = append_event_Ok [OF assms(2)]
  have "verify_events (io_sha env) (ac_events a @ [e])"
    using assms(1) a by (simp add: audit_ok_def verify_events_snoc)
  then have "verify_events (io_sha env) (ac_events c)" unfolding a(2) by (rule verify_events_drop)
  moreover have "length (ac_events c) \<le> MAX_EVENTS" using assms(1) unfolding a(2) by (simp add: audit_ok_def)
  ultimately show ?thesis using assms(1) a(1) by (simp add: audit_ok_def)
qed

lemma kept_audit [simp]: "kept_ok env m \<Longrightarrow> kept_ok env (audit_note env now ev d m)"
  using audit_ok_append
  by (auto simp: kept_ok_def audit_note_def id_ok_def split: outcome.split) fastforce+

lemma seal_same_codec:
  "seal_with_rng enc c inner now nonce = (c1, r) \<Longrightarrow> \<exists>q. c1 = c\<lparr>ca_tx_sequence := q\<rparr>"
  by (auto simp: seal_with_rng_def Let_def split: option.splits if_splits intro: exI [of _ "ca_tx_sequence c"])

lemma kept_seal:
  assumes "kept_ok env m" and "control_seal env m inner now nonce = (m1, r)"
  shows "kept_ok env m1"
proof (cases "im_control m")
  case None
  with assms show ?thesis by (simp add: control_seal_def)
next
  case (Some c)
  obtain c1 x where s: "seal_with_rng (io_enc env) c inner now nonce = (c1, x)" by fastforce
  from seal_same_codec [OF s] assms Some s show ?thesis
    by (cases x) (auto simp: control_seal_def kept_ok_def id_ok_def)
qed

lemma kept_classify:
  assumes "kept_ok env m" and "classify_step env m d now = (m1, r)"
  shows "kept_ok env m1"
proof -
  obtain c x where c: "classify_inbound (io_dec env) (im_control m) d now = (c, x)" by fastforce
  from classify_window [OF c] obtain w where w: "c = map_option (ca_replay_update (\<lambda>_. w)) (im_control m)" by blast
  have "kept_ok env (m\<lparr>im_control := c\<rparr>)" using assms(1) w by (auto simp: kept_ok_def id_ok_def)
  then show ?thesis using assms(2) c
    by (cases x) (auto simp: classify_step_def split: InboundControl.splits)
qed

lemma kept_open_audio:
  assumes "kept_ok env m" and "open_audio env m d = (m1, r)" shows "kept_ok env m1"
proof -
  obtain t x where o: "it_open_sealed (io_dec env) (im_transport m) d = (t, x)" and m1: "m1 = m\<lparr>im_transport := t\<rparr>"
    using open_audio_shape [OF assms(2)] by blast
  from open_sealed_fields [OF o] assms(1) m1 show ?thesis by (simp add: kept_ok_def id_ok_def)
qed

lemma length_drop_over_cap [simp]: "length (drop_over_cap q) \<le> RELAY_OUTBOUND_CAP"
  by (simp add: drop_over_cap_eq)

lemma kept_simps [simp]:
  "kept_ok env (m\<lparr>im_floor := f\<rparr>) = kept_ok env m" "kept_ok env (m\<lparr>im_decoder := d\<rparr>) = kept_ok env m"
  "kept_ok env (m\<lparr>im_encoder := e\<rparr>) = kept_ok env m" "kept_ok env (m\<lparr>im_state := st\<rparr>) = kept_ok env m"
  "kept_ok env (m\<lparr>im_rx_threads := rx\<rparr>) = kept_ok env m" "kept_ok env (m\<lparr>im_tx_threads := tx\<rparr>) = kept_ok env m"
  "kept_ok env (m\<lparr>im_acks := ak\<rparr>) = kept_ok env m" "kept_ok env (m\<lparr>im_tx_seq := q\<rparr>) = kept_ok env m"
  "kept_ok env (m\<lparr>im_stop_tx := b\<rparr>) = kept_ok env m" "kept_ok env (m\<lparr>im_stop_rx := b\<rparr>) = kept_ok env m"
  "kept_ok env (m\<lparr>im_transmitting := b\<rparr>) = kept_ok env m" "kept_ok env (m\<lparr>im_tx_started := n\<rparr>) = kept_ok env m"
  "kept_ok env (m\<lparr>im_staged_hybrid := x\<rparr>) = kept_ok env m" "kept_ok env (m\<lparr>im_staged_initiator := x\<rparr>) = kept_ok env m"
  "kept_ok env (m\<lparr>im_pending_hybrid := y\<rparr>) = kept_ok env m" "kept_ok env (m\<lparr>im_pending_kx := z\<rparr>) = kept_ok env m"
  "kept_ok env (m\<lparr>im_enrollment_token := tk\<rparr>) = kept_ok env m" "kept_ok env (m\<lparr>im_channel := ch\<rparr>) = kept_ok env m"
  "kept_ok env (m\<lparr>im_heartbeat_seq := q\<rparr>) = kept_ok env m" "kept_ok env (put_on_air air m) = kept_ok env m"
  "kept_ok env (ms_enqueue_relay sealed m) = (id_ok env m \<and> audit_ok env (im_audit m) \<and> engine_ok (im_audio m))"
  by (simp_all add: kept_ok_def id_ok_def put_on_air_def ms_enqueue_relay_def it_enqueue_relay_control_def)

lemma kept_parts: "kept_ok env m \<Longrightarrow> id_ok env m \<and> audit_ok env (im_audit m) \<and> engine_ok (im_audio m)"
  by (simp add: kept_ok_def)

lemma kept_transport:
  "kept_ok env m \<Longrightarrow> length (it_relay_outbound t) \<le> RELAY_OUTBOUND_CAP \<Longrightarrow> kept_ok env (m\<lparr>im_transport := t\<rparr>)"
  "kept_ok env m \<Longrightarrow> engine_ok a \<Longrightarrow> kept_ok env (m\<lparr>im_audio := a\<rparr>)"
  by (simp_all add: kept_ok_def id_ok_def)

lemma kept_relay: "kept_ok env m \<Longrightarrow> length (relay_of m) \<le> RELAY_OUTBOUND_CAP"
  by (simp add: kept_ok_def)

lemma kept_broadcast: "kept_ok env m \<Longrightarrow> kept_ok env (broadcast_control sealed os m)"
  using kept_parts [of env m] by (simp add: broadcast_control_def put_on_air_def id_ok_def)

lemma kept_enqueue: "kept_ok env m \<Longrightarrow> kept_ok env (ms_enqueue_relay sealed m)"
  using kept_parts [of env m] by simp

lemma kept_sealed:
  assumes "kept_ok env m" and "\<And>y m. kept_ok env m \<Longrightarrow> kept_ok env (k y m)"
  shows "kept_ok env (case control_seal env m inner now nonce of (m, None) \<Rightarrow> m | (m, Some y) \<Rightarrow> k y m)"
  using assms kept_seal [OF assms(1)] by (auto split: prod.split option.split)

lemma kept_send_control: "kept_ok env m \<Longrightarrow> kept_ok env (send_control_inner env inner now dr m)"
  unfolding send_control_inner_def by (rule kept_sealed) (auto intro: kept_broadcast)

lemma kept_relay_answer: "kept_ok env m \<Longrightarrow> kept_ok env (relay_answer env inner now n m)"
  using kept_enqueue kept_seal [of env m inner now n]
  by (auto simp del: kept_simps simp: relay_answer_def split: prod.split option.split)

lemma kept_seal_fst: "kept_ok env m \<Longrightarrow> kept_ok env (fst (control_seal env m inner now n))"
  using kept_seal [OF _ prod.collapse [symmetric]] by blast

lemma kept_install: "kept_ok env m \<Longrightarrow> kept_ok env (install_session session m)"
  using kept_relay [of env m] by (simp add: install_session_def it_set_crypto_def kept_transport)

lemma kept_ptt:
  assumes "kept_ok env m"
  shows "kept_ok env (yield_local_tx m)" "kept_ok env (on_remote_ptt_start peer payload now m)"
    "kept_ok env (on_remote_ptt_stop peer payload now m)" "kept_ok env (lan_handle_ptt_control v now m)"
proof -
  have stop: "kept_ok env (m\<lparr>im_audio := stop_recording (im_audio m)\<rparr>)"
    using assms kept_parts [OF assms] by (simp add: kept_transport)
  show "kept_ok env (yield_local_tx m)" using stop by (simp add: yield_local_tx_def kept_ok_def id_ok_def)
  then show "kept_ok env (on_remote_ptt_start peer payload now m)" using assms
    by (simp add: on_remote_ptt_start_def Let_def split: option.split)
  show "kept_ok env (on_remote_ptt_stop peer payload now m)" using assms
    by (simp add: on_remote_ptt_stop_def spawn_ack_def split: option.split)
  show "kept_ok env (lan_handle_ptt_control v now m)" using assms stop
    by (simp add: lan_handle_ptt_control_def spawn_ack_def Let_def kept_ok_def id_ok_def split: option.split)
qed

lemma kept_rekey:
  assumes "kept_ok env m"
  shows "kept_ok env (fst (hybrid_on_confirm env m payload now))" "kept_ok env (fst (hybrid_on_ack env m payload now))"
    "kept_ok env (fst (ios_hybrid_complete env m bs now dr))" "kept_ok env (fst (ios_hybrid_init env m dr))"
    "kept_ok env (fst (ios_hybrid_respond env m bs now dr))" "kept_ok env (fst (ios_hybrid_confirm env m now))"
    "kept_ok env (fst (hybrid_on_init env m payload now dr))"
proof -
  show confirm: "kept_ok env (fst (hybrid_on_confirm env m payload now))" for payload
    using assms kept_relay [OF assms]
    by (auto simp: hybrid_on_confirm_def it_arm_pending_rx_def Let_def intro!: kept_audit kept_transport
        split: option.split)
  then show "kept_ok env (fst (ios_hybrid_confirm env m now))"
    using assms by (simp add: ios_hybrid_confirm_def split: option.split)
  show "kept_ok env (fst (hybrid_on_ack env m payload now))"
    using assms by (auto simp: hybrid_on_ack_def Let_def intro!: kept_audit kept_install split: option.split)
  show "kept_ok env (fst (hybrid_on_init env m payload now dr))"
    using assms by (auto simp: hybrid_on_init_def Let_def intro!: kept_seal_fst split: option.split sum.split prod.split)
qed (use assms in \<open>simp_all add: ios_hybrid_complete_def ios_hybrid_init_def ios_hybrid_respond_def Let_def
    split: option.split sum.split prod.split\<close>)

lemma kept_dispatch: "kept_ok env m \<Longrightarrow> kept_ok env (dispatch_verified_control env v now dr m)"
  unfolding dispatch_verified_control_def Let_def
  by (intro keeps_next [where P = "kept_ok env"] keeps_cases [where P = "kept_ok env"])
    (auto simp del: kept_simps intro: kept_rekey kept_ptt kept_relay_answer kept_enqueue kept_audit)

lemma kept_rx_audio: "kept_ok env m \<Longrightarrow> kept_ok env (rx_audio env j sender compressed m)"
  using kept_parts [of env m]
  by (auto simp: rx_audio_def Let_def intro!: kept_transport split: option.split sum.split prod.split)

lemma kept_relay_frame:
  assumes "kept_ok env m" shows "kept_ok env (fst (process_relay_frame env m d now dr))"
proof -
  obtain m1 r where c: "classify_step env m d now = (m1, r)" by fastforce
  obtain m2 x where o: "open_audio env m1 d = (m2, x)" by fastforce
  note m1 = kept_classify [OF assms c]
  note m2 = kept_open_audio [OF m1 o]
  show ?thesis
    using m1 m2 kept_dispatch [OF m1] kept_parts [OF m2]
    by (cases r; cases x)
      (auto simp: process_relay_frame_def c o Let_def intro!: kept_transport split: prod.split sum.split)
qed

lemma kept_rx_turn:
  assumes "kept_ok env m" shows "kept_ok env (ios_rx_turn env j r now m)"
proof (cases "length (im_rx_threads m) \<le> j \<or> im_stop_rx m \<or> (\<exists>e. it_recv_datagram (im_transport m) r = Inl e)")
  case True
  then show ?thesis using assms by (auto simp: ios_rx_turn_def split: sum.split)
next
  case False
  then obtain raw where raw: "it_recv_datagram (im_transport m) r = Inr raw"
    by (cases "it_recv_datagram (im_transport m) r") auto
  obtain m1 c where cs: "classify_step env m raw now = (m1, c)" by fastforce
  obtain m2 x where o: "open_audio env m1 raw = (m2, x)" by fastforce
  note m1 = kept_classify [OF assms cs]
  note m2 = kept_open_audio [OF m1 o]
  show ?thesis
    using False raw m1 m2 kept_ptt(4) [OF m1]
    by (cases c; cases x) (auto simp: ios_rx_turn_def cs o intro: kept_rx_audio)
qed

lemma kept_tx_turn:
  assumes "kept_ok env m" shows "kept_ok env (ios_tx_turn env i now stamp os m)"
proof -
  obtain a r where read: "read_input_frame (im_audio m) = (a, r)" by fastforce
  have a: "engine_ok a" using read kept_parts [OF assms] engine_ok_ops(3) [of "im_audio m"] by simp
  have t: "length (it_relay_outbound t) \<le> RELAY_OUTBOUND_CAP"
    if "it_send enc (im_transport m) data os = (t, air, x)" for enc data t air x
    using that kept_relay [OF assms]
    by (auto simp: it_send_def multicast_def Let_def split: option.splits prod.splits sum.splits if_splits)
  from kept_parts [OF assms] have stop: "kept_ok env (m\<lparr>im_audio := stop_recording (im_audio m)\<rparr>)"
    using assms by (simp add: kept_transport)
  show ?thesis
    using assms a t stop
    by (auto simp: ios_tx_turn_def read kept_ok_def id_ok_def put_on_air_def Let_def split: prod.split sum.split)
qed

lemma kept_ack: "kept_ok env m \<Longrightarrow> kept_ok env (ack_turn env i t dr m)"
  unfolding ack_turn_def Let_def
  by (rule keeps_cases(1) [where P = "kept_ok env"], rule kept_sealed) (simp_all add: kept_broadcast)

lemma kept_press: "kept_ok env m \<Longrightarrow> kept_ok env (fst (on_ptt_press env m now dr))"
proof -
  assume "kept_ok env m"
  then have "kept_ok env (send_control_inner env inner now dr (m\<lparr>im_floor := f\<rparr>))" for inner f
    by (intro kept_send_control) simp
  then show ?thesis using \<open>kept_ok env m\<close>
    by (auto simp: on_ptt_press_def start_tx_thread_def Let_def kept_ok_def id_ok_def)
qed

lemma kept_release: "kept_ok env m \<Longrightarrow> kept_ok env (on_ptt_release env now dr m)"
proof -
  assume k: "kept_ok env m"
  with kept_parts [OF k] have "kept_ok env (m\<lparr>im_stop_tx := True, im_audio := stop_recording (im_audio m)\<rparr>)"
    by (simp add: kept_ok_def id_ok_def)
  from kept_send_control [OF this] show ?thesis using k
    by (auto simp: on_ptt_release_def Let_def)
qed

lemma kept_set_psk: "kept_ok env m \<Longrightarrow> kept_ok env (ios_set_psk env key pre m)"
  by (auto simp: kept_ok_def id_ok_def ios_set_psk_def it_set_psk_def ControlAuthCodec_new_def room_binding_def Let_def
      split: sum.splits if_splits)

text \<open>Setting the room is followed at once by a new codec, so the room the old codec is bound to does not matter.\<close>

lemma kept_import: "kept_ok env m \<Longrightarrow> kept_ok env (fst (import_session_qr env m qr clock now uuid dr))"
proof -
  assume k: "kept_ok env m"
  have "kept_ok env (ios_set_psk env psk pre (ios_set_channel ch (m\<lparr>im_room_id := Some room\<rparr>)))" for psk pre ch room
    using k by (auto simp: kept_ok_def id_ok_def ios_set_channel_def ios_set_psk_def it_set_psk_def
        ControlAuthCodec_new_def room_binding_def Let_def split: sum.splits if_splits)
  then show ?thesis using k
    by (auto simp: import_session_qr_def Let_def split: option.split sum.split prod.split)
qed

lemma kept_wipe: "kept_ok env m \<Longrightarrow> kept_ok env (wipe_session env now m)"
proof -
  assume "kept_ok env m"
  then have "kept_ok env (audit_note env now ''wipe'' (ascii ''source=in_app'') m)" by simp
  then show ?thesis
    by (auto simp: wipe_session_def kept_ok_def id_ok_def it_set_relay_active_def Let_def)
qed

lemma kept_heartbeat: "kept_ok env m \<Longrightarrow> kept_ok env (fst (relay_heartbeat_frame env m now dr))"
  by (auto simp: relay_heartbeat_frame_def Let_def split: prod.split option.split elim!: kept_seal [rotated])

lemma kept_small:
  assumes "kept_ok env m"
  shows "kept_ok env (fst (ios_key_exchange_init env m dr))" "kept_ok env (fst (ios_key_exchange_complete env m pub dr))"
    "kept_ok env (set_enrollment_token tok m)" "kept_ok env (ios_set_channel ch m)" "kept_ok env (start_listening m)"
    "kept_ok env (ios_disconnect m)" "kept_ok env (ios_shutdown m)" "kept_ok env (fst (process_audio_input xs m))"
    "kept_ok env (fst (get_audio_output n m))" "kept_ok env (fst (ms_poll_relay_outbound m))"
    "kept_ok env (ms_set_relay_active b m)"
proof -
  note parts = kept_parts [OF assms] kept_relay [OF assms]
  have "engine_ok (fst (write_input (im_audio m) xs))" "engine_ok (fst (read_output (im_audio m) n))"
    using parts by simp_all
  then show "kept_ok env (fst (process_audio_input xs m))" "kept_ok env (fst (get_audio_output n m))"
    using assms by (auto simp: process_audio_input_def get_audio_output_def intro!: kept_transport
        split: prod.splits sum.splits)
  show "kept_ok env (fst (ms_poll_relay_outbound m))" "kept_ok env (ms_set_relay_active b m)" "kept_ok env (ios_shutdown m)"
    using assms parts by (auto simp: ms_poll_relay_outbound_def it_poll_relay_outbound_def ms_set_relay_active_def
        it_set_relay_active_def ios_shutdown_def it_stop_def Let_def intro!: kept_transport split: list.split)
qed (use assms kept_parts [OF assms] in \<open>auto simp: ios_key_exchange_init_def ios_key_exchange_complete_def
    set_enrollment_token_def ios_set_channel_def start_listening_def ios_disconnect_def Let_def kept_transport
    intro!: kept_install split: option.split sum.split\<close>)

lemma kept_apply: "kept_ok env m \<Longrightarrow> kept_ok env (ios_apply env ev m)"
  by (cases ev) (simp_all add: kept_press kept_release kept_tx_turn kept_rx_turn kept_ack kept_relay_frame kept_heartbeat
      kept_import kept_set_psk kept_wipe kept_rekey kept_small ios_generate_session_qr_def split: prod.split sum.split)

lemma new_machine_ok:
  assumes "IosMachine_new env so device_id v = Inr m" shows "tx_ok m \<and> kept_ok env m"
  using assms
  by (auto simp: IosMachine_new_def it_start_def IosTransport_new_def tx_ok_def kept_ok_def id_ok_def audit_ok_def
      AuditChain_default_def verify_events_def MAX_EVENTS_def recording_def AudioEngine_new_def engine_ok_def
      split: sum.splits option.splits prod.splits)

lemma new_machine_unpaired:
  assumes "IosMachine_new env so device_id v = Inr m"
  shows "it_crypto (im_transport m) = None" "im_control m = None" "im_air m = []" "it_pending_rx (im_transport m) = None"
  using assms by (auto simp: IosMachine_new_def it_start_def IosTransport_new_def
      split: sum.splits option.splits prod.splits)

lemma run_ok: "tx_ok m \<Longrightarrow> kept_ok env m \<Longrightarrow> tx_ok (ios_run env m evs) \<and> kept_ok env (ios_run env m evs)"
  by (induction evs arbitrary: m) (simp_all add: ios_run_def tx_ok_apply kept_apply)

section \<open>A small instance\<close>

definition demo_audiopus :: "(unit, unit) audiopus" where
  "demo_audiopus = \<lparr>ap_encoder_new = Inr (), ap_set = (\<lambda>e s. Inr e), ap_encode = (\<lambda>e xs n. (e, Inr (3, [1, 2, 3]))),
     ap_decoder_new = Inr (), ap_packet = (\<lambda>bs. if bs = [] then Inl [] else Inr bs),
     ap_decode = (\<lambda>d p n fec. (d, Inr (960, replicate 960 7)))\<rparr>"

definition demo_ios :: "(unit, unit) ios_env" where
  "demo_ios = \<lparr>io_enc = plain_enc, io_dec = plain_dec, io_sha = (\<lambda>_. replicate 32 5), io_hkdf = (\<lambda>i n. take 32 i),
     io_kem = demo_kem, io_to_json = (\<lambda>_. Some []), io_from_json = (\<lambda>_. None), io_b64 = id, io_unb64 = Some,
     io_opus = demo_audiopus\<rparr>"

definition demo_draw :: "u8 \<Rightarrow> ios_draw" where
  "demo_draw b = \<lparr>dr_nonce = replicate 12 b, dr_secret = [b], dr_kem = [b], dr_prefix = replicate 8 b, dr_os = None\<rparr>"

definition demo_sockets :: socket_calls where
  "demo_sockets = \<lparr>so_create = None, so_reuse = None, so_nonblocking = None, so_bind = None, so_join = None\<rparr>"

definition demo_iphone :: "(unit, unit) IosMachine" where
  "demo_iphone = (case IosMachine_new demo_ios demo_sockets 7 9 of Inr m \<Rightarrow> m)"

lemma demo_iphone_new: "IosMachine_new demo_ios demo_sockets 7 9 = Inr demo_iphone"
  by (simp add: demo_iphone_def IosMachine_new_def demo_ios_def demo_audiopus_def demo_sockets_def it_start_def
      OpusEncoder_new_def OpusDecoder_new_def IOS_SETTINGS_def)

section \<open>Properties\<close>

text \<open>
  C8 (safety). Nothing leaves an iOS device in clear or under a stale key: whatever call is made or thread takes a
  turn, in whatever state, each datagram newly multicast and each frame newly in the relay queue is either the
  encryption of something under the audio session that is live at that moment, or an envelope sealed by the control
  codec installed at that moment. An unpaired device therefore sends nothing at all.
\<close>

theorem ios_output_sealed:
  "\<exists>new. im_air (ios_apply env ev m) = im_air m @ new \<and>
     (\<forall>p \<in> set new \<union> (set (relay_of (ios_apply env ev m)) - set (relay_of m)).
        (\<exists>c data. it_crypto (im_transport m) = Some c \<and> snd (encrypt (io_enc env) c data) = Inr p) \<or>
        (\<exists>c inner now nonce. im_control m = Some c \<and> snd (seal_with_rng (io_enc env) c inner now nonce) = Inr p))"
  using apply_emits [of env m ev] unfolding emits_def sealable_def encryptable_def by blast

theorem ios_output_sealed_witness: "im_air (ios_apply demo_ios (Press 5 (demo_draw 1)) demo_iphone) = []"
proof -
  have i: "it_crypto (im_transport demo_iphone) = None" "im_control demo_iphone = None" "im_air demo_iphone = []"
    using new_machine_unpaired [OF demo_iphone_new] by simp_all
  have "\<forall>p \<in> set (im_air (ios_apply demo_ios (Press 5 (demo_draw 1)) demo_iphone)). False"
    using ios_output_sealed [of demo_ios "Press 5 (demo_draw 1)" demo_iphone] unfolding i by auto
  then show ?thesis by (metis list.set_intros(1) neq_Nil_conv)
qed

text \<open>
  C9 (invariant). From start-up, whatever is called, received or scheduled, in any order: the microphone records exactly
  while the device is transmitting; the safety clock runs only then; a transmission that was not told to stop has a
  thread; the control codec seals as this device, with its key and its room; the log verifies and holds at
  most 500 entries; and neither the ring buffers nor the relay queue outgrow their bounds.
\<close>

theorem ios_machine_invariant:
  assumes "IosMachine_new env so device_id v = Inr m0"
  shows "tx_ok (ios_run env m0 evs) \<and> kept_ok env (ios_run env m0 evs)"
  using new_machine_ok [OF assms] run_ok by blast

theorem ios_machine_invariant_witness:
  "tx_ok (ios_run demo_ios demo_iphone [SetPsk (replicate 32 7) (replicate 8 1), Press 5 (demo_draw 1), Wipe 6])"
  using ios_machine_invariant [OF demo_iphone_new] by blast

end
