(* ===== verification/Ios_Props.thy ===== *)
theory Ios_Props
  imports Ios_Runs
begin

text \<open>
  Properties of the iOS client that concern two devices or a whole exchange: arbitration of the floor, pairing, the
  voice link, the rekey, and errors of the code.
\<close>

section \<open>Audio from a device with a low nonce prefix\<close>

text \<open>Whatever begins with a byte below 0x10 is a legacy hint, before anything is decrypted.\<close>

lemma legacy_first:
  assumes "d \<noteq> []" and "d ! 0 < 0x10" shows "classify_step env m d now = (m, LegacyHint (d ! 0))"
  using assms by (simp add: classify_step_def classify_inbound_def)

lemma sealed_first_byte:
  assumes "session_ok s" and "ct \<in> set (oks (fst (run_calls (encrypt enc) s ms)))"
  shows "ct \<noteq> [] \<and> ct ! 0 = cs_nonce_prefix s ! 0"
proof -
  from run_encrypt_nonces [OF assms] obtain i where "take 12 ct = nonce_of s i" by blast
  then have "take 12 ct = cs_nonce_prefix s @ to_le 4 i" by (simp add: nonce_of_def)
  moreover from assms(1) have "length (cs_nonce_prefix s) = 8" by (simp add: session_ok_def)
  ultimately show ?thesis
    by (metis append_is_Nil_conv length_greater_0_conv list.size(3) nth_append nth_take take_Nil zero_less_numeral zero_neq_numeral)
qed

text \<open>
  C36 (error). A sealed audio frame starts with the random nonce prefix of its session. If the first byte of that
  prefix is below 0x10, which happens to one session in sixteen, every frame the session ever seals is taken for a
  legacy hint by the iOS client, on the relay and on the LAN: it is dropped unopened, and the talker is never heard.
\<close>

theorem ios_deaf_to_session:
  assumes "session_ok talker" and "cs_nonce_prefix talker ! 0 < 0x10"
    and "d \<in> set (oks (fst (run_calls (encrypt enc) talker frames)))"
  shows "process_relay_frame env m d now dr = (m, False) \<and>
    (\<not> im_stop_rx m \<longrightarrow> length d \<le> 4096 \<longrightarrow> ios_rx_turn env j (Arrived d a) now m = m)"
proof -
  have d: "d \<noteq> []" "d ! 0 < 0x10" using sealed_first_byte [OF assms(1,3)] assms(2) by simp_all
  show ?thesis
    by (simp add: process_relay_frame_def ios_rx_turn_def it_recv_datagram_def legacy_first [OF d])
qed

theorem ios_deaf_to_session_witness:
  "process_relay_frame demo_ios demo_iphone (3 # replicate 7 0 @ [1, 0, 0, 0, 42, 7, 7, 3] @ replicate 7 0 @ [1, 0, 0, 0, 0, 0]) 5 (demo_draw 1) =
     (demo_iphone, False)"
proof -
  let ?talker = "from_psk (replicate 32 7) (3 # replicate 7 0)"
  have "session_ok ?talker" "cs_nonce_prefix ?talker ! 0 < 0x10"
    by simp (simp add: from_psk_def)
  moreover have
    "3 # replicate 7 0 @ [1, 0, 0, 0, 42, 7, 7, 3] @ replicate 7 0 @ [1, 0, 0, 0, 0, 0] \<in> set (oks (fst (run_calls (encrypt plain_enc) ?talker [[42]])))"
    by code_simp
  ultimately show ?thesis using ios_deaf_to_session by blast
qed

section \<open>Two devices press at once\<close>

lemma classify_open:
  assumes "open_envelope dec c d now = (c', Ok v)"
  shows "classify_inbound dec (Some c) d now = (Some c', Ok (Verified v))"
proof -
  from assms obtain outer where p: "parse_tlv_exact d = Some outer" "dc_opcode outer = OP_AUTHENTICATED"
    by (auto simp: open_envelope_def split: option.splits if_splits)
  then have "3 \<le> length d" "d ! 0 = OP_AUTHENTICATED" "length d = 3 + unat (from_le [d ! 1, d ! 2] :: u16)"
    by (auto simp: parse_tlv_exact_def Let_def split: if_splits)
  with assms show ?thesis
    by (auto simp: classify_inbound_def is_control_tlv_def reject_unauthenticated_privileged_def OP_AUTHENTICATED_def Let_def
        simp del: from_le.simps)
qed

lemma classify_step_open:
  assumes "im_control m = Some c" and "open_envelope (io_dec env) c d now = (c', Ok v)"
  shows "classify_step env m d now = (m\<lparr>im_control := Some c'\<rparr>, Verified v)"
  using assms by (simp add: classify_step_def classify_open)

lemma start_frame:
  "\<exists>p. decode_control_frame (encode_ptt_start_v2 e s em) = Some \<lparr>dc_opcode = OP_PTT_START_V2, dc_payload = p\<rparr> \<and>
     parse_ptt_start_v2 p = Some \<lparr>start_epoch = e, start_seq = s, start_emergency = em\<rparr> \<and>
     length (encode_ptt_start_v2 e s em) = 16"
  by (simp add: encode_ptt_start_v2_def decode_control_frame_def parse_tlv_exact_def encode_tlv_def
      OP_PTT_START_V2_def parse_ptt_start_v2_def codec_simps nth_append_past Let_def)

text \<open>
  A device that may talk: idle, paired, not kept off by the floor, with a control codec that is its own and not worn
  out, under a name other devices accept.
\<close>

definition may_talk :: "('e, 'd) IosMachine \<Rightarrow> ControlAuthCodec \<Rightarrow> u64 \<Rightarrow> bool" where
  "may_talk m c now \<longleftrightarrow>
     \<not> im_transmitting m \<and> is_paired m \<and> \<not> floor_blocks_local (im_floor m) now \<and> im_control m = Some c \<and>
     ca_sender_id c = im_sender_id m \<and> ca_epoch c = im_session_epoch m \<and> length (ca_room_binding c) = 16 \<and>
     im_sender_id m \<noteq> [] \<and> length (im_sender_id m) \<le> 64 \<and> utf8_valid (im_sender_id m) \<and> ca_tx_sequence c + 1 \<noteq> 0"

text \<open>The packet a device put last in the relay queue.\<close>

definition last_sent :: "('e, 'd) IosMachine \<Rightarrow> bytes" where
  "last_sent m = last (relay_of m)"

lemma last_drop_over_cap [simp]: "last (drop_over_cap (q @ [f])) = f" "drop_over_cap (q @ [f]) \<noteq> []"
  by (simp_all add: drop_over_cap_eq last_n_def RELAY_OUTBOUND_CAP_def)

lemma press_announces:
  assumes "may_talk m c now" and "seal_with_rng (io_enc env) c (encode_ptt_start_v2 (im_session_epoch m)
    (sat_add (im_tx_seq m) 1) (fl_self_emergency (im_floor m))) now (dr_nonce dr) = (c1, Inr p)"
  shows "on_ptt_press env m now dr = (fst (on_ptt_press env m now dr), Inr ())"
    "last_sent (fst (on_ptt_press env m now dr)) = p" "im_control (fst (on_ptt_press env m now dr)) = Some c1"
    "im_transmitting (fst (on_ptt_press env m now dr))"
    "im_session_epoch (fst (on_ptt_press env m now dr)) = im_session_epoch m"
    "im_sender_id (fst (on_ptt_press env m now dr)) = im_sender_id m"
    "fl_self_emergency (im_floor (fst (on_ptt_press env m now dr))) = fl_self_emergency (im_floor m)"
    "recording (im_audio (fst (on_ptt_press env m now dr)))"
  using assms
  by (simp_all add: may_talk_def on_ptt_press_def send_control_inner_def control_seal_def start_tx_thread_def Let_def
      clear_reject_reason_def broadcast_control_def ms_enqueue_relay_def put_on_air_def it_enqueue_relay_control_def
      last_sent_def)

text \<open>What the peer does with an announcement it can open.\<close>

lemma hears_start:
  assumes "im_control m = Some c"
    and "open_envelope (io_dec env) c p now = (c', Ok v)" and "vc_inner_frame v = encode_ptt_start_v2 e s em"
    and "im_transmitting m"
  shows "process_relay_frame env m p now dr =
    (if remote_wins (im_session_epoch m) (fl_self_emergency (im_floor m)) e em (im_sender_id m) (vc_sender_id v)
     then (yield_local_tx m)\<lparr>im_control := Some c', im_floor := floor_hold (im_floor m) (vc_sender_id v) STALE_HOLD_MS now\<rparr>
     else m\<lparr>im_control := Some c'\<rparr>, False)"
proof -
  obtain q where q: "decode_control_frame (vc_inner_frame v) = Some \<lparr>dc_opcode = OP_PTT_START_V2, dc_payload = q\<rparr>"
    "parse_ptt_start_v2 q = Some \<lparr>start_epoch = e, start_seq = s, start_emergency = em\<rparr>"
    using start_frame [of e s em] assms(3) by auto
  then show ?thesis
    using assms(4)
    by (simp add: process_relay_frame_def classify_step_open [OF assms(1,2)] dispatch_verified_control_def
        on_remote_ptt_start_def yield_local_tx_def Let_def opcode_defs)
qed

lemma start_sealed:
  assumes "aead_total (io_enc env)" and "may_talk m c now"
  shows "\<exists>p. seal_with_rng (io_enc env) c (encode_ptt_start_v2 (im_session_epoch m) q em) now nonce =
    (c\<lparr>ca_tx_sequence := ca_tx_sequence c + 1\<rparr>, Inr p)"
proof -
  let ?inner = "encode_ptt_start_v2 (im_session_epoch m) q em"
  obtain pl where d: "decode_control_frame ?inner = Some \<lparr>dc_opcode = OP_PTT_START_V2, dc_payload = pl\<rparr>"
    and len: "length ?inner = 16" using start_frame [of "im_session_epoch m" q em] by auto
  note t = assms(2) [unfolded may_talk_def]
  let ?body = "control_body (ca_room_binding c) OP_PTT_START_V2 (ca_sender_id c) (ca_epoch c) (ca_tx_sequence c + 1) now ?inner"
  have "length ?body \<le> 8304" using control_body_length t len by simp
  then have "length ?body < 2 ^ 32" by simp
  from aead_totalD [OF assms(1) this] obtain ct where
    "io_enc env (ca_cipher c) nonce (outer_aad OP_PTT_START_V2) ?body = Some ct" by blast
  then show ?thesis using d len t by (simp add: seal_with_rng_def MAX_INNER_BYTES_def opcode_defs Let_def)
qed

lemma one_yields:
  "ia \<noteq> [] \<Longrightarrow> ib \<noteq> [] \<Longrightarrow> ia \<noteq> ib \<Longrightarrow> remote_wins ea ma eb mb ia ib = (\<not> remote_wins eb mb ea ma ib ia)"
  using channel_floor.total [of "\<lparr>req_epoch = ea, req_emergency = ma, req_peer_id = ia\<rparr>"
      "\<lparr>req_epoch = eb, req_emergency = mb, req_peer_id = ib\<rparr>"]
    channel_floor.asym [of "\<lparr>req_epoch = ea, req_emergency = ma, req_peer_id = ia\<rparr>"
      "\<lparr>req_epoch = eb, req_emergency = mb, req_peer_id = ib\<rparr>"]
  by (auto simp: yields_to_def)

text \<open>The state after a press, as far as the exchange needs it, and what a peer that is talking makes of it.\<close>

lemma press_state:
  assumes "aead_total (io_enc env)" and "may_talk m c now" and "m1 = fst (on_ptt_press env m now dr)"
  shows "im_control m1 = Some (c\<lparr>ca_tx_sequence := ca_tx_sequence c + 1\<rparr>)" "im_transmitting m1" "recording (im_audio m1)"
    "im_session_epoch m1 = im_session_epoch m" "im_sender_id m1 = im_sender_id m"
    "fl_self_emergency (im_floor m1) = fl_self_emergency (im_floor m)"
proof -
  obtain p where p: "seal_with_rng (io_enc env) c (encode_ptt_start_v2 (im_session_epoch m) (sat_add (im_tx_seq m) 1)
      (fl_self_emergency (im_floor m))) now (dr_nonce dr) = (c\<lparr>ca_tx_sequence := ca_tx_sequence c + 1\<rparr>, Inr p)"
    using start_sealed [OF assms(1,2)] by blast
  note a = press_announces [OF assms(2) p]
  show "im_control m1 = Some (c\<lparr>ca_tx_sequence := ca_tx_sequence c + 1\<rparr>)" "im_transmitting m1" "recording (im_audio m1)"
    "im_session_epoch m1 = im_session_epoch m" "im_sender_id m1 = im_sender_id m"
    "fl_self_emergency (im_floor m1) = fl_self_emergency (im_floor m)"
    unfolding assms(3) by (rule a)+
qed

lemma press_heard:
  assumes "aead_correct (io_enc env) (io_dec env)" and "aead_total (io_enc env)" and "may_talk a ca ta"
    and "im_control m = Some c" and "ca_cipher c = ca_cipher ca" and "ca_room_binding c = ca_room_binding ca"
    and "fst (accept (ca_replay c) (im_sender_id a) (im_session_epoch a) (ca_tx_sequence ca + 1))"
    and "length (dr_nonce da) = 12" and "- 30000 \<le> envelope_age t ta" and "envelope_age t ta \<le> 120000"
    and "im_transmitting m"
  shows "\<exists>c'. process_relay_frame env m (last_sent (fst (on_ptt_press env a ta da))) t dr =
    (if remote_wins (im_session_epoch m) (fl_self_emergency (im_floor m)) (im_session_epoch a)
          (fl_self_emergency (im_floor a)) (im_sender_id m) (im_sender_id a)
     then (yield_local_tx m)\<lparr>im_control := Some c', im_floor := floor_hold (im_floor m) (im_sender_id a) STALE_HOLD_MS t\<rparr>
     else m\<lparr>im_control := Some c'\<rparr>, False)"
proof -
  note ma = assms(3) [unfolded may_talk_def]
  let ?inner = "encode_ptt_start_v2 (im_session_epoch a) (sat_add (im_tx_seq a) 1) (fl_self_emergency (im_floor a))"
  from assms(7) ma obtain w where w:
    "accept (ca_replay c) (ca_sender_id ca) (ca_epoch ca) (ca_tx_sequence ca + 1) = (True, w)" by (metis prod.collapse)
  obtain pl where d: "decode_control_frame ?inner = Some \<lparr>dc_opcode = OP_PTT_START_V2, dc_payload = pl\<rparr>"
    and len: "length ?inner = 16" using start_frame by blast
  obtain p where p: "seal_with_rng (io_enc env) ca ?inner ta (dr_nonce da) = (ca\<lparr>ca_tx_sequence := ca_tx_sequence ca + 1\<rparr>, Inr p)"
    and o: "open_envelope (io_dec env) c p t = (c\<lparr>ca_replay := w\<rparr>, Ok \<lparr>vc_sender_id = ca_sender_id ca,
      vc_epoch = ca_epoch ca, vc_sequence = ca_tx_sequence ca + 1, vc_issued_at_ms = ta, vc_inner_frame = ?inner\<rparr>)"
    using seal_open_exchange [OF assms(1,2) _ assms(6,5) _ _ _ _ d _ _ _ assms(8-10) w] ma len
    by (auto simp: opcode_defs)
  have "last_sent (fst (on_ptt_press env a ta da)) = p" by (rule press_announces [OF assms(3) p])
  with hears_start [OF assms(4) o _ assms(11), of "im_session_epoch a" _ "fl_self_emergency (im_floor a)" dr] ma
  show ?thesis by auto
qed

text \<open>
  C7 (safety). Two paired iOS devices press at once, and each then hears the other's announcement: exactly one of
  them keeps talking. The other has stopped its microphone and shows the talker as the owner of the floor.
\<close>

theorem ios_single_talker:
  assumes "aead_correct (io_enc env) (io_dec env)" and "aead_total (io_enc env)"
    and "may_talk a ca ta" and "may_talk b cb tb"
    and "ca_cipher cb = ca_cipher ca" and "ca_room_binding cb = ca_room_binding ca"
    and "im_sender_id a \<noteq> im_sender_id b"
    and "fst (accept (ca_replay cb) (im_sender_id a) (im_session_epoch a) (ca_tx_sequence ca + 1))"
    and "fst (accept (ca_replay ca) (im_sender_id b) (im_session_epoch b) (ca_tx_sequence cb + 1))"
    and "length (dr_nonce da) = 12" and "length (dr_nonce db) = 12"
    and "- 30000 \<le> envelope_age t ta" and "envelope_age t ta \<le> 120000"
    and "- 30000 \<le> envelope_age t tb" and "envelope_age t tb \<le> 120000"
    and "a1 = fst (on_ptt_press env a ta da)" and "b1 = fst (on_ptt_press env b tb db)"
    and "a2 = fst (process_relay_frame env a1 (last_sent b1) t da')"
    and "b2 = fst (process_relay_frame env b1 (last_sent a1) t db')"
  shows "(im_transmitting a2 \<and> recording (im_audio a2) \<and>
          \<not> im_transmitting b2 \<and> \<not> recording (im_audio b2) \<and> fl_owner (im_floor b2) = Some (im_sender_id a)) \<or>
    (im_transmitting b2 \<and> recording (im_audio b2) \<and>
          \<not> im_transmitting a2 \<and> \<not> recording (im_audio a2) \<and> fl_owner (im_floor a2) = Some (im_sender_id b))"
proof -
  note ma = assms(3) [unfolded may_talk_def] and mb = assms(4) [unfolded may_talk_def]
  note sa = press_state [OF assms(2,3,16)] and sb = press_state [OF assms(2,4,17)]
  let ?ea = "fl_self_emergency (im_floor a)" and ?eb = "fl_self_emergency (im_floor b)"
  from press_heard [OF assms(1,2,4) sa(1) _ _ _ assms(11,14,15) sa(2), of da'] assms(5,6,9) sa obtain ca' where
    a2: "a2 = (if remote_wins (im_session_epoch a) ?ea (im_session_epoch b) ?eb (im_sender_id a) (im_sender_id b)
      then (yield_local_tx a1)\<lparr>im_control := Some ca', im_floor := floor_hold (im_floor a1) (im_sender_id b) STALE_HOLD_MS t\<rparr>
      else a1\<lparr>im_control := Some ca'\<rparr>)" unfolding assms(18,17) by auto
  from press_heard [OF assms(1,2,3) sb(1) _ _ _ assms(10,12,13) sb(2), of db'] assms(5,6,8) sb obtain cb' where
    b2: "b2 = (if remote_wins (im_session_epoch b) ?eb (im_session_epoch a) ?ea (im_sender_id b) (im_sender_id a)
      then (yield_local_tx b1)\<lparr>im_control := Some cb', im_floor := floor_hold (im_floor b1) (im_sender_id a) STALE_HOLD_MS t\<rparr>
      else b1\<lparr>im_control := Some cb'\<rparr>)" unfolding assms(19,16) by auto
  have "remote_wins (im_session_epoch a) ?ea (im_session_epoch b) ?eb (im_sender_id a) (im_sender_id b) \<longleftrightarrow>
      \<not> remote_wins (im_session_epoch b) ?eb (im_session_epoch a) ?ea (im_sender_id b) (im_sender_id a)"
    using one_yields ma mb assms(7) by blast
  with sa sb show ?thesis
    unfolding a2 b2 by (simp add: yield_local_tx_def floor_hold_def)
qed

text \<open>Two devices of one room, fresh from pairing.\<close>

definition demo_paired :: "u32 \<Rightarrow> (unit, unit) IosMachine" where
  "demo_paired device_id = (case IosMachine_new demo_ios demo_sockets device_id 9 of
     Inr m \<Rightarrow> ios_set_psk demo_ios (replicate 32 7) (replicate 8 (0x40 + ucast device_id)) m)"

definition demo_control :: "u32 \<Rightarrow> ControlAuthCodec" where
  "demo_control device_id = \<lparr>ca_cipher = replicate 32 7, ca_room_binding = replicate 16 5,
     ca_sender_id = ios_sender_id device_id, ca_epoch = 9, ca_tx_sequence = 0, ca_replay = ReplayWindow_default\<rparr>"

lemma hexdigit_ascii: "is_ascii_hexdigit b \<Longrightarrow> b < 0x80"
  by (auto simp: is_ascii_hexdigit_def is_ascii_digit_def word_less_nat_alt word_le_nat_alt)

lemma sender_id_ok: "ios_sender_id i \<noteq> []" "length (ios_sender_id i) = 12" "utf8_valid (ios_sender_id i)"
proof -
  have "list_all (\<lambda>b. b < 0x80) (ios_sender_id i)"
    using hex_bytes_digits [of "rev (to_le 4 i)"]
    by (auto simp: ios_sender_id_def ascii_def list_all_iff intro: hexdigit_ascii)
  then show "utf8_valid (ios_sender_id i)" by (rule utf8_valid_ascii)
  show "ios_sender_id i \<noteq> []" "length (ios_sender_id i) = 12"
    by (simp_all add: ios_sender_id_def ascii_def length_hex_bytes)
qed

lemma sender_id_inject: "ios_sender_id i = ios_sender_id j \<longleftrightarrow> i = j"
  by (simp add: ios_sender_id_def hex_bytes_inject to_le_inject)

lemma demo_may_talk: "may_talk (demo_paired i) (demo_control i) t"
  using sender_id_ok [of i]
  by (simp add: may_talk_def demo_paired_def demo_control_def IosMachine_new_def demo_ios_def demo_audiopus_def demo_sockets_def
      it_start_def OpusEncoder_new_def OpusDecoder_new_def IOS_SETTINGS_def IosTransport_new_def ios_set_psk_def it_set_psk_def
      is_paired_def it_is_encrypted_def FloorState_new_def floor_blocks_local_def should_block_local_def floor_is_held_def
      ControlAuthCodec_new_def MAX_SENDER_BYTES_def ROOM_BINDING_BYTES_def from_psk_def)

lemma demo_id: "im_sender_id (demo_paired i) = ios_sender_id i" "im_session_epoch (demo_paired i) = 9"
  by (simp_all add: demo_paired_def IosMachine_new_def demo_ios_def demo_audiopus_def demo_sockets_def it_start_def
      OpusEncoder_new_def OpusDecoder_new_def IOS_SETTINGS_def ios_set_psk_def)

theorem ios_single_talker_witness:
  "let a = fst (on_ptt_press demo_ios (demo_paired 7) 5 (demo_draw 1));
       b = fst (on_ptt_press demo_ios (demo_paired 8) 6 (demo_draw 2));
       a2 = fst (process_relay_frame demo_ios a (last_sent b) 20 (demo_draw 3));
       b2 = fst (process_relay_frame demo_ios b (last_sent a) 20 (demo_draw 4))
   in im_transmitting a2 \<noteq> im_transmitting b2"
proof -
  have "aead_correct (io_enc demo_ios) (io_dec demo_ios)" "aead_total (io_enc demo_ios)"
    by (simp_all add: demo_ios_def plain_aead_correct plain_aead_total)
  note t = ios_single_talker [OF this demo_may_talk [of 7 5] demo_may_talk [of 8 6] _ _ _ _ _ _ _ _ _ _ _ refl refl refl refl,
      of "demo_draw 1" "demo_draw 2" 20 "demo_draw 3" "demo_draw 4"]
  show ?thesis unfolding Let_def
    by (rule disjE [OF t])
      (auto simp: demo_control_def demo_id sender_id_inject accept_def ReplayWindow_default_def MAX_REPLAY_SENDERS_def
        demo_draw_def envelope_age_def Let_def)
qed

section \<open>Pairing by a scanned code\<close>

lemma join_own_token: "join_authorized room (Some psk) tok tok \<longleftrightarrow> 8 \<le> length room \<and> length psk = 32"
  by (simp add: join_authorized_def enrollment_token_acceptable_def split: option.split)

text \<open>The registry of a transient session manager after it took a code in.\<close>

lemma fresh_import:
  assumes "importable unb64 k t" and "unb64 (sk_key k) = Some bs"
  shows "import_session from_json unb64 (SessionManager_new name) qr (Some t) cid prefix = (mgr, Inr (ch, c, co)) \<Longrightarrow>
      from_json qr = Some k \<Longrightarrow>
      ch = sk_channel k \<and> get_psk_for_channel unb64 mgr ch (Some t) = Some bs \<and> get_session_id mgr ch = Some (sk_session_id k)"
proof -
  assume i: "import_session from_json unb64 (SessionManager_new name) qr (Some t) cid prefix = (mgr, Inr (ch, c, co))"
    and j: "from_json qr = Some k"
  note k = assms(1) [unfolded importable_def]
  have v: "validate_channel (sk_channel k) = Inr (unat (sk_channel k) - 1)"
    using k by (auto simp: validate_channel_iff)
  have l: "length (sm_channels (SessionManager_new name)) = 8" by (simp add: SessionManager_new_def MAX_CHANNELS_def)
  have e: "ch_key \<lparr>ch_key = imported cid k, ch_group_name = g\<rparr> = imported cid k" for g by simp
  show ?thesis
    using i j k l assms(2) unfolding import_Inr_iff
    by (auto simp: get_psk_slot [OF v] get_session_id_def v imported_def not_less)
qed

lemma import_qr_cases:
  "import_session_qr env m qr clock now uuid dr =
    (case (io_from_json env qr, clock) of
       (Some k, Some t) \<Rightarrow>
         if importable (io_unb64 env) k t \<and> 8 \<le> length (sk_session_id k)
         then (audit_note env now ''enrollment'' (ascii ''ok'')
                 (ios_set_psk env (the (io_unb64 env (sk_key k))) (dr_prefix dr)
                   (ios_set_channel (sk_channel k) (m\<lparr>im_room_id := Some (sk_session_id k)\<rparr>))), Some (sk_channel k))
         else (m, None)
     | _ \<Rightarrow> (m, None))"
proof (cases "\<exists>k t. io_from_json env qr = Some k \<and> clock = Some t \<and> importable (io_unb64 env) k t")
  case True
  then obtain k t bs where k: "io_from_json env qr = Some k" "clock = Some t" "importable (io_unb64 env) k t"
    and bs: "io_unb64 env (sk_key k) = Some bs" "length bs = 32" by (auto simp: importable_def)
  obtain mgr r where i: "import_session (io_from_json env) (io_unb64 env) (SessionManager_new (im_device_name m)) qr clock uuid
      (dr_prefix dr) = (mgr, r)" by fastforce
  moreover have "\<exists>mgr x. import_session (io_from_json env) (io_unb64 env) (SessionManager_new (im_device_name m)) qr clock
      uuid (dr_prefix dr) = (mgr, Inr x)" by (auto simp: import_Inr_iff k bs)
  ultimately obtain ch c co where r: "r = Inr (ch, c, co)" by auto
  from fresh_import [OF k(3) bs(1) i [unfolded r k(2)] k(1)] have
    "ch = sk_channel k" "get_psk_for_channel (io_unb64 env) mgr (sk_channel k) clock = Some bs"
    "get_session_id mgr (sk_channel k) = Some (sk_session_id k)" by (auto simp: k(2))
  with i r k bs show ?thesis by (simp add: import_session_qr_def join_own_token Let_def not_le)
next
  case False
  obtain mgr r where i: "import_session (io_from_json env) (io_unb64 env) (SessionManager_new (im_device_name m)) qr clock uuid
      (dr_prefix dr) = (mgr, r)" by fastforce
  with False have "\<exists>e. r = Inl e"
    by (cases r) (auto simp: import_Inr_iff)
  with i False show ?thesis by (auto simp: import_session_qr_def split: option.split)
qed

text \<open>
  Scanning a code pairs the device exactly when the code parses, is importable at the time of
  the scan and names a session of at least eight characters; the result is its channel. A refused code changes
  nothing. An enrollment token that the device requires plays no part: the code presents the required token itself.
\<close>

theorem ios_import_exact:
  "(snd (import_session_qr env m qr clock now uuid dr) = Some ch \<longleftrightarrow>
     (\<exists>k t. io_from_json env qr = Some k \<and> clock = Some t \<and> importable (io_unb64 env) k t \<and>
        8 \<le> length (sk_session_id k) \<and> ch = sk_channel k)) \<and>
   (snd (import_session_qr env m qr clock now uuid dr) = None \<longrightarrow> fst (import_session_qr env m qr clock now uuid dr) = m)"
  by (cases "io_from_json env qr"; cases clock) (auto simp: import_qr_cases split del: if_split split: if_splits)

text \<open>An instance that reads and prints one code.\<close>

definition demo_code :: SessionKey where
  "demo_code = \<lparr>sk_key = replicate 32 7, sk_device = ios_device_name 7, sk_created_at = 1000, sk_expires_at = 8200,
     sk_session_id = ascii ''room-0001'', sk_channel = 3, sk_group_name = ascii ''g'', sk_cohort_id = ascii ''c''\<rparr>"

definition scan_ios :: "(unit, unit) ios_env" where
  "scan_ios = demo_ios\<lparr>io_to_json := (\<lambda>x. if x = demo_code then Some [1] else None), io_from_json := (\<lambda>_. Some demo_code)\<rparr>"

lemma demo_importable: "importable Some demo_code 5000" "\<not> importable Some demo_code 9000"
  by (simp_all add: importable_def demo_code_def word_le_nat_alt)

lemma scan_fields [simp]:
  "io_unb64 scan_ios = Some" "io_from_json scan_ios qr = Some demo_code" "io_b64 scan_ios = id" "io_sha scan_ios = (\<lambda>_. replicate 32 5)"
  by (simp_all add: scan_ios_def demo_ios_def)

theorem ios_import_exact_witness:
  "snd (import_session_qr scan_ios (set_enrollment_token (Some (ascii ''secret'')) demo_iphone) [1] (Some 5000) 9 [2] (demo_draw 1)) = Some 3 \<and>
   fst (import_session_qr scan_ios demo_iphone [1] (Some 9000) 9 [2] (demo_draw 1)) = demo_iphone"
proof -
  have "8 \<le> length (sk_session_id demo_code)" "sk_channel demo_code = 3" by (simp_all add: demo_code_def ascii_def)
  with ios_import_exact [of scan_ios "set_enrollment_token (Some (ascii ''secret'')) demo_iphone" "[1]" "Some 5000" 9 "[2]" "demo_draw 1" 3]
    ios_import_exact [of scan_ios demo_iphone "[1]" "Some 9000" 9 "[2]" "demo_draw 1"] demo_importable
  show ?thesis by auto
qed

text \<open>What an accepted code leaves in the device.\<close>

lemma scanned_state:
  assumes "import_session_qr env m qr (Some t) now uuid dr = (m1, Some ch)" and "io_from_json env qr = Some k"
    and "io_unb64 env (sk_key k) = Some key" and "im_sender_id m \<noteq> []" and "length (im_sender_id m) \<le> 64"
  shows "sk_channel k = ch \<and> im_channel m1 = ch \<and> im_psk m1 = Some key \<and> im_room_id m1 = Some (sk_session_id k) \<and>
    live_key (im_transport m1) = Some key \<and>
    im_control m1 = Some \<lparr>ca_cipher = key, ca_room_binding = take 16 (io_sha env (sk_session_id k)),
      ca_sender_id = im_sender_id m, ca_epoch = im_session_epoch m, ca_tx_sequence = 0, ca_replay = ReplayWindow_default\<rparr>"
  using assms
  by (auto simp: import_qr_cases ios_set_psk_def ios_set_channel_def audit_note_def ControlAuthCodec_new_def
      MAX_SENDER_BYTES_def ROOM_BINDING_BYTES_def it_set_psk_def live_key_def from_psk_def Let_def split: if_splits)

text \<open>
  C23 (roundtrip). A host shows a code for a channel and a joiner scans it before it expires: both end on that channel,
  in the same room and with the same key, for audio as for control frames, each under its own name; so
  what either seals the other can open.
\<close>

theorem ios_pairing_agrees:
  assumes "b64_ok (io_b64 env) (io_unb64 env)" and "json_ok (io_to_json env) (io_from_json env)"
    and "length key = 32" and "8 \<le> length room" and "unat t < 2 ^ 63" and "t \<le> t'"
    and "ios_generate_session_qr env host ch hours name (Some t) now key room cohort dh = (host', Some code)"
    and "io_from_json env code = Some k" and "t' \<le> sk_expires_at k"
    and "import_session_qr env joiner code (Some t') now' cohort' dj = (joiner', r)"
    and "im_sender_id host \<noteq> []" and "length (im_sender_id host) \<le> 64"
    and "im_sender_id joiner \<noteq> []" and "length (im_sender_id joiner) \<le> 64"
  shows "r = Some ch \<and> (\<forall>m \<in> {host', joiner'}. im_channel m = ch \<and> im_psk m = Some key \<and> im_room_id m = Some room \<and>
      live_key (im_transport m) = Some key) \<and>
    (\<exists>c c'. im_control host' = Some c \<and> im_control joiner' = Some c' \<and> ca_cipher c = key \<and> ca_cipher c' = key \<and>
       ca_room_binding c = ca_room_binding c' \<and> ca_sender_id c = im_sender_id host \<and> ca_sender_id c' = im_sender_id joiner)"
proof -
  obtain mgr where g: "generate_session_qr_with_cohort (io_to_json env) (io_b64 env) (SessionManager_new (im_device_name host)) ch
      hours name None (Some t) key room cohort = (mgr, Inr code)"
    and host': "host' = fst (import_session_qr env host code (Some t) now cohort dh)"
    using assms(7) by (auto simp: ios_generate_session_qr_def generate_session_qr_def split: prod.splits sum.splits)
  from generate_Inr [OF g] obtain n idx s where
    n: "Some t = Some n" and v: "validate_channel ch = Inr idx" and js: "io_to_json env s = Some code" and
    s': "sk_key s = io_b64 env key" "sk_channel s = ch" "sk_created_at s = n"
      "sk_expires_at s = n + ucast (session_hours hours) * 3600" "sk_session_id s = room" by this
  note s = s' [folded option.inject [THEN iffD1, OF n]]
  have k: "k = s" using js assms(2,8) by (simp add: json_ok_def)
  have slot: "slot_ok (io_unb64 env) idx \<lparr>ch_key = s, ch_group_name = []\<rparr>"
    using slot_ok_generated [OF assms(5,1,3)] v s by simp
  have at: "importable (io_unb64 env) s u" if "u \<le> sk_expires_at s" for u
    using slot v s that by (auto simp: importable_def slot_ok_def validate_channel_iff)
  have "t \<le> sk_expires_at s" using assms(6,9) k by simp
  then have h: "import_session_qr env host code (Some t) now cohort dh = (host', Some ch)"
    using assms(4,8) at s k by (simp add: host' import_qr_cases)
  have j: "r = Some ch" "import_session_qr env joiner code (Some t') now' cohort' dj = (joiner', Some ch)"
    using assms(4,8,9,10) at s k by (simp_all add: import_qr_cases)
  have "io_unb64 env (sk_key k) = Some key" using assms(1) s(1) k by (simp add: b64_ok_def)
  from scanned_state [OF h assms(8) this assms(11,12)] scanned_state [OF j(2) assms(8) this assms(13,14)] j(1) s k
  show ?thesis by auto
qed

theorem ios_pairing_agrees_witness:
  "let host = fst (ios_generate_session_qr scan_ios (demo_paired 7) 3 2 (ascii ''g'') (Some 1000) 9 (replicate 32 7)
          (ascii ''room-0001'') (ascii ''c'') (demo_draw 1));
       joiner = fst (import_session_qr scan_ios (demo_paired 8) [1] (Some 5000) 9 [2] (demo_draw 2))
   in im_room_id host = im_room_id joiner \<and> live_key (im_transport host) = live_key (im_transport joiner)"
proof -
  have name: "im_device_name (demo_paired 7) = ios_device_name 7"
    by (simp add: demo_paired_def IosMachine_new_def demo_ios_def demo_audiopus_def demo_sockets_def it_start_def
        OpusEncoder_new_def OpusDecoder_new_def IOS_SETTINGS_def ios_set_psk_def)
  have "snd (ios_generate_session_qr scan_ios (demo_paired 7) 3 2 (ascii ''g'') (Some 1000) 9 (replicate 32 7)
          (ascii ''room-0001'') (ascii ''c'') (demo_draw 1)) = Some [1]"
    by (simp add: ios_generate_session_qr_def generate_session_qr_def generate_session_qr_with_cohort_def
        validate_channel_def MAX_CHANNELS_def SessionManager_new_def MAX_SESSION_HOURS_def max_def min_def word_le_nat_alt
        name Let_def) (simp add: scan_ios_def demo_code_def)
  then obtain host where host: "ios_generate_session_qr scan_ios (demo_paired 7) 3 2 (ascii ''g'') (Some 1000) 9 (replicate 32 7)
          (ascii ''room-0001'') (ascii ''c'') (demo_draw 1) = (host, Some [1])" by (metis prod.collapse)
  obtain joiner r where joiner: "import_session_qr scan_ios (demo_paired 8) [1] (Some 5000) 9 [2] (demo_draw 2) = (joiner, r)"
    by fastforce
  have ok: "b64_ok (io_b64 scan_ios) (io_unb64 scan_ios)" "json_ok (io_to_json scan_ios) (io_from_json scan_ios)"
    by (simp_all add: b64_ok_def json_ok_def) (simp add: scan_ios_def)
  have "(1000 :: u64) \<le> 5000" "(5000 :: u64) \<le> sk_expires_at demo_code" "8 \<le> length (ascii ''room-0001'')"
    by (simp_all add: demo_code_def word_le_nat_alt ascii_def)
  with ios_pairing_agrees [OF ok _ _ _ _ host _ _ joiner, of demo_code] show ?thesis
    by (simp add: demo_id sender_id_ok host joiner)
qed

section \<open>Wiping\<close>

lemma not_control: "d \<noteq> [] \<Longrightarrow> 0x20 < d ! 0 \<Longrightarrow> classify_step env m d now = (m, NotControl)"
proof -
  assume d: "d \<noteq> []" "0x20 < d ! 0"
  then have "\<not> d ! 0 < 0x10" "\<not> d ! 0 \<le> 0x20" by (simp_all add: word_less_nat_alt word_le_nat_alt)
  with d(1) show ?thesis by (simp add: classify_step_def classify_inbound_def is_control_tlv_def Let_def)
qed

text \<open>A packet no key opened yet that is authentic under the staged session.\<close>

lemma staged_opens:
  assumes "it_crypto t = None" and "it_pending_rx t = Some p" and "session_ok p"
    and "authentic dec (cs_cipher p) d = Some pt" and "take 12 d \<notin> set (seen_order p)"
  shows "\<exists>p'. it_open_sealed dec t d = (t\<lparr>it_pending_rx := None, it_crypto := Some p'\<rparr>, Some pt) \<and> cs_cipher p' = cs_cipher p"
proof -
  have "fst (note_nonce (take 12 d) p)" using replay.acc_iff [OF assms(3)] assms(5) by simp
  then show ?thesis
    using assms(1,2,4) by (auto simp: it_open_sealed_def decrypt_cases)
qed

lemma open_audio_transport: "im_transport (fst (open_audio env m d)) = fst (it_open_sealed (io_dec env) (im_transport m) d)"
  by (auto simp: open_audio_def Let_def split: prod.split option.split outcome.split)

lemma relay_audio_transport:
  assumes "classify_step env m d now = (m, NotControl)"
  shows "im_transport (fst (process_relay_frame env m d now dr)) = fst (it_open_sealed (io_dec env) (im_transport m) d)"
  using open_audio_transport [of env m d]
  by (auto simp: process_relay_frame_def assms Let_def split: prod.split option.split sum.split)

lemma wiped_transport:
  "im_transport (wipe_session env now m) =
     (im_transport m)\<lparr>it_crypto := None, it_relay_active := False, it_relay_outbound := []\<rparr>"
  by (simp add: wipe_session_def it_set_relay_active_def it_clear_crypto_def audit_note_def Let_def)

text \<open>
  C37 (error). Wiping does not remove a session that a rekey has staged for receiving: the wiped device is unpaired, but
  the next packet of the peer under the staged key is opened and makes that key the live one, so the device is paired
  again.
\<close>

theorem ios_wipe_keeps_staged_key:
  assumes "it_pending_rx (im_transport m) = Some p" and "session_ok p"
    and "authentic (io_dec env) (cs_cipher p) d = Some pt" and "take 12 d \<notin> set (seen_order p)" and "0x20 < d ! 0"
    and "w = wipe_session env now m"
  shows "\<not> is_paired w \<and> is_paired (fst (process_relay_frame env w d t dr)) \<and>
    live_key (im_transport (fst (process_relay_frame env w d t dr))) = Some (cs_cipher p)"
proof -
  have ne: "d \<noteq> []" using assms(3) by (auto simp: authentic_def)
  obtain p' where "it_open_sealed (io_dec env) (im_transport w) d =
      ((im_transport w)\<lparr>it_pending_rx := None, it_crypto := Some p'\<rparr>, Some pt)" "cs_cipher p' = cs_cipher p"
    using staged_opens [of "im_transport w" p "io_dec env" d pt] assms wiped_transport [of env now m] by auto
  then show ?thesis
    by (simp add: relay_audio_transport [OF not_control [OF ne assms(5)]] is_paired_def it_is_encrypted_def live_key_def
        assms(6) wiped_transport)
qed

theorem ios_wipe_keeps_staged_key_witness:
  "let m = demo_iphone\<lparr>im_transport := it_arm_pending_rx (im_transport demo_iphone) (from_psk (replicate 32 9) (replicate 8 1))\<rparr>;
       d = replicate 12 0x40 @ [42] @ plain_tag (replicate 32 9) (replicate 12 0x40) []
   in is_paired (fst (process_relay_frame demo_ios (wipe_session demo_ios 5 m) d 6 (demo_draw 1)))"
proof -
  let ?p = "from_psk (replicate 32 9) (replicate 8 1)"
  let ?m = "demo_iphone\<lparr>im_transport := it_arm_pending_rx (im_transport demo_iphone) ?p\<rparr>"
  let ?d = "replicate 12 0x40 @ [42] @ plain_tag (replicate 32 9) (replicate 12 0x40) []"
  have "it_pending_rx (im_transport ?m) = Some ?p" by (simp add: it_arm_pending_rx_def)
  moreover have "session_ok ?p" by simp
  moreover have "authentic (io_dec demo_ios) (cs_cipher ?p) ?d = Some [42]"
    by (simp add: authentic_def demo_ios_def plain_dec_def from_psk_def)
  moreover have "take 12 ?d \<notin> set (seen_order ?p)" by (simp add: seen_order_def from_psk_def new_replay_window_def)
  moreover have "0x20 < ?d ! 0" by (simp add: word_less_nat_alt nth_append)
  ultimately show ?thesis using ios_wipe_keeps_staged_key [OF _ _ _ _ _ refl] unfolding Let_def by blast
qed

text \<open>The steps of the microphone and of the transmit threads.\<close>

definition talk_step :: "ios_event \<Rightarrow> bool" where
  "talk_step ev \<longleftrightarrow> (case ev of TxTurn _ _ _ _ \<Rightarrow> True | AudioIn _ \<Rightarrow> True | _ \<Rightarrow> False)"

lemma unclocked_step:
  assumes "talk_step ev" and "im_tx_started m = 0" and "\<not> im_stop_tx m"
  shows "im_tx_started (ios_apply env ev m) = 0 \<and> \<not> im_stop_tx (ios_apply env ev m) \<and>
    im_transmitting (ios_apply env ev m) = im_transmitting m \<and> im_tx_threads (ios_apply env ev m) = im_tx_threads m \<and>
    recording (im_audio (ios_apply env ev m)) = recording (im_audio m)"
  using assms
  by (cases ev) (auto simp: talk_step_def ios_tx_turn_def process_audio_input_def put_on_air_def write_input_def
      read_input_frame_def recording_def Let_def split: prod.split sum.split)

lemma unclocked_run:
  assumes "list_all talk_step evs" and "im_tx_started m = 0" and "\<not> im_stop_tx m"
  shows "\<not> im_stop_tx (ios_run env m evs) \<and> im_transmitting (ios_run env m evs) = im_transmitting m \<and>
    im_tx_threads (ios_run env m evs) = im_tx_threads m \<and> recording (im_audio (ios_run env m evs)) = recording (im_audio m)"
  using assms
proof (induction evs arbitrary: m)
  case (Cons ev evs)
  with unclocked_step [of ev m env] Cons.IH [of "ios_apply env ev m"] show ?case by (simp add: ios_run_def)
qed (simp add: ios_run_def)

text \<open>
  The safety limit ends a transmission at the first turn of its thread after 60 seconds; but a wipe while the
  device is transmitting resets the clock of the limit and stops nothing: once the device is paired again, the same
  threads go on sending the microphone, however much time passes.
\<close>

theorem ios_wipe_defeats_limit:
  assumes "im_transmitting m" and "recording (im_audio m)" and "\<not> im_stop_tx m" and "i < length (im_tx_threads m)"
    and "0 < im_tx_started m" and "60000 \<le> sat_sub now (im_tx_started m)"
    and "w = ios_set_psk env key pre (wipe_session env now' m)" and "list_all talk_step evs"
  shows "(\<not> im_transmitting (ios_tx_turn env i now stamp os m) \<and> \<not> recording (im_audio (ios_tx_turn env i now stamp os m))) \<and>
    (is_paired w \<and> im_transmitting (ios_run env w evs) \<and> recording (im_audio (ios_run env w evs)) \<and>
       im_tx_threads (ios_run env w evs) = im_tx_threads m \<and> \<not> im_stop_tx (ios_run env w evs))"
proof
  show "\<not> im_transmitting (ios_tx_turn env i now stamp os m) \<and> \<not> recording (im_audio (ios_tx_turn env i now stamp os m))"
    using assms(3-6) by (simp add: ios_tx_turn_def DEFAULT_MAX_TX_MS_def)
  have w: "im_tx_started w = 0" "im_stop_tx w = im_stop_tx m" "im_transmitting w = im_transmitting m"
    "im_tx_threads w = im_tx_threads m" "im_audio w = im_audio m" "is_paired w"
    by (simp_all add: assms(7) ios_set_psk_def wipe_session_def audit_note_def is_paired_def it_is_encrypted_def it_set_psk_def
        Let_def)
  with unclocked_run [OF assms(8), of w env] assms(1-3) show
    "is_paired w \<and> im_transmitting (ios_run env w evs) \<and> recording (im_audio (ios_run env w evs)) \<and>
       im_tx_threads (ios_run env w evs) = im_tx_threads m \<and> \<not> im_stop_tx (ios_run env w evs)"
    by simp
qed

text \<open>An accepted press: what it sets.\<close>

lemma send_control_fields [simp]:
  "im_channel (send_control_inner env inner now dr m) = im_channel m"
  "im_tx_threads (send_control_inner env inner now dr m) = im_tx_threads m"
  by (auto simp: send_control_inner_def control_seal_def broadcast_control_def ms_enqueue_relay_def put_on_air_def
      split: option.split sum.split prod.split)

lemma press_accepted:
  assumes "snd (on_ptt_press env m now dr) = Inr ()" and "m1 = fst (on_ptt_press env m now dr)"
  shows "im_transmitting m1" "\<not> im_stop_tx m1" "im_tx_started m1 = now" "im_tx_threads m1 = im_tx_threads m @ [im_channel m]"
    "recording (im_audio m1)" "im_channel m1 = im_channel m"
  using assms by (auto simp: on_ptt_press_def start_tx_thread_def Let_def split: if_splits)

theorem ios_wipe_defeats_limit_witness:
  "let m = fst (on_ptt_press demo_ios (demo_paired 7) 5 (demo_draw 1));
       w = ios_set_psk demo_ios (replicate 32 9) (replicate 8 1) (wipe_session demo_ios 6 m)
   in recording (im_audio (ios_run demo_ios w [AudioIn (replicate 960 1), TxTurn 0 (5 + 100000) 9 None]))"
proof -
  let ?m = "fst (on_ptt_press demo_ios (demo_paired 7) 5 (demo_draw 1))"
  have "aead_total (io_enc demo_ios)" by (simp add: demo_ios_def plain_aead_total)
  from start_sealed [OF this demo_may_talk [of 7 5]] obtain p where
    "snd (on_ptt_press demo_ios (demo_paired 7) 5 (demo_draw 1)) = Inr ()"
    using press_announces(1) [OF demo_may_talk [of 7 5]] by (metis snd_conv)
  note a = press_accepted [OF this refl]
  have "0 < length (im_tx_threads ?m)" "0 < im_tx_started ?m" unfolding a(3,4) by simp_all
  moreover have "60000 \<le> sat_sub 60005 (im_tx_started ?m)" unfolding a(3) by (simp add: sat_sub_def word_le_nat_alt)
  moreover have "list_all talk_step [AudioIn (replicate 960 1), TxTurn 0 (5 + 100000) 9 None]" by (simp add: talk_step_def)
  ultimately show ?thesis
    unfolding Let_def using ios_wipe_defeats_limit [OF a(1,5,2) _ _ _ refl] by blast
qed

end
