(* ===== verification/Ios_Link.thy ===== *)
theory Ios_Link
  imports Ios_Props
begin

text \<open>
  Speech between two iOS devices over the relay, from the microphone of one to the output ring of the other: the whole
  path refines encoding and decoding alone.
\<close>

section \<open>The link\<close>

text \<open>
  A frame of the microphone, a turn of transmit thread \<open>i\<close>, the poll of the relay queue, and the arrival at the peer.
\<close>

type_synonym hop_in = "pcm \<times> u64 \<times> u64 \<times> u64 \<times> ios_draw"

definition ios_hop ::
  "('e, 'd) ios_env \<Rightarrow> nat \<Rightarrow> ('e, 'd) IosMachine \<times> ('e, 'd) IosMachine \<Rightarrow> hop_in \<Rightarrow>
   ('e, 'd) IosMachine \<times> ('e, 'd) IosMachine" where
  "ios_hop env i ab x =
     (case (ab, x) of ((a, b), (samples, now, stamp, t, dr)) \<Rightarrow>
        let a = fst (process_audio_input samples a);
            a = ios_tx_turn env i now stamp None a
        in case ms_poll_relay_outbound a of
             (a, None) \<Rightarrow> (a, b)
           | (a, Some p) \<Rightarrow> (a, fst (process_relay_frame env b p t dr)))"

text \<open>The reference: the two codecs with nothing between them.\<close>

fun codec_only :: "('e, 'd) audiopus \<Rightarrow> 'e \<Rightarrow> 'd \<Rightarrow> pcm list \<Rightarrow> pcm" where
  "codec_only ap e d [] = []"
| "codec_only ap e d (xs # xss) =
     (case ios_encode ap e xs of
        (e, Inl _) \<Rightarrow> codec_only ap e d xss
      | (e, Inr encoded) \<Rightarrow>
          (case ios_decode ap d encoded of
             (d, Inl _) \<Rightarrow> codec_only ap e d xss
           | (d, Inr samples) \<Rightarrow> samples @ codec_only ap e d xss))"

text \<open>
  The talker is in mid-transmission with its relay queue drained; the listener shares key and channel, is another
  device, and has seen none of the nonces to come. The first byte of the nonce prefix is one that no control frame
  begins with.
\<close>

definition talking :: "('e, 'd) IosMachine \<Rightarrow> nat \<Rightarrow> u8 \<Rightarrow> CryptoSession \<Rightarrow> u64 \<Rightarrow> bool" where
  "talking a i ch c t0 \<longleftrightarrow>
     i < length (im_tx_threads a) \<and> im_tx_threads a ! i = ch \<and> \<not> im_stop_tx a \<and> im_tx_started a = t0 \<and>
     ae_input (im_audio a) = [] \<and> it_relay_active (im_transport a) \<and> relay_of a = [] \<and>
     it_crypto (im_transport a) = Some c \<and> session_ok c \<and> 0x20 < cs_nonce_prefix c ! 0 \<and>
     length (im_sender_id a) \<le> 32 \<and> utf8_valid (im_sender_id a)"

definition listening :: "('e, 'd) IosMachine \<Rightarrow> u8 \<Rightarrow> rstring \<Rightarrow> CryptoSession \<Rightarrow> bool" where
  "listening b ch talker c \<longleftrightarrow>
     im_channel b = ch \<and> im_sender_id b \<noteq> talker \<and>
     (\<exists>s. it_crypto (im_transport b) = Some s \<and> cs_cipher s = cs_cipher c \<and> session_ok s \<and>
        (\<forall>n. cs_nonce_counter c < n \<longrightarrow> nonce_of c n \<notin> set (seen_order s)))"

definition in_time :: "u64 \<Rightarrow> hop_in \<Rightarrow> bool" where
  "in_time t0 x \<longleftrightarrow> (case x of (samples, now, _) \<Rightarrow> length samples = 960 \<and> \<not> (0 < t0 \<and> 60000 \<le> sat_sub now t0))"

section \<open>One frame\<close>

lemma capture:
  assumes "ae_input (im_audio a) = []" and "length samples = 960"
  shows "fst (process_audio_input samples a) = a\<lparr>im_audio := (im_audio a)\<lparr>ae_input := samples\<rparr>\<rparr>"
  using assms by (simp add: process_audio_input_def write_input_def push_slice_def RING_BUFFER_SIZE_def
      IOS_SAMPLE_RATE_def split: prod.split sum.split)

lemma encoded_short: "ios_encode ap e xs = (e', Inr enc) \<Longrightarrow> length enc \<le> 4000"
  by (auto simp: ios_encode_def out_buffer_def MAX_OPUS_PACKET_def split: if_splits prod.splits sum.splits)

lemma decoded_short: "ios_decode ap d enc = (d', Inr samples) \<Longrightarrow> length samples \<le> 960"
  by (auto simp: ios_decode_def out_buffer_def IOS_FRAME_SIZE_def split: prod.splits sum.splits)

text \<open>The turn of the talker's thread, and the poll after it.\<close>

lemma talker_turn:
  assumes t: "talking a i ch c t0" and x: "in_time t0 (samples, now, stamp, t, dr)"
    and a1: "a1 = ios_tx_turn env i now stamp None (fst (process_audio_input samples a))"
  shows "ios_encode (io_opus env) (im_encoder a) samples = (e, Inl err) \<Longrightarrow>
      talking a1 i ch c t0 \<and> im_encoder a1 = e \<and> im_sender_id a1 = im_sender_id a"
    and "ios_encode (io_opus env) (im_encoder a) samples = (e, Inr enc) \<Longrightarrow>
      encrypt (io_enc env) c (pack_wire_frame ch SUBCH_MAIN (im_sender_id a) (im_device_name a) stamp enc) = (c1, Inr p) \<Longrightarrow>
      \<exists>a2. ms_poll_relay_outbound a1 = (a2, Some p) \<and> talking a2 i ch c1 t0 \<and> im_encoder a2 = e \<and>
        im_sender_id a2 = im_sender_id a"
proof -
  note ta = t [unfolded talking_def]
  have len: "length samples = 960" and run: "\<not> (0 < t0 \<and> DEFAULT_MAX_TX_MS \<le> sat_sub now t0)"
    using x by (auto simp: in_time_def DEFAULT_MAX_TX_MS_def)
  have cap: "fst (process_audio_input samples a) = a\<lparr>im_audio := (im_audio a)\<lparr>ae_input := samples\<rparr>\<rparr>"
    using capture ta len by blast
  have read: "read_input_frame ((im_audio a)\<lparr>ae_input := samples\<rparr>) = (im_audio a, Inr (AudioFrame_new samples))"
    using ta len by (cases "im_audio a") (simp add: read_input_Inr)
  show "talking a1 i ch c t0 \<and> im_encoder a1 = e \<and> im_sender_id a1 = im_sender_id a"
    if "ios_encode (io_opus env) (im_encoder a) samples = (e, Inl err)"
    using that ta run read by (simp add: a1 cap ios_tx_turn_def talking_def AudioFrame_new_def)
  assume enc: "ios_encode (io_opus env) (im_encoder a) samples = (e, Inr enc)"
    and cry: "encrypt (io_enc env) c (pack_wire_frame ch SUBCH_MAIN (im_sender_id a) (im_device_name a) stamp enc) = (c1, Inr p)"
  have "drop_over_cap [p] = [p]" by (simp add: drop_over_cap_small RELAY_OUTBOUND_CAP_def)
  then show "\<exists>a2. ms_poll_relay_outbound a1 = (a2, Some p) \<and> talking a2 i ch c1 t0 \<and> im_encoder a2 = e \<and>
        im_sender_id a2 = im_sender_id a"
    using ta run read enc cry encrypt_frame [OF cry]
    by (simp add: a1 cap ios_tx_turn_def talking_def AudioFrame_new_def it_send_def Let_def put_on_air_def
        ms_poll_relay_outbound_def it_poll_relay_outbound_def split: prod.split)
qed

text \<open>What the listener opens.\<close>

lemma wire_read:
  assumes "length talker \<le> 32" and "utf8_valid talker"
  shows "\<exists>sub n ts. unpack_wire_frame (pack_wire_frame ch SUBCH_MAIN talker name stamp enc) =
    Ok (ch, sub, talker, n, ts, enc)"
  using assms unpack_pack_legacy [of talker "take 64 name" ch SUBCH_MAIN stamp enc]
  by (simp add: unpack_wire_frame_def pack_wire_frame_tail tail_frame_def)

lemma decrypts_next:
  assumes "aead_correct enc dec" and "session_ok c" and "encrypt enc c m = (c1, Inr p)"
    and "cs_cipher s = cs_cipher c" and "session_ok s"
    and fresh: "\<forall>n. cs_nonce_counter c < n \<longrightarrow> nonce_of c n \<notin> set (seen_order s)"
  shows "\<exists>s1. decrypt dec s p = (s1, Inr m) \<and> cs_cipher s1 = cs_cipher c1 \<and> session_ok s1 \<and>
    (\<forall>n. cs_nonce_counter c1 < n \<longrightarrow> nonce_of c1 n \<notin> set (seen_order s1))"
proof -
  let ?k = "cs_nonce_counter c + 1"
  obtain ct where ct: "enc (cs_cipher c) (nonce_of c ?k) [] m = Some ct" and p: "p = nonce_of c ?k @ ct"
    and c1: "c1 = c\<lparr>cs_nonce_counter := ?k\<rparr>" and max: "cs_nonce_counter c \<noteq> -1"
    using assms(3) by (auto simp: encrypt_Inr_iff)
  have n12: "take 12 p = nonce_of c ?k" "drop 12 p = ct" using length_nonce_of [OF assms(2), of ?k] by (simp_all add: p)
  have auth: "authentic dec (cs_cipher s) p = Some m"
    using aead_correctD [OF assms(1) ct] n12 length_nonce_of [OF assms(2), of ?k] assms(4) by (simp add: authentic_def p)
  have step: "cs_nonce_counter c < ?k" using max by (simp add: word_less_nat_alt u32_succ)
  with fresh have new: "nonce_of c ?k \<notin> set (seen_order s)" by blast
  obtain s1 where s1: "note_nonce (nonce_of c ?k) s = (True, s1)"
    using replay.acc_iff [OF assms(5), of "nonce_of c ?k"] new by (metis prod.collapse)
  have open_: "decrypt dec s p = (s1, Inr m)" using auth s1 by (simp add: decrypt_cases n12)
  have seen: "set (seen_order s1) \<subseteq> insert (nonce_of c ?k) (set (seen_order s))"
    using replay.acc_recent [OF assms(5), of "nonce_of c ?k"] s1 new set_last_n_subset by fastforce
  have "nonce_of c1 n \<notin> set (seen_order s1)" if "?k < n" for n
  proof -
    have "nonce_of c n \<noteq> nonce_of c ?k" using that nonce_of_inject [OF assms(2,2)] by auto
    moreover have "nonce_of c n \<notin> set (seen_order s)" using fresh less_trans [OF step that] by blast
    moreover have "nonce_of c1 n = nonce_of c n" by (simp add: c1 nonce_of_def)
    ultimately show ?thesis using seen by auto
  qed
  moreover have "session_ok s1" "cs_cipher s1 = cs_cipher s"
    using replay.acc_inv [OF assms(5), of "nonce_of c ?k"] s1 note_nonce_frame(1) [of "nonce_of c ?k" s] by simp_all
  ultimately show ?thesis using open_ assms(4) by (intro exI [of _ s1]) (simp add: c1)
qed

lemma listener_hears:
  assumes "aead_correct (io_enc env) (io_dec env)" and l: "listening b ch talker c" and ok: "session_ok c" "0x20 < cs_nonce_prefix c ! 0"
    and id: "length talker \<le> 32" "utf8_valid talker"
    and p: "encrypt (io_enc env) c (pack_wire_frame ch SUBCH_MAIN talker name stamp enc) = (c1, Inr p)"
    and d: "ios_decode (io_opus env) (im_decoder b) enc = (d, r)" and b1: "b1 = fst (process_relay_frame env b p t dr)"
  shows "listening b1 ch talker c1 \<and> im_decoder b1 = d \<and>
    (case r of Inl _ \<Rightarrow> im_audio b1 = im_audio b
     | Inr samples \<Rightarrow> im_audio b1 = fst (write_output_frame (im_audio b) (AudioFrame_new samples)) \<and> fl_owner (im_floor b1) = Some talker)"
proof -
  obtain s where s: "im_channel b = ch" "im_sender_id b \<noteq> talker" "it_crypto (im_transport b) = Some s"
    "cs_cipher s = cs_cipher c" "session_ok s" "\<forall>n. cs_nonce_counter c < n \<longrightarrow> nonce_of c n \<notin> set (seen_order s)"
    using l by (auto simp: listening_def)
  from decrypts_next [OF assms(1) ok(1) p s(4-6)] obtain s1 where
    o': "decrypt (io_dec env) s p = (s1, Inr (pack_wire_frame ch SUBCH_MAIN talker name stamp enc))" and
    s1: "cs_cipher s1 = cs_cipher c1" "session_ok s1" "\<forall>n. cs_nonce_counter c1 < n \<longrightarrow> nonce_of c1 n \<notin> set (seen_order s1)"
    by blast
  have o: "it_open_sealed (io_dec env) (im_transport b) p = ((im_transport b)\<lparr>it_crypto := Some s1\<rparr>,
      Some (pack_wire_frame ch SUBCH_MAIN talker name stamp enc))" using o' s(3) by (simp add: it_open_sealed_def)
  have first: "p \<noteq> []" "0x20 < p ! 0"
    using p ok by (auto simp: encrypt_Inr_iff nonce_of_def session_ok_def nth_append)
  obtain sub n ts where w: "unpack_wire_frame (pack_wire_frame ch SUBCH_MAIN talker name stamp enc) = Ok (ch, sub, talker, n, ts, enc)"
    using wire_read [OF id] by blast
  have a: "open_audio env b p = (b\<lparr>im_transport := (im_transport b)\<lparr>it_crypto := Some s1\<rparr>\<rparr>, Some (talker, enc))"
    using s(1,2) by (simp add: open_audio_def o w)
  show ?thesis
    using s(1,2) s1 d
    by (auto simp: b1 process_relay_frame_def not_control [OF first] a listening_def floor_hold_def Let_def split: sum.split)
qed

section \<open>The whole utterance\<close>

lemma wire_short: "length (pack_wire_frame ch sub talker name stamp enc) \<le> 108 + length enc"
  by (simp add: pack_wire_frame_tail length_wire_tail)

text \<open>One hop: the sessions stay in step and the output grows by what the codecs alone would give.\<close>

lemma hop_step:
  assumes "aead_correct (io_enc env) (io_dec env)" and "aead_total (io_enc env)"
    and t: "talking a i ch c t0" and l: "listening b ch (im_sender_id a) c" and x: "in_time t0 x"
    and nonces: "cs_nonce_counter c \<noteq> -1" and room: "length (ae_output (im_audio b)) + 960 \<le> RING_BUFFER_SIZE"
    and h: "ios_hop env i (a, b) x = (a1, b1)"
  shows "\<exists>c1 out. talking a1 i ch c1 t0 \<and> listening b1 ch (im_sender_id a1) c1 \<and>
    unat (cs_nonce_counter c1) \<le> Suc (unat (cs_nonce_counter c)) \<and> length out \<le> 960 \<and>
    ae_output (im_audio b1) = ae_output (im_audio b) @ out \<and>
    codec_only (io_opus env) (im_encoder a) (im_decoder b) (fst x # xss) =
      out @ codec_only (io_opus env) (im_encoder a1) (im_decoder b1) xss"
proof -
  obtain samples now stamp later dr where x_def: "x = (samples, now, stamp, later, dr)" by (cases x)
  let ?m = "ios_tx_turn env i now stamp None (fst (process_audio_input samples a))"
  note turn = talker_turn [OF t x [unfolded x_def], of ?m env, OF refl]
  note tp = t [unfolded talking_def]
  obtain e r where enc: "ios_encode (io_opus env) (im_encoder a) samples = (e, r)" by fastforce
  show ?thesis
  proof (cases r)
    case (Inl err)
    from turn(1) [OF enc [unfolded Inl]] have m: "talking ?m i ch c t0" "im_encoder ?m = e" "im_sender_id ?m = im_sender_id a"
      by blast+
    then have "ms_poll_relay_outbound ?m = (?m, None)"
      by (simp add: ms_poll_relay_outbound_def it_poll_relay_outbound_def talking_def)
    with h have "a1 = ?m" "b1 = b" by (simp_all add: ios_hop_def x_def Let_def)
    then show ?thesis using m l enc Inl x_def by (intro exI [of _ c] exI [of _ "[]"]) simp
  next
    case (Inr en)
    let ?w = "pack_wire_frame ch SUBCH_MAIN (im_sender_id a) (im_device_name a) stamp en"
    have "length ?w < 2 ^ 32"
      using wire_short [of ch SUBCH_MAIN "im_sender_id a" "im_device_name a" stamp en] encoded_short [OF enc [unfolded Inr]] by simp
    then obtain ct where "io_enc env (cs_cipher c) (nonce_of c (cs_nonce_counter c + 1)) [] ?w = Some ct"
      using aead_totalD [OF assms(2)] by blast
    then obtain c1 p where cry: "encrypt (io_enc env) c ?w = (c1, Inr p)" and c1: "c1 = c\<lparr>cs_nonce_counter := cs_nonce_counter c + 1\<rparr>"
      using nonces by (auto simp: encrypt_Inr_iff)
    from turn(2) [OF enc [unfolded Inr] cry] obtain a2 where
      a2: "ms_poll_relay_outbound ?m = (a2, Some p)" "talking a2 i ch c1 t0" "im_encoder a2 = e" "im_sender_id a2 = im_sender_id a"
      by blast
    with h have ab: "a1 = a2" "b1 = fst (process_relay_frame env b p later dr)" by (simp_all add: ios_hop_def x_def Let_def)
    obtain d q where d: "ios_decode (io_opus env) (im_decoder b) en = (d, q)" by fastforce
    note hear = listener_hears [OF assms(1) l _ _ _ _ cry d ab(2)]
    have cnt: "unat (cs_nonce_counter c1) \<le> Suc (unat (cs_nonce_counter c))" using nonces by (simp add: c1 u32_succ)
    show ?thesis
    proof (cases q)
      case (Inl err)
      then show ?thesis using hear tp a2 ab cnt enc Inr d x_def by (intro exI [of _ c1] exI [of _ "[]"]) simp
    next
      case (Inr out)
      have len: "length out \<le> 960" by (rule decoded_short [OF d [unfolded Inr]])
      then have "ae_output (fst (write_output_frame (im_audio b) (AudioFrame_new out))) = ae_output (im_audio b) @ out"
        using room by (subst write_output_fits) (simp_all add: AudioFrame_new_def)
      then show ?thesis using hear tp a2 ab cnt enc \<open>r = Inr en\<close> d x_def Inr len
        by (intro exI [of _ c1] exI [of _ out]) simp
    qed
  qed
qed


definition demo_talker :: "(unit, unit) IosMachine" where
  "demo_talker = (demo_paired 7)\<lparr>im_transmitting := True, im_tx_started := 5, im_tx_threads := [1],
     im_transport := it_set_relay_active (im_transport (demo_paired 7)) True\<rparr>"

lemma demo_link:
  "talking demo_talker 0 1 (from_psk (replicate 32 7) (replicate 8 0x47)) 5"
  "listening (demo_paired 8) 1 (im_sender_id demo_talker) (from_psk (replicate 32 7) (replicate 8 0x47))"
  "ae_output (im_audio (demo_paired 8)) = []"
proof -
  have p: "im_transport (demo_paired i) = IosTransport_new\<lparr>it_socket := True, it_crypto := Some (from_psk (replicate 32 7) (replicate 8 (0x40 + ucast i)))\<rparr>"
    "im_audio (demo_paired i) = AudioEngine_new" "im_channel (demo_paired i) = 1" "\<not> im_stop_tx (demo_paired i)" for i
    by (simp_all add: demo_paired_def IosMachine_new_def demo_ios_def demo_audiopus_def demo_sockets_def it_start_def
        OpusEncoder_new_def OpusDecoder_new_def IOS_SETTINGS_def ios_set_psk_def it_set_psk_def)
  show "talking demo_talker 0 1 (from_psk (replicate 32 7) (replicate 8 0x47)) 5"
    using sender_id_ok [of 7]
    by (simp add: talking_def demo_talker_def p demo_id it_set_relay_active_def IosTransport_new_def AudioEngine_new_def Let_def)
      (simp add: from_psk_def word_less_nat_alt)
  have fresh: "seen_order (from_psk k pre) = []" for k pre by (simp add: seen_order_def from_psk_def new_replay_window_def)
  show "listening (demo_paired 8) 1 (im_sender_id demo_talker) (from_psk (replicate 32 7) (replicate 8 0x47))"
    by (simp add: listening_def demo_talker_def p demo_id sender_id_inject fresh) (simp add: from_psk_def)
  show "ae_output (im_audio (demo_paired 8)) = []" by (simp add: p AudioEngine_new_def)
qed


end
