(* ===== verification/Ios_Rekey.thy ===== *)
theory Ios_Rekey
  imports Ios_Link
begin

text \<open>
  The hybrid rekey between two iOS devices, handler by handler: initiation, response, confirmation, acknowledgement and
  the promotion of the staged key by the first packet under it.
\<close>

section \<open>The five handlers\<close>

lemma live_key_installed [simp]: "live_key (im_transport (install_session s m)) = Some (cs_cipher s)"
  by (simp add: install_session_def it_set_crypto_def live_key_def)

lemma audit_transport [simp]:
  "im_transport (audit_note env now ev d m) = im_transport m" "im_psk (audit_note env now ev d m) = im_psk m"
  by (simp_all add: audit_note_def)

lemma token_accepted:
  assumes "token \<noteq> []" and "staged_at \<le> now" and "now - staged_at \<le> STAGED_TTL_MS"
  shows "confirm_acceptable (Some token) (map_option snd (parse_hybrid_frame (ch # token))) now staged_at"
  using assms by (simp add: confirm_acceptable_def parse_hybrid_frame_def sat_sub_def not_less word_le_nat_alt)

text \<open>Initiator and responder end with sessions of one key.\<close>

lemma rekey_sessions:
  assumes "kem_ok (io_kem env)" and "im_psk a = Some psk" and "im_psk b = Some psk"
    and "ios_hybrid_init env a da = (a1, m1)"
  shows "\<exists>init resp b1 a2 s t. m1 = Some init \<and> ios_hybrid_respond env b init tb db = (b1, Some resp) \<and>
    ios_hybrid_complete env a1 resp ta da' = (a2, True) \<and> cs_cipher s = cs_cipher t \<and>
    im_staged_hybrid b1 = Some \<lparr>st_session = Some s, st_token = token_for (io_sha env) resp, st_staged_at = tb\<rparr> \<and>
    im_staged_initiator a2 = Some \<lparr>st_session = Some t, st_token = token_for (io_sha env) resp, st_staged_at = ta\<rparr> \<and>
    im_transport b1 = im_transport b \<and> im_transport a2 = im_transport a \<and> cs_nonce_counter t = 0 \<and>
    cs_nonce_prefix t = dr_prefix da' \<and> cs_nonce_prefix s = dr_prefix db \<and>
    cs_seen_nonces s = new_replay_window \<and> cs_seen_nonces t = new_replay_window"
proof -
  let ?P = "io_kem env"
  obtain msg resp s' t' where h:
    "init_from_bytes (init_to_bytes (initiator_message (HybridKeyExchange_new ?P (dr_secret da) (dr_kem da)))) = Inr msg"
    "resp_from_bytes (resp_to_bytes resp) = Inr resp"
    "psk_initiator_message (PskHybridInitiator_new ?P psk (dr_secret da) (dr_kem da)) = msg"
    "psk_hybrid_respond (io_hkdf env) ?P psk msg (dr_secret db) (dr_kem db) (dr_prefix db) = Inr (resp, s')"
    "psk_hybrid_complete (io_hkdf env) ?P (PskHybridInitiator_new ?P psk (dr_secret da) (dr_kem da)) resp (dr_prefix da') = Inr t'"
    "cs_cipher s' = cs_cipher t'"
    using hybrid_handshake_agrees [OF assms(1), of "dr_secret da" "dr_kem da" "io_hkdf env" "dr_secret db" "dr_kem db"
        "dr_prefix db" "dr_prefix da'" psk] by blast
  have msg: "init_from_bytes (init_to_bytes msg) = Inr msg" using h(1,3)
    by (simp add: psk_initiator_message_def PskHybridInitiator_new_def)
  have fresh: "cs_nonce_counter t' = 0" "cs_nonce_prefix t' = dr_prefix da'" "cs_nonce_prefix s' = dr_prefix db"
    "cs_seen_nonces s' = new_replay_window" "cs_seen_nonces t' = new_replay_window"
    using h(4,5) by (auto simp: psk_hybrid_respond_def psk_hybrid_complete_def from_psk_def Let_def
        split: sum.splits prod.splits)
  show ?thesis
    using assms(2-4) h msg fresh
    by (intro exI [of _ "init_to_bytes msg"] exI [of _ "resp_to_bytes resp"] exI [of _ s'] exI [of _ t'])
      (auto simp: ios_hybrid_init_def ios_hybrid_respond_def ios_hybrid_complete_def Let_def)
qed

text \<open>The responder's handling of the confirmation, and the initiator's of the acknowledgement.\<close>

lemma confirm_arms:
  assumes "im_staged_hybrid b = Some \<lparr>st_session = Some s, st_token = token, st_staged_at = t0\<rparr>" and "token \<noteq> []"
    and "t0 \<le> now" and "now - t0 \<le> STAGED_TTL_MS"
  shows "snd (hybrid_on_confirm env b (ch # token) now)"
    "im_transport (fst (hybrid_on_confirm env b (ch # token) now)) = (im_transport b)\<lparr>it_pending_rx := Some s\<rparr>"
  using token_accepted [OF assms(2-4), of ch] assms(1)
  by (simp_all add: hybrid_on_confirm_def it_arm_pending_rx_def Let_def)

lemma ack_installs:
  assumes "im_staged_initiator a = Some \<lparr>st_session = Some s, st_token = token, st_staged_at = t0\<rparr>" and "token \<noteq> []"
    and "t0 \<le> now" and "now - t0 \<le> STAGED_TTL_MS"
  shows "snd (hybrid_on_ack env a (ch # token) now)"
    "im_transport (fst (hybrid_on_ack env a (ch # token) now)) = (im_transport a)\<lparr>it_crypto := Some s\<rparr>"
  using token_accepted [OF assms(2-4), of ch] assms(1)
  by (simp_all add: hybrid_on_ack_def install_session_def it_set_crypto_def Let_def)

section \<open>Properties\<close>


lemma demo_rekey:
  "kem_ok (io_kem demo_ios)" "aead_correct (io_enc demo_ios) (io_dec demo_ios)" "aead_total (io_enc demo_ios)"
  "io_sha demo_ios m = replicate 32 5" "im_psk (demo_paired i) = Some (replicate 32 7)"
  by (simp_all add: demo_ios_def kem_ok_def demo_kem_def plain_aead_correct plain_aead_total demo_paired_def
      IosMachine_new_def demo_audiopus_def demo_sockets_def it_start_def OpusEncoder_new_def OpusDecoder_new_def
      IOS_SETTINGS_def ios_set_psk_def)

lemma demo_rekey_key:
  assumes "ios_hybrid_init demo_ios m da = (a1, m1)" and "im_psk m = Some psk" and "length psk = 32"
    and "ios_hybrid_complete demo_ios a1 resp ta d = (a2, True)"
    and "im_staged_initiator a2 = Some \<lparr>st_session = Some t, st_token = tok, st_staged_at = ta\<rparr>"
  shows "cs_cipher t = psk"
proof -
  have "phi_psk (PskHybridInitiator_new P psk x y) = psk" for P x y by (simp add: PskHybridInitiator_new_def)
  moreover have "io_hkdf demo_ios = (\<lambda>i n. take 32 i)" by (simp add: demo_ios_def)
  ultimately show ?thesis using assms
    by (auto simp: ios_hybrid_init_def ios_hybrid_complete_def psk_hybrid_complete_def combine_secrets_with_psk_def Let_def
        from_psk_def split: sum.splits)
qed


end
