(* ===== verification/Desktop_Queue.thy ===== *)
theory Desktop_Queue
  imports Talk_Prelude "HOL-Library.Sublist"
begin

text \<open>
  The real-time queue of the desktop client, \<open>tauri-desktop/src-tauri/src/transport/mod.rs\<close>: a bounded channel whose
  producer never blocks and whose consumer skips what is too old to be heard. The channel under it is its content,
  oldest first; it refuses an item once the receiver is gone or the capacity is reached. Producer and consumer share
  one record, the instant of a call is an argument.
\<close>

section \<open>Model\<close>

record QueueMetrics =
  qm_enqueued :: u64
  qm_dequeued :: u64
  qm_dropped_full :: u64
  qm_dropped_stale :: u64
  qm_dropped_closed :: u64

definition QueueMetrics_default :: QueueMetrics where
  "QueueMetrics_default =
     \<lparr>qm_enqueued = 0, qm_dequeued = 0, qm_dropped_full = 0, qm_dropped_stale = 0, qm_dropped_closed = 0\<rparr>"

record 'a RealtimeQueue =
  rq_capacity :: nat
  rq_items :: "('a \<times> instant) list"
  rq_max_age :: instant
  rq_closed :: bool
  rq_metrics :: QueueMetrics

datatype send_error = QueueFull | QueueClosed

text \<open>The capacities the code passes are positive, as its assertion demands.\<close>

definition realtime_channel :: "nat \<Rightarrow> instant \<Rightarrow> 'a RealtimeQueue" where
  "realtime_channel capacity max_age =
     \<lparr>rq_capacity = capacity, rq_items = [], rq_max_age = max_age, rq_closed = False,
      rq_metrics = QueueMetrics_default\<rparr>"

definition try_send :: "'a RealtimeQueue \<Rightarrow> 'a \<Rightarrow> instant \<Rightarrow> 'a RealtimeQueue \<times> (send_error + unit)" where
  "try_send q value now =
     (if rq_closed q then
        (q\<lparr>rq_metrics := (rq_metrics q)\<lparr>qm_dropped_closed := qm_dropped_closed (rq_metrics q) + 1\<rparr>\<rparr>, Inl QueueClosed)
      else if rq_capacity q \<le> length (rq_items q) then
        (q\<lparr>rq_metrics := (rq_metrics q)\<lparr>qm_dropped_full := qm_dropped_full (rq_metrics q) + 1\<rparr>\<rparr>, Inl QueueFull)
      else
        (q\<lparr>rq_items := rq_items q @ [(value, now)],
           rq_metrics := (rq_metrics q)\<lparr>qm_enqueued := qm_enqueued (rq_metrics q) + 1\<rparr>\<rparr>, Inr ()))"

text \<open>
  One call of \<open>recv\<close> on what is in the channel: items older than the limit are counted and skipped. None is the call
  still waiting for an item.
\<close>

fun recv_from :: "instant \<Rightarrow> instant \<Rightarrow> ('a \<times> instant) list \<Rightarrow> QueueMetrics \<Rightarrow>
  'a option \<times> ('a \<times> instant) list \<times> QueueMetrics" where
  "recv_from max_age now [] mt = (None, [], mt)"
| "recv_from max_age now ((value, queued_at) # rest) mt =
     (if max_age < now - queued_at
      then recv_from max_age now rest (mt\<lparr>qm_dropped_stale := qm_dropped_stale mt + 1\<rparr>)
      else (Some value, rest, mt\<lparr>qm_dequeued := qm_dequeued mt + 1\<rparr>))"

definition recv :: "'a RealtimeQueue \<Rightarrow> instant \<Rightarrow> 'a RealtimeQueue \<times> 'a option" where
  "recv q now =
     (case recv_from (rq_max_age q) now (rq_items q) (rq_metrics q) of
        (r, items, mt) \<Rightarrow> (q\<lparr>rq_items := items, rq_metrics := mt\<rparr>, r))"

definition discard_pending :: "'a RealtimeQueue \<Rightarrow> 'a RealtimeQueue" where
  "discard_pending q =
     q\<lparr>rq_items := [],
       rq_metrics := (rq_metrics q)\<lparr>qm_dropped_stale := qm_dropped_stale (rq_metrics q) + word_of_nat (length (rq_items q))\<rparr>\<rparr>"

text \<open>The receiver is dropped, as when the task that owns it is aborted: the channel closes and its content goes.\<close>

definition drop_receiver :: "'a RealtimeQueue \<Rightarrow> 'a RealtimeQueue" where
  "drop_receiver q = q\<lparr>rq_items := [], rq_closed := True\<rparr>"

section \<open>Runs\<close>

datatype 'a queue_call = TrySend 'a instant | Recv instant | Discard

text \<open>The items accepted, the items handed out with the time of the call, and the queue afterwards.\<close>

fun realtime_run :: "'a RealtimeQueue \<Rightarrow> 'a queue_call list \<Rightarrow>
  ('a \<times> instant) list \<times> ('a \<times> instant) list \<times> 'a RealtimeQueue" where
  "realtime_run q [] = ([], [], q)"
| "realtime_run q (TrySend v t # cs) =
     (case try_send q v t of (q', r) \<Rightarrow>
        case realtime_run q' cs of (acc, out, q'') \<Rightarrow> ((case r of Inr _ \<Rightarrow> [(v, t)] | Inl _ \<Rightarrow> []) @ acc, out, q''))"
| "realtime_run q (Recv t # cs) =
     (case recv q t of (q', r) \<Rightarrow>
        case realtime_run q' cs of (acc, out, q'') \<Rightarrow> (acc, (case r of Some v \<Rightarrow> [(v, t)] | None \<Rightarrow> []) @ out, q''))"
| "realtime_run q (Discard # cs) = realtime_run (discard_pending q) cs"

definition sends :: "'a queue_call list \<Rightarrow> nat" where
  "sends cs = length (filter (\<lambda>c. case c of TrySend _ _ \<Rightarrow> True | _ \<Rightarrow> False) cs)"

text \<open>What the counters say of items still in the channel, and of items offered so far.\<close>

definition pending_count :: "QueueMetrics \<Rightarrow> u64" where
  "pending_count mt = qm_enqueued mt - qm_dequeued mt - qm_dropped_stale mt"

definition offered_count :: "QueueMetrics \<Rightarrow> u64" where
  "offered_count mt = qm_enqueued mt + qm_dropped_full mt + qm_dropped_closed mt"

definition realtime_ok :: "'a RealtimeQueue \<Rightarrow> bool" where
  "realtime_ok q \<longleftrightarrow> length (rq_items q) \<le> rq_capacity q \<and> pending_count (rq_metrics q) = word_of_nat (length (rq_items q))"

lemma subseq_front: "subseq xs (ys @ zs) \<Longrightarrow> subseq ys ys' \<Longrightarrow> subseq xs (ys' @ zs)"
  by (meson list_emb_append_mono subseq_order.order_refl subseq_order.trans)

lemmas count_defs = pending_count_def offered_count_def

lemma recv_from_spec:
  assumes "recv_from age now items mt = (r, items', mt')"
  shows "\<exists>k. k \<le> length items \<and> (case r of None \<Rightarrow> items' = []
      | Some v \<Rightarrow> \<exists>t. drop k items = (v, t) # items' \<and> now - t \<le> age) \<and>
    pending_count mt' - word_of_nat (length items') = pending_count mt - word_of_nat (length items) \<and>
    offered_count mt' = offered_count mt"
  using assms
proof (induction age now items mt rule: recv_from.induct)
  case (1 age now mt)
  then show ?case by auto
next
  case (2 age now v t rest mt)
  show ?case
  proof (cases "age < now - t")
    case True
    with 2 obtain k where "k \<le> length rest" "case r of None \<Rightarrow> items' = []
        | Some v \<Rightarrow> \<exists>t. drop k rest = (v, t) # items' \<and> now - t \<le> age"
      "pending_count mt' - word_of_nat (length items') =
        pending_count (mt\<lparr>qm_dropped_stale := qm_dropped_stale mt + 1\<rparr>) - word_of_nat (length rest)"
      "offered_count mt' = offered_count mt"
      by (fastforce simp: offered_count_def)
    then show ?thesis by (intro exI [of _ "Suc k"]) (simp add: pending_count_def algebra_simps split: option.splits)
  next
    case False
    with 2 show ?thesis by (intro exI [of _ 0]) (auto simp: count_defs algebra_simps)
  qed
qed

lemma try_send_ok:
  assumes "realtime_ok q"
  shows "realtime_ok (fst (try_send q v t))"
    "rq_items (fst (try_send q v t)) = rq_items q @ (case snd (try_send q v t) of Inr _ \<Rightarrow> [(v, t)] | Inl _ \<Rightarrow> [])"
    "offered_count (rq_metrics (fst (try_send q v t))) = offered_count (rq_metrics q) + 1"
    "rq_capacity (fst (try_send q v t)) = rq_capacity q" "rq_max_age (fst (try_send q v t)) = rq_max_age q"
  using assms by (auto simp: try_send_def realtime_ok_def count_defs algebra_simps)

lemma recv_ok:
  assumes "realtime_ok q"
  shows "realtime_ok (fst (recv q t))"
    "case snd (recv q t) of None \<Rightarrow> rq_items (fst (recv q t)) = []
     | Some v \<Rightarrow> \<exists>k t'. drop k (rq_items q) = (v, t') # rq_items (fst (recv q t)) \<and> t - t' \<le> rq_max_age q"
    "offered_count (rq_metrics (fst (recv q t))) = offered_count (rq_metrics q)"
    "rq_capacity (fst (recv q t)) = rq_capacity q" "rq_max_age (fst (recv q t)) = rq_max_age q"
proof -
  obtain r items mt where r: "recv_from (rq_max_age q) t (rq_items q) (rq_metrics q) = (r, items, mt)"
    by (metis prod_cases3)
  obtain k where k: "k \<le> length (rq_items q)" "case r of None \<Rightarrow> items = []
      | Some v \<Rightarrow> \<exists>t'. drop k (rq_items q) = (v, t') # items \<and> t - t' \<le> rq_max_age q"
    "pending_count mt - word_of_nat (length items) = pending_count (rq_metrics q) - word_of_nat (length (rq_items q))"
    "offered_count mt = offered_count (rq_metrics q)"
    using recv_from_spec [OF r] by blast
  have "length items \<le> length (rq_items q)"
  proof (cases r)
    case (Some v)
    then obtain t' where "drop k (rq_items q) = (v, t') # items" using k(2) by auto
    from arg_cong [OF this, of length] show ?thesis by simp
  qed (use k(2) in simp)
  with k(3) assms show "realtime_ok (fst (recv q t))" by (simp add: recv_def r realtime_ok_def)
  show "case snd (recv q t) of None \<Rightarrow> rq_items (fst (recv q t)) = []
     | Some v \<Rightarrow> \<exists>k t'. drop k (rq_items q) = (v, t') # rq_items (fst (recv q t)) \<and> t - t' \<le> rq_max_age q"
    using k(2) by (auto simp: recv_def r split: option.splits)
  show "offered_count (rq_metrics (fst (recv q t))) = offered_count (rq_metrics q)"
    "rq_capacity (fst (recv q t)) = rq_capacity q" "rq_max_age (fst (recv q t)) = rq_max_age q"
    using k(4) by (simp_all add: recv_def r)
qed

lemma discard_ok:
  assumes "realtime_ok q"
  shows "realtime_ok (discard_pending q)" "rq_items (discard_pending q) = []"
    "offered_count (rq_metrics (discard_pending q)) = offered_count (rq_metrics q)"
    "rq_capacity (discard_pending q) = rq_capacity q" "rq_max_age (discard_pending q) = rq_max_age q"
  using assms by (auto simp: discard_pending_def realtime_ok_def count_defs algebra_simps)

text \<open>
  Whatever is offered, received and discarded, in whatever order: the channel never exceeds its capacity; the items
  handed out, followed by those still in the channel, are a subsequence of the items accepted, in order; each was
  handed out within the age limit; and the counters account for every item offered.
\<close>

theorem realtime_queue_accounts:
  fixes q :: "'a RealtimeQueue"
  assumes "realtime_ok q" and "realtime_run q cs = (acc, out, q')"
  shows "realtime_ok q' \<and>
    (\<exists>ats. length ats = length out \<and> subseq (zip (map fst out) ats @ rq_items q') (rq_items q @ acc) \<and>
       list_all2 (\<lambda>o' t0. snd o' - t0 \<le> rq_max_age q) out ats) \<and>
    offered_count (rq_metrics q') = offered_count (rq_metrics q) + word_of_nat (sends cs)"
  using assms
proof (induction q cs arbitrary: acc out rule: realtime_run.induct)
  case (1 q)
  then show ?case by (auto simp: sends_def)
next
  case (2 q v t cs)
  obtain q1 r where q1: "try_send q v t = (q1, r)" by (cases "try_send q v t")
  obtain acc1 out1 where run: "realtime_run q1 cs = (acc1, out1, q')" "out = out1"
    "acc = (case r of Inr _ \<Rightarrow> [(v, t)] | Inl _ \<Rightarrow> []) @ acc1"
    using "2.prems"(2) q1 by (auto split: prod.splits)
  note ok = try_send_ok [OF "2.prems"(1), of v t, unfolded q1 fst_conv snd_conv]
  from "2.IH" [OF q1 [symmetric], of acc1 out1] ok(1) run(1)
  show ?case using ok(2-5) by (simp add: run(2,3) sends_def)
next
  case (3 q t cs)
  obtain q1 r where q1: "recv q t = (q1, r)" by (cases "recv q t")
  obtain acc1 out1 where run: "realtime_run q1 cs = (acc1, out1, q')" "acc = acc1"
    "out = (case r of Some v \<Rightarrow> [(v, t)] | None \<Rightarrow> []) @ out1"
    using "3.prems"(2) q1 by (auto split: prod.splits)
  note ok = recv_ok [OF "3.prems"(1), of t, unfolded q1 fst_conv snd_conv]
  obtain ats where IH: "realtime_ok q'" "length ats = length out1"
    "subseq (zip (map fst out1) ats @ rq_items q') (rq_items q1 @ acc1)"
    "list_all2 (\<lambda>o' t0. snd o' - t0 \<le> rq_max_age q) out1 ats"
    "offered_count (rq_metrics q') = offered_count (rq_metrics q) + word_of_nat (sends cs)"
    using "3.IH" [OF q1 [symmetric], of acc1 out1] ok run(1) by auto
  have sends: "sends (Recv t # cs) = sends cs" by (simp add: sends_def)
  show ?case
  proof (cases r)
    case None
    then have "subseq (rq_items q1) (rq_items q)" using ok(2) by simp
    from subseq_front [OF IH(3) this] IH None show ?thesis by (auto simp: run sends)
  next
    case (Some v)
    then obtain k t' where k: "drop k (rq_items q) = (v, t') # rq_items q1" "t - t' \<le> rq_max_age q"
      using ok(2) by auto
    have "subseq (((v, t') # rq_items q1) @ acc1) (rq_items q @ acc1)"
      by (metis append_take_drop_id k(1) list_emb_append_mono subseq_drop_many subseq_order.refl)
    moreover have "subseq ((v, t') # zip (map fst out1) ats @ rq_items q') (((v, t') # rq_items q1) @ acc1)"
      using IH(3) by simp
    ultimately have "subseq ((v, t') # zip (map fst out1) ats @ rq_items q') (rq_items q @ acc1)"
      by (rule subseq_order.trans [rotated])
    with IH k(2) Some show ?thesis by (auto simp: run sends intro!: exI [of _ "t' # ats"])
  qed
next
  case (4 q cs)
  note ok = discard_ok [OF "4.prems"(1)]
  have "sends (Discard # cs) = sends cs" by (simp add: sends_def)
  with "4.IH" [of acc out] "4.prems"(2) ok show ?case
    by (auto intro: subseq_order.trans [OF _ subseq_drop_many] simp: subseq_drop_many)
qed

end
