(* ===== verification/Desktop_Engine.thy ===== *)
theory Desktop_Engine
  imports Crypto_Session
begin

text \<open>
  The per-peer cipher of the desktop, \<open>tauri-desktop/src-tauri/src/security/crypto.rs\<close>: an X25519 identity, a derived or
  preset AES-256-GCM key, and nonces made of a random prefix and an atomic counter. X25519, HKDF and AES-GCM are
  parameters, random bytes and the clock are arguments.
\<close>

section \<open>Model\<close>

datatype engine_error = EngineEncryption | EngineDecryption | KeyDerivationFailed | InvalidKeyLength

record CryptoEngine =
  en_secret_key :: "bytes option"
  en_public_key :: "bytes option"
  en_symmetric_key :: "bytes option"
  en_cipher :: "bytes option"
  en_key_created_at :: "instant option"
  en_nonce_prefix :: bytes
  en_nonce_counter :: u64

definition CryptoEngine_new :: "bytes \<Rightarrow> CryptoEngine" where
  "CryptoEngine_new nonce_prefix =
     \<lparr>en_secret_key = None, en_public_key = None, en_symmetric_key = None, en_cipher = None, en_key_created_at = None,
      en_nonce_prefix = nonce_prefix, en_nonce_counter = 0\<rparr>"

definition generate_keypair :: "(bytes \<Rightarrow> bytes) \<Rightarrow> CryptoEngine \<Rightarrow> bytes \<Rightarrow> instant \<Rightarrow> CryptoEngine \<times> bytes" where
  "generate_keypair public_of en secret now =
     (en\<lparr>en_secret_key := Some secret, en_public_key := Some (public_of secret), en_key_created_at := Some now\<rparr>,
      public_of secret)"

definition engine_derive_key :: "(bytes \<Rightarrow> bytes \<Rightarrow> bytes) \<Rightarrow> bytes \<Rightarrow> bytes" where
  "engine_derive_key hkdf shared_secret = hkdf shared_secret (ascii ''sassytalkie-aead-v2'')"

definition engine_key_exchange ::
  "(bytes \<Rightarrow> bytes \<Rightarrow> bytes) \<Rightarrow> (bytes \<Rightarrow> bytes \<Rightarrow> bytes) \<Rightarrow> CryptoEngine \<Rightarrow> bytes \<Rightarrow> CryptoEngine \<times> (engine_error + unit)" where
  "engine_key_exchange dh hkdf en peer_public =
     (case en_secret_key en of
        None \<Rightarrow> (en, Inl KeyDerivationFailed)
      | Some secret \<Rightarrow>
          let key = engine_derive_key hkdf (dh secret peer_public)
          in (en\<lparr>en_symmetric_key := Some key, en_cipher := Some key\<rparr>, Inr ()))"

definition set_key :: "CryptoEngine \<Rightarrow> bytes \<Rightarrow> instant \<Rightarrow> CryptoEngine \<times> (engine_error + unit)" where
  "set_key en key now =
     (if length key \<noteq> 32 then (en, Inl InvalidKeyLength)
      else (en\<lparr>en_symmetric_key := Some key, en_cipher := Some key, en_key_created_at := Some now\<rparr>, Inr ()))"

text \<open>The new engine draws its own nonce prefix. The derived key is an array of 32 bytes.\<close>

definition derive_peer_session ::
  "(bytes \<Rightarrow> bytes \<Rightarrow> bytes) \<Rightarrow> (bytes \<Rightarrow> bytes \<Rightarrow> bytes) \<Rightarrow> CryptoEngine \<Rightarrow> bytes \<Rightarrow> bytes \<Rightarrow> instant \<Rightarrow>
   engine_error + CryptoEngine" where
  "derive_peer_session dh hkdf en peer_public nonce_prefix now =
     (case en_secret_key en of
        None \<Rightarrow> Inl KeyDerivationFailed
      | Some secret \<Rightarrow>
          let key_bytes = engine_derive_key hkdf (dh secret peer_public)
          in case set_key (CryptoEngine_new nonce_prefix) key_bytes now of
               (_, Inl e) \<Rightarrow> Inl e
             | (engine, Inr _) \<Rightarrow> Inr engine)"

text \<open>The sealed text ends in the 16-byte tag, which is handed out apart.\<close>

definition engine_encrypt :: "aead_fun \<Rightarrow> CryptoEngine \<Rightarrow> bytes \<Rightarrow> bytes \<Rightarrow> engine_error + bytes \<times> bytes" where
  "engine_encrypt enc en plaintext nonce =
     (case en_cipher en of
        None \<Rightarrow> Inl EngineEncryption
      | Some key \<Rightarrow>
          (case enc key nonce [] plaintext of
             None \<Rightarrow> Inl EngineEncryption
           | Some ciphertext \<Rightarrow>
               let tag_start = length ciphertext - 16
               in Inr (take tag_start ciphertext, drop tag_start ciphertext)))"

definition engine_decrypt :: "aead_fun \<Rightarrow> CryptoEngine \<Rightarrow> bytes \<Rightarrow> bytes \<Rightarrow> bytes \<Rightarrow> engine_error + bytes" where
  "engine_decrypt dec en ciphertext nonce auth_tag =
     (case en_cipher en of
        None \<Rightarrow> Inl EngineDecryption
      | Some key \<Rightarrow>
          (case dec key nonce [] (ciphertext @ auth_tag) of None \<Rightarrow> Inl EngineDecryption | Some pt \<Rightarrow> Inr pt))"

text \<open>\<open>fetch_add\<close> advances the counter first, also when the call then fails; it wraps.\<close>

definition engine_next_nonce :: "CryptoEngine \<Rightarrow> CryptoEngine \<times> (engine_error + bytes)" where
  "engine_next_nonce en =
     (let ctr = en_nonce_counter en; en = en\<lparr>en_nonce_counter := ctr + 1\<rparr>
      in if ctr = - 1 then (en, Inl EngineEncryption)
         else (en, Inr (en_nonce_prefix en @ rev (to_le 8 ctr))))"

definition needs_key_rotation :: "CryptoEngine \<Rightarrow> instant \<Rightarrow> bool" where
  "needs_key_rotation en now =
     (case en_key_created_at en of Some created \<Rightarrow> 60 < (now - created) div 1000000000 | None \<Rightarrow> True)"

definition engine_is_ready :: "CryptoEngine \<Rightarrow> bool" where
  "engine_is_ready en \<longleftrightarrow> en_cipher en \<noteq> None"

definition get_public_key :: "CryptoEngine \<Rightarrow> bytes option" where
  "get_public_key en = en_public_key en"

section \<open>Two engines\<close>

lemma peer_session_key:
  assumes "en_secret_key en = Some secret" "length (hkdf (dh secret pub) (ascii ''sassytalkie-aead-v2'')) = 32"
  shows "\<exists>e. derive_peer_session dh hkdf en pub np now = Inr e \<and> engine_is_ready e \<and> en_nonce_counter e = 0 \<and>
    en_nonce_prefix e = np \<and> en_cipher e = Some (hkdf (dh secret pub) (ascii ''sassytalkie-aead-v2''))"
  using assms by (simp add: derive_peer_session_def set_key_def engine_derive_key_def engine_is_ready_def
      CryptoEngine_new_def Let_def)

text \<open>Each derives from its own identity and the key the other advertises, and reads what the other seals.\<close>

lemma peer_sessions_interoperate:
  assumes aead: "aead_correct enc dec"
    and sym: "dh s1 (public_of s2) = dh s2 (public_of s1)"
    and key: "length (hkdf (dh s1 (public_of s2)) (ascii ''sassytalkie-aead-v2'')) = 32"
    and ids: "fst (generate_keypair public_of (CryptoEngine_new p1) s1 t1) = id1"
      "fst (generate_keypair public_of (CryptoEngine_new p2) s2 t2) = id2"
    and e1: "derive_peer_session dh hkdf id1 (public_of s2) np1 t3 = Inr e1"
    and e2: "derive_peer_session dh hkdf id2 (public_of s1) np2 t4 = Inr e2"
    and sealed: "engine_encrypt enc e1 m nonce = Inr (ct, tag)"
  shows "en_symmetric_key e1 = en_symmetric_key e2" "engine_decrypt dec e2 ct nonce tag = Inr m"
proof -
  have secrets: "en_secret_key id1 = Some s1" "en_secret_key id2 = Some s2"
    using ids by (auto simp: generate_keypair_def)
  let ?k = "hkdf (dh s1 (public_of s2)) (ascii ''sassytalkie-aead-v2'')"
  have ks: "en_symmetric_key e1 = Some ?k" "en_cipher e1 = Some ?k" "en_symmetric_key e2 = Some ?k" "en_cipher e2 = Some ?k"
    using e1 e2 key sym secrets
    by (auto simp: derive_peer_session_def set_key_def engine_derive_key_def CryptoEngine_new_def Let_def)
  then show "en_symmetric_key e1 = en_symmetric_key e2" by simp
  obtain c where c: "enc ?k nonce [] m = Some c" "ct @ tag = c"
    using sealed ks by (auto simp: engine_encrypt_def Let_def split: option.splits)
  then have "dec ?k nonce [] c = Some m" using aead_correctD [OF aead] by blast
  with c ks show "engine_decrypt dec e2 ct nonce tag = Inr m" by (simp add: engine_decrypt_def)
qed

text \<open>The error at the end of the counter is given once: the call after it starts again at the first nonce.\<close>

theorem engine_nonce_wraps:
  assumes "en_nonce_counter en = - 1"
  shows "snd (engine_next_nonce en) = Inl EngineEncryption"
    "snd (engine_next_nonce (fst (engine_next_nonce en))) =
       snd (engine_next_nonce (CryptoEngine_new (en_nonce_prefix en)))"
  using assms by (simp_all add: engine_next_nonce_def CryptoEngine_new_def Let_def)

end
