(* ===== verification/Desktop_Liveness.thy ===== *)
theory Desktop_Liveness
  imports Ptt_Frames Utf8_Std
begin

text \<open>
  Peer liveness on the desktop, \<open>tauri-desktop/src-tauri/src/transport/liveness.rs\<close>, and the presence byte of
  \<open>transport/control.rs\<close>. A peer is named by a text; the tracker keeps what was last heard from it and the heartbeats
  sent to it that wait for an echo.
\<close>

datatype PeerHealth = Healthy | Degraded | Stale

record PeerState =
  ps_epoch :: u64
  ps_last_rx_ms :: u64
  ps_last_presence :: u8
  ps_rtt_ms :: "u32 option"
  ps_pending :: "(u32, u64) hmap"

record LivenessTracker =
  lt_peers :: "(rstring, PeerState) hmap"

definition LivenessTracker_new :: LivenessTracker where
  "LivenessTracker_new = \<lparr>lt_peers = []\<rparr>"

definition on_heartbeat_sent :: "LivenessTracker \<Rightarrow> rstring \<Rightarrow> u64 \<Rightarrow> u32 \<Rightarrow> u64 \<Rightarrow> LivenessTracker" where
  "on_heartbeat_sent lt peer epoch seq ts_ms =
     lt\<lparr>lt_peers := entry_update peer
       \<lparr>ps_epoch = 0, ps_last_rx_ms = 0, ps_last_presence = 0, ps_rtt_ms = None, ps_pending = []\<rparr>
       (\<lambda>p. p\<lparr>ps_pending := hm_insert seq ts_ms (if 64 < length (ps_pending p) then [] else ps_pending p)\<rparr>)
       (lt_peers lt)\<rparr>"

definition on_heartbeat :: "LivenessTracker \<Rightarrow> rstring \<Rightarrow> u64 \<Rightarrow> u32 \<Rightarrow> u64 \<Rightarrow> u64 \<Rightarrow> u8 \<Rightarrow> LivenessTracker" where
  "on_heartbeat lt peer epoch seq ts_ms now_ms state_byte =
     lt\<lparr>lt_peers := entry_update peer
       \<lparr>ps_epoch = epoch, ps_last_rx_ms = now_ms, ps_last_presence = state_byte, ps_rtt_ms = None, ps_pending = []\<rparr>
       (\<lambda>p. let p = p\<lparr>ps_epoch := epoch, ps_last_rx_ms := now_ms, ps_last_presence := state_byte\<rparr>
            in case hm_get (ps_pending p) seq of
                 None \<Rightarrow> p
               | Some sent \<Rightarrow> p\<lparr>ps_pending := hm_remove seq (ps_pending p), ps_rtt_ms := Some (ucast (sat_sub now_ms sent))\<rparr>)
       (lt_peers lt)\<rparr>"

definition health :: "LivenessTracker \<Rightarrow> rstring \<Rightarrow> u64 \<Rightarrow> PeerHealth" where
  "health lt peer now_ms =
     (case hm_get (lt_peers lt) peer of
        None \<Rightarrow> Stale
      | Some p \<Rightarrow>
          let age = sat_sub now_ms (ps_last_rx_ms p)
          in if age < 3000 then Healthy else if age < 8000 then Degraded else Stale)"

definition rtt_ms :: "LivenessTracker \<Rightarrow> rstring \<Rightarrow> u32 option" where
  "rtt_ms lt peer = (case hm_get (lt_peers lt) peer of None \<Rightarrow> None | Some p \<Rightarrow> ps_rtt_ms p)"

definition last_presence :: "LivenessTracker \<Rightarrow> rstring \<Rightarrow> u8" where
  "last_presence lt peer = (case hm_get (lt_peers lt) peer of None \<Rightarrow> 0 | Some p \<Rightarrow> ps_last_presence p)"

definition last_heard_ms :: "LivenessTracker \<Rightarrow> rstring \<Rightarrow> u64" where
  "last_heard_ms lt peer = (case hm_get (lt_peers lt) peer of None \<Rightarrow> 0 | Some p \<Rightarrow> ps_last_rx_ms p)"

definition epoch_changed :: "LivenessTracker \<Rightarrow> rstring \<Rightarrow> u64 \<Rightarrow> LivenessTracker \<times> bool" where
  "epoch_changed lt peer new_epoch =
     (let p = (case hm_get (lt_peers lt) peer of
                 Some p \<Rightarrow> p
               | None \<Rightarrow> \<lparr>ps_epoch = new_epoch, ps_last_rx_ms = 0, ps_last_presence = 0, ps_rtt_ms = None, ps_pending = []\<rparr>)
      in (lt\<lparr>lt_peers := hm_insert peer (p\<lparr>ps_epoch := new_epoch\<rparr>) (lt_peers lt)\<rparr>,
          ps_epoch p \<noteq> 0 \<and> ps_epoch p \<noteq> new_epoch))"

definition peer_ids :: "LivenessTracker \<Rightarrow> rstring list" where
  "peer_ids lt = map fst (lt_peers lt)"

definition remove_peer :: "LivenessTracker \<Rightarrow> rstring \<Rightarrow> LivenessTracker" where
  "remove_peer lt peer = lt\<lparr>lt_peers := hm_remove peer (lt_peers lt)\<rparr>"

section \<open>Presence\<close>

datatype PresenceState = Idle | Listening | Speaking | Muted | Away | Backgrounded | Dnd

definition presence_from_byte :: "u8 \<Rightarrow> PresenceState" where
  "presence_from_byte b =
     (if b = 1 then Listening else if b = 2 then Speaking else if b = 3 then Muted else if b = 4 then Away
      else if b = 5 then Backgrounded else if b = 6 then Dnd else Idle)"

fun presence_as_byte :: "PresenceState \<Rightarrow> u8" where
  "presence_as_byte Idle = 0"
| "presence_as_byte Listening = 1"
| "presence_as_byte Speaking = 2"
| "presence_as_byte Muted = 3"
| "presence_as_byte Away = 4"
| "presence_as_byte Backgrounded = 5"
| "presence_as_byte Dnd = 6"

lemma presence_round_trip [simp]: "presence_from_byte (presence_as_byte p) = p"
  by (cases p) (simp_all add: presence_from_byte_def)

section \<open>Control frames\<close>

text \<open>The wrappers of \<open>transport/control.rs\<close> over the core codecs. A frame may carry bytes after its payload.\<close>

record DeskHeartbeat =
  dh_epoch :: u64
  dh_seq :: u32
  dh_ts_ms :: u64
  dh_state :: PresenceState
  dh_rtt_ms :: u16

definition encode_legacy :: "u8 \<Rightarrow> bytes" where
  "encode_legacy op = [op]"

definition desk_decode_control :: "bytes \<Rightarrow> (u8 \<times> bytes) option" where
  "desk_decode_control bs =
     (if bs = [] then None
      else let op = bs ! 0 in
        if op < 0x10 then Some (op, [])
        else if length bs < 3 then None
        else let len = unat (from_le [bs ! 1, bs ! 2] :: u16)
             in if length bs < 3 + len then None else Some (op, take len (drop 3 bs)))"

definition desk_encode_heartbeat :: "u64 \<Rightarrow> u32 \<Rightarrow> u64 \<Rightarrow> PresenceState \<Rightarrow> u16 \<Rightarrow> bytes" where
  "desk_encode_heartbeat epoch seq ts_ms state rtt = encode_heartbeat epoch seq ts_ms (presence_as_byte state) rtt 0"

definition desk_parse_heartbeat :: "bytes \<Rightarrow> DeskHeartbeat option" where
  "desk_parse_heartbeat payload =
     (case parse_heartbeat payload of
        None \<Rightarrow> None
      | Some hb \<Rightarrow> Some \<lparr>dh_epoch = hb_epoch hb, dh_seq = hb_seq hb, dh_ts_ms = hb_ts_ms hb,
                         dh_state = presence_from_byte (hb_state hb), dh_rtt_ms = hb_rtt_ms hb\<rparr>)"

definition encode_partner_offline :: "rstring \<Rightarrow> bytes" where
  "encode_partner_offline peer_id = encode_tlv OP_PARTNER_OFFLINE (word_of_nat (length peer_id) # peer_id)"

text \<open>The first draw of the generator that is not zero.\<close>

definition new_session_epoch :: "u64 list \<Rightarrow> u64 option" where
  "new_session_epoch draws = find (\<lambda>v. v \<noteq> 0) draws"

section \<open>Echoes\<close>

text \<open>A round trip is measured only for a peer some heartbeat was recorded for; \<open>echoes\<close> are those peers.\<close>

definition unmeasured :: "rstring set \<Rightarrow> LivenessTracker \<Rightarrow> bool" where
  "unmeasured echoes lt \<longleftrightarrow>
     (\<forall>peer p. hm_get (lt_peers lt) peer = Some p \<longrightarrow> peer \<notin> echoes \<longrightarrow> ps_pending p = [] \<and> ps_rtt_ms p = None)"

lemma unmeasured_new [simp]: "unmeasured echoes LivenessTracker_new"
  by (simp add: unmeasured_def LivenessTracker_new_def)

lemma unmeasured_sent: "unmeasured echoes lt \<Longrightarrow> peer \<in> echoes \<Longrightarrow> unmeasured echoes (on_heartbeat_sent lt peer epoch seq ts)"
  by (auto simp: unmeasured_def on_heartbeat_sent_def entry_update_def)

lemma unmeasured_heard: "unmeasured echoes lt \<Longrightarrow> unmeasured echoes (on_heartbeat lt peer epoch seq ts now b)"
  by (fastforce simp: unmeasured_def on_heartbeat_def entry_update_def Let_def split: option.splits if_splits)

lemma unmeasured_epoch: "unmeasured echoes lt \<Longrightarrow> unmeasured echoes (fst (epoch_changed lt peer e))"
  by (auto simp: unmeasured_def epoch_changed_def Let_def split: option.splits if_splits)

lemma unmeasured_rtt: "unmeasured echoes lt \<Longrightarrow> peer \<notin> echoes \<Longrightarrow> rtt_ms lt peer = None"
  by (auto simp: unmeasured_def rtt_ms_def split: option.splits)

text \<open>A heartbeat makes a peer healthy for three seconds, degraded for five more and stale after that.\<close>

lemma health_ages:
  assumes "lt' = on_heartbeat lt peer epoch seq ts now b"
  shows "unat later - unat now < 3000 \<Longrightarrow> health lt' peer later = Healthy"
    "3000 \<le> unat later - unat now \<Longrightarrow> unat later - unat now < 8000 \<Longrightarrow> health lt' peer later = Degraded"
    "8000 \<le> unat later - unat now \<Longrightarrow> health lt' peer later = Stale"
  using assms by (auto simp: health_def on_heartbeat_def entry_update_def Let_def word_less_nat_alt unat_sat_sub
      split: option.splits)

end
