(* ===== verification/Desktop_Packet.thy ===== *)
theory Desktop_Packet
  imports Talk_Prelude
begin

text \<open>
  The desktop's own packet, \<open>tauri-desktop/src-tauri/src/protocol.rs\<close>: discovery, keys and the older audio packets.
  The bincode encoding and CRC-32 come from other crates and are parameters, the time of day an argument.
\<close>

section \<open>Packets\<close>

datatype PacketType =
  Discovery rstring u8
  | DiscoveryWithKey rstring u8 "bytes option"
  | AudioPacket u8 bytes
  | EncryptedAudio u8 bytes bytes bytes
  | KeepAlive
  | KeyExchangeRequest bytes
  | KeyExchangeResponse bytes bool

record Packet =
  pk_version :: u8
  pk_device_id :: u32
  pk_type :: PacketType
  pk_timestamp :: u64
  pk_checksum :: u32

definition PACKET_VERSION :: u8 where "PACKET_VERSION = 2"
definition MAX_PACKET_BYTES :: nat where "MAX_PACKET_BYTES = 64 * 1024"

text \<open>The bytes the hasher is fed, in order.\<close>

fun type_digest :: "PacketType \<Rightarrow> bytes" where
  "type_digest (Discovery device_name channel) = [0] @ device_name @ [channel]"
| "type_digest (DiscoveryWithKey device_name channel public_key) =
     [1] @ device_name @ [channel] @ (case public_key of Some key \<Rightarrow> key | None \<Rightarrow> [])"
| "type_digest (AudioPacket channel data) = [2] @ [channel] @ data"
| "type_digest (EncryptedAudio channel nonce auth_tag data) = [3] @ [channel] @ nonce @ auth_tag @ data"
| "type_digest KeepAlive = [4]"
| "type_digest (KeyExchangeRequest public_key) = [5] @ public_key"
| "type_digest (KeyExchangeResponse public_key success) = [6] @ public_key @ [if success then 1 else 0]"

definition calculate_checksum :: "(bytes \<Rightarrow> u32) \<Rightarrow> Packet \<Rightarrow> u32" where
  "calculate_checksum crc p =
     crc (to_le 1 (pk_version p) @ to_le 4 (pk_device_id p) @ to_le 8 (pk_timestamp p) @ type_digest (pk_type p))"

definition with_checksum :: "(bytes \<Rightarrow> u32) \<Rightarrow> Packet \<Rightarrow> Packet" where
  "with_checksum crc p = p\<lparr>pk_checksum := calculate_checksum crc p\<rparr>"

definition verify_checksum :: "(bytes \<Rightarrow> u32) \<Rightarrow> Packet \<Rightarrow> bool" where
  "verify_checksum crc p \<longleftrightarrow> calculate_checksum crc p = pk_checksum p"

definition discovery :: "(bytes \<Rightarrow> u32) \<Rightarrow> u32 \<Rightarrow> rstring \<Rightarrow> u8 \<Rightarrow> u64 \<Rightarrow> Packet" where
  "discovery crc device_id device_name channel timestamp =
     with_checksum crc
       \<lparr>pk_version = PACKET_VERSION, pk_device_id = device_id, pk_type = Discovery device_name channel,
        pk_timestamp = timestamp, pk_checksum = 0\<rparr>"

definition discovery_with_key :: "(bytes \<Rightarrow> u32) \<Rightarrow> u32 \<Rightarrow> rstring \<Rightarrow> u8 \<Rightarrow> bytes option \<Rightarrow> u64 \<Rightarrow> Packet" where
  "discovery_with_key crc device_id device_name channel public_key timestamp =
     with_checksum crc
       \<lparr>pk_version = PACKET_VERSION, pk_device_id = device_id,
        pk_type = DiscoveryWithKey device_name channel public_key, pk_timestamp = timestamp, pk_checksum = 0\<rparr>"

definition audio_packet :: "(bytes \<Rightarrow> u32) \<Rightarrow> u32 \<Rightarrow> u8 \<Rightarrow> bytes \<Rightarrow> u64 \<Rightarrow> Packet" where
  "audio_packet crc device_id channel data timestamp =
     with_checksum crc
       \<lparr>pk_version = PACKET_VERSION, pk_device_id = device_id, pk_type = AudioPacket channel data,
        pk_timestamp = timestamp, pk_checksum = 0\<rparr>"

definition encrypted_audio :: "(bytes \<Rightarrow> u32) \<Rightarrow> u32 \<Rightarrow> u8 \<Rightarrow> bytes \<Rightarrow> bytes \<Rightarrow> bytes \<Rightarrow> u64 \<Rightarrow> Packet" where
  "encrypted_audio crc device_id channel nonce auth_tag data timestamp =
     with_checksum crc
       \<lparr>pk_version = PACKET_VERSION, pk_device_id = device_id, pk_type = EncryptedAudio channel nonce auth_tag data,
        pk_timestamp = timestamp, pk_checksum = 0\<rparr>"

definition keep_alive :: "(bytes \<Rightarrow> u32) \<Rightarrow> u32 \<Rightarrow> u64 \<Rightarrow> Packet" where
  "keep_alive crc device_id timestamp =
     with_checksum crc
       \<lparr>pk_version = PACKET_VERSION, pk_device_id = device_id, pk_type = KeepAlive, pk_timestamp = timestamp,
        pk_checksum = 0\<rparr>"

definition key_exchange_packet :: "(bytes \<Rightarrow> u32) \<Rightarrow> u32 \<Rightarrow> bytes \<Rightarrow> u64 \<Rightarrow> Packet" where
  "key_exchange_packet crc device_id public_key timestamp =
     with_checksum crc
       \<lparr>pk_version = PACKET_VERSION, pk_device_id = device_id, pk_type = KeyExchangeRequest public_key,
        pk_timestamp = timestamp, pk_checksum = 0\<rparr>"

section \<open>Encoding\<close>

text \<open>The encoder and the decoder with its size limit.\<close>

record bincode =
  bc_serialize :: "Packet \<Rightarrow> bytes option"
  bc_deserialize :: "nat \<Rightarrow> bytes \<Rightarrow> Packet option"

datatype packet_error = SerializationFailed | DeserializationFailed | InvalidProtocolVersion u8 | ChecksumFailed

definition serialize :: "bincode \<Rightarrow> Packet \<Rightarrow> packet_error + bytes" where
  "serialize bc p = (case bc_serialize bc p of None \<Rightarrow> Inl SerializationFailed | Some bs \<Rightarrow> Inr bs)"

definition deserialize :: "bincode \<Rightarrow> (bytes \<Rightarrow> u32) \<Rightarrow> bytes \<Rightarrow> packet_error + Packet" where
  "deserialize bc crc data =
     (case bc_deserialize bc MAX_PACKET_BYTES data of
        None \<Rightarrow> Inl DeserializationFailed
      | Some p \<Rightarrow>
          if pk_version p < 1 \<or> PACKET_VERSION < pk_version p then Inl (InvalidProtocolVersion (pk_version p))
          else if \<not> verify_checksum crc p then Inl ChecksumFailed
          else Inr p)"

fun estimate_type_size :: "PacketType \<Rightarrow> nat" where
  "estimate_type_size (Discovery device_name _) = 50 + length device_name"
| "estimate_type_size (DiscoveryWithKey device_name _ _) = 82 + length device_name"
| "estimate_type_size (AudioPacket _ data) = 50 + length data"
| "estimate_type_size (EncryptedAudio _ _ _ data) = 78 + length data"
| "estimate_type_size KeepAlive = 50"
| "estimate_type_size (KeyExchangeRequest _) = 82"
| "estimate_type_size (KeyExchangeResponse _ _) = 83"

definition estimate_size :: "Packet \<Rightarrow> nat" where
  "estimate_size p = estimate_type_size (pk_type p)"

definition packet_is_encrypted :: "Packet \<Rightarrow> bool" where
  "packet_is_encrypted p = (case pk_type p of EncryptedAudio _ _ _ _ \<Rightarrow> True | _ \<Rightarrow> False)"

text \<open>
  What the code relies on: the decoder inverts the encoder within its limit, and the encoding of a struct starts with
  its first field, here the version byte.
\<close>

definition bincode_ok :: "bincode \<Rightarrow> bool" where
  "bincode_ok bc \<longleftrightarrow> (\<forall>p bs. bc_serialize bc p = Some bs \<longrightarrow>
     bs \<noteq> [] \<and> hd bs = pk_version p \<and> (\<forall>limit. length bs \<le> limit \<longrightarrow> bc_deserialize bc limit bs = Some p))"

section \<open>Lemmas\<close>

lemmas packet_makers =
  discovery_def discovery_with_key_def audio_packet_def encrypted_audio_def keep_alive_def key_exchange_packet_def

lemma with_checksum_fields [simp]:
  "pk_version (with_checksum crc p) = pk_version p" "pk_device_id (with_checksum crc p) = pk_device_id p"
  "pk_type (with_checksum crc p) = pk_type p" "pk_timestamp (with_checksum crc p) = pk_timestamp p"
  by (simp_all add: with_checksum_def)

lemma with_checksum_verifies [simp]: "verify_checksum crc (with_checksum crc p)"
  by (simp add: verify_checksum_def with_checksum_def calculate_checksum_def)

text \<open>A packet made with a checksum arrives as it was sent; a field changed on the way is caught by the checksum.\<close>

lemma packet_arrives:
  assumes "bincode_ok bc" "bc_serialize bc (with_checksum crc p) = Some bs" "length bs \<le> MAX_PACKET_BYTES"
    "pk_version p = PACKET_VERSION"
  shows "deserialize bc crc bs = Inr (with_checksum crc p)" "bs \<noteq> []" "hd bs = PACKET_VERSION"
  using assms unfolding bincode_ok_def by (auto simp: deserialize_def PACKET_VERSION_def)

lemma deserialize_Inr:
  assumes "deserialize bc crc data = Inr p"
  shows "verify_checksum crc p" "pk_version p \<noteq> 0" "pk_version p \<le> 2"
  using assms by (auto simp: deserialize_def PACKET_VERSION_def split: option.splits if_splits)

text \<open>An encoding for the demonstrations: a table of the packets in use, each with its bytes.\<close>

definition table_bincode :: "(Packet \<times> bytes) list \<Rightarrow> bincode" where
  "table_bincode tbl =
     \<lparr>bc_serialize = map_of tbl,
      bc_deserialize = (\<lambda>limit bs. if length bs \<le> limit then map_of (map prod.swap tbl) bs else None)\<rparr>"

lemma table_bincode_ok:
  assumes "distinct (map snd tbl)" "\<forall>(p, bs) \<in> set tbl. bs \<noteq> [] \<and> hd bs = pk_version p"
  shows "bincode_ok (table_bincode tbl)"
proof -
  have "map_of (map prod.swap tbl) bs = Some p" if "map_of tbl p = Some bs" for p bs
  proof (rule map_of_is_SomeI)
    show "distinct (map fst (map prod.swap tbl))" using assms(1) by (simp add: comp_def)
    show "(bs, p) \<in> set (map prod.swap tbl)" using map_of_SomeD [OF that] by force
  qed
  then show ?thesis using assms(2) by (fastforce simp: bincode_ok_def table_bincode_def dest: map_of_SomeD)
qed

end
