(* ===== verification/Desktop_Control.thy ===== *)
theory Desktop_Control
  imports Control_Auth Hybrid_Rekey Pqc Ptt_Frames Desktop_Liveness Desktop_Packet
begin

text \<open>
  The authenticated control plane of the desktop, \<open>tauri-desktop/src-tauri/src/transport/control_plane.rs\<close>: the codec of
  the room, the staged keys of a rekey and what an inbound control frame makes the relay client do. Each method is a
  step; the random bytes it draws are arguments, the session handed to the install callback part of the result.
\<close>

section \<open>Model\<close>

text \<open>The libraries the desktop's transports are built on.\<close>

record desk_env =
  dk_enc :: aead_fun
  dk_dec :: aead_fun
  dk_sha :: "bytes \<Rightarrow> bytes"
  dk_hkdf :: "bytes \<Rightarrow> bytes \<Rightarrow> bytes"
  dk_kem :: kem_primitives
  dk_crc :: "bytes \<Rightarrow> u32"
  dk_bincode :: bincode
  dk_hex_encode :: "bytes \<Rightarrow> rstring"
  dk_hex_decode :: "rstring \<Rightarrow> bytes option"

text \<open>The random bytes of a call: the nonce of a seal, the secrets of a key agreement, the prefix of a new session.\<close>

record desk_draw =
  dd_nonce :: bytes
  dd_secret :: bytes
  dd_kem :: bytes
  dd_prefix :: bytes

definition AUTO_PQC_DEFAULT :: bool where "AUTO_PQC_DEFAULT = False"

record StagedHybrid =
  sh_session :: CryptoSession
  sh_token :: bytes
  sh_staged_at_ms :: u64
  sh_channel :: u8

record ControlPlane =
  cp_codec :: "ControlAuthCodec option"
  cp_psk :: "bytes option"
  cp_pending_initiator :: "PskHybridInitiator option"
  cp_pending_initiator_session :: "CryptoSession option"
  cp_initiator_expect :: "(bytes \<times> u64) option"
  cp_staged :: "StagedHybrid option"
  cp_auto_pqc :: bool

datatype ControlAction =
  ActNotControl | ActIgnore | ActRejected string u8 | ActHeartbeat | HybridOutbound bytes | ActEmergency | InstalledPq

definition ControlPlane_new :: ControlPlane where
  "ControlPlane_new =
     \<lparr>cp_codec = None, cp_psk = None, cp_pending_initiator = None, cp_pending_initiator_session = None,
      cp_initiator_expect = None, cp_staged = None, cp_auto_pqc = AUTO_PQC_DEFAULT\<rparr>"

definition install_psk :: "desk_env \<Rightarrow> ControlPlane \<Rightarrow> bytes \<Rightarrow> rstring \<Rightarrow> rstring \<Rightarrow> u64 \<Rightarrow> ControlPlane" where
  "install_psk env cp key room_id sender_id epoch =
     cp\<lparr>cp_psk := Some key,
        cp_codec := (case ControlAuthCodec_new (dk_sha env) key room_id sender_id epoch of Inr c \<Rightarrow> Some c | Inl _ \<Rightarrow> None)\<rparr>"

definition plane_clear :: "ControlPlane \<Rightarrow> ControlPlane" where
  "plane_clear cp =
     cp\<lparr>cp_codec := None, cp_psk := None, cp_pending_initiator := None, cp_pending_initiator_session := None,
        cp_initiator_expect := None, cp_staged := None\<rparr>"

definition seal :: "desk_env \<Rightarrow> ControlPlane \<Rightarrow> bytes \<Rightarrow> u64 \<Rightarrow> bytes \<Rightarrow> ControlPlane \<times> bytes option" where
  "seal env cp inner now_ms nonce =
     (case cp_codec cp of
        None \<Rightarrow> (cp, None)
      | Some c \<Rightarrow>
          (case seal_with_rng (dk_enc env) c inner now_ms nonce of
             (c, Inr sealed) \<Rightarrow> (cp\<lparr>cp_codec := Some c\<rparr>, Some sealed)
           | (c, Inl _) \<Rightarrow> (cp\<lparr>cp_codec := Some c\<rparr>, None)))"

definition encode_heartbeat_sealed ::
  "desk_env \<Rightarrow> ControlPlane \<Rightarrow> u64 \<Rightarrow> u32 \<Rightarrow> u64 \<Rightarrow> PresenceState \<Rightarrow> u16 \<Rightarrow> bytes \<Rightarrow> ControlPlane \<times> bytes option" where
  "encode_heartbeat_sealed env cp epoch seq now_ms state rtt nonce =
     (let p = to_le 8 epoch @ to_le 4 seq @ to_le 8 now_ms @ [presence_as_byte state] @ to_le 2 rtt @ [local_capabilities];
          inner = encode_tlv OP_HEARTBEAT p
      in seal env cp inner now_ms nonce)"

section \<open>The rekey handlers\<close>

text \<open>An answer: the frame sealed and handed out, or what the code returns when it cannot be sealed.\<close>

definition answer ::
  "desk_env \<Rightarrow> ControlPlane \<Rightarrow> bytes \<Rightarrow> u64 \<Rightarrow> bytes \<Rightarrow> ControlAction \<Rightarrow> ControlPlane \<times> ControlAction" where
  "answer env cp inner now_ms nonce failed =
     (case seal env cp inner now_ms nonce of
        (cp, Some frame) \<Rightarrow> (cp, HybridOutbound frame)
      | (cp, None) \<Rightarrow> (cp, failed))"

definition on_hybrid_init ::
  "desk_env \<Rightarrow> ControlPlane \<Rightarrow> bytes \<Rightarrow> u64 \<Rightarrow> desk_draw \<Rightarrow> ControlPlane \<times> ControlAction" where
  "on_hybrid_init env cp payload now_ms dd =
     (case cp_psk cp of None \<Rightarrow> (cp, ActRejected ''hybrid_no_psk'' OP_HYBRID_INIT) | Some psk \<Rightarrow>
      case parse_hybrid_frame payload of None \<Rightarrow> (cp, ActRejected ''hybrid_malformed'' OP_HYBRID_INIT) | Some (channel, init_bytes) \<Rightarrow>
      case init_from_bytes init_bytes of Inl _ \<Rightarrow> (cp, ActRejected ''hybrid_malformed'' OP_HYBRID_INIT) | Inr init_msg \<Rightarrow>
      case psk_hybrid_respond (dk_hkdf env) (dk_kem env) psk init_msg (dd_secret dd) (dd_kem dd) (dd_prefix dd) of
        Inl _ \<Rightarrow> (cp, ActRejected ''hybrid_respond'' OP_HYBRID_INIT)
      | Inr (resp, session) \<Rightarrow>
          let resp_bytes = resp_to_bytes resp;
              token = token_for (dk_sha env) resp_bytes;
              cp = cp\<lparr>cp_staged := Some \<lparr>sh_session = session, sh_token = token, sh_staged_at_ms = now_ms, sh_channel = channel\<rparr>\<rparr>;
              inner = encode_hybrid_frame OP_HYBRID_RESP channel resp_bytes
          in answer env cp inner now_ms (dd_nonce dd) (ActRejected ''hybrid_seal'' OP_HYBRID_INIT))"

definition on_hybrid_resp ::
  "desk_env \<Rightarrow> ControlPlane \<Rightarrow> bytes \<Rightarrow> u64 \<Rightarrow> desk_draw \<Rightarrow> ControlPlane \<times> ControlAction" where
  "on_hybrid_resp env cp payload now_ms dd =
     (case parse_hybrid_frame payload of None \<Rightarrow> (cp, ActRejected ''hybrid_malformed'' OP_HYBRID_RESP) | Some (channel, resp_bytes) \<Rightarrow>
      case cp_pending_initiator cp of None \<Rightarrow> (cp, ActIgnore) | Some initiator \<Rightarrow>
      let cp = cp\<lparr>cp_pending_initiator := None\<rparr> in
      case resp_from_bytes resp_bytes of Inl _ \<Rightarrow> (cp, ActRejected ''hybrid_malformed'' OP_HYBRID_RESP) | Inr resp_msg \<Rightarrow>
      case psk_hybrid_complete (dk_hkdf env) (dk_kem env) initiator resp_msg (dd_prefix dd) of
        Inl _ \<Rightarrow> (cp, ActRejected ''hybrid_complete'' OP_HYBRID_RESP)
      | Inr session \<Rightarrow>
          let token = token_for (dk_sha env) resp_bytes;
              cp = cp\<lparr>cp_pending_initiator_session := Some session, cp_initiator_expect := Some (token, now_ms)\<rparr>;
              inner = encode_hybrid_frame OP_HYBRID_CONFIRM channel token
          in answer env cp inner now_ms (dd_nonce dd) (ActRejected ''hybrid_seal'' OP_HYBRID_RESP))"

definition on_hybrid_confirm ::
  "desk_env \<Rightarrow> ControlPlane \<Rightarrow> bytes \<Rightarrow> u64 \<Rightarrow> desk_draw \<Rightarrow> ControlPlane \<times> ControlAction" where
  "on_hybrid_confirm env cp payload now_ms dd =
     (case parse_hybrid_frame payload of None \<Rightarrow> (cp, ActRejected ''hybrid_confirm'' OP_HYBRID_CONFIRM) | Some (_, token) \<Rightarrow>
      case cp_staged cp of None \<Rightarrow> (cp, ActRejected ''hybrid_confirm'' OP_HYBRID_CONFIRM) | Some staged \<Rightarrow>
      if \<not> confirm_acceptable (Some (sh_token staged)) (Some token) now_ms (sh_staged_at_ms staged)
      then (cp, ActRejected ''hybrid_confirm'' OP_HYBRID_CONFIRM)
      else answer env cp (encode_hybrid_frame OP_HYBRID_CONFIRM_ACK (sh_channel staged) (sh_token staged)) now_ms (dd_nonce dd) ActIgnore)"

definition on_hybrid_confirm_ack ::
  "ControlPlane \<Rightarrow> bytes \<Rightarrow> u64 \<Rightarrow> ControlPlane \<times> ControlAction \<times> CryptoSession option" where
  "on_hybrid_confirm_ack cp payload now_ms =
     (let rejected = ActRejected ''hybrid_confirm_ack'' OP_HYBRID_CONFIRM_ACK in
      case parse_hybrid_frame payload of None \<Rightarrow> (cp, rejected, None) | Some (_, token) \<Rightarrow>
      case cp_initiator_expect cp of None \<Rightarrow> (cp, rejected, None) | Some (staged_token, staged_at_ms) \<Rightarrow>
      let cp = cp\<lparr>cp_initiator_expect := None\<rparr> in
      if \<not> confirm_acceptable (Some staged_token) (Some token) now_ms staged_at_ms
      then (cp\<lparr>cp_pending_initiator_session := None\<rparr>, rejected, None)
      else case cp_pending_initiator_session cp of
             None \<Rightarrow> (cp, rejected, None)
           | Some session \<Rightarrow> (cp\<lparr>cp_pending_initiator_session := None\<rparr>, InstalledPq, Some session))"

definition try_decrypt_staged :: "desk_env \<Rightarrow> ControlPlane \<Rightarrow> bytes \<Rightarrow> ControlPlane \<times> bytes option" where
  "try_decrypt_staged env cp bs =
     (case cp_staged cp of
        None \<Rightarrow> (cp, None)
      | Some staged \<Rightarrow>
          (case decrypt (dk_dec env) (sh_session staged) bs of
             (s, r) \<Rightarrow> (cp\<lparr>cp_staged := Some (staged\<lparr>sh_session := s\<rparr>)\<rparr>, case r of Inr pt \<Rightarrow> Some pt | Inl _ \<Rightarrow> None)))"

definition promote_staged :: "ControlPlane \<Rightarrow> ControlPlane \<times> CryptoSession option" where
  "promote_staged cp = (cp\<lparr>cp_staged := None\<rparr>, map_option sh_session (cp_staged cp))"

definition expire_staged :: "ControlPlane \<Rightarrow> ControlPlane" where
  "expire_staged cp = cp\<lparr>cp_staged := None, cp_pending_initiator_session := None, cp_initiator_expect := None\<rparr>"

section \<open>Inbound frames\<close>

definition dispatch_verified ::
  "desk_env \<Rightarrow> ControlPlane \<Rightarrow> VerifiedControl \<Rightarrow> u64 \<Rightarrow> desk_draw \<Rightarrow> ControlPlane \<times> ControlAction \<times> CryptoSession option" where
  "dispatch_verified env cp v now_ms dd =
     (case decode_control_frame (vc_inner_frame v) of
        None \<Rightarrow> (cp, ActIgnore, None)
      | Some decoded \<Rightarrow>
          let op = dc_opcode decoded; payload = dc_payload decoded;
              plain = (\<lambda>(cp, a). (cp, a, None)) in
          if op = OP_HEARTBEAT \<or> op = OP_RECV_ACK \<or> op = OP_EOT_ACK \<or> op = OP_WAKE \<or> op = OP_PTT_START_V2 \<or>
             op = OP_PTT_STOP_V2 \<or> op = OP_PARTNER_OFFLINE then (cp, ActHeartbeat, None)
          else if op = OP_EMERGENCY \<or> op = OP_MANDOWN \<or> op = OP_EMERGENCY_CLEAR then (cp, ActEmergency, None)
          else if op = OP_HYBRID_INIT then plain (on_hybrid_init env cp payload now_ms dd)
          else if op = OP_HYBRID_RESP then plain (on_hybrid_resp env cp payload now_ms dd)
          else if op = OP_HYBRID_CONFIRM then plain (on_hybrid_confirm env cp payload now_ms dd)
          else if op = OP_HYBRID_CONFIRM_ACK then on_hybrid_confirm_ack cp payload now_ms
          else (cp, ActIgnore, None))"

text \<open>\<open>classify_inbound\<close> does not panic (\<open>classify_no_panic\<close>).\<close>

definition handle_inbound ::
  "desk_env \<Rightarrow> ControlPlane \<Rightarrow> bytes \<Rightarrow> u64 \<Rightarrow> desk_draw \<Rightarrow> ControlPlane \<times> ControlAction \<times> CryptoSession option" where
  "handle_inbound env cp bs now_ms dd =
     (case classify_inbound (dk_dec env) (cp_codec cp) bs now_ms of
        (codec, r) \<Rightarrow>
          let cp = cp\<lparr>cp_codec := codec\<rparr> in
          case r of
            Ok NotControl \<Rightarrow> (cp, ActNotControl, None)
          | Ok (LegacyHint _) \<Rightarrow> (cp, ActIgnore, None)
          | Ok (RejectedUnauthenticated opcode) \<Rightarrow> (cp, ActRejected ''unauthenticated'' opcode, None)
          | Ok (Verified v) \<Rightarrow> dispatch_verified env cp v now_ms dd
          | _ \<Rightarrow> (cp, ActRejected ''auth_or_replay'' 0x18, None))"

section \<open>What a control frame can change\<close>

text \<open>The fields only an initiator fills.\<close>

definition never_initiated :: "ControlPlane \<Rightarrow> bool" where
  "never_initiated cp \<longleftrightarrow> cp_pending_initiator cp = None \<and> cp_pending_initiator_session cp = None \<and> cp_initiator_expect cp = None"

lemma never_initiated_new [simp]: "never_initiated ControlPlane_new" "never_initiated (plane_clear cp)"
  by (simp_all add: never_initiated_def ControlPlane_new_def plane_clear_def)

lemma never_initiated_updates [simp]:
  "never_initiated (cp\<lparr>cp_codec := c\<rparr>) = never_initiated cp" "never_initiated (cp\<lparr>cp_psk := k\<rparr>) = never_initiated cp"
  "never_initiated (cp\<lparr>cp_staged := s\<rparr>) = never_initiated cp"
  by (simp_all add: never_initiated_def)

lemma seal_frame:
  assumes "seal env cp inner now nonce = (cp', r)"
  shows "\<exists>c. cp' = cp\<lparr>cp_codec := c\<rparr>" "never_initiated cp' = never_initiated cp"
proof -
  show "\<exists>c. cp' = cp\<lparr>cp_codec := c\<rparr>"
    using assms by (auto simp: seal_def split: option.splits prod.splits sum.splits intro: exI [of _ None])
  then show "never_initiated cp' = never_initiated cp" by auto
qed

lemma answer_frame: "\<exists>c. fst (answer env cp inner now nonce failed) = cp\<lparr>cp_codec := c\<rparr>"
  using seal_frame(1) [of env cp inner now nonce] by (auto simp: answer_def split: prod.split option.split)

lemma answer_keeps [simp]: "never_initiated (fst (answer env cp inner now nonce failed)) = never_initiated cp"
  using answer_frame [of env cp inner now nonce failed] by auto

text \<open>
  Without a pending initiator a response is ignored and an acknowledgement rejected: no control frame installs a
  session, and none makes the plane an initiator.
\<close>

lemma dispatch_never_installs:
  assumes "never_initiated cp" "dispatch_verified env cp v now dd = (cp', a, installed)"
  shows "never_initiated cp' \<and> installed = None"
proof -
  have init: "never_initiated (fst (on_hybrid_init env cp p now dd))" for p
    using assms(1) by (auto simp: on_hybrid_init_def Let_def split: option.split sum.split)
  have resp: "never_initiated (fst (on_hybrid_resp env cp p now dd))" for p
    using assms(1) by (auto simp: on_hybrid_resp_def never_initiated_def split: option.split)
  have confirm: "never_initiated (fst (on_hybrid_confirm env cp p now dd))" for p
    using assms(1) by (auto simp: on_hybrid_confirm_def split: option.split)
  have ack: "fst (on_hybrid_confirm_ack cp p now) = cp" "snd (snd (on_hybrid_confirm_ack cp p now)) = None" for p
    using assms(1) by (auto simp: on_hybrid_confirm_ack_def never_initiated_def Let_def split: option.split)
  show ?thesis
    using assms init resp confirm ack
    by (auto simp: dispatch_verified_def Let_def split: option.splits if_splits prod.splits)
      (metis fst_conv snd_conv)+
qed

lemma handle_never_installs:
  assumes "never_initiated cp" "handle_inbound env cp bs now dd = (cp', a, installed)"
  shows "never_initiated cp' \<and> installed = None"
proof (cases "\<exists>c v. classify_inbound (dk_dec env) (cp_codec cp) bs now = (c, Ok (Verified v))")
  case True
  then obtain c v where "dispatch_verified env (cp\<lparr>cp_codec := c\<rparr>) v now dd = (cp', a, installed)"
    using assms(2) by (auto simp: handle_inbound_def)
  from dispatch_never_installs [OF _ this] assms(1) show ?thesis by simp
next
  case False
  then show ?thesis
    using assms by (auto simp: handle_inbound_def Let_def split: prod.splits outcome.splits InboundControl.splits)
qed

end
