(* ===== verification/Desktop_Manager.thy ===== *)
theory Desktop_Manager
  imports Desktop_Queue Desktop_Engine Desktop_Control Wire
begin

text \<open>
  The LAN transport of the desktop, \<open>tauri-desktop/src-tauri/src/transport/manager.rs\<close>: one multicast socket, the session
  of the QR room, the peers found by discovery with a cipher each, and the tasks that beacon, keep alive, send heartbeats
  and receive. A turn of a task is a step that does nothing once the manager is stopped. What the system answers, the
  datagram that arrived and the time are arguments; what is sent is part of the result.
\<close>

section \<open>State\<close>

definition MAX_PACKET_SIZE :: nat where "MAX_PACKET_SIZE = 1500"
definition PEER_TIMEOUT_SECS :: u64 where "PEER_TIMEOUT_SECS = 30"
definition MIN_CHANNEL :: u8 where "MIN_CHANNEL = 1"
definition MAX_CHANNEL :: u8 where "MAX_CHANNEL = 16"
definition DESK_SUBCH_MAIN :: u8 where "DESK_SUBCH_MAIN = 0"
definition UDP_AUDIO_CAPACITY :: nat where "UDP_AUDIO_CAPACITY = 64"
definition UDP_AUDIO_MAX_AGE :: instant where "UDP_AUDIO_MAX_AGE = millis 250"

datatype SocketAddr = V4 u8 u8 u8 u8 u16

definition dotted :: "u8 \<Rightarrow> rstring" where "dotted b = dec_digits (unat b)"

fun addr_to_string :: "SocketAddr \<Rightarrow> rstring" where
  "addr_to_string (V4 a b c d port) =
     dotted a @ ascii ''.'' @ dotted b @ ascii ''.'' @ dotted c @ ascii ''.'' @ dotted d @ ascii '':'' @ dec_digits (unat port)"

text \<open>\<open>format!("{:08X}", id)\<close> and \<open>format!("{:08x}", id)\<close>\<close>

definition HEX_UPPER :: bytes where "HEX_UPPER = ascii ''0123456789ABCDEF''"

definition hex_byte_upper :: "u8 \<Rightarrow> bytes" where
  "hex_byte_upper b = [HEX_UPPER ! unat (drop_bit 4 b), HEX_UPPER ! unat (b AND 0x0F)]"

definition hex_id_upper :: "u32 \<Rightarrow> rstring" where
  "hex_id_upper device_id = concat (map hex_byte_upper (rev (to_le 4 device_id)))"

definition hex_id :: "u32 \<Rightarrow> rstring" where
  "hex_id device_id = concat (map hex_byte (rev (to_le 4 device_id)))"

record DeskFrame =
  df_sender :: rstring
  df_timestamp :: u64
  df_opus :: bytes

record TransportConfig =
  tc_multicast_addr :: rstring
  tc_use_random_port :: bool
  tc_fixed_port :: u16
  tc_encryption_enabled :: bool

definition TransportConfig_default :: TransportConfig where
  "TransportConfig_default =
     \<lparr>tc_multicast_addr = ascii ''239.255.42.42'', tc_use_random_port = False, tc_fixed_port = 5555,
      tc_encryption_enabled = True\<rparr>"

record PeerInfo =
  pi_device_id :: u32
  pi_device_name :: rstring
  pi_address :: SocketAddr
  pi_last_seen :: u64
  pi_channel :: u8
  pi_public_key :: "rstring option"
  pi_key_exchanged :: bool

text \<open>The subtraction wraps in the release profile.\<close>

definition peer_is_active :: "PeerInfo \<Rightarrow> u64 \<Rightarrow> bool" where
  "peer_is_active p now \<longleftrightarrow> now - pi_last_seen p < PEER_TIMEOUT_SECS"

definition get_public_key_bytes :: "desk_env \<Rightarrow> PeerInfo \<Rightarrow> bytes option" where
  "get_public_key_bytes env p =
     (case pi_public_key p of
        None \<Rightarrow> None
      | Some hex \<Rightarrow> (case dk_hex_decode env hex of
                       None \<Rightarrow> None
                     | Some bs \<Rightarrow> if length bs = 32 then Some bs else None))"

datatype desk_error =
  DeskIo rstring | DeskBind rstring | DeskMulticast rstring | DeskSerialization | DeskGroupCrypto crypto_error
  | DeskEncryption string | NoPortAvailable

record DeskTransport =
  dm_bound_port :: u16
  dm_device_id :: u32
  dm_device_name :: rstring
  dm_current_channel :: u8
  dm_config :: TransportConfig
  dm_peers :: "(u32, PeerInfo) hmap"
  dm_crypto_engines :: "(u32, CryptoEngine) hmap"
  dm_group_crypto :: "CryptoSession option"
  dm_sender_id :: rstring
  dm_our_public_key :: "bytes option"
  dm_identity :: CryptoEngine
  dm_running :: bool
  dm_audio :: "DeskFrame RealtimeQueue"
  dm_audio_rx :: bool
  dm_liveness :: LivenessTracker
  dm_session_epoch :: u64
  dm_heartbeat_seq :: u32

section \<open>Creation\<close>

datatype bind_answer = Bound | AddrInUse | BindFailed rstring

text \<open>At most a hundred random ports are tried; a port in use is skipped, any other error ends the search.\<close>

fun bind_attempts :: "(u16 \<times> bind_answer) list \<Rightarrow> desk_error + u16" where
  "bind_attempts [] = Inl NoPortAvailable"
| "bind_attempts ((port, Bound) # rest) = Inr port"
| "bind_attempts ((port, AddrInUse) # rest) = bind_attempts rest"
| "bind_attempts ((port, BindFailed e) # rest) = Inl (DeskBind e)"

definition bind_random_udp :: "(u16 \<times> bind_answer) list \<Rightarrow> desk_error + u16" where
  "bind_random_udp attempts = bind_attempts (take 100 attempts)"

text \<open>The calls that make the socket, each with the system's error if it has one.\<close>

record socket_answers =
  sk_random :: "(u16 \<times> bind_answer) list"
  sk_fixed :: "rstring option"
  sk_multicast_addr :: "rstring option"
  sk_join :: "rstring option"
  sk_ttl :: "rstring option"
  sk_nonblocking :: "rstring option"

definition DeskTransport_with_config ::
  "desk_env \<Rightarrow> u32 \<Rightarrow> rstring \<Rightarrow> TransportConfig \<Rightarrow> socket_answers \<Rightarrow> desk_draw \<Rightarrow> u64 \<Rightarrow> instant \<Rightarrow> desk_error + DeskTransport" where
  "DeskTransport_with_config env device_id device_name config sk dd session_epoch now =
     (case (if tc_use_random_port config then bind_random_udp (sk_random sk)
            else (case sk_fixed sk of Some e \<Rightarrow> Inl (DeskBind e) | None \<Rightarrow> Inr (tc_fixed_port config))) of
        Inl e \<Rightarrow> Inl e
      | Inr port \<Rightarrow>
          case sk_multicast_addr sk of Some e \<Rightarrow> Inl (DeskMulticast e) | None \<Rightarrow>
          case sk_join sk of Some e \<Rightarrow> Inl (DeskMulticast e) | None \<Rightarrow>
          case sk_ttl sk of Some e \<Rightarrow> Inl (DeskMulticast e) | None \<Rightarrow>
          case sk_nonblocking sk of Some e \<Rightarrow> Inl (DeskBind e) | None \<Rightarrow>
          case generate_keypair (x_public (dk_kem env)) (CryptoEngine_new (dd_prefix dd)) (dd_secret dd) now of
            (crypto, our_public) \<Rightarrow>
              Inr \<lparr>dm_bound_port = port, dm_device_id = device_id, dm_device_name = device_name,
                   dm_current_channel = 1, dm_config = config, dm_peers = [], dm_crypto_engines = [],
                   dm_group_crypto = None, dm_sender_id = ascii ''desk-'' @ hex_id device_id,
                   dm_our_public_key = Some our_public, dm_identity = crypto, dm_running = False,
                   dm_audio = realtime_channel UDP_AUDIO_CAPACITY UDP_AUDIO_MAX_AGE, dm_audio_rx = True,
                   dm_liveness = LivenessTracker_new, dm_session_epoch = session_epoch, dm_heartbeat_seq = 0\<rparr>)"

definition DeskTransport_new ::
  "desk_env \<Rightarrow> u32 \<Rightarrow> rstring \<Rightarrow> socket_answers \<Rightarrow> desk_draw \<Rightarrow> u64 \<Rightarrow> instant \<Rightarrow> desk_error + DeskTransport" where
  "DeskTransport_new env device_id device_name sk dd session_epoch now =
     DeskTransport_with_config env device_id device_name TransportConfig_default sk dd session_epoch now"

section \<open>The sending tasks\<close>

text \<open>Each turn yields the datagram given to the group, if the send succeeds; \<open>os\<close> is the error of the send.\<close>

definition to_group :: "rstring option \<Rightarrow> bytes \<Rightarrow> bytes option" where
  "to_group os data = (case os of Some _ \<Rightarrow> None | None \<Rightarrow> Some data)"

definition beacon_turn :: "desk_env \<Rightarrow> DeskTransport \<Rightarrow> u64 \<Rightarrow> rstring option \<Rightarrow> bytes option" where
  "beacon_turn env m now os =
     (if \<not> dm_running m then None
      else let packet = (if tc_encryption_enabled (dm_config m)
                         then discovery_with_key (dk_crc env) (dm_device_id m) (dm_device_name m) (dm_current_channel m)
                                (dm_our_public_key m) now
                         else discovery (dk_crc env) (dm_device_id m) (dm_device_name m) (dm_current_channel m) now)
           in case serialize (dk_bincode env) packet of Inl _ \<Rightarrow> None | Inr data \<Rightarrow> to_group os data)"

definition keepalive_turn :: "desk_env \<Rightarrow> DeskTransport \<Rightarrow> u64 \<Rightarrow> rstring option \<Rightarrow> bytes option" where
  "keepalive_turn env m now os =
     (if \<not> dm_running m then None
      else if dm_peers m = [] then None
      else case serialize (dk_bincode env) (keep_alive (dk_crc env) (dm_device_id m) now) of
             Inl _ \<Rightarrow> None
           | Inr data \<Rightarrow> to_group os data)"

definition heartbeat_turn :: "DeskTransport \<Rightarrow> u64 \<Rightarrow> rstring option \<Rightarrow> DeskTransport \<times> bytes option" where
  "heartbeat_turn m now_ms os =
     (if \<not> dm_running m then (m, None)
      else let peer_key = hex_id_upper (dm_device_id m);
               seq = dm_heartbeat_seq m;
               m = m\<lparr>dm_heartbeat_seq := seq + 1\<rparr>;
               m = m\<lparr>dm_liveness := on_heartbeat_sent (dm_liveness m) peer_key (dm_session_epoch m) seq now_ms\<rparr>;
               frame = desk_encode_heartbeat (dm_session_epoch m) seq now_ms Idle 0
           in (m, to_group os frame))"

section \<open>The receiving thread\<close>

definition push_audio :: "DeskTransport \<Rightarrow> DeskFrame \<Rightarrow> instant \<Rightarrow> DeskTransport" where
  "push_audio m frame now = m\<lparr>dm_audio := fst (try_send (dm_audio m) frame now)\<rparr>"

definition try_group :: "desk_env \<Rightarrow> DeskTransport \<Rightarrow> bytes \<Rightarrow> DeskTransport \<times> bytes option" where
  "try_group env m received =
     (case dm_group_crypto m of
        None \<Rightarrow> (m, None)
      | Some crypto \<Rightarrow>
          (case decrypt (dk_dec env) crypto received of
             (c, Inr plain) \<Rightarrow> (m\<lparr>dm_group_crypto := Some c\<rparr>, Some plain)
           | (c, Inl _) \<Rightarrow> (m\<lparr>dm_group_crypto := Some c\<rparr>, None)))"

definition rx_control :: "DeskTransport \<Rightarrow> bytes \<Rightarrow> SocketAddr option \<Rightarrow> u64 \<Rightarrow> DeskTransport" where
  "rx_control m received src now_ms =
     (case desk_decode_control received of
        None \<Rightarrow> m
      | Some (opcode, payload) \<Rightarrow>
          if opcode = OP_HEARTBEAT then
            (case desk_parse_heartbeat payload of
               None \<Rightarrow> m
             | Some hb \<Rightarrow>
                 let peer_key = (case src of Some a \<Rightarrow> addr_to_string a | None \<Rightarrow> ascii ''unknown'')
                 in m\<lparr>dm_liveness := on_heartbeat (dm_liveness m) peer_key (dh_epoch hb) (dh_seq hb) (dh_ts_ms hb) now_ms
                        (presence_as_byte (dh_state hb))\<rparr>)
          else m)"

text \<open>An engine for the peer unless there is one; the flag says one was made.\<close>

definition adopt_peer_key :: "desk_env \<Rightarrow> DeskTransport \<Rightarrow> u32 \<Rightarrow> bytes \<Rightarrow> bytes \<Rightarrow> instant \<Rightarrow> DeskTransport \<times> bool" where
  "adopt_peer_key env m device_id peer_public nonce_prefix now =
     (if hm_contains (dm_crypto_engines m) device_id then (m, False)
      else case derive_peer_session (x_dh (dk_kem env)) (dk_hkdf env) (dm_identity m) peer_public nonce_prefix now of
             Inl _ \<Rightarrow> (m, False)
           | Inr engine \<Rightarrow> (m\<lparr>dm_crypto_engines := hm_insert device_id engine (dm_crypto_engines m)\<rparr>, True))"

definition legacy_frame :: "u32 \<Rightarrow> bytes \<Rightarrow> DeskFrame" where
  "legacy_frame device_id opus = \<lparr>df_sender = ascii ''legacy-'' @ hex_id_upper device_id, df_timestamp = 0, df_opus = opus\<rparr>"

definition rx_discovery_with_key ::
  "desk_env \<Rightarrow> DeskTransport \<Rightarrow> u32 \<Rightarrow> rstring \<Rightarrow> u8 \<Rightarrow> bytes option \<Rightarrow> SocketAddr \<Rightarrow> u64 \<Rightarrow> instant \<Rightarrow> bytes \<Rightarrow> DeskTransport" where
  "rx_discovery_with_key env m device_id device_name channel public_key src now_ms now nonce_prefix =
     (let peer = \<lparr>pi_device_id = device_id, pi_device_name = device_name, pi_address = src, pi_last_seen = now_ms div 1000,
                  pi_channel = channel, pi_public_key = map_option (dk_hex_encode env) public_key, pi_key_exchanged = False\<rparr>
      in case (case get_public_key_bytes env peer of
                 None \<Rightarrow> (m, peer)
               | Some peer_public \<Rightarrow>
                   if \<not> tc_encryption_enabled (dm_config m) then (m, peer)
                   else case adopt_peer_key env m device_id peer_public nonce_prefix now of
                          (m, key_exchange_succeeded) \<Rightarrow>
                            (m, peer\<lparr>pi_key_exchanged :=
                                  key_exchange_succeeded \<or> hm_contains (dm_crypto_engines m) device_id\<rparr>)) of
           (m, peer) \<Rightarrow> m\<lparr>dm_peers := hm_insert device_id peer (dm_peers m)\<rparr>)"

definition rx_audio_packet :: "desk_env \<Rightarrow> DeskTransport \<Rightarrow> u32 \<Rightarrow> bytes \<Rightarrow> instant \<Rightarrow> DeskTransport" where
  "rx_audio_packet env m device_id data now =
     (if \<not> tc_encryption_enabled (dm_config m) then push_audio m (legacy_frame device_id data) now
      else case hm_get (dm_crypto_engines m) device_id of
             None \<Rightarrow> m
           | Some engine \<Rightarrow>
               if engine_is_ready engine \<and> 28 < length data then
                 (case engine_decrypt (dk_dec env) engine (drop 28 data) (take 12 data) (take 16 (drop 12 data)) of
                    Inl _ \<Rightarrow> m
                  | Inr decrypted \<Rightarrow> push_audio m (legacy_frame device_id decrypted) now)
               else m)"

definition rx_packet ::
  "desk_env \<Rightarrow> DeskTransport \<Rightarrow> Packet \<Rightarrow> SocketAddr option \<Rightarrow> u64 \<Rightarrow> instant \<Rightarrow> bytes \<Rightarrow> DeskTransport" where
  "rx_packet env m p src_addr now_ms now nonce_prefix =
     (case pk_type p of
        Discovery device_name channel \<Rightarrow>
          (case src_addr of None \<Rightarrow> m | Some src \<Rightarrow>
             m\<lparr>dm_peers := hm_insert (pk_device_id p)
               \<lparr>pi_device_id = pk_device_id p, pi_device_name = device_name, pi_address = src, pi_last_seen = now_ms div 1000,
                pi_channel = channel, pi_public_key = None, pi_key_exchanged = False\<rparr> (dm_peers m)\<rparr>)
      | DiscoveryWithKey device_name channel public_key \<Rightarrow>
          (case src_addr of None \<Rightarrow> m | Some src \<Rightarrow>
             rx_discovery_with_key env m (pk_device_id p) device_name channel public_key src now_ms now nonce_prefix)
      | AudioPacket channel data \<Rightarrow> rx_audio_packet env m (pk_device_id p) data now
      | EncryptedAudio channel nonce auth_tag data \<Rightarrow>
          (case hm_get (dm_crypto_engines m) (pk_device_id p) of
             None \<Rightarrow> m
           | Some engine \<Rightarrow>
               if engine_is_ready engine then
                 (case engine_decrypt (dk_dec env) engine data nonce auth_tag of
                    Inl _ \<Rightarrow> m
                  | Inr decrypted \<Rightarrow> push_audio m (legacy_frame (pk_device_id p) decrypted) now)
               else m)
      | KeepAlive \<Rightarrow>
          (case hm_get (dm_peers m) (pk_device_id p) of
             None \<Rightarrow> m
           | Some peer \<Rightarrow> m\<lparr>dm_peers := hm_insert (pk_device_id p) (peer\<lparr>pi_last_seen := now_ms div 1000\<rparr>) (dm_peers m)\<rparr>)
      | KeyExchangeRequest public_key \<Rightarrow>
          (if tc_encryption_enabled (dm_config m)
           then fst (adopt_peer_key env m (pk_device_id p) public_key nonce_prefix now) else m)
      | KeyExchangeResponse public_key success \<Rightarrow>
          (if success \<and> tc_encryption_enabled (dm_config m)
           then fst (adopt_peer_key env m (pk_device_id p) public_key nonce_prefix now) else m))"

definition rx_datagram ::
  "desk_env \<Rightarrow> DeskTransport \<Rightarrow> bytes \<Rightarrow> SocketAddr option \<Rightarrow> u64 \<Rightarrow> instant \<Rightarrow> bytes \<Rightarrow> DeskTransport" where
  "rx_datagram env m received src_addr now_ms now nonce_prefix =
     (case try_group env m received of
        (m, Some plain) \<Rightarrow>
          (case unpack_wire_frame plain of
             Ok (_, _, sender, _, ts, opus) \<Rightarrow>
               if sender \<noteq> dm_sender_id m
               then push_audio m \<lparr>df_sender = sender, df_timestamp = ts, df_opus = opus\<rparr> now else m
           | _ \<Rightarrow> m)
      | (m, None) \<Rightarrow>
          if 0x10 \<le> (case received of [] \<Rightarrow> 0 | b # _ \<Rightarrow> b) then rx_control m received src_addr now_ms
          else case deserialize (dk_bincode env) (dk_crc env) received of
                 Inl _ \<Rightarrow> m
               | Inr p \<Rightarrow> if pk_device_id p = dm_device_id m then m
                          else rx_packet env m p src_addr now_ms now nonce_prefix)"

text \<open>A datagram longer than the buffer is cut to it.\<close>

definition desk_rx_turn ::
  "desk_env \<Rightarrow> DeskTransport \<Rightarrow> (bytes \<times> SocketAddr option) option \<Rightarrow> u64 \<Rightarrow> instant \<Rightarrow> bytes \<Rightarrow> DeskTransport" where
  "desk_rx_turn env m arrived now_ms now nonce_prefix =
     (if \<not> dm_running m then m
      else case arrived of
             None \<Rightarrow> m
           | Some (data, src_addr) \<Rightarrow> rx_datagram env m (take MAX_PACKET_SIZE data) src_addr now_ms now nonce_prefix)"

section \<open>Sending audio\<close>

datatype dest = Group | Unicast SocketAddr

text \<open>One peer of the fan-out: skipped, failed, or a datagram for its address. The engine's counter moves on.\<close>

datatype peer_send = PeerSkipped | PeerFailed desk_error | PeerSent SocketAddr bytes

definition send_to_peer ::
  "desk_env \<Rightarrow> DeskTransport \<Rightarrow> bytes \<Rightarrow> u64 \<Rightarrow> (SocketAddr \<Rightarrow> rstring option) \<Rightarrow> u32 \<Rightarrow> CryptoEngine \<Rightarrow> CryptoEngine \<times> peer_send" where
  "send_to_peer env m audio_data now os peer_id engine =
     (if \<not> engine_is_ready engine then (engine, PeerSkipped)
      else case hm_get (dm_peers m) peer_id of
        None \<Rightarrow> (engine, PeerSkipped)
      | Some p \<Rightarrow>
          (case engine_next_nonce engine of
             (engine, Inl _) \<Rightarrow> (engine, PeerFailed (DeskEncryption ''nonce counter exhausted for peer''))
           | (engine, Inr nonce) \<Rightarrow>
               (engine,
                case engine_encrypt (dk_enc env) engine audio_data nonce of
                  Inl _ \<Rightarrow> PeerFailed (DeskEncryption ''encrypt failed'')
                | Inr (ciphertext, auth_tag) \<Rightarrow>
                    let payload = nonce @ auth_tag @ ciphertext;
                        packet = audio_packet (dk_crc env) (dm_device_id m) (dm_current_channel m) payload now
                    in case serialize (dk_bincode env) packet of
                         Inl _ \<Rightarrow> PeerFailed DeskSerialization
                       | Inr data \<Rightarrow> (case os (pi_address p) of
                                       Some e \<Rightarrow> PeerFailed (DeskIo e)
                                     | None \<Rightarrow> PeerSent (pi_address p) data))))"

fun send_to_peers ::
  "desk_env \<Rightarrow> DeskTransport \<Rightarrow> bytes \<Rightarrow> u64 \<Rightarrow> (SocketAddr \<Rightarrow> rstring option) \<Rightarrow> (u32, CryptoEngine) hmap \<Rightarrow>
   (u32, CryptoEngine) hmap \<times> peer_send list" where
  "send_to_peers env m audio_data now os [] = ([], [])"
| "send_to_peers env m audio_data now os ((peer_id, engine) # rest) =
     (case send_to_peer env m audio_data now os peer_id engine of
        (engine, r) \<Rightarrow>
          (case send_to_peers env m audio_data now os rest of
             (engines, rs) \<Rightarrow> ((peer_id, engine) # engines, r # rs)))"

definition sent_datagrams :: "peer_send list \<Rightarrow> (dest \<times> bytes) list" where
  "sent_datagrams rs = List.map_filter (\<lambda>r. case r of PeerSent a d \<Rightarrow> Some (Unicast a, d) | _ \<Rightarrow> None) rs"

text \<open>The outcome of the fan-out: any success, else the refusal without a ready peer, else the last error.\<close>

definition fanout_result :: "peer_send list \<Rightarrow> desk_error + unit" where
  "fanout_result rs =
     (if sent_datagrams rs \<noteq> [] then Inr ()
      else if \<forall>r \<in> set rs. r = PeerSkipped
      then Inl (DeskEncryption ''no completed key exchange yet - not sending plaintext'')
      else case rev (List.map_filter (\<lambda>r. case r of PeerFailed e \<Rightarrow> Some e | _ \<Rightarrow> None) rs) of
             e # _ \<Rightarrow> Inl e
           | [] \<Rightarrow> Inl (DeskEncryption ''encrypted send failed for all peers''))"

text \<open>\<open>ts\<close> is the timestamp shared with the relay, or the time of day.\<close>

definition desk_send_audio_at ::
  "desk_env \<Rightarrow> DeskTransport \<Rightarrow> bytes \<Rightarrow> u64 option \<Rightarrow> u64 \<Rightarrow> (dest \<Rightarrow> rstring option) \<Rightarrow>
   DeskTransport \<times> (dest \<times> bytes) list \<times> (desk_error + unit)" where
  "desk_send_audio_at env m audio_data timestamp now os =
     (let channel = dm_current_channel m; ts = (case timestamp of Some t \<Rightarrow> t | None \<Rightarrow> now) in
      case dm_group_crypto m of
        Some crypto \<Rightarrow>
          (let frame = pack_wire_frame channel DESK_SUBCH_MAIN (dm_sender_id m) (dm_device_name m) ts audio_data in
           case encrypt (dk_enc env) crypto frame of
             (c, Inl e) \<Rightarrow> (m\<lparr>dm_group_crypto := Some c\<rparr>, [], Inl (DeskGroupCrypto e))
           | (c, Inr sealed) \<Rightarrow>
               (m\<lparr>dm_group_crypto := Some c\<rparr>,
                case os Group of Some e \<Rightarrow> ([], Inl (DeskIo e)) | None \<Rightarrow> ([(Group, sealed)], Inr ())))
      | None \<Rightarrow>
          if \<not> tc_encryption_enabled (dm_config m) then
            (m, case serialize (dk_bincode env) (audio_packet (dk_crc env) (dm_device_id m) channel audio_data now) of
                  Inl _ \<Rightarrow> ([], Inl DeskSerialization)
                | Inr data \<Rightarrow> (case os Group of Some e \<Rightarrow> ([], Inl (DeskIo e)) | None \<Rightarrow> ([(Group, data)], Inr ())))
          else
            (case send_to_peers env m audio_data now (os \<circ> Unicast) (dm_crypto_engines m) of
               (engines, rs) \<Rightarrow> (m\<lparr>dm_crypto_engines := engines\<rparr>, sent_datagrams rs, fanout_result rs)))"

definition desk_send_audio ::
  "desk_env \<Rightarrow> DeskTransport \<Rightarrow> bytes \<Rightarrow> u64 \<Rightarrow> (dest \<Rightarrow> rstring option) \<Rightarrow>
   DeskTransport \<times> (dest \<times> bytes) list \<times> (desk_error + unit)" where
  "desk_send_audio env m audio_data now os = desk_send_audio_at env m audio_data None now os"

section \<open>Settings and status\<close>

text \<open>The flag is set and the sending tasks run before the receiving thread is spawned; \<open>spawn\<close> is that call's error.\<close>

definition desk_start :: "DeskTransport \<Rightarrow> rstring option \<Rightarrow> DeskTransport \<times> (desk_error + unit)" where
  "desk_start m spawn = (m\<lparr>dm_running := True\<rparr>, case spawn of Some e \<Rightarrow> Inl (DeskIo e) | None \<Rightarrow> Inr ())"

definition desk_stop :: "DeskTransport \<Rightarrow> DeskTransport" where
  "desk_stop m = m\<lparr>dm_running := False\<rparr>"

definition set_session_psk :: "DeskTransport \<Rightarrow> bytes \<Rightarrow> bytes \<Rightarrow> DeskTransport" where
  "set_session_psk m key nonce_prefix = m\<lparr>dm_group_crypto := Some (from_psk key nonce_prefix)\<rparr>"

definition clear_session_psk :: "DeskTransport \<Rightarrow> DeskTransport" where
  "clear_session_psk m = m\<lparr>dm_group_crypto := None\<rparr>"

definition take_audio_receiver :: "DeskTransport \<Rightarrow> DeskTransport \<times> bool" where
  "take_audio_receiver m = (m\<lparr>dm_audio_rx := False\<rparr>, dm_audio_rx m)"

definition get_peers :: "DeskTransport \<Rightarrow> u64 \<Rightarrow> PeerInfo list" where
  "get_peers m now = filter (\<lambda>p. peer_is_active p now) (map snd (dm_peers m))"

definition desk_set_channel :: "DeskTransport \<Rightarrow> u8 \<Rightarrow> DeskTransport" where
  "desk_set_channel m channel = m\<lparr>dm_current_channel := min (max channel MIN_CHANNEL) MAX_CHANNEL\<rparr>"

definition update_config :: "DeskTransport \<Rightarrow> TransportConfig \<Rightarrow> DeskTransport" where
  "update_config m new_config = m\<lparr>dm_config := new_config\<rparr>"

definition desk_is_encrypted :: "DeskTransport \<Rightarrow> bool" where
  "desk_is_encrypted m \<longleftrightarrow> (\<exists>e \<in> set (map snd (dm_crypto_engines m)). engine_is_ready e)"

definition get_connection_quality ::
  "DeskTransport \<Rightarrow> u64 \<Rightarrow> (rstring \<times> PeerHealth \<times> u32 option) list" where
  "get_connection_quality m now_ms =
     map (\<lambda>p. let addr_key = addr_to_string (pi_address p)
              in (hex_id_upper (pi_device_id p), health (dm_liveness m) addr_key now_ms, rtt_ms (dm_liveness m) addr_key))
       (filter (\<lambda>p. peer_is_active p (now_ms div 1000)) (map snd (dm_peers m)))"

end
