(* ===== verification/Desktop_Relay.thy ===== *)
theory Desktop_Relay
  imports Desktop_Manager
begin

text \<open>
  The relay client of the desktop, \<open>tauri-desktop/src-tauri/src/transport/cellular.rs\<close>: dialling with a token, the
  supervisor that reconnects, the loop that drives one socket, and the frames that cross it. The answers of the network
  are arguments; the supervisor's place in its code is part of the state.
\<close>

section \<open>State\<close>

definition RELAY_WS_BASE :: rstring where "RELAY_WS_BASE = ascii ''wss://relay.sassyconsultingllc.com''"
definition RECONNECT_BASE_MS :: u64 where "RECONNECT_BASE_MS = 3000"
definition RECONNECT_CAP_MS :: u64 where "RECONNECT_CAP_MS = 60000"
definition RELAY_OUTBOUND_CAPACITY :: nat where "RELAY_OUTBOUND_CAPACITY = 32"
definition RELAY_INBOUND_CAPACITY :: nat where "RELAY_INBOUND_CAPACITY = 64"
definition RELAY_FRAME_MAX_AGE :: instant where "RELAY_FRAME_MAX_AGE = millis 250"

datatype RelayState = RelayDisconnected | RelayConnecting | RelayConnected | RelayError

definition relay_state_from_u8 :: "u8 \<Rightarrow> RelayState" where
  "relay_state_from_u8 v =
     (if v = 1 then RelayConnecting else if v = 2 then RelayConnected else if v = 3 then RelayError else RelayDisconnected)"

fun relay_state_as_str :: "RelayState \<Rightarrow> string" where
  "relay_state_as_str RelayDisconnected = ''disconnected''"
| "relay_state_as_str RelayConnecting = ''connecting''"
| "relay_state_as_str RelayConnected = ''connected''"
| "relay_state_as_str RelayError = ''error''"

text \<open>Where the supervisor is: not spawned, inside the loop of a socket, sleeping before an attempt, or gone.\<close>

datatype supervisor = NotSpawned | Driving | Backoff u32 | Exited

record DeskRelay =
  rl_room_id :: rstring
  rl_device_name :: rstring
  rl_peer_id :: rstring
  rl_crypto :: CryptoSession
  rl_outbound :: "bytes RealtimeQueue"
  rl_outbound_rx :: bool
  rl_inbound :: "DeskFrame RealtimeQueue"
  rl_inbound_rx :: bool
  rl_running :: bool
  rl_state :: RelayState
  rl_current_channel :: u8
  rl_session_epoch :: u64
  rl_heartbeat_seq :: u32
  rl_packets_sent :: u32
  rl_packets_received :: u32
  rl_has_completed_handshake :: bool
  rl_control :: ControlPlane
  rl_supervisor :: supervisor

definition DeskRelay_new ::
  "desk_env \<Rightarrow> rstring \<Rightarrow> rstring \<Rightarrow> rstring \<Rightarrow> CryptoSession \<Rightarrow> bytes \<Rightarrow> u64 \<Rightarrow> DeskRelay" where
  "DeskRelay_new env room_id device_name peer_id crypto psk session_epoch =
     \<lparr>rl_room_id = room_id, rl_device_name = device_name, rl_peer_id = peer_id, rl_crypto = crypto,
      rl_outbound = realtime_channel RELAY_OUTBOUND_CAPACITY RELAY_FRAME_MAX_AGE, rl_outbound_rx = True,
      rl_inbound = realtime_channel RELAY_INBOUND_CAPACITY RELAY_FRAME_MAX_AGE, rl_inbound_rx = True,
      rl_running = False, rl_state = RelayDisconnected, rl_current_channel = 1, rl_session_epoch = session_epoch,
      rl_heartbeat_seq = 0, rl_packets_sent = 0, rl_packets_received = 0, rl_has_completed_handshake = False,
      rl_control = install_psk env ControlPlane_new psk room_id peer_id session_epoch, rl_supervisor = NotSpawned\<rparr>"

section \<open>Dialling\<close>

datatype DialError = TerminalAuth | Retryable

definition is_terminal :: "DialError \<Rightarrow> bool" where
  "is_terminal e \<longleftrightarrow> e = TerminalAuth"

definition is_terminal_http_status :: "u16 \<Rightarrow> bool" where
  "is_terminal_http_status status \<longleftrightarrow> 400 \<le> status \<and> status < 500 \<and> status \<noteq> 408 \<and> status \<noteq> 429"

definition reconnect_delay_ms :: "u32 \<Rightarrow> u64" where
  "reconnect_delay_ms attempt =
     (let shift = min (sat_sub attempt 1) 31; p = push_bit (unat shift) (1 :: u64);
          product = (if unat RECONNECT_BASE_MS * unat p < 2 ^ 64 then RECONNECT_BASE_MS * p else - 1)
      in min product RECONNECT_CAP_MS)"

text \<open>Unreserved bytes pass, the others become \<open>%XX\<close>.\<close>

definition urlencode :: "rstring \<Rightarrow> rstring" where
  "urlencode s = concat (map (\<lambda>b.
     if is_ascii_alphanumeric b \<or> b = 0x2D \<or> b = 0x5F \<or> b = 0x2E \<or> b = 0x7E then [b] else 0x25 # hex_byte_upper b) s)"

text \<open>\<open>RELAY_WS_BASE\<close> with its scheme replaced.\<close>

definition https_base :: rstring where
  "https_base = ascii ''https://'' @ drop (length ''wss://'') RELAY_WS_BASE"

definition auth_url :: "DeskRelay \<Rightarrow> rstring" where
  "auth_url r = https_base @ ascii ''/auth?room='' @ urlencode (rl_room_id r) @ ascii ''&peer='' @ urlencode (rl_peer_id r)"

definition dial_url :: "DeskRelay \<Rightarrow> rstring \<Rightarrow> rstring" where
  "dial_url r client_uuid =
     RELAY_WS_BASE @ ascii ''/ws?room='' @ urlencode (rl_room_id r) @ ascii ''&device='' @ urlencode (rl_device_name r) @
     ascii ''&peer='' @ urlencode (rl_peer_id r) @ ascii ''&client_id='' @ client_uuid @
     (if rl_has_completed_handshake r then ascii ''&catchup=1'' else [])"

text \<open>
  What the token request ended in: no client or no answer; a status; a body that is JSON or not, and the text of its
  \<open>token\<close> field. Then the websocket upgrade: accepted, refused with a status, or failed otherwise.
\<close>

datatype auth_answer = AuthUnreachable | AuthStatus u16 | AuthUnparsable | AuthBody "rstring option"

datatype ws_answer = WsOpen | WsStatus u16 | WsFailed | WsUnusable

definition fetch_token :: "auth_answer \<Rightarrow> DialError + rstring" where
  "fetch_token a =
     (case a of
        AuthUnreachable \<Rightarrow> Inl Retryable
      | AuthStatus status \<Rightarrow> if is_terminal_http_status status then Inl TerminalAuth else Inl Retryable
      | AuthUnparsable \<Rightarrow> Inl TerminalAuth
      | AuthBody token \<Rightarrow> (case token of Some t \<Rightarrow> if t \<noteq> [] then Inr t else Inl TerminalAuth | None \<Rightarrow> Inl TerminalAuth))"

definition dial :: "DeskRelay \<Rightarrow> auth_answer \<times> ws_answer \<Rightarrow> DeskRelay \<times> (DialError + unit)" where
  "dial r answers =
     (case fetch_token (fst answers) of
        Inl e \<Rightarrow> (r, Inl e)
      | Inr _ \<Rightarrow>
          (case snd answers of
             WsUnusable \<Rightarrow> (r, Inl TerminalAuth)
           | WsStatus status \<Rightarrow> (r, Inl (if is_terminal_http_status status then TerminalAuth else Retryable))
           | WsFailed \<Rightarrow> (r, Inl Retryable)
           | WsOpen \<Rightarrow> (r\<lparr>rl_has_completed_handshake := True\<rparr>, Inr ())))"

section \<open>Connecting and supervising\<close>

definition rl_set_state :: "DeskRelay \<Rightarrow> RelayState \<Rightarrow> DeskRelay" where
  "rl_set_state r s = r\<lparr>rl_state := s\<rparr>"

text \<open>\<open>run_io\<close> starts by dropping what was queued while there was no socket.\<close>

definition enter_io :: "DeskRelay \<Rightarrow> DeskRelay" where
  "enter_io r = r\<lparr>rl_outbound := discard_pending (rl_outbound r), rl_supervisor := Driving\<rparr>"

datatype connect_error = DialFailed DialError | OutboundTaken

definition relay_connect :: "DeskRelay \<Rightarrow> auth_answer \<times> ws_answer \<Rightarrow> DeskRelay \<times> (connect_error + unit)" where
  "relay_connect r answers =
     (if rl_running r then (r, Inr ())
      else let r = rl_set_state (r\<lparr>rl_running := True\<rparr>) RelayConnecting in
        case dial r answers of
          (r, Inl e) \<Rightarrow> ((rl_set_state r RelayError)\<lparr>rl_running := False\<rparr>, Inl (DialFailed e))
        | (r, Inr _) \<Rightarrow>
            (let r = rl_set_state r RelayConnected
             in if \<not> rl_outbound_rx r then (r, Inl OutboundTaken)
                else (enter_io (r\<lparr>rl_outbound_rx := False\<rparr>), Inr ())))"

text \<open>The end of the loop of a socket: back to the head of the supervisor's loop, with no attempt made yet.\<close>

definition io_ended :: "DeskRelay \<Rightarrow> DeskRelay" where
  "io_ended r =
     (let r = rl_set_state r RelayDisconnected
      in r\<lparr>rl_supervisor := (if rl_running r then Backoff 1 else Exited)\<rparr>)"

text \<open>The supervisor wakes from its sleep before attempt \<open>attempt\<close>. Leaving the loop sets the state once more.\<close>

definition supervise_wake :: "DeskRelay \<Rightarrow> auth_answer \<times> ws_answer \<Rightarrow> DeskRelay" where
  "supervise_wake r answers =
     (case rl_supervisor r of
        Backoff attempt \<Rightarrow>
          if \<not> rl_running r then (rl_set_state r RelayDisconnected)\<lparr>rl_supervisor := Exited\<rparr>
          else (case dial (rl_set_state r RelayConnecting) answers of
                  (r, Inr _) \<Rightarrow> enter_io (rl_set_state r RelayConnected)
                | (r, Inl e) \<Rightarrow>
                    if is_terminal e
                    then (rl_set_state ((rl_set_state r RelayError)\<lparr>rl_running := False\<rparr>) RelayDisconnected)
                           \<lparr>rl_supervisor := Exited\<rparr>
                    else (rl_set_state r RelayDisconnected)\<lparr>rl_supervisor := Backoff (sat_add attempt 1)\<rparr>)
      | _ \<Rightarrow> r)"

definition relay_stop :: "DeskRelay \<Rightarrow> DeskRelay" where
  "relay_stop r =
     (rl_set_state (r\<lparr>rl_running := False\<rparr>) RelayDisconnected)\<lparr>rl_control := plane_clear (rl_control r)\<rparr>"

section \<open>Frames\<close>

definition relay_set_channel :: "DeskRelay \<Rightarrow> u8 \<Rightarrow> DeskRelay" where
  "relay_set_channel r channel = r\<lparr>rl_current_channel := channel\<rparr>"

definition relay_encode_heartbeat :: "desk_env \<Rightarrow> DeskRelay \<Rightarrow> u64 \<Rightarrow> bytes \<Rightarrow> DeskRelay \<times> bytes option" where
  "relay_encode_heartbeat env r now_ms nonce =
     (let seq = rl_heartbeat_seq r; r = r\<lparr>rl_heartbeat_seq := seq + 1\<rparr>
      in case encode_heartbeat_sealed env (rl_control r) (rl_session_epoch r) seq now_ms Idle 0 nonce of
           (cp, f) \<Rightarrow> (r\<lparr>rl_control := cp\<rparr>, f))"

datatype relay_send_error = RelayNotConnected | RelayEncrypt crypto_error | RelayQueue send_error

definition relay_send_audio_at ::
  "desk_env \<Rightarrow> DeskRelay \<Rightarrow> bytes \<Rightarrow> u64 \<Rightarrow> instant \<Rightarrow> DeskRelay \<times> (relay_send_error + unit)" where
  "relay_send_audio_at env r opus timestamp now =
     (if rl_state r \<noteq> RelayConnected then (r, Inl RelayNotConnected)
      else let frame = pack_wire_frame (rl_current_channel r) DESK_SUBCH_MAIN (rl_peer_id r) (rl_device_name r) timestamp opus
           in case encrypt (dk_enc env) (rl_crypto r) frame of
                (c, Inl e) \<Rightarrow> (r\<lparr>rl_crypto := c\<rparr>, Inl (RelayEncrypt e))
              | (c, Inr sealed) \<Rightarrow>
                  (case try_send (rl_outbound r) sealed now of
                     (q, Inl e) \<Rightarrow> (r\<lparr>rl_crypto := c, rl_outbound := q\<rparr>, Inl (RelayQueue e))
                   | (q, Inr _) \<Rightarrow> (r\<lparr>rl_crypto := c, rl_outbound := q, rl_packets_sent := rl_packets_sent r + 1\<rparr>, Inr ())))"

text \<open>The plaintext of a frame that is not control: under the live key, else under the staged one, which becomes live.\<close>

definition relay_open :: "desk_env \<Rightarrow> DeskRelay \<Rightarrow> bytes \<Rightarrow> DeskRelay \<times> bytes option" where
  "relay_open env r bs =
     (case decrypt (dk_dec env) (rl_crypto r) bs of
        (c, Inr pt) \<Rightarrow> (r\<lparr>rl_crypto := c\<rparr>, Some pt)
      | (c, Inl _) \<Rightarrow>
          (let r = r\<lparr>rl_crypto := c\<rparr> in
           case try_decrypt_staged env (rl_control r) bs of
             (cp, None) \<Rightarrow> (r\<lparr>rl_control := cp\<rparr>, None)
           | (cp, Some pt) \<Rightarrow>
               (case promote_staged cp of
                  (cp, Some session) \<Rightarrow> (r\<lparr>rl_control := cp, rl_crypto := session\<rparr>, Some pt)
                | (cp, None) \<Rightarrow> (r\<lparr>rl_control := cp\<rparr>, Some pt))))"

definition relay_audio :: "desk_env \<Rightarrow> DeskRelay \<Rightarrow> bytes \<Rightarrow> instant \<Rightarrow> DeskRelay" where
  "relay_audio env r bs now =
     (case relay_open env r bs of
        (r, None) \<Rightarrow> r
      | (r, Some plain) \<Rightarrow>
          (case unpack_wire_frame plain of
             Ok (_, _, sender, _, ts, opus) \<Rightarrow>
               if sender = rl_peer_id r then r
               else r\<lparr>rl_packets_received := rl_packets_received r + 1,
                      rl_inbound := fst (try_send (rl_inbound r) \<lparr>df_sender = sender, df_timestamp = ts, df_opus = opus\<rparr> now)\<rparr>
           | _ \<Rightarrow> r))"

definition relay_handle_inbound :: "desk_env \<Rightarrow> DeskRelay \<Rightarrow> bytes \<Rightarrow> u64 \<Rightarrow> instant \<Rightarrow> desk_draw \<Rightarrow> DeskRelay" where
  "relay_handle_inbound env r bs now_ms now dd =
     (case handle_inbound env (rl_control r) bs now_ms dd of
        (cp, action, installed) \<Rightarrow>
          let r = r\<lparr>rl_control := cp, rl_crypto := (case installed of Some session \<Rightarrow> session | None \<Rightarrow> rl_crypto r)\<rparr> in
          case action of
            ActNotControl \<Rightarrow> relay_audio env r bs now
          | HybridOutbound frame \<Rightarrow> r\<lparr>rl_outbound := fst (try_send (rl_outbound r) frame now)\<rparr>
          | _ \<Rightarrow> r)"

section \<open>The loop of a socket\<close>

text \<open>
  The branches of the \<open>select!\<close>: a frame waits in the outbound queue, the heartbeat is due, something arrived. Then the
  answer of the socket to a send.
\<close>

datatype io_event = OutboundReady | HeartbeatDue | ArrivedBinary bytes | ArrivedOther | SocketClosed

definition io_turn ::
  "desk_env \<Rightarrow> DeskRelay \<Rightarrow> io_event \<Rightarrow> bool \<Rightarrow> u64 \<Rightarrow> instant \<Rightarrow> desk_draw \<Rightarrow> DeskRelay \<times> bytes option" where
  "io_turn env r event send_ok now_ms now dd =
     (if rl_supervisor r \<noteq> Driving then (r, None)
      else if \<not> rl_running r then (io_ended r, None)
      else case event of
        OutboundReady \<Rightarrow>
          (case recv (rl_outbound r) now of
             (q, None) \<Rightarrow> (r\<lparr>rl_outbound := q\<rparr>, None)
           | (q, Some frame) \<Rightarrow>
               (let r = r\<lparr>rl_outbound := q\<rparr> in if send_ok then (r, Some frame) else (io_ended r, None)))
      | HeartbeatDue \<Rightarrow>
          (case relay_encode_heartbeat env r now_ms (dd_nonce dd) of
             (r, None) \<Rightarrow> (r, None)
           | (r, Some frame) \<Rightarrow> if send_ok then (r, Some frame) else (io_ended r, None))
      | ArrivedBinary bs \<Rightarrow> (relay_handle_inbound env r bs now_ms now dd, None)
      | ArrivedOther \<Rightarrow> (r, None)
      | SocketClosed \<Rightarrow> (io_ended r, None))"

definition relay_take_audio_receiver :: "DeskRelay \<Rightarrow> DeskRelay \<times> bool" where
  "relay_take_audio_receiver r = (r\<lparr>rl_inbound_rx := False\<rparr>, rl_inbound_rx r)"


end
