(* ===== verification/Desktop_Audio.thy ===== *)
theory Desktop_Audio
  imports Ios_Audio Audio_Buffers
begin

text \<open>
  The audio side of the desktop: the engine of \<open>tauri-desktop/src-tauri/src/audio.rs\<close>, the codec wrappers of \<open>codec.rs\<close>
  and the pool of decoders of \<open>lib.rs\<close>. A ring buffer is its content, oldest first; floating point is real arithmetic;
  the answers of the sound system and the Opus binding are parameters. The binding is the one of the iOS client.
\<close>

section \<open>Choosing a device configuration\<close>

definition DESK_SAMPLE_RATE :: nat where "DESK_SAMPLE_RATE = 48000"
definition DESK_FRAME_SIZE :: nat where "DESK_FRAME_SIZE = 960"
definition DESK_BUFFER_SIZE :: nat where "DESK_BUFFER_SIZE = DESK_SAMPLE_RATE"

datatype desk_audio_error = NoDevice | ConfigError | StreamError

record config_range =
  cr_min_rate :: nat
  cr_max_rate :: nat
  cr_channels :: nat

text \<open>The first of the 48 kHz ranges with the fewest channels, else the device's default (rate, channels).\<close>

fun best_range :: "config_range option \<Rightarrow> config_range list \<Rightarrow> config_range option" where
  "best_range best [] = best"
| "best_range best (r # rs) =
     (if cr_min_rate r \<le> DESK_SAMPLE_RATE \<and> DESK_SAMPLE_RATE \<le> cr_max_rate r \<and>
         (case best of None \<Rightarrow> True | Some b \<Rightarrow> cr_channels r < cr_channels b)
      then best_range (Some r) rs else best_range best rs)"

definition choose_config :: "(nat \<times> nat) option \<Rightarrow> config_range list option \<Rightarrow> desk_audio_error + nat \<times> nat" where
  "choose_config default_cfg supported =
     (case (case supported of None \<Rightarrow> None | Some ranges \<Rightarrow> best_range None ranges) of
        Some r \<Rightarrow> Inr (DESK_SAMPLE_RATE, cr_channels r)
      | None \<Rightarrow> (case default_cfg of None \<Rightarrow> Inl ConfigError | Some d \<Rightarrow> Inr d))"

section \<open>The engine\<close>

datatype DeskAudioState = DeskIdle | DeskRecording | DeskPlaying

record DeskAudio =
  da_input_stream :: bool
  da_output_stream :: bool
  da_input :: "pcm option"
  da_output :: "pcm option"
  da_input_channels :: nat
  da_output_channels :: nat
  da_state :: DeskAudioState
  da_recording :: bool
  da_playing :: bool
  da_input_volume :: real
  da_output_volume :: real

definition DeskAudio_new :: DeskAudio where
  "DeskAudio_new =
     \<lparr>da_input_stream = False, da_output_stream = False, da_input = None, da_output = None, da_input_channels = 1,
      da_output_channels = 1, da_state = DeskIdle, da_recording = False, da_playing = False, da_input_volume = 1,
      da_output_volume = 1\<rparr>"

text \<open>What the sound system answers: a device, its configurations, and whether the stream is built and started.\<close>

record device_answer =
  dv_device :: bool
  dv_default :: "(nat \<times> nat) option"
  dv_supported :: "config_range list option"
  dv_built :: bool

definition init_input_stream :: "DeskAudio \<Rightarrow> device_answer \<Rightarrow> DeskAudio \<times> (desk_audio_error + unit)" where
  "init_input_stream a dv =
     (if \<not> dv_device dv then (a, Inl NoDevice)
      else case choose_config (dv_default dv) (dv_supported dv) of
        Inl e \<Rightarrow> (a, Inl e)
      | Inr (rate, channels) \<Rightarrow>
          (let a = a\<lparr>da_input := Some [], da_input_channels := max channels 1\<rparr>
           in if dv_built dv then (a\<lparr>da_input_stream := True\<rparr>, Inr ()) else (a, Inl StreamError)))"

definition init_output_stream :: "DeskAudio \<Rightarrow> device_answer \<Rightarrow> DeskAudio \<times> (desk_audio_error + unit)" where
  "init_output_stream a dv =
     (if \<not> dv_device dv then (a, Inl NoDevice)
      else case choose_config (dv_default dv) (dv_supported dv) of
        Inl e \<Rightarrow> (a, Inl e)
      | Inr (rate, channels) \<Rightarrow>
          (let a = a\<lparr>da_output := Some [], da_output_channels := max channels 1\<rparr>
           in if dv_built dv then (a\<lparr>da_output_stream := True\<rparr>, Inr ()) else (a, Inl StreamError)))"

definition desk_start_recording :: "DeskAudio \<Rightarrow> device_answer \<Rightarrow> DeskAudio \<times> (desk_audio_error + unit)" where
  "desk_start_recording a dv =
     (case (if \<not> da_input_stream a then init_input_stream a dv else (a, Inr ())) of
        (a, Inl e) \<Rightarrow> (a, Inl e)
      | (a, Inr _) \<Rightarrow> (a\<lparr>da_recording := True, da_state := DeskRecording\<rparr>, Inr ()))"

definition desk_stop_recording :: "DeskAudio \<Rightarrow> DeskAudio" where
  "desk_stop_recording a = a\<lparr>da_recording := False, da_state := DeskIdle\<rparr>"

definition desk_start_playing :: "DeskAudio \<Rightarrow> device_answer \<Rightarrow> DeskAudio \<times> (desk_audio_error + unit)" where
  "desk_start_playing a dv =
     (case (if \<not> da_output_stream a then init_output_stream a dv else (a, Inr ())) of
        (a, Inl e) \<Rightarrow> (a, Inl e)
      | (a, Inr _) \<Rightarrow> (a\<lparr>da_playing := True, da_state := DeskPlaying\<rparr>, Inr ()))"

definition desk_stop_playing :: "DeskAudio \<Rightarrow> DeskAudio" where
  "desk_stop_playing a = a\<lparr>da_playing := False, da_state := DeskIdle\<rparr>"

text \<open>\<open>try_pop\<close> and \<open>try_push\<close> one sample at a time, until the buffer is full or the ring is exhausted.\<close>

definition read_samples :: "DeskAudio \<Rightarrow> nat \<Rightarrow> DeskAudio \<times> pcm" where
  "read_samples a n =
     (case da_input a of
        None \<Rightarrow> (a, [])
      | Some ring \<Rightarrow> (a\<lparr>da_input := Some (drop n ring)\<rparr>, take n ring))"

definition ring_push :: "pcm \<Rightarrow> pcm \<Rightarrow> pcm" where
  "ring_push ring samples = ring @ take (DESK_BUFFER_SIZE - length ring) samples"

definition write_samples :: "DeskAudio \<Rightarrow> pcm \<Rightarrow> DeskAudio \<times> nat" where
  "write_samples a samples =
     (case da_output a of
        None \<Rightarrow> (a, 0)
      | Some ring \<Rightarrow>
          (a\<lparr>da_output := Some (ring_push ring samples)\<rparr>, min (length samples) (DESK_BUFFER_SIZE - length ring)))"

text \<open>The callbacks of the two streams: interleaved frames mixed down, and one sample spread over the channels.\<close>

definition downmix :: "nat \<Rightarrow> real \<Rightarrow> real list \<Rightarrow> i16" where
  "downmix channels vol frame = to_i16 (sum_list frame / real channels * vol * 32767)"

function chunks_exact :: "nat \<Rightarrow> 'b list \<Rightarrow> 'b list list" where
  "chunks_exact n xs = (if n = 0 \<or> length xs < n then [] else take n xs # chunks_exact n (drop n xs))"
  by pat_completeness auto
termination by (relation "measure (\<lambda>(n, xs). length xs)") auto

declare chunks_exact.simps [simp del]

definition input_callback :: "DeskAudio \<Rightarrow> real list \<Rightarrow> DeskAudio" where
  "input_callback a data =
     (if \<not> da_recording a then a
      else case da_input a of
             None \<Rightarrow> a
           | Some ring \<Rightarrow>
               a\<lparr>da_input := Some (ring_push ring
                  (map (downmix (da_input_channels a) (da_input_volume a)) (chunks_exact (da_input_channels a) data)))\<rparr>)"

text \<open>\<open>frames\<close> is how many chunks of the device's channels the buffer has; the ring gives a sample for each, or silence.\<close>

definition output_callback :: "DeskAudio \<Rightarrow> nat \<Rightarrow> DeskAudio \<times> real list" where
  "output_callback a frames =
     (if \<not> da_playing a then (a, replicate (frames * da_output_channels a) 0)
      else case da_output a of
             None \<Rightarrow> (a, replicate (frames * da_output_channels a) 0)
           | Some ring \<Rightarrow>
               (a\<lparr>da_output := Some (drop frames ring)\<rparr>,
                concat (map (\<lambda>s. replicate (da_output_channels a) s)
                  (map (\<lambda>v. real_of_int (sint v) / 32767 * da_output_volume a) (take frames ring) @
                   replicate (frames - length ring) 0))))"

definition desk_set_input_volume :: "DeskAudio \<Rightarrow> real \<Rightarrow> DeskAudio" where
  "desk_set_input_volume a volume = a\<lparr>da_input_volume := clampr 0 2 volume\<rparr>"

definition desk_set_output_volume :: "DeskAudio \<Rightarrow> real \<Rightarrow> DeskAudio" where
  "desk_set_output_volume a volume = a\<lparr>da_output_volume := clampr 0 2 volume\<rparr>"

definition audio_shutdown :: "DeskAudio \<Rightarrow> DeskAudio" where
  "audio_shutdown a = (desk_stop_playing (desk_stop_recording a))\<lparr>da_input_stream := False, da_output_stream := False\<rparr>"

section \<open>The codec\<close>

definition DESK_MAX_OPUS_PACKET :: nat where "DESK_MAX_OPUS_PACKET = 4000"

text \<open>\<open>dc_conceal\<close> is decoding without a packet.\<close>

record ('e, 'd) desk_codec =
  dc_opus :: "('e, 'd) audiopus"
  dc_conceal :: "'d \<Rightarrow> nat \<Rightarrow> 'd \<times> (rstring + nat \<times> pcm)"

definition DeskEncoder_new :: "('e, 'd) desk_codec \<Rightarrow> codec_error + 'e" where
  "DeskEncoder_new dc =
     (case ap_encoder_new (dc_opus dc) of
        Inl x \<Rightarrow> Inl (EncoderError x)
      | Inr e \<Rightarrow>
          apply_settings (dc_opus dc) e [Bitrate 32000, Vbr True, Complexity 10, InbandFec True, PacketLossPerc 10])"

definition desk_encode :: "('e, 'd) desk_codec \<Rightarrow> 'e \<Rightarrow> pcm \<Rightarrow> 'e \<times> (codec_error + bytes)" where
  "desk_encode dc e samples =
     (if length samples \<noteq> DESK_FRAME_SIZE then (e, Inl (CodecFrameSize (length samples)))
      else case ap_encode (dc_opus dc) e samples DESK_MAX_OPUS_PACKET of
             (e, Inl x) \<Rightarrow> (e, Inl (EncoderError x))
           | (e, Inr (n, written)) \<Rightarrow> (e, Inr (out_buffer DESK_MAX_OPUS_PACKET (int n) written)))"

definition DeskDecoder_new :: "('e, 'd) desk_codec \<Rightarrow> codec_error + 'd" where
  "DeskDecoder_new dc = (case ap_decoder_new (dc_opus dc) of Inl x \<Rightarrow> Inl (DecoderError x) | Inr d \<Rightarrow> Inr d)"

definition desk_decode :: "('e, 'd) desk_codec \<Rightarrow> 'd \<Rightarrow> bytes \<Rightarrow> 'd \<times> (codec_error + pcm)" where
  "desk_decode dc d opus =
     (case ap_packet (dc_opus dc) opus of
        Inl x \<Rightarrow> (d, Inl (DecoderError x))
      | Inr packet \<Rightarrow>
          (case ap_decode (dc_opus dc) d packet DESK_FRAME_SIZE False of
             (d, Inl x) \<Rightarrow> (d, Inl (DecoderError x))
           | (d, Inr (n, written)) \<Rightarrow> (d, Inr (out_buffer DESK_FRAME_SIZE (int n) written))))"

definition desk_decode_plc :: "('e, 'd) desk_codec \<Rightarrow> 'd \<Rightarrow> 'd \<times> (codec_error + pcm)" where
  "desk_decode_plc dc d =
     (case dc_conceal dc d DESK_FRAME_SIZE of
        (d, Inl x) \<Rightarrow> (d, Inl (DecoderError x))
      | (d, Inr (n, written)) \<Rightarrow> (d, Inr (out_buffer DESK_FRAME_SIZE (int n) written)))"

section \<open>The pool of decoders\<close>

record 'd RxPeer =
  xp_decoder :: 'd
  xp_synth_ts :: u64
  xp_last_used :: instant

record 'd RxPeerPool =
  pp_peers :: "(rstring, 'd RxPeer) hmap"
  pp_max_peers :: nat
  pp_idle_ttl :: instant

definition MAX_RX_DECODERS :: nat where "MAX_RX_DECODERS = 32"
definition RX_DECODER_IDLE_TTL :: instant where "RX_DECODER_IDLE_TTL = millis 30000"

definition RxPeerPool_new :: "nat \<Rightarrow> instant \<Rightarrow> 'd RxPeerPool" where
  "RxPeerPool_new max_peers idle_ttl = \<lparr>pp_peers = [], pp_max_peers = max_peers, pp_idle_ttl = idle_ttl\<rparr>"

text \<open>\<open>min_by_key\<close>: the first of the least recently used.\<close>

fun oldest_peer :: "(rstring, 'd RxPeer) hmap \<Rightarrow> rstring option" where
  "oldest_peer [] = None"
| "oldest_peer ((k, p) # rest) =
     (if \<forall>(k', q) \<in> set rest. xp_last_used p \<le> xp_last_used q then Some k else oldest_peer rest)"

text \<open>The pool after the call, which holds the sender's entry; none when a decoder cannot be made, which panics.\<close>

definition get_or_insert ::
  "('e, 'd) desk_codec \<Rightarrow> 'd RxPeerPool \<Rightarrow> rstring \<Rightarrow> instant \<Rightarrow> ('d RxPeerPool \<times> 'd RxPeer) option" where
  "get_or_insert dc pool sender now =
     (let peers = filter (\<lambda>(k, peer). now - xp_last_used peer \<le> pp_idle_ttl pool) (pp_peers pool);
          peers = (if \<not> hm_contains peers sender \<and> pp_max_peers pool \<le> length peers
                   then (case oldest_peer peers of Some oldest \<Rightarrow> hm_remove oldest peers | None \<Rightarrow> peers)
                   else peers)
      in case (case hm_get peers sender of
                 Some peer \<Rightarrow> Inr peer
               | None \<Rightarrow> (case DeskDecoder_new dc of
                            Inl e \<Rightarrow> Inl e
                          | Inr d \<Rightarrow> Inr \<lparr>xp_decoder = d, xp_synth_ts = 0, xp_last_used = now\<rparr>)) of
           Inl _ \<Rightarrow> None
         | Inr peer \<Rightarrow>
             let peer = peer\<lparr>xp_last_used := now\<rparr>
             in Some (pool\<lparr>pp_peers := hm_insert sender peer peers\<rparr>, peer))"

definition put_peer :: "'d RxPeerPool \<Rightarrow> rstring \<Rightarrow> 'd RxPeer \<Rightarrow> 'd RxPeerPool" where
  "put_peer pool sender peer = pool\<lparr>pp_peers := hm_insert sender peer (pp_peers pool)\<rparr>"

section \<open>Lemmas\<close>

text \<open>The chosen range supports 48 kHz, and no other that does has fewer channels.\<close>

abbreviation rate_ok :: "config_range \<Rightarrow> bool" where
  "rate_ok r \<equiv> cr_min_rate r \<le> DESK_SAMPLE_RATE \<and> DESK_SAMPLE_RATE \<le> cr_max_rate r"

lemma best_range_in: "best_range best rs = Some r \<Longrightarrow> best = Some r \<or> r \<in> set rs \<and> rate_ok r"
proof (induction rs arbitrary: best)
  case (Cons x rs)
  then show ?case by (simp split: if_splits) blast+
qed simp

lemma best_range_least:
  "best_range best rs = Some r \<Longrightarrow>
     (\<forall>b. best = Some b \<longrightarrow> cr_channels r \<le> cr_channels b) \<and> (\<forall>x \<in> set rs. rate_ok x \<longrightarrow> cr_channels r \<le> cr_channels x)"
proof (induction rs arbitrary: best)
  case (Cons x rs)
  show ?case
  proof (cases "rate_ok x \<and> (case best of None \<Rightarrow> True | Some b \<Rightarrow> cr_channels x < cr_channels b)")
    case True
    with Cons.prems have "best_range (Some x) rs = Some r" by simp
    from Cons.IH [OF this] True show ?thesis by (cases best) auto
  next
    case False
    with Cons.prems have "best_range best rs = Some r" by (simp only: best_range.simps if_False conj_assoc)
    from Cons.IH [OF this] False show ?thesis by (cases best) auto
  qed
qed simp

lemma ring_push_bound: "length ring \<le> DESK_BUFFER_SIZE \<Longrightarrow> length (ring_push ring xs) \<le> DESK_BUFFER_SIZE"
  by (simp add: ring_push_def)

lemma oldest_peer_in: "peers \<noteq> [] \<Longrightarrow> \<exists>k \<in> fst ` set peers. oldest_peer peers = Some k"
proof (induction peers)
  case (Cons e peers)
  obtain k p where e: "e = (k, p)" by (cases e)
  show ?case
  proof (cases "\<forall>(k', q) \<in> set peers. xp_last_used p \<le> xp_last_used q")
    case True
    then show ?thesis by (simp add: e)
  next
    case False
    then have "peers \<noteq> []" by auto
    with Cons.IH False show ?thesis by (auto simp: e)
  qed
qed simp

text \<open>The pool stays a map within its bound, whatever senders appear, and holds the sender that was asked for.\<close>

definition pool_ok :: "'d RxPeerPool \<Rightarrow> bool" where
  "pool_ok pool \<longleftrightarrow> 0 < pp_max_peers pool \<and> hm_wf (pp_peers pool) \<and> length (pp_peers pool) \<le> pp_max_peers pool"

lemma pool_ok_new: "0 < n \<Longrightarrow> pool_ok (RxPeerPool_new n ttl)"
  by (simp add: pool_ok_def RxPeerPool_new_def)

lemma length_hm_remove_member:
  "hm_wf m \<Longrightarrow> k \<in> fst ` set m \<Longrightarrow> length (hm_remove k m) = length m - 1"
proof (induction m)
  case (Cons e m)
  show ?case
  proof (cases "fst e = k")
    case True
    then have "k \<notin> fst ` set m" using Cons.prems(1) by auto
    then have "hm_remove k m = m" by (simp add: delete_id)
    with True show ?thesis by (cases e) simp
  next
    case False
    then have "k \<in> fst ` set m" using Cons.prems(2) by auto
    then have "length m \<noteq> 0" by auto
    with Cons False \<open>k \<in> fst ` set m\<close> show ?thesis by (cases e) simp
  qed
qed simp

lemma get_or_insert_ok:
  assumes "pool_ok pool" "get_or_insert dc pool sender now = Some (pool', peer)"
  shows "pool_ok pool'" "hm_get (pp_peers pool') sender = Some peer" "xp_last_used peer = now"
    "pp_max_peers pool' = pp_max_peers pool"
proof -
  define ps where "ps = filter (\<lambda>(k, peer). now - xp_last_used peer \<le> pp_idle_ttl pool) (pp_peers pool)"
  define qs where "qs = (if \<not> hm_contains ps sender \<and> pp_max_peers pool \<le> length ps
    then (case oldest_peer ps of Some oldest \<Rightarrow> hm_remove oldest ps | None \<Rightarrow> ps) else ps)"
  have ps: "hm_wf ps" "length ps \<le> pp_max_peers pool"
    using assms(1) by (auto simp: ps_def pool_ok_def intro: le_trans [OF length_filter_le])
  have room: "hm_wf qs \<and> length (hm_insert sender v qs) \<le> pp_max_peers pool" for v
  proof (cases "\<not> hm_contains ps sender \<and> pp_max_peers pool \<le> length ps")
    case True
    then have ne: "ps \<noteq> []" using assms(1) by (auto simp: pool_ok_def)
    obtain k where k: "k \<in> fst ` set ps" "oldest_peer ps = Some k" using oldest_peer_in [OF ne] by blast
    have "length (hm_remove k ps) = length ps - 1" by (rule length_hm_remove_member [OF ps(1) k(1)])
    moreover have "length ps \<noteq> 0" using ne by simp
    ultimately show ?thesis using True k ps by (simp add: qs_def length_hm_insert)
  next
    case False
    then show ?thesis using ps by (auto simp: qs_def length_hm_insert)
  qed
  obtain p where p: "pool' = pool\<lparr>pp_peers := hm_insert sender (p\<lparr>xp_last_used := now\<rparr>) qs\<rparr>" "peer = p\<lparr>xp_last_used := now\<rparr>"
    using assms(2) unfolding get_or_insert_def Let_def ps_def [symmetric] qs_def [symmetric]
    by (auto split: sum.splits option.splits)
  then show "pool_ok pool'" "hm_get (pp_peers pool') sender = Some peer" "xp_last_used peer = now"
    "pp_max_peers pool' = pp_max_peers pool"
    using room assms(1) by (simp_all add: pool_ok_def)
qed

lemma put_peer_ok: "pool_ok pool \<Longrightarrow> hm_get (pp_peers pool) sender = Some p \<Longrightarrow> pool_ok (put_peer pool sender q)"
  by (simp add: pool_ok_def put_peer_def length_hm_insert)

end
