(* ===== verification/Desktop_App.thy ===== *)
theory Desktop_App
  imports Desktop_Relay Desktop_Audio Rx_Path Session Enrollment
begin

text \<open>
  The desktop application, \<open>tauri-desktop/src-tauri/src/lib.rs\<close>: the state behind the commands, push-to-talk, discovery,
  joining and leaving a relay room, and the loops that send and play audio. Relay clients are shared between the
  application and a transmit task that took a snapshot, so they live in a list and are named by their place in it. A turn
  of a loop is a step; an aborted task drops the receiver it owns.

  The transport is behind a mutex that a task may hold while it awaits; \<open>ds_transport_held\<close> says so. A call that needs
  it then waits: its result is \<open>Pending\<close>, with the state as the code before the wait left it.
\<close>

section \<open>State\<close>

datatype ConnectionStatus = StDisconnected | StDiscovering | StConnected | StTransmitting | StReceiving

datatype app_error =
  AppAudio desk_audio_error | AppTransport desk_error | AppAlreadyTransmitting | AppNotConnected | AppNotTransmitting

text \<open>A call returned, or waits for the mutex.\<close>

datatype 'a poll = Ready 'a | Pending

text \<open>The transmit task in its loop, with the encoder and the relay of its snapshot, or waiting for the mutex.\<close>

datatype 'e tx_task = TxLoop 'e "nat option" | TxWaiting

record ('e, 'd) app_env =
  av_desk :: desk_env
  av_codec :: "('e, 'd) desk_codec"
  av_hash :: "rstring \<Rightarrow> u64"
  av_from_json :: "rstring \<Rightarrow> SessionKey option"
  av_unb64 :: "rstring \<Rightarrow> bytes option"

record ('e, 'd) DeskApp =
  ds_device_id :: u32
  ds_device_name :: rstring
  ds_audio :: DeskAudio
  ds_transport :: DeskTransport
  ds_transport_held :: bool
  ds_current_channel :: u8
  ds_connection_status :: ConnectionStatus
  ds_is_transmitting :: bool
  ds_is_receiving :: bool
  ds_tx_task :: "'e tx_task option"
  ds_rx_task :: "'d RxPeerPool option"
  ds_relays :: "DeskRelay list"
  ds_cellular :: "nat option"
  ds_cellular_rx :: "(nat \<times> 'd RxPeerPool) option"
  ds_audio_cache :: AudioCache
  ds_roger_beep :: bool

type_synonym ('e, 'd) app_step = "('e, 'd) DeskApp \<Rightarrow> ('e, 'd) DeskApp"

text \<open>A transport that cannot be created panics.\<close>

definition AppState_new ::
  "('e, 'd) app_env \<Rightarrow> u32 \<Rightarrow> rstring \<Rightarrow> socket_answers \<Rightarrow> desk_draw \<Rightarrow> u64 \<Rightarrow> instant \<Rightarrow> u64 \<Rightarrow> nat \<Rightarrow>
   (unit, ('e, 'd) DeskApp) outcome" where
  "AppState_new env device_id device_name sk dd session_epoch now next_id prebuffer =
     (case DeskTransport_new (av_desk env) device_id device_name sk dd session_epoch now of
        Inl _ \<Rightarrow> Panic
      | Inr transport \<Rightarrow>
          Ok \<lparr>ds_device_id = device_id, ds_device_name = device_name, ds_audio = DeskAudio_new, ds_transport = transport,
              ds_transport_held = False,
              ds_current_channel = 1, ds_connection_status = StDisconnected, ds_is_transmitting = False,
              ds_is_receiving = False, ds_tx_task = None, ds_rx_task = None, ds_relays = [], ds_cellular = None,
              ds_cellular_rx = None, ds_audio_cache = set_mix_mode_enabled (AudioCache_new next_id prebuffer) False,
              ds_roger_beep = True\<rparr>)"

definition with_relay :: "nat \<Rightarrow> (DeskRelay \<Rightarrow> DeskRelay) \<Rightarrow> ('e, 'd) app_step" where
  "with_relay i f s = (if i < length (ds_relays s) then s\<lparr>ds_relays := (ds_relays s)[i := f (ds_relays s ! i)]\<rparr> else s)"

section \<open>The receiving loop\<close>

text \<open>The start of the loop's task: without an output stream it returns at once.\<close>

definition rx_loop_start :: "('e, 'd) DeskApp \<Rightarrow> device_answer \<Rightarrow> ('e, 'd) DeskApp \<times> 'd RxPeerPool option" where
  "rx_loop_start s dv =
     (case desk_start_playing (ds_audio s) dv of
        (a, Inl e) \<Rightarrow> (s\<lparr>ds_audio := a\<rparr>, None)
      | (a, Inr _) \<Rightarrow> (s\<lparr>ds_audio := a\<rparr>, Some (RxPeerPool_new MAX_RX_DECODERS RX_DECODER_IDLE_TTL)))"

definition play_samples :: "pcm \<Rightarrow> ('e, 'd) app_step" where
  "play_samples samples s = s\<lparr>ds_audio := fst (write_samples (ds_audio s) samples)\<rparr>"

text \<open>\<open>while let Some(..) = cache.next_playback_frame()\<close>\<close>

function drain_to_speaker :: "('e, 'd) DeskApp \<Rightarrow> AudioCache \<Rightarrow> instant \<Rightarrow> ('e, 'd) DeskApp \<times> AudioCache" where
  "drain_to_speaker s cache now =
     (case next_playback_frame cache now of
        (cache, Some (_, samples)) \<Rightarrow> drain_to_speaker (play_samples samples s) cache now
      | (cache, None) \<Rightarrow> (s, cache))"
  by auto
termination
  by (relation "measure (\<lambda>(s, cache, now). cache_backlog cache)") (auto intro: next_frame_backlog [OF sym])

declare drain_to_speaker.simps [simp del]

text \<open>Decoding with the sender's decoder; concealment when the packet is bad, nothing when that fails as well.\<close>

definition decode_or_conceal :: "('e, 'd) desk_codec \<Rightarrow> 'd \<Rightarrow> bytes \<Rightarrow> 'd \<times> pcm" where
  "decode_or_conceal dc d opus =
     (case desk_decode dc d opus of
        (d, Inr pcm) \<Rightarrow> (d, pcm)
      | (d, Inl _) \<Rightarrow> (case desk_decode_plc dc d of (d, Inr pcm) \<Rightarrow> (d, pcm) | (d, Inl _) \<Rightarrow> (d, [])))"

definition cache_and_play :: "('e, 'd) app_env \<Rightarrow> rstring \<Rightarrow> u64 \<Rightarrow> pcm \<Rightarrow> instant \<Rightarrow> ('e, 'd) app_step" where
  "cache_and_play env sender ts pcm now s =
     (case ingest_frame (av_hash env) (ds_audio_cache s) sender ts pcm now of
        (cache, out) \<Rightarrow>
          let s = (case out of Some samples \<Rightarrow> play_samples samples s | None \<Rightarrow> s)
          in case drain_to_speaker s (tick cache now) now of (s, cache) \<Rightarrow> s\<lparr>ds_audio_cache := cache\<rparr>)"

text \<open>One frame. None is the task dead by a panic, with its flag left as it was.\<close>

definition desk_rx_frame ::
  "('e, 'd) app_env \<Rightarrow> DeskFrame \<Rightarrow> instant \<Rightarrow> ('e, 'd) DeskApp \<Rightarrow> 'd RxPeerPool \<Rightarrow> ('e, 'd) DeskApp \<times> 'd RxPeerPool option" where
  "desk_rx_frame env frame now s pool =
     (if ds_is_transmitting s then (s, Some pool)
      else let s = s\<lparr>ds_is_receiving := True\<rparr> in
        case get_or_insert (av_codec env) pool (df_sender frame) now of
          None \<Rightarrow> (s, None)
        | Some (pool, peer) \<Rightarrow>
            (case decode_or_conceal (av_codec env) (xp_decoder peer) (df_opus frame) of
               (d, pcm) \<Rightarrow>
                 let peer = peer\<lparr>xp_decoder := d\<rparr> in
                 if pcm = [] then (s\<lparr>ds_is_receiving := False\<rparr>, Some (put_peer pool (df_sender frame) peer))
                 else
                   let peer = (if df_timestamp frame \<noteq> 0 then peer
                               else peer\<lparr>xp_synth_ts := sat_add (xp_synth_ts peer) 20\<rparr>);
                       ts = (if df_timestamp frame \<noteq> 0 then df_timestamp frame else xp_synth_ts peer)
                   in ((cache_and_play env (df_sender frame) ts pcm now s)\<lparr>ds_is_receiving := False\<rparr>,
                       Some (put_peer pool (df_sender frame) peer))))"

text \<open>A turn of the loop on the LAN queue, and of the loop on the queue of a relay client.\<close>

definition lan_rx_turn :: "('e, 'd) app_env \<Rightarrow> instant \<Rightarrow> ('e, 'd) app_step" where
  "lan_rx_turn env now s =
     (case ds_rx_task s of
        None \<Rightarrow> s
      | Some pool \<Rightarrow>
          (case recv (dm_audio (ds_transport s)) now of
             (q, r) \<Rightarrow>
               let s = s\<lparr>ds_transport := (ds_transport s)\<lparr>dm_audio := q\<rparr>\<rparr> in
               case r of
                 None \<Rightarrow> s
               | Some frame \<Rightarrow>
                   (case desk_rx_frame env frame now s pool of
                      (s, Some pool) \<Rightarrow> s\<lparr>ds_rx_task := Some pool\<rparr>
                    | (s, None) \<Rightarrow> s\<lparr>ds_rx_task := None,
                                     ds_transport := (ds_transport s)\<lparr>dm_audio := drop_receiver (dm_audio (ds_transport s))\<rparr>\<rparr>)))"

definition drop_inbound :: "DeskRelay \<Rightarrow> DeskRelay" where
  "drop_inbound r = r\<lparr>rl_inbound := drop_receiver (rl_inbound r)\<rparr>"

definition relay_rx_turn :: "('e, 'd) app_env \<Rightarrow> instant \<Rightarrow> ('e, 'd) app_step" where
  "relay_rx_turn env now s =
     (case ds_cellular_rx s of
        None \<Rightarrow> s
      | Some (i, pool) \<Rightarrow>
          (case recv (rl_inbound (ds_relays s ! i)) now of
             (q, r) \<Rightarrow>
               let s = with_relay i (rl_inbound_update (\<lambda>_. q)) s in
               case r of
                 None \<Rightarrow> s
               | Some frame \<Rightarrow>
                   (case desk_rx_frame env frame now s pool of
                      (s, Some pool) \<Rightarrow> s\<lparr>ds_cellular_rx := Some (i, pool)\<rparr>
                    | (s, None) \<Rightarrow> with_relay i drop_inbound (s\<lparr>ds_cellular_rx := None\<rparr>))))"

section \<open>Discovery and the relay room\<close>

definition start_rx_thread ::
  "('e, 'd) DeskApp \<Rightarrow> device_answer \<Rightarrow> ('e, 'd) DeskApp \<times> (app_error + unit) poll" where
  "start_rx_thread s dv =
     (if ds_transport_held s then (s, Pending)
      else case take_audio_receiver (ds_transport s) of
        (t, False) \<Rightarrow> (s\<lparr>ds_transport := t\<rparr>, Ready (Inl AppNotConnected))
      | (t, True) \<Rightarrow>
          (case rx_loop_start (s\<lparr>ds_transport := t\<rparr>) dv of
             (s, Some pool) \<Rightarrow> (s\<lparr>ds_rx_task := Some pool\<rparr>, Ready (Inr ()))
           | (s, None) \<Rightarrow>
               (s\<lparr>ds_rx_task := None,
                  ds_transport := (ds_transport s)\<lparr>dm_audio := drop_receiver (dm_audio (ds_transport s))\<rparr>\<rparr>, Ready (Inr ()))))"

definition stop_rx_thread :: "('e, 'd) app_step" where
  "stop_rx_thread s =
     (case ds_rx_task s of
        None \<Rightarrow> s
      | Some _ \<Rightarrow> s\<lparr>ds_rx_task := None,
                    ds_transport := (ds_transport s)\<lparr>dm_audio := drop_receiver (dm_audio (ds_transport s))\<rparr>\<rparr>)"

definition leave_cellular :: "('e, 'd) app_step" where
  "leave_cellular s =
     (let s = (case ds_cellular s of Some i \<Rightarrow> with_relay i relay_stop (s\<lparr>ds_cellular := None\<rparr>) | None \<Rightarrow> s);
          s = (case ds_cellular_rx s of Some (i, _) \<Rightarrow> with_relay i drop_inbound (s\<lparr>ds_cellular_rx := None\<rparr>) | None \<Rightarrow> s)
      in s\<lparr>ds_connection_status := StDisconnected\<rparr>)"

text \<open>
  The guard taken at the top lives to the end of the function, across the call that locks the transport again.
  \<open>spawn\<close> is the error of starting the receiving thread.
\<close>

definition start_discovery ::
  "('e, 'd) DeskApp \<Rightarrow> rstring option \<Rightarrow> device_answer \<Rightarrow> ('e, 'd) DeskApp \<times> (app_error + unit) poll" where
  "start_discovery s spawn dv =
     (if ds_transport_held s then (s, Pending)
      else case desk_start (ds_transport s) spawn of
        (t, Inl e) \<Rightarrow> (s\<lparr>ds_transport := t\<rparr>, Ready (Inl (AppTransport e)))
      | (t, Inr _) \<Rightarrow>
          (let s = s\<lparr>ds_transport := t, ds_transport_held := True, ds_connection_status := StDiscovering\<rparr>
           in case start_rx_thread s dv of
                (s, Pending) \<Rightarrow> (s, Pending)
              | (s, Ready (Inl e)) \<Rightarrow> (s\<lparr>ds_transport_held := False\<rparr>, Ready (Inl e))
              | (s, Ready (Inr _)) \<Rightarrow>
                  (s\<lparr>ds_connection_status := StConnected, ds_transport_held := False\<rparr>, Ready (Inr ()))))"

definition stop_discovery :: "('e, 'd) DeskApp \<Rightarrow> ('e, 'd) DeskApp \<times> unit poll" where
  "stop_discovery s =
     (if ds_transport_held s then (s, Pending)
      else let s = s\<lparr>ds_transport := desk_stop (ds_transport s)\<rparr>
           in ((leave_cellular (stop_rx_thread s))\<lparr>ds_connection_status := StDisconnected\<rparr>, Ready ()))"

datatype join_error = JoinSession session_error | JoinNoSessionId | JoinNoSecret | JoinEnrollment | JoinDial connect_error | JoinNoReceiver

definition app_peer_id :: "('e, 'd) DeskApp \<Rightarrow> rstring" where
  "app_peer_id s = ascii ''desk-'' @ hex_id (ds_device_id s)"

text \<open>
  The second half of \<open>join_cellular\<close>, once the code is imported and accepted: the key on the LAN, the channel, the old
  room left, the new one dialled and its loop started. \<open>group_prefix\<close> is the random prefix of the LAN's session, \<open>epoch\<close>
  the relay's session epoch. Storing the key does not affect the result.
\<close>

definition enter_room ::
  "('e, 'd) app_env \<Rightarrow> ('e, 'd) DeskApp \<Rightarrow> u8 \<Rightarrow> CryptoSession \<Rightarrow> rstring \<Rightarrow> bytes \<Rightarrow> bytes \<Rightarrow> u64 \<Rightarrow> auth_answer \<times> ws_answer \<Rightarrow>
   device_answer \<Rightarrow> ('e, 'd) DeskApp \<times> (join_error + rstring) poll" where
  "enter_room env s channel crypto room_id psk group_prefix epoch answers dv =
     (if ds_transport_held s then (s, Pending)
      else
        let s = s\<lparr>ds_transport := set_session_psk (ds_transport s) psk group_prefix\<rparr>;
            s = s\<lparr>ds_current_channel := channel\<rparr>;
            s = s\<lparr>ds_transport := desk_set_channel (ds_transport s) channel\<rparr>;
            s = leave_cellular s;
            cell = DeskRelay_new (av_desk env) room_id (ds_device_name s) (app_peer_id s) crypto psk epoch;
            cell = relay_set_channel cell channel
        in case relay_connect cell answers of
             (cell, Inl e) \<Rightarrow> (s, Ready (Inl (JoinDial e)))
           | (cell, Inr _) \<Rightarrow>
               (case relay_take_audio_receiver cell of
                  (cell, False) \<Rightarrow> (s, Ready (Inl JoinNoReceiver))
                | (cell, True) \<Rightarrow>
                    let i = length (ds_relays s); s = s\<lparr>ds_relays := ds_relays s @ [cell]\<rparr> in
                    case rx_loop_start s dv of
                      (s, pool) \<Rightarrow>
                        let s = (case pool of Some p \<Rightarrow> s\<lparr>ds_cellular_rx := Some (i, p)\<rparr>
                                            | None \<Rightarrow> with_relay i drop_inbound (s\<lparr>ds_cellular_rx := None\<rparr>));
                            s = s\<lparr>ds_cellular := Some i, ds_current_channel := channel, ds_connection_status := StConnected\<rparr>
                        in (s, Ready (Inr room_id))))"

text \<open>
  \<open>uuid\<close> is the cohort id drawn when the code has none, \<open>clock\<close> the time of day in seconds, \<open>relay_prefix\<close> the random
  prefix of the relay's session.
\<close>

definition join_cellular ::
  "('e, 'd) app_env \<Rightarrow> ('e, 'd) DeskApp \<Rightarrow> rstring \<Rightarrow> u64 option \<Rightarrow> rstring \<Rightarrow> bytes \<Rightarrow> bytes \<Rightarrow> u64 \<Rightarrow> auth_answer \<times> ws_answer \<Rightarrow>
   device_answer \<Rightarrow> ('e, 'd) DeskApp \<times> (join_error + rstring) poll" where
  "join_cellular env s qr_json clock uuid relay_prefix group_prefix epoch answers dv =
     (case import_session (av_from_json env) (av_unb64 env) (SessionManager_new (ds_device_name s)) qr_json clock uuid relay_prefix of
        (sm, Inl e) \<Rightarrow> (s, Ready (Inl (JoinSession e)))
      | (sm, Inr (channel, crypto, _)) \<Rightarrow>
          (case get_session_id sm channel of None \<Rightarrow> (s, Ready (Inl JoinNoSessionId)) | Some room_id \<Rightarrow>
           case get_psk_for_channel (av_unb64 env) sm channel clock of None \<Rightarrow> (s, Ready (Inl JoinNoSecret)) | Some psk \<Rightarrow>
           if \<not> join_authorized room_id (Some psk) None None then (s, Ready (Inl JoinEnrollment))
           else enter_room env s channel crypto room_id psk group_prefix epoch answers dv))"

text \<open>The stored key is deleted as well.\<close>

definition desk_wipe_session :: "('e, 'd) DeskApp \<Rightarrow> ('e, 'd) DeskApp \<times> unit poll" where
  "desk_wipe_session s =
     (let s = leave_cellular s
      in if ds_transport_held s then (s, Pending)
         else (s\<lparr>ds_transport := clear_session_psk (ds_transport s)\<rparr>, Ready ()))"

definition app_set_channel :: "u8 \<Rightarrow> ('e, 'd) DeskApp \<Rightarrow> ('e, 'd) DeskApp \<times> unit poll" where
  "app_set_channel channel s =
     (let channel = min (max channel 1) 16; s = s\<lparr>ds_current_channel := channel\<rparr>
      in if ds_transport_held s then (s, Pending)
         else let s = s\<lparr>ds_transport := desk_set_channel (ds_transport s) channel\<rparr>
              in (case ds_cellular s of Some i \<Rightarrow> with_relay i (\<lambda>r. relay_set_channel r channel) s | None \<Rightarrow> s, Ready ()))"

section \<open>Transmitting\<close>

text \<open>One Opus frame to every plane with one timestamp. The result has the LAN datagrams that go out.\<close>

definition send_opus_fanout ::
  "('e, 'd) app_env \<Rightarrow> ('e, 'd) DeskApp \<Rightarrow> bytes \<Rightarrow> nat option \<Rightarrow> u64 \<Rightarrow> instant \<Rightarrow> (dest \<Rightarrow> rstring option) \<Rightarrow>
   ('e, 'd) DeskApp \<times> (dest \<times> bytes) list \<times> unit poll" where
  "send_opus_fanout env s opus_data cellular ts now os =
     (let s = (case cellular of
                 Some i \<Rightarrow> with_relay i (\<lambda>r. fst (relay_send_audio_at (av_desk env) r opus_data ts now)) s
               | None \<Rightarrow> s)
      in if ds_transport_held s then (s, [], Pending)
         else case desk_send_audio_at (av_desk env) (ds_transport s) opus_data (Some ts) ts os of
                (t, sent, _) \<Rightarrow> (s\<lparr>ds_transport := t\<rparr>, sent, Ready ()))"

text \<open>The spawned task first makes its encoder; failing that, it clears the flag and ends.\<close>

definition start_tx_thread :: "('e, 'd) app_env \<Rightarrow> ('e, 'd) app_step" where
  "start_tx_thread env s =
     (case DeskEncoder_new (av_codec env) of
        Inl _ \<Rightarrow> s\<lparr>ds_is_transmitting := False, ds_tx_task := None\<rparr>
      | Inr e \<Rightarrow> s\<lparr>ds_tx_task := Some (TxLoop e (ds_cellular s))\<rparr>)"

definition start_transmit ::
  "('e, 'd) app_env \<Rightarrow> ('e, 'd) DeskApp \<Rightarrow> device_answer \<Rightarrow> ('e, 'd) DeskApp \<times> (app_error + unit)" where
  "start_transmit env s dv =
     (if ds_is_transmitting s then (s, Inl AppAlreadyTransmitting)
      else let s = s\<lparr>ds_is_transmitting := True, ds_connection_status := StTransmitting\<rparr> in
        case desk_start_recording (ds_audio s) dv of
          (a, Inl e) \<Rightarrow> (s\<lparr>ds_audio := a\<rparr>, Inl (AppAudio e))
        | (a, Inr _) \<Rightarrow> (start_tx_thread env (s\<lparr>ds_audio := a\<rparr>), Inr ()))"

text \<open>A turn of the transmit loop: it reads what the ring holds, up to one frame.\<close>

definition app_tx_turn ::
  "('e, 'd) app_env \<Rightarrow> ('e, 'd) DeskApp \<Rightarrow> u64 \<Rightarrow> instant \<Rightarrow> (dest \<Rightarrow> rstring option) \<Rightarrow> ('e, 'd) DeskApp \<times> (dest \<times> bytes) list" where
  "app_tx_turn env s ts now os =
     (case ds_tx_task s of
        Some (TxLoop e cellular) \<Rightarrow>
          if \<not> ds_is_transmitting s then (s\<lparr>ds_tx_task := None\<rparr>, [])
          else (case read_samples (ds_audio s) DESK_FRAME_SIZE of
            (a, buffer) \<Rightarrow>
              let s = s\<lparr>ds_audio := a\<rparr> in
              if length buffer = DESK_FRAME_SIZE then
                (case desk_encode (av_codec env) e buffer of
                   (e, Inl _) \<Rightarrow> (s\<lparr>ds_tx_task := Some (TxLoop e cellular)\<rparr>, [])
                 | (e, Inr opus_data) \<Rightarrow>
                     (case send_opus_fanout env s opus_data cellular ts now os of
                        (s, sent, Ready _) \<Rightarrow> (s\<lparr>ds_tx_task := Some (TxLoop e cellular)\<rparr>, sent)
                      | (s, sent, Pending) \<Rightarrow> (s\<lparr>ds_tx_task := Some TxWaiting\<rparr>, sent)))
              else (s, []))
      | _ \<Rightarrow> (s, []))"

text \<open>The roger beep: five frames of a computed tone, \<open>tones\<close>, each sent at its own time.\<close>

fun send_tones ::
  "('e, 'd) app_env \<Rightarrow> ('e, 'd) DeskApp \<Rightarrow> 'e \<Rightarrow> nat option \<Rightarrow> (pcm \<times> u64 \<times> instant) list \<Rightarrow> (dest \<Rightarrow> rstring option) \<Rightarrow>
   ('e, 'd) DeskApp \<times> (dest \<times> bytes) list \<times> unit poll" where
  "send_tones env s e cellular [] os = (s, [], Ready ())"
| "send_tones env s e cellular ((samples, ts, now) # rest) os =
     (case desk_encode (av_codec env) e samples of
        (e, Inl _) \<Rightarrow> send_tones env s e cellular rest os
      | (e, Inr opus_data) \<Rightarrow>
          (case send_opus_fanout env s opus_data cellular ts now os of
             (s, sent, Pending) \<Rightarrow> (s, sent, Pending)
           | (s, sent, Ready _) \<Rightarrow>
               (case send_tones env s e cellular rest os of (s, later, r) \<Rightarrow> (s, sent @ later, r))))"

definition send_roger_beep ::
  "('e, 'd) app_env \<Rightarrow> ('e, 'd) DeskApp \<Rightarrow> (pcm \<times> u64 \<times> instant) list \<Rightarrow> (dest \<Rightarrow> rstring option) \<Rightarrow>
   ('e, 'd) DeskApp \<times> (dest \<times> bytes) list \<times> unit poll" where
  "send_roger_beep env s tones os =
     (case DeskEncoder_new (av_codec env) of
        Inl _ \<Rightarrow> (s, [], Ready ())
      | Inr e \<Rightarrow> send_tones env s e (ds_cellular s) (take 5 tones) os)"

definition stop_transmit ::
  "('e, 'd) app_env \<Rightarrow> ('e, 'd) DeskApp \<Rightarrow> (pcm \<times> u64 \<times> instant) list \<Rightarrow> (dest \<Rightarrow> rstring option) \<Rightarrow>
   ('e, 'd) DeskApp \<times> (dest \<times> bytes) list \<times> (app_error + unit) poll" where
  "stop_transmit env s tones os =
     (if \<not> ds_is_transmitting s then (s, [], Ready (Inl AppNotTransmitting))
      else let s = s\<lparr>ds_is_transmitting := False, ds_tx_task := None, ds_audio := desk_stop_recording (ds_audio s)\<rparr> in
        case (if ds_roger_beep s then send_roger_beep env s tones os else (s, [], Ready ())) of
          (s, sent, Pending) \<Rightarrow> (s, sent, Pending)
        | (s, sent, Ready _) \<Rightarrow> (s\<lparr>ds_connection_status := StConnected\<rparr>, sent, Ready (Inr ())))"

definition set_roger_beep :: "bool \<Rightarrow> ('e, 'd) app_step" where
  "set_roger_beep enabled s = s\<lparr>ds_roger_beep := enabled\<rparr>"

definition set_volume :: "real \<Rightarrow> real \<Rightarrow> ('e, 'd) app_step" where
  "set_volume input output s =
     s\<lparr>ds_audio := desk_set_output_volume (desk_set_input_volume (ds_audio s) input) output\<rparr>"

definition set_transport_config :: "TransportConfig \<Rightarrow> ('e, 'd) DeskApp \<Rightarrow> ('e, 'd) DeskApp \<times> unit poll" where
  "set_transport_config config s =
     (if ds_transport_held s then (s, Pending)
      else (s\<lparr>ds_transport := update_config (ds_transport s) config\<rparr>, Ready ()))"

end
