(* ===== verification/Desktop_Runs.thy ===== *)
theory Desktop_Runs
  imports Desktop_App
begin

text \<open>
  The desktop as a whole: every command, every turn of a task and every callback of a stream as an event, runs of them
  in any order, and what holds along every run. The LAN datagrams of voice that an event puts on the network are its
  output; frames for the relay are in the queues of the relay clients.
\<close>

section \<open>Events\<close>

datatype app_event =
    StartDiscovery "rstring option" device_answer
  | StopDiscovery
  | JoinCellular rstring "u64 option" rstring bytes bytes u64 "auth_answer \<times> ws_answer" device_answer
  | LeaveCellular
  | WipeSession
  | SetChannel u8
  | StartTransmit device_answer
  | StopTransmit "(pcm \<times> u64 \<times> instant) list" "dest \<Rightarrow> rstring option"
  | TxTurn u64 instant "dest \<Rightarrow> rstring option"
  | LanRxTurn instant
  | RelayRxTurn instant
  | LanDatagram "(bytes \<times> SocketAddr option) option" u64 instant bytes
  | LanHeartbeat u64 "rstring option"
  | RelayIo nat io_event bool u64 instant desk_draw
  | RelayWake nat "auth_answer \<times> ws_answer"
  | Microphone "real list"
  | Speaker nat
  | SetVolume real real
  | SetRogerBeep bool
  | SetConfig TransportConfig

fun app_apply :: "('e, 'd) app_env \<Rightarrow> app_event \<Rightarrow> ('e, 'd) DeskApp \<Rightarrow> ('e, 'd) DeskApp \<times> (dest \<times> bytes) list" where
  "app_apply env (StartDiscovery spawn dv) s = (fst (start_discovery s spawn dv), [])"
| "app_apply env StopDiscovery s = (fst (stop_discovery s), [])"
| "app_apply env (JoinCellular qr clock uuid rp gp epoch answers dv) s =
     (fst (join_cellular env s qr clock uuid rp gp epoch answers dv), [])"
| "app_apply env LeaveCellular s = (leave_cellular s, [])"
| "app_apply env WipeSession s = (fst (desk_wipe_session s), [])"
| "app_apply env (SetChannel ch) s = (fst (app_set_channel ch s), [])"
| "app_apply env (StartTransmit dv) s = (fst (start_transmit env s dv), [])"
| "app_apply env (StopTransmit tones os) s = (case stop_transmit env s tones os of (s, sent, _) \<Rightarrow> (s, sent))"
| "app_apply env (TxTurn ts now os) s = app_tx_turn env s ts now os"
| "app_apply env (LanRxTurn now) s = (lan_rx_turn env now s, [])"
| "app_apply env (RelayRxTurn now) s = (relay_rx_turn env now s, [])"
| "app_apply env (LanDatagram arrived now_ms now np) s =
     (s\<lparr>ds_transport := desk_rx_turn (av_desk env) (ds_transport s) arrived now_ms now np\<rparr>, [])"
| "app_apply env (LanHeartbeat now_ms os) s = (s\<lparr>ds_transport := fst (heartbeat_turn (ds_transport s) now_ms os)\<rparr>, [])"
| "app_apply env (RelayIo i ev ok now_ms now dd) s =
     (with_relay i (\<lambda>r. fst (io_turn (av_desk env) r ev ok now_ms now dd)) s, [])"
| "app_apply env (RelayWake i answers) s = (with_relay i (\<lambda>r. supervise_wake r answers) s, [])"
| "app_apply env (Microphone data) s = (s\<lparr>ds_audio := input_callback (ds_audio s) data\<rparr>, [])"
| "app_apply env (Speaker frames) s = (s\<lparr>ds_audio := fst (output_callback (ds_audio s) frames)\<rparr>, [])"
| "app_apply env (SetVolume i out) s = (set_volume i out s, [])"
| "app_apply env (SetRogerBeep b) s = (set_roger_beep b s, [])"
| "app_apply env (SetConfig c) s = (fst (set_transport_config c s), [])"

fun app_run :: "('e, 'd) app_env \<Rightarrow> app_event list \<Rightarrow> ('e, 'd) DeskApp \<Rightarrow> ('e, 'd) DeskApp \<times> (dest \<times> bytes) list" where
  "app_run env [] s = (s, [])"
| "app_run env (ev # evs) s =
     (case app_apply env ev s of (s, sent) \<Rightarrow> (case app_run env evs s of (s, later) \<Rightarrow> (s, sent @ later)))"

lemma app_run_induct:
  assumes step: "\<And>ev s. P s \<Longrightarrow> P (fst (app_apply env ev s))" and init: "P s"
  shows "P (fst (app_run env evs s))"
  using init
proof (induction evs arbitrary: s)
  case (Cons ev evs)
  from Cons.IH [OF step [OF Cons.prems]] show ?case by (simp split: prod.split) (metis fst_conv prod.collapse)
qed simp

section \<open>Well-formedness\<close>

text \<open>A queue within its capacity, and empty once its receiver is gone.\<close>

definition rtq_ok :: "nat \<Rightarrow> 'a RealtimeQueue \<Rightarrow> bool" where
  "rtq_ok n q \<longleftrightarrow> rq_capacity q = n \<and> length (rq_items q) \<le> n \<and> (rq_closed q \<longrightarrow> rq_items q = [])"

lemma rtq_ok_calls [simp]:
  assumes "rtq_ok n q"
  shows "rtq_ok n (fst (try_send q v t))" "rtq_ok n (discard_pending q)" "rtq_ok n (drop_receiver q)"
  using assms by (auto simp: rtq_ok_def try_send_def discard_pending_def drop_receiver_def)

lemma recv_from_length: "recv_from age now items mt = (r, items', mt') \<Longrightarrow> length items' \<le> length items"
proof (induction age now items mt rule: recv_from.induct)
  case (2 age now v t rest mt)
  then show ?case by (fastforce split: if_splits)
qed auto

lemma rtq_ok_recv [simp]: "rtq_ok n q \<Longrightarrow> rtq_ok n (fst (recv q now))"
proof -
  assume q: "rtq_ok n q"
  obtain r items mt where e: "recv_from (rq_max_age q) now (rq_items q) (rq_metrics q) = (r, items, mt)"
    by (metis prod_cases3)
  from recv_from_length [OF e] q show ?thesis by (auto simp: rtq_ok_def recv_def e)
qed

lemma rtq_ok_new [simp]: "rtq_ok n (realtime_channel n age)"
  by (simp add: rtq_ok_def realtime_channel_def)

definition lan_ok :: "DeskTransport \<Rightarrow> bool" where
  "lan_ok t \<longleftrightarrow> rtq_ok UDP_AUDIO_CAPACITY (dm_audio t) \<and> 1 \<le> dm_current_channel t \<and> dm_current_channel t \<le> 16"

definition relay_ok :: "DeskRelay \<Rightarrow> bool" where
  "relay_ok r \<longleftrightarrow> rtq_ok RELAY_OUTBOUND_CAPACITY (rl_outbound r) \<and> rtq_ok RELAY_INBOUND_CAPACITY (rl_inbound r) \<and>
     never_initiated (rl_control r)"

definition rings_ok :: "DeskAudio \<Rightarrow> bool" where
  "rings_ok a \<longleftrightarrow> (\<forall>ring. da_input a = Some ring \<or> da_output a = Some ring \<longrightarrow> length ring \<le> DESK_BUFFER_SIZE) \<and>
     0 < da_input_channels a \<and> 0 < da_output_channels a"

text \<open>A pool of the receiving loops.\<close>

definition loop_pool_ok :: "'d RxPeerPool \<Rightarrow> bool" where
  "loop_pool_ok pool \<longleftrightarrow> pool_ok pool \<and> pp_max_peers pool = MAX_RX_DECODERS"

definition app_ok :: "('e, 'd) DeskApp \<Rightarrow> bool" where
  "app_ok s \<longleftrightarrow> lan_ok (ds_transport s) \<and> (\<forall>r \<in> set (ds_relays s). relay_ok r) \<and> rings_ok (ds_audio s) \<and>
     cache_inv (ds_audio_cache s) \<and> 1 \<le> ds_current_channel s \<and> ds_current_channel s \<le> 16 \<and>
     (\<not> ds_transport_held s \<longrightarrow> ds_current_channel s = dm_current_channel (ds_transport s)) \<and>
     (\<forall>pool. ds_rx_task s = Some pool \<longrightarrow> loop_pool_ok pool) \<and>
     (\<forall>i pool. ds_cellular_rx s = Some (i, pool) \<longrightarrow> i < length (ds_relays s) \<and> loop_pool_ok pool) \<and>
     (\<forall>i. ds_cellular s = Some i \<longrightarrow> i < length (ds_relays s))"

subsection \<open>The audio engine\<close>

lemma rings_ok_new [simp]: "rings_ok DeskAudio_new"
  by (simp add: rings_ok_def DeskAudio_new_def)

lemma rings_ok_init [simp]:
  assumes "rings_ok a"
  shows "rings_ok (fst (init_input_stream a dv))" "rings_ok (fst (init_output_stream a dv))"
  using assms by (auto simp: rings_ok_def init_input_stream_def init_output_stream_def Let_def split: sum.splits)

lemma rings_ok_start [simp]:
  assumes "rings_ok a"
  shows "rings_ok (fst (desk_start_recording a dv))" "rings_ok (fst (desk_start_playing a dv))"
  using assms rings_ok_init [OF assms, of dv]
  by (auto simp: rings_ok_def desk_start_recording_def desk_start_playing_def split: sum.splits prod.splits)

lemma rings_ok_ops [simp]:
  assumes "rings_ok a"
  shows "rings_ok (desk_stop_recording a)" "rings_ok (fst (read_samples a n))" "rings_ok (fst (write_samples a xs))"
    "rings_ok (input_callback a data)" "rings_ok (fst (output_callback a n))"
    "rings_ok (desk_set_input_volume a v)" "rings_ok (desk_set_output_volume a v)"
  using assms
  by (auto simp: rings_ok_def desk_stop_recording_def read_samples_def write_samples_def input_callback_def ring_push_bound
      output_callback_def desk_set_input_volume_def desk_set_output_volume_def split: option.splits)

subsection \<open>The LAN transport\<close>

definition group_key :: "DeskTransport \<Rightarrow> bytes option" where
  "group_key t = map_option cs_cipher (dm_group_crypto t)"

text \<open>What receiving and sending leave as it was.\<close>

definition lan_frame :: "DeskTransport \<Rightarrow> DeskTransport \<Rightarrow> bool" where
  "lan_frame t t' \<longleftrightarrow> (lan_ok t \<longrightarrow> lan_ok t') \<and> dm_current_channel t' = dm_current_channel t \<and>
     group_key t' = group_key t \<and> dm_audio_rx t' = dm_audio_rx t \<and> dm_running t' = dm_running t \<and> dm_config t' = dm_config t"

lemma lan_frame_refl [simp]: "lan_frame t t"
  by (simp add: lan_frame_def)

lemma lan_frame_trans: "lan_frame t t1 \<Longrightarrow> lan_frame t1 t2 \<Longrightarrow> lan_frame t t2"
  by (auto simp: lan_frame_def)

lemma lan_frame_fields [simp]:
  "lan_frame t (t1\<lparr>dm_peers := p\<rparr>) = lan_frame t t1" "lan_frame t (t1\<lparr>dm_crypto_engines := e\<rparr>) = lan_frame t t1"
  "lan_frame t (t1\<lparr>dm_liveness := l\<rparr>) = lan_frame t t1" "lan_frame t (t1\<lparr>dm_heartbeat_seq := n\<rparr>) = lan_frame t t1"
  by (simp_all add: lan_frame_def lan_ok_def group_key_def)

lemma lan_frame_push [simp]: "lan_frame t (push_audio t f now)"
  by (simp add: lan_frame_def lan_ok_def push_audio_def group_key_def)

lemma cs_cipher_decrypt [simp]: "cs_cipher (fst (decrypt dec c bs)) = cs_cipher c"
  by (simp add: decrypt_def Let_def split: option.split prod.split)

lemma cs_cipher_encrypt [simp]: "cs_cipher (fst (encrypt enc c pt)) = cs_cipher c"
  by (simp add: encrypt_def next_nonce_def Let_def split: option.split)

lemma lan_frame_crypto [simp]:
  "dm_group_crypto t = Some c \<Longrightarrow> cs_cipher c' = cs_cipher c \<Longrightarrow> lan_frame t (t\<lparr>dm_group_crypto := Some c'\<rparr>)"
  by (simp add: lan_frame_def lan_ok_def group_key_def)

lemma try_group_frame: "lan_frame t (fst (try_group env t bs))"
proof (cases "dm_group_crypto t")
  case (Some c)
  obtain c1 r where d: "decrypt (dk_dec env) c bs = (c1, r)" by (cases "decrypt (dk_dec env) c bs")
  then have "cs_cipher c1 = cs_cipher c" using cs_cipher_decrypt [of "dk_dec env" c bs] by simp
  then show ?thesis by (simp add: try_group_def Some d split: sum.split)
qed (simp add: try_group_def)

lemma adopt_frame: "lan_frame t (fst (adopt_peer_key env t i pub np now))"
  by (simp add: adopt_peer_key_def split: sum.split)

lemma rx_packet_frame: "lan_frame t (rx_packet env t p src now_ms now np)"
proof -
  have dwk: "lan_frame t (rx_discovery_with_key env t i n ch pub a now_ms now np)" for i n ch pub a
    using adopt_frame [of t env i _ np now]
    by (auto simp: rx_discovery_with_key_def Let_def split: option.split prod.split) (metis fst_conv)
  show ?thesis
    using adopt_frame [of t env "pk_device_id p" _ np now] dwk
    by (auto simp: rx_packet_def rx_audio_packet_def split: PacketType.split option.split sum.split)
qed

lemma rx_datagram_frame: "lan_frame t (rx_datagram env t bs src now_ms now np)"
proof -
  obtain t1 r where t1: "try_group env t bs = (t1, r)" by (cases "try_group env t bs")
  have f: "lan_frame t t1" using try_group_frame [of t env bs] t1 by simp
  have "lan_frame t1 (rx_datagram env t bs src now_ms now np)"
    by (auto simp: rx_datagram_def t1 rx_control_def Let_def intro: rx_packet_frame
        split: option.split outcome.split sum.split)
  with f show ?thesis by (rule lan_frame_trans)
qed

lemma desk_rx_turn_frame: "lan_frame t (desk_rx_turn env t arrived now_ms now np)"
  by (simp add: desk_rx_turn_def rx_datagram_frame split: option.split)

lemma heartbeat_frame: "lan_frame t (fst (heartbeat_turn t now_ms os))"
  by (simp add: heartbeat_turn_def Let_def)

lemma desk_send_frame: "lan_frame t (fst (desk_send_audio_at env t bs ts now os))"
proof (cases "dm_group_crypto t")
  case (Some c)
  define frame where "frame = pack_wire_frame (dm_current_channel t) DESK_SUBCH_MAIN (dm_sender_id t) (dm_device_name t)
    (case ts of Some t \<Rightarrow> t | None \<Rightarrow> now) bs"
  obtain c1 r where d: "encrypt (dk_enc env) c frame = (c1, r)" by (cases "encrypt (dk_enc env) c frame")
  then have "cs_cipher c1 = cs_cipher c" using cs_cipher_encrypt [of "dk_enc env" c frame] by simp
  then show ?thesis by (simp add: desk_send_audio_at_def Some d Let_def frame_def [symmetric] split: sum.split)
qed (simp add: desk_send_audio_at_def Let_def split: prod.split)

subsection \<open>Relay clients\<close>

lemma never_initiated_seal:
  "never_initiated (fst (encode_heartbeat_sealed env cp ep sq now st rtt nonce)) = never_initiated cp"
  by (simp add: encode_heartbeat_sealed_def) (metis prod.collapse seal_frame(2))

lemma never_initiated_staged [simp]:
  "never_initiated (fst (try_decrypt_staged env cp bs)) = never_initiated cp"
  "never_initiated (fst (promote_staged cp)) = never_initiated cp"
  by (simp_all add: try_decrypt_staged_def promote_staged_def split: option.split prod.split)

lemma relay_ok_fields [simp]:
  "relay_ok (r\<lparr>rl_crypto := c\<rparr>) = relay_ok r" "relay_ok (r\<lparr>rl_packets_sent := n\<rparr>) = relay_ok r"
  "relay_ok (r\<lparr>rl_packets_received := n\<rparr>) = relay_ok r" "relay_ok (r\<lparr>rl_heartbeat_seq := n\<rparr>) = relay_ok r"
  "relay_ok (r\<lparr>rl_state := st\<rparr>) = relay_ok r" "relay_ok (r\<lparr>rl_running := b\<rparr>) = relay_ok r"
  "relay_ok (r\<lparr>rl_supervisor := sv\<rparr>) = relay_ok r" "relay_ok (r\<lparr>rl_current_channel := ch\<rparr>) = relay_ok r"
  "relay_ok (r\<lparr>rl_has_completed_handshake := b\<rparr>) = relay_ok r" "relay_ok (r\<lparr>rl_outbound_rx := b\<rparr>) = relay_ok r"
  "relay_ok (r\<lparr>rl_inbound_rx := b\<rparr>) = relay_ok r"
  by (simp_all add: relay_ok_def)

lemma relay_ok_control [simp]: "relay_ok r \<Longrightarrow> never_initiated cp \<Longrightarrow> relay_ok (r\<lparr>rl_control := cp\<rparr>)"
  by (simp add: relay_ok_def)

lemma relay_ok_queues [simp]:
  "relay_ok r \<Longrightarrow> relay_ok (r\<lparr>rl_outbound := q\<rparr>) = rtq_ok RELAY_OUTBOUND_CAPACITY q"
  "relay_ok r \<Longrightarrow> relay_ok (r\<lparr>rl_inbound := q'\<rparr>) = rtq_ok RELAY_INBOUND_CAPACITY q'"
  by (simp_all add: relay_ok_def)

lemma relay_okD:
  "relay_ok r \<Longrightarrow> rtq_ok RELAY_OUTBOUND_CAPACITY (rl_outbound r)"
  "relay_ok r \<Longrightarrow> rtq_ok RELAY_INBOUND_CAPACITY (rl_inbound r)" "relay_ok r \<Longrightarrow> never_initiated (rl_control r)"
  by (simp_all add: relay_ok_def)

lemma relay_ok_new: "relay_ok (DeskRelay_new env room nm pid c psk ep)"
  by (simp add: relay_ok_def DeskRelay_new_def install_psk_def)

lemma relay_ok_dial [simp]: "relay_ok (fst (dial r answers)) = relay_ok r"
  by (simp add: dial_def split: sum.split ws_answer.split)

lemma relay_ok_enter_io [simp]: "relay_ok r \<Longrightarrow> relay_ok (enter_io r)"
  by (simp add: enter_io_def relay_okD)

lemma relay_ok_connect [simp]:
  assumes "relay_ok r"
  shows "relay_ok (fst (relay_connect r answers))"
proof -
  define r1 where "r1 = rl_set_state (r\<lparr>rl_running := True\<rparr>) RelayConnecting"
  obtain r2 d where d: "dial r1 answers = (r2, d)" by (cases "dial r1 answers")
  have "relay_ok r2" using relay_ok_dial [of r1 answers] assms by (simp add: d) (simp add: r1_def rl_set_state_def)
  then show ?thesis
    using assms d [unfolded r1_def rl_set_state_def] by (simp add: relay_connect_def Let_def rl_set_state_def split: sum.split)
qed

lemma relay_ok_ended [simp]: "relay_ok (io_ended r) = relay_ok r"
  by (simp add: io_ended_def rl_set_state_def Let_def)

lemma relay_ok_wake [simp]:
  assumes "relay_ok r"
  shows "relay_ok (supervise_wake r answers)"
proof -
  obtain r2 d where d: "dial (rl_set_state r RelayConnecting) answers = (r2, d)" by (cases "dial (rl_set_state r RelayConnecting) answers")
  have "relay_ok r2"
    using relay_ok_dial [of "rl_set_state r RelayConnecting" answers] assms by (simp add: d) (simp add: rl_set_state_def)
  then show ?thesis
    using assms d [unfolded rl_set_state_def] by (simp add: supervise_wake_def rl_set_state_def split: supervisor.split sum.split)
qed

lemma relay_ok_small [simp]:
  assumes "relay_ok r"
  shows "relay_ok (relay_stop r)" "relay_ok (relay_set_channel r ch)" "relay_ok (drop_inbound r)"
    "relay_ok (fst (relay_take_audio_receiver r))" "relay_ok (r\<lparr>rl_inbound := fst (recv (rl_inbound r) now)\<rparr>)"
  using assms
  by (simp_all add: relay_stop_def rl_set_state_def relay_set_channel_def drop_inbound_def relay_take_audio_receiver_def relay_okD)

lemma relay_ok_send [simp]: "relay_ok r \<Longrightarrow> relay_ok (fst (relay_send_audio_at env r opus ts now))"
  using rtq_ok_calls(1) [OF relay_okD(1), of r]
  by (auto simp: relay_send_audio_at_def Let_def split: prod.split sum.split) (metis fst_conv)+

lemma relay_ok_open: "relay_ok r \<Longrightarrow> relay_ok (fst (relay_open env r bs))"
proof -
  assume r: "relay_ok r"
  obtain cp x where t: "try_decrypt_staged env (rl_control r) bs = (cp, x)" by (cases "try_decrypt_staged env (rl_control r) bs")
  obtain cp1 y where p: "promote_staged cp = (cp1, y)" by (cases "promote_staged cp")
  have "never_initiated cp" using never_initiated_staged(1) [of env "rl_control r" bs] relay_okD(3) [OF r] by (simp add: t)
  moreover from this have "never_initiated cp1" using never_initiated_staged(2) [of cp] by (simp add: p)
  ultimately show ?thesis using r by (simp add: relay_open_def t p Let_def split: prod.split sum.split option.split)
qed

lemma relay_ok_audio: "relay_ok r \<Longrightarrow> relay_ok (relay_audio env r bs now)"
proof -
  assume r: "relay_ok r"
  obtain r1 x where o1: "relay_open env r bs = (r1, x)" by (cases "relay_open env r bs")
  have "relay_ok r1" using relay_ok_open [OF r, of env bs] by (simp add: o1)
  then show ?thesis by (simp add: relay_audio_def o1 relay_okD split: option.split outcome.split)
qed

lemma relay_ok_inbound:
  assumes r: "relay_ok r"
  shows "relay_ok (relay_handle_inbound env r bs now_ms now dd)"
proof -
  obtain cp a inst where h: "handle_inbound env (rl_control r) bs now_ms dd = (cp, a, inst)" by (metis prod_cases3)
  have n: "never_initiated cp" using handle_never_installs [OF relay_okD(3) [OF r] h] by simp
  define r1 where "r1 = r\<lparr>rl_control := cp, rl_crypto := (case inst of Some s \<Rightarrow> s | None \<Rightarrow> rl_crypto r)\<rparr>"
  have ok: "relay_ok r1" using n r by (simp add: r1_def)
  show ?thesis
    using ok relay_ok_audio [OF ok]
    by (simp add: relay_handle_inbound_def h Let_def r1_def [symmetric] relay_okD split: ControlAction.split)
qed

lemma relay_ok_io:
  assumes r: "relay_ok r"
  shows "relay_ok (fst (io_turn env r ev ok now_ms now dd))"
proof -
  have out: "relay_ok (r\<lparr>rl_outbound := fst (recv (rl_outbound r) now)\<rparr>)" using r by (simp add: relay_okD)
  have hb: "relay_ok (fst (relay_encode_heartbeat env r now_ms nonce))" for nonce
  proof -
    obtain cp f where e: "encode_heartbeat_sealed env (rl_control r) (rl_session_epoch r) (rl_heartbeat_seq r) now_ms Idle 0 nonce = (cp, f)"
      by (metis prod.exhaust)
    then have "never_initiated cp"
      using never_initiated_seal [of env "rl_control r"] relay_okD(3) [OF r] by (metis fst_conv)
    with r show ?thesis by (simp add: relay_encode_heartbeat_def Let_def e)
  qed
  show ?thesis
    using r out hb relay_ok_inbound [OF r]
    by (auto simp: io_turn_def Let_def split: io_event.split prod.split option.split) (metis fst_conv)+
qed

subsection \<open>The application\<close>

lemma with_relay_fields [simp]:
  "length (ds_relays (with_relay i f s)) = length (ds_relays s)"
  "ds_transport (with_relay i f s) = ds_transport s" "ds_transport_held (with_relay i f s) = ds_transport_held s"
  "ds_audio (with_relay i f s) = ds_audio s" "ds_audio_cache (with_relay i f s) = ds_audio_cache s"
  "ds_current_channel (with_relay i f s) = ds_current_channel s" "ds_rx_task (with_relay i f s) = ds_rx_task s"
  "ds_cellular_rx (with_relay i f s) = ds_cellular_rx s" "ds_cellular (with_relay i f s) = ds_cellular s"
  "ds_tx_task (with_relay i f s) = ds_tx_task s" "ds_is_transmitting (with_relay i f s) = ds_is_transmitting s"
  "ds_roger_beep (with_relay i f s) = ds_roger_beep s" "ds_device_name (with_relay i f s) = ds_device_name s"
  "ds_device_id (with_relay i f s) = ds_device_id s" "ds_connection_status (with_relay i f s) = ds_connection_status s"
  by (simp_all add: with_relay_def)

lemma with_relay_ok [simp]:
  assumes "app_ok s" "\<And>r. relay_ok r \<Longrightarrow> relay_ok (f r)"
  shows "app_ok (with_relay i f s)"
proof -
  have "\<forall>r \<in> set (ds_relays (with_relay i f s)). relay_ok r"
    using assms set_update_subset_insert [of "ds_relays s" i "f (ds_relays s ! i)"]
    by (auto simp: with_relay_def app_ok_def dest!: subsetD)
  then show ?thesis using assms(1) by (simp add: app_ok_def)
qed

lemma app_ok_fields [simp]:
  "app_ok (s\<lparr>ds_connection_status := st\<rparr>) = app_ok s" "app_ok (s\<lparr>ds_is_transmitting := b\<rparr>) = app_ok s"
  "app_ok (s\<lparr>ds_is_receiving := b\<rparr>) = app_ok s" "app_ok (s\<lparr>ds_tx_task := t\<rparr>) = app_ok s"
  "app_ok (s\<lparr>ds_roger_beep := b\<rparr>) = app_ok s"
  by (simp_all add: app_ok_def)

lemma app_ok_updates [simp]:
  assumes "app_ok s"
  shows "app_ok (s\<lparr>ds_audio := a\<rparr>) = rings_ok a" "app_ok (s\<lparr>ds_rx_task := None\<rparr>)" "app_ok (s\<lparr>ds_cellular_rx := None\<rparr>)"
    "app_ok (s\<lparr>ds_cellular := None\<rparr>)" "loop_pool_ok pool \<Longrightarrow> app_ok (s\<lparr>ds_rx_task := Some pool\<rparr>)"
    "lan_frame (ds_transport s) t \<Longrightarrow> app_ok (s\<lparr>ds_transport := t\<rparr>)" "app_ok (s\<lparr>ds_transport_held := True\<rparr>)"
    "cache_inv c \<Longrightarrow> app_ok (s\<lparr>ds_audio_cache := c\<rparr>)"
  using assms by (auto simp: app_ok_def lan_frame_def)

lemma app_okD:
  assumes "app_ok s"
  shows "rings_ok (ds_audio s)" "cache_inv (ds_audio_cache s)" "lan_ok (ds_transport s)"
    "ds_rx_task s = Some pool \<Longrightarrow> loop_pool_ok pool"
    "ds_cellular_rx s = Some (i, pool) \<Longrightarrow> i < length (ds_relays s) \<and> loop_pool_ok pool"
  using assms by (auto simp: app_ok_def)

subsubsection \<open>Playing\<close>

text \<open>A loop's work on a frame touches the flag, the speaker ring and the cache only.\<close>

definition played :: "('e, 'd) DeskApp \<Rightarrow> ('e, 'd) DeskApp \<Rightarrow> bool" where
  "played s s' \<longleftrightarrow> (\<exists>a c b. s' = s\<lparr>ds_audio := a, ds_audio_cache := c, ds_is_receiving := b\<rparr> \<and>
     (rings_ok (ds_audio s) \<longrightarrow> rings_ok a) \<and> (cache_inv (ds_audio_cache s) \<longrightarrow> cache_inv c))"

lemma played_refl: "played s s"
  unfolding played_def by (intro exI [of _ "ds_audio s"] exI [of _ "ds_audio_cache s"] exI [of _ "ds_is_receiving s"]) simp

lemma playedI:
  "(rings_ok (ds_audio s) \<Longrightarrow> rings_ok a) \<Longrightarrow> (cache_inv (ds_audio_cache s) \<Longrightarrow> cache_inv c) \<Longrightarrow>
     played s (s\<lparr>ds_audio := a, ds_audio_cache := c, ds_is_receiving := b\<rparr>)"
  unfolding played_def by blast

lemma played_receiving:
  assumes "played s s'"
  shows "played s (s'\<lparr>ds_is_receiving := b\<rparr>)"
proof -
  obtain a c b0 where "s' = s\<lparr>ds_audio := a, ds_audio_cache := c, ds_is_receiving := b0\<rparr>"
    "rings_ok (ds_audio s) \<longrightarrow> rings_ok a" "cache_inv (ds_audio_cache s) \<longrightarrow> cache_inv c"
    using assms unfolding played_def by blast
  then show ?thesis using playedI [of s a c b] by simp
qed

lemma played_trans:
  assumes "played s s1" "played s1 s2"
  shows "played s s2"
proof -
  obtain a c b where 1: "s1 = s\<lparr>ds_audio := a, ds_audio_cache := c, ds_is_receiving := b\<rparr>"
    "rings_ok (ds_audio s) \<longrightarrow> rings_ok a" "cache_inv (ds_audio_cache s) \<longrightarrow> cache_inv c"
    using assms(1) unfolding played_def by blast
  obtain a' c' b' where "s2 = s1\<lparr>ds_audio := a', ds_audio_cache := c', ds_is_receiving := b'\<rparr>"
    "rings_ok (ds_audio s1) \<longrightarrow> rings_ok a'" "cache_inv (ds_audio_cache s1) \<longrightarrow> cache_inv c'"
    using assms(2) unfolding played_def by blast
  with 1 show ?thesis using playedI [of s a' c' b'] by simp
qed

lemma played_ok: "played s s' \<Longrightarrow> app_ok s \<Longrightarrow> app_ok s'"
  unfolding played_def by (auto simp: app_ok_def)

lemma drain_frame:
  "drain_to_speaker s cache now = (s', cache') \<Longrightarrow>
     (\<exists>a. s' = s\<lparr>ds_audio := a\<rparr> \<and> (rings_ok (ds_audio s) \<longrightarrow> rings_ok a)) \<and> (cache_inv cache \<longrightarrow> cache_inv cache')"
proof (induction s cache now arbitrary: s' cache' rule: drain_to_speaker.induct)
  case (1 s cache now)
  obtain c1 r where n: "next_playback_frame cache now = (c1, r)" by (cases "next_playback_frame cache now")
  have inv: "cache_inv cache \<Longrightarrow> cache_inv c1" using inv_next [of cache now] n by simp
  show ?case
  proof (cases r)
    case None
    then have "s' = s \<and> cache' = c1" using 1(2) by (subst (asm) drain_to_speaker.simps) (simp add: n)
    then show ?thesis using inv by (auto intro: exI [of _ "ds_audio s"])
  next
    case (Some x)
    obtain sid xs where x: "x = (sid, xs)" by (cases x)
    have d: "drain_to_speaker (play_samples xs s) c1 now = (s', cache')"
      using 1(2) by (subst (asm) drain_to_speaker.simps) (simp add: n Some x)
    from 1(1) [OF n [symmetric] Some x [symmetric] d] inv show ?thesis
      by (fastforce simp: play_samples_def)
  qed
qed

lemma cache_and_play_played: "played s (cache_and_play env sender ts pcm now s)"
proof -
  obtain cache out where i: "ingest_frame (av_hash env) (ds_audio_cache s) sender ts pcm now = (cache, out)"
    by (metis prod.exhaust)
  define s1 where "s1 = (case out of Some samples \<Rightarrow> play_samples samples s | None \<Rightarrow> s)"
  obtain s2 c2 where d: "drain_to_speaker s1 (tick cache now) now = (s2, c2)" by (metis prod.exhaust)
  have s1: "\<exists>a. s1 = s\<lparr>ds_audio := a\<rparr> \<and> (rings_ok (ds_audio s) \<longrightarrow> rings_ok a)"
    by (auto simp: s1_def play_samples_def split: option.split intro: exI [of _ "ds_audio s"])
  have "cache_inv (ds_audio_cache s) \<Longrightarrow> cache_inv (tick cache now)"
    using inv_ingest [of "ds_audio_cache s" "av_hash env" sender 0 "ucast ts" ts pcm now] i
    by (simp add: ingest_frame_def inv_tick)
  with s1 drain_frame [OF d] obtain a where "s2 = s\<lparr>ds_audio := a\<rparr>" "rings_ok (ds_audio s) \<longrightarrow> rings_ok a"
    "cache_inv (ds_audio_cache s) \<longrightarrow> cache_inv c2" by auto
  then show ?thesis
    unfolding played_def cache_and_play_def
    by (auto simp: i s1_def [symmetric] d Let_def intro!: exI [of _ a] exI [of _ c2] exI [of _ "ds_is_receiving s"])
qed

lemma rx_frame_spec:
  assumes "desk_rx_frame env frame now s pool = (s', p)"
  shows "played s s'" "loop_pool_ok pool \<Longrightarrow> p = Some pool' \<Longrightarrow> loop_pool_ok pool'"
proof -
  have rec: "played s (s\<lparr>ds_is_receiving := b\<rparr>)" for b by (rule played_receiving [OF played_refl])
  have play: "played s ((cache_and_play env snd ts pcm now (s\<lparr>ds_is_receiving := True\<rparr>))\<lparr>ds_is_receiving := False\<rparr>)" for snd ts pcm
    by (intro played_receiving played_trans [OF rec cache_and_play_played])
  show "played s s'"
    using assms rec play played_refl
    by (auto simp: desk_rx_frame_def Let_def split: if_splits option.splits prod.splits)
  show "loop_pool_ok pool'" if lp: "loop_pool_ok pool" and sm: "p = Some pool'"
  proof (cases "ds_is_transmitting s")
    case True
    then show ?thesis using lp sm assms by (simp add: desk_rx_frame_def)
  next
    case False
    then obtain pool1 peer where g: "get_or_insert (av_codec env) pool (df_sender frame) now = Some (pool1, peer)"
      using sm assms by (auto simp: desk_rx_frame_def Let_def split: option.splits)
    have ok: "pool_ok pool1" "hm_get (pp_peers pool1) (df_sender frame) = Some peer" "pp_max_peers pool1 = MAX_RX_DECODERS"
      using get_or_insert_ok [OF _ g] lp by (auto simp: loop_pool_ok_def)
    have "loop_pool_ok (put_peer pool1 (df_sender frame) q)" for q
      using put_peer_ok [OF ok(1,2)] ok(3) by (simp add: loop_pool_ok_def put_peer_def)
    then show ?thesis
      using assms sm False by (auto simp: desk_rx_frame_def g Let_def split: prod.splits if_splits)
  qed
qed

lemma played_keeps:
  assumes "played s s'"
  shows "ds_transport s' = ds_transport s" "ds_relays s' = ds_relays s" "ds_transport_held s' = ds_transport_held s"
    "ds_rx_task s' = ds_rx_task s" "ds_tx_task s' = ds_tx_task s"
  using assms unfolding played_def by auto

lemma lan_rx_ok: "app_ok s \<Longrightarrow> app_ok (lan_rx_turn env now s)"
proof (cases "ds_rx_task s")
  case (Some pool)
  assume s: "app_ok s"
  obtain q r where q: "recv (dm_audio (ds_transport s)) now = (q, r)" by (metis prod.exhaust)
  define s1 where "s1 = s\<lparr>ds_transport := (ds_transport s)\<lparr>dm_audio := q\<rparr>\<rparr>"
  have "rtq_ok UDP_AUDIO_CAPACITY q"
    using rtq_ok_recv [of UDP_AUDIO_CAPACITY "dm_audio (ds_transport s)" now] app_okD(3) [OF s] by (simp add: q lan_ok_def)
  then have s1: "app_ok s1" using s by (auto simp: s1_def app_ok_def lan_ok_def)
  have pool: "loop_pool_ok pool" using app_okD(4) [OF s Some] .
  show ?thesis
  proof (cases r)
    case None
    then show ?thesis using s1 by (simp add: lan_rx_turn_def Some q s1_def Let_def)
  next
    case (Some frame)
    obtain s2 p where f: "desk_rx_frame env frame now s1 pool = (s2, p)" by (metis prod.exhaust)
    have s2: "app_ok s2" using played_ok [OF rx_frame_spec(1) [OF f] s1] .
    have drop: "app_ok (s2\<lparr>ds_rx_task := None, ds_transport := (ds_transport s2)\<lparr>dm_audio := drop_receiver (dm_audio (ds_transport s2))\<rparr>\<rparr>)"
      using s2 by (auto simp: app_ok_def lan_ok_def)
    show ?thesis
      using s2 drop rx_frame_spec(2) [OF f pool] Some \<open>ds_rx_task s = Some pool\<close>
      by (cases p) (simp_all add: lan_rx_turn_def q Let_def s1_def [symmetric] f)
  qed
qed (simp add: lan_rx_turn_def)

lemma relay_rx_ok: "app_ok s \<Longrightarrow> app_ok (relay_rx_turn env now s)"
proof (cases "ds_cellular_rx s")
  case (Some ip)
  assume s: "app_ok s"
  obtain i pool where ip: "ds_cellular_rx s = Some (i, pool)" using Some by (cases ip) simp
  obtain q r where q: "recv (rl_inbound (ds_relays s ! i)) now = (q, r)" by (metis prod.exhaust)
  define s1 where "s1 = with_relay i (rl_inbound_update (\<lambda>_. q)) s"
  have i: "i < length (ds_relays s)" "loop_pool_ok pool" using app_okD(5) [OF s ip] by simp_all
  then have "relay_ok (ds_relays s ! i)" using s by (simp add: app_ok_def)
  then have "rtq_ok RELAY_INBOUND_CAPACITY q"
    using rtq_ok_recv [OF relay_okD(2), of "ds_relays s ! i" now] by (simp add: q)
  then have s1: "app_ok s1" using s unfolding s1_def by (intro with_relay_ok) simp_all
  have i1: "i < length (ds_relays s1)" using i by (simp add: s1_def)
  show ?thesis
  proof (cases r)
    case None
    then show ?thesis using s1 by (simp add: relay_rx_turn_def ip q s1_def Let_def)
  next
    case (Some frame)
    obtain s2 p where f: "desk_rx_frame env frame now s1 pool = (s2, p)" by (metis prod.exhaust)
    have s2: "app_ok s2" "ds_relays s2 = ds_relays s1"
      using played_ok [OF rx_frame_spec(1) [OF f] s1] played_keeps(2) [OF rx_frame_spec(1) [OF f]] by simp_all
    have keep: "loop_pool_ok pool' \<Longrightarrow> app_ok (s2\<lparr>ds_cellular_rx := Some (i, pool')\<rparr>)" for pool'
      using s2 i1 by (simp add: app_ok_def)
    show ?thesis
      using s2 keep rx_frame_spec(2) [OF f i(2)] Some
      by (cases p) (simp_all add: relay_rx_turn_def ip q Let_def s1_def [symmetric] f)
  qed
qed (simp add: relay_rx_turn_def)

subsubsection \<open>Commands\<close>

lemma rx_loop_start_ok:
  assumes "app_ok s" "rx_loop_start s dv = (s', p)"
  shows "app_ok s'" "p = Some pool \<Longrightarrow> loop_pool_ok pool" "\<exists>a. s' = s\<lparr>ds_audio := a\<rparr>"
  using assms rings_ok_start(2) [OF app_okD(1) [OF assms(1)], of dv]
  by (auto simp: rx_loop_start_def loop_pool_ok_def pool_ok_new MAX_RX_DECODERS_def split: prod.splits sum.splits)
    (simp_all add: RxPeerPool_new_def)

lemma drop_lan_ok: "lan_ok t \<Longrightarrow> lan_ok (t\<lparr>dm_audio := drop_receiver (dm_audio t)\<rparr>)"
  by (simp add: lan_ok_def)

lemma app_ok_drop_lan [simp]:
  "app_ok s \<Longrightarrow> app_ok (s\<lparr>ds_rx_task := None, ds_transport := (ds_transport s)\<lparr>dm_audio := drop_receiver (dm_audio (ds_transport s))\<rparr>\<rparr>)"
  using drop_lan_ok [OF app_okD(3)] by (auto simp: app_ok_def)

lemma stop_rx_ok [simp]: "app_ok s \<Longrightarrow> app_ok (stop_rx_thread s)"
  by (simp add: stop_rx_thread_def split: option.split)

lemma leave_ok [simp]: "app_ok s \<Longrightarrow> app_ok (leave_cellular s)"
  by (auto simp: leave_cellular_def Let_def split: option.split)

lemma leave_keeps [simp]:
  "ds_transport (leave_cellular s) = ds_transport s" "ds_transport_held (leave_cellular s) = ds_transport_held s"
  "ds_rx_task (leave_cellular s) = ds_rx_task s" "ds_cellular (leave_cellular s) = None"
  "ds_cellular_rx (leave_cellular s) = None" "ds_tx_task (leave_cellular s) = ds_tx_task s"
  "ds_current_channel (leave_cellular s) = ds_current_channel s"
  by (simp_all add: leave_cellular_def Let_def split: option.split)

text \<open>Locking the transport while it is held: discovery waits for itself.\<close>

lemma start_discovery_outcome:
  "start_discovery s spawn dv =
     (if ds_transport_held s then (s, Pending)
      else (case spawn of
        Some e \<Rightarrow> (s\<lparr>ds_transport := (ds_transport s)\<lparr>dm_running := True\<rparr>\<rparr>, Ready (Inl (AppTransport (DeskIo e))))
      | None \<Rightarrow> (s\<lparr>ds_transport := (ds_transport s)\<lparr>dm_running := True\<rparr>, ds_transport_held := True,
                   ds_connection_status := StDiscovering\<rparr>, Pending)))"
  by (simp add: start_discovery_def desk_start_def start_rx_thread_def Let_def split: option.split)

lemma start_discovery_ok [simp]: "app_ok s \<Longrightarrow> app_ok (fst (start_discovery s spawn dv))"
  by (auto simp: start_discovery_outcome app_ok_def lan_ok_def split: option.split)

lemma stop_discovery_ok [simp]: "app_ok s \<Longrightarrow> app_ok (fst (stop_discovery s))"
proof -
  assume s: "app_ok s"
  then have "app_ok (s\<lparr>ds_transport := desk_stop (ds_transport s)\<rparr>)" by (simp add: app_ok_def lan_ok_def desk_stop_def)
  with s show ?thesis by (simp add: stop_discovery_def Let_def)
qed

lemma set_channel_bounds: "1 \<le> min (max (ch :: u8) 1) 16" "min (max (ch :: u8) 1) 16 \<le> 16"
  by (auto simp: min_def max_def)

lemma app_ok_channel:
  assumes "app_ok s" "1 \<le> ch" "ch \<le> 16"
  shows "app_ok (s\<lparr>ds_current_channel := ch, ds_transport := desk_set_channel (ds_transport s) ch\<rparr>)"
    "ds_transport_held s \<Longrightarrow> app_ok (s\<lparr>ds_current_channel := ch\<rparr>)"
  using assms by (auto simp: app_ok_def lan_ok_def desk_set_channel_def MIN_CHANNEL_def MAX_CHANNEL_def min_def max_def)

lemma app_set_channel_ok [simp]: "app_ok s \<Longrightarrow> app_ok (fst (app_set_channel ch s))"
  using app_ok_channel [OF _ set_channel_bounds, of s ch]
  by (auto simp: app_set_channel_def Let_def split: option.split)

lemma wipe_ok [simp]: "app_ok s \<Longrightarrow> app_ok (fst (desk_wipe_session s))"
proof -
  assume "app_ok s"
  then have "app_ok (leave_cellular s)" by simp
  then show ?thesis by (auto simp: desk_wipe_session_def Let_def app_ok_def lan_ok_def clear_session_psk_def)
qed

lemma send_opus_ok [simp]: "app_ok s \<Longrightarrow> app_ok (fst (send_opus_fanout env s opus cellular ts now os))"
proof -
  assume s: "app_ok s"
  define s1 where "s1 = (case cellular of Some i \<Rightarrow> with_relay i (\<lambda>r. fst (relay_send_audio_at (av_desk env) r opus ts now)) s
    | None \<Rightarrow> s)"
  have s1: "app_ok s1" using s by (simp add: s1_def split: option.split)
  obtain t sent r where d: "desk_send_audio_at (av_desk env) (ds_transport s1) opus (Some ts) ts os = (t, sent, r)"
    by (metis prod_cases3)
  have "lan_frame (ds_transport s1) t"
    using desk_send_frame [of "ds_transport s1" "av_desk env" opus "Some ts" ts os] by (simp add: d)
  with s1 show ?thesis by (simp add: send_opus_fanout_def Let_def s1_def [symmetric] d)
qed

lemma start_transmit_ok [simp]: "app_ok s \<Longrightarrow> app_ok (fst (start_transmit env s dv))"
  using rings_ok_start(1) [OF app_okD(1), of s dv]
  by (auto simp: start_transmit_def start_tx_thread_def Let_def split: prod.split sum.split)

lemma tx_turn_ok [simp]: "app_ok s \<Longrightarrow> app_ok (fst (app_tx_turn env s ts now os))"
proof -
  assume s: "app_ok s"
  obtain a buf where r: "read_samples (ds_audio s) DESK_FRAME_SIZE = (a, buf)" by (metis prod.exhaust)
  have a: "app_ok (s\<lparr>ds_audio := a\<rparr>)" using s rings_ok_ops(2) [OF app_okD(1) [OF s], of DESK_FRAME_SIZE] by (simp add: r)
  have sent: "app_ok s'" if "send_opus_fanout env (s\<lparr>ds_audio := a\<rparr>) opus cellular ts now os = (s', x)" for opus cellular s' x
    using send_opus_ok [OF a, of env opus cellular ts now os] by (simp add: that)
  from s a show ?thesis
    by (auto simp: app_tx_turn_def r Let_def split: option.split tx_task.split prod.split sum.split poll.split
        dest: sent)
qed

lemma send_tones_ok [simp]: "app_ok s \<Longrightarrow> app_ok (fst (send_tones env s e cellular tones os))"
proof (induction env s e cellular tones os rule: send_tones.induct)
  case (2 env s e cellular samples ts now rest os)
  obtain e1 r where enc: "desk_encode (av_codec env) e samples = (e1, r)" by (metis prod.exhaust)
  show ?case
  proof (cases r)
    case (Inl x)
    then show ?thesis using "2.IH"(1) [OF enc [symmetric] Inl] "2.prems" by (simp add: enc)
  next
    case (Inr opus)
    obtain s1 sent w where f: "send_opus_fanout env s opus cellular ts now os = (s1, sent, w)" by (metis prod_cases3)
    have s1: "app_ok s1" using send_opus_ok [OF "2.prems", of env opus cellular ts now os] by (simp add: f)
    show ?thesis
    proof (cases w)
      case (Ready u)
      have "app_ok (fst (send_tones env s1 e1 cellular rest os))"
        using "2.IH"(2) [OF enc [symmetric] Inr f [symmetric] refl Ready s1] .
      then show ?thesis by (simp add: enc Inr f Ready split: prod.split) (metis fst_conv)
    qed (use s1 in \<open>simp add: enc Inr f\<close>)
  qed
qed simp

lemma stop_transmit_ok [simp]: "app_ok s \<Longrightarrow> app_ok (fst (stop_transmit env s tones os))"
proof -
  assume s: "app_ok s"
  define s1 where "s1 = s\<lparr>ds_is_transmitting := False, ds_tx_task := None, ds_audio := desk_stop_recording (ds_audio s)\<rparr>"
  have s1: "app_ok s1" using s app_okD(1) [OF s] by (simp add: s1_def)
  have beep: "app_ok (fst (send_roger_beep env s1 tones os))"
    using s1 by (simp add: send_roger_beep_def split: sum.split)
  show ?thesis
    using s s1 beep
    by (auto simp: stop_transmit_def Let_def s1_def [symmetric] split: prod.split poll.split)
qed

lemma set_config_ok [simp]:
  "app_ok s \<Longrightarrow> app_ok (fst (set_transport_config c s))"
  by (auto simp: set_transport_config_def update_config_def app_ok_def lan_ok_def)

lemma import_channel_range:
  assumes "import_session fj ub sm qr clock uuid np = (sm', Inr (ch, c, co))"
  shows "1 \<le> ch \<and> ch \<le> 16"
proof -
  have "\<exists>i. validate_channel ch = Inr i"
    using assms by (auto simp: import_session_def Let_def split: option.splits sum.splits if_splits)
  then have "\<not> (ch < 1 \<or> 8 < ch)" by (simp add: validate_channel_def MAX_CHANNELS_def split: if_splits)
  then have "1 \<le> ch" "ch \<le> 8" by (simp_all only: de_Morgan_disj not_less)
  then show ?thesis using order_trans [of ch 8 16] by simp
qed

text \<open>A connected client added to the list and made the room of the application.\<close>

lemma app_ok_joined:
  assumes "app_ok s" "relay_ok cell" "1 \<le> ch" "ch \<le> 16"
    "ds_current_channel s = ch" "s1 = s\<lparr>ds_relays := ds_relays s @ [cell]\<rparr>"
    "s2 = s1\<lparr>ds_audio := a\<rparr>" "rings_ok a" "\<And>p. pool = Some p \<Longrightarrow> loop_pool_ok p"
  shows "app_ok ((case pool of Some p \<Rightarrow> s2\<lparr>ds_cellular_rx := Some (length (ds_relays s), p)\<rparr>
      | None \<Rightarrow> with_relay (length (ds_relays s)) drop_inbound (s2\<lparr>ds_cellular_rx := None\<rparr>))
      \<lparr>ds_cellular := Some (length (ds_relays s)), ds_current_channel := ch, ds_connection_status := st\<rparr>)"
proof -
  have s2: "app_ok s2" using assms by (auto simp: app_ok_def)
  have len: "length (ds_relays s) < length (ds_relays s2)" "ds_current_channel s2 = ch" using assms by simp_all
  show ?thesis
  proof (cases pool)
    case None
    have "app_ok (with_relay (length (ds_relays s)) drop_inbound (s2\<lparr>ds_cellular_rx := None\<rparr>))" using s2 by simp
    then show ?thesis using len None by (simp add: app_ok_def)
  next
    case (Some p)
    then show ?thesis using s2 len assms(9) [OF Some] by (simp add: app_ok_def)
  qed
qed

lemma enter_room_ok:
  assumes s: "app_ok s" and ch: "1 \<le> ch" "ch \<le> 16"
  shows "app_ok (fst (enter_room env s ch crypto room psk gp epoch answers dv))"
proof (cases "ds_transport_held s")
  case False
  define s0 where "s0 = s\<lparr>ds_current_channel := ch, ds_transport := desk_set_channel (set_session_psk (ds_transport s) psk gp) ch\<rparr>"
  have "app_ok (s\<lparr>ds_transport := set_session_psk (ds_transport s) psk gp\<rparr>)"
    using s by (simp add: app_ok_def lan_ok_def set_session_psk_def)
  from app_ok_channel(1) [OF this ch] have s0: "app_ok s0" by (simp add: s0_def)
  define s1 where "s1 = leave_cellular s0"
  have s1: "app_ok s1" using s0 by (simp add: s1_def)
  have ch1: "ds_current_channel s1 = ch" by (simp add: s1_def s0_def)
  define cell0 where "cell0 = relay_set_channel (DeskRelay_new (av_desk env) room (ds_device_name s1) (app_peer_id s1) crypto psk epoch) ch"
  have cell0: "relay_ok cell0" using relay_ok_new by (simp add: cell0_def)
  obtain cell1 d where conn: "relay_connect cell0 answers = (cell1, d)" by (metis prod.exhaust)
  have cell1: "relay_ok cell1" using relay_ok_connect [OF cell0, of answers] by (simp add: conn)
  obtain cell2 b where take: "relay_take_audio_receiver cell1 = (cell2, b)" by (metis prod.exhaust)
  have cell2: "relay_ok cell2" using relay_ok_small(4) [OF cell1] by (simp add: take)
  define s2 where "s2 = s1\<lparr>ds_relays := ds_relays s1 @ [cell2]\<rparr>"
  have s2: "app_ok s2" using s1 cell2 by (auto simp: s2_def app_ok_def)
  obtain s3 pool where loop: "rx_loop_start s2 dv = (s3, pool)" by (metis prod.exhaust)
  obtain a where a: "s3 = s2\<lparr>ds_audio := a\<rparr>" using rx_loop_start_ok(3) [OF s2 loop] by blast
  then have "rings_ok a" using app_okD(1) [OF rx_loop_start_ok(1) [OF s2 loop]] by simp
  from app_ok_joined [OF s1 cell2 ch ch1 s2_def a this rx_loop_start_ok(2) [OF s2 loop]]
  have "app_ok ((case pool of Some p \<Rightarrow> s3\<lparr>ds_cellular_rx := Some (length (ds_relays s1), p)\<rparr>
    | None \<Rightarrow> with_relay (length (ds_relays s1)) drop_inbound (s3\<lparr>ds_cellular_rx := None\<rparr>))
    \<lparr>ds_cellular := Some (length (ds_relays s1)), ds_current_channel := ch, ds_connection_status := StConnected\<rparr>)" .
  then show ?thesis
    using s1
    by (cases pool)
      (simp_all add: enter_room_def False s0_def [symmetric] s1_def [symmetric] Let_def
        cell0_def [symmetric] conn take s2_def [symmetric] loop split: sum.split bool.split)
qed (use s in \<open>simp add: enter_room_def\<close>)

lemma join_ok [simp]:
  assumes s: "app_ok s"
  shows "app_ok (fst (join_cellular env s qr clock uuid rp gp epoch answers dv))"
proof -
  obtain sm r where imp: "import_session (av_from_json env) (av_unb64 env) (SessionManager_new (ds_device_name s)) qr clock uuid rp = (sm, r)"
    by (metis prod.exhaust)
  show ?thesis
  proof (cases r)
    case (Inr res)
    obtain ch crypto co where res: "res = (ch, crypto, co)" by (metis prod_cases3)
    have "1 \<le> ch" "ch \<le> 16" using import_channel_range imp Inr res by blast+
    from enter_room_ok [OF s this] s show ?thesis by (simp add: join_cellular_def imp Inr res split: option.split)
  qed (use s in \<open>simp add: join_cellular_def imp\<close>)
qed

lemma app_step_ok: "app_ok s \<Longrightarrow> app_ok (fst (app_apply env ev s))"
proof (cases ev)
  case (StopTransmit tones os)
  assume "app_ok s"
  then have "app_ok (fst (stop_transmit env s tones os))" by simp
  then show ?thesis by (simp add: StopTransmit split: prod.split) (metis fst_conv)
qed (auto simp: lan_rx_ok relay_rx_ok desk_rx_turn_frame heartbeat_frame relay_ok_io app_okD
    set_volume_def set_roger_beep_def)

lemma app_run_ok: "app_ok s \<Longrightarrow> app_ok (fst (app_run env evs s))"
  by (rule app_run_induct [where P = app_ok, OF app_step_ok])

lemma app_new_ok:
  assumes "AppState_new env device_id device_name sk dd epoch now next_id prebuffer = Ok s" "2 \<le> prebuffer" "prebuffer \<le> 16"
  shows "app_ok s"
proof -
  obtain t where t: "DeskTransport_new (av_desk env) device_id device_name sk dd epoch now = Inr t"
    using assms(1) by (auto simp: AppState_new_def split: sum.splits)
  then have "lan_ok t" "dm_current_channel t = 1"
    by (auto simp: DeskTransport_new_def DeskTransport_with_config_def lan_ok_def split: sum.splits option.splits prod.splits if_splits)
  with assms inv_small(1) [OF inv_new [OF assms(2,3)]] show ?thesis
    by (auto simp: AppState_new_def t app_ok_def)
qed

end
