(* ===== verification/Desktop_Props.thy ===== *)
theory Desktop_Props
  imports Desktop_Runs
begin

text \<open>
  What the desktop application does and fails to do: how voice leaves it, what a run of it keeps, and the errors of its
  locking, its capture loop and its error paths.
\<close>

section \<open>Voice on the LAN\<close>

definition peer_keys :: "DeskTransport \<Rightarrow> (u32 \<times> bytes option) list" where
  "peer_keys t = map (\<lambda>(i, e). (i, en_cipher e)) (dm_crypto_engines t)"

text \<open>
  A datagram sealed under the group key of the transport or, without one, an audio packet for the address of a peer
  whose engine has a key, with the audio sealed under that key.
\<close>

definition voice_sealed :: "desk_env \<Rightarrow> DeskTransport \<Rightarrow> dest \<Rightarrow> bytes \<Rightarrow> bool" where
  "voice_sealed env t d bs \<longleftrightarrow>
     (case group_key t of
        Some k \<Rightarrow> d = Group \<and> (\<exists>nonce frame sealed. dk_enc env k nonce [] frame = Some sealed \<and> bs = nonce @ sealed)
      | None \<Rightarrow> \<exists>id k peer nonce audio sealed tag channel now.
          (id, Some k) \<in> set (peer_keys t) \<and> hm_get (dm_peers t) id = Some peer \<and> d = Unicast (pi_address peer) \<and>
          dk_enc env k nonce [] audio = Some (sealed @ tag) \<and>
          serialize (dk_bincode env) (audio_packet (dk_crc env) (dm_device_id t) channel (nonce @ tag @ sealed) now) = Inr bs)"

text \<open>Sending changes no key, peer or setting.\<close>

definition same_keys :: "DeskTransport \<Rightarrow> DeskTransport \<Rightarrow> bool" where
  "same_keys t t' \<longleftrightarrow> group_key t' = group_key t \<and> peer_keys t' = peer_keys t \<and> dm_peers t' = dm_peers t \<and>
     dm_device_id t' = dm_device_id t \<and> dm_config t' = dm_config t"

lemma same_keys_refl [simp]: "same_keys t t"
  by (simp add: same_keys_def)

lemma same_keys_trans: "same_keys t t1 \<Longrightarrow> same_keys t1 t2 \<Longrightarrow> same_keys t t2"
  by (simp add: same_keys_def)

lemma same_keys_sealed: "same_keys t t' \<Longrightarrow> voice_sealed env t' d bs = voice_sealed env t d bs"
proof -
  assume k: "same_keys t t'"
  then have "group_key t' = group_key t" "peer_keys t' = peer_keys t" "dm_peers t' = dm_peers t" "dm_device_id t' = dm_device_id t"
    by (simp_all add: same_keys_def)
  then show ?thesis unfolding voice_sealed_def by (simp only:)
qed

lemma engine_cipher_nonce [simp]: "en_cipher (fst (engine_next_nonce e)) = en_cipher e"
  by (simp add: engine_next_nonce_def Let_def)

lemma send_to_peer_cipher: "en_cipher (fst (send_to_peer env t audio now os i e)) = en_cipher e"
proof -
  obtain e1 r where n: "engine_next_nonce e = (e1, r)" by (metis prod.exhaust)
  then have "en_cipher e1 = en_cipher e" using engine_cipher_nonce [of e] by simp
  then show ?thesis by (simp add: send_to_peer_def n split: option.split sum.split)
qed

lemma send_to_peer_sealed:
  assumes "snd (send_to_peer env t audio now os i e) = PeerSent a bs"
  shows "\<exists>k peer nonce sealed tag. en_cipher e = Some k \<and> hm_get (dm_peers t) i = Some peer \<and> a = pi_address peer \<and>
    dk_enc env k nonce [] audio = Some (sealed @ tag) \<and>
    serialize (dk_bincode env) (audio_packet (dk_crc env) (dm_device_id t) (dm_current_channel t) (nonce @ tag @ sealed) now) = Inr bs"
proof -
  obtain peer where p: "hm_get (dm_peers t) i = Some peer"
    using assms by (auto simp: send_to_peer_def split: if_splits option.splits)
  obtain e1 r where n: "engine_next_nonce e = (e1, r)" by (metis prod.exhaust)
  then have c: "en_cipher e1 = en_cipher e" using engine_cipher_nonce [of e] by simp
  from assms obtain nonce sealed tag where
    s: "r = Inr nonce" "engine_encrypt (dk_enc env) e1 audio nonce = Inr (sealed, tag)" "a = pi_address peer"
    "serialize (dk_bincode env) (audio_packet (dk_crc env) (dm_device_id t) (dm_current_channel t) (nonce @ tag @ sealed) now) = Inr bs"
    by (auto simp: send_to_peer_def p n Let_def split: if_splits sum.splits option.splits prod.splits)
  then obtain k where "en_cipher e1 = Some k" "dk_enc env k nonce [] audio = Some (sealed @ tag)"
    by (auto simp: engine_encrypt_def Let_def split: option.splits)
  with s p c show ?thesis by metis
qed

lemma send_to_peers_keys:
  "send_to_peers env t audio now os es = (es', rs) \<Longrightarrow> map (\<lambda>(i, e). (i, en_cipher e)) es' = map (\<lambda>(i, e). (i, en_cipher e)) es"
proof (induction es arbitrary: es' rs)
  case (Cons x es)
  obtain i e where x: "x = (i, e)" by (cases x)
  obtain e1 r where s: "send_to_peer env t audio now os i e = (e1, r)" by (metis prod.exhaust)
  obtain es1 rs1 where p: "send_to_peers env t audio now os es = (es1, rs1)" by (metis prod.exhaust)
  from Cons.IH [OF p] Cons.prems send_to_peer_cipher [of env t audio now os i e] show ?case by (auto simp: x s p)
qed simp

lemma send_to_peers_sent:
  "send_to_peers env t audio now os es = (es', rs) \<Longrightarrow> PeerSent a bs \<in> set rs \<Longrightarrow>
     \<exists>i e. (i, e) \<in> set es \<and> snd (send_to_peer env t audio now os i e) = PeerSent a bs"
proof (induction es arbitrary: es' rs)
  case (Cons x es)
  obtain i e where x: "x = (i, e)" by (cases x)
  obtain e1 r where s: "send_to_peer env t audio now os i e = (e1, r)" by (metis prod.exhaust)
  obtain es1 rs1 where p: "send_to_peers env t audio now os es = (es1, rs1)" by (metis prod.exhaust)
  from Cons.prems have "rs = r # rs1" by (simp add: x s p)
  show ?case
  proof (cases "PeerSent a bs = r")
    case True
    then have "snd (send_to_peer env t audio now os i e) = PeerSent a bs" by (simp add: s)
    then show ?thesis unfolding x by (metis list.set_intros(1))
  next
    case False
    with Cons.IH [OF p] Cons.prems(2) \<open>rs = r # rs1\<close> show ?thesis by (metis list.set_intros(2) set_ConsD)
  qed
qed simp

lemma sent_datagrams_iff: "(d, bs) \<in> set (sent_datagrams rs) \<longleftrightarrow> (\<exists>a. d = Unicast a \<and> PeerSent a bs \<in> set rs)"
  by (induction rs) (auto simp: sent_datagrams_def List.map_filter_def split: peer_send.splits)

lemma desk_send_same_keys: "same_keys t (fst (desk_send_audio_at env t audio ts now os))"
proof (cases "dm_group_crypto t")
  case None
  obtain es rs where p: "send_to_peers env t audio now (os \<circ> Unicast) (dm_crypto_engines t) = (es, rs)" by (metis prod.exhaust)
  from send_to_peers_keys [OF p] show ?thesis
    by (simp add: desk_send_audio_at_def None Let_def p same_keys_def group_key_def peer_keys_def)
next
  case (Some c)
  define frame where "frame = pack_wire_frame (dm_current_channel t) DESK_SUBCH_MAIN (dm_sender_id t) (dm_device_name t)
    (case ts of Some t \<Rightarrow> t | None \<Rightarrow> now) audio"
  obtain c1 r where d: "encrypt (dk_enc env) c frame = (c1, r)" by (metis prod.exhaust)
  then have "cs_cipher c1 = cs_cipher c" using cs_cipher_encrypt [of "dk_enc env" c frame] by simp
  then show ?thesis
    by (simp add: desk_send_audio_at_def Some d Let_def frame_def [symmetric] same_keys_def group_key_def peer_keys_def
        split: sum.split)
qed

lemma desk_send_sealed:
  assumes "desk_send_audio_at env t audio ts now os = (t', sent, r)" "(d, bs) \<in> set sent"
    "group_key t \<noteq> None \<or> tc_encryption_enabled (dm_config t)"
  shows "voice_sealed env t d bs"
proof (cases "dm_group_crypto t")
  case None
  obtain es rs where p: "send_to_peers env t audio now (os \<circ> Unicast) (dm_crypto_engines t) = (es, rs)" by (metis prod.exhaust)
  have "sent = sent_datagrams rs" using assms None by (auto simp: desk_send_audio_at_def p Let_def group_key_def)
  with assms(2) obtain a where "d = Unicast a" "PeerSent a bs \<in> set rs" by (auto simp: sent_datagrams_iff)
  with send_to_peers_sent [OF p] obtain i e where a: "d = Unicast a" "(i, e) \<in> set (dm_crypto_engines t)"
    "snd (send_to_peer env t audio now (os \<circ> Unicast) i e) = PeerSent a bs"
    by blast
  from send_to_peer_sealed [OF a(3)] obtain k peer nonce sealed tag where k: "en_cipher e = Some k"
    "hm_get (dm_peers t) i = Some peer" "a = pi_address peer" "dk_enc env k nonce [] audio = Some (sealed @ tag)"
    "serialize (dk_bincode env) (audio_packet (dk_crc env) (dm_device_id t) (dm_current_channel t) (nonce @ tag @ sealed) now) = Inr bs"
    by blast
  have "(i, Some k) \<in> set (peer_keys t)" using a(2) k(1) by (force simp: peer_keys_def)
  with k a(1) show ?thesis using None unfolding voice_sealed_def group_key_def by simp blast
next
  case (Some c)
  with assms(1,2) show ?thesis
    by (auto simp: desk_send_audio_at_def Let_def voice_sealed_def group_key_def encrypt_def next_nonce_def
        split: sum.splits prod.splits option.splits if_splits)
      (metis append.assoc)+
qed

text \<open>The transport after each call of the application that sends, and what it sent.\<close>

definition sends_sealed :: "desk_env \<Rightarrow> ('e, 'd) DeskApp \<Rightarrow> ('e, 'd) DeskApp \<Rightarrow> (dest \<times> bytes) list \<Rightarrow> bool" where
  "sends_sealed env s s' sent \<longleftrightarrow> same_keys (ds_transport s) (ds_transport s') \<and>
     (group_key (ds_transport s) \<noteq> None \<or> tc_encryption_enabled (dm_config (ds_transport s)) \<longrightarrow>
        (\<forall>(d, bs) \<in> set sent. voice_sealed env (ds_transport s) d bs))"

lemma sends_sealed_refl: "ds_transport s' = ds_transport s \<Longrightarrow> sends_sealed env s s' []"
  by (simp add: sends_sealed_def)

lemma sends_sealed_trans:
  assumes "sends_sealed env s s1 sent" "sends_sealed env s1 s2 later"
  shows "sends_sealed env s s2 (sent @ later)"
proof -
  have k: "same_keys (ds_transport s) (ds_transport s1)" using assms(1) by (simp add: sends_sealed_def)
  from assms same_keys_trans [OF k] same_keys_sealed [OF k] k show ?thesis
    by (auto simp: sends_sealed_def same_keys_def)
qed

lemma sends_sealed_cong: "ds_transport s1 = ds_transport s \<Longrightarrow> sends_sealed env s s' sent = sends_sealed env s1 s' sent"
  "ds_transport s2 = ds_transport s' \<Longrightarrow> sends_sealed env s s' sent = sends_sealed env s s2 sent"
  by (simp_all add: sends_sealed_def)

lemma fanout_sealed:
  assumes "send_opus_fanout env s opus cellular ts now os = (s', sent, w)"
  shows "sends_sealed (av_desk env) s s' sent"
proof -
  define s1 where "s1 = (case cellular of Some i \<Rightarrow> with_relay i (\<lambda>r. fst (relay_send_audio_at (av_desk env) r opus ts now)) s
    | None \<Rightarrow> s)"
  have t1: "ds_transport s1 = ds_transport s" by (simp add: s1_def split: option.split)
  obtain t out r where d: "desk_send_audio_at (av_desk env) (ds_transport s) opus (Some ts) ts os = (t, out, r)"
    by (metis prod_cases3)
  have t: "same_keys (ds_transport s) t"
    using desk_send_same_keys [of "ds_transport s" "av_desk env" opus "Some ts" ts os] by (simp add: d)
  show ?thesis
  proof (cases "ds_transport_held s1")
    case True
    then have "s' = s1" "sent = []" using assms by (simp_all add: send_opus_fanout_def Let_def s1_def [symmetric])
    with t1 show ?thesis by (simp add: sends_sealed_refl)
  next
    case False
    then have "s' = s1\<lparr>ds_transport := t\<rparr>" "sent = out"
      using assms by (simp_all add: send_opus_fanout_def Let_def s1_def [symmetric] t1 d)
    with desk_send_sealed [OF d] t show ?thesis by (auto simp: sends_sealed_def)
  qed
qed

lemma tones_sealed:
  "send_tones env s e cellular tones os = (s', sent, w) \<Longrightarrow> sends_sealed (av_desk env) s s' sent"
proof (induction env s e cellular tones os arbitrary: s' sent w rule: send_tones.induct)
  case (1 env s e cellular os)
  then show ?case by (simp add: sends_sealed_refl)
next
  case (2 env s e cellular samples ts now rest os)
  obtain e1 r where enc: "desk_encode (av_codec env) e samples = (e1, r)" by (metis prod.exhaust)
  show ?case
  proof (cases r)
    case (Inl x)
    then show ?thesis using "2.IH"(1) [OF enc [symmetric] Inl] "2.prems" by (simp add: enc)
  next
    case (Inr opus)
    obtain s1 out1 w1 where f: "send_opus_fanout env s opus cellular ts now os = (s1, out1, w1)" by (metis prod_cases3)
    note s1 = fanout_sealed [OF f]
    show ?thesis
    proof (cases w1)
      case (Ready u)
      obtain s2 out2 w2 where g: "send_tones env s1 e1 cellular rest os = (s2, out2, w2)" by (metis prod_cases3)
      from "2.IH"(2) [OF enc [symmetric] Inr f [symmetric] refl Ready g] s1 "2.prems" show ?thesis
        by (auto simp: enc Inr f Ready g intro: sends_sealed_trans)
    qed (use s1 "2.prems" in \<open>simp add: enc Inr f\<close>)
  qed
qed

lemma tx_turn_sealed:
  assumes "app_tx_turn env s ts now os = (s', sent)"
  shows "sends_sealed (av_desk env) s s' sent"
proof (cases "\<exists>e cellular e1 opus s1 out w. ds_tx_task s = Some (TxLoop e cellular) \<and> ds_is_transmitting s \<and>
    length (snd (read_samples (ds_audio s) DESK_FRAME_SIZE)) = DESK_FRAME_SIZE \<and>
    desk_encode (av_codec env) e (snd (read_samples (ds_audio s) DESK_FRAME_SIZE)) = (e1, Inr opus) \<and>
    send_opus_fanout env (s\<lparr>ds_audio := fst (read_samples (ds_audio s) DESK_FRAME_SIZE)\<rparr>) opus cellular ts now os = (s1, out, w)")
  case True
  then obtain e cellular e1 opus s1 out w where t: "ds_tx_task s = Some (TxLoop e cellular)" "ds_is_transmitting s"
    "length (snd (read_samples (ds_audio s) DESK_FRAME_SIZE)) = DESK_FRAME_SIZE"
    "desk_encode (av_codec env) e (snd (read_samples (ds_audio s) DESK_FRAME_SIZE)) = (e1, Inr opus)"
    "send_opus_fanout env (s\<lparr>ds_audio := fst (read_samples (ds_audio s) DESK_FRAME_SIZE)\<rparr>) opus cellular ts now os = (s1, out, w)"
    by blast
  have "sends_sealed (av_desk env) s s1 out"
    using fanout_sealed [OF t(5)] by (simp add: sends_sealed_def)
  moreover have "sent = out" "ds_transport s' = ds_transport s1"
    using assms t by (auto simp: app_tx_turn_def Let_def split: prod.splits poll.splits)
  ultimately show ?thesis by (simp add: sends_sealed_def)
next
  case False
  have "sent = []" "ds_transport s' = ds_transport s"
    using assms False
    by (auto simp: app_tx_turn_def Let_def split: option.splits tx_task.splits prod.splits sum.splits if_splits poll.splits)
  then show ?thesis by (simp add: sends_sealed_refl)
qed

lemma stop_transmit_sealed:
  assumes "stop_transmit env s tones os = (s', sent, r)"
  shows "sends_sealed (av_desk env) s s' sent"
proof -
  define s1 where "s1 = s\<lparr>ds_is_transmitting := False, ds_tx_task := None, ds_audio := desk_stop_recording (ds_audio s)\<rparr>"
  have t1: "ds_transport s1 = ds_transport s" by (simp add: s1_def)
  have "sends_sealed (av_desk env) s1 s2 out" if "send_roger_beep env s1 tones os = (s2, out, w)" for s2 out w
    using that tones_sealed by (auto simp: send_roger_beep_def sends_sealed_refl split: sum.splits)
  with assms t1 show ?thesis
    by (auto simp: stop_transmit_def Let_def s1_def [symmetric] sends_sealed_refl sends_sealed_def
        split: if_splits prod.splits poll.splits)
qed

lemma apply_sealed: "(d, bs) \<in> set (snd (app_apply env ev s)) \<Longrightarrow>
  group_key (ds_transport s) \<noteq> None \<or> tc_encryption_enabled (dm_config (ds_transport s)) \<Longrightarrow>
  voice_sealed (av_desk env) (ds_transport s) d bs"
proof (cases ev)
  case (TxTurn ts now os)
  obtain s' sent where t: "app_tx_turn env s ts now os = (s', sent)" by (metis prod.exhaust)
  show "(d, bs) \<in> set (snd (app_apply env ev s)) \<Longrightarrow>
      group_key (ds_transport s) \<noteq> None \<or> tc_encryption_enabled (dm_config (ds_transport s)) \<Longrightarrow> ?thesis"
    using tx_turn_sealed [OF t] t by (auto simp: TxTurn sends_sealed_def)
next
  case (StopTransmit tones os)
  obtain s' sent r where t: "stop_transmit env s tones os = (s', sent, r)" by (metis prod_cases3)
  show "(d, bs) \<in> set (snd (app_apply env ev s)) \<Longrightarrow>
      group_key (ds_transport s) \<noteq> None \<or> tc_encryption_enabled (dm_config (ds_transport s)) \<Longrightarrow> ?thesis"
    using stop_transmit_sealed [OF t] t by (auto simp: StopTransmit sends_sealed_def)
qed auto

section \<open>The transport held for ever\<close>

text \<open>What a call can do to the LAN side: the loop is not started, and a held transport stays held and keeps its key.\<close>

definition lan_side :: "('e, 'd) DeskApp \<Rightarrow> ('e, 'd) DeskApp \<Rightarrow> bool" where
  "lan_side s s' \<longleftrightarrow> (ds_rx_task s = None \<longrightarrow> ds_rx_task s' = None) \<and>
     (ds_transport_held s \<longrightarrow> ds_transport_held s' \<and> group_key (ds_transport s') = group_key (ds_transport s))"

lemma lan_sideI:
  "ds_rx_task s' = ds_rx_task s \<Longrightarrow> ds_transport_held s' = ds_transport_held s \<Longrightarrow>
     (ds_transport_held s \<Longrightarrow> group_key (ds_transport s') = group_key (ds_transport s)) \<Longrightarrow> lan_side s s'"
  by (simp add: lan_side_def)

lemma lan_side_refl [simp]: "lan_side s s"
  by (simp add: lan_side_def)

lemma lan_side_trans: "lan_side s s1 \<Longrightarrow> lan_side s1 s2 \<Longrightarrow> lan_side s s2"
  by (auto simp: lan_side_def)

lemma lan_side_fields [simp]:
  "lan_side s (s1\<lparr>ds_tx_task := t\<rparr>) = lan_side s s1" "lan_side s (s1\<lparr>ds_audio := a\<rparr>) = lan_side s s1"
  "lan_side s (s1\<lparr>ds_is_transmitting := b\<rparr>) = lan_side s s1" "lan_side s (s1\<lparr>ds_connection_status := st\<rparr>) = lan_side s s1"
  "lan_side s (s1\<lparr>ds_current_channel := ch\<rparr>) = lan_side s s1" "lan_side s (s1\<lparr>ds_cellular := c\<rparr>) = lan_side s s1"
  "lan_side s (s1\<lparr>ds_cellular_rx := x\<rparr>) = lan_side s s1" "lan_side s (s1\<lparr>ds_relays := rs\<rparr>) = lan_side s s1"
  "lan_side s (s1\<lparr>ds_roger_beep := b\<rparr>) = lan_side s s1" "lan_side s (s1\<lparr>ds_is_receiving := b\<rparr>) = lan_side s s1"
  "lan_side s (with_relay i f s1) = lan_side s s1"
  by (simp_all add: lan_side_def)

lemma leave_lan_side [simp]: "lan_side s (leave_cellular s1) = lan_side s s1"
  by (simp add: lan_side_def)

lemma played_lan_side: "played s s' \<Longrightarrow> lan_side s s'"
  using played_keeps [of s s'] by (simp add: lan_side_def)

lemma fanout_lan_side:
  assumes "send_opus_fanout env s opus cellular ts now os = (s', sent, w)"
  shows "lan_side s s'" "ds_transport_held s \<Longrightarrow> sent = [] \<and> w = Pending"
proof -
  define s1 where "s1 = (case cellular of Some i \<Rightarrow> with_relay i (\<lambda>r. fst (relay_send_audio_at (av_desk env) r opus ts now)) s
    | None \<Rightarrow> s)"
  have s1: "ds_rx_task s1 = ds_rx_task s" "ds_transport_held s1 = ds_transport_held s" "ds_transport s1 = ds_transport s"
    by (simp_all add: s1_def split: option.split)
  then show "lan_side s s'" "ds_transport_held s \<Longrightarrow> sent = [] \<and> w = Pending"
    using assms by (auto simp: send_opus_fanout_def Let_def s1_def [symmetric] lan_side_def split: if_splits prod.splits)
qed

lemma tones_lan_side:
  "send_tones env s e cellular tones os = (s', sent, w) \<Longrightarrow> lan_side s s' \<and> (ds_transport_held s \<longrightarrow> sent = [])"
proof (induction env s e cellular tones os arbitrary: s' sent w rule: send_tones.induct)
  case (2 env s e cellular samples ts now rest os)
  obtain e1 r where enc: "desk_encode (av_codec env) e samples = (e1, r)" by (metis prod.exhaust)
  show ?case
  proof (cases r)
    case (Inl x)
    then show ?thesis using "2.IH"(1) [OF enc [symmetric] Inl] "2.prems" by (simp add: enc)
  next
    case (Inr opus)
    obtain s1 out1 w1 where f: "send_opus_fanout env s opus cellular ts now os = (s1, out1, w1)" by (metis prod_cases3)
    note s1 = fanout_lan_side [OF f]
    show ?thesis
    proof (cases w1)
      case (Ready u)
      obtain s2 out2 w2 where g: "send_tones env s1 e1 cellular rest os = (s2, out2, w2)" by (metis prod_cases3)
      have "\<not> ds_transport_held s" using s1(2) Ready by auto
      moreover have "lan_side s1 s2" using "2.IH"(2) [OF enc [symmetric] Inr f [symmetric] refl Ready g] by simp
      ultimately show ?thesis using s1(1) "2.prems" by (auto simp: enc Inr f Ready g intro: lan_side_trans)
    qed (use s1 "2.prems" in \<open>simp add: enc Inr f\<close>)
  qed
qed simp

lemma tx_turn_lan_side:
  assumes "app_tx_turn env s ts now os = (s', sent)"
  shows "lan_side s s' \<and> (ds_transport_held s \<longrightarrow> sent = [])"
proof -
  define s0 where "s0 = s\<lparr>ds_audio := fst (read_samples (ds_audio s) DESK_FRAME_SIZE)\<rparr>"
  have f: "lan_side s s1 \<and> (ds_transport_held s \<longrightarrow> out = [])"
    if "send_opus_fanout env s0 opus cellular ts now os = (s1, out, w)" for opus cellular s1 out w
    using fanout_lan_side [OF that] by (auto simp: s0_def lan_side_def)
  show ?thesis
    using assms f
    by (auto simp: app_tx_turn_def Let_def s0_def split: option.splits tx_task.splits prod.splits sum.splits if_splits poll.splits)
qed

lemma stop_transmit_lan_side:
  assumes "stop_transmit env s tones os = (s', sent, r)"
  shows "lan_side s s' \<and> (ds_transport_held s \<longrightarrow> sent = [])"
proof -
  define s1 where "s1 = s\<lparr>ds_is_transmitting := False, ds_tx_task := None, ds_audio := desk_stop_recording (ds_audio s)\<rparr>"
  have s1: "lan_side s s1" "ds_transport_held s1 = ds_transport_held s" by (simp_all add: s1_def)
  obtain s2 out w where beep: "(if ds_roger_beep s1 then send_roger_beep env s1 tones os else (s1, [], Ready ())) = (s2, out, w)"
    by (metis prod_cases3)
  have "lan_side s1 s2 \<and> (ds_transport_held s1 \<longrightarrow> out = [])"
    using beep by (auto simp: send_roger_beep_def split: sum.splits if_splits dest!: tones_lan_side)
  with s1 have "lan_side s s2 \<and> (ds_transport_held s \<longrightarrow> out = [])" by (auto intro: lan_side_trans)
  then show ?thesis
    using assms by (auto simp: stop_transmit_def Let_def s1_def [symmetric] beep split: if_splits poll.splits)
qed

lemma rx_turns_lan_side: "lan_side s (lan_rx_turn env now s)" "lan_side s (relay_rx_turn env now s)"
proof -
  show "lan_side s (lan_rx_turn env now s)"
  proof (cases "ds_rx_task s")
    case (Some pool)
    obtain q r where q: "recv (dm_audio (ds_transport s)) now = (q, r)" by (metis prod.exhaust)
    define s1 where "s1 = s\<lparr>ds_transport := (ds_transport s)\<lparr>dm_audio := q\<rparr>\<rparr>"
    have k: "played s1 s2 \<Longrightarrow> ds_transport_held s2 = ds_transport_held s \<and> group_key (ds_transport s2) = group_key (ds_transport s)" for s2
      using played_keeps [of s1 s2] by (simp add: s1_def group_key_def)
    show ?thesis
      using rx_frame_spec(1) [of env _ now s1 pool, THEN k]
      by (auto simp: lan_rx_turn_def Some q Let_def s1_def [symmetric] lan_side_def split: option.split prod.split)
        (auto simp: s1_def group_key_def)
  qed (simp add: lan_rx_turn_def)
  show "lan_side s (relay_rx_turn env now s)"
  proof (cases "ds_cellular_rx s")
    case (Some ip)
    obtain i pool where ip: "ip = (i, pool)" by (cases ip)
    obtain q r where q: "recv (rl_inbound (ds_relays s ! i)) now = (q, r)" by (metis prod.exhaust)
    define s1 where "s1 = with_relay i (rl_inbound_update (\<lambda>_. q)) s"
    have k: "played s1 s2 \<Longrightarrow> lan_side s s2" for s2
      using played_lan_side [of s1 s2] by (auto simp: s1_def lan_side_def)
    show ?thesis
      using rx_frame_spec(1) [of env _ now s1 pool, THEN k]
      by (auto simp: relay_rx_turn_def Some ip q Let_def s1_def [symmetric] split: option.split prod.split)
        (simp add: s1_def)
  qed (simp add: relay_rx_turn_def)
qed

lemma rx_loop_start_lan_side: "rx_loop_start s dv = (s', p) \<Longrightarrow> lan_side s1 s' = lan_side s1 s"
  by (auto simp: rx_loop_start_def split: prod.splits sum.splits)

lemma enter_room_lan_side: "lan_side s (fst (enter_room env s ch crypto room psk gp epoch answers dv))"
proof (cases "ds_transport_held s")
  case False
  have rx: "ds_rx_task (fst (rx_loop_start s1 dv)) = ds_rx_task s1" for s1 :: "('a, 'b) DeskApp"
    by (simp add: rx_loop_start_def split: prod.split sum.split)
  have "ds_rx_task (fst (enter_room env s ch crypto room psk gp epoch answers dv)) = ds_rx_task s"
    using False by (simp add: enter_room_def Let_def case_prod_beta rx split: sum.split option.split bool.split)
  with False show ?thesis by (simp add: lan_side_def)
qed (simp add: enter_room_def)

lemma join_lan_side: "lan_side s (fst (join_cellular env s qr clock uuid rp gp epoch answers dv))"
  using enter_room_lan_side [of s] by (simp add: join_cellular_def split: prod.split sum.split option.split)

lemma apply_lan_side: "lan_side s (fst (app_apply env ev s)) \<and> (ds_transport_held s \<longrightarrow> snd (app_apply env ev s) = [])"
proof (cases ev)
  case (StopTransmit tones os)
  obtain s' sent r where "stop_transmit env s tones os = (s', sent, r)" by (metis prod_cases3)
  from stop_transmit_lan_side [OF this] this show ?thesis by (simp add: StopTransmit)
next
  case (TxTurn ts now os)
  obtain s' sent where "app_tx_turn env s ts now os = (s', sent)" by (metis prod.exhaust)
  from tx_turn_lan_side [OF this] this show ?thesis by (simp add: TxTurn)
next
  case (LanDatagram arrived now_ms now np)
  then show ?thesis using desk_rx_turn_frame [of "ds_transport s"] by (simp add: lan_side_def lan_frame_def)
next
  case (LanHeartbeat now_ms os)
  then show ?thesis using heartbeat_frame [of "ds_transport s"] by (simp add: lan_side_def lan_frame_def)
next
  case (StartTransmit dv)
  then show ?thesis by (simp add: start_transmit_def start_tx_thread_def Let_def split: prod.split sum.split)
next
  case (StartDiscovery spawn dv)
  then show ?thesis by (simp add: start_discovery_outcome lan_side_def split: option.split)
next
  case StopDiscovery
  then show ?thesis by (simp add: stop_discovery_def Let_def lan_side_def stop_rx_thread_def split: option.split)
next
  case (SetChannel ch)
  then show ?thesis by (simp add: app_set_channel_def Let_def lan_side_def split: option.split)
next
  case WipeSession
  then show ?thesis by (simp add: desk_wipe_session_def Let_def) (simp add: lan_side_def)
qed (simp_all add: join_lan_side rx_turns_lan_side set_volume_def set_roger_beep_def,
  simp add: set_transport_config_def lan_side_def)

lemma run_lan_side: "lan_side s (fst (app_run env evs s)) \<and> (ds_transport_held s \<longrightarrow> snd (app_run env evs s) = [])"
proof (induction evs arbitrary: s)
  case (Cons ev evs)
  obtain s1 out where e: "app_apply env ev s = (s1, out)" by (metis prod.exhaust)
  obtain s2 later where r: "app_run env evs s1 = (s2, later)" by (metis prod.exhaust)
  have "lan_side s s1" "ds_transport_held s \<Longrightarrow> out = []" using apply_lan_side [of s env ev] by (auto simp: e)
  moreover have "lan_side s1 s2" "ds_transport_held s1 \<Longrightarrow> later = []" using Cons.IH [of s1] by (auto simp: r)
  ultimately show ?case by (auto simp: e r intro: lan_side_trans) (simp add: lan_side_def)
qed simp

section \<open>Partial reads\<close>

text \<open>A delivery of the microphone's stream, then a turn of the transmit loop.\<close>

definition deliveries :: "(real list \<times> u64 \<times> instant \<times> (dest \<Rightarrow> rstring option)) list \<Rightarrow> app_event list" where
  "deliveries ds = concat (map (\<lambda>(data, ts, now, os). [Microphone data, TxTurn ts now os]) ds)"

lemma length_chunks_exact: "0 < n \<Longrightarrow> length (chunks_exact n xs) * n \<le> length xs"
proof (induction n xs rule: chunks_exact.induct)
  case (1 n xs)
  then show ?case by (subst chunks_exact.simps) auto
qed

lemma short_delivery:
  assumes "ds_tx_task s = Some (TxLoop e cellular)" "ds_is_transmitting s" "da_input (ds_audio s) = Some []"
    "length data < DESK_FRAME_SIZE * da_input_channels (ds_audio s)"
  shows "\<exists>a. app_run env [Microphone data, TxTurn ts now os] s = (s\<lparr>ds_audio := a\<rparr>, []) \<and> da_input a = Some [] \<and>
    da_input_channels a = da_input_channels (ds_audio s)"
proof -
  define a0 where "a0 = input_callback (ds_audio s) data"
  define s0 where "s0 = s\<lparr>ds_audio := a0\<rparr>"
  have "0 < da_input_channels (ds_audio s)" using assms(4) by (cases "da_input_channels (ds_audio s)") auto
  from length_chunks_exact [OF this, of data] assms(4)
  have short: "length (chunks_exact (da_input_channels (ds_audio s)) data) < DESK_FRAME_SIZE"
    by (metis (no_types) mult_less_cancel2 order_le_less_trans)
  have "da_input_channels a0 = da_input_channels (ds_audio s) \<and> (\<exists>ring. da_input a0 = Some ring \<and> length ring < DESK_FRAME_SIZE)"
    using assms(3) short by (auto simp: a0_def input_callback_def ring_push_def)
  then obtain ring where ring: "da_input a0 = Some ring" "length ring < DESK_FRAME_SIZE"
    "da_input_channels a0 = da_input_channels (ds_audio s)" by blast
  then have "app_tx_turn env s0 ts now os = (s0\<lparr>ds_audio := a0\<lparr>da_input := Some []\<rparr>\<rparr>, [])"
    using assms(1,2) by (simp add: app_tx_turn_def s0_def read_samples_def)
  moreover have "app_apply env (Microphone data) s = (s0, [])" by (simp add: s0_def a0_def)
  ultimately show ?thesis using ring(3) by (auto simp: s0_def)
qed

lemma short_deliveries:
  assumes "ds_tx_task s = Some (TxLoop e cellular)" "ds_is_transmitting s" "da_input (ds_audio s) = Some []"
    "\<forall>(data, _) \<in> set ds. length data < DESK_FRAME_SIZE * da_input_channels (ds_audio s)"
  shows "\<exists>a. app_run env (deliveries ds) s = (s\<lparr>ds_audio := a\<rparr>, []) \<and> da_input a = Some []"
  using assms
proof (induction ds arbitrary: s)
  case Nil
  then show ?case by (auto simp: deliveries_def intro: exI [of _ "ds_audio s"])
next
  case (Cons d ds)
  obtain data ts now os where d: "d = (data, ts, now, os)" by (metis prod_cases4)
  from short_delivery [OF Cons.prems(1-3), of data env ts now os] Cons.prems(4) obtain a where
    a: "app_run env [Microphone data, TxTurn ts now os] s = (s\<lparr>ds_audio := a\<rparr>, [])" "da_input a = Some []"
    "da_input_channels a = da_input_channels (ds_audio s)" by (auto simp: d)
  have "\<exists>a'. app_run env (deliveries ds) (s\<lparr>ds_audio := a\<rparr>) = (s\<lparr>ds_audio := a\<rparr>\<lparr>ds_audio := a'\<rparr>, []) \<and> da_input a' = Some []"
    using Cons.IH [of "s\<lparr>ds_audio := a\<rparr>"] Cons.prems a by auto
  then show ?case using a(1) by (auto simp: d deliveries_def split: prod.splits)
qed

section \<open>A press that fails\<close>

text \<open>The transmit flag is up and no task will take it down.\<close>

definition deafened :: "AudioCache \<Rightarrow> ('e, 'd) DeskApp \<Rightarrow> bool" where
  "deafened c s \<longleftrightarrow> ds_is_transmitting s \<and> ds_audio_cache s = c"

lemma fanout_flag:
  assumes "send_opus_fanout env s opus cellular ts now os = (s', sent, w)"
  shows "ds_is_transmitting s' = ds_is_transmitting s" "ds_audio_cache s' = ds_audio_cache s"
  using assms by (auto simp: send_opus_fanout_def Let_def split: option.splits if_splits prod.splits)

lemma deafened_fields [simp]:
  "deafened c (s\<lparr>ds_relays := rs\<rparr>) = deafened c s" "deafened c (s\<lparr>ds_transport := t\<rparr>) = deafened c s"
  "deafened c (s\<lparr>ds_current_channel := ch\<rparr>) = deafened c s" "deafened c (s\<lparr>ds_cellular := x\<rparr>) = deafened c s"
  "deafened c (s\<lparr>ds_cellular_rx := y\<rparr>) = deafened c s" "deafened c (s\<lparr>ds_connection_status := st\<rparr>) = deafened c s"
  "deafened c (leave_cellular s) = deafened c s" "deafened c (with_relay i f s) = deafened c s"
  "deafened c (fst (rx_loop_start s dv)) = deafened c s"
  by (simp_all add: deafened_def with_relay_def leave_cellular_def Let_def rx_loop_start_def
      split: option.split prod.split sum.split)

lemma deafened_room: "deafened c s \<Longrightarrow> deafened c (fst (enter_room env s ch crypto room psk gp epoch answers dv))"
  by (simp add: enter_room_def Let_def case_prod_beta split: sum.split option.split bool.split)

lemma deafened_step:
  assumes "deafened c s" "\<And>tones os. ev \<noteq> StopTransmit tones os"
  shows "deafened c (fst (app_apply env ev s))"
proof (cases ev)
  case (TxTurn ts now os)
  then show ?thesis using assms(1)
    by (auto simp: app_tx_turn_def Let_def deafened_def
        split: option.split tx_task.split prod.split sum.split poll.split dest: fanout_flag)
next
  case (LanRxTurn now)
  then show ?thesis using assms(1)
    by (simp add: lan_rx_turn_def Let_def deafened_def desk_rx_frame_def split: option.split prod.split)
next
  case (RelayRxTurn now)
  then show ?thesis using assms(1)
    by (simp add: relay_rx_turn_def Let_def deafened_def desk_rx_frame_def with_relay_def split: option.split prod.split)
next
  case (JoinCellular qr clock uuid rp gp epoch answers dv)
  then show ?thesis
    using assms(1) deafened_room [OF assms(1)] by (simp add: join_cellular_def split: prod.split sum.split option.split)
next
  case (StopTransmit tones os)
  then show ?thesis using assms(2) by blast
qed (use assms(1) in \<open>auto simp: deafened_def start_discovery_outcome stop_discovery_def stop_rx_thread_def Let_def
    leave_cellular_def desk_wipe_session_def app_set_channel_def start_transmit_def with_relay_def
    set_volume_def set_roger_beep_def set_transport_config_def split: option.split\<close>)

section \<open>A desktop for the witnesses\<close>

lemma app_new_fields:
  assumes "AppState_new env device_id device_name sk dd epoch now next_id prebuffer = Ok s"
  shows "\<not> ds_transport_held s" "ds_rx_task s = None" "ds_device_name s = device_name" "\<not> ds_is_transmitting s"
    "ds_audio s = DeskAudio_new"
  using assms by (auto simp: AppState_new_def split: sum.splits)

definition demo_libs :: desk_env where
  "demo_libs = \<lparr>dk_enc = plain_enc, dk_dec = plain_dec, dk_sha = (\<lambda>_. replicate 32 5), dk_hkdf = (\<lambda>i n. take 32 i),
     dk_kem = demo_kem, dk_crc = (\<lambda>_. 0), dk_bincode = table_bincode [], dk_hex_encode = id, dk_hex_decode = Some\<rparr>"

definition demo_binding :: "(unit, unit) desk_codec" where
  "demo_binding = \<lparr>dc_opus = \<lparr>ap_encoder_new = Inr (), ap_set = (\<lambda>e s. Inr e), ap_encode = (\<lambda>e xs n. (e, Inr (3, [1, 2, 3]))),
     ap_decoder_new = Inr (), ap_packet = (\<lambda>bs. if bs = [] then Inl [] else Inr bs),
     ap_decode = (\<lambda>d p n fec. (d, Inr (960, replicate 960 7)))\<rparr>, dc_conceal = (\<lambda>d n. (d, Inl []))\<rparr>"

text \<open>The one code that parses is the session of channel 3.\<close>

definition demo_room_code :: SessionKey where
  "demo_room_code = \<lparr>sk_key = replicate 32 9, sk_device = [], sk_created_at = 0, sk_expires_at = 1000,
     sk_session_id = ascii ''room0001'', sk_channel = 3, sk_group_name = [], sk_cohort_id = [1]\<rparr>"

definition demo_desk :: "(unit, unit) app_env" where
  "demo_desk = \<lparr>av_desk = demo_libs, av_codec = demo_binding, av_hash = (\<lambda>_. 0),
     av_from_json = (\<lambda>j. if j = [1] then Some demo_room_code else None), av_unb64 = Some\<rparr>"

definition demo_socket :: socket_answers where
  "demo_socket = \<lparr>sk_random = [(50000, Bound)], sk_fixed = None, sk_multicast_addr = None, sk_join = None, sk_ttl = None,
     sk_nonblocking = None\<rparr>"

definition demo_device :: device_answer where
  "demo_device = \<lparr>dv_device = True, dv_default = Some (48000, 1), dv_supported = None, dv_built = True\<rparr>"

definition demo_app :: "(unit, unit) DeskApp" where
  "demo_app = (case AppState_new demo_desk 7 (ascii ''pc'') demo_socket
     \<lparr>dd_nonce = [], dd_secret = [1], dd_kem = [], dd_prefix = replicate 4 2\<rparr> 9 0 1 2 of Ok s \<Rightarrow> s)"

definition demo_join :: app_event where
  "demo_join = JoinCellular [1] (Some 10) [] (replicate 8 1) (replicate 8 2) 5 (AuthBody (Some [1]), WsOpen) demo_device"

lemma demo_app_new: "AppState_new demo_desk 7 (ascii ''pc'') demo_socket
  \<lparr>dd_nonce = [], dd_secret = [1], dd_kem = [], dd_prefix = replicate 4 2\<rparr> 9 0 1 2 = Ok demo_app"
  by (simp add: demo_app_def AppState_new_def DeskTransport_new_def DeskTransport_with_config_def demo_socket_def
      TransportConfig_default_def bind_random_udp_def split: prod.split)

lemma enter_room_key:
  "\<not> ds_transport_held s \<Longrightarrow> group_key (ds_transport (fst (enter_room env s ch crypto room psk gp epoch answers dv))) = Some psk"
proof -
  have rx: "ds_transport (fst (rx_loop_start s1 dv)) = ds_transport s1" for s1 :: "('a, 'b) DeskApp"
    by (simp add: rx_loop_start_def split: prod.split sum.split)
  show "\<not> ds_transport_held s \<Longrightarrow> ?thesis"
    by (simp add: enter_room_def Let_def case_prod_beta rx group_key_def set_session_psk_def desk_set_channel_def from_psk_def
        split: sum.split option.split bool.split)
qed

lemma demo_import:
  "import_session (av_from_json demo_desk) (av_unb64 demo_desk) (SessionManager_new (ascii ''pc'')) [1] (Some 10) [] (replicate 8 1) =
    (\<lparr>sm_channels = [None, None, Some \<lparr>ch_key = demo_room_code, ch_group_name = default_group_name 3\<rparr>, None, None, None, None, None],
      sm_device_name = ascii ''pc''\<rparr>, Inr (3, from_psk (replicate 32 9) (replicate 8 1), [1]))"
proof -
  have channels: "(replicate 8 None)[2 := x] = [None, None, x, None, None, None, None, None]" for x :: "'x option"
    by (simp add: numeral_eq_Suc)
  have channel: "validate_channel 3 = Inr 2" by (simp add: validate_channel_def MAX_CHANNELS_def)
  have hours: "ucast MAX_SESSION_HOURS * 3600 = (259200 :: u64)" by (simp add: MAX_SESSION_HOURS_def)
  show ?thesis
    by (simp add: import_session_def demo_desk_def demo_room_code_def channel SessionManager_new_def hours MAX_CHANNELS_def channels)
qed

lemma demo_joined: "group_key (ds_transport (fst (app_run demo_desk [demo_join] demo_app))) = Some (replicate 32 9)"
proof -
  have channel: "validate_channel 3 = Inr 2" by (simp add: validate_channel_def MAX_CHANNELS_def)
  have auth: "join_authorized (ascii ''room0001'') (Some (replicate 32 9)) None None"
    by (simp add: join_authorized_def enrollment_token_acceptable_def trimmed_token_def)
  define sm where "sm = \<lparr>sm_channels = [None, None, Some \<lparr>ch_key = demo_room_code, ch_group_name = default_group_name 3\<rparr>, None, None,
    None, None, None], sm_device_name = ascii ''pc''\<rparr>"
  have psk: "get_psk_for_channel (av_unb64 demo_desk) sm 3 (Some 10) = Some (replicate 32 9)"
    by (simp add: sm_def get_psk_for_channel_def channel demo_desk_def demo_room_code_def)
  have sid: "get_session_id sm 3 = Some (ascii ''room0001'')"
    by (simp add: sm_def get_session_id_def channel demo_room_code_def)
  show ?thesis
    using app_new_fields(1,3) [OF demo_app_new]
    by (simp add: demo_join_def join_cellular_def demo_import [folded sm_def] psk sid auth enter_room_key)
qed

text \<open>In the middle of a transmission, with a group session and some samples in the ring.\<close>

definition demo_talking :: "pcm \<Rightarrow> (unit, unit) DeskApp" where
  "demo_talking ring = demo_app\<lparr>ds_transport := set_session_psk (ds_transport demo_app) (replicate 32 9) (replicate 8 2),
     ds_is_transmitting := True, ds_tx_task := Some (TxLoop () None),
     ds_audio := DeskAudio_new\<lparr>da_input := Some ring, da_recording := True\<rparr>\<rparr>"

lemma demo_talking_sends:
  "\<exists>bs. (Group, bs) \<in> set (snd (app_apply demo_desk (TxTurn 5 0 (\<lambda>_. None)) (demo_talking (replicate 960 0))))"
proof -
  have held: "\<not> ds_transport_held demo_app" using app_new_fields(1) [OF demo_app_new] .
  have enc: "\<exists>c bs. encrypt plain_enc (from_psk (replicate 32 9) (replicate 8 2)) frame = (c, Inr bs)" for frame
    by (simp add: encrypt_def next_nonce_def from_psk_def plain_enc_def)
  have send: "\<exists>t bs r. desk_send_audio_at demo_libs (set_session_psk t0 (replicate 32 9) (replicate 8 2)) opus ts now (\<lambda>_. None) = (t, [(Group, bs)], r)"
    for t0 opus ts now
  proof -
    let ?frame = "pack_wire_frame (dm_current_channel t0) DESK_SUBCH_MAIN (dm_sender_id t0) (dm_device_name t0)
      (case ts of Some t \<Rightarrow> t | None \<Rightarrow> now) opus"
    obtain c bs where "encrypt plain_enc (from_psk (replicate 32 9) (replicate 8 2)) ?frame = (c, Inr bs)" using enc by blast
    then show ?thesis by (simp add: desk_send_audio_at_def demo_libs_def set_session_psk_def)
  qed
  have opus: "\<exists>opus. desk_encode demo_binding () (replicate 960 0) = ((), Inr opus)"
    by (simp add: desk_encode_def demo_binding_def DESK_FRAME_SIZE_def)
  then obtain opus where opus: "desk_encode demo_binding () (replicate 960 0) = ((), Inr opus)" by blast
  obtain t bs r where t: "desk_send_audio_at demo_libs (set_session_psk (ds_transport demo_app) (replicate 32 9) (replicate 8 2)) opus (Some 5) 5 (\<lambda>_. None) =
      (t, [(Group, bs)], r)" using send by blast
  have "snd (app_apply demo_desk (TxTurn 5 0 (\<lambda>_. None)) (demo_talking (replicate 960 0))) = [(Group, bs)]"
    using held
    by (simp add: app_tx_turn_def demo_talking_def read_samples_def DESK_FRAME_SIZE_def demo_desk_def opus send_opus_fanout_def t)
  then show ?thesis by auto
qed

section \<open>Properties\<close>





text \<open>
  C39 (error). \<open>start_discovery\<close> holds the lock of the transport across \<open>start_rx_thread\<close>, which takes it again, so it never
  returns; and whatever happens before or after, the loop that plays LAN audio is never started. From then on the desktop
  sends no voice on the LAN, and every later start, stop, change of channel and wipe waits for ever, the wipe with the
  group key still installed.
\<close>

theorem desktop_discovery_deadlocks:
  assumes "AppState_new env device_id device_name sk dd epoch now next_id prebuffer = Ok s0"
    and "s = fst (app_run env before s0)" and "app_run env after (fst (start_discovery s None dv)) = (s', sent)"
  shows "snd (start_discovery s None dv) = Pending \<and> ds_rx_task s' = None \<and> sent = [] \<and>
    snd (start_discovery s' spawn dv') = Pending \<and> snd (stop_discovery s') = Pending \<and>
    snd (app_set_channel ch s') = Pending \<and> snd (desk_wipe_session s') = Pending \<and>
    group_key (ds_transport (fst (desk_wipe_session s'))) = group_key (ds_transport s)"
proof -
  define s1 where "s1 = fst (start_discovery s None dv)"
  have s: "ds_rx_task s = None"
    using run_lan_side [of s0 env before] app_new_fields(2) [OF assms(1)] by (simp add: assms(2) lan_side_def)
  have s1: "ds_transport_held s1" "ds_rx_task s1 = None" "group_key (ds_transport s1) = group_key (ds_transport s)"
    using s by (simp_all add: s1_def start_discovery_outcome group_key_def)
  have s': "ds_transport_held s'" "ds_rx_task s' = None" "group_key (ds_transport s') = group_key (ds_transport s)" "sent = []"
    using run_lan_side [of s1 env after] s1 assms(3) by (simp_all add: s1_def [symmetric] lan_side_def)
  then show ?thesis
    by (simp add: start_discovery_outcome stop_discovery_def app_set_channel_def desk_wipe_session_def Let_def)
qed

theorem desktop_discovery_deadlocks_witness:
  "group_key (ds_transport (fst (desk_wipe_session (fst (app_run demo_desk [LeaveCellular, WipeSession]
     (fst (start_discovery (fst (app_run demo_desk [demo_join] demo_app)) None demo_device))))))) = Some (replicate 32 9)"
proof -
  obtain s' sent where r: "app_run demo_desk [LeaveCellular, WipeSession]
      (fst (start_discovery (fst (app_run demo_desk [demo_join] demo_app)) None demo_device)) = (s', sent)"
    by (metis prod.exhaust)
  show ?thesis unfolding r fst_conv
    using desktop_discovery_deadlocks [OF demo_app_new refl r] demo_joined by simp
qed

text \<open>
  C40 (error). The transmit loop takes what the ring holds and throws it away unless it is a whole frame. So if no
  delivery of the microphone between two turns reaches 960 samples, whatever their number, nothing is encoded or sent:
  the relay clients and the transport are as they were, and every sample is gone.
\<close>

theorem desktop_capture_lost:
  assumes "ds_tx_task s = Some (TxLoop e cellular)" "ds_is_transmitting s" "da_input (ds_audio s) = Some []"
    and "\<forall>(data, _) \<in> set ds. length data < DESK_FRAME_SIZE * da_input_channels (ds_audio s)"
    and "app_run env (deliveries ds) s = (s', sent)"
  shows "sent = [] \<and> ds_relays s' = ds_relays s \<and> ds_transport s' = ds_transport s \<and> ds_tx_task s' = ds_tx_task s \<and>
    da_input (ds_audio s') = Some []"
  using short_deliveries [OF assms(1-4), of env] assms(5) by auto

theorem desktop_capture_lost_witness:
  "snd (app_run demo_desk (deliveries [([1, 0], 1, 5, \<lambda>_. None), (replicate 959 0, 2, 6, \<lambda>_. None)]) (demo_talking [])) = []"
proof -
  obtain s' sent where r: "app_run demo_desk (deliveries [([1, 0], 1, 5, \<lambda>_. None), (replicate 959 0, 2, 6, \<lambda>_. None)]) (demo_talking []) =
      (s', sent)" by (metis prod.exhaust)
  have "ds_tx_task (demo_talking []) = Some (TxLoop () None)" "ds_is_transmitting (demo_talking [])"
    "da_input (ds_audio (demo_talking [])) = Some []" "da_input_channels (ds_audio (demo_talking [])) = 1"
    by (simp_all add: demo_talking_def DeskAudio_new_def)
  with desktop_capture_lost [OF this(1-3) _ r] show ?thesis by (simp add: r DESK_FRAME_SIZE_def)
qed

text \<open>
  A press whose microphone cannot be opened returns the error with the transmit flag left up: until a
  release the next presses are refused as already transmitting, no transmit task runs for them, and, whatever arrives
  and however often the loops take a turn, no received frame reaches the audio cache.
\<close>

theorem desktop_failed_press_deafens:
  assumes "\<not> ds_is_transmitting s" "snd (desk_start_recording (ds_audio s) dv) = Inl err"
    and "\<forall>ev \<in> set evs. \<forall>tones os. ev \<noteq> StopTransmit tones os"
    and "s1 = fst (start_transmit env s dv)" "s2 = fst (app_run env evs s1)"
  shows "snd (start_transmit env s dv) = Inl (AppAudio err) \<and> ds_tx_task s1 = ds_tx_task s \<and>
    start_transmit env s2 dv' = (s2, Inl AppAlreadyTransmitting) \<and> ds_audio_cache s2 = ds_audio_cache s"
proof -
  obtain a where a: "desk_start_recording (ds_audio s) dv = (a, Inl err)" using assms(2) by (metis prod.collapse)
  then have s1: "s1 = s\<lparr>ds_is_transmitting := True, ds_connection_status := StTransmitting, ds_audio := a\<rparr>"
    "snd (start_transmit env s dv) = Inl (AppAudio err)"
    using assms(1,4) by (simp_all add: start_transmit_def)
  have "deafened c s \<Longrightarrow> deafened c (fst (app_run env evs s))" for s :: "('a, 'b) DeskApp" and c
    using assms(3)
  proof (induction evs arbitrary: s)
    case (Cons ev evs)
    have "deafened c (fst (app_apply env ev s))" using Cons.prems by (intro deafened_step) auto
    from Cons.IH [OF this] Cons.prems(2) show ?case by (simp split: prod.split) (metis fst_conv)
  qed simp
  then have "deafened (ds_audio_cache s) s2" using s1(1) assms(5) by (simp add: deafened_def)
  with s1 show ?thesis by (simp add: deafened_def start_transmit_def)
qed

theorem desktop_failed_press_deafens_witness:
  "start_transmit demo_desk (fst (app_run demo_desk [RelayRxTurn 1, StartTransmit demo_device]
     (fst (start_transmit demo_desk demo_app (demo_device\<lparr>dv_device := False\<rparr>))))) demo_device =
   (fst (app_run demo_desk [RelayRxTurn 1, StartTransmit demo_device]
     (fst (start_transmit demo_desk demo_app (demo_device\<lparr>dv_device := False\<rparr>)))), Inl AppAlreadyTransmitting)"
proof -
  have "snd (desk_start_recording (ds_audio demo_app) (demo_device\<lparr>dv_device := False\<rparr>)) = Inl NoDevice"
    using app_new_fields(5) [OF demo_app_new]
    by (simp add: desk_start_recording_def DeskAudio_new_def init_input_stream_def)
  moreover have "\<forall>ev \<in> set [RelayRxTurn 1, StartTransmit demo_device]. \<forall>tones os. ev \<noteq> StopTransmit tones os" by simp
  ultimately show ?thesis
    using desktop_failed_press_deafens [OF app_new_fields(4) [OF demo_app_new] _ _ refl refl] by blast
qed

end
