(* ===== verification/Desktop_Link.thy ===== *)
theory Desktop_Link
  imports Desktop_Props Ios_Rekey
begin

text \<open>
  The desktop and a phone in one room of the relay: the speech of an iOS device as the desktop's receive loop gets it.
\<close>

section \<open>From the phone's microphone to the desktop's receive loop\<close>

text \<open>
  A frame of the phone's microphone, a turn of its transmit thread, the poll of its relay queue, the arrival on the
  desktop's socket and the take of the desktop's receive loop, with the frame it gets.
\<close>

type_synonym room_in = "pcm \<times> u64 \<times> u64 \<times> u64 \<times> instant \<times> instant \<times> desk_draw"

definition room_hop ::
  "('e, 'd) ios_env \<Rightarrow> desk_env \<Rightarrow> nat \<Rightarrow> ('e, 'd) IosMachine \<Rightarrow> DeskRelay \<Rightarrow> room_in \<Rightarrow>
   ('e, 'd) IosMachine \<times> DeskRelay \<times> DeskFrame option" where
  "room_hop env dk i a r x =
     (case x of (samples, now, stamp, now_ms, t_in, t_out, dd) \<Rightarrow>
        case ms_poll_relay_outbound (ios_tx_turn env i now stamp None (fst (process_audio_input samples a))) of
          (a, None) \<Rightarrow> (a, r, None)
        | (a, Some p) \<Rightarrow>
            (let r = fst (io_turn dk r (ArrivedBinary p) True now_ms t_in dd)
             in case recv (rl_inbound r) t_out of (q, f) \<Rightarrow> (a, r\<lparr>rl_inbound := q\<rparr>, f)))"

fun room_run ::
  "('e, 'd) ios_env \<Rightarrow> desk_env \<Rightarrow> nat \<Rightarrow> ('e, 'd) IosMachine \<Rightarrow> DeskRelay \<Rightarrow> room_in list \<Rightarrow> DeskFrame list" where
  "room_run env dk i a r [] = []"
| "room_run env dk i a r (x # xs) =
     (case room_hop env dk i a r x of (a, r, f) \<Rightarrow> (case f of Some f \<Rightarrow> [f] | None \<Rightarrow> []) @ room_run env dk i a r xs)"

text \<open>The reference: what the phone's encoder makes of the microphone, under the phone's name and its timestamps.\<close>

fun phone_frames :: "('e, 'd) audiopus \<Rightarrow> rstring \<Rightarrow> 'e \<Rightarrow> (pcm \<times> u64) list \<Rightarrow> DeskFrame list" where
  "phone_frames ap talker e [] = []"
| "phone_frames ap talker e ((samples, stamp) # xs) =
     (case ios_encode ap e samples of
        (e, Inl _) \<Rightarrow> phone_frames ap talker e xs
      | (e, Inr opus) \<Rightarrow> \<lparr>df_sender = talker, df_timestamp = stamp, df_opus = opus\<rparr> # phone_frames ap talker e xs)"

text \<open>
  The desktop is on its socket with the talker's key, is another member, has its receive queue drained, and has seen
  none of the nonces to come.
\<close>

definition tuned :: "DeskRelay \<Rightarrow> rstring \<Rightarrow> CryptoSession \<Rightarrow> bool" where
  "tuned r talker c \<longleftrightarrow>
     rl_supervisor r = Driving \<and> rl_running r \<and> talker \<noteq> rl_peer_id r \<and>
     rq_items (rl_inbound r) = [] \<and> \<not> rq_closed (rl_inbound r) \<and> 0 < rq_capacity (rl_inbound r) \<and>
     rq_max_age (rl_inbound r) = RELAY_FRAME_MAX_AGE \<and>
     cs_cipher (rl_crypto r) = cs_cipher c \<and> session_ok (rl_crypto r) \<and>
     (\<forall>n. cs_nonce_counter c < n \<longrightarrow> nonce_of c n \<notin> set (seen_order (rl_crypto r)))"

text \<open>In time for both ends: a whole frame within the 60 seconds, taken within the age limit of the queue.\<close>

definition room_in_time :: "u64 \<Rightarrow> room_in \<Rightarrow> bool" where
  "room_in_time t0 x \<longleftrightarrow>
     (case x of (samples, now, stamp, now_ms, t_in, t_out, dd) \<Rightarrow>
        length samples = 960 \<and> \<not> (0 < t0 \<and> 60000 \<le> sat_sub now t0) \<and> t_out - t_in \<le> RELAY_FRAME_MAX_AGE)"

lemma wire_read_stamp:
  assumes "length talker \<le> 32" and "utf8_valid talker"
  shows "\<exists>n. unpack_wire_frame (pack_wire_frame ch SUBCH_MAIN talker name stamp enc) = Ok (ch, SUBCH_MAIN, talker, n, stamp, enc)"
  using assms unpack_pack_legacy [of talker "take 64 name" ch SUBCH_MAIN stamp enc]
  by (simp add: unpack_wire_frame_def pack_wire_frame_tail tail_frame_def)

lemma handle_not_control:
  assumes "d \<noteq> []" "0x20 < d ! 0"
  shows "handle_inbound dk cp d now dd = (cp, ActNotControl, None)"
proof -
  have "\<not> d ! 0 < 0x10" "\<not> d ! 0 \<le> 0x20" using assms(2) by (simp_all add: word_less_nat_alt word_le_nat_alt)
  with assms(1) show ?thesis by (simp add: handle_inbound_def classify_inbound_def is_control_tlv_def Let_def)
qed

lemma desktop_hears:
  assumes "aead_correct enc (dk_dec dk)" and l: "tuned r talker c" and ok: "session_ok c" "0x20 < cs_nonce_prefix c ! 0"
    and id: "length talker \<le> 32" "utf8_valid talker"
    and p: "encrypt enc c (pack_wire_frame ch SUBCH_MAIN talker name stamp opus) = (c1, Inr p)"
    and r1: "r1 = fst (io_turn dk r (ArrivedBinary p) True now_ms t_in dd)" and age: "t_out - t_in \<le> RELAY_FRAME_MAX_AGE"
  shows "snd (recv (rl_inbound r1) t_out) = Some \<lparr>df_sender = talker, df_timestamp = stamp, df_opus = opus\<rparr> \<and>
    tuned (r1\<lparr>rl_inbound := fst (recv (rl_inbound r1) t_out)\<rparr>) talker c1"
proof -
  note lt = l [unfolded tuned_def]
  obtain s1 where s1: "decrypt (dk_dec dk) (rl_crypto r) p = (s1, Inr (pack_wire_frame ch SUBCH_MAIN talker name stamp opus))"
    "cs_cipher s1 = cs_cipher c1" "session_ok s1" "\<forall>n. cs_nonce_counter c1 < n \<longrightarrow> nonce_of c1 n \<notin> set (seen_order s1)"
    using decrypts_next [OF assms(1) ok(1) p, of "rl_crypto r"] lt by blast
  have first: "p \<noteq> []" "0x20 < p ! 0"
    using p ok by (auto simp: encrypt_Inr_iff nonce_of_def session_ok_def nth_append)
  obtain n where w: "unpack_wire_frame (pack_wire_frame ch SUBCH_MAIN talker name stamp opus) = Ok (ch, SUBCH_MAIN, talker, n, stamp, opus)"
    using wire_read_stamp [OF id] by blast
  define q where "q = fst (try_send (rl_inbound r) \<lparr>df_sender = talker, df_timestamp = stamp, df_opus = opus\<rparr> t_in)"
  have r1': "r1 = r\<lparr>rl_crypto := s1, rl_packets_received := rl_packets_received r + 1, rl_inbound := q\<rparr>"
    using lt by (simp add: r1 io_turn_def relay_handle_inbound_def handle_not_control [OF first] relay_audio_def relay_open_def
        s1(1) w q_def)
  have q: "rq_items q = [(\<lparr>df_sender = talker, df_timestamp = stamp, df_opus = opus\<rparr>, t_in)]" "\<not> rq_closed q" "0 < rq_capacity q"
    "rq_max_age q = RELAY_FRAME_MAX_AGE"
    using lt by (simp_all add: q_def try_send_def)
  have "fst (recv q t_out) = q\<lparr>rq_items := [], rq_metrics := (rq_metrics q)\<lparr>qm_dequeued := qm_dequeued (rq_metrics q) + 1\<rparr>\<rparr>"
    "snd (recv q t_out) = Some \<lparr>df_sender = talker, df_timestamp = stamp, df_opus = opus\<rparr>"
    using q age by (simp_all add: recv_def)
  with lt q s1 show ?thesis by (simp add: r1' tuned_def)
qed

text \<open>One hop: both ends stay in step and the loop gets what the reference gives.\<close>

lemma room_hop_step:
  assumes "aead_correct (io_enc env) (dk_dec dk)" and "aead_total (io_enc env)"
    and t: "talking a i ch c t0" and l: "tuned r (im_sender_id a) c" and x: "room_in_time t0 x"
    and nonces: "cs_nonce_counter c \<noteq> -1" and h: "room_hop env dk i a r x = (a1, r1, f)"
  shows "\<exists>c1. talking a1 i ch c1 t0 \<and> tuned r1 (im_sender_id a1) c1 \<and> im_sender_id a1 = im_sender_id a \<and>
    unat (cs_nonce_counter c1) \<le> Suc (unat (cs_nonce_counter c)) \<and>
    phone_frames (io_opus env) (im_sender_id a) (im_encoder a) ((fst x, fst (snd (snd x))) # xs) =
      (case f of Some f \<Rightarrow> [f] | None \<Rightarrow> []) @ phone_frames (io_opus env) (im_sender_id a1) (im_encoder a1) xs"
proof -
  obtain samples now stamp now_ms t_in t_out dd where x_def: "x = (samples, now, stamp, now_ms, t_in, t_out, dd)" by (metis prod_cases7)
  let ?m = "ios_tx_turn env i now stamp None (fst (process_audio_input samples a))"
  have it: "in_time t0 (samples, now, stamp, now_ms, dr)" for dr using x by (simp add: room_in_time_def in_time_def x_def)
  note turn = talker_turn [OF t it, of ?m env, OF refl]
  note tp = t [unfolded talking_def]
  obtain e res where enc: "ios_encode (io_opus env) (im_encoder a) samples = (e, res)" by fastforce
  show ?thesis
  proof (cases res)
    case (Inl err)
    from turn(1) [OF enc [unfolded Inl]] have m: "talking ?m i ch c t0" "im_encoder ?m = e" "im_sender_id ?m = im_sender_id a"
      by blast+
    then have "ms_poll_relay_outbound ?m = (?m, None)"
      by (simp add: ms_poll_relay_outbound_def it_poll_relay_outbound_def talking_def)
    with h have "a1 = ?m" "r1 = r" "f = None" by (simp_all add: room_hop_def x_def)
    then show ?thesis using m l enc Inl x_def by (intro exI [of _ c]) simp
  next
    case (Inr opus)
    let ?w = "pack_wire_frame ch SUBCH_MAIN (im_sender_id a) (im_device_name a) stamp opus"
    have "length ?w < 2 ^ 32"
      using wire_short [of ch SUBCH_MAIN "im_sender_id a" "im_device_name a" stamp opus] encoded_short [OF enc [unfolded Inr]] by simp
    then obtain ct where "io_enc env (cs_cipher c) (nonce_of c (cs_nonce_counter c + 1)) [] ?w = Some ct"
      using aead_totalD [OF assms(2)] by blast
    then obtain c1 p where cry: "encrypt (io_enc env) c ?w = (c1, Inr p)" and c1: "c1 = c\<lparr>cs_nonce_counter := cs_nonce_counter c + 1\<rparr>"
      using nonces by (auto simp: encrypt_Inr_iff)
    from turn(2) [OF enc [unfolded Inr] cry] obtain a2 where
      a2: "ms_poll_relay_outbound ?m = (a2, Some p)" "talking a2 i ch c1 t0" "im_encoder a2 = e" "im_sender_id a2 = im_sender_id a"
      by blast
    define r2 where "r2 = fst (io_turn dk r (ArrivedBinary p) True now_ms t_in dd)"
    have age: "t_out - t_in \<le> RELAY_FRAME_MAX_AGE" using x by (simp add: room_in_time_def x_def)
    have hear: "snd (recv (rl_inbound r2) t_out) = Some \<lparr>df_sender = im_sender_id a, df_timestamp = stamp, df_opus = opus\<rparr> \<and>
        tuned (r2\<lparr>rl_inbound := fst (recv (rl_inbound r2) t_out)\<rparr>) (im_sender_id a) c1"
      using desktop_hears [OF assms(1) l _ _ _ _ cry r2_def age] tp by blast
    have "a1 = a2" "r1 = r2\<lparr>rl_inbound := fst (recv (rl_inbound r2) t_out)\<rparr>" "f = snd (recv (rl_inbound r2) t_out)"
      using h a2(1) by (simp_all add: room_hop_def x_def r2_def [symmetric] Let_def split: prod.splits)
    moreover have "unat (cs_nonce_counter c1) \<le> Suc (unat (cs_nonce_counter c))" using nonces by (simp add: c1 u32_succ)
    ultimately show ?thesis using hear a2 enc Inr x_def by (intro exI [of _ c1]) simp
  qed
qed


text \<open>A desktop on its socket with the session of the demonstration phone.\<close>

definition demo_desk_relay :: DeskRelay where
  "demo_desk_relay =
     (DeskRelay_new demo_libs (ascii ''ABCD1234'') (ascii ''desktop'') (ascii ''desk-1'')
        (from_psk (replicate 32 7) (replicate 8 1)) (replicate 32 7) 5)\<lparr>rl_supervisor := Driving, rl_running := True\<rparr>"

definition demo_desk_draw :: desk_draw where
  "demo_desk_draw = \<lparr>dd_nonce = replicate 12 1, dd_secret = [1], dd_kem = [2], dd_prefix = replicate 8 3\<rparr>"

lemma demo_room:
  "tuned demo_desk_relay (im_sender_id demo_talker) (from_psk (replicate 32 7) (replicate 8 0x47))"
proof -
  have "seen_order (from_psk k pre) = []" for k pre by (simp add: seen_order_def from_psk_def new_replay_window_def)
  moreover have "im_sender_id demo_talker \<noteq> ascii ''desk-1''"
    by (simp add: demo_talker_def demo_id ios_sender_id_def ascii_def)
  ultimately show ?thesis
    by (simp add: demo_desk_relay_def tuned_def DeskRelay_new_def realtime_channel_def RELAY_INBOUND_CAPACITY_def) (simp add: from_psk_def)
qed


end
