(* ===== verification/Spec2Isabelle.thy ===== *)
theory Spec2Isabelle
  imports Protocol Ptt_Frames Wire Floor Channels Crypto_Session Control_Auth Hybrid_Rekey Pqc
    Emergency Session Cohort_History Audit_Chain Sealed Share Enrollment Tls_Pins Audio_Playback
    Users State_Machine Voice_Link Ios_Link Ios_Rekey Desktop_Link
begin

text \<open>
  SassyTalkie is a push-to-talk walkie-talkie. The Rust code has a shared library (\<open>core/src\<close>) and clients for
  Android (\<open>android-native/src\<close>), iOS and the desktop. This development models the library and the
  logic of the three clients, and proves what makes them correct. Every definition translates the function of the same name, or the
  one its comment names; a suffix or prefix marks a name taken in HOL or by another component.

  The parts and how they interact.

  A voice frame is captured and numbered (Voice_Threads), compressed (Codec), packed (Wire), encrypted under the
  session key (Crypto_Session), put on every live bearer (Transport over Wifi_Links, Cellular and Packet_Queue),
  decrypted at the other side by the live or the staged key (Transport), parsed (Wire), checked and ordered (Rx_Path,
  Rx_Decode), and handed to the audio cache (Audio_Buffers, Audio_Cache), which plays live, queues or mixes it.
  State_Machine starts and stops the two threads as bearers come and go. Keys come from a QR session (Session),
  a hybrid key agreement (Pqc) and a rekey of four messages (Hybrid_Rekey). Control frames (Protocol, Ptt_Frames,
  Emergency) travel in an authenticated envelope (Control_Auth); Floor arbitrates who may talk and Channels which
  channel is heard. Audit_Chain, Cohort_History, Enrollment, Share, Sealed and Tls_Pins serve membership and logging.

  Theories and sources.

  Talk_Prelude: words, bytes, outcomes (\<open>Ok\<close>, \<open>Err\<close>, \<open>Panic\<close>), the TLV contract, insertion-ordered maps, instants.
  Utf8_Std: the standard library's UTF-8 decoding. Dedup_Window: the bounded duplicate filter that crypto.rs and
  audio_cache.rs both keep. Aead: the documented behaviour of the ciphers. Civil_Date: the calendar of audit.rs.
  Protocol, Ptt_Frames, Wire, Floor, Channels, Crypto_Session (crypto.rs), Control_Auth, Emergency, Session,
  Cohort_History, Hybrid_Rekey, Pqc, Sealed, Share, Enrollment, Tls_Pins, Audit_Chain (audit.rs): the file of that
  name under core/src. Audio_Buffers, Audio_Cache: core/src/audio_cache.rs; Audio_Cache_Props and Audio_Playback
  hold its lemmas and properties.
  Packet_Queue, Cellular: cellular_transport.rs. Wifi_Links: wifi_transport.rs and wifi_direct.rs. Transport:
  transport.rs. Users: users.rs. State_Machine: state.rs. Codec: codec.rs. Rx_Decode, Rx_Path, Voice_Threads:
  audio_pipeline.rs. All under android-native/src. Voice_Link joins two devices over the relay.
  The iOS client (\<open>ios-native/src\<close>): Ios_Audio (audio.rs, codec.rs), Ios_Floor (floor.rs), Ios_Transport (transport.rs),
  Ios_State (state.rs, control.rs); Ios_Runs holds what every run of it keeps, Ios_Props its properties, Ios_Link the
  way from one device's microphone to another's speaker, Ios_Rekey the rekey between two of them.
  The desktop client (\<open>tauri-desktop/src-tauri/src\<close>): Desktop_Queue (transport/mod.rs), Desktop_Liveness (liveness.rs and
  the frame wrappers of transport/control.rs), Desktop_Engine (security/crypto.rs), Desktop_Packet (protocol.rs),
  Desktop_Control (control_plane.rs), Desktop_Manager (manager.rs: the LAN transport), Desktop_Relay (cellular.rs),
  Desktop_Audio (audio.rs, codec.rs and the decoder pool of lib.rs), Desktop_App (lib.rs); Desktop_Runs holds what
  every run of it keeps, Desktop_Props its properties, Desktop_Link the way from an iPhone's microphone to its loop.

  State and operations. A struct is a record, an enum a datatype, an integer a word of its width where overflow can
  be reached, a \<open>HashMap\<close> a finite map or an association list where iteration order shows, a \<open>VecDeque\<close> a list with
  its front first. A method takes the record and returns it updated. Errors are sums or outcomes; indexing and slicing
  panics are outcomes where the code can reach them. Locks are held for whole operations, so an operation is a step;
  threads are modelled turn by turn. Where a task can wait for a lock for ever (the desktop's transport) the lock is
  part of the state.

  Contracts. \<open>tlv_message\<close> (control messages), \<open>floor_arbiter\<close>, \<open>dedup_window\<close> (replay window, frame filter),
  \<open>fresh_queue\<close> (relay and Bluetooth queues), \<open>sized_decoder\<close> (codec under the reorder buffer) are locales, interpreted
  on the model's own operations; their lemmas are proved once inside.

  What the lemmas show. Crypto_Session and Control_Auth: nonces are never reused, each authentic packet is delivered
  once, an envelope opens only if a member of the room sealed it and only once; the bitmap refines a set. Transport:
  nothing leaves unencrypted, a staged key is promoted only by the peer's use of it. Voice_Threads: frames are
  numbered without repetition and sent exactly once. Packet_Queue: order and freshness. Rx_Decode, Rx_Path: decoding
  in order, no stranded frame, bounds. Audio theories: the invariant of the cache, duplicate suppression, complete
  playback. Channels: the monitor follows the documented precedence and a sweep reaches every channel. Hybrid_Rekey:
  every interleaving of the four messages. Emergency: beacon cadence and justified alarms. Audit_Chain: verification,
  boundedness and tamper evidence. State_Machine: life of the threads. The root holds the property that spans them.
  The iOS theories: the output is sealed, the machine keeps its invariant under every call and turn, two talkers end
  with one, pairing agrees, voice and rekey run end to end. The desktop theories: voice leaves sealed, every run keeps
  the invariant, an iPhone is heard over the relay.
  Several properties state errors of the code: a rekey split, threads silenced by a WiFi Direct loss, a staged key
  surviving disconnect or wipe, sessions iOS cannot hear, the desktop's deadlock in discovery and its lost capture.

  Idealisations. Floating-point arithmetic is real arithmetic. A call reads the clock once; instants are naturals in
  nanoseconds. AES-GCM, HMAC, HKDF, SHA-256, X25519, ML-KEM, Opus, JSON, base64, random numbers and the answers of
  sockets, microphones and the operating system are parameters, with what the code relies on as named hypotheses and
  concrete instances in the witnesses.

  Bounds and fuel. Every loop is a total function: structural, or with a termination measure (the drain loops by the
  frames they can still hand out, the poll loop by the packets waiting). \<open>drain_fuel\<close> restates the reorder drain with
  fuel 66, enough for its 32 waiting frames.

  Not modelled. Logging, JSON prints and accessors; the OpenSL and Oboe streams, AudioTrack pacing and the Whisper
  bridge (C libraries and device I/O); the floating-point effects of audio_effects.rs; JNI and C-ABI marshalling
  (jni_bridge.rs, the iOS lib.rs and ffi.rs), which translate types and call the modelled functions; the iOS
  bluetooth.rs (a stub) and protocol.rs (not used by the state machine); Android diagnostics, permissions and the
  stand-alone UI; the desktop's commands.rs, ui.rs, main.rs and tones.rs, its OS vaults, integrity checks and process
  hardening, and the unused transports (discovery.rs, bluetooth.rs, wifi.rs, tls_pinning.rs).
\<close>

section \<open>From one microphone to the other speaker\<close>


text \<open>Two devices with the key 7, one pressed; each turn is polled, delivered and read at once.\<close>

definition keyed_device :: "bytes \<Rightarrow> TransportManager" where
  "keyed_device nonce_prefix = tm_on_cellular_connected (set_psk (TransportManager_new []) [7] nonce_prefix)"

definition demo_talker :: "(nat, unit) TxState" where
  "demo_talker = (demo_tx False)\<lparr>tx_ptt_pressed := True, tx_transport := keyed_device (replicate 8 1)\<rparr>"

definition demo_listener :: "nat rx_env" where
  "demo_listener = \<lparr>re_decoder = opus_decoder echo_opus 0, re_aead = plain_dec, re_hash = (\<lambda>_. 0), re_local_id = [0x42],
     re_channel = 1, re_subchannel = 0\<rparr>"

definition demo_hop :: hop where
  "demo_hop = \<lparr>hop_io = demo_io, hop_polled = 0, hop_arrived = 0, hop_read = 0\<rparr>"


end
